(* ===== verification/Prelude.thy ===== *)
theory Prelude
  imports Main "HOL-Library.AList" "HOL-Library.Word"
begin

text \<open>
  Shared vocabulary of the development: the collections of simplification rules the component
  theories fill, the JavaScript notions every component uses (errors as values, truthiness of
  optional strings, \<open>Array.prototype.join\<close> and \<open>split\<close> on one separator, insertion-ordered
  maps), and the generic list lemmas the component proofs rest on.
\<close>

named_theorems js_defs "definitions of JavaScript library notions"
named_theorems inv_intros "introduction rules of component invariants"
named_theorems frame_simps "fields an operation leaves alone"

section \<open>Errors and optional values\<close>

text \<open>A JavaScript \<open>Error\<close> is its message; a call that may throw returns \<open>error + 'a\<close>.\<close>

datatype error = Error (message: string)

type_synonym 'a result = "error + 'a"

text \<open>The \<open>??\<close> operator.\<close>

definition nullish :: "'a option \<Rightarrow> 'a \<Rightarrow> 'a" where
  [js_defs]: "nullish x d = (case x of None \<Rightarrow> d | Some v \<Rightarrow> v)"

lemma nullish_simps [simp]: "nullish None d = d" "nullish (Some v) d = v"
  by (simp_all add: nullish_def)

text \<open>An optional string used as a condition: \<open>undefined\<close>, \<open>null\<close> and the empty string are false.\<close>

definition truthy :: "'a list option \<Rightarrow> bool" where
  [js_defs]: "truthy x \<longleftrightarrow> (case x of None \<Rightarrow> False | Some v \<Rightarrow> v \<noteq> [])"

lemma truthy_simps [simp]: "\<not> truthy None" "truthy (Some v) \<longleftrightarrow> v \<noteq> []"
  by (simp_all add: truthy_def)

lemma truthyE: "truthy x \<Longrightarrow> (\<And>v. x = Some v \<Longrightarrow> v \<noteq> [] \<Longrightarrow> P) \<Longrightarrow> P"
  by (cases x) auto

text \<open>The \<open>||\<close> operator on optional strings.\<close>

definition or_else :: "string option \<Rightarrow> string \<Rightarrow> string" where
  "or_else x d = (if truthy x then the x else d)"

text \<open>A \<open>Set\<close> of strings iterates in insertion order.\<close>

definition set_add :: "string \<Rightarrow> string list \<Rightarrow> string list" where
  "set_add x xs = (if x \<in> set xs then xs else xs @ [x])"

definition set_delete :: "string \<Rightarrow> string list \<Rightarrow> string list" where
  "set_delete x xs = filter (\<lambda>y. y \<noteq> x) xs"

section \<open>Numbers as text\<close>

fun dec_digits :: "nat \<Rightarrow> nat \<Rightarrow> string" where
  "dec_digits 0 n = ''''"
| "dec_digits (Suc f) n =
     (if n < 10 then [char_of (48 + n)] else dec_digits f (n div 10) @ [char_of (48 + n mod 10)])"

text \<open>\<open>String(n)\<close> of a non-negative integer; it has at most \<open>n + 1\<close> digits.\<close>

definition dec :: "nat \<Rightarrow> string" where
  "dec n = dec_digits (Suc n) n"

text \<open>\<open>String(n)\<close> of any integer.\<close>

definition int_dec :: "int \<Rightarrow> string" where
  "int_dec n = (if n < 0 then ''-'' @ dec (nat (- n)) else dec (nat n))"

section \<open>White space\<close>

text \<open>The white space of \<open>String.prototype.trim\<close> among the first 256 code units.\<close>

definition is_space :: "char \<Rightarrow> bool" where
  "is_space c \<longleftrightarrow> of_char c \<in> {9, 10, 11, 12, 13, 32, 160 :: nat}"

definition trim :: "string \<Rightarrow> string" where
  "trim s = rev (dropWhile is_space (rev (dropWhile is_space s)))"

lemma dropWhile_idem: "dropWhile P (dropWhile P xs) = dropWhile P xs"
  by (induction xs) auto

lemma trim_rev: "dropWhile P (rev (dropWhile P (rev xs))) = rev (dropWhile P (rev (dropWhile P xs)))"
proof (cases "\<forall>x\<in>set xs. P x")
  case True
  then have e: "dropWhile P (rev xs) = []" "dropWhile P xs = []" by (simp_all add: dropWhile_eq_Nil_conv)
  show ?thesis unfolding e by simp
next
  case False
  then have "\<exists>x\<in>set xs. \<not> P x" by blast
  from split_list_first_prop [OF this] obtain as b cs
    where split: "xs = as @ b # cs" "\<not> P b" "\<forall>a\<in>set as. P a" by blast
  have 1: "dropWhile P (as @ b # cs) = b # cs" using split by (simp add: dropWhile_append2)
  have 2: "dropWhile P (ys @ b # zs) = dropWhile P ys @ b # zs" for ys zs
    using split(2) by (induction ys) auto
  show ?thesis using 1 2 split(3) unfolding split(1) by (simp add: dropWhile_append2)
qed

lemma trim_trim [simp]: "trim (trim s) = trim s"
  by (simp add: trim_def trim_rev dropWhile_idem)

section \<open>Joining and splitting\<close>

text \<open>\<open>parts.join(sep)\<close>.\<close>

fun join :: "'a list \<Rightarrow> 'a list list \<Rightarrow> 'a list" where
  "join sep [] = []"
| "join sep [x] = x"
| "join sep (x # y # ys) = x @ sep @ join sep (y # ys)"

text \<open>\<open>content.split(c)\<close> for a one-unit separator: never empty.\<close>

fun split_on :: "'a \<Rightarrow> 'a list \<Rightarrow> 'a list list" where
  "split_on c [] = [[]]"
| "split_on c (x # xs) =
     (if x = c then [] # split_on c xs
      else (case split_on c xs of [] \<Rightarrow> [[x]] | l # ls \<Rightarrow> (x # l) # ls))"

lemma split_on_ne [simp]: "split_on c xs \<noteq> []"
  by (induction xs) (auto split: list.splits)

lemma join_Cons: "join sep (x # xs) = (if xs = [] then x else x @ sep @ join sep xs)"
  by (cases xs) auto

lemma join_Cons_ne: "xs \<noteq> [] \<Longrightarrow> join sep (x # xs) = x @ sep @ join sep xs"
  by (simp add: join_Cons)

lemma join_split_on [simp]: "join [c] (split_on c xs) = xs"
proof (induction xs)
  case (Cons x xs)
  then show ?case
    by (cases "split_on c xs") (auto simp: join_Cons)
qed simp

lemma split_on_no_sep: "l \<in> set (split_on c xs) \<Longrightarrow> c \<notin> set l"
proof (induction xs arbitrary: l)
  case (Cons x xs)
  then show ?case
    by (cases "split_on c xs") (auto split: if_splits)
qed simp

lemma split_on_subset: "l \<in> set (split_on c xs) \<Longrightarrow> set l \<subseteq> set xs"
proof (induction xs arbitrary: l)
  case (Cons x xs)
  then show ?case
    by (cases "split_on c xs") (fastforce split: if_splits)+
qed simp

lemma split_on_id: "c \<notin> set xs \<Longrightarrow> split_on c xs = [xs]"
  by (induction xs) auto

lemma split_on_append: "c \<notin> set l \<Longrightarrow> split_on c (l @ c # xs) = l # split_on c xs"
  by (induction l) auto

lemma join_append:
  "xs \<noteq> [] \<Longrightarrow> ys \<noteq> [] \<Longrightarrow> join sep (xs @ ys) = join sep xs @ sep @ join sep ys"
  by (induction xs) (auto simp: join_Cons)

lemma split_on_join:
  "ls \<noteq> [] \<Longrightarrow> (\<And>l. l \<in> set ls \<Longrightarrow> c \<notin> set l) \<Longrightarrow> split_on c (join [c] ls) = ls"
  by (induction ls) (auto simp: join_Cons split_on_append split_on_id)

section \<open>Lists\<close>

text \<open>The last element that satisfies a test, as a downward scan finds it.\<close>

definition find_last :: "('a \<Rightarrow> bool) \<Rightarrow> 'a list \<Rightarrow> 'a option" where
  [js_defs]: "find_last P xs = find P (rev xs)"

lemma find_last_Some: "find_last P xs = Some x \<Longrightarrow> x \<in> set xs \<and> P x"
  unfolding find_last_def find_Some_iff by (metis length_rev nth_mem set_rev)

lemma find_last_None: "find_last P xs = None \<longleftrightarrow> (\<forall>x\<in>set xs. \<not> P x)"
  by (auto simp: find_last_def find_None_iff)

lemma find_last_snoc [simp]:
  "find_last P (xs @ [x]) = (if P x then Some x else find_last P xs)"
  by (simp add: find_last_def)

lemma find_last_Nil [simp]: "find_last P [] = None"
  by (simp add: find_last_def)

lemma find_last_split:
  "find_last P xs = Some x \<Longrightarrow> \<exists>as bs. xs = as @ x # bs \<and> P x \<and> (\<forall>b\<in>set bs. \<not> P b)"
proof (induction xs rule: rev_induct)
  case (snoc y xs)
  show ?case
  proof (cases "P y")
    case True
    with snoc.prems show ?thesis by (intro exI [of _ xs] exI [of _ "[]"]) simp
  next
    case False
    with snoc obtain as bs where "xs = as @ x # bs" "P x" "\<forall>b\<in>set bs. \<not> P b" by auto
    with False show ?thesis by (intro exI [of _ as] exI [of _ "bs @ [y]"]) auto
  qed
qed simp

lemma takeWhile_dropWhile_len: "length (dropWhile P xs) \<le> length xs"
  by (simp add: length_dropWhile_le)

lemma sum_list_take_le: "sum_list (take k (xs :: nat list)) \<le> sum_list xs"
  by (metis append_take_drop_id le_add1 sum_list_append)

end
