(* ===== verification/Utf.thy ===== *)
theory Utf
  imports Prelude
begin

text \<open>
  JavaScript strings and their UTF-8 encoding. A string is the list of its UTF-16 code units;
  \<open>Buffer.from(s, "utf-8")\<close> joins surrogate pairs into one code point and writes U+FFFD for a
  surrogate without its partner; \<open>Buffer.toString("utf-8")\<close> reads code points back. The decoder is
  total: a byte that starts no well-formed sequence gives one U+FFFD. The program only decodes
  slices that start at a character boundary of an encoded string, where the decoder inverts the
  encoder (\<open>decode_encode\<close>).
\<close>

unbundle bit_operations_syntax

type_synonym cu = nat
type_synonym jsstring = "cu list"
type_synonym byte = "8 word"

section \<open>Code units and code points\<close>

definition is_high :: "cu \<Rightarrow> bool" where
  "is_high u \<longleftrightarrow> 0xD800 \<le> u \<and> u < 0xDC00"

definition is_low :: "cu \<Rightarrow> bool" where
  "is_low u \<longleftrightarrow> 0xDC00 \<le> u \<and> u < 0xE000"

fun code_points :: "jsstring \<Rightarrow> nat list" where
  "code_points [] = []"
| "code_points [u] = [if is_high u \<or> is_low u then 0xFFFD else u]"
| "code_points (u # v # us) =
     (if is_high u \<and> is_low v
      then (0x10000 + (u - 0xD800) * 1024 + (v - 0xDC00)) # code_points us
      else (if is_high u \<or> is_low u then 0xFFFD else u) # code_points (v # us))"

text \<open>The code units of one code point, and of a list of them.\<close>

definition cp_units :: "nat \<Rightarrow> jsstring" where
  "cp_units c = (if c < 0x10000 then [c]
     else [0xD800 + (c - 0x10000) div 1024, 0xDC00 + (c - 0x10000) mod 1024])"

text \<open>A string without lone surrogates.\<close>

fun well_formed :: "jsstring \<Rightarrow> bool" where
  "well_formed [] \<longleftrightarrow> True"
| "well_formed [u] \<longleftrightarrow> \<not> is_high u \<and> \<not> is_low u"
| "well_formed (u # v # us) \<longleftrightarrow>
     (if is_high u then is_low v \<and> well_formed us else \<not> is_low u \<and> well_formed (v # us))"

lemma surrogate_disj: "is_high u \<Longrightarrow> \<not> is_low u"
  by (simp add: is_high_def is_low_def)

lemma code_points_Cons_plain:
  "\<not> is_high u \<Longrightarrow> \<not> is_low u \<Longrightarrow> code_points (u # us) = u # code_points us"
  by (cases us) auto

lemma code_points_append_plain:
  assumes "\<not> is_high u" "\<not> is_low u"
  shows "code_points (xs @ u # ys) = code_points xs @ u # code_points ys"
  using assms
  by (induction xs rule: code_points.induct) (auto simp: code_points_Cons_plain)

lemma code_points_units: "well_formed xs \<Longrightarrow> concat (map cp_units (code_points xs)) = xs \<or> \<not> (\<forall>u\<in>set xs. u < 0x10000)"
proof (induction xs rule: code_points.induct)
  case (3 u v us)
  show ?case
  proof (cases "is_high u")
    case True
    then have "is_low v" and wf: "well_formed us" using "3.prems" by auto
    then obtain k j where uv: "u = 0xD800 + k" "k < 1024" "v = 0xDC00 + j" "j < 1024"
      using True by (auto simp: is_high_def is_low_def nat_le_iff_add)
    then have "cp_units (0x10000 + (u - 0xD800) * 1024 + (v - 0xDC00)) = [u, v]"
      by (simp add: cp_units_def)
    then show ?thesis using True \<open>is_low v\<close> "3.IH"(1) wf by auto
  next
    case False
    then have "\<not> is_low u" "well_formed (v # us)" using "3.prems" by auto
    then show ?thesis using False "3.IH"(2) by (auto simp: cp_units_def)
  qed
qed (auto simp: cp_units_def)

section \<open>UTF-8\<close>

definition cont :: "nat \<Rightarrow> byte" where
  "cont n = word_of_nat (0x80 + n mod 64)"

definition encode_cp :: "nat \<Rightarrow> byte list" where
  "encode_cp c =
     (if c < 0x80 then [word_of_nat c]
      else if c < 0x800 then [word_of_nat (0xC0 + c div 64), cont c]
      else if c < 0x10000 then [word_of_nat (0xE0 + c div 4096), cont (c div 64), cont c]
      else [word_of_nat (0xF0 + c div 262144), cont (c div 4096), cont (c div 64), cont c])"

text \<open>\<open>Buffer.from(s, "utf-8")\<close> and \<open>Buffer.byteLength(s, "utf-8")\<close>.\<close>

definition utf8 :: "jsstring \<Rightarrow> byte list" where
  "utf8 s = concat (map encode_cp (code_points s))"

definition byteLength :: "jsstring \<Rightarrow> nat" where
  "byteLength s = length (utf8 s)"

text \<open>The test of the source: \<open>(b & 0xc0) === 0x80\<close>.\<close>

definition is_cont :: "byte \<Rightarrow> bool" where
  "is_cont b \<longleftrightarrow> b AND 0xC0 = 0x80"

fun decode_cps :: "byte list \<Rightarrow> nat list" where
  "decode_cps [] = []"
| "decode_cps (b # bs) =
     (let n = unat b in
      if n < 0x80 then n # decode_cps bs
      else if 0xC0 \<le> n \<and> n < 0xE0 \<and> 1 \<le> length bs
      then ((n - 0xC0) * 64 + unat (bs ! 0) mod 64) # decode_cps (drop 1 bs)
      else if 0xE0 \<le> n \<and> n < 0xF0 \<and> 2 \<le> length bs
      then ((n - 0xE0) * 4096 + unat (bs ! 0) mod 64 * 64 + unat (bs ! 1) mod 64)
             # decode_cps (drop 2 bs)
      else if 0xF0 \<le> n \<and> 3 \<le> length bs
      then ((n - 0xF0) * 262144 + unat (bs ! 0) mod 64 * 4096 + unat (bs ! 1) mod 64 * 64
              + unat (bs ! 2) mod 64) # decode_cps (drop 3 bs)
      else 0xFFFD # decode_cps bs)"

definition utf8_decode :: "byte list \<Rightarrow> jsstring" where
  "utf8_decode bs = concat (map cp_units (decode_cps bs))"

subsection \<open>Shape of an encoded character\<close>

lemma unat_byte: "n < 256 \<Longrightarrow> unat (word_of_nat n :: byte) = n"
  by (simp add: unat_of_nat)

lemma unat_cont: "unat (cont n) = 0x80 + n mod 64"
proof -
  have "n mod 64 < 64" by simp
  then show ?thesis by (simp add: cont_def unat_byte del: of_nat_add)
qed

lemma is_cont_table: "list_all (\<lambda>n. is_cont (word_of_nat n) \<longleftrightarrow> 0x80 \<le> n \<and> n < 0xC0) [0..<256]"
  unfolding is_cont_def by code_simp

lemma is_cont_iff: "is_cont b \<longleftrightarrow> 0x80 \<le> unat b \<and> unat b < 0xC0"
proof -
  have "unat b < 2 ^ LENGTH(8)" by (rule unsigned_less)
  then have "unat b \<in> set [0..<256]" by simp
  with is_cont_table have "is_cont (word_of_nat (unat b)) \<longleftrightarrow> 0x80 \<le> unat b \<and> unat b < 0xC0"
    unfolding list_all_iff by blast
  then show ?thesis by simp
qed

lemma is_cont_cont [simp]: "is_cont (cont n)"
proof -
  have "n mod 64 < 64" by simp
  then show ?thesis by (simp add: is_cont_iff unat_cont)
qed

lemma encode_cp_ne [simp]: "encode_cp c \<noteq> []"
  by (simp add: encode_cp_def)

lemma length_encode_cp: "length (encode_cp c) \<le> 4"
  by (simp add: encode_cp_def)

lemma encode_cp_tl: "b \<in> set (tl (encode_cp c)) \<Longrightarrow> is_cont b"
  by (auto simp: encode_cp_def split: if_splits)

lemma encode_cp_hd: "c < 0x110000 \<Longrightarrow> \<not> is_cont (hd (encode_cp c))"
  by (auto simp: encode_cp_def is_cont_iff unat_byte simp del: of_nat_add)

text \<open>Cutting an encoded character after its first byte leaves only continuation bytes.\<close>

lemma drop_encode_cp: "0 < n \<Longrightarrow> b \<in> set (drop n (encode_cp c)) \<Longrightarrow> is_cont b"
proof -
  assume "0 < n" and b: "b \<in> set (drop n (encode_cp c))"
  then have "drop n (encode_cp c) = drop (n - 1) (tl (encode_cp c))"
    by (simp add: drop_Suc [symmetric])
  with b have "b \<in> set (tl (encode_cp c))" by (metis in_set_dropD)
  then show "is_cont b" by (rule encode_cp_tl)
qed

subsection \<open>The decoder inverts the encoder\<close>

declare decode_cps.simps(2) [simp del]

lemma decode_cps_1: "unat b < 0x80 \<Longrightarrow> decode_cps (b # bs) = unat b # decode_cps bs"
  by (simp add: decode_cps.simps(2))

lemma decode_cps_2:
  "0xC0 \<le> unat b \<Longrightarrow> unat b < 0xE0 \<Longrightarrow>
   decode_cps (b # b1 # bs) = ((unat b - 0xC0) * 64 + unat b1 mod 64) # decode_cps bs"
  by (simp add: decode_cps.simps(2))

lemma decode_cps_3:
  "0xE0 \<le> unat b \<Longrightarrow> unat b < 0xF0 \<Longrightarrow>
   decode_cps (b # b1 # b2 # bs)
     = ((unat b - 0xE0) * 4096 + unat b1 mod 64 * 64 + unat b2 mod 64) # decode_cps bs"
  by (simp add: decode_cps.simps(2))

lemma decode_cps_4:
  "0xF0 \<le> unat b \<Longrightarrow>
   decode_cps (b # b1 # b2 # b3 # bs)
     = ((unat b - 0xF0) * 262144 + unat b1 mod 64 * 4096 + unat b2 mod 64 * 64 + unat b3 mod 64)
         # decode_cps bs"
  by (simp add: decode_cps.simps(2) numeral_3_eq_3)

lemma unat_cont_mod [simp]: "unat (cont n) mod 64 = n mod 64"
proof -
  have "(128 + n) mod 64 = n mod 64" using mod_mult_self1 [of n 2 64] by (simp add: add.commute)
  then have "(128 + n mod 64) mod 64 = n mod 64" by (simp only: mod_add_right_eq)
  then show ?thesis by (simp add: unat_cont)
qed

lemma split_64: "(n :: nat) div 64 * 64 + n mod 64 = n"
  by simp

lemma div_64_64: "c div 4096 = c div 64 div (64 :: nat)" "c div 262144 = c div 64 div 64 div (64 :: nat)"
  by (simp_all add: div_mult2_eq [symmetric])

lemma decode_encode_cp:
  assumes "c < 0x110000"
  shows "decode_cps (encode_cp c @ bs) = c # decode_cps bs"
proof -
  consider "c < 0x80" | "0x80 \<le> c" "c < 0x800" | "0x800 \<le> c" "c < 0x10000" | "0x10000 \<le> c"
    by linarith
  then show ?thesis
  proof cases
    case 1
    then have "unat (word_of_nat c :: byte) = c" by (simp add: unat_byte)
    with 1 show ?thesis by (simp add: encode_cp_def decode_cps_1)
  next
    case 2
    then have "unat (word_of_nat (0xC0 + c div 64) :: byte) = 0xC0 + c div 64"
      by (intro unat_byte) simp
    with 2 show ?thesis by (simp add: encode_cp_def decode_cps_2 del: of_nat_add)
  next
    case 3
    have *: "c div 4096 * 4096 + c div 64 mod 64 * 64 + c mod 64 = c"
      unfolding div_64_64 using split_64 [of c] split_64 [of "c div 64"] by linarith
    from 3 have "unat (word_of_nat (0xE0 + c div 4096) :: byte) = 0xE0 + c div 4096"
      by (intro unat_byte) simp
    with 3 * show ?thesis by (simp add: encode_cp_def decode_cps_3 del: of_nat_add)
  next
    case 4
    have *: "c div 262144 * 262144 + c div 4096 mod 64 * 4096 + c div 64 mod 64 * 64 + c mod 64 = c"
      unfolding div_64_64
      using split_64 [of c] split_64 [of "c div 64"] split_64 [of "c div 64 div 64"] by linarith
    from assms have "unat (word_of_nat (0xF0 + c div 262144) :: byte) = 0xF0 + c div 262144"
      by (intro unat_byte) simp
    with 4 * show ?thesis by (simp add: encode_cp_def decode_cps_4 del: of_nat_add)
  qed
qed

lemma decode_encode:
  "\<forall>c\<in>set cs. c < 0x110000 \<Longrightarrow> decode_cps (concat (map encode_cp cs)) = cs"
  by (induction cs) (simp_all add: decode_encode_cp)

definition units_ok :: "jsstring \<Rightarrow> bool" where
  "units_ok s \<longleftrightarrow> (\<forall>u\<in>set s. u < 0x10000)"

lemma code_points_range: "units_ok s \<Longrightarrow> c \<in> set (code_points s) \<Longrightarrow> c < 0x110000"
proof (induction s rule: code_points.induct)
  case (3 u v us)
  then show ?case
    by (auto simp: units_ok_def is_high_def is_low_def split: if_splits)
qed (auto simp: units_ok_def split: if_splits)

text \<open>Encoded text, by its code points.\<close>

definition enc :: "nat list \<Rightarrow> byte list" where
  "enc cs = concat (map encode_cp cs)"

lemma enc_simps [simp]:
  "enc [] = []" "enc (c # cs) = encode_cp c @ enc cs" "enc (xs @ ys) = enc xs @ enc ys"
  by (simp_all add: enc_def)

lemma utf8_enc: "utf8 s = enc (code_points s)"
  by (simp add: utf8_def enc_def)

lemma enc_starts_char:
  "\<forall>c\<in>set cs. c < 0x110000 \<Longrightarrow> dropWhile is_cont (enc cs) = enc cs"
proof (cases cs)
  case (Cons c ds)
  assume "\<forall>c\<in>set cs. c < 0x110000"
  with Cons have "\<not> is_cont (hd (encode_cp c))" by (intro encode_cp_hd) simp
  then show ?thesis using Cons by (cases "encode_cp c") auto
qed simp

text \<open>
  Skipping continuation bytes from any position of an encoded text lands on a character boundary,
  and at most one character, the one the position cuts, is lost.
\<close>

lemma skip_to_boundary:
  assumes "\<forall>c\<in>set cs. c < 0x110000" and "n \<le> length (enc cs)"
  shows "\<exists>k \<le> length cs. dropWhile is_cont (drop n (enc cs)) = enc (drop k cs)
         \<and> n \<le> length (enc (take k cs))
         \<and> (0 < k \<longrightarrow> length (enc (take (k - 1) cs)) < n)"
  using assms
proof (induction cs arbitrary: n)
  case Nil
  then show ?case by simp
next
  case (Cons c cs)
  consider "n = 0" | "0 < n" "n \<le> length (encode_cp c)" | "length (encode_cp c) < n" by linarith
  then show ?case
  proof cases
    case 1
    then show ?thesis using enc_starts_char [OF Cons.prems(1)] by (intro exI [of _ 0]) simp
  next
    case 2
    then have "\<forall>b\<in>set (drop n (encode_cp c)). is_cont b" by (auto intro: drop_encode_cp)
    then have "dropWhile is_cont (drop n (enc (c # cs))) = enc cs"
      using 2 Cons.prems(1) by (simp add: dropWhile_append2 enc_starts_char)
    with 2 show ?thesis by (intro exI [of _ 1]) simp
  next
    case 3
    then have "n - length (encode_cp c) \<le> length (enc cs)" using Cons.prems(2) by simp
    then obtain k where k: "k \<le> length cs"
      "dropWhile is_cont (drop (n - length (encode_cp c)) (enc cs)) = enc (drop k cs)"
      "n - length (encode_cp c) \<le> length (enc (take k cs))"
      "0 < k \<longrightarrow> length (enc (take (k - 1) cs)) < n - length (encode_cp c)"
      using Cons.IH [of "n - length (encode_cp c)"] Cons.prems(1) by auto
    with 3 show ?thesis
      by (intro exI [of _ "Suc k"]) (cases k, auto)
  qed
qed

section \<open>Scalar values\<close>

text \<open>What the code points of a string are: never a surrogate, never beyond U+10FFFF.\<close>

definition scalar :: "nat \<Rightarrow> bool" where
  "scalar c \<longleftrightarrow> c < 0x110000 \<and> \<not> is_high c \<and> \<not> is_low c"

lemma scalar_FFFD: "scalar 0xFFFD"
  by (simp add: scalar_def is_high_def is_low_def)

lemma code_points_scalar: "units_ok s \<Longrightarrow> \<forall>c\<in>set (code_points s). scalar c"
proof (induction s rule: code_points.induct)
  case (3 u v us)
  have "scalar (0x10000 + (u - 0xD800) * 1024 + (v - 0xDC00))" if "is_high u" "is_low v"
  proof -
    from that obtain k j where "u = 0xD800 + k" "k < 1024" "v = 0xDC00 + j" "j < 1024"
      by (auto simp: is_high_def is_low_def nat_le_iff_add)
    then show ?thesis by (simp add: scalar_def is_high_def is_low_def)
  qed
  note pair = this
  have one: "scalar (if is_high u \<or> is_low u then 0xFFFD else u)"
    using "3.prems" scalar_FFFD by (simp add: units_ok_def scalar_def)
  have rest: "units_ok us" "units_ok (v # us)" using "3.prems" by (simp_all add: units_ok_def)
  show ?case
  proof (cases "is_high u \<and> is_low v")
    case True
    with pair "3.IH"(1) [OF True rest(1)] show ?thesis by simp
  next
    case False
    then show ?thesis using one "3.IH"(2) [OF False rest(2)]
      by (simp only: code_points.simps if_False set_simps ball_simps)
  qed
next
  case (2 u)
  then show ?case using scalar_FFFD by (simp add: units_ok_def scalar_def)
qed simp

lemma code_points_cp_units: "scalar c \<Longrightarrow> code_points (cp_units c @ us) = c # code_points us"
proof (cases "c < 0x10000")
  case True
  assume "scalar c"
  with True show ?thesis by (simp add: cp_units_def scalar_def code_points_Cons_plain)
next
  case False
  assume "scalar c"
  with False obtain d where d: "c = 0x10000 + d" "d < 0x100000"
    by (auto simp: scalar_def not_less nat_le_iff_add)
  have "is_high (0xD800 + d div 1024)" "is_low (0xDC00 + d mod 1024)"
    using d(2) by (auto simp: is_high_def is_low_def less_mult_imp_div_less)
  then show ?thesis using d by (simp add: cp_units_def)
qed

lemma code_points_of_units:
  "\<forall>c\<in>set cs. scalar c \<Longrightarrow> code_points (concat (map cp_units cs)) = cs"
  by (induction cs) (simp_all add: code_points_cp_units)

lemma utf8_decode_enc:
  assumes "\<forall>c\<in>set cs. scalar c"
  shows "utf8_decode (enc cs) = concat (map cp_units cs)"
  using assms decode_encode [of cs] by (simp add: utf8_decode_def enc_def scalar_def)

lemma utf8_units: "\<forall>c\<in>set cs. scalar c \<Longrightarrow> utf8 (concat (map cp_units cs)) = enc cs"
  by (simp add: utf8_enc code_points_of_units)

lemma units_of_well_formed:
  "well_formed s \<Longrightarrow> units_ok s \<Longrightarrow> concat (map cp_units (code_points s)) = s"
  using code_points_units [of s] by (auto simp: units_ok_def)

section \<open>Lines\<close>

definition newline :: cu where
  "newline = 10"

definition cr :: cu where
  "cr = 13"

lemma cr_newline [simp]: "cr \<noteq> newline" "newline \<noteq> cr"
  by (simp_all add: cr_def newline_def)

lemma newline_plain [simp]: "\<not> is_high newline" "\<not> is_low newline"
  by (simp_all add: newline_def is_high_def is_low_def)

lemma byteLength_Nil [simp]: "byteLength [] = 0"
  by (simp add: byteLength_def utf8_def)

lemma byteLength_newline: "byteLength (xs @ newline # ys) = byteLength xs + 1 + byteLength ys"
proof -
  have "length (encode_cp newline) = 1" by (simp add: encode_cp_def newline_def)
  then show ?thesis by (simp add: byteLength_def utf8_enc code_points_append_plain)
qed

text \<open>The bytes of joined lines: each line's bytes and one newline between neighbours.\<close>

lemma byteLength_join:
  "ls \<noteq> [] \<Longrightarrow> byteLength (join [newline] ls) + 1 = sum_list (map (\<lambda>l. byteLength l + 1) ls)"
  by (induction ls) (auto simp: join_Cons byteLength_newline)

section \<open>White space\<close>

text \<open>White space as \<open>trim\<close> and \<open>trimEnd\<close> have it.\<close>

definition is_js_space :: "cu \<Rightarrow> bool" where
  "is_js_space c \<longleftrightarrow> c \<in> {9, 10, 11, 12, 13, 32, 0xA0, 0x1680, 0x2028, 0x2029, 0x202F, 0x205F, 0x3000, 0xFEFF}
     \<or> 0x2000 \<le> c \<and> c \<le> 0x200A"

definition trim_end :: "jsstring \<Rightarrow> jsstring" where
  "trim_end s = rev (dropWhile is_js_space (rev s))"

definition js_trim :: "jsstring \<Rightarrow> jsstring" where
  "js_trim s = trim_end (dropWhile is_js_space s)"

lemma js_trim_id:
  assumes "s \<noteq> []" "\<not> is_js_space (hd s)" "\<not> is_js_space (last s)"
  shows "js_trim s = s"
proof -
  from assms have "dropWhile is_js_space s = s" "dropWhile is_js_space (rev s) = rev s"
    by (simp_all add: dropWhile_eq_self_iff hd_rev)
  then show ?thesis by (simp add: js_trim_def trim_end_def)
qed

end
