(* ===== verification/Truncate.thy ===== *)
theory Truncate
  imports Utf
begin

text \<open>
  Truncation of tool output (\<open>core/tools/truncate.ts\<close>): the line and byte limits of
  \<open>truncateHead\<close> and \<open>truncateTail\<close>, the partial last line of the tail case and its UTF-8 boundary
  search, the character limit of one grep line, and the size formatter. Strings are lists of UTF-16
  code units, so byte counts are those of \<open>Buffer.byteLength\<close>.
\<close>

definition DEFAULT_MAX_LINES :: nat where
  "DEFAULT_MAX_LINES = 2000"

definition DEFAULT_MAX_BYTES :: nat where
  "DEFAULT_MAX_BYTES = 50 * 1024"

definition GREP_MAX_LINE_LENGTH :: nat where
  "GREP_MAX_LINE_LENGTH = 500"

datatype limit_hit = ByLines | ByBytes

record truncation_result =
  content :: jsstring
  truncated :: bool
  truncatedBy :: "limit_hit option"
  totalLines :: nat
  totalBytes :: nat
  outputLines :: nat
  outputBytes :: nat
  lastLinePartial :: bool
  firstLineExceedsLimit :: bool
  maxLines :: nat
  maxBytes :: nat

record truncation_options =
  opt_maxLines :: "nat option"
  opt_maxBytes :: "nat option"

section \<open>Sizes\<close>

text \<open>\<open>(n / d).toFixed(1)\<close>: the nearest tenth, the larger one on a tie.\<close>

definition toFixed1 :: "nat \<Rightarrow> nat \<Rightarrow> string" where
  "toFixed1 n d = (let t = (20 * n + d) div (2 * d) in dec (t div 10) @ ''.'' @ dec (t mod 10))"

definition formatSize :: "nat \<Rightarrow> string" where
  "formatSize bytes =
     (if bytes < 1024 then dec bytes @ ''B''
      else if bytes < 1024 * 1024 then toFixed1 bytes 1024 @ ''KB''
      else toFixed1 bytes (1024 * 1024) @ ''MB'')"

section \<open>Head truncation\<close>

text \<open>The loop over the lines from the first: index, byte count and output array.\<close>

fun head_loop ::
  "nat \<Rightarrow> nat \<Rightarrow> jsstring list \<Rightarrow> nat \<Rightarrow> nat \<Rightarrow> jsstring list \<Rightarrow> jsstring list \<times> nat \<times> limit_hit"
where
  "head_loop ml mb [] i cnt arr = (arr, cnt, ByLines)"
| "head_loop ml mb (line # ls) i cnt arr =
     (if i < ml
      then let lineBytes = byteLength line + (if i > 0 then 1 else 0)
           in if cnt + lineBytes > mb then (arr, cnt, ByBytes)
              else head_loop ml mb ls (i + 1) (cnt + lineBytes) (arr @ [line])
      else (arr, cnt, ByLines))"

definition untruncated :: "jsstring \<Rightarrow> nat \<Rightarrow> nat \<Rightarrow> nat \<Rightarrow> nat \<Rightarrow> truncation_result" where
  "untruncated s tln tb ml mb =
     \<lparr>content = s, truncated = False, truncatedBy = None, totalLines = tln, totalBytes = tb,
      outputLines = tln, outputBytes = tb, lastLinePartial = False, firstLineExceedsLimit = False,
      maxLines = ml, maxBytes = mb\<rparr>"

definition truncateHead :: "jsstring \<Rightarrow> truncation_options \<Rightarrow> truncation_result" where
  "truncateHead s opts =
     (let ml = nullish (opt_maxLines opts) DEFAULT_MAX_LINES;
          mb = nullish (opt_maxBytes opts) DEFAULT_MAX_BYTES;
          tb = byteLength s;
          lines = split_on newline s;
          tln = length lines
      in if tln \<le> ml \<and> tb \<le> mb then untruncated s tln tb ml mb
         else if byteLength (lines ! 0) > mb
         then \<lparr>content = [], truncated = True, truncatedBy = Some ByBytes, totalLines = tln,
               totalBytes = tb, outputLines = 0, outputBytes = 0, lastLinePartial = False,
               firstLineExceedsLimit = True, maxLines = ml, maxBytes = mb\<rparr>
         else let (arr, cnt, by) = head_loop ml mb lines 0 0 [];
                  by' = (if length arr \<ge> ml \<and> cnt \<le> mb then ByLines else by);
                  out = join [newline] arr
              in \<lparr>content = out, truncated = True, truncatedBy = Some by', totalLines = tln,
                  totalBytes = tb, outputLines = length arr, outputBytes = byteLength out,
                  lastLinePartial = False, firstLineExceedsLimit = False, maxLines = ml,
                  maxBytes = mb\<rparr>)"

section \<open>Tail truncation\<close>

text \<open>
  \<open>start\<close> moves right while it stands on a continuation byte; dropping the continuation bytes of
  the slice is the same search.
\<close>

definition truncateStringToBytesFromEnd :: "jsstring \<Rightarrow> nat \<Rightarrow> jsstring" where
  "truncateStringToBytesFromEnd str mb =
     (let buf = utf8 str
      in if length buf \<le> mb then str
         else utf8_decode (dropWhile is_cont (drop (length buf - mb) buf)))"

text \<open>The loop over the lines from the last one; the list argument holds the lines reversed.\<close>

fun tail_loop ::
  "nat \<Rightarrow> nat \<Rightarrow> jsstring list \<Rightarrow> nat \<Rightarrow> jsstring list \<Rightarrow> jsstring list \<times> nat \<times> limit_hit \<times> bool"
where
  "tail_loop ml mb [] cnt arr = (arr, cnt, ByLines, False)"
| "tail_loop ml mb (line # ls) cnt arr =
     (if length arr < ml
      then let lineBytes = byteLength line + (if length arr > 0 then 1 else 0)
           in if cnt + lineBytes > mb
              then (if length arr = 0
                    then let t = truncateStringToBytesFromEnd line mb
                         in ([t], byteLength t, ByBytes, True)
                    else (arr, cnt, ByBytes, False))
              else tail_loop ml mb ls (cnt + lineBytes) (line # arr)
      else (arr, cnt, ByLines, False))"

definition truncateTail :: "jsstring \<Rightarrow> truncation_options \<Rightarrow> truncation_result" where
  "truncateTail s opts =
     (let ml = nullish (opt_maxLines opts) DEFAULT_MAX_LINES;
          mb = nullish (opt_maxBytes opts) DEFAULT_MAX_BYTES;
          tb = byteLength s;
          lines = split_on newline s;
          tln = length lines
      in if tln \<le> ml \<and> tb \<le> mb then untruncated s tln tb ml mb
         else let (arr, cnt, by, part) = tail_loop ml mb (rev lines) 0 [];
                  by' = (if length arr \<ge> ml \<and> cnt \<le> mb then ByLines else by);
                  out = join [newline] arr
              in \<lparr>content = out, truncated = True, truncatedBy = Some by', totalLines = tln,
                  totalBytes = tb, outputLines = length arr, outputBytes = byteLength out,
                  lastLinePartial = part, firstLineExceedsLimit = False, maxLines = ml,
                  maxBytes = mb\<rparr>)"

definition truncateLine :: "jsstring \<Rightarrow> nat option \<Rightarrow> jsstring \<times> bool" where
  "truncateLine line mc =
     (let n = nullish mc GREP_MAX_LINE_LENGTH
      in if length line \<le> n then (line, False)
         else (take n line @ map of_char ''... [truncated]'', True))"

section \<open>Byte counts of joined lines\<close>

abbreviation joined_bytes :: "jsstring list \<Rightarrow> nat" where
  "joined_bytes ls \<equiv> byteLength (join [newline] ls)"

lemma joined_bytes_snoc:
  "joined_bytes (ls @ [l]) = joined_bytes ls + byteLength l + (if ls = [] then 0 else 1)"
  by (cases "ls = []") (simp_all add: join_append byteLength_newline)

lemma joined_bytes_Cons:
  "joined_bytes (l # ls) = joined_bytes ls + byteLength l + (if ls = [] then 0 else 1)"
  by (cases "ls = []") (simp_all add: join_Cons byteLength_newline)

lemma head_loop_spec:
  assumes "head_loop ml mb ls i cnt arr = (out, cnt', by)"
    and "i = length arr" "cnt = joined_bytes arr" "cnt \<le> mb" "length arr \<le> ml"
  shows "\<exists>k \<le> length ls. out = arr @ take k ls \<and> cnt' = joined_bytes out \<and> cnt' \<le> mb
           \<and> length out \<le> ml
           \<and> (k < length ls \<longrightarrow> length out = ml \<or> joined_bytes (out @ [ls ! k]) > mb)
           \<and> (by = ByBytes \<longrightarrow> length out < ml)
           \<and> (by = ByLines \<longrightarrow> k = length ls \<or> length out = ml)"
  using assms
proof (induction ml mb ls i cnt arr rule: head_loop.induct)
  case (2 ml mb line ls i cnt arr)
  show ?case
  proof (cases "i < ml \<and> cnt + (byteLength line + (if i > 0 then 1 else 0)) \<le> mb")
    case True
    have "\<exists>k \<le> length ls. out = (arr @ [line]) @ take k ls \<and> cnt' = joined_bytes out \<and> cnt' \<le> mb
           \<and> length out \<le> ml
           \<and> (k < length ls \<longrightarrow> length out = ml \<or> joined_bytes (out @ [ls ! k]) > mb)
           \<and> (by = ByBytes \<longrightarrow> length out < ml)
           \<and> (by = ByLines \<longrightarrow> k = length ls \<or> length out = ml)"
      using True "2.prems"
      by (intro "2.IH" [OF _ refl]) (auto simp: joined_bytes_snoc Let_def)
    then obtain k where k: "k \<le> length ls" "out = (arr @ [line]) @ take k ls"
      "cnt' = joined_bytes out \<and> cnt' \<le> mb \<and> length out \<le> ml
       \<and> (k < length ls \<longrightarrow> length out = ml \<or> joined_bytes (out @ [ls ! k]) > mb)
       \<and> (by = ByBytes \<longrightarrow> length out < ml)
       \<and> (by = ByLines \<longrightarrow> k = length ls \<or> length out = ml)" by blast
    then show ?thesis by (intro exI [of _ "Suc k"]) simp
  next
    case False
    with "2.prems" show ?thesis
      by (intro exI [of _ 0]) (auto simp: Let_def joined_bytes_snoc split: if_splits)
  qed
qed auto

text \<open>What a truncated result of \<open>truncateHead\<close> promises: whole lines, within both limits, as many as fit.\<close>

definition head_contract :: "jsstring \<Rightarrow> truncation_result \<Rightarrow> bool" where
  "head_contract s r \<longleftrightarrow>
     (let lines = split_on newline s; k = outputLines r
      in k < length lines \<and> content r = join [newline] (take k lines) \<and> k \<le> maxLines r
       \<and> outputBytes r = byteLength (content r) \<and> outputBytes r \<le> maxBytes r
       \<and> (truncatedBy r = Some ByLines \<longrightarrow> k = maxLines r)
       \<and> (truncatedBy r = Some ByBytes \<longrightarrow> k < maxLines r \<and> joined_bytes (take (Suc k) lines) > maxBytes r)
       \<and> truncatedBy r \<noteq> None \<and> \<not> lastLinePartial r)"

lemma head_loop_start:
  assumes "head_loop ml mb ls 0 0 [] = (out, cnt, lim)"
  shows "\<exists>k \<le> length ls. out = take k ls \<and> cnt = joined_bytes out \<and> cnt \<le> mb \<and> length out \<le> ml
    \<and> (k < length ls \<longrightarrow> length out = ml \<or> joined_bytes (take (Suc k) ls) > mb)
    \<and> (lim = ByBytes \<longrightarrow> length out < ml) \<and> (lim = ByLines \<longrightarrow> k = length ls \<or> length out = ml)"
proof -
  have "joined_bytes [] = 0" by simp
  from head_loop_spec [OF assms _ this [symmetric]]
  obtain k where "k \<le> length ls" "out = [] @ take k ls"
    "cnt = joined_bytes out \<and> cnt \<le> mb \<and> length out \<le> ml
     \<and> (k < length ls \<longrightarrow> length out = ml \<or> joined_bytes (out @ [ls ! k]) > mb)
     \<and> (lim = ByBytes \<longrightarrow> length out < ml) \<and> (lim = ByLines \<longrightarrow> k = length ls \<or> length out = ml)"
    unfolding list.size by blast
  then show ?thesis by (intro exI [of _ k]) (auto simp: take_Suc_conv_app_nth)
qed

text \<open>
  truncateHead keeps a prefix of whole lines within both limits and as many as fit, reports
  which limit was hit, and returns the input unchanged exactly when it fits; a first line over the
  byte limit gives empty content.
\<close>

theorem truncateHead_contract:
  "(let r = truncateHead s opts
    in if truncated r \<and> \<not> firstLineExceedsLimit r then head_contract s r
       else if truncated r
       then content r = [] \<and> byteLength (hd (split_on newline s)) > maxBytes r
       else content r = s \<and> byteLength s \<le> maxBytes r \<and> length (split_on newline s) \<le> maxLines r)"
proof -
  define ml where "ml = nullish (opt_maxLines opts) DEFAULT_MAX_LINES"
  define mb where "mb = nullish (opt_maxBytes opts) DEFAULT_MAX_BYTES"
  let ?ls = "split_on newline s"
  obtain out cnt lim where run: "head_loop ml mb ?ls 0 0 [] = (out, cnt, lim)"
    by (cases "head_loop ml mb ?ls 0 0 []") auto
  from head_loop_start [OF run] obtain k where k: "k \<le> length ?ls" "out = take k ?ls"
    "cnt = joined_bytes out" "cnt \<le> mb" "length out \<le> ml"
    "k < length ?ls \<longrightarrow> length out = ml \<or> joined_bytes (take (Suc k) ?ls) > mb"
    "lim = ByBytes \<longrightarrow> length out < ml" "lim = ByLines \<longrightarrow> k = length ?ls \<or> length out = ml"
    by blast
  have lt: "k < length ?ls" if "\<not> (length ?ls \<le> ml \<and> byteLength s \<le> mb)"
  proof (rule ccontr)
    assume "\<not> k < length ?ls"
    with k have "out = ?ls" "joined_bytes out \<le> mb" "length ?ls \<le> ml" by auto
    with that show False by simp
  qed
  show ?thesis
    using run k lt
    by (cases lim)
      (auto simp: truncateHead_def Let_def ml_def [symmetric] mb_def [symmetric] untruncated_def
        head_contract_def hd_conv_nth min_def)
qed

section \<open>Properties of tail truncation\<close>

lemma truncateStringToBytesFromEnd_spec:
  assumes ok: "units_ok s" and long: "byteLength s > mb"
  obtains k where "0 < k" "k \<le> length (code_points s)"
    "truncateStringToBytesFromEnd s mb = concat (map cp_units (drop k (code_points s)))"
    "utf8 (truncateStringToBytesFromEnd s mb) = enc (drop k (code_points s))"
    "byteLength s - mb \<le> length (enc (take k (code_points s)))"
    "length (enc (take k (code_points s))) < byteLength s - mb + 4"
proof -
  let ?cs = "code_points s" and ?n = "byteLength s - mb"
  have scal: "\<forall>c\<in>set ?cs. scalar c" using ok by (rule code_points_scalar)
  then have range: "\<forall>c\<in>set ?cs. c < 0x110000" by (auto simp: scalar_def)
  have "?n \<le> length (enc ?cs)" by (simp add: byteLength_def utf8_enc)
  then obtain k where k: "k \<le> length ?cs" "dropWhile is_cont (drop ?n (enc ?cs)) = enc (drop k ?cs)"
    "?n \<le> length (enc (take k ?cs))" "0 < k \<longrightarrow> length (enc (take (k - 1) ?cs)) < ?n"
    using skip_to_boundary [OF range] by blast
  have "0 < k" using k(3) long by (cases k) auto
  have scal': "\<forall>c\<in>set (drop k ?cs). scalar c" using scal by (meson in_set_dropD)
  have res: "truncateStringToBytesFromEnd s mb = concat (map cp_units (drop k ?cs))"
    using long k(2) utf8_decode_enc [OF scal']
    by (simp add: truncateStringToBytesFromEnd_def byteLength_def utf8_enc Let_def)
  have "take k ?cs = take (k - 1) ?cs @ [?cs ! (k - 1)]"
    using \<open>0 < k\<close> k(1) take_Suc_conv_app_nth [of "k - 1" ?cs] by simp
  then have "length (enc (take k ?cs)) \<le> length (enc (take (k - 1) ?cs)) + 4"
    using length_encode_cp [of "?cs ! (k - 1)"] by simp
  with k(4) \<open>0 < k\<close> have "length (enc (take k ?cs)) < ?n + 4" by simp
  moreover have "utf8 (truncateStringToBytesFromEnd s mb) = enc (drop k ?cs)"
    unfolding res by (rule utf8_units [OF scal'])
  ultimately show thesis using that \<open>0 < k\<close> k(1,3) res by blast
qed

lemma truncateString_bytes:
  assumes "units_ok s" "byteLength s > mb"
  shows "byteLength (truncateStringToBytesFromEnd s mb) \<le> mb"
    "mb < byteLength (truncateStringToBytesFromEnd s mb) + 4"
proof -
  let ?cs = "code_points s"
  from assms obtain k where k: "utf8 (truncateStringToBytesFromEnd s mb) = enc (drop k ?cs)"
    "byteLength s - mb \<le> length (enc (take k ?cs))"
    "length (enc (take k ?cs)) < byteLength s - mb + 4"
    by (rule truncateStringToBytesFromEnd_spec)
  have "enc ?cs = enc (take k ?cs) @ enc (drop k ?cs)"
    by (metis append_take_drop_id enc_simps(3))
  then have "byteLength s = length (enc (take k ?cs)) + length (enc (drop k ?cs))"
    by (simp add: byteLength_def utf8_enc)
  with k assms(2) show "byteLength (truncateStringToBytesFromEnd s mb) \<le> mb"
    "mb < byteLength (truncateStringToBytesFromEnd s mb) + 4"
    by (simp_all add: byteLength_def)
qed

text \<open>
  truncateStringToBytesFromEnd cuts an oversized string to a suffix at a character boundary: at
  most the byte limit, and less than four bytes below it.
\<close>

theorem truncateString_suffix:
  assumes "units_ok s" "byteLength s > mb"
  shows "(let t = truncateStringToBytesFromEnd s mb
          in byteLength t \<le> mb \<and> mb < byteLength t + 4
           \<and> (\<exists>n. utf8 t = drop n (utf8 s)) \<and> (well_formed s \<longrightarrow> (\<exists>n. t = drop n s)))"
proof -
  let ?cs = "code_points s"
  from assms obtain k where k: "0 < k" "k \<le> length ?cs"
    "truncateStringToBytesFromEnd s mb = concat (map cp_units (drop k ?cs))"
    "utf8 (truncateStringToBytesFromEnd s mb) = enc (drop k ?cs)"
    by (rule truncateStringToBytesFromEnd_spec)
  have split: "enc ?cs = enc (take k ?cs) @ enc (drop k ?cs)"
    by (metis append_take_drop_id enc_simps(3))
  have wf: "\<exists>n. concat (map cp_units (drop k ?cs)) = drop n s" if "well_formed s"
  proof -
    have "s = concat (map cp_units (take k ?cs)) @ concat (map cp_units (drop k ?cs))"
      using units_of_well_formed [OF that assms(1)]
      by (metis append_take_drop_id concat_append map_append)
    then show ?thesis by (metis append_eq_conv_conj)
  qed
  have "utf8 (truncateStringToBytesFromEnd s mb) = drop (length (enc (take k ?cs))) (utf8 s)"
    unfolding k(4) using split by (simp add: utf8_enc [of s])
  then have "\<exists>n. utf8 (truncateStringToBytesFromEnd s mb) = drop n (utf8 s)" by blast
  with truncateString_bytes [OF assms] wf show ?thesis
    unfolding Let_def k(3) [symmetric] by (simp add: k(3))
qed

theorem truncateString_suffix_witness:
  "(let s = [97, 0x20AC, 0xD83D, 0xDE00] in
    units_ok s \<and> byteLength s = 8 \<and> byteLength (truncateStringToBytesFromEnd s 6) \<le> 6)"
proof -
  have h: "units_ok [97, 0x20AC, 0xD83D, 0xDE00]" "byteLength [97, 0x20AC, 0xD83D, 0xDE00] = 8"
    by (simp_all add: units_ok_def byteLength_def utf8_def is_high_def is_low_def encode_cp_def)
  then have "byteLength (truncateStringToBytesFromEnd [97, 0x20AC, 0xD83D, 0xDE00] 6) \<le> 6"
    using truncateString_suffix [OF h(1), of 6] by (simp add: Let_def)
  with h show ?thesis by (simp add: Let_def)
qed

lemma tail_loop_spec:
  assumes "tail_loop ml mb ls cnt arr = (out, cnt', lim, part)"
    and "cnt = joined_bytes arr" "cnt \<le> mb" "length arr \<le> ml"
  shows "if part
     then arr = [] \<and> ls \<noteq> [] \<and> lim = ByBytes \<and> 0 < ml \<and> byteLength (hd ls) > mb
       \<and> out = [truncateStringToBytesFromEnd (hd ls) mb] \<and> cnt' = joined_bytes out
     else \<exists>k \<le> length ls. out = rev (take k ls) @ arr \<and> cnt' = joined_bytes out \<and> cnt' \<le> mb
       \<and> length out \<le> ml
       \<and> (k < length ls \<longrightarrow> length out = ml \<or> out \<noteq> [] \<and> joined_bytes (ls ! k # out) > mb)
       \<and> (lim = ByBytes \<longrightarrow> length out < ml)
       \<and> (lim = ByLines \<longrightarrow> k = length ls \<or> length out = ml)"
  using assms
proof (induction ml mb ls cnt arr rule: tail_loop.induct)
  case (2 ml mb line ls cnt arr)
  show ?case
  proof (cases "length arr < ml \<and> cnt + (byteLength line + (if length arr > 0 then 1 else 0)) \<le> mb")
    case True
    have ih: "if part
     then line # arr = [] \<and> ls \<noteq> [] \<and> lim = ByBytes \<and> 0 < ml \<and> byteLength (hd ls) > mb
       \<and> out = [truncateStringToBytesFromEnd (hd ls) mb] \<and> cnt' = joined_bytes out
     else \<exists>k \<le> length ls. out = rev (take k ls) @ line # arr \<and> cnt' = joined_bytes out \<and> cnt' \<le> mb
       \<and> length out \<le> ml
       \<and> (k < length ls \<longrightarrow> length out = ml \<or> out \<noteq> [] \<and> joined_bytes (ls ! k # out) > mb)
       \<and> (lim = ByBytes \<longrightarrow> length out < ml)
       \<and> (lim = ByLines \<longrightarrow> k = length ls \<or> length out = ml)"
      using True "2.prems"
      by (intro "2.IH" [OF _ refl]) (auto simp: joined_bytes_Cons Let_def)
    then have np: "\<not> part" by auto
    from ih [unfolded if_not_P [OF np]]
    obtain k where k: "k \<le> length ls" "out = rev (take k ls) @ line # arr"
      "cnt' = joined_bytes out \<and> cnt' \<le> mb \<and> length out \<le> ml
       \<and> (k < length ls \<longrightarrow> length out = ml \<or> out \<noteq> [] \<and> joined_bytes (ls ! k # out) > mb)
       \<and> (lim = ByBytes \<longrightarrow> length out < ml)
       \<and> (lim = ByLines \<longrightarrow> k = length ls \<or> length out = ml)"
      by blast
    then have "\<exists>k \<le> length (line # ls). out = rev (take k (line # ls)) @ arr \<and> cnt' = joined_bytes out
       \<and> cnt' \<le> mb \<and> length out \<le> ml
       \<and> (k < length (line # ls) \<longrightarrow>
            length out = ml \<or> out \<noteq> [] \<and> joined_bytes ((line # ls) ! k # out) > mb)
       \<and> (lim = ByBytes \<longrightarrow> length out < ml)
       \<and> (lim = ByLines \<longrightarrow> k = length (line # ls) \<or> length out = ml)"
      by (intro exI [of _ "Suc k"]) simp
    with np show ?thesis by simp
  next
    case False
    with "2.prems" show ?thesis
      by (cases "arr = []") (auto simp: Let_def joined_bytes_Cons intro!: exI [of _ 0] split: if_splits)
  qed
qed auto

text \<open>
  What a truncated result of \<open>truncateTail\<close> promises: the last lines, whole, within both limits and
  as many as fit; or, when already the last line exceeds the byte limit, the end of that line.
\<close>

definition tail_contract :: "jsstring \<Rightarrow> truncation_result \<Rightarrow> bool" where
  "tail_contract s r \<longleftrightarrow>
     (let lines = split_on newline s; n = length lines; k = outputLines r
      in outputBytes r = byteLength (content r) \<and> outputBytes r \<le> maxBytes r \<and> k \<le> maxLines r
       \<and> (if lastLinePartial r
          then byteLength (last lines) > maxBytes r
             \<and> content r = truncateStringToBytesFromEnd (last lines) (maxBytes r)
             \<and> maxBytes r < outputBytes r + 4 \<and> k = 1
          else k < n \<and> content r = join [newline] (drop (n - k) lines)
             \<and> (k = maxLines r \<or> joined_bytes (drop (n - Suc k) lines) > maxBytes r)))"

lemma units_ok_lines: "units_ok s \<Longrightarrow> l \<in> set (split_on c s) \<Longrightarrow> units_ok l"
  using split_on_subset [of l c s] by (auto simp: units_ok_def)

text \<open>
  truncateTail keeps a suffix of whole lines within both limits and as many as fit, or the end
  of the last line when that line alone exceeds the byte limit.
\<close>

theorem truncateTail_contract:
  assumes ok: "units_ok s"
  shows "(let r = truncateTail s opts
    in if truncated r then tail_contract s r
       else content r = s \<and> byteLength s \<le> maxBytes r \<and> length (split_on newline s) \<le> maxLines r)"
proof -
  define ml where "ml = nullish (opt_maxLines opts) DEFAULT_MAX_LINES"
  define mb where "mb = nullish (opt_maxBytes opts) DEFAULT_MAX_BYTES"
  let ?ls = "split_on newline s"
  let ?n = "length ?ls"
  obtain out cnt lim part where run: "tail_loop ml mb (rev ?ls) 0 [] = (out, cnt, lim, part)"
    by (cases "tail_loop ml mb (rev ?ls) 0 []") auto
  have "joined_bytes [] = 0" by simp
  note spec = tail_loop_spec [OF run this [symmetric] le0, unfolded list.size, OF le0]
  have r: "truncateTail s opts = (if ?n \<le> ml \<and> byteLength s \<le> mb
      then untruncated s ?n (byteLength s) ml mb
      else \<lparr>content = join [newline] out, truncated = True,
            truncatedBy = Some (if length out \<ge> ml \<and> cnt \<le> mb then ByLines else lim),
            totalLines = ?n, totalBytes = byteLength s, outputLines = length out,
            outputBytes = joined_bytes out, lastLinePartial = part, firstLineExceedsLimit = False,
            maxLines = ml, maxBytes = mb\<rparr>)"
    using run by (simp add: truncateTail_def Let_def ml_def mb_def)
  show ?thesis
  proof (cases "?n \<le> ml \<and> byteLength s \<le> mb")
    case True
    then show ?thesis by (simp add: r untruncated_def)
  next
    case False
    note r' = r [unfolded if_not_P [OF False]]
    show ?thesis
    proof (cases part)
      case True
      with spec have p: "0 < ml" "byteLength (last ?ls) > mb"
        "out = [truncateStringToBytesFromEnd (last ?ls) mb]"
        by (auto simp: hd_rev)
      have "units_ok (last ?ls)" using ok by (rule units_ok_lines [OF _ last_in_set]) simp
      from truncateString_bytes [OF this p(2)] p True show ?thesis
        by (simp add: r' tail_contract_def Let_def)
    next
      case part: False
      from spec [unfolded if_not_P [OF part]]
      obtain k where k: "k \<le> ?n" "out = rev (take k (rev ?ls))" "joined_bytes out \<le> mb"
        "length out \<le> ml"
        "k < ?n \<longrightarrow> length out = ml \<or> joined_bytes (rev ?ls ! k # out) > mb"
        unfolding length_rev append_Nil2 by blast
      then have out: "out = drop (?n - k) ?ls" by (simp add: take_rev)
      have "k < ?n"
      proof (rule ccontr)
        assume "\<not> k < ?n"
        with k(1) out have "out = ?ls" by simp
        with k False show False by simp
      qed
      then have "rev ?ls ! k # out = drop (?n - Suc k) ?ls"
        using out Cons_nth_drop_Suc [of "?n - Suc k" ?ls] by (simp add: rev_nth Suc_diff_Suc)
      with \<open>k < ?n\<close> k out part show ?thesis
        by (auto simp: r' tail_contract_def Let_def)
    qed
  qed
qed

theorem truncateTail_contract_witness:
  "tail_contract [97, 10, 98] (truncateTail [97, 10, 98] \<lparr>opt_maxLines = Some 1, opt_maxBytes = None\<rparr>)"
proof -
  have h: "units_ok [97, 10, 98]" by (simp add: units_ok_def)
  have "truncated (truncateTail [97, 10, 98] \<lparr>opt_maxLines = Some 1, opt_maxBytes = None\<rparr>)"
    by (simp add: truncateTail_def newline_def untruncated_def Let_def split: prod.splits)
  then show ?thesis
    using truncateTail_contract [OF h, of "\<lparr>opt_maxLines = Some 1, opt_maxBytes = None\<rparr>"]
    by (simp add: Let_def)
qed

end
