(* ===== verification/Usage.thy ===== *)
theory Usage
  imports Prelude Complex_Main
begin

text \<open>
  Token and cost accounting (\<open>core/usage.ts\<close>, the \<open>Usage\<close> type of \<open>ai/src/types.ts\<close>). Token counts
  are integers and costs exact rationals, where the code has IEEE doubles.
\<close>

record cost =
  c_input :: rat
  c_output :: rat
  c_cacheRead :: rat
  c_cacheWrite :: rat
  c_total :: rat

record usage =
  u_input :: int
  u_output :: int
  u_cacheRead :: int
  u_cacheWrite :: int
  u_totalTokens :: int
  u_cost :: cost

record session_usage_summary =
  inputTokens :: int
  outputTokens :: int
  summary_cost :: rat

definition sessionUsageSummaryFrom :: "usage \<Rightarrow> session_usage_summary option" where
  "sessionUsageSummaryFrom u =
     (let inp = u_input u + u_cacheRead u + u_cacheWrite u
      in if inp = 0 \<and> u_output u = 0 \<and> c_total (u_cost u) = 0 then None
         else Some \<lparr>inputTokens = inp, outputTokens = u_output u, summary_cost = c_total (u_cost u)\<rparr>)"

definition emptyUsage :: usage where
  "emptyUsage = \<lparr>u_input = 0, u_output = 0, u_cacheRead = 0, u_cacheWrite = 0, u_totalTokens = 0,
     u_cost = \<lparr>c_input = 0, c_output = 0, c_cacheRead = 0, c_cacheWrite = 0, c_total = 0\<rparr>\<rparr>"

definition addAssistantUsage :: "usage \<Rightarrow> usage \<Rightarrow> usage" where
  "addAssistantUsage t u =
     \<lparr>u_input = u_input t + u_input u, u_output = u_output t + u_output u,
      u_cacheRead = u_cacheRead t + u_cacheRead u, u_cacheWrite = u_cacheWrite t + u_cacheWrite u,
      u_totalTokens = u_totalTokens t + u_totalTokens u,
      u_cost = \<lparr>c_input = c_input (u_cost t) + c_input (u_cost u),
                c_output = c_output (u_cost t) + c_output (u_cost u),
                c_cacheRead = c_cacheRead (u_cost t) + c_cacheRead (u_cost u),
                c_cacheWrite = c_cacheWrite (u_cost t) + c_cacheWrite (u_cost u),
                c_total = c_total (u_cost t) + c_total (u_cost u)\<rparr>\<rparr>"

definition subtractAssistantUsage :: "usage \<Rightarrow> usage \<Rightarrow> usage" where
  "subtractAssistantUsage t u =
     \<lparr>u_input = max 0 (u_input t - u_input u), u_output = max 0 (u_output t - u_output u),
      u_cacheRead = max 0 (u_cacheRead t - u_cacheRead u),
      u_cacheWrite = max 0 (u_cacheWrite t - u_cacheWrite u),
      u_totalTokens = max 0 (u_totalTokens t - u_totalTokens u),
      u_cost = \<lparr>c_input = max 0 (c_input (u_cost t) - c_input (u_cost u)),
                c_output = max 0 (c_output (u_cost t) - c_output (u_cost u)),
                c_cacheRead = max 0 (c_cacheRead (u_cost t) - c_cacheRead (u_cost u)),
                c_cacheWrite = max 0 (c_cacheWrite (u_cost t) - c_cacheWrite (u_cost u)),
                c_total = max 0 (c_total (u_cost t) - c_total (u_cost u))\<rparr>\<rparr>"

definition cloneUsage :: "usage \<Rightarrow> usage" where
  "cloneUsage u =
     \<lparr>u_input = u_input u, u_output = u_output u, u_cacheRead = u_cacheRead u,
      u_cacheWrite = u_cacheWrite u, u_totalTokens = u_totalTokens u,
      u_cost = \<lparr>c_input = c_input (u_cost u), c_output = c_output (u_cost u),
                c_cacheRead = c_cacheRead (u_cost u), c_cacheWrite = c_cacheWrite (u_cost u),
                c_total = c_total (u_cost u)\<rparr>\<rparr>"

lemma cloneUsage_id [simp]: "cloneUsage u = u"
  by (simp add: cloneUsage_def)

section \<open>Usage is a commutative monoid, and subtraction undoes addition\<close>

definition nonneg_usage :: "usage \<Rightarrow> bool" where
  "nonneg_usage u \<longleftrightarrow> 0 \<le> u_input u \<and> 0 \<le> u_output u \<and> 0 \<le> u_cacheRead u \<and> 0 \<le> u_cacheWrite u
     \<and> 0 \<le> u_totalTokens u \<and> 0 \<le> c_input (u_cost u) \<and> 0 \<le> c_output (u_cost u)
     \<and> 0 \<le> c_cacheRead (u_cost u) \<and> 0 \<le> c_cacheWrite (u_cost u) \<and> 0 \<le> c_total (u_cost u)"

lemma add_usage_assoc: "addAssistantUsage (addAssistantUsage a b) c = addAssistantUsage a (addAssistantUsage b c)"
  by (simp add: addAssistantUsage_def)

lemma add_usage_commute: "addAssistantUsage a b = addAssistantUsage b a"
  by (simp add: addAssistantUsage_def)

lemma add_usage_left_commute: "addAssistantUsage a (addAssistantUsage b c) = addAssistantUsage b (addAssistantUsage a c)"
  by (simp add: addAssistantUsage_def)

lemmas usage_ac = add_usage_assoc add_usage_commute add_usage_left_commute

lemma add_usage_empty [simp]: "addAssistantUsage u emptyUsage = u" "addAssistantUsage emptyUsage u = u"
  by (simp_all add: addAssistantUsage_def emptyUsage_def)

lemma nonneg_emptyUsage [simp]: "nonneg_usage emptyUsage"
  by (simp add: nonneg_usage_def emptyUsage_def)

lemma nonneg_addUsage: "nonneg_usage a \<Longrightarrow> nonneg_usage b \<Longrightarrow> nonneg_usage (addAssistantUsage a b)"
  by (simp add: nonneg_usage_def addAssistantUsage_def)

lemma nonneg_subtractUsage: "nonneg_usage (subtractAssistantUsage a b)"
  by (simp add: nonneg_usage_def subtractAssistantUsage_def)

lemma subtract_add_usage:
  "nonneg_usage a \<Longrightarrow> subtractAssistantUsage (addAssistantUsage a b) b = a"
  by (simp add: nonneg_usage_def subtractAssistantUsage_def addAssistantUsage_def max_def)

definition sum_usage :: "usage list \<Rightarrow> usage" where
  "sum_usage us = foldl addAssistantUsage emptyUsage us"

lemma foldl_add_usage: "foldl addAssistantUsage t us = addAssistantUsage t (sum_usage us)"
  unfolding sum_usage_def
proof (induction us arbitrary: t)
  case (Cons u us)
  show ?case using Cons [of "addAssistantUsage t u"] Cons [of "addAssistantUsage emptyUsage u"]
    by (simp add: add_usage_assoc)
qed simp

lemma sum_usage_simps [simp]:
  "sum_usage [] = emptyUsage" "sum_usage (u # us) = addAssistantUsage u (sum_usage us)"
  using foldl_add_usage [of u us] by (simp_all add: sum_usage_def)

lemma nonneg_sum_usage: "\<forall>u\<in>set us. nonneg_usage u \<Longrightarrow> nonneg_usage (sum_usage us)"
  by (induction us) (simp_all add: nonneg_addUsage)

text \<open>Removing usages one by one from a total that contains them leaves the rest.\<close>

lemma foldl_subtract_usage:
  "nonneg_usage t \<Longrightarrow> \<forall>u\<in>set us. nonneg_usage u \<Longrightarrow>
   foldl subtractAssistantUsage (addAssistantUsage t (sum_usage us)) us = t"
proof (induction us)
  case (Cons u us)
  have "nonneg_usage (addAssistantUsage t (sum_usage us))"
    using Cons.prems by (simp add: nonneg_addUsage nonneg_sum_usage)
  moreover have "addAssistantUsage t (sum_usage (u # us)) = addAssistantUsage (addAssistantUsage t (sum_usage us)) u"
    by (simp add: usage_ac)
  ultimately show ?case using Cons by (simp add: subtract_add_usage del: sum_usage_simps)
qed simp

end
