(* ===== verification/Messages.thy ===== *)
theory Messages
  imports Json Usage "HOL-Library.Sublist"
begin

text \<open>
  The message types of \<open>ai/src/types.ts\<close> and \<open>core/messages.ts\<close> and their conversion to what the model
  reads: \<open>bashOutputToText\<close> with its code fence, the constructors of the summary messages, and
  \<open>convertToLlm\<close>. A time stamp is its milliseconds since the epoch, which the code writes as an ISO
  string in session entries and as a number in messages.
\<close>

section \<open>Content\<close>

datatype text_or_image =
    TextContent string "string option"
  | ImageContent string string

datatype msg_content = StrContent string | Blocks "text_or_image list"

record tool_call =
  tc_id :: string
  tc_name :: string
  tc_arguments :: json
  tc_thoughtSignature :: "string option"

datatype assistant_block =
    AText string "string option"
  | AThinking string "string option" bool
  | AToolCall tool_call

datatype stop_reason = Stop | Length | ToolUse | StopError | Aborted

record assistant_message =
  am_content :: "assistant_block list"
  am_api :: string
  am_provider :: string
  am_model :: string
  am_usage :: usage
  am_stopReason :: stop_reason
  am_errorMessage :: "string option"
  am_timestamp :: int

record tool_result_message =
  tr_toolCallId :: string
  tr_toolName :: string
  tr_content :: "text_or_image list"
  tr_details :: "json option"
  tr_isError :: bool
  tr_timestamp :: int

record bash_execution_message =
  be_command :: string
  be_output :: string
  be_exitCode :: "int option"
  be_cancelled :: bool
  be_truncated :: bool
  be_fullOutputPath :: "string option"
  be_timestamp :: int
  be_excludeFromContext :: bool

record custom_message =
  cm_customType :: string
  cm_content :: msg_content
  cm_display :: bool
  cm_details :: "json option"
  cm_timestamp :: int

record branch_summary_message =
  bs_summary :: string
  bs_fromId :: string
  bs_timestamp :: int

record compaction_summary_message =
  cs_summary :: string
  cs_tokensBefore :: int
  cs_retainedMessageCount :: "nat option"
  cs_customInstructions :: "string option"
  cs_timestamp :: int

text \<open>
  \<open>AgentMessage\<close>, one constructor per \<open>role\<close>; \<open>HookMessage\<close> is the role \<open>hookMessage\<close> of session
  files older than version 3.
\<close>

datatype agent_message =
    UserMessage msg_content int
  | AssistantMessage assistant_message
  | ToolResultMessage tool_result_message
  | BashExecution bash_execution_message
  | CustomMessage custom_message
  | HookMessage custom_message
  | BranchSummaryMessage branch_summary_message
  | CompactionSummaryMessage compaction_summary_message

fun is_assistant :: "agent_message \<Rightarrow> bool" where
  "is_assistant (AssistantMessage _) = True"
| "is_assistant _ = False"

text \<open>\<open>Message\<close>: what a provider accepts.\<close>

datatype llm_message =
    LlmUser msg_content int
  | LlmAssistant assistant_message
  | LlmToolResult tool_result_message

section \<open>Constants\<close>

definition nl :: string where
  "nl = [char_of (10::nat)]"

definition COMPACTION_SUMMARY_PREFIX :: string where
  "COMPACTION_SUMMARY_PREFIX =
     ''The conversation history before this point was compacted into the following summary:''
       @ nl @ nl @ ''<summary>'' @ nl"

definition COMPACTION_SUMMARY_SUFFIX :: string where
  "COMPACTION_SUMMARY_SUFFIX = nl @ ''</summary>''"

definition BRANCH_SUMMARY_PREFIX :: string where
  "BRANCH_SUMMARY_PREFIX =
     ''The following is a summary of a branch that this conversation came back from:''
       @ nl @ nl @ ''<summary>'' @ nl"

definition BRANCH_SUMMARY_SUFFIX :: string where
  "BRANCH_SUMMARY_SUFFIX = ''</summary>''"

definition SESSION_SLASH_COMMAND_CUSTOM_TYPE :: string where
  "SESSION_SLASH_COMMAND_CUSTOM_TYPE = ''session_slash_command''"

definition SESSION_SLASH_COMMAND_RESULT_CUSTOM_TYPE :: string where
  "SESSION_SLASH_COMMAND_RESULT_CUSTOM_TYPE = ''session_slash_command_result''"

definition COMPACTION_OUTCOME_CUSTOM_TYPE :: string where
  "COMPACTION_OUTCOME_CUSTOM_TYPE = ''compaction_outcome''"

definition REFINEMENT_OUTCOME_CUSTOM_TYPE :: string where
  "REFINEMENT_OUTCOME_CUSTOM_TYPE = ''refinement_outcome''"

section \<open>Bash output as text\<close>

definition backtick :: char where
  "backtick = char_of (96::nat)"

text \<open>The longest match of one or more backticks; \<open>cur\<close> is the length of the run being read.\<close>

fun longest_run :: "nat \<Rightarrow> nat \<Rightarrow> string \<Rightarrow> nat" where
  "longest_run best cur [] = max best cur"
| "longest_run best cur (c # cs) =
     (if c = backtick then longest_run best (Suc cur) cs else longest_run (max best cur) 0 cs)"

definition fence_for :: "string \<Rightarrow> string" where
  "fence_for out = replicate (max 3 (longest_run 0 0 out + 1)) backtick"

definition bashOutputToText :: "bash_execution_message \<Rightarrow> string" where
  "bashOutputToText msg =
     (let text = (if be_output msg \<noteq> [] then
                    let fence = fence_for (be_output msg)
                    in fence @ nl @ be_output msg @ nl @ fence
                  else ''(no output)'');
          text = (if be_cancelled msg then text @ nl @ nl @ ''(command cancelled)''
                  else case be_exitCode msg of
                         Some code \<Rightarrow> if code \<noteq> 0 then text @ nl @ nl @ ''Command exited with code '' @ int_dec code
                                       else text
                       | None \<Rightarrow> text)
      in if be_truncated msg then
           if truthy (be_fullOutputPath msg)
           then text @ nl @ nl @ ''[Output truncated. Full output: '' @ the (be_fullOutputPath msg) @ '']''
           else text @ nl @ nl @ ''[Output truncated.]''
         else text)"

definition bashExecutionToText :: "bash_execution_message \<Rightarrow> string" where
  "bashExecutionToText msg =
     ''Ran '' @ [backtick] @ be_command msg @ [backtick] @ nl @ bashOutputToText msg"

section \<open>Constructors\<close>

definition createBranchSummaryMessage :: "string \<Rightarrow> string \<Rightarrow> int \<Rightarrow> agent_message" where
  "createBranchSummaryMessage summary fromId ts =
     BranchSummaryMessage \<lparr>bs_summary = summary, bs_fromId = fromId, bs_timestamp = ts\<rparr>"

definition createCompactionSummaryMessage ::
  "string \<Rightarrow> int \<Rightarrow> int \<Rightarrow> string option \<Rightarrow> nat option \<Rightarrow> agent_message" where
  "createCompactionSummaryMessage summary tokensBefore ts ci retained =
     CompactionSummaryMessage \<lparr>cs_summary = summary, cs_tokensBefore = tokensBefore,
       cs_retainedMessageCount = retained, cs_customInstructions = ci, cs_timestamp = ts\<rparr>"

definition createCustomMessage ::
  "string \<Rightarrow> msg_content \<Rightarrow> bool \<Rightarrow> json option \<Rightarrow> int \<Rightarrow> agent_message" where
  "createCustomMessage ct content display details ts =
     CustomMessage \<lparr>cm_customType = ct, cm_content = content, cm_display = display,
       cm_details = details, cm_timestamp = ts\<rparr>"

section \<open>Conversion for the model\<close>

definition user_text :: "string \<Rightarrow> int \<Rightarrow> llm_message" where
  "user_text t ts = LlmUser (Blocks [TextContent t None]) ts"

fun convert_message :: "agent_message \<Rightarrow> llm_message option" where
  "convert_message (BashExecution m) =
     (if be_excludeFromContext m then None
      else Some (user_text (bashExecutionToText m) (be_timestamp m)))"
| "convert_message (CustomMessage m) =
     (if cm_customType m = SESSION_SLASH_COMMAND_CUSTOM_TYPE
       \<or> cm_customType m = SESSION_SLASH_COMMAND_RESULT_CUSTOM_TYPE
       \<or> cm_customType m = COMPACTION_OUTCOME_CUSTOM_TYPE
       \<or> cm_customType m = REFINEMENT_OUTCOME_CUSTOM_TYPE
      then None
      else Some (LlmUser (case cm_content m of StrContent s \<Rightarrow> Blocks [TextContent s None] | c \<Rightarrow> c)
                         (cm_timestamp m)))"
| "convert_message (BranchSummaryMessage m) =
     Some (user_text (BRANCH_SUMMARY_PREFIX @ bs_summary m @ BRANCH_SUMMARY_SUFFIX) (bs_timestamp m))"
| "convert_message (CompactionSummaryMessage m) =
     Some (user_text (COMPACTION_SUMMARY_PREFIX @ cs_summary m @ COMPACTION_SUMMARY_SUFFIX) (cs_timestamp m))"
| "convert_message (UserMessage c ts) = Some (LlmUser c ts)"
| "convert_message (AssistantMessage m) = Some (LlmAssistant m)"
| "convert_message (ToolResultMessage m) = Some (LlmToolResult m)"
| "convert_message (HookMessage m) = None"

definition convertToLlm :: "agent_message list \<Rightarrow> llm_message list" where
  "convertToLlm ms = List.map_filter convert_message ms"

section \<open>The fence cannot be closed by the output\<close>

lemma longest_run_best: "best \<le> longest_run best cur s \<and> cur \<le> longest_run best cur s"
  by (induction best cur s rule: longest_run.induct) auto

lemma longest_run_mono: "best' \<le> best \<Longrightarrow> cur' \<le> cur \<Longrightarrow> longest_run best' cur' s \<le> longest_run best cur s"
proof (induction best cur s arbitrary: best' cur' rule: longest_run.induct)
  case (2 best cur c cs)
  show ?case
  proof (cases "c = backtick")
    case True
    with 2 show ?thesis by simp
  next
    case False
    have "max best' cur' \<le> max best cur" using "2.prems" by auto
    with False "2.IH"(2) show ?thesis by simp
  qed
qed auto

lemma longest_run_replicate: "longest_run best cur (replicate n backtick @ s) = longest_run best (cur + n) s"
  by (induction n arbitrary: cur) auto

lemma longest_run_suffix: "longest_run 0 0 s \<le> longest_run best cur (p @ s)"
proof (induction p arbitrary: best cur)
  case Nil
  show ?case by (simp add: longest_run_mono)
next
  case (Cons c p)
  then show ?case by simp
qed

lemma longest_run_sublist:
  assumes "sublist (replicate n backtick) s"
  shows "n \<le> longest_run 0 0 s"
proof -
  from assms obtain p q where "s = p @ replicate n backtick @ q" by (auto simp: sublist_def)
  then have "longest_run 0 0 (replicate n backtick @ q) \<le> longest_run 0 0 s"
    by (simp add: longest_run_suffix)
  moreover have "n \<le> longest_run 0 0 (replicate n backtick @ q)"
    using longest_run_best [of n 0 q] longest_run_best [of 0 n q] by (simp add: longest_run_replicate)
  ultimately show ?thesis by simp
qed

text \<open>
  The code fence around bash output has at least three backticks and does not occur in the
  output, so output cannot close its own block.
\<close>

theorem bash_fence_unbreakable:
  assumes "be_output msg \<noteq> []"
  shows "\<exists>fence rest. bashOutputToText msg = fence @ nl @ be_output msg @ nl @ fence @ rest
    \<and> 3 \<le> length fence \<and> set fence = {backtick} \<and> \<not> sublist fence (be_output msg)"
proof -
  let ?n = "max 3 (longest_run 0 0 (be_output msg) + 1)"
  have no: "\<not> sublist (fence_for (be_output msg)) (be_output msg)"
    unfolding fence_for_def using longest_run_sublist [of ?n "be_output msg"] by auto
  have "3 \<le> length (fence_for (be_output msg))" "set (fence_for (be_output msg)) = {backtick}"
    by (simp_all add: fence_for_def max_def)
  moreover have "\<exists>rest. bashOutputToText msg
      = fence_for (be_output msg) @ nl @ be_output msg @ nl @ fence_for (be_output msg) @ rest"
    using assms by (simp add: bashOutputToText_def Let_def split: option.splits)
  ultimately show ?thesis using no by blast
qed

theorem bash_fence_unbreakable_witness:
  "\<exists>fence. \<not> sublist fence (replicate 4 backtick) \<and> 3 \<le> length fence"
  using bash_fence_unbreakable [of "\<lparr>be_command = ''ls'', be_output = replicate 4 backtick,
    be_exitCode = Some 0, be_cancelled = False, be_truncated = False, be_fullOutputPath = None,
    be_timestamp = 0, be_excludeFromContext = False\<rparr>"]
  by auto

section \<open>Conversion message by message\<close>

lemma convertToLlm_append [simp]: "convertToLlm (xs @ ys) = convertToLlm xs @ convertToLlm ys"
  by (simp add: convertToLlm_def List.map_filter_def)

lemma convertToLlm_Nil [simp]: "convertToLlm [] = []"
  by (simp add: convertToLlm_def List.map_filter_def)

lemma convertToLlm_Cons:
  "convertToLlm (m # ms) = (case convert_message m of None \<Rightarrow> convertToLlm ms | Some l \<Rightarrow> l # convertToLlm ms)"
  by (simp add: convertToLlm_def List.map_filter_def split: option.split)

end
