(* ===== verification/Session_Entries.thy ===== *)
theory Session_Entries
  imports Messages
begin

text \<open>
  The records of a session file (\<open>core/session-manager.ts\<close>, the part before the class): the entry
  types, the migrations from versions 1 and 2, parsing and loading, the folding of child usage into
  assistant messages, and \<open>buildSessionContext\<close>, which turns the path from the root to the current
  leaf into the messages the model sees.

  Entries refer to their parent by id, so a file is a tree kept as a list. The walk to the root is
  a loop that a file with a parent cycle never leaves; it is a \<open>partial_function\<close> whose result is
  \<open>None\<close> then (\<open>walk_self_parent\<close>), and it is total on the files the program writes
  (\<open>walk_total\<close>).
\<close>

section \<open>Entry types\<close>

record git_context =
  g_repoUrl :: "string option"
  g_commit :: "string option"
  g_branch :: "string option"

definition gitContextsEqual :: "git_context \<Rightarrow> git_context \<Rightarrow> bool" where
  "gitContextsEqual a b \<longleftrightarrow> g_repoUrl a = g_repoUrl b \<and> g_commit a = g_commit b \<and> g_branch a = g_branch b"

record session_header =
  h_version :: "nat option"
  h_id :: string
  h_timestamp :: int
  h_cwd :: string
  h_parentSession :: "string option"
  h_rlmDepth :: "int option"
  h_git :: "git_context option"

record compaction_data =
  cd_summary :: string
  cd_firstKeptEntryId :: string
  cd_firstKeptEntryIndex :: "int option"
  cd_tokensBefore :: int
  cd_details :: "json option"
  cd_fromHook :: bool
  cd_customInstructions :: "string option"
  cd_usage :: "usage option"

record branch_summary_data =
  bd_fromId :: string
  bd_summary :: string
  bd_details :: "json option"
  bd_fromHook :: bool
  bd_usage :: "usage option"

record agent_status =
  as_summary :: string
  as_taskState :: "string option"
  as_basedOnMessageCount :: nat

datatype entry_body =
    MessageE agent_message
  | ThinkingLevelChange string
  | ServiceTierChange string
  | ModelChange string string
  | Compaction compaction_data
  | BranchSummary branch_summary_data
  | CustomE string "json option"
  | ChildUsageAttributed string usage usage "string option"
  | CustomMessageE string msg_content bool "json option"
  | Label string "string option"
  | SessionInfo "string option"
  | SessionState string
  | AgentStatus agent_status
  | GitState git_context

record session_entry =
  e_id :: string
  e_parentId :: "string option"
  e_timestamp :: int
  e_body :: entry_body

datatype file_entry = Header session_header | Entry session_entry

definition CURRENT_SESSION_VERSION :: nat where
  "CURRENT_SESSION_VERSION = 3"

fun is_label :: "session_entry \<Rightarrow> bool" where
  "is_label e = (case e_body e of Label _ _ \<Rightarrow> True | _ \<Rightarrow> False)"

fun is_compaction :: "session_entry \<Rightarrow> bool" where
  "is_compaction e = (case e_body e of Compaction _ \<Rightarrow> True | _ \<Rightarrow> False)"

fun is_git_state :: "session_entry \<Rightarrow> bool" where
  "is_git_state e = (case e_body e of GitState _ \<Rightarrow> True | _ \<Rightarrow> False)"

fun is_assistant_entry :: "session_entry \<Rightarrow> bool" where
  "is_assistant_entry e = (case e_body e of MessageE m \<Rightarrow> is_assistant m | _ \<Rightarrow> False)"

declare is_git_state.simps [simp del]

text \<open>The entries of a file without its headers, and its first header.\<close>

definition entries_of :: "file_entry list \<Rightarrow> session_entry list" where
  "entries_of fs = concat (map (\<lambda>f. case f of Entry e \<Rightarrow> [e] | Header _ \<Rightarrow> []) fs)"

definition header_of :: "file_entry list \<Rightarrow> session_header option" where
  "header_of fs = (case concat (map (\<lambda>f. case f of Header h \<Rightarrow> [h] | Entry _ \<Rightarrow> []) fs) of
     [] \<Rightarrow> None | h # _ \<Rightarrow> Some h)"

lemma entries_of_simps [simp]:
  "entries_of [] = []" "entries_of (Entry e # fs) = e # entries_of fs"
  "entries_of (Header h # fs) = entries_of fs" "entries_of (fs @ gs) = entries_of fs @ entries_of gs"
  by (simp_all add: entries_of_def)

lemma entries_of_map_Entry [simp]: "entries_of (map Entry es) = es"
  by (induction es) simp_all

lemma header_of_simps [simp]:
  "header_of [] = None" "header_of (Header h # fs) = Some h"
  "header_of (Entry e # fs) = header_of fs"
  by (simp_all add: header_of_def)

section \<open>Ids\<close>

text \<open>
  \<open>generateId\<close>: at most 100 eight-character prefixes of random UUIDs, then a whole UUID. The UUIDs
  \<open>randomUUID\<close> will return are the sequence \<open>rnd\<close>, of which \<open>pos\<close> have been used.
\<close>

fun gen_try :: "nat \<Rightarrow> (string \<Rightarrow> bool) \<Rightarrow> (nat \<Rightarrow> string) \<Rightarrow> nat \<Rightarrow> string \<times> nat" where
  "gen_try 0 has rnd pos = (rnd pos, Suc pos)"
| "gen_try (Suc k) has rnd pos =
     (let id = take 8 (rnd pos) in if \<not> has id then (id, Suc pos) else gen_try k has rnd (Suc pos))"

definition generateId :: "(string \<Rightarrow> bool) \<Rightarrow> (nat \<Rightarrow> string) \<Rightarrow> nat \<Rightarrow> string \<times> nat" where
  "generateId has rnd pos = gen_try 100 has rnd pos"

section \<open>Migration\<close>

text \<open>
  \<open>migrateV1ToV2\<close> gives every entry an id and chains the entries. A compaction of version 1 names its
  first kept entry by index into the whole array, of which the prefix already has new ids and the
  rest still has the old ones (none in version 1, here the empty string).
\<close>

fun fix_first_kept :: "file_entry list \<Rightarrow> entry_body \<Rightarrow> entry_body" where
  "fix_first_kept all (Compaction c) =
     (case cd_firstKeptEntryIndex c of
        None \<Rightarrow> Compaction c
      | Some k \<Rightarrow>
          let c' = (if 0 \<le> k \<and> nat k < length all
                    then case all ! nat k of
                           Entry t \<Rightarrow> c\<lparr>cd_firstKeptEntryId := e_id t\<rparr>
                         | Header _ \<Rightarrow> c
                    else c)
          in Compaction (c'\<lparr>cd_firstKeptEntryIndex := None\<rparr>))"
| "fix_first_kept all b = b"

fun migrate_v1_loop ::
  "(nat \<Rightarrow> string) \<Rightarrow> file_entry list \<Rightarrow> file_entry list \<Rightarrow> string list \<Rightarrow> string option \<Rightarrow> nat
     \<Rightarrow> file_entry list \<times> nat"
where
  "migrate_v1_loop rnd acc [] ids prev pos = (acc, pos)"
| "migrate_v1_loop rnd acc (Header h # fs) ids prev pos =
     migrate_v1_loop rnd (acc @ [Header (h\<lparr>h_version := Some 2\<rparr>)]) fs ids prev pos"
| "migrate_v1_loop rnd acc (Entry e # fs) ids prev pos =
     (let (id, pos') = generateId (\<lambda>i. i \<in> set ids) rnd pos;
          e1 = e\<lparr>e_id := id, e_parentId := prev\<rparr>;
          e2 = e1\<lparr>e_body := fix_first_kept (acc @ Entry e1 # fs) (e_body e1)\<rparr>
      in migrate_v1_loop rnd (acc @ [Entry e2]) fs ids (Some id) pos')"

definition migrateV1ToV2 :: "(nat \<Rightarrow> string) \<Rightarrow> file_entry list \<Rightarrow> nat \<Rightarrow> file_entry list \<times> nat" where
  "migrateV1ToV2 rnd fs pos = migrate_v1_loop rnd [] fs [] None pos"

fun migrate_v2_entry :: "file_entry \<Rightarrow> file_entry" where
  "migrate_v2_entry (Header h) = Header (h\<lparr>h_version := Some 3\<rparr>)"
| "migrate_v2_entry (Entry e) =
     Entry (case e_body e of
              MessageE (HookMessage m) \<Rightarrow> e\<lparr>e_body := MessageE (CustomMessage m)\<rparr>
            | _ \<Rightarrow> e)"

definition migrateV2ToV3 :: "file_entry list \<Rightarrow> file_entry list" where
  "migrateV2ToV3 fs = map migrate_v2_entry fs"

definition file_version :: "file_entry list \<Rightarrow> nat" where
  "file_version fs = (case header_of fs of None \<Rightarrow> 1 | Some h \<Rightarrow> nullish (h_version h) 1)"

definition migrateToCurrentVersion ::
  "(nat \<Rightarrow> string) \<Rightarrow> file_entry list \<Rightarrow> nat \<Rightarrow> bool \<times> file_entry list \<times> nat" where
  "migrateToCurrentVersion rnd fs pos =
     (let v = file_version fs in
      if v \<ge> CURRENT_SESSION_VERSION then (False, fs, pos)
      else let (fs1, pos1) = (if v < 2 then migrateV1ToV2 rnd fs pos else (fs, pos));
               fs2 = (if v < 3 then migrateV2ToV3 fs1 else fs1)
           in (True, fs2, pos1))"

section \<open>Child usage\<close>

fun upd_first :: "('a \<Rightarrow> bool) \<Rightarrow> ('a \<Rightarrow> 'a) \<Rightarrow> 'a list \<Rightarrow> 'a list" where
  "upd_first P f [] = []"
| "upd_first P f (x # xs) = (if P x then f x # xs else x # upd_first P f xs)"

definition upd_last :: "('a \<Rightarrow> bool) \<Rightarrow> ('a \<Rightarrow> 'a) \<Rightarrow> 'a list \<Rightarrow> 'a list" where
  "upd_last P f xs = rev (upd_first P f (rev xs))"

text \<open>\<open>target.message.usage = \<dots>\<close> on an assistant entry.\<close>

fun set_usage :: "usage \<Rightarrow> session_entry \<Rightarrow> session_entry" where
  "set_usage u e = (case e_body e of
      MessageE (AssistantMessage m) \<Rightarrow> e\<lparr>e_body := MessageE (AssistantMessage (m\<lparr>am_usage := u\<rparr>))\<rparr>
    | _ \<Rightarrow> e)"

declare set_usage.simps [simp del] is_assistant_entry.simps [simp del]

fun on_entry :: "(session_entry \<Rightarrow> session_entry) \<Rightarrow> file_entry \<Rightarrow> file_entry" where
  "on_entry f (Entry e) = Entry (f e)"
| "on_entry f (Header h) = Header h"

definition is_assistant_with :: "string \<Rightarrow> file_entry \<Rightarrow> bool" where
  "is_assistant_with t f \<longleftrightarrow> (case f of Entry e \<Rightarrow> e_id e = t \<and> is_assistant_entry e | Header _ \<Rightarrow> False)"

text \<open>
  The map from ids to assistant entries holds the last entry with each id, so an attribution writes
  the last assistant entry with the target id, and none when there is no such entry.
\<close>

fun apply_attribution :: "file_entry list \<Rightarrow> file_entry \<Rightarrow> file_entry list" where
  "apply_attribution fs (Entry e) =
     (case e_body e of
        ChildUsageAttributed t child agg orig \<Rightarrow>
          upd_last (is_assistant_with t) (on_entry (set_usage (cloneUsage agg))) fs
      | _ \<Rightarrow> fs)"
| "apply_attribution fs (Header h) = fs"

definition applyChildUsageAttributions :: "file_entry list \<Rightarrow> file_entry list" where
  "applyChildUsageAttributions fs = foldl apply_attribution fs fs"

section \<open>Files\<close>

text \<open>
  A file is its complete lines and possibly a last fragment without a newline. A line is what
  \<open>JSON.parse\<close> makes of it: an entry, or nothing (blank or malformed text).
\<close>

datatype file_line = JsonLine file_entry | BadLine

datatype file_tail = NoTail | TornTail | WholeTail file_entry

record session_file =
  sf_lines :: "file_line list"
  sf_tail :: file_tail

definition parse_line :: "file_line \<Rightarrow> file_entry list" where
  "parse_line l = (case l of JsonLine f \<Rightarrow> [f] | BadLine \<Rightarrow> [])"

definition parse_tail :: "file_tail \<Rightarrow> file_entry list" where
  "parse_tail t = (case t of WholeTail f \<Rightarrow> [f] | _ \<Rightarrow> [])"

text \<open>The last fragment is parsed like a line.\<close>

definition parseEntriesFromBuffer :: "session_file \<Rightarrow> file_entry list" where
  "parseEntriesFromBuffer f = concat (map parse_line (sf_lines f)) @ parse_tail (sf_tail f)"

definition parseSessionEntries :: "session_file \<Rightarrow> file_entry list" where
  "parseSessionEntries f = applyChildUsageAttributions (parseEntriesFromBuffer f)"

definition finalizeLoadedEntries :: "file_entry list \<Rightarrow> file_entry list" where
  "finalizeLoadedEntries fs =
     (case fs of [] \<Rightarrow> [] | Entry _ # _ \<Rightarrow> [] | Header h # _ \<Rightarrow> applyChildUsageAttributions fs)"

definition loadEntriesFromFile :: "(string \<times> session_file) list \<Rightarrow> string \<Rightarrow> file_entry list" where
  "loadEntriesFromFile fs path =
     (case map_of fs path of None \<Rightarrow> [] | Some f \<Rightarrow> finalizeLoadedEntries (parseEntriesFromBuffer f))"

text \<open>Appending a line, which completes a fragment left by an earlier failed write.\<close>

definition append_line :: "session_file \<Rightarrow> file_entry \<Rightarrow> session_file" where
  "append_line f e = (case sf_tail f of
      NoTail \<Rightarrow> f\<lparr>sf_lines := sf_lines f @ [JsonLine e]\<rparr>
    | _ \<Rightarrow> \<lparr>sf_lines = sf_lines f @ [BadLine], sf_tail = NoTail\<rparr>)"

definition file_of :: "file_entry list \<Rightarrow> session_file" where
  "file_of fs = \<lparr>sf_lines = map JsonLine fs, sf_tail = NoTail\<rparr>"

lemma parse_file_of [simp]: "parseEntriesFromBuffer (file_of fs) = fs"
  by (induction fs) (simp_all add: parseEntriesFromBuffer_def file_of_def parse_line_def parse_tail_def)

lemma append_file_of [simp]: "append_line (file_of fs) e = file_of (fs @ [e])"
  by (simp add: append_line_def file_of_def)

section \<open>The path to the root\<close>

type_synonym id_map = "(string \<times> session_entry) list"

text \<open>\<open>current.parentId ? byId.get(current.parentId) : undefined\<close>\<close>

definition parent_entry :: "id_map \<Rightarrow> session_entry \<Rightarrow> session_entry option" where
  "parent_entry byId e = (if truthy (e_parentId e) then map_of byId (the (e_parentId e)) else None)"

partial_function (option) walk ::
  "id_map \<Rightarrow> session_entry option \<Rightarrow> session_entry list \<Rightarrow> session_entry list option" where
  "walk byId current path =
     (case current of
        None \<Rightarrow> Some (rev path)
      | Some e \<Rightarrow> walk byId (parent_entry byId e) (path @ [e]))"

section \<open>The context of the model\<close>

definition getLatestCompactionEntry :: "session_entry list \<Rightarrow> session_entry option" where
  "getLatestCompactionEntry es = find_last is_compaction es"

record session_context =
  sc_messages :: "agent_message list"
  sc_thinkingLevel :: string
  sc_serviceTier :: string
  sc_model :: "(string \<times> string) option"

definition empty_context :: session_context where
  "empty_context = \<lparr>sc_messages = [], sc_thinkingLevel = ''off'', sc_serviceTier = ''default'', sc_model = None\<rparr>"

text \<open>The settings loop: thinking level, service tier, model and last compaction of the path.\<close>

fun settings_step ::
  "(string \<times> string \<times> (string \<times> string) option \<times> session_entry option) \<Rightarrow> session_entry
     \<Rightarrow> (string \<times> string \<times> (string \<times> string) option \<times> session_entry option)"
where
  "settings_step (tl', st, md, cp) e =
     (case e_body e of
        ThinkingLevelChange l \<Rightarrow> (l, st, md, cp)
      | ServiceTierChange t \<Rightarrow> (tl', t, md, cp)
      | ModelChange p m \<Rightarrow> (tl', st, Some (p, m), cp)
      | MessageE (AssistantMessage m) \<Rightarrow> (tl', st, Some (am_provider m, am_model m), cp)
      | Compaction _ \<Rightarrow> (tl', st, md, Some e)
      | _ \<Rightarrow> (tl', st, md, cp))"

text \<open>\<open>appendMessage\<close> of \<open>buildSessionContext\<close>: the message an entry contributes, if any.\<close>

definition context_message :: "session_entry \<Rightarrow> agent_message list" where
  "context_message e =
     (case e_body e of
        MessageE m \<Rightarrow> [m]
      | CustomMessageE ct c d det \<Rightarrow> [createCustomMessage ct c d det (e_timestamp e)]
      | BranchSummary b \<Rightarrow>
          if bd_summary b \<noteq> [] then [createBranchSummaryMessage (bd_summary b) (bd_fromId b) (e_timestamp e)]
          else []
      | _ \<Rightarrow> [])"

definition context_messages :: "session_entry list \<Rightarrow> agent_message list" where
  "context_messages es = concat (map context_message es)"

fun retained_from :: "string \<Rightarrow> bool \<Rightarrow> session_entry list \<Rightarrow> agent_message list" where
  "retained_from k found [] = []"
| "retained_from k found (e # es) =
     (let found' = (found \<or> e_id e = k)
      in (if found' then context_message e else []) @ retained_from k found' es)"

fun find_index :: "('a \<Rightarrow> bool) \<Rightarrow> 'a list \<Rightarrow> nat option" where
  "find_index P [] = None"
| "find_index P (x # xs) = (if P x then Some 0 else map_option Suc (find_index P xs))"

text \<open>The message list of a path; \<open>cp\<close> is the last compaction on it.\<close>

definition path_messages :: "session_entry list \<Rightarrow> session_entry option \<Rightarrow> agent_message list" where
  "path_messages path cp =
     (case cp of
        None \<Rightarrow> context_messages path
      | Some c \<Rightarrow>
          (case e_body c of
             Compaction d \<Rightarrow>
               (let i = (case find_index (\<lambda>e. is_compaction e \<and> e_id e = e_id c) path of
                           None \<Rightarrow> 0 | Some i \<Rightarrow> i);
                    retained = retained_from (cd_firstKeptEntryId d) False (take i path)
                in createCompactionSummaryMessage (cd_summary d) (cd_tokensBefore d) (e_timestamp c)
                     (cd_customInstructions d) (Some (length retained))
                   # retained @ context_messages (drop (Suc i) path))
           | _ \<Rightarrow> context_messages path))"

definition path_context :: "session_entry list \<Rightarrow> session_context" where
  "path_context path =
     (let (tl', st, md, cp) = foldl settings_step (''off'', ''default'', None, None) path
      in \<lparr>sc_messages = path_messages path cp, sc_thinkingLevel = tl', sc_serviceTier = st, sc_model = md\<rparr>)"

datatype leaf_arg = LeafUndefined | LeafNull | LeafId string

definition index_entries :: "session_entry list \<Rightarrow> id_map" where
  "index_entries es = foldl (\<lambda>m e. AList.update (e_id e) e m) [] es"

definition buildSessionContext ::
  "session_entry list \<Rightarrow> leaf_arg \<Rightarrow> id_map option \<Rightarrow> session_context option" where
  "buildSessionContext es leaf byId0 =
     (let byId = nullish byId0 (index_entries es);
          last_entry = (if es = [] then None else Some (last es))
      in if leaf = LeafNull then Some empty_context
         else let found = (case leaf of LeafId l \<Rightarrow> if l \<noteq> [] then map_of byId l else None | _ \<Rightarrow> None)
              in case (if found = None then last_entry else found) of
                   None \<Rightarrow> Some empty_context
                 | Some e \<Rightarrow> map_option path_context (walk byId (Some e) []))"

end
