(* ===== verification/Session_Paths.thy ===== *)
theory Session_Paths
  imports Session_Entries
begin

text \<open>
  Paths and contexts. A well-formed list of entries is a tree in file order: ids are non-empty and
  distinct and a parent precedes its children. On such a list the walk to the root returns, with a
  chronological path; the context of a path grows only at its end unless a compaction is appended,
  and a compaction keeps exactly the messages from its first kept entry on.
\<close>

section \<open>Entry trees\<close>

fun tree_from :: "string set \<Rightarrow> session_entry list \<Rightarrow> bool" where
  "tree_from S [] \<longleftrightarrow> True"
| "tree_from S (e # es) \<longleftrightarrow>
     e_id e \<noteq> [] \<and> e_id e \<notin> S \<and> (case e_parentId e of None \<Rightarrow> True | Some p \<Rightarrow> p \<in> S)
     \<and> tree_from (insert (e_id e) S) es"

definition wf_tree :: "session_entry list \<Rightarrow> bool" where
  "wf_tree es \<longleftrightarrow> tree_from {} es"

abbreviation ids :: "session_entry list \<Rightarrow> string set" where
  "ids es \<equiv> e_id ` set es"

lemma tree_from_append:
  "tree_from S (xs @ ys) \<longleftrightarrow> tree_from S xs \<and> tree_from (S \<union> ids xs) ys"
  by (induction xs arbitrary: S) (auto simp: Un_commute)

lemma wf_tree_Nil [simp]: "wf_tree []"
  by (simp add: wf_tree_def)

lemma wf_tree_snoc:
  "wf_tree (es @ [e]) \<longleftrightarrow>
     wf_tree es \<and> e_id e \<noteq> [] \<and> e_id e \<notin> ids es \<and> (case e_parentId e of None \<Rightarrow> True | Some p \<Rightarrow> p \<in> ids es)"
  by (simp add: wf_tree_def tree_from_append)

lemma tree_from_distinct: "tree_from S es \<Longrightarrow> distinct (map e_id es) \<and> ids es \<inter> S = {} \<and> [] \<notin> ids es"
  by (induction es arbitrary: S) auto

lemma wf_tree_distinct: "wf_tree es \<Longrightarrow> distinct (map e_id es)"
  by (simp add: wf_tree_def tree_from_distinct)

lemma wf_tree_nonempty_id: "wf_tree es \<Longrightarrow> e \<in> set es \<Longrightarrow> e_id e \<noteq> []"
  using tree_from_distinct [of "{}" es] by (force simp: wf_tree_def)

text \<open>Every parent is an earlier entry.\<close>

lemma wf_tree_parent:
  assumes "wf_tree es" "i < length es" "e_parentId (es ! i) = Some p"
  shows "\<exists>j < i. e_id (es ! j) = p"
proof -
  have "es = take i es @ es ! i # drop (Suc i) es" using assms(2) by (rule id_take_nth_drop)
  with assms(1) have "tree_from {} (take i es @ es ! i # drop (Suc i) es)" by (simp add: wf_tree_def)
  with assms(3) have "p \<in> ids (take i es)" by (simp add: tree_from_append)
  then obtain j where "j < length (take i es)" "e_id (take i es ! j) = p"
    by (auto simp: in_set_conv_nth)
  then show ?thesis by (intro exI [of _ j]) simp
qed

section \<open>The index\<close>

lemma map_of_index_entries_aux:
  "map_of (foldl (\<lambda>m e. AList.update (e_id e) e m) m0 es) k =
     (case find_last (\<lambda>e. e_id e = k) es of None \<Rightarrow> map_of m0 k | Some e \<Rightarrow> Some e)"
  by (induction es rule: rev_induct) (auto simp: update_conv')

lemma map_of_index_entries: "map_of (index_entries es) k = find_last (\<lambda>e. e_id e = k) es"
  by (simp add: index_entries_def map_of_index_entries_aux split: option.split)

lemma index_entries_snoc: "index_entries (es @ [e]) = AList.update (e_id e) e (index_entries es)"
  by (simp add: index_entries_def)

lemma index_lookup:
  assumes "distinct (map e_id es)" "e \<in> set es"
  shows "map_of (index_entries es) (e_id e) = Some e"
proof -
  have "find_last (\<lambda>x. e_id x = e_id e) es \<noteq> None" using assms(2) by (auto simp: find_last_None)
  then obtain x where x: "find_last (\<lambda>x. e_id x = e_id e) es = Some x" by blast
  from find_last_Some [OF this] have "x \<in> set es" "e_id x = e_id e" by auto
  with assms have "x = e" by (auto simp: distinct_map dest: inj_onD)
  with x show ?thesis by (simp add: map_of_index_entries)
qed

lemma index_lookup_Some: "map_of (index_entries es) k = Some e \<Longrightarrow> e \<in> set es \<and> e_id e = k"
  by (auto simp: map_of_index_entries dest: find_last_Some)

lemma index_lookup_None: "map_of (index_entries es) k = None \<longleftrightarrow> k \<notin> ids es"
  by (auto simp: map_of_index_entries find_last_None)

section \<open>The walk\<close>

text \<open>A path from a root: the first entry has no parent entry, every other has its predecessor.\<close>

fun is_path :: "id_map \<Rightarrow> session_entry option \<Rightarrow> session_entry list \<Rightarrow> bool" where
  "is_path m prev [] \<longleftrightarrow> True"
| "is_path m prev (e # es) \<longleftrightarrow> parent_entry m e = prev \<and> is_path m (Some e) es"

lemma is_path_append:
  "is_path m prev (xs @ ys) \<longleftrightarrow> is_path m prev xs \<and> is_path m (if xs = [] then prev else Some (last xs)) ys"
  by (induction xs arbitrary: prev) auto

lemma walk_None [simp]: "walk m None path = Some (rev path)"
  by (simp add: walk.simps)

lemma walk_Some: "walk m (Some e) path = walk m (parent_entry m e) (path @ [e])"
  by (subst walk.simps) simp

lemma wf_parent_entry:
  assumes "wf_tree es" "i < length es"
  shows "parent_entry (index_entries es) (es ! i) = None
    \<or> (\<exists>j < i. parent_entry (index_entries es) (es ! i) = Some (es ! j)
             \<and> e_parentId (es ! i) = Some (e_id (es ! j)))"
proof (cases "e_parentId (es ! i)")
  case None
  then show ?thesis by (simp add: parent_entry_def)
next
  case (Some p)
  with wf_tree_parent [OF assms] obtain j where j: "j < i" "e_id (es ! j) = p" by blast
  then have mem: "es ! j \<in> set es" using assms(2) by simp
  have "map_of (index_entries es) p = Some (es ! j)"
    using index_lookup [OF wf_tree_distinct [OF assms(1)] mem] j by simp
  moreover have "p \<noteq> []" using wf_tree_nonempty_id [OF assms(1) mem] j by simp
  ultimately show ?thesis using Some j by (auto simp: parent_entry_def)
qed

lemma wf_walk_nth:
  assumes "wf_tree es" "i < length es"
  shows "\<exists>q. (\<forall>acc. walk (index_entries es) (Some (es ! i)) acc = Some (q @ rev acc))
    \<and> q \<noteq> [] \<and> last q = es ! i \<and> is_path (index_entries es) None q \<and> subseq q (take (Suc i) es)"
  using assms(2)
proof (induction i rule: less_induct)
  case (less i)
  have take: "take (Suc i) es = take i es @ [es ! i]" using less.prems by (rule take_Suc_conv_app_nth)
  from wf_parent_entry [OF assms(1) less.prems] show ?case
  proof
    assume none: "parent_entry (index_entries es) (es ! i) = None"
    have "subseq [es ! i] (take (Suc i) es)" unfolding take by (rule list_emb_append2) simp
    with none show ?case by (intro exI [of _ "[es ! i]"]) (simp add: walk_Some)
  next
    assume "\<exists>j < i. parent_entry (index_entries es) (es ! i) = Some (es ! j)
             \<and> e_parentId (es ! i) = Some (e_id (es ! j))"
    then obtain j where j: "j < i" "parent_entry (index_entries es) (es ! i) = Some (es ! j)" by blast
    then obtain q where q: "\<forall>acc. walk (index_entries es) (Some (es ! j)) acc = Some (q @ rev acc)"
      "q \<noteq> []" "last q = es ! j" "is_path (index_entries es) None q" "subseq q (take (Suc j) es)"
      using less.IH [of j] less.prems by auto
    have "take i es = take (Suc j) es @ drop (Suc j) (take i es)"
      using j(1) by (metis Suc_leI append_take_drop_id min.absorb1 take_take)
    then have "subseq q (take i es)" using q(5) by (metis append_Nil2 list_emb_append_mono list_emb_Nil)
    then have "subseq (q @ [es ! i]) (take (Suc i) es)" unfolding take by (simp add: list_emb_append_mono)
    with q j(2) show ?case
      by (intro exI [of _ "q @ [es ! i]"]) (simp add: walk_Some [of _ "es ! i"] is_path_append)
  qed
qed

lemma wf_walk:
  assumes "wf_tree es" "e \<in> set es"
  obtains q where "\<And>acc. walk (index_entries es) (Some e) acc = Some (q @ rev acc)"
    "q \<noteq> []" "last q = e" "is_path (index_entries es) None q" "subseq q es"
proof -
  from assms(2) obtain i where i: "i < length es" "es ! i = e" by (auto simp: in_set_conv_nth)
  from wf_walk_nth [OF assms(1) i(1)] obtain q where q:
    "\<forall>acc. walk (index_entries es) (Some e) acc = Some (q @ rev acc)"
    "q \<noteq> []" "last q = e" "is_path (index_entries es) None q" "subseq q (take (Suc i) es)"
    using i(2) by blast
  have "subseq (take (Suc i) es) es" by (metis append_take_drop_id prefix_def prefix_imp_subseq)
  then have "subseq q es" using q(5) subseq_order.trans by blast
  with q that show thesis by blast
qed

text \<open>A path leaves the last entry before it reaches it: walking from an appended child.\<close>

lemma walk_snoc:
  assumes "wf_tree es" "wf_tree (es @ [e])" "x \<in> set es"
    and "walk (index_entries es) (Some x) [] = Some q"
  shows "walk (index_entries (es @ [e])) (Some x) acc = Some (q @ rev acc)"
proof -
  have "\<forall>acc. walk (index_entries (es @ [e])) (Some (es ! i)) acc
      = map_option (\<lambda>q. q @ rev acc) (walk (index_entries es) (Some (es ! i)) [])" if "i < length es" for i
    using that
  proof (induction i rule: less_induct)
    case (less i)
    have nth: "(es @ [e]) ! i = es ! i" using less.prems by (simp add: nth_append)
    have same: "parent_entry (index_entries (es @ [e])) (es ! i) = parent_entry (index_entries es) (es ! i)"
    proof (cases "e_parentId (es ! i)")
      case None
      then show ?thesis by (simp add: parent_entry_def)
    next
      case (Some p)
      then have "\<exists>j < i. e_id (es ! j) = p" using wf_tree_parent [OF assms(1) less.prems] by simp
      then have "p \<in> ids es" using less.prems by fastforce
      moreover have "e_id e \<notin> ids es" using assms(2) by (simp add: wf_tree_snoc)
      ultimately have "p \<noteq> e_id e" by blast
      with Some show ?thesis by (simp add: parent_entry_def map_of_index_entries)
    qed
    from wf_parent_entry [OF assms(1) less.prems] show ?case
    proof
      assume "parent_entry (index_entries es) (es ! i) = None"
      then show ?case by (simp add: walk_Some same)
    next
      assume "\<exists>j < i. parent_entry (index_entries es) (es ! i) = Some (es ! j)
             \<and> e_parentId (es ! i) = Some (e_id (es ! j))"
      then obtain j where j: "j < i" "parent_entry (index_entries es) (es ! i) = Some (es ! j)" by blast
      then have ih: "walk (index_entries (es @ [e])) (Some (es ! j)) acc
        = map_option (\<lambda>q. q @ rev acc) (walk (index_entries es) (Some (es ! j)) [])" for acc
        using less.IH less.prems by simp
      obtain q where "\<And>acc. walk (index_entries es) (Some (es ! j)) acc = Some (q @ rev acc)"
        using wf_walk_nth [OF assms(1), of j] j(1) less.prems by auto
      with ih j(2) show ?case by (simp add: walk_Some [of _ "es ! i"] same)
    qed
  qed
  moreover obtain i where "i < length es" "es ! i = x" using assms(3) by (auto simp: in_set_conv_nth)
  ultimately show ?thesis using assms(4) by auto
qed

text \<open>An entry that is its own parent: the loop of the source does not end.\<close>

lemma walk_self_parent:
  assumes "parent_entry m e = Some e"
  shows "walk m (Some e) path = None"
proof (cases "walk m (Some e) path")
  case (Some r)
  have "m = m \<longrightarrow> c = Some e \<longrightarrow> False" if "walk m c p = Some r" for c p
  proof (rule walk.raw_induct [where P = "\<lambda>m' c p r. m' = m \<longrightarrow> c = Some e \<longrightarrow> False", OF _ that])
    fix f m' c p r
    assume IH: "\<And>m' c p r. f m' c p = Some r \<Longrightarrow> m' = m \<longrightarrow> c = Some e \<longrightarrow> False"
      and eq: "(case c of None \<Rightarrow> Some (rev p) | Some e \<Rightarrow> f m' (parent_entry m' e) (p @ [e])) = Some r"
    show "m' = m \<longrightarrow> c = Some e \<longrightarrow> False"
    proof (intro impI)
      assume c: "m' = m" "c = Some e"
      with eq assms have "f m (Some e) (p @ [e]) = Some r" by simp
      from IH [OF this] show False by simp
    qed
  qed
  with Some show ?thesis by blast
qed simp

section \<open>The context of a path\<close>

lemma settings_compaction:
  "snd (snd (snd (foldl settings_step (a, b, c, cp) path))) =
     (case find_last is_compaction path of None \<Rightarrow> cp | Some e \<Rightarrow> Some e)"
proof (induction path rule: rev_induct)
  case (snoc e path)
  obtain x y z w where f: "foldl settings_step (a, b, c, cp) path = (x, y, z, w)"
    by (cases "foldl settings_step (a, b, c, cp) path") auto
  with snoc show ?case
    by (auto split: entry_body.splits agent_message.splits)
qed simp

lemma path_context_messages:
  "sc_messages (path_context path) = path_messages path (find_last is_compaction path)"
proof -
  obtain x y z w where f: "foldl settings_step (''off'', ''default'', None, None) path = (x, y, z, w)"
    by (cases "foldl settings_step (''off'', ''default'', None, None) path") auto
  with settings_compaction [of "''off''" "''default''" None None path]
  have "w = find_last is_compaction path" by (cases "find_last is_compaction path") auto
  with f show ?thesis by (simp add: path_context_def)
qed

lemma context_messages_append [simp]:
  "context_messages (xs @ ys) = context_messages xs @ context_messages ys"
  by (simp add: context_messages_def)

lemma context_messages_simps [simp]:
  "context_messages [] = []" "context_messages (e # es) = context_message e @ context_messages es"
  by (simp_all add: context_messages_def)

lemma find_index_Some:
  "find_index P xs = Some i \<longleftrightarrow> i < length xs \<and> P (xs ! i) \<and> (\<forall>j<i. \<not> P (xs ! j))"
proof (induction xs arbitrary: i)
  case (Cons x xs)
  then show ?case by (cases i) (auto simp: nth_Cons' less_Suc_eq_0_disj)
qed simp

lemma find_index_append:
  "find_index P xs = Some i \<Longrightarrow> find_index P (xs @ ys) = Some i"
  by (auto simp: find_index_Some nth_append)

lemma find_index_ex: "x \<in> set xs \<Longrightarrow> P x \<Longrightarrow> \<exists>i. find_index P xs = Some i"
  by (induction xs) auto

text \<open>Appending an entry that is not a compaction only extends the messages of a path.\<close>

lemma path_messages_snoc:
  assumes "\<not> is_compaction e"
  shows "sc_messages (path_context (path @ [e])) = sc_messages (path_context path) @ context_message e"
proof (cases "find_last is_compaction path")
  case None
  with assms show ?thesis by (simp add: path_context_messages path_messages_def)
next
  case (Some c)
  from find_last_Some [OF Some] have c: "c \<in> set path" "is_compaction c" by auto
  then obtain d where d: "e_body c = Compaction d" by (auto split: entry_body.splits)
  obtain i where i: "find_index (\<lambda>e. is_compaction e \<and> e_id e = e_id c) path = Some i"
    using find_index_ex [OF c(1), of "\<lambda>e. is_compaction e \<and> e_id e = e_id c"] c(2) by auto
  then have "i < length path" by (simp add: find_index_Some)
  moreover have "find_index (\<lambda>e. is_compaction e \<and> e_id e = e_id c) (path @ [e]) = Some i"
    using i by (rule find_index_append)
  moreover have "find_last is_compaction (path @ [e]) = Some c" using Some assms by simp
  ultimately show ?thesis using i d Some
    by (simp add: path_context_messages path_messages_def Let_def del: is_compaction.simps)
qed

lemma retained_from_found [simp]: "retained_from k True es = context_messages es"
  by (induction es) simp_all

lemma retained_from_split:
  "k \<notin> ids xs \<Longrightarrow> e_id e = k \<Longrightarrow> retained_from k False (xs @ e # ys) = context_messages (e # ys)"
  by (induction xs) auto

lemma retained_from_absent: "k \<notin> ids xs \<Longrightarrow> retained_from k False xs = []"
  by (induction xs) auto

text \<open>A compaction at the end of a path: its summary, then the messages from its first kept entry on.\<close>

lemma path_messages_compaction:
  assumes "e_body c = Compaction d" "e_id c \<notin> ids path"
  shows "sc_messages (path_context (path @ [c])) =
    (let retained = retained_from (cd_firstKeptEntryId d) False path
     in createCompactionSummaryMessage (cd_summary d) (cd_tokensBefore d) (e_timestamp c)
          (cd_customInstructions d) (Some (length retained)) # retained)"
proof -
  have comp: "is_compaction c" using assms(1) by simp
  have "find_index (\<lambda>e. is_compaction e \<and> e_id e = e_id c) (path @ [c]) = Some (length path)"
    unfolding find_index_Some
  proof (intro conjI allI impI)
    fix j assume "j < length path"
    then have "e_id (path ! j) \<in> ids path" by simp
    with assms(2) have "e_id (path ! j) \<noteq> e_id c" by metis
    with \<open>j < length path\<close>
    show "\<not> (is_compaction ((path @ [c]) ! j) \<and> e_id ((path @ [c]) ! j) = e_id c)"
      by (simp add: nth_append)
  qed (use comp in \<open>simp_all add: nth_append\<close>)
  moreover have "find_last is_compaction (path @ [c]) = Some c" using comp by simp
  ultimately show ?thesis using assms(1)
    by (simp add: path_context_messages path_messages_def Let_def del: is_compaction.simps)
qed

end
