(* ===== verification/Session_Files.thy ===== *)
theory Session_Files
  imports Session_Paths
begin

text \<open>
  Properties of what is read from disk: fresh ids, the migrations (a version 1 file becomes a chain
  of entries when the drawn ids differ; it can become a file the walk never leaves when they do
  not), and the folding of child usage into assistant entries, which is idempotent, so reading a
  file that was written from memory gives the memory back.
\<close>

section \<open>Fresh ids\<close>

lemma gen_try_cases:
  "(\<exists>i<k. fst (gen_try k has rnd pos) = take 8 (rnd (pos + i)) \<and> \<not> has (take 8 (rnd (pos + i)))
          \<and> snd (gen_try k has rnd pos) = Suc (pos + i))
   \<or> (fst (gen_try k has rnd pos) = rnd (pos + k) \<and> snd (gen_try k has rnd pos) = Suc (pos + k)
      \<and> (\<forall>i<k. has (take 8 (rnd (pos + i)))))"
proof (induction k arbitrary: pos)
  case (Suc k)
  show ?case
  proof (cases "has (take 8 (rnd pos))")
    case True
    from Suc [of "Suc pos"] show ?thesis
    proof (elim disjE exE conjE)
      fix i assume "i < k" "fst (gen_try k has rnd (Suc pos)) = take 8 (rnd (Suc pos + i))"
        "\<not> has (take 8 (rnd (Suc pos + i)))" "snd (gen_try k has rnd (Suc pos)) = Suc (Suc pos + i)"
      with True show ?thesis by (intro disjI1 exI [of _ "Suc i"]) simp
    next
      assume "fst (gen_try k has rnd (Suc pos)) = rnd (Suc pos + k)"
        "snd (gen_try k has rnd (Suc pos)) = Suc (Suc pos + k)" "\<forall>i<k. has (take 8 (rnd (Suc pos + i)))"
      with True show ?thesis by (intro disjI2) (auto simp: less_Suc_eq_0_disj)
    qed
  next
    case False
    then show ?thesis by (intro disjI1 exI [of _ 0]) simp
  qed
qed simp

text \<open>
  The supply of UUIDs: none repeats, each is longer than an eight-character prefix, and from
  position \<open>pos\<close> on none is in use.
\<close>

definition fresh_supply :: "(nat \<Rightarrow> string) \<Rightarrow> nat \<Rightarrow> string set \<Rightarrow> bool" where
  "fresh_supply rnd pos S \<longleftrightarrow> inj rnd \<and> (\<forall>n. 8 < length (rnd n)) \<and> (\<forall>n\<ge>pos. rnd n \<notin> S)"

lemma generateId_pos: "pos < snd (generateId has rnd pos)"
  using gen_try_cases [of 100 has rnd pos] by (auto simp: generateId_def)

lemma generateId_fresh:
  assumes "fresh_supply rnd pos S" "generateId (\<lambda>i. i \<in> S) rnd pos = (nid, pos')"
  shows "nid \<notin> S \<and> nid \<noteq> [] \<and> pos < pos' \<and> fresh_supply rnd pos' (insert nid S)"
proof -
  have len: "8 < length (rnd n)" for n using assms(1) by (simp add: fresh_supply_def)
  have res: "nid = fst (gen_try 100 (\<lambda>i. i \<in> S) rnd pos)" "pos' = snd (gen_try 100 (\<lambda>i. i \<in> S) rnd pos)"
    using assms(2) by (simp_all add: generateId_def)
  from gen_try_cases [of 100 "\<lambda>i. i \<in> S" rnd pos] show ?thesis
  proof (elim disjE exE conjE)
    fix i assume i: "fst (gen_try 100 (\<lambda>i. i \<in> S) rnd pos) = take 8 (rnd (pos + i))"
      "take 8 (rnd (pos + i)) \<notin> S" "snd (gen_try 100 (\<lambda>i. i \<in> S) rnd pos) = Suc (pos + i)"
    have "rnd n \<noteq> take 8 (rnd (pos + i))" for n using len [of n] by (metis length_take min.strict_boundedE nat_neq_iff)
    moreover have "take 8 (rnd (pos + i)) \<noteq> []" using len [of "pos + i"] by auto
    ultimately show ?thesis using assms(1) i res by (auto simp: fresh_supply_def)
  next
    assume f: "fst (gen_try 100 (\<lambda>i. i \<in> S) rnd pos) = rnd (pos + 100)"
      "snd (gen_try 100 (\<lambda>i. i \<in> S) rnd pos) = Suc (pos + 100)"
    have "rnd (pos + 100) \<noteq> []" using len [of "pos + 100"] by auto
    with assms(1) f res show ?thesis by (auto simp: fresh_supply_def dest: injD)
  qed
qed

section \<open>Migration from version 1\<close>

text \<open>A chain: every entry's parent is the entry before it.\<close>

fun linked :: "string option \<Rightarrow> session_entry list \<Rightarrow> bool" where
  "linked prev [] \<longleftrightarrow> True"
| "linked prev (e # es) \<longleftrightarrow> e_parentId e = prev \<and> linked (Some (e_id e)) es"

lemma linked_tree:
  "linked prev es \<Longrightarrow> distinct (map e_id es) \<Longrightarrow> [] \<notin> ids es \<Longrightarrow> ids es \<inter> S = {} \<Longrightarrow>
   (case prev of None \<Rightarrow> True | Some p \<Rightarrow> p \<in> S) \<Longrightarrow> tree_from S es"
proof (induction es arbitrary: prev S)
  case (Cons e es)
  have "tree_from (insert (e_id e) S) es"
    using Cons.prems by (intro Cons.IH [of "Some (e_id e)"]) auto
  with Cons.prems show ?case by auto
qed simp

lemma map_upt_first:
  "map (\<lambda>i. f (pos + i)) [0..<n + Suc 0] = f pos # map (\<lambda>i. f (Suc (pos + i))) [0..<n]"
  by (rule nth_equalityI) (auto simp: nth_Cons' simp del: upt_Suc)

fun v1_shape :: "nat option \<Rightarrow> file_entry list \<Rightarrow> file_entry list \<Rightarrow> bool" where
  "v1_shape v [] [] \<longleftrightarrow> True"
| "v1_shape v (Header h # fs) (Header h' # gs) \<longleftrightarrow> h' = h\<lparr>h_version := v\<rparr> \<and> v1_shape v fs gs"
| "v1_shape v (Entry e # fs) (Entry e' # gs) \<longleftrightarrow>
     e_timestamp e' = e_timestamp e \<and> (\<not> is_compaction e \<longrightarrow> e_body e' = e_body e) \<and> v1_shape v fs gs"
| "v1_shape v _ _ \<longleftrightarrow> False"

lemma migrate_v1_loop_spec:
  assumes "\<forall>n. rnd n \<noteq> []"
  shows "\<exists>gs. fst (migrate_v1_loop rnd acc fs [] prev pos) = acc @ gs \<and> linked prev (entries_of gs)
    \<and> v1_shape (Some 2) fs gs
    \<and> map e_id (entries_of gs) = map (\<lambda>i. take 8 (rnd (pos + i))) [0..<length (entries_of fs)]"
  using assms
proof (induction rnd acc fs "[] :: string list" prev pos rule: migrate_v1_loop.induct)
  case (1 rnd acc prev pos)
  then show ?case by simp
next
  case (2 rnd acc h fs prev pos)
  then obtain gs where "fst (migrate_v1_loop rnd (acc @ [Header (h\<lparr>h_version := Some 2\<rparr>)]) fs [] prev pos)
      = (acc @ [Header (h\<lparr>h_version := Some 2\<rparr>)]) @ gs" "linked prev (entries_of gs)" "v1_shape (Some 2) fs gs"
    "map e_id (entries_of gs) = map (\<lambda>i. take 8 (rnd (pos + i))) [0..<length (entries_of fs)]" by blast
  then show ?case by (intro exI [of _ "Header (h\<lparr>h_version := Some 2\<rparr>) # gs"]) simp
next
  case (3 rnd acc e fs prev pos)
  define e1 where "e1 = e\<lparr>e_id := take 8 (rnd pos), e_parentId := prev\<rparr>"
  define e2 where "e2 = e1\<lparr>e_body := fix_first_kept (acc @ Entry e1 # fs) (e_body e1)\<rparr>"
  have g: "generateId (\<lambda>i. i \<in> set []) rnd pos = (take 8 (rnd pos), Suc pos)"
    by (simp add: generateId_def numeral_eq_Suc)
  obtain gs where gs: "fst (migrate_v1_loop rnd (acc @ [Entry e2]) fs [] (Some (take 8 (rnd pos))) (Suc pos))
      = (acc @ [Entry e2]) @ gs" "linked (Some (take 8 (rnd pos))) (entries_of gs)" "v1_shape (Some 2) fs gs"
    "map e_id (entries_of gs) = map (\<lambda>i. take 8 (rnd (Suc pos + i))) [0..<length (entries_of fs)]"
    using "3.hyps" [OF g [symmetric] refl e1_def e2_def] "3.prems" by blast
  have run: "migrate_v1_loop rnd acc (Entry e # fs) [] prev pos
      = migrate_v1_loop rnd (acc @ [Entry e2]) fs [] (Some (take 8 (rnd pos))) (Suc pos)"
    by (simp only: migrate_v1_loop.simps g Let_def prod.case e1_def e2_def)
  have body: "\<not> is_compaction e \<Longrightarrow> e_body e2 = e_body e"
    by (cases "e_body e") (simp_all add: e1_def e2_def)
  have ids: "map e_id (entries_of (Entry e2 # gs))
      = map (\<lambda>i. take 8 (rnd (pos + i))) [0..<length (entries_of (Entry e # fs))]"
    unfolding entries_of_simps list.map list.size gs(4) map_upt_first [of "\<lambda>n. take 8 (rnd n)" pos]
    by (simp add: e1_def e2_def)
  have link: "linked prev (entries_of (Entry e2 # gs))"
    using gs(2) by (simp add: e1_def e2_def)
  have shape: "v1_shape (Some 2) (Entry e # fs) (Entry e2 # gs)"
    using gs(3) body by (simp add: e1_def e2_def del: is_compaction.simps)
  have eq: "fst (migrate_v1_loop rnd acc (Entry e # fs) [] prev pos) = acc @ Entry e2 # gs"
    unfolding run gs(1) by simp
  show ?case using eq link shape ids by blast
qed

lemma entries_migrateV2ToV3:
  "map e_id (entries_of (migrateV2ToV3 gs)) = map e_id (entries_of gs)
   \<and> map e_parentId (entries_of (migrateV2ToV3 gs)) = map e_parentId (entries_of gs)"
proof (induction gs)
  case (Cons f gs)
  then show ?case
    by (cases f) (auto simp: migrateV2ToV3_def split: entry_body.split agent_message.split)
qed (simp add: migrateV2ToV3_def)

lemma linked_cong:
  "map e_id xs = map e_id ys \<Longrightarrow> map e_parentId xs = map e_parentId ys \<Longrightarrow> linked p xs = linked p ys"
proof (induction xs arbitrary: p ys)
  case (Cons x xs)
  from Cons.prems obtain y zs where ys: "ys = y # zs" by (cases ys) simp_all
  have "linked (Some (e_id x)) xs = linked (Some (e_id x)) zs"
    using Cons.prems unfolding ys by (intro Cons.IH) simp_all
  then show ?case using Cons.prems unfolding ys by simp
qed simp

lemma header_migrateV2ToV3: "header_of (migrateV2ToV3 gs) = map_option (\<lambda>h. h\<lparr>h_version := Some 3\<rparr>) (header_of gs)"
proof (induction gs)
  case (Cons f gs)
  then show ?case by (cases f) (auto simp: migrateV2ToV3_def split: entry_body.split agent_message.split)
qed (simp add: migrateV2ToV3_def)

lemma migrateV1ToV2_spec:
  assumes "\<forall>n. rnd n \<noteq> []" "migrateV1ToV2 rnd fs pos = (hs, p1)"
  shows "linked None (entries_of hs)" "v1_shape (Some 2) fs hs"
    "map e_id (entries_of hs) = map (\<lambda>i. take 8 (rnd (pos + i))) [0..<length (entries_of fs)]"
proof -
  obtain gs where gs: "fst (migrate_v1_loop rnd [] fs [] None pos) = [] @ gs \<and> linked None (entries_of gs)
    \<and> v1_shape (Some 2) fs gs
    \<and> map e_id (entries_of gs) = map (\<lambda>i. take 8 (rnd (pos + i))) [0..<length (entries_of fs)]"
    using migrate_v1_loop_spec [OF assms(1), of "[]" fs None pos] by (elim exE)
  have "hs = gs" using gs assms(2) by (simp add: migrateV1ToV2_def)
  with gs show "linked None (entries_of hs)" "v1_shape (Some 2) fs hs"
    "map e_id (entries_of hs) = map (\<lambda>i. take 8 (rnd (pos + i))) [0..<length (entries_of fs)]"
    by simp_all
qed

lemma migrateToCurrentVersion_v1:
  assumes "file_version fs = 1" "migrateV1ToV2 rnd fs pos = (hs, p1)"
  shows "migrateToCurrentVersion rnd fs pos = (True, migrateV2ToV3 hs, p1)"
  unfolding migrateToCurrentVersion_def CURRENT_SESSION_VERSION_def Let_def assms by simp

text \<open>
  Migrating a version 1 file whose drawn ids differ gives a chain: same number of entries, each
  with the previous one as parent, a well-formed tree at the current version.
\<close>

theorem migration_v1_chain:
  assumes v: "file_version fs = 1"
    and ids: "\<forall>n. rnd n \<noteq> []" "inj_on (\<lambda>n. take 8 (rnd n)) {pos..<pos + length (entries_of fs)}"
    and mig: "migrateToCurrentVersion rnd fs pos = (changed, gs, pos')"
  shows "changed \<and> linked None (entries_of gs) \<and> wf_tree (entries_of gs)
    \<and> length (entries_of gs) = length (entries_of fs)
    \<and> (header_of fs \<noteq> None \<longrightarrow> file_version gs = CURRENT_SESSION_VERSION)"
proof -
  obtain hs p1 where run: "migrateV1ToV2 rnd fs pos = (hs, p1)" by (rule prod.exhaust)
  note hs = migrateV1ToV2_spec [OF ids(1) run]
  have gs: "gs = migrateV2ToV3 hs" "changed"
    using mig by (simp_all add: migrateToCurrentVersion_v1 [OF v run])
  have same: "map e_id (entries_of gs) = map e_id (entries_of hs)"
    "map e_parentId (entries_of gs) = map e_parentId (entries_of hs)"
    unfolding gs(1) using entries_migrateV2ToV3 by blast+
  have link: "linked None (entries_of gs)" using linked_cong [OF same] hs(1) by simp
  have "inj_on (\<lambda>i. take 8 (rnd (pos + i))) {0..<length (entries_of fs)}"
  proof (rule inj_onI)
    fix x y assume "x \<in> {0..<length (entries_of fs)}" "y \<in> {0..<length (entries_of fs)}"
      "take 8 (rnd (pos + x)) = take 8 (rnd (pos + y))"
    then have "pos + x = pos + y" by (intro inj_onD [OF ids(2)]) simp_all
    then show "x = y" by simp
  qed
  then have dist: "distinct (map e_id (entries_of gs))"
    unfolding same(1) hs(3) by (simp add: distinct_map)
  have "ids (entries_of gs) = set (map e_id (entries_of gs))" by simp
  also have "\<dots> = set (map (\<lambda>i. take 8 (rnd (pos + i))) [0..<length (entries_of fs)])"
    unfolding same(1) hs(3) by (rule refl)
  finally have "[] \<notin> ids (entries_of gs)" using ids(1) by auto
  then have "wf_tree (entries_of gs)"
    unfolding wf_tree_def using linked_tree [OF link dist] by simp
  moreover have "length (entries_of gs) = length (entries_of fs)"
    using same(1) hs(3) by (metis length_map diff_zero length_upt)
  moreover have "file_version gs = CURRENT_SESSION_VERSION" if "header_of fs \<noteq> None"
  proof -
    have "header_of hs = map_option (\<lambda>h. h\<lparr>h_version := Some 2\<rparr>) (header_of fs)"
      using hs(2) by (induction "Some 2 :: nat option" fs hs rule: v1_shape.induct) simp_all
    with that have "header_of hs \<noteq> None" by auto
    then show ?thesis
      by (auto simp: gs(1) file_version_def header_migrateV2ToV3 CURRENT_SESSION_VERSION_def)
  qed
  ultimately show ?thesis using link gs(2) by simp
qed

section \<open>Child usage\<close>

lemma upd_first_commute:
  assumes "\<And>x. P (g x) = P x" "\<And>x. Q (f x) = Q x" "\<And>x. \<not> (P x \<and> Q x)"
  shows "upd_first P f (upd_first Q g xs) = upd_first Q g (upd_first P f xs)"
  using assms by (induction xs) auto

lemma upd_first_absorb:
  assumes "\<And>x. P (g x) = P x" "\<And>x. f (g x) = f x"
  shows "upd_first P f (upd_first P g xs) = upd_first P f xs"
  using assms by (induction xs) auto

lemma upd_first_skip: "\<not> P x \<Longrightarrow> upd_first P f (x # xs) = x # upd_first P f xs"
  by simp

lemma upd_last_snoc: "\<not> P x \<Longrightarrow> upd_last P f (xs @ [x]) = upd_last P f xs @ [x]"
  by (simp add: upd_last_def)

text \<open>One attribution: the usage \<open>u\<close> for the last assistant entry with id \<open>t\<close>.\<close>

definition attribute :: "string \<times> usage \<Rightarrow> file_entry list \<Rightarrow> file_entry list" where
  "attribute a fs = upd_last (is_assistant_with (fst a)) (on_entry (set_usage (snd a))) fs"

fun attribution_of :: "file_entry \<Rightarrow> (string \<times> usage) list" where
  "attribution_of (Header h) = []"
| "attribution_of (Entry e) =
     (case e_body e of ChildUsageAttributed t child agg orig \<Rightarrow> [(t, cloneUsage agg)] | _ \<Rightarrow> [])"

definition attributions :: "file_entry list \<Rightarrow> (string \<times> usage) list" where
  "attributions fs = concat (map attribution_of fs)"

lemma attributions_append [simp]: "attributions (xs @ ys) = attributions xs @ attributions ys"
  by (simp add: attributions_def)

lemma set_usage_set_usage [simp]: "set_usage u (set_usage v e) = set_usage u e"
  by (cases "e_body e") (auto simp: set_usage.simps split: agent_message.split)

lemma is_assistant_set_usage [simp]: "is_assistant_entry (set_usage u e) = is_assistant_entry e"
  by (cases "e_body e") (auto simp: set_usage.simps is_assistant_entry.simps split: agent_message.split)

lemma e_fields_set_usage [simp]:
  "e_id (set_usage u e) = e_id e" "e_parentId (set_usage u e) = e_parentId e"
  "e_timestamp (set_usage u e) = e_timestamp e"
  by (auto simp: set_usage.simps split: agent_message.split entry_body.split)

lemma is_assistant_with_on_entry [simp]:
  "is_assistant_with t (on_entry (set_usage u) f) = is_assistant_with t f"
  by (cases f) (simp_all add: is_assistant_with_def)

lemma on_entry_twice [simp]:
  "on_entry (set_usage u) (on_entry (set_usage v) f) = on_entry (set_usage u) f"
  by (cases f) simp_all

lemma attribution_of_on_entry [simp]: "attribution_of (on_entry (set_usage u) f) = attribution_of f"
  by (cases f) (auto simp: set_usage.simps split: agent_message.split entry_body.split)

lemma attribute_same:
  "fst a = fst b \<Longrightarrow> attribute a (attribute b fs) = attribute a fs"
  by (simp add: attribute_def upd_last_def upd_first_absorb)

lemma attribute_other:
  "fst a \<noteq> fst b \<Longrightarrow> attribute a (attribute b fs) = attribute b (attribute a fs)"
  by (simp add: attribute_def upd_last_def, subst upd_first_commute)
     (auto simp: is_assistant_with_def split: file_entry.splits)

lemma map_upd_first: "(\<And>x. h (f x) = h x) \<Longrightarrow> map h (upd_first P f xs) = map h xs"
  by (induction xs) auto

lemma map_attribute:
  "(\<And>x u. h (on_entry (set_usage u) x) = h x) \<Longrightarrow> map h (attribute a fs) = map h fs"
  by (simp add: attribute_def upd_last_def rev_map [symmetric] map_upd_first)

lemma attributions_attribute [simp]: "attributions (attribute a fs) = attributions fs"
  by (simp add: attributions_def map_attribute)

lemma apply_attribution_eq:
  "apply_attribution fs f = foldl (\<lambda>x a. attribute a x) fs (attribution_of f)"
  by (cases f) (auto simp: attribute_def split: entry_body.split)

definition attribute_all :: "(string \<times> usage) list \<Rightarrow> file_entry list \<Rightarrow> file_entry list" where
  "attribute_all as fs = foldl (\<lambda>x a. attribute a x) fs as"

lemma attribute_all_simps [simp]:
  "attribute_all [] fs = fs" "attribute_all (a # as) fs = attribute_all as (attribute a fs)"
  "attribute_all (as @ bs) fs = attribute_all bs (attribute_all as fs)"
  by (simp_all add: attribute_all_def)

lemma applyChildUsageAttributions_eq:
  "applyChildUsageAttributions fs = attribute_all (attributions fs) fs"
proof -
  have "foldl apply_attribution x gs = attribute_all (attributions gs) x" for x gs
    by (induction gs arbitrary: x)
       (simp_all add: attributions_def apply_attribution_eq attribute_all_def)
  then show ?thesis by (simp add: applyChildUsageAttributions_def)
qed

lemma attributions_attribute_all [simp]: "attributions (attribute_all as fs) = attributions fs"
  by (induction as arbitrary: fs) simp_all

lemma attribute_all_absorb: "a \<in> set as \<Longrightarrow> attribute_all as (attribute a fs) = attribute_all as fs"
proof (induction as arbitrary: fs)
  case (Cons b as)
  then show ?case by (cases "fst b = fst a") (auto simp: attribute_same attribute_other)
qed simp

lemma attribute_all_absorbs:
  "set bs \<subseteq> set as \<Longrightarrow> attribute_all as (attribute_all bs fs) = attribute_all as fs"
  by (induction bs arbitrary: fs) (simp_all add: attribute_all_absorb)

lemma attribute_around: "attribute a (attribute_all as (attribute a fs)) = attribute a (attribute_all as fs)"
proof (induction as arbitrary: fs)
  case Nil
  then show ?case by (simp add: attribute_same)
next
  case (Cons b as)
  then show ?case by (cases "fst b = fst a") (simp_all add: attribute_same attribute_other)
qed

lemma attribute_snoc: "\<not> is_assistant_with (fst a) f \<Longrightarrow> attribute a (fs @ [f]) = attribute a fs @ [f]"
  by (simp add: attribute_def upd_last_snoc)

lemma attribution_not_assistant: "attribution_of f \<noteq> [] \<Longrightarrow> \<not> is_assistant_with t f"
  by (cases f) (auto simp: is_assistant_with_def is_assistant_entry.simps split: entry_body.splits)

lemma header_attribute [simp]: "header_of (attribute a fs) = header_of fs"
proof -
  have h: "header_of fs = (case concat (map (\<lambda>f. case f of Header h \<Rightarrow> [h] | Entry _ \<Rightarrow> []) fs) of
     [] \<Rightarrow> None | h # _ \<Rightarrow> Some h)" for fs by (simp add: header_of_def)
  show ?thesis unfolding h by (subst map_attribute) (auto split: file_entry.splits)
qed

lemma ids_attribute [simp]: "map e_id (entries_of (attribute a fs)) = map e_id (entries_of fs)"
proof -
  have "map e_id (entries_of fs) = concat (map (\<lambda>f. case f of Entry e \<Rightarrow> [e_id e] | Header _ \<Rightarrow> []) fs)" for fs
    by (induction fs) (auto split: file_entry.split)
  then show ?thesis by (simp add: map_attribute split: file_entry.split)
qed

lemma attribution_idempotent_aux:
  "applyChildUsageAttributions (applyChildUsageAttributions fs) = applyChildUsageAttributions fs"
  by (simp add: applyChildUsageAttributions_eq attribute_all_absorbs)

text \<open>
  Folding child usage into assistant entries is idempotent and changes nothing but usages, so a
  file rewritten from memory loads as the memory.
\<close>

theorem attribution_idempotent:
  "applyChildUsageAttributions (applyChildUsageAttributions fs) = applyChildUsageAttributions fs
   \<and> map (on_entry (set_usage emptyUsage)) (applyChildUsageAttributions fs)
     = map (on_entry (set_usage emptyUsage)) fs"
proof -
  have "map (on_entry (set_usage emptyUsage)) (attribute_all as fs) = map (on_entry (set_usage emptyUsage)) fs"
    for as by (induction as arbitrary: fs) (simp_all add: map_attribute)
  then show ?thesis by (simp add: applyChildUsageAttributions_eq attribute_all_absorbs)
qed

end
