(* ===== verification/Session_Depth.thy ===== *)
theory Session_Depth
  imports Session_Entries
begin

text \<open>
  Paths (what \<open>core/session-manager.ts\<close> uses of \<open>node:path\<close>, POSIX) and the recursion depth of a
  session: explicit in its header, or, for files written before headers recorded it, found by
  following \<open>parentSession\<close> from file to file. The chain of parents may be cyclic; the set of visited
  paths makes the recursion end.
\<close>

section \<open>Paths\<close>

definition slash :: char where
  "slash = CHR ''/''"

definition is_absolute :: "string \<Rightarrow> bool" where
  "is_absolute p \<longleftrightarrow> p \<noteq> [] \<and> hd p = slash"

definition norm_step :: "string list \<Rightarrow> string \<Rightarrow> string list" where
  "norm_step acc s =
     (if s = [] \<or> s = ''.'' then acc
      else if s = ''..'' then (if acc = [] then [] else butlast acc)
      else acc @ [s])"

definition normalize_abs :: "string \<Rightarrow> string" where
  "normalize_abs p = slash # join [slash] (foldl norm_step [] (split_on slash p))"

text \<open>\<open>resolve(p)\<close> and \<open>resolve(base, p)\<close>, relative to the working directory \<open>pwd\<close>.\<close>

definition resolve :: "string \<Rightarrow> string \<Rightarrow> string" where
  "resolve pwd p = normalize_abs (if is_absolute p then p else pwd @ slash # p)"

definition resolve2 :: "string \<Rightarrow> string \<Rightarrow> string \<Rightarrow> string" where
  "resolve2 pwd base p = resolve pwd (if is_absolute p then p else base @ slash # p)"

definition dirname :: "string \<Rightarrow> string" where
  "dirname p =
     (let q = rev (dropWhile (\<lambda>c. c \<noteq> slash) (dropWhile (\<lambda>c. c = slash) (rev p)))
      in if length q \<le> 1 then (if is_absolute p then [slash] else ''.'')
         else if length q = 2 \<and> is_absolute p then [slash, slash]
         else butlast q)"

text \<open>\<open>split(/[\\/]+/)\<close>.\<close>

definition is_sep :: "char \<Rightarrow> bool" where
  "is_sep c \<longleftrightarrow> c = slash \<or> c = CHR 0x5C"

function split_runs :: "string \<Rightarrow> string list" where
  "split_runs xs =
     (let a = takeWhile (\<lambda>c. \<not> is_sep c) xs; r = dropWhile (\<lambda>c. \<not> is_sep c) xs
      in if r = [] then [a] else a # split_runs (dropWhile is_sep r))"
  by pat_completeness auto

lemma split_runs_shorter:
  assumes "dropWhile (\<lambda>c. \<not> is_sep c) xs \<noteq> []"
  shows "length (dropWhile is_sep (dropWhile (\<lambda>c. \<not> is_sep c) xs)) < length xs"
proof -
  obtain y ys where y: "dropWhile (\<lambda>c. \<not> is_sep c) xs = y # ys" using assms by (cases "dropWhile (\<lambda>c. \<not> is_sep c) xs") auto
  then have "is_sep y" using hd_dropWhile [OF assms] by simp
  moreover have "length (y # ys) \<le> length xs" using length_dropWhile_le [of "\<lambda>c. \<not> is_sep c" xs] y by simp
  moreover have "length (dropWhile is_sep ys) \<le> length ys" by (rule length_dropWhile_le)
  ultimately show ?thesis using y by simp
qed

termination split_runs
  by (relation "measure length") (use split_runs_shorter in auto)

declare split_runs.simps [simp del]

definition is_child_segment :: "string \<Rightarrow> bool" where
  "is_child_segment s \<longleftrightarrow> length s = 12 \<and> take 4 s = ''sub-''
     \<and> list_all (\<lambda>c. c \<in> set ''0123456789abcdef'') (drop 4 s)"

definition legacyChildDepthFromPath :: "string \<Rightarrow> int" where
  "legacyChildDepthFromPath p = int (length (takeWhile is_child_segment (rev (split_runs (dirname p)))))"

section \<open>Headers\<close>

definition MAX_SAFE_INTEGER :: int where
  "MAX_SAFE_INTEGER = 9007199254740991"

definition isValidRlmDepth :: "int option \<Rightarrow> bool" where
  "isValidRlmDepth d \<longleftrightarrow> (case d of None \<Rightarrow> False | Some n \<Rightarrow> 0 \<le> n \<and> n \<le> MAX_SAFE_INTEGER)"

text \<open>
  \<open>readSessionHeader\<close>: the first line of the file. The code throws on a missing file and on a
  malformed line and returns \<open>undefined\<close> on a blank one; its callers treat the three alike (\<open>None\<close>).
  An entry in the place of a header has none of a header's fields.
\<close>

definition first_line :: "session_file \<Rightarrow> file_entry option" where
  "first_line f = (case sf_lines f of
      JsonLine e # _ \<Rightarrow> Some e
    | BadLine # _ \<Rightarrow> None
    | [] \<Rightarrow> (case sf_tail f of WholeTail e \<Rightarrow> Some e | _ \<Rightarrow> None))"

definition readSessionHeader :: "(string \<times> session_file) list \<Rightarrow> string \<Rightarrow> file_entry option" where
  "readSessionHeader fs p = (case map_of fs p of None \<Rightarrow> None | Some f \<Rightarrow> first_line f)"

definition header_depth :: "file_entry \<Rightarrow> int option" where
  "header_depth f = (case f of Header h \<Rightarrow> h_rlmDepth h | Entry _ \<Rightarrow> None)"

definition header_parent :: "file_entry \<Rightarrow> string option" where
  "header_parent f = (case f of Header h \<Rightarrow> h_parentSession h | Entry _ \<Rightarrow> None)"

text \<open>
  The fields of the header the depth is computed from, and the paths seen so far. The code removes a
  path from \<open>visitedPaths\<close> when the call returns, so a set passed down is the same.
\<close>

lemma readSessionHeader_dom: "readSessionHeader fs p = Some h \<Longrightarrow> p \<in> fst ` set fs"
  by (auto simp: readSessionHeader_def split: option.splits dest: map_of_SomeD) (metis fst_conv image_eqI map_of_SomeD)

function resolveLegacySessionRlmDepth ::
  "(string \<times> session_file) list \<Rightarrow> string \<Rightarrow> int option \<Rightarrow> string option \<Rightarrow> string \<Rightarrow> string list \<Rightarrow> int option"
where
  "resolveLegacySessionRlmDepth fs pwd depth parent path visited =
     (if isValidRlmDepth depth then depth
      else if \<not> truthy parent then Some 0
      else let resolved = resolve pwd path in
        if resolved \<in> set visited then None
        else let pathDepth = legacyChildDepthFromPath path;
                 parentPath = resolve2 pwd (dirname path) (the parent)
             in case readSessionHeader fs parentPath of
                  None \<Rightarrow> Some pathDepth
                | Some h \<Rightarrow>
                    (case resolveLegacySessionRlmDepth fs pwd (header_depth h) (header_parent h) parentPath
                            (resolved # visited) of
                       Some d \<Rightarrow> Some (if pathDepth > 0 then d + 1 else d)
                     | None \<Rightarrow> Some pathDepth))"
  by pat_completeness auto

lemma visited_decreases:
  assumes "r \<notin> set visited" "q \<in> set ps"
  shows "card (insert q (set ps) - insert r (set visited)) < card (insert r (set ps) - set visited)"
proof -
  have "insert q (set ps) - insert r (set visited) \<subset> insert r (set ps) - set visited"
    using assms by auto
  then show ?thesis by (intro psubset_card_mono) auto
qed

termination resolveLegacySessionRlmDepth
proof (relation "measure (\<lambda>(fs, pwd, d, q, path, visited).
    card (insert (resolve pwd path) (set (map (\<lambda>x. resolve pwd (fst x)) fs)) - set visited))", goal_cases)
  case 1
  show ?case by simp
next
  case (2 fs pwd depth parent path visited x xa xb h)
  have "x = resolve pwd path" using 2 by simp
  moreover have "resolve pwd xb \<in> set (map (\<lambda>x. resolve pwd (fst x)) fs)"
    using readSessionHeader_dom [OF 2(7)] by auto
  ultimately show ?case
    using visited_decreases [of "resolve pwd path" visited "resolve pwd xb" "map (\<lambda>x. resolve pwd (fst x)) fs"] 2(4)
    by simp
qed

declare resolveLegacySessionRlmDepth.simps [simp del]

definition resolveSessionRlmDepth ::
  "(string \<times> session_file) list \<Rightarrow> string \<Rightarrow> int option \<Rightarrow> string option \<Rightarrow> string \<Rightarrow> int" where
  "resolveSessionRlmDepth fs pwd depth parent path =
     nullish (resolveLegacySessionRlmDepth fs pwd depth parent path []) (legacyChildDepthFromPath path)"

definition deriveChildRlmDepth :: "file_entry option \<Rightarrow> int option" where
  "deriveChildRlmDepth h =
     (let d = (case h of None \<Rightarrow> None | Some f \<Rightarrow> header_depth f)
      in if isValidRlmDepth d \<and> the d < MAX_SAFE_INTEGER then Some (the d + 1) else None)"

text \<open>The value of a string of digits.\<close>

definition digits_value :: "string \<Rightarrow> int" where
  "digits_value s = foldl (\<lambda>n c. n * 10 + (int (of_char c) - 48)) 0 s"

definition rootRlmDepthFromEnv :: "string option \<Rightarrow> int result" where
  "rootRlmDepthFromEnv value =
     (case value of None \<Rightarrow> Inr 0
      | Some v \<Rightarrow>
          if v = [] then Inr 0
          else if \<not> list_all (\<lambda>c. c \<in> set ''0123456789'') v \<or> \<not> isValidRlmDepth (Some (digits_value v))
          then Inl (Error ''RLM_DEPTH must be a non-negative integer'')
          else Inr (digits_value v))"

section \<open>Properties\<close>

lemma legacyChildDepth_nonneg [simp]: "0 \<le> legacyChildDepthFromPath p"
  by (simp add: legacyChildDepthFromPath_def)

lemma resolveLegacy_nonneg:
  "resolveLegacySessionRlmDepth fs pwd depth parent path visited = Some d \<Longrightarrow> 0 \<le> d"
proof (induction fs pwd depth parent path visited arbitrary: d rule: resolveLegacySessionRlmDepth.induct)
  case (1 fs pwd depth parent path visited)
  show ?case
  proof (cases "isValidRlmDepth depth \<or> \<not> truthy parent \<or> resolve pwd path \<in> set visited
      \<or> readSessionHeader fs (resolve2 pwd (dirname path) (the parent)) = None")
    case True
    with "1.prems" show ?thesis
      by (subst (asm) resolveLegacySessionRlmDepth.simps)
         (auto simp: Let_def isValidRlmDepth_def split: if_splits option.splits)
  next
    case False
    then obtain h where h: "readSessionHeader fs (resolve2 pwd (dirname path) (the parent)) = Some h"
      by blast
    let ?r = "resolveLegacySessionRlmDepth fs pwd (header_depth h) (header_parent h)
      (resolve2 pwd (dirname path) (the parent)) (resolve pwd path # visited)"
    have ih: "?r = Some d' \<Longrightarrow> 0 \<le> d'" for d'
      using "1.IH" False h by blast
    from "1.prems" False h have "(case ?r of Some d' \<Rightarrow> Some (if legacyChildDepthFromPath path > 0 then d' + 1 else d')
        | None \<Rightarrow> Some (legacyChildDepthFromPath path)) = Some d"
      by (subst (asm) resolveLegacySessionRlmDepth.simps) (simp add: Let_def)
    with ih show ?thesis by (fastforce split: option.splits if_splits)
  qed
qed

text \<open>
  The recursion depth of a session is never negative, is the explicit one when valid, 0 without
  a parent, and one more than the depth of an explicit parent header for a file in a child
  directory; the recursion over parents ends on cyclic files.
\<close>

theorem session_depth:
  "0 \<le> resolveSessionRlmDepth fs pwd depth parent path
   \<and> (isValidRlmDepth depth \<longrightarrow> resolveSessionRlmDepth fs pwd depth parent path = the depth)
   \<and> (\<not> isValidRlmDepth depth \<and> \<not> truthy parent \<longrightarrow> resolveSessionRlmDepth fs pwd depth parent path = 0)
   \<and> (\<not> isValidRlmDepth depth \<and> truthy parent
      \<and> readSessionHeader fs (resolve2 pwd (dirname path) (the parent)) = Some h \<and> isValidRlmDepth (header_depth h)
      \<longrightarrow> resolveSessionRlmDepth fs pwd depth parent path
            = the (header_depth h) + (if legacyChildDepthFromPath path > 0 then 1 else 0))"
  (is "?a \<and> ?b \<and> ?c \<and> ?d")
proof (intro conjI)
  show ?a using resolveLegacy_nonneg
    by (cases "resolveLegacySessionRlmDepth fs pwd depth parent path []")
       (auto simp: resolveSessionRlmDepth_def)
  show ?b ?c
    by (auto simp: resolveSessionRlmDepth_def resolveLegacySessionRlmDepth.simps [of fs pwd depth]
        isValidRlmDepth_def split: option.splits)
  show ?d
  proof
    assume a: "\<not> isValidRlmDepth depth \<and> truthy parent
      \<and> readSessionHeader fs (resolve2 pwd (dirname path) (the parent)) = Some h \<and> isValidRlmDepth (header_depth h)"
    have "resolveLegacySessionRlmDepth fs pwd (header_depth h) p q v = header_depth h" for p q v
      using a by (subst resolveLegacySessionRlmDepth.simps) simp
    moreover obtain n where "header_depth h = Some n" using a by (auto simp: isValidRlmDepth_def split: option.splits)
    ultimately show "resolveSessionRlmDepth fs pwd depth parent path
            = the (header_depth h) + (if legacyChildDepthFromPath path > 0 then 1 else 0)"
      using a by (simp add: resolveSessionRlmDepth_def resolveLegacySessionRlmDepth.simps [of fs pwd depth] Let_def)
  qed
qed

definition depth_example_fs :: "(string \<times> session_file) list" where
  "depth_example_fs = [(''/s/root.jsonl'', file_of [Header \<lparr>h_version = Some 3, h_id = ''r'', h_timestamp = 0,
     h_cwd = ''/'', h_parentSession = None, h_rlmDepth = Some 2, h_git = None\<rparr>])]"

lemma session_depth_witness:
  "resolveSessionRlmDepth depth_example_fs ''/'' None (Some ''../root.jsonl'') ''/s/sub-0123abcd/c.jsonl'' = 3"
proof -
  have p: "resolve2 ''/'' (dirname ''/s/sub-0123abcd/c.jsonl'') ''../root.jsonl'' = ''/s/root.jsonl''"
    by code_simp
  have d: "legacyChildDepthFromPath ''/s/sub-0123abcd/c.jsonl'' = 1" by code_simp
  show ?thesis
    using session_depth [of depth_example_fs "''/''" None "Some ''../root.jsonl''" "''/s/sub-0123abcd/c.jsonl''"
        "Header \<lparr>h_version = Some 3, h_id = ''r'', h_timestamp = 0,
     h_cwd = ''/'', h_parentSession = None, h_rlmDepth = Some 2, h_git = None\<rparr>"]
    by (simp add: p d depth_example_fs_def readSessionHeader_def first_line_def file_of_def isValidRlmDepth_def
        MAX_SAFE_INTEGER_def header_depth_def)
qed

end
