(* ===== verification/Session_Manager.thy ===== *)
theory Session_Manager
  imports Session_Files Session_Depth
begin

text \<open>
  The class \<open>SessionManager\<close> of \<open>core/session-manager.ts\<close>. An operation takes the host (what the process
  cannot choose: clock, random ids, git, which writes fail), the world (files and the positions in
  the host's sequences) and the manager, and returns a result or the error it throws with the world
  and the manager it leaves, also when it throws: an exception does not undo assignments.

  The manager's map \<open>byId\<close> and its list \<open>fileEntries\<close> hold the same entry objects in the code; an
  assignment to an entry is one to both here.
\<close>

section \<open>State\<close>

text \<open>
  How one write ends: done; failed before anything was written; failed in the middle of the line;
  failed with the line complete but for its newline; failed after everything was written. A rewrite
  goes through a temporary file that is renamed, so it is either not done or done.
\<close>

datatype fault = Fine | FailNone | FailTorn | FailWhole | FailDone

record host =
  clock :: "nat \<Rightarrow> int"
  randomUUID :: "nat \<Rightarrow> string"
  uuidv7 :: "nat \<Rightarrow> string"
  fault_of :: "nat \<Rightarrow> fault"
  captureGitContext :: "string \<Rightarrow> git_context option"
  getDefaultSessionDir :: "string \<Rightarrow> string"
  env_RLM_DEPTH :: "string option"
  pwd :: string

record world =
  files :: "(string \<times> session_file) list"
  ticks :: nat
  uuids :: nat
  session_uuids :: nat
  writes :: nat
  notified :: "string list"

record manager =
  m_sessionId :: string
  m_sessionFile :: "string option"
  m_sessionDir :: string
  m_cwd :: string
  m_persist :: bool
  m_flushed :: bool
  m_fileEntries :: "file_entry list"
  m_byId :: id_map
  m_labelsById :: "(string \<times> string) list"
  m_labelTimestampsById :: "(string \<times> int) list"
  m_leafId :: "string option"

type_synonym 'a outcome = "'a result \<times> world \<times> manager"

text \<open>Sequencing: the second operation runs when the first has not thrown.\<close>

definition and_then :: "'a outcome \<Rightarrow> ('a \<Rightarrow> world \<Rightarrow> manager \<Rightarrow> 'b outcome) \<Rightarrow> 'b outcome" where
  [js_defs]: "and_then r k = (case r of (Inl e, w, m) \<Rightarrow> (Inl e, w, m) | (Inr x, w, m) \<Rightarrow> k x w m)"

lemma and_then_simps [simp]:
  "and_then (Inl e, w, m) k = (Inl e, w, m)" "and_then (Inr x, w, m) k = k x w m"
  by (simp_all add: and_then_def)

definition existsSync :: "world \<Rightarrow> string \<Rightarrow> bool" where
  "existsSync w p \<longleftrightarrow> map_of (files w) p \<noteq> None"

definition io_error :: error where
  "io_error = Error ''write failed''"

section \<open>Writing\<close>

text \<open>\<open>_notifyPersistListeners\<close>: what a listener throws is dropped; the log is what they were told.\<close>

definition notifyPersistListeners :: "world \<Rightarrow> manager \<Rightarrow> world" where
  "notifyPersistListeners w m =
     (if truthy (m_sessionFile m) then w\<lparr>notified := notified w @ [the (m_sessionFile m)]\<rparr> else w)"

definition rewriteFile :: "host \<Rightarrow> world \<Rightarrow> manager \<Rightarrow> unit outcome" where
  "rewriteFile H w m =
     (if \<not> m_persist m \<or> \<not> truthy (m_sessionFile m) then (Inr (), w, m)
      else let w1 = w\<lparr>writes := Suc (writes w)\<rparr>;
               w2 = w1\<lparr>files := AList.update (the (m_sessionFile m)) (file_of (m_fileEntries m)) (files w1)\<rparr>
           in (case fault_of H (writes w) of
                 Fine \<Rightarrow> (Inr (), notifyPersistListeners w2 m, m)
               | FailDone \<Rightarrow> (Inl io_error, w2, m)
               | _ \<Rightarrow> (Inl io_error, w1, m)))"

definition append_torn :: "session_file \<Rightarrow> session_file" where
  "append_torn f = f\<lparr>sf_tail := TornTail\<rparr>"

definition append_whole :: "session_file \<Rightarrow> file_entry \<Rightarrow> session_file" where
  "append_whole f e = f\<lparr>sf_tail := (if sf_tail f = NoTail then WholeTail e else TornTail)\<rparr>"

definition appendFileSync :: "host \<Rightarrow> world \<Rightarrow> manager \<Rightarrow> string \<Rightarrow> file_entry \<Rightarrow> unit outcome" where
  "appendFileSync H w m p e =
     (let old = nullish (map_of (files w) p) \<lparr>sf_lines = [], sf_tail = NoTail\<rparr>;
          w1 = w\<lparr>writes := Suc (writes w)\<rparr>
      in (case fault_of H (writes w) of
            Fine \<Rightarrow> (Inr (), w1\<lparr>files := AList.update p (append_line old e) (files w)\<rparr>, m)
          | FailNone \<Rightarrow> (Inl io_error, w1, m)
          | FailTorn \<Rightarrow> (Inl io_error, w1\<lparr>files := AList.update p (append_torn old) (files w)\<rparr>, m)
          | FailWhole \<Rightarrow> (Inl io_error, w1\<lparr>files := AList.update p (append_whole old e) (files w)\<rparr>, m)
          | FailDone \<Rightarrow> (Inl io_error, w1\<lparr>files := AList.update p (append_line old e) (files w)\<rparr>, m)))"

definition flushNow :: "host \<Rightarrow> world \<Rightarrow> manager \<Rightarrow> unit outcome" where
  "flushNow H w m =
     (if \<not> m_persist m \<or> \<not> truthy (m_sessionFile m) then (Inr (), w, m)
      else if m_flushed m \<and> existsSync w (the (m_sessionFile m)) then (Inr (), w, m)
      else and_then (rewriteFile H w m) (\<lambda>_ w m. (Inr (), w, m\<lparr>m_flushed := True\<rparr>)))"

definition has_assistant :: "file_entry list \<Rightarrow> bool" where
  "has_assistant fs \<longleftrightarrow> list_ex is_assistant_entry (entries_of fs)"

definition persist_always :: "session_entry \<Rightarrow> bool" where
  "persist_always e \<longleftrightarrow> (case e_body e of SessionState _ \<Rightarrow> True | SessionInfo _ \<Rightarrow> True | _ \<Rightarrow> False)"

definition persistEntry :: "host \<Rightarrow> session_entry \<Rightarrow> world \<Rightarrow> manager \<Rightarrow> unit outcome" where
  "persistEntry H e w m =
     (if \<not> m_persist m \<or> \<not> truthy (m_sessionFile m) then (Inr (), w, m)
      else if \<not> has_assistant (m_fileEntries m) \<and> \<not> persist_always e then (Inr (), w, m\<lparr>m_flushed := False\<rparr>)
      else if \<not> m_flushed m \<or> \<not> existsSync w (the (m_sessionFile m)) then
        and_then (rewriteFile H w m) (\<lambda>_ w m. (Inr (), w, m\<lparr>m_flushed := True\<rparr>))
      else and_then (appendFileSync H w m (the (m_sessionFile m)) (Entry e))
             (\<lambda>_ w m. (Inr (), notifyPersistListeners w m, m)))"

section \<open>Appending\<close>

definition push_entry :: "session_entry \<Rightarrow> manager \<Rightarrow> manager" where
  "push_entry e m = m\<lparr>m_fileEntries := m_fileEntries m @ [Entry e],
                      m_byId := AList.update (e_id e) e (m_byId m), m_leafId := Some (e_id e)\<rparr>"

definition appendEntry :: "host \<Rightarrow> session_entry \<Rightarrow> world \<Rightarrow> manager \<Rightarrow> unit outcome" where
  "appendEntry H e w m = persistEntry H e w (push_entry e m)"

text \<open>The entry every \<open>append\<close> method builds: a fresh id, the current leaf as parent, the current time.\<close>

definition new_entry :: "host \<Rightarrow> entry_body \<Rightarrow> world \<Rightarrow> manager \<Rightarrow> session_entry \<times> world" where
  "new_entry H b w m =
     (let (nid, u) = generateId (\<lambda>i. map_of (m_byId m) i \<noteq> None) (randomUUID H) (uuids w)
      in (\<lparr>e_id = nid, e_parentId = m_leafId m, e_timestamp = clock H (ticks w), e_body = b\<rparr>,
          w\<lparr>uuids := u, ticks := Suc (ticks w)\<rparr>))"

definition append_body :: "host \<Rightarrow> entry_body \<Rightarrow> world \<Rightarrow> manager \<Rightarrow> string outcome" where
  "append_body H b w m =
     (let (e, w1) = new_entry H b w m
      in and_then (appendEntry H e w1 m) (\<lambda>_ w m. (Inr (e_id e), w, m)))"

definition appendMessage :: "host \<Rightarrow> agent_message \<Rightarrow> world \<Rightarrow> manager \<Rightarrow> string outcome" where
  "appendMessage H msg = append_body H (MessageE msg)"

definition appendThinkingLevelChange :: "host \<Rightarrow> string \<Rightarrow> world \<Rightarrow> manager \<Rightarrow> string outcome" where
  "appendThinkingLevelChange H level = append_body H (ThinkingLevelChange level)"

definition appendServiceTierChange :: "host \<Rightarrow> string \<Rightarrow> world \<Rightarrow> manager \<Rightarrow> string outcome" where
  "appendServiceTierChange H tier = append_body H (ServiceTierChange tier)"

definition appendModelChange :: "host \<Rightarrow> string \<Rightarrow> string \<Rightarrow> world \<Rightarrow> manager \<Rightarrow> string outcome" where
  "appendModelChange H provider modelId = append_body H (ModelChange provider modelId)"

definition appendCompaction ::
  "host \<Rightarrow> string \<Rightarrow> string \<Rightarrow> int \<Rightarrow> json option \<Rightarrow> bool \<Rightarrow> string option \<Rightarrow> usage option
     \<Rightarrow> world \<Rightarrow> manager \<Rightarrow> string outcome" where
  "appendCompaction H summary firstKept tokensBefore details fromHook instructions use =
     append_body H (Compaction \<lparr>cd_summary = summary, cd_firstKeptEntryId = firstKept,
       cd_firstKeptEntryIndex = None, cd_tokensBefore = tokensBefore, cd_details = details,
       cd_fromHook = fromHook, cd_customInstructions = instructions, cd_usage = use\<rparr>)"

definition appendCustomEntry :: "host \<Rightarrow> string \<Rightarrow> json option \<Rightarrow> world \<Rightarrow> manager \<Rightarrow> string outcome" where
  "appendCustomEntry H customType data = append_body H (CustomE customType data)"

definition appendSessionInfo :: "host \<Rightarrow> string \<Rightarrow> world \<Rightarrow> manager \<Rightarrow> string outcome" where
  "appendSessionInfo H name = append_body H (SessionInfo (Some (trim name)))"

definition appendSessionState :: "host \<Rightarrow> string \<Rightarrow> world \<Rightarrow> manager \<Rightarrow> string outcome" where
  "appendSessionState H status = append_body H (SessionState status)"

definition appendAgentStatus :: "host \<Rightarrow> agent_status \<Rightarrow> world \<Rightarrow> manager \<Rightarrow> string outcome" where
  "appendAgentStatus H status = append_body H (AgentStatus
     \<lparr>as_summary = as_summary status, as_taskState = as_taskState status,
      as_basedOnMessageCount = as_basedOnMessageCount status\<rparr>)"

definition appendGitState :: "host \<Rightarrow> git_context \<Rightarrow> world \<Rightarrow> manager \<Rightarrow> string outcome" where
  "appendGitState H git = append_body H (GitState git)"

definition appendCustomMessageEntry ::
  "host \<Rightarrow> string \<Rightarrow> msg_content \<Rightarrow> bool \<Rightarrow> json option \<Rightarrow> world \<Rightarrow> manager \<Rightarrow> string outcome" where
  "appendCustomMessageEntry H customType content display details =
     append_body H (CustomMessageE customType content display details)"

text \<open>\<open>target.message.usage = \<dots>\<close>: the object is in the map and in the list.\<close>

definition mutate_usage :: "string \<Rightarrow> usage \<Rightarrow> manager \<Rightarrow> manager" where
  "mutate_usage t u m =
     m\<lparr>m_fileEntries := upd_last (is_assistant_with t) (on_entry (set_usage u)) (m_fileEntries m),
       m_byId := AList.update t (set_usage u (the (map_of (m_byId m) t))) (m_byId m)\<rparr>"

definition appendChildUsageAttribution ::
  "host \<Rightarrow> string \<Rightarrow> usage \<Rightarrow> usage \<Rightarrow> string option \<Rightarrow> world \<Rightarrow> manager \<Rightarrow> string outcome" where
  "appendChildUsageAttribution H targetId childUsage aggregateUsage origin w m =
     (if \<not> (case map_of (m_byId m) targetId of None \<Rightarrow> False | Some e \<Rightarrow> is_assistant_entry e)
      then (Inl (Error (''Assistant message entry '' @ targetId @ '' not found'')), w, m)
      else append_body H (ChildUsageAttributed targetId (cloneUsage childUsage) (cloneUsage aggregateUsage)
               (if truthy origin then origin else None))
             w (mutate_usage targetId (cloneUsage aggregateUsage) m))"

definition appendLabelChange :: "host \<Rightarrow> string \<Rightarrow> string option \<Rightarrow> world \<Rightarrow> manager \<Rightarrow> string outcome" where
  "appendLabelChange H targetId label w m =
     (if map_of (m_byId m) targetId = None then (Inl (Error (''Entry '' @ targetId @ '' not found'')), w, m)
      else let (e, w1) = new_entry H (Label targetId label) w m
           in and_then (appendEntry H e w1 m) (\<lambda>_ w m.
                (Inr (e_id e), w,
                 if truthy label
                 then m\<lparr>m_labelsById := AList.update targetId (the label) (m_labelsById m),
                        m_labelTimestampsById := AList.update targetId (e_timestamp e) (m_labelTimestampsById m)\<rparr>
                 else m\<lparr>m_labelsById := AList.delete targetId (m_labelsById m),
                        m_labelTimestampsById := AList.delete targetId (m_labelTimestampsById m)\<rparr>)))"

text \<open>
  \<open>_appendEntryWithRollback\<close>: when the append or the flush after it throws and the leaf has moved, the
  entry is taken back and the file is written again from what is left.
\<close>

definition rollback :: "host \<Rightarrow> string option \<Rightarrow> error \<Rightarrow> world \<Rightarrow> manager \<Rightarrow> string outcome" where
  "rollback H previousLeafId err w m =
     (if m_leafId m \<noteq> None \<and> m_leafId m \<noteq> previousLeafId then
        let m1 = m\<lparr>m_byId := AList.delete (the (m_leafId m)) (m_byId m),
                   m_fileEntries := butlast (m_fileEntries m),
                   m_leafId := previousLeafId, m_flushed := False\<rparr>
        in (case flushNow H w m1 of
              (Inr _, w2, m2) \<Rightarrow> (Inl err, w2, m2)
            | (Inl _, w2, m2) \<Rightarrow> (Inl err, w2, m2\<lparr>m_flushed := False\<rparr>))
      else (Inl err, w, m))"

definition appendEntryWithRollback ::
  "host \<Rightarrow> (world \<Rightarrow> manager \<Rightarrow> string outcome) \<Rightarrow> world \<Rightarrow> manager \<Rightarrow> string outcome" where
  "appendEntryWithRollback H appended w m =
     (case and_then (appended w m) (\<lambda>entryId w m. and_then (flushNow H w m) (\<lambda>_ w m. (Inr entryId, w, m))) of
        (Inr entryId, w2, m2) \<Rightarrow> (Inr entryId, w2, m2)
      | (Inl err, w2, m2) \<Rightarrow> rollback H (m_leafId m) err w2 m2)"

definition appendCustomEntryWithRollback ::
  "host \<Rightarrow> string \<Rightarrow> json option \<Rightarrow> world \<Rightarrow> manager \<Rightarrow> string outcome" where
  "appendCustomEntryWithRollback H customType data =
     appendEntryWithRollback H (appendCustomEntry H customType data)"

definition appendCustomMessageEntryWithRollback ::
  "host \<Rightarrow> string \<Rightarrow> msg_content \<Rightarrow> bool \<Rightarrow> json option \<Rightarrow> world \<Rightarrow> manager \<Rightarrow> string outcome" where
  "appendCustomMessageEntryWithRollback H customType content display details =
     appendEntryWithRollback H (appendCustomMessageEntry H customType content display details)"

section \<open>Index, new and opened sessions\<close>

fun index_step :: "manager \<Rightarrow> session_entry \<Rightarrow> manager" where
  "index_step m e =
     (let m1 = m\<lparr>m_byId := AList.update (e_id e) e (m_byId m), m_leafId := Some (e_id e)\<rparr>
      in (case e_body e of
            Label targetId label \<Rightarrow>
              (if truthy label
               then m1\<lparr>m_labelsById := AList.update targetId (the label) (m_labelsById m),
                       m_labelTimestampsById := AList.update targetId (e_timestamp e) (m_labelTimestampsById m)\<rparr>
               else m1\<lparr>m_labelsById := AList.delete targetId (m_labelsById m),
                       m_labelTimestampsById := AList.delete targetId (m_labelTimestampsById m)\<rparr>)
          | _ \<Rightarrow> m1))"

definition clear_index :: "manager \<Rightarrow> manager" where
  "clear_index m = m\<lparr>m_byId := [], m_labelsById := [], m_labelTimestampsById := [], m_leafId := None\<rparr>"

definition buildIndex :: "manager \<Rightarrow> manager" where
  "buildIndex m = foldl index_step (clear_index m) (entries_of (m_fileEntries m))"

definition getHeader :: "manager \<Rightarrow> session_header option" where
  "getHeader m = header_of (m_fileEntries m)"

definition getEntries :: "manager \<Rightarrow> session_entry list" where
  "getEntries m = entries_of (m_fileEntries m)"

definition getSessionFilePath :: "string \<Rightarrow> string \<Rightarrow> string" where
  "getSessionFilePath dir sid = dir @ [slash] @ sid @ ''.jsonl''"

text \<open>At most 100 time-ordered ids are tried.\<close>

fun unique_target :: "nat \<Rightarrow> host \<Rightarrow> string \<Rightarrow> world \<Rightarrow> (string \<times> string) result \<times> world" where
  "unique_target 0 H dir w = (Inl (Error ''Unable to create a unique session file''), w)"
| "unique_target (Suc k) H dir w =
     (let sid = uuidv7 H (session_uuids w);
          w1 = w\<lparr>session_uuids := Suc (session_uuids w)\<rparr>;
          file = getSessionFilePath dir sid
      in if \<not> existsSync w file then (Inr (sid, file), w1) else unique_target k H dir w1)"

definition createUniqueSessionFileTarget :: "host \<Rightarrow> string \<Rightarrow> world \<Rightarrow> (string \<times> string) result \<times> world" where
  "createUniqueSessionFileTarget H dir w = unique_target 100 H dir w"

text \<open>\<open>NewSessionOptions\<close>; \<open>o_rlmDepth\<close> is \<open>None\<close> when the options have no such property.\<close>

record new_session_options =
  o_id :: "string option"
  o_parentSession :: "string option"
  o_rlmDepth :: "int option option"

definition default_options :: new_session_options where
  "default_options = \<lparr>o_id = None, o_parentSession = None, o_rlmDepth = None\<rparr>"

definition session_target ::
  "host \<Rightarrow> new_session_options \<Rightarrow> world \<Rightarrow> manager \<Rightarrow> (string \<times> string option) result \<times> world" where
  "session_target H opts w m =
     (let (sid0, w1) = (case o_id opts of
            Some i \<Rightarrow> (i, w)
          | None \<Rightarrow> (uuidv7 H (session_uuids w), w\<lparr>session_uuids := Suc (session_uuids w)\<rparr>))
      in if \<not> m_persist m then (Inr (sid0, None), w1)
         else if truthy (o_id opts) then
           (let file = getSessionFilePath (m_sessionDir m) sid0
            in if existsSync w1 file
               then (Inl (Error (''Session file already exists for id '' @ sid0 @ '': '' @ file)), w1)
               else (Inr (sid0, Some file), w1))
         else (case createUniqueSessionFileTarget H (m_sessionDir m) w1 of
                 (Inl e, w2) \<Rightarrow> (Inl e, w2)
               | (Inr (sid, file), w2) \<Rightarrow> (Inr (sid, Some file), w2)))"

definition new_rlmDepth :: "host \<Rightarrow> new_session_options \<Rightarrow> world \<Rightarrow> int option result" where
  "new_rlmDepth H opts w =
     (case o_rlmDepth opts of
        Some d \<Rightarrow> Inr d
      | None \<Rightarrow>
          if truthy (o_parentSession opts)
          then Inr (deriveChildRlmDepth (readSessionHeader (files w) (the (o_parentSession opts))))
          else (case rootRlmDepthFromEnv (env_RLM_DEPTH H) of Inl e \<Rightarrow> Inl e | Inr d \<Rightarrow> Inr (Some d)))"

definition newSession :: "host \<Rightarrow> new_session_options \<Rightarrow> world \<Rightarrow> manager \<Rightarrow> string option outcome" where
  "newSession H opts w m =
     (case session_target H opts w m of
        (Inl e, w1) \<Rightarrow> (Inl e, w1, m)
      | (Inr (sid, file), w1) \<Rightarrow>
          let m1 = m\<lparr>m_sessionId := sid\<rparr>;
              timestamp = clock H (ticks w1);
              w2 = w1\<lparr>ticks := Suc (ticks w1)\<rparr>;
              git = (if m_persist m then captureGitContext H (m_cwd m) else None)
          in (case new_rlmDepth H opts w2 of
                Inl e \<Rightarrow> (Inl e, w2, m1)
              | Inr depth \<Rightarrow>
                  let header = \<lparr>h_version = Some CURRENT_SESSION_VERSION, h_id = sid, h_timestamp = timestamp,
                        h_cwd = m_cwd m, h_parentSession = o_parentSession opts, h_rlmDepth = depth, h_git = git\<rparr>;
                      m2 = (clear_index m1)\<lparr>m_fileEntries := [Header header], m_flushed := False\<rparr>;
                      m3 = (if m_persist m then m2\<lparr>m_sessionFile := file\<rparr> else m2)
                  in (Inr (m_sessionFile m3), w2, m3)))"

text \<open>The header object is the first element of the list the migration returns.\<close>

definition set_header_depth :: "int \<Rightarrow> file_entry list \<Rightarrow> file_entry list" where
  "set_header_depth d fs = upd_first (\<lambda>f. case f of Header _ \<Rightarrow> True | Entry _ \<Rightarrow> False)
     (\<lambda>f. case f of Header h \<Rightarrow> Header (h\<lparr>h_rlmDepth := Some d\<rparr>) | Entry e \<Rightarrow> Entry e) fs"

definition load_session ::
  "host \<Rightarrow> string \<Rightarrow> file_entry list \<Rightarrow> world \<Rightarrow> manager \<Rightarrow> unit outcome" where
  "load_session H path entries w m =
     (let h = header_of entries;
          (sid, w1) = (case h of Some h \<Rightarrow> (h_id h, w)
                       | None \<Rightarrow> (uuidv7 H (session_uuids w), w\<lparr>session_uuids := Suc (session_uuids w)\<rparr>));
          (migrated, fs1, u) = migrateToCurrentVersion (randomUUID H) entries (uuids w1);
          w2 = w1\<lparr>uuids := u\<rparr>;
          legacy = (case h of None \<Rightarrow> False | Some h \<Rightarrow> truthy (h_parentSession h) \<and> \<not> isValidRlmDepth (h_rlmDepth h));
          fs2 = (if legacy then set_header_depth (resolveSessionRlmDepth (files w2) (pwd H) (h_rlmDepth (the h))
                                  (h_parentSession (the h)) path) fs1
                 else fs1);
          m1 = m\<lparr>m_sessionId := sid, m_fileEntries := fs2\<rparr>
      in and_then (if migrated \<or> legacy then rewriteFile H w2 m1 else (Inr (), w2, m1))
           (\<lambda>_ w m. (Inr (), w, (buildIndex m)\<lparr>m_flushed := True\<rparr>)))"

definition setSessionFile ::
  "host \<Rightarrow> string \<Rightarrow> file_entry list option \<Rightarrow> world \<Rightarrow> manager \<Rightarrow> unit outcome" where
  "setSessionFile H sessionFile preloaded w m =
     (let path = resolve (pwd H) sessionFile;
          m1 = m\<lparr>m_sessionFile := Some path\<rparr>
      in if existsSync w path then
           (let entries = nullish preloaded (loadEntriesFromFile (files w) path);
                m2 = m1\<lparr>m_fileEntries := entries\<rparr>
            in if entries = [] then
                 and_then (newSession H default_options w m2) (\<lambda>_ w m.
                   and_then (rewriteFile H w (m\<lparr>m_sessionFile := Some path\<rparr>))
                     (\<lambda>_ w m. (Inr (), w, m\<lparr>m_flushed := True\<rparr>)))
               else load_session H path entries w m2)
         else and_then (newSession H default_options w m1)
                (\<lambda>_ w m. (Inr (), w, m\<lparr>m_sessionFile := Some path\<rparr>)))"

definition SessionManager ::
  "host \<Rightarrow> string \<Rightarrow> string \<Rightarrow> string option \<Rightarrow> bool \<Rightarrow> file_entry list option \<Rightarrow> world \<Rightarrow> unit outcome" where
  "SessionManager H cwd dir file persist preloaded w =
     (let m = \<lparr>m_sessionId = [], m_sessionFile = None, m_sessionDir = dir, m_cwd = cwd, m_persist = persist,
               m_flushed = False, m_fileEntries = [], m_byId = [], m_labelsById = [],
               m_labelTimestampsById = [], m_leafId = None\<rparr>
      in if truthy file then setSessionFile H (the file) preloaded w m
         else and_then (newSession H default_options w m) (\<lambda>_ w m. (Inr (), w, m)))"

definition materializeSessionFile :: "host \<Rightarrow> string option \<Rightarrow> world \<Rightarrow> manager \<Rightarrow> string outcome" where
  "materializeSessionFile H sessionDir w m =
     (if truthy (m_sessionFile m) then (Inr (the (m_sessionFile m)), w, m)
      else let dir = nullish sessionDir
                 (if m_sessionDir m \<noteq> [] then m_sessionDir m else getDefaultSessionDir H (m_cwd m))
      in (case createUniqueSessionFileTarget H dir w of
        (Inl e, w1) \<Rightarrow> (Inl e, w1, m)
      | (Inr (sid, file), w1) \<Rightarrow>
          let prev = getHeader m;
              header = \<lparr>h_version = Some CURRENT_SESSION_VERSION, h_id = sid, h_timestamp = clock H (ticks w1),
                h_cwd = m_cwd m, h_parentSession = Option.bind prev h_parentSession,
                h_rlmDepth = Some (resolveSessionRlmDepth (files w1) (pwd H) (Option.bind prev h_rlmDepth)
                  (Option.bind prev h_parentSession) file),
                h_git = captureGitContext H (m_cwd m)\<rparr>;
              m1 = m\<lparr>m_sessionDir := dir, m_sessionId := sid, m_sessionFile := Some file, m_persist := True,
                     m_fileEntries := Header header # map Entry (getEntries m)\<rparr>
          in and_then (rewriteFile H (w1\<lparr>ticks := Suc (ticks w1)\<rparr>) m1)
               (\<lambda>_ w m. (Inr file, w, m\<lparr>m_flushed := True\<rparr>))))"

section \<open>Queries\<close>

definition leaf_entry :: "manager \<Rightarrow> string option \<Rightarrow> session_entry option" where
  "leaf_entry m startId = (if truthy startId then map_of (m_byId m) (the startId) else None)"

definition getLeafEntry :: "manager \<Rightarrow> session_entry option" where
  "getLeafEntry m = leaf_entry m (m_leafId m)"

definition getEntry :: "manager \<Rightarrow> string \<Rightarrow> session_entry option" where
  "getEntry m i = map_of (m_byId m) i"

definition getChildren :: "manager \<Rightarrow> string \<Rightarrow> session_entry list" where
  "getChildren m p = filter (\<lambda>e. e_parentId e = Some p) (map snd (m_byId m))"

definition getLabel :: "manager \<Rightarrow> string \<Rightarrow> string option" where
  "getLabel m i = map_of (m_labelsById m) i"

definition getBranch :: "manager \<Rightarrow> string option \<Rightarrow> session_entry list option" where
  "getBranch m fromId =
     walk (m_byId m) (leaf_entry m (case fromId of Some i \<Rightarrow> Some i | None \<Rightarrow> m_leafId m)) []"

definition manager_context :: "manager \<Rightarrow> session_context option" where
  "manager_context m =
     buildSessionContext (entries_of (m_fileEntries m))
       (case m_leafId m of None \<Rightarrow> LeafNull | Some l \<Rightarrow> LeafId l) (Some (m_byId m))"

text \<open>The two walks that look for the nearest entry of a kind on the active branch.\<close>

partial_function (option) nearest ::
  "(session_entry \<Rightarrow> 'a option) \<Rightarrow> id_map \<Rightarrow> session_entry option \<Rightarrow> 'a option option" where
  "nearest f byId current =
     (case current of
        None \<Rightarrow> Some None
      | Some e \<Rightarrow> (case f e of Some r \<Rightarrow> Some (Some r) | None \<Rightarrow> nearest f byId (parent_entry byId e)))"

definition getActiveGitContext :: "manager \<Rightarrow> git_context option option" where
  "getActiveGitContext m =
     (case nearest (\<lambda>e. case e_body e of GitState g \<Rightarrow> Some g | _ \<Rightarrow> None) (m_byId m) (getLeafEntry m) of
        None \<Rightarrow> None
      | Some (Some g) \<Rightarrow> Some (Some g)
      | Some None \<Rightarrow> Some (case m_fileEntries m of Header h # _ \<Rightarrow> h_git h | _ \<Rightarrow> None))"

definition getLatestAgentStatus :: "manager \<Rightarrow> agent_status option option" where
  "getLatestAgentStatus m =
     nearest (\<lambda>e. case e_body e of AgentStatus s \<Rightarrow> Some s | _ \<Rightarrow> None) (m_byId m) (getLeafEntry m)"

definition recordGitStateIfChanged :: "host \<Rightarrow> world \<Rightarrow> manager \<Rightarrow> string option outcome option" where
  "recordGitStateIfChanged H w m =
     (if \<not> m_persist m then Some (Inr None, w, m)
      else case captureGitContext H (m_cwd m) of
        None \<Rightarrow> Some (Inr None, w, m)
      | Some git \<Rightarrow>
          (case getActiveGitContext m of
             None \<Rightarrow> None
           | Some prev \<Rightarrow>
               if prev \<noteq> None \<and> gitContextsEqual (the prev) git then Some (Inr None, w, m)
               else Some (and_then (appendGitState H git w m) (\<lambda>i w m. (Inr (Some i), w, m)))))"

definition getSessionName :: "manager \<Rightarrow> string option" where
  "getSessionName m =
     (case find_last (\<lambda>e. case e_body e of SessionInfo _ \<Rightarrow> True | _ \<Rightarrow> False) (getEntries m) of
        Some e \<Rightarrow> (case e_body e of
            SessionInfo (Some n) \<Rightarrow> if trim n = [] then None else Some (trim n)
          | _ \<Rightarrow> None)
      | None \<Rightarrow> None)"

definition normalizeSessionStateStatus :: "string \<Rightarrow> string option" where
  "normalizeSessionStateStatus v = (if v \<in> {''active'', ''archived'', ''crash''} then Some v else None)"

definition getSessionState :: "manager \<Rightarrow> string option" where
  "getSessionState m =
     (case find_last (\<lambda>e. case e_body e of SessionState s \<Rightarrow> normalizeSessionStateStatus s \<noteq> None | _ \<Rightarrow> False)
             (getEntries m) of
        Some e \<Rightarrow> (case e_body e of SessionState s \<Rightarrow> Some s | _ \<Rightarrow> None)
      | None \<Rightarrow> None)"

definition is_content_entry :: "session_entry \<Rightarrow> bool" where
  "is_content_entry e = (case e_body e of
     ChildUsageAttributed _ _ _ _ \<Rightarrow> False | SessionState _ \<Rightarrow> False | AgentStatus _ \<Rightarrow> False
   | GitState _ \<Rightarrow> False | _ \<Rightarrow> True)"

definition skip_if :: "(session_entry \<Rightarrow> bool) \<Rightarrow> session_entry list \<Rightarrow> session_entry list" where
  "skip_if P es = (case es of e # es' \<Rightarrow> if P e then es' else es | [] \<Rightarrow> [])"

definition hasUserContent :: "manager \<Rightarrow> bool" where
  "hasUserContent m =
     (skip_if (\<lambda>e. case e_body e of ServiceTierChange _ \<Rightarrow> True | _ \<Rightarrow> False)
       (skip_if (\<lambda>e. case e_body e of ThinkingLevelChange _ \<Rightarrow> True | _ \<Rightarrow> False)
         (skip_if (\<lambda>e. case e_body e of ModelChange _ _ \<Rightarrow> True | _ \<Rightarrow> False)
           (filter is_content_entry (getEntries m)))) \<noteq> [])"

definition getFlatTree :: "manager \<Rightarrow> (session_entry \<times> string option \<times> int option) list" where
  "getFlatTree m = map (\<lambda>e. (e, map_of (m_labelsById m) (e_id e), map_of (m_labelTimestampsById m) (e_id e)))
     (getEntries m)"

section \<open>Branching\<close>

definition branch :: "string \<Rightarrow> world \<Rightarrow> manager \<Rightarrow> unit outcome" where
  "branch branchFromId w m =
     (if map_of (m_byId m) branchFromId = None
      then (Inl (Error (''Entry '' @ branchFromId @ '' not found'')), w, m)
      else (Inr (), w, m\<lparr>m_leafId := Some branchFromId\<rparr>))"

definition resetLeaf :: "manager \<Rightarrow> manager" where
  "resetLeaf m = m\<lparr>m_leafId := None\<rparr>"

definition branchWithSummary ::
  "host \<Rightarrow> string option \<Rightarrow> string \<Rightarrow> json option \<Rightarrow> bool \<Rightarrow> usage option \<Rightarrow> world \<Rightarrow> manager \<Rightarrow> string outcome" where
  "branchWithSummary H branchFromId summary details fromHook use w m =
     (if branchFromId \<noteq> None \<and> map_of (m_byId m) (the branchFromId) = None
      then (Inl (Error (''Entry '' @ the branchFromId @ '' not found'')), w, m)
      else append_body H (BranchSummary \<lparr>bd_fromId = nullish branchFromId ''root'', bd_summary = summary,
             bd_details = details, bd_fromHook = fromHook, bd_usage = use\<rparr>)
             w (m\<lparr>m_leafId := branchFromId\<rparr>))"

text \<open>
  The label entries of a branched session: a chain after the last entry of the path, with the labels
  in the order of the label map.
\<close>

fun label_chain ::
  "host \<Rightarrow> string option \<Rightarrow> string set \<Rightarrow> (string \<times> string \<times> int) list \<Rightarrow> nat \<Rightarrow> session_entry list \<times> nat" where
  "label_chain H parent taken [] pos = ([], pos)"
| "label_chain H parent taken ((targetId, label, ts) # ls) pos =
     (let (nid, pos1) = generateId (\<lambda>i. i \<in> taken) (randomUUID H) pos;
          e = \<lparr>e_id = nid, e_parentId = parent, e_timestamp = ts, e_body = Label targetId (Some label)\<rparr>;
          (es, pos2) = label_chain H (Some nid) (insert nid taken) ls pos1
      in (e # es, pos2))"

definition labels_to_write :: "manager \<Rightarrow> string set \<Rightarrow> (string \<times> string \<times> int) list" where
  "labels_to_write m pathIds =
     map (\<lambda>(t, l). (t, l, the (map_of (m_labelTimestampsById m) t))) (filter (\<lambda>(t, l). t \<in> pathIds) (m_labelsById m))"

definition last_id :: "session_entry list \<Rightarrow> string option" where
  "last_id es = (if es = [] \<or> e_id (last es) = [] then None else Some (e_id (last es)))"

definition createBranchedSession :: "host \<Rightarrow> string \<Rightarrow> world \<Rightarrow> manager \<Rightarrow> string option outcome option" where
  "createBranchedSession H leafId w m =
     (case getBranch m (Some leafId) of
        None \<Rightarrow> None
      | Some path \<Rightarrow>
          if path = [] then Some (Inl (Error (''Entry '' @ leafId @ '' not found'')), w, m)
          else
            let kept = filter (\<lambda>e. \<not> is_label e) path;
                (target, w1) = (if m_persist m
                  then (case createUniqueSessionFileTarget H (m_sessionDir m) w of
                          (Inl e, w1) \<Rightarrow> (Inl e, w1)
                        | (Inr (sid, file), w1) \<Rightarrow> (Inr (sid, Some file), w1))
                  else (Inr (uuidv7 H (session_uuids w), None), w\<lparr>session_uuids := Suc (session_uuids w)\<rparr>))
            in (case target of
                  Inl e \<Rightarrow> Some (Inl e, w1, m)
                | Inr (sid, file) \<Rightarrow>
                    let prev = getHeader m;
                        header = \<lparr>h_version = Some CURRENT_SESSION_VERSION, h_id = sid,
                          h_timestamp = clock H (ticks w1), h_cwd = m_cwd m,
                          h_parentSession = (if m_persist m then m_sessionFile m else None),
                          h_rlmDepth = Some (resolveSessionRlmDepth (files w1) (pwd H)
                            (Option.bind prev h_rlmDepth) (Option.bind prev h_parentSession)
                            (nullish (m_sessionFile m) (nullish file []))),
                          h_git = (if m_persist m then captureGitContext H (m_cwd m) else None)\<rparr>;
                        (labels, u) = label_chain H (last_id kept) (e_id ` set kept)
                          (labels_to_write m (e_id ` set kept)) (uuids w1);
                        w2 = w1\<lparr>ticks := Suc (ticks w1), uuids := u\<rparr>;
                        m1 = buildIndex (m\<lparr>m_fileEntries := Header header # map Entry (kept @ labels),
                               m_sessionId := sid,
                               m_sessionFile := (if m_persist m then file else m_sessionFile m)\<rparr>)
                    in if \<not> m_persist m then Some (Inr None, w2, m1)
                       else if has_assistant (m_fileEntries m1)
                       then Some (and_then (rewriteFile H w2 m1)
                                    (\<lambda>_ w m. (Inr file, w, m\<lparr>m_flushed := True\<rparr>)))
                       else Some (Inr file, w2, m1\<lparr>m_flushed := False\<rparr>)))"

end
