(* ===== verification/Session_Invariant.thy ===== *)
theory Session_Invariant
  imports Session_Manager
begin

text \<open>
  What the operations of the session manager keep: the index agrees with the list of entries, the
  entries form a tree in file order and the leaf is one of them; the context of the active branch
  grows only at its end; and, as long as no plain append fails, the file read back is the memory.
\<close>

section \<open>The class invariant\<close>

definition consistent :: "manager \<Rightarrow> bool" where
  "consistent m \<longleftrightarrow> m_byId m = index_entries (getEntries m) \<and> wf_tree (getEntries m)
     \<and> (case m_leafId m of None \<Rightarrow> True | Some l \<Rightarrow> l \<in> ids (getEntries m))"

definition fresh_host :: "host \<Rightarrow> world \<Rightarrow> manager \<Rightarrow> bool" where
  "fresh_host H w m \<longleftrightarrow> fresh_supply (randomUUID H) (uuids w) (ids (getEntries m))"

lemma consistentI [inv_intros]:
  "m_byId m = index_entries (getEntries m) \<Longrightarrow> wf_tree (getEntries m) \<Longrightarrow>
   (case m_leafId m of None \<Rightarrow> True | Some l \<Rightarrow> l \<in> ids (getEntries m)) \<Longrightarrow> consistent m"
  by (simp add: consistent_def)

lemma consistent_index: "consistent m \<Longrightarrow> m_byId m = index_entries (getEntries m)"
  by (simp add: consistent_def)

lemma consistent_tree: "consistent m \<Longrightarrow> wf_tree (getEntries m)"
  by (simp add: consistent_def)

lemma getEntries_cong: "m_fileEntries m = m_fileEntries m' \<Longrightarrow> getEntries m = getEntries m'"
  by (simp add: getEntries_def)

text \<open>Writing changes neither the entries nor the index nor the leaf nor the supply of ids.\<close>

definition same_memory :: "manager \<Rightarrow> manager \<Rightarrow> bool" where
  "same_memory m m' \<longleftrightarrow> m' = m\<lparr>m_flushed := m_flushed m'\<rparr>"

lemma same_memory_fields [frame_simps]:
  assumes "same_memory m m'"
  shows "m_fileEntries m' = m_fileEntries m" "m_byId m' = m_byId m" "m_leafId m' = m_leafId m"
    "m_labelsById m' = m_labelsById m" "m_labelTimestampsById m' = m_labelTimestampsById m"
    "m_sessionFile m' = m_sessionFile m" "m_persist m' = m_persist m" "m_cwd m' = m_cwd m"
    "getEntries m' = getEntries m"
  using assms by (cases m, cases m', simp add: same_memory_def getEntries_def)+

lemma same_memory_refl [simp]: "same_memory m m" "same_memory m (m\<lparr>m_flushed := b\<rparr>)"
  by (simp_all add: same_memory_def)

lemma same_memory_trans: "same_memory m m1 \<Longrightarrow> same_memory m1 m2 \<Longrightarrow> same_memory m m2"
  by (cases m, cases m1, cases m2) (simp add: same_memory_def)

lemma consistent_same_memory: "same_memory m m' \<Longrightarrow> consistent m' = consistent m"
  by (simp add: consistent_def frame_simps split: option.split)

lemma rewriteFile_frame: "rewriteFile H w m = (r, w', m') \<Longrightarrow> m' = m \<and> uuids w' = uuids w \<and> ticks w' = ticks w"
  by (auto simp: rewriteFile_def notifyPersistListeners_def Let_def split: if_splits fault.splits)

lemma appendFileSync_frame:
  "appendFileSync H w m p e = (r, w', m') \<Longrightarrow> m' = m \<and> uuids w' = uuids w \<and> ticks w' = ticks w"
  by (auto simp: appendFileSync_def Let_def split: fault.splits)

lemma notify_frame [simp]:
  "uuids (notifyPersistListeners w m) = uuids w" "ticks (notifyPersistListeners w m) = ticks w"
  "files (notifyPersistListeners w m) = files w" "writes (notifyPersistListeners w m) = writes w"
  by (simp_all add: notifyPersistListeners_def)

lemma and_then_cases:
  assumes "and_then r k = out"
  obtains (throws) e w m where "r = (Inl e, w, m)" "out = (Inl e, w, m)"
    | (goes_on) x w m where "r = (Inr x, w, m)" "k x w m = out"
  using assms by (cases r, cases "fst r") auto

lemma flushNow_frame: "flushNow H w m = (r, w', m') \<Longrightarrow> same_memory m m' \<and> uuids w' = uuids w \<and> ticks w' = ticks w"
  unfolding flushNow_def
  by (auto split: if_splits elim!: and_then_cases dest!: rewriteFile_frame)

lemma persistEntry_frame:
  "persistEntry H e w m = (r, w', m') \<Longrightarrow> same_memory m m' \<and> uuids w' = uuids w \<and> ticks w' = ticks w"
  unfolding persistEntry_def
  by (auto split: if_splits elim!: and_then_cases dest!: rewriteFile_frame appendFileSync_frame)

lemma new_entry_fields:
  "new_entry H b w m = (e, w1) \<Longrightarrow> e_body e = b \<and> e_parentId e = m_leafId m \<and> e_timestamp e = clock H (ticks w)
     \<and> files w1 = files w \<and> writes w1 = writes w \<and> (e_id e, uuids w1) = generateId (\<lambda>i. map_of (m_byId m) i \<noteq> None) (randomUUID H) (uuids w)"
  by (auto simp: new_entry_def split: prod.splits)

lemma new_entry_fresh:
  assumes "consistent m" "fresh_host H w m" "new_entry H b w m = (e, w1)"
  shows "e_id e \<notin> ids (getEntries m)" "e_id e \<noteq> []"
    "fresh_supply (randomUUID H) (uuids w1) (insert (e_id e) (ids (getEntries m)))"
proof -
  have "(\<lambda>i. map_of (m_byId m) i \<noteq> None) = (\<lambda>i. i \<in> ids (getEntries m))"
    using index_lookup_None by (auto simp: consistent_index [OF assms(1)] fun_eq_iff)
  then have g: "generateId (\<lambda>i. i \<in> ids (getEntries m)) (randomUUID H) (uuids w) = (e_id e, uuids w1)"
    using new_entry_fields [OF assms(3)] by simp
  from generateId_fresh [OF _ g] assms(2)
  show "e_id e \<notin> ids (getEntries m)" "e_id e \<noteq> []"
    "fresh_supply (randomUUID H) (uuids w1) (insert (e_id e) (ids (getEntries m)))"
    by (auto simp: fresh_host_def)
qed

lemma getEntries_push [simp]: "getEntries (push_entry e m) = getEntries m @ [e]"
  by (simp add: getEntries_def push_entry_def)

lemma push_entry_fields [simp]:
  "m_byId (push_entry e m) = AList.update (e_id e) e (m_byId m)" "m_leafId (push_entry e m) = Some (e_id e)"
  "m_fileEntries (push_entry e m) = m_fileEntries m @ [Entry e]"
  "m_sessionFile (push_entry e m) = m_sessionFile m" "m_persist (push_entry e m) = m_persist m"
  "m_flushed (push_entry e m) = m_flushed m" "m_labelsById (push_entry e m) = m_labelsById m"
  "m_labelTimestampsById (push_entry e m) = m_labelTimestampsById m" "m_cwd (push_entry e m) = m_cwd m"
  by (simp_all add: push_entry_def)

lemma consistent_push:
  assumes "consistent m" "e_id e \<notin> ids (getEntries m)" "e_id e \<noteq> []" "e_parentId e = m_leafId m"
  shows "consistent (push_entry e m)"
  using assms by (auto simp: consistent_def wf_tree_snoc index_entries_snoc split: option.splits)

text \<open>One append: the manager after it is the pushed one, but for the flag.\<close>

lemma append_body_cases:
  assumes "append_body H b w m = (r, w', m')"
  obtains e w1 where "new_entry H b w m = (e, w1)" "same_memory (push_entry e m) m'" "uuids w' = uuids w1"
    "r = Inr (e_id e) \<and> persistEntry H e w1 (push_entry e m) = (Inr (), w', m')
     \<or> (\<exists>err. r = Inl err \<and> persistEntry H e w1 (push_entry e m) = (Inl err, w', m'))"
proof -
  obtain e w1 where n: "new_entry H b w m = (e, w1)" by (rule prod.exhaust)
  obtain r0 w2 m2 where p: "persistEntry H e w1 (push_entry e m) = (r0, w2, m2)" by (rule prod_cases3)
  have "and_then (r0, w2, m2) (\<lambda>_ w m. (Inr (e_id e), w, m)) = (r, w', m')"
    using assms by (simp add: append_body_def n appendEntry_def p)
  then have "w2 = w' \<and> m2 = m' \<and> (r = Inr (e_id e) \<and> r0 = Inr () \<or> (\<exists>err. r = Inl err \<and> r0 = Inl err))"
    by (cases r0) auto
  with persistEntry_frame [OF p] p n that show thesis by blast
qed

lemma append_body_invariant:
  assumes "consistent m" "fresh_host H w m" "append_body H b w m = (r, w', m')"
  shows "consistent m' \<and> fresh_host H w' m' \<and> (\<forall>i. r = Inr i \<longrightarrow> m_leafId m' = Some i)"
proof -
  from assms(3) obtain e w1 where e: "new_entry H b w m = (e, w1)" "same_memory (push_entry e m) m'"
    "uuids w' = uuids w1" "r = Inr (e_id e) \<or> (\<exists>err. r = Inl err)"
    by (rule append_body_cases) blast
  note f = new_entry_fresh [OF assms(1,2) e(1)]
  have "consistent (push_entry e m)"
    using consistent_push [OF assms(1) f(1,2)] new_entry_fields [OF e(1)] by blast
  with e f show ?thesis
    by (auto simp: consistent_same_memory fresh_host_def frame_simps)
qed

section \<open>Assigning a usage\<close>

lemma upd_first_unique:
  assumes "distinct (map f xs)" "x \<in> set xs" "f x = k" "\<And>y. P y \<Longrightarrow> f y = k" "P x"
  shows "upd_first P g xs = map (\<lambda>y. if f y = k then g y else y) xs"
  using assms
proof (induction xs)
  case (Cons y ys)
  show ?case
  proof (cases "P y")
    case True
    then have "f y = k" by (rule Cons.prems(4))
    then have "z \<in> set ys \<Longrightarrow> f z \<noteq> k" for z using Cons.prems(1) by (metis distinct.simps(2) image_eqI list.set_map list.simps(9))
    then have "map (\<lambda>y. if f y = k then g y else y) ys = ys" by (simp add: map_idI)
    with True \<open>f y = k\<close> show ?thesis by simp
  next
    case False
    then have "x \<noteq> y" using Cons.prems(5) by blast
    then have x: "x \<in> set ys" using Cons.prems(2) by simp
    then have "f y \<noteq> k" using Cons.prems(1,3) by auto
    then show ?thesis using False Cons x by simp
  qed
qed simp

text \<open>The entries after the assignment: the target's usage is new, the rest is as before.\<close>

definition assign_usage :: "string \<Rightarrow> usage \<Rightarrow> session_entry \<Rightarrow> session_entry" where
  "assign_usage t u e = (if e_id e = t \<and> is_assistant_entry e then set_usage u e else e)"

lemma assign_usage_fields [simp]:
  "e_id (assign_usage t u e) = e_id e" "e_parentId (assign_usage t u e) = e_parentId e"
  by (simp_all add: assign_usage_def)

lemma upd_first_entries:
  "distinct (map e_id (entries_of fs)) \<Longrightarrow>
   upd_first (is_assistant_with t) (on_entry (set_usage u)) fs = map (on_entry (assign_usage t u)) fs"
proof (induction fs)
  case (Cons f fs)
  show ?case
  proof (cases f)
    case (Header h)
    with Cons show ?thesis by (simp add: is_assistant_with_def)
  next
    case (Entry e)
    show ?thesis
    proof (cases "e_id e = t \<and> is_assistant_entry e")
      case True
      have "map (on_entry (assign_usage t u)) fs = fs"
      proof (rule map_idI)
        fix x assume x: "x \<in> set fs"
        have "e' \<in> set (entries_of fs)" if "x = Entry e'" for e'
          using x that by (induction fs) (auto simp: entries_of_def)
        then have "x = Entry e' \<Longrightarrow> e_id e' \<noteq> t" for e' using Cons.prems True Entry by (metis distinct.simps(2) entries_of_simps(2) image_eqI list.set_map list.simps(9))
        then show "on_entry (assign_usage t u) x = x" by (cases x) (simp_all add: assign_usage_def)
      qed
      moreover have "assign_usage t u e = set_usage u e" using True by (simp add: assign_usage_def)
      ultimately show ?thesis using True Entry by (simp add: is_assistant_with_def)
    next
      case False
      with Cons Entry show ?thesis by (auto simp: is_assistant_with_def assign_usage_def)
    qed
  qed
qed simp

lemma upd_last_entries:
  assumes "distinct (map e_id (entries_of fs))"
  shows "upd_last (is_assistant_with t) (on_entry (set_usage u)) fs = map (on_entry (assign_usage t u)) fs"
proof -
  have "entries_of (rev fs) = rev (entries_of fs)"
    by (induction fs) (auto simp: entries_of_def split: file_entry.split)
  then have "distinct (map e_id (entries_of (rev fs)))" using assms by (simp add: rev_map [symmetric])
  then show ?thesis by (simp add: upd_last_def upd_first_entries rev_map)
qed

lemma entries_of_map_on_entry [simp]: "entries_of (map (on_entry f) fs) = map f (entries_of fs)"
proof (induction fs)
  case (Cons x fs)
  then show ?case by (cases x) simp_all
qed simp

lemma mutate_usage_fields [simp]:
  "m_leafId (mutate_usage t u m) = m_leafId m" "m_persist (mutate_usage t u m) = m_persist m"
  "m_sessionFile (mutate_usage t u m) = m_sessionFile m" "m_flushed (mutate_usage t u m) = m_flushed m"
  by (simp_all add: mutate_usage_def)

lemma getEntries_mutate:
  assumes "wf_tree (getEntries m)"
  shows "getEntries (mutate_usage t u m) = map (assign_usage t u) (getEntries m)"
  using wf_tree_distinct [OF assms]
  by (simp add: getEntries_def mutate_usage_def upd_last_entries)

lemma tree_from_map:
  "(\<And>e. e_id (f e) = e_id e) \<Longrightarrow> (\<And>e. e_parentId (f e) = e_parentId e) \<Longrightarrow> tree_from S (map f es) = tree_from S es"
  by (induction es arbitrary: S) simp_all

lemma wf_tree_assign: "wf_tree (map (assign_usage t u) es) = wf_tree es"
  by (simp add: wf_tree_def tree_from_map)

lemma index_of_distinct:
  "distinct (map e_id es) \<Longrightarrow> index_entries es = map (\<lambda>e. (e_id e, e)) es"
proof (induction es rule: rev_induct)
  case (snoc e es)
  have new: "AList.update k v m = m @ [(k, v)]" if "k \<notin> fst ` set m" for k :: string and v :: session_entry and m
    using that by (induction m) auto
  have "e_id e \<notin> fst ` set (map (\<lambda>e. (e_id e, e)) es)" using snoc.prems by (auto simp: image_image)
  from new [OF this, of e] snoc show ?case by (simp add: index_entries_snoc)
qed (simp add: index_entries_def)

lemma AList_update_distinct:
  "distinct (map e_id es) \<Longrightarrow> x \<in> set es \<Longrightarrow> e_id x = k \<Longrightarrow>
   AList.update k v (map (\<lambda>e. (e_id e, e)) es) = map (\<lambda>e. (e_id e, if e_id e = k then v else e)) es"
proof (induction es)
  case (Cons y ys)
  show ?case
  proof (cases "e_id y = k")
    case True
    have "z \<in> set ys \<Longrightarrow> e_id z \<noteq> e_id y" for z
      using Cons.prems(1) by (metis distinct.simps(2) image_eqI list.set_map list.simps(9))
    then have "z \<in> set ys \<Longrightarrow> e_id z \<noteq> k" for z using True by simp
    then have "map (\<lambda>e. (e_id e, if e_id e = k then v else e)) ys = map (\<lambda>e. (e_id e, e)) ys" by simp
    with True show ?thesis by simp
  next
    case False
    with Cons show ?thesis by auto
  qed
qed simp

lemma consistent_mutate:
  assumes "consistent m" "map_of (m_byId m) t = Some e" "is_assistant_entry e"
  shows "consistent (mutate_usage t u m)"
proof (rule consistentI)
  let ?es = "getEntries m"
  have d: "distinct (map e_id ?es)" using wf_tree_distinct [OF consistent_tree [OF assms(1)]] .
  have e: "e \<in> set ?es" "e_id e = t"
    using assms(2) index_lookup_Some unfolding consistent_index [OF assms(1)] by blast+
  have same: "e_id x = t \<Longrightarrow> x \<in> set ?es \<Longrightarrow> x = e" for x
    using e d by (auto simp: distinct_map dest: inj_onD)
  have es: "getEntries (mutate_usage t u m) = map (assign_usage t u) ?es"
    using getEntries_mutate [OF consistent_tree [OF assms(1)]] .
  have d': "distinct (map e_id (map (assign_usage t u) ?es))" using d by (simp add: o_def)
  have "m_byId (mutate_usage t u m) = AList.update t (set_usage u e) (map (\<lambda>e. (e_id e, e)) ?es)"
    using assms(2) by (simp add: mutate_usage_def consistent_index [OF assms(1)] index_of_distinct [OF d])
  also have "\<dots> = map (\<lambda>x. (e_id x, if e_id x = t then set_usage u e else x)) ?es"
    by (rule AList_update_distinct [OF d e])
  also have "\<dots> = map (\<lambda>x. (e_id x, assign_usage t u x)) ?es"
    using same assms(3) by (auto simp: assign_usage_def)
  also have "\<dots> = index_entries (getEntries (mutate_usage t u m))"
    unfolding es index_of_distinct [OF d'] by simp
  finally show "m_byId (mutate_usage t u m) = index_entries (getEntries (mutate_usage t u m))" .
  show "wf_tree (getEntries (mutate_usage t u m))"
    unfolding es wf_tree_assign by (rule consistent_tree [OF assms(1)])
  have "ids (getEntries (mutate_usage t u m)) = ids ?es" unfolding es by (simp add: image_image)
  then show "case m_leafId (mutate_usage t u m) of None \<Rightarrow> True | Some l \<Rightarrow> l \<in> ids (getEntries (mutate_usage t u m))"
    using assms(1) by (simp add: consistent_def split: option.splits)
qed

lemma ids_mutate: "wf_tree (getEntries m) \<Longrightarrow> ids (getEntries (mutate_usage t u m)) = ids (getEntries m)"
  by (simp add: getEntries_mutate image_image)

section \<open>Rolling back\<close>

lemma AList_delete_update: "k \<notin> fst ` set m \<Longrightarrow> AList.delete k (AList.update k v m) = m"
proof (induction m)
  case (Cons p m)
  have "AList.delete k m = m" using Cons.prems by (simp add: delete_id)
  with Cons show ?case by (cases p) (auto simp: AList.delete_eq)
qed (simp add: AList.delete_eq)

lemma index_keys: "fst ` set (index_entries es) = ids es"
proof (induction es rule: rev_induct)
  case (snoc e es)
  then show ?case by (simp add: index_entries_snoc dom_update)
qed (simp add: index_entries_def)

definition same_session :: "manager \<Rightarrow> manager \<Rightarrow> bool" where
  "same_session m m' \<longleftrightarrow> m_fileEntries m' = m_fileEntries m \<and> m_byId m' = m_byId m \<and> m_leafId m' = m_leafId m
     \<and> m_labelsById m' = m_labelsById m \<and> m_labelTimestampsById m' = m_labelTimestampsById m
     \<and> m_sessionFile m' = m_sessionFile m \<and> m_persist m' = m_persist m"

lemma consistent_same_session: "same_session m m' \<Longrightarrow> consistent m' = consistent m"
  by (simp add: consistent_def same_session_def getEntries_def split: option.split)

lemma rollback_push:
  assumes "e_id e \<notin> fst ` set (m_byId m)" "m_leafId m \<noteq> Some (e_id e)"
    and "same_memory (push_entry e m) m2" "rollback H (m_leafId m) err w2 m2 = (r, w', m')"
  shows "r = Inl err" "same_session m m'" "uuids w' = uuids w2"
    "\<exists>m1. m_flushed m1 = False \<and> same_session m m1
      \<and> ((\<exists>x. flushNow H w2 m1 = (Inr x, w', m')) \<or> (\<exists>x m3. flushNow H w2 m1 = (Inl x, w', m3)) \<and> m_flushed m' = False)"
proof -
  let ?m1 = "m2\<lparr>m_byId := AList.delete (the (m_leafId m2)) (m_byId m2),
                   m_fileEntries := butlast (m_fileEntries m2),
                   m_leafId := m_leafId m, m_flushed := False\<rparr>"
  note f = same_memory_fields [OF assms(3)]
  have m1: "same_session m ?m1" using assms(1) f by (simp add: same_session_def AList_delete_update)
  obtain r1 w3 m3 where fl: "flushNow H w2 ?m1 = (r1, w3, m3)" by (rule prod_cases3)
  have m3: "same_memory ?m1 m3" "uuids w3 = uuids w2" using flushNow_frame [OF fl] by simp_all
  have go: "m_leafId m2 \<noteq> None \<and> m_leafId m2 \<noteq> m_leafId m" using f(3) assms(2) by simp
  have res: "(r, w', m') = (case r1 of Inr _ \<Rightarrow> (Inl err, w3, m3) | Inl _ \<Rightarrow> (Inl err, w3, m3\<lparr>m_flushed := False\<rparr>))"
    using assms(4) go unfolding rollback_def Let_def fl by (cases r1) simp_all
  have "same_session ?m1 m3" "same_session ?m1 (m3\<lparr>m_flushed := False\<rparr>)"
    using same_memory_fields [OF m3(1)] by (simp_all add: same_session_def)
  with m1 res m3(2) show "r = Inl err" "same_session m m'" "uuids w' = uuids w2"
    by (cases r1; simp add: same_session_def)+
  show "\<exists>m1. m_flushed m1 = False \<and> same_session m m1
      \<and> ((\<exists>x. flushNow H w2 m1 = (Inr x, w', m')) \<or> (\<exists>x m3. flushNow H w2 m1 = (Inl x, w', m3)) \<and> m_flushed m' = False)"
    using m1 fl res by (intro exI [of _ ?m1]) (cases r1; simp)
qed

text \<open>The two outcomes of an append with rollback.\<close>

lemma append_with_rollback_cases:
  assumes "consistent m" "fresh_host H w m"
    and "appendEntryWithRollback H (append_body H b) w m = (r, w', m')"
  obtains (kept) e w1 w2 m2 where "r = Inr (e_id e)" "same_memory (push_entry e m) m'"
      "append_body H b w m = (Inr (e_id e), w2, m2)" "flushNow H w2 m2 = (Inr (), w', m')"
      "new_entry H b w m = (e, w1)" "uuids w' = uuids w1"
    | (undone) err e w1 w2 m2 where "r = Inl err" "same_session m m'" "rollback H (m_leafId m) err w2 m2 = (Inl err, w', m')"
      "new_entry H b w m = (e, w1)" "uuids w' = uuids w1" "same_memory (push_entry e m) m2"
proof -
  obtain r2 w2 m2 where ap: "append_body H b w m = (r2, w2, m2)" by (rule prod_cases3)
  then obtain e w1 where e: "new_entry H b w m = (e, w1)" "same_memory (push_entry e m) m2"
    "uuids w2 = uuids w1" "r2 = Inr (e_id e) \<or> (\<exists>err. r2 = Inl err)"
    by (rule append_body_cases) blast
  have new: "e_id e \<notin> fst ` set (m_byId m)" "m_leafId m \<noteq> Some (e_id e)"
    using new_entry_fresh(1) [OF assms(1,2) e(1)] assms(1)
    by (auto simp: consistent_def index_keys)
  obtain r3 w3 m3 where fl: "flushNow H w2 m2 = (r3, w3, m3)" by (rule prod_cases3)
  have m3: "same_memory (push_entry e m) m3" "uuids w3 = uuids w1"
    using flushNow_frame [OF fl] same_memory_trans [OF e(2)] e(3) by simp_all
  show thesis
  proof (cases r2)
    case (Inl err)
    then have rb: "rollback H (m_leafId m) err w2 m2 = (r, w', m')"
      using assms(3) ap by (simp add: appendEntryWithRollback_def)
    from rollback_push [OF new e(2) rb] rb e that(2) show thesis by simp
  next
    case (Inr i)
    then have i: "r2 = Inr (e_id e)" using e(4) by simp
    show thesis
    proof (cases r3)
      case (Inl err)
      then have rb: "rollback H (m_leafId m) err w3 m3 = (r, w', m')"
        using assms(3) ap fl i by (simp add: appendEntryWithRollback_def)
      from rollback_push [OF new m3(1) rb] rb e m3 that(2) show thesis by simp
    next
      case (Inr u)
      then have "r = Inr (e_id e)" "w' = w3" "m' = m3"
        using assms(3) ap fl i by (simp_all add: appendEntryWithRollback_def)
      with Inr ap fl i e(1) m3 that(1) show thesis by simp
    qed
  qed
qed

section \<open>The reachable states\<close>

lemma consistent_cleared: "m_byId m = [] \<Longrightarrow> m_leafId m = None \<Longrightarrow> getEntries m = [] \<Longrightarrow> consistent m"
  by (simp add: consistent_def index_entries_def)

lemma unique_target_frame: "unique_target k H dir w = (r, w') \<Longrightarrow> uuids w' = uuids w \<and> files w' = files w \<and> writes w' = writes w"
proof (induction k arbitrary: w)
  case (Suc k)
  then show ?case by (auto simp: Let_def split: if_splits dest: Suc.IH)
qed simp

lemma session_target_frame:
  assumes "session_target H opts w m = (r, w')"
  shows "uuids w' = uuids w \<and> files w' = files w \<and> writes w' = writes w"
proof -
  obtain s1 w1 where p: "(case o_id opts of Some i \<Rightarrow> (i, w)
      | None \<Rightarrow> (uuidv7 H (session_uuids w), w\<lparr>session_uuids := Suc (session_uuids w)\<rparr>)) = (s1, w1)"
    by (rule prod.exhaust)
  then have w1: "uuids w1 = uuids w \<and> files w1 = files w \<and> writes w1 = writes w"
    by (auto split: option.splits)
  obtain r2 w2 where u: "unique_target 100 H (m_sessionDir m) w1 = (r2, w2)" by (rule prod.exhaust)
  have "w' = w1 \<or> w' = w2"
    using assms unfolding session_target_def createUniqueSessionFileTarget_def p u Let_def prod.case
    by (cases r2) (auto split: if_splits)
  with w1 unique_target_frame [OF u] show ?thesis by auto
qed

lemma newSession_cases:
  assumes "newSession H opts w m = (r, w', m')"
  shows "uuids w' = uuids w \<and> files w' = files w \<and> writes w' = writes w \<and>
    (case r of Inl _ \<Rightarrow> same_session m m' \<and> m_flushed m' = m_flushed m
     | Inr f \<Rightarrow> m_byId m' = [] \<and> m_leafId m' = None \<and> m_flushed m' = False \<and> m_persist m' = m_persist m
        \<and> m_labelsById m' = [] \<and> m_labelTimestampsById m' = [] \<and> f = m_sessionFile m'
        \<and> (\<exists>h. m_fileEntries m' = [Header h] \<and> h_version h = Some CURRENT_SESSION_VERSION \<and> h_id h = m_sessionId m'))"
proof -
  obtain r1 w1 where t: "session_target H opts w m = (r1, w1)" by (rule prod.exhaust)
  note w1 = session_target_frame [OF t]
  show ?thesis
  proof (cases r1)
    case (Inl e)
    with assms have "r = Inl e" "w' = w1" "m' = m" by (simp_all add: newSession_def t)
    with w1 show ?thesis by (simp add: same_session_def)
  next
    case (Inr sf)
    obtain sid path where sf: "sf = (sid, path)" by (rule prod.exhaust)
    define w2 where "w2 = w1\<lparr>ticks := Suc (ticks w1)\<rparr>"
    have w2: "uuids w2 = uuids w \<and> files w2 = files w \<and> writes w2 = writes w" using w1 by (simp add: w2_def)
    show ?thesis
    proof (cases "new_rlmDepth H opts w2")
      case (Inl e)
      have "newSession H opts w m = (Inl e, w2, m\<lparr>m_sessionId := sid\<rparr>)"
        unfolding newSession_def t Inr sf Let_def prod.case sum.case w2_def [symmetric] Inl ..
      with assms have "r = Inl e" "w' = w2" "m' = m\<lparr>m_sessionId := sid\<rparr>" by simp_all
      with w2 show ?thesis by (simp add: same_session_def)
    next
      case (Inr d)
      define hd' where "hd' = \<lparr>h_version = Some CURRENT_SESSION_VERSION, h_id = sid,
        h_timestamp = clock H (ticks w1), h_cwd = m_cwd m, h_parentSession = o_parentSession opts,
        h_rlmDepth = d, h_git = (if m_persist m then captureGitContext H (m_cwd m) else None)\<rparr>"
      define m2 where "m2 = (clear_index (m\<lparr>m_sessionId := sid\<rparr>))\<lparr>m_fileEntries := [Header hd'], m_flushed := False\<rparr>"
      define m3 where "m3 = (if m_persist m then m2\<lparr>m_sessionFile := path\<rparr> else m2)"
      have m3: "m_byId m3 = []" "m_leafId m3 = None" "m_flushed m3 = False" "m_persist m3 = m_persist m"
        "m_labelsById m3 = []" "m_labelTimestampsById m3 = []" "m_fileEntries m3 = [Header hd']" "m_sessionId m3 = sid"
        by (simp_all add: m3_def m2_def clear_index_def)
      have "newSession H opts w m = (Inr (m_sessionFile m3), w2, m3)"
        unfolding newSession_def t \<open>r1 = Inr sf\<close> sf Let_def prod.case sum.case w2_def [symmetric] Inr
          hd'_def [symmetric] m2_def [symmetric] m3_def [symmetric] ..
      with assms have r: "r = Inr (m_sessionFile m3)" "w' = w2" "m' = m3" by auto
      have "h_version hd' = Some CURRENT_SESSION_VERSION \<and> h_id hd' = sid" by (simp add: hd'_def)
      then show ?thesis unfolding r using w2 m3 by simp
    qed
  qed
qed

inductive session_step :: "host \<Rightarrow> world \<times> manager \<Rightarrow> world \<times> manager \<Rightarrow> bool" for H where
  step_append: "append_body H b w m = (r, w', m') \<Longrightarrow> session_step H (w, m) (w', m')"
| step_attribution: "appendChildUsageAttribution H t c a og w m = (r, w', m') \<Longrightarrow> session_step H (w, m) (w', m')"
| step_label: "appendLabelChange H t l w m = (r, w', m') \<Longrightarrow> session_step H (w, m) (w', m')"
| step_rollback: "appendEntryWithRollback H (append_body H b) w m = (r, w', m') \<Longrightarrow> session_step H (w, m) (w', m')"
| step_flush: "flushNow H w m = (r, w', m') \<Longrightarrow> session_step H (w, m) (w', m')"
| step_branch: "branch i w m = (r, w', m') \<Longrightarrow> session_step H (w, m) (w', m')"
| step_reset: "session_step H (w, m) (w, resetLeaf m)"
| step_summary: "branchWithSummary H bo s d fh use w m = (r, w', m') \<Longrightarrow> session_step H (w, m) (w', m')"
| step_new: "newSession H opts w m = (r, w', m') \<Longrightarrow> session_step H (w, m) (w', m')"
| step_git: "recordGitStateIfChanged H w m = Some (r, w', m') \<Longrightarrow> session_step H (w, m) (w', m')"

inductive_cases session_stepE: "session_step H (w, m) (w', m')"

definition good :: "host \<Rightarrow> world \<times> manager \<Rightarrow> bool" where
  "good H s \<longleftrightarrow> consistent (snd s) \<and> fresh_host H (fst s) (snd s)"

lemma good_pair: "good H (w, m) \<longleftrightarrow> consistent m \<and> fresh_host H w m"
  by (simp add: good_def)

lemma good_append:
  assumes "good H (w, m)" "append_body H b w m = (r, w', m')"
  shows "good H (w', m')"
  using append_body_invariant [OF _ _ assms(2)] assms(1) unfolding good_pair by blast

lemma good_mono:
  assumes "good H (w, m)" "uuids w' = uuids w" "same_session m m'"
  shows "good H (w', m')"
proof -
  have "getEntries m' = getEntries m" using assms(3) by (simp add: same_session_def getEntries_def)
  then show ?thesis
    using assms(1,2) unfolding good_pair consistent_same_session [OF assms(3)] fresh_host_def by simp
qed

lemma same_memory_session: "same_memory m m' \<Longrightarrow> same_session m m'"
  by (simp add: same_session_def frame_simps)

lemma good_attribution:
  assumes "good H (w, m)" "appendChildUsageAttribution H t c a og w m = (r, w', m')"
  shows "good H (w', m')"
proof (cases "case map_of (m_byId m) t of None \<Rightarrow> False | Some e \<Rightarrow> is_assistant_entry e")
  case True
  then obtain e where "map_of (m_byId m) t = Some e" "is_assistant_entry e" by (auto split: option.splits)
  then have "good H (w, mutate_usage t (cloneUsage a) m)"
    using assms(1) by (auto simp: good_def consistent_mutate fresh_host_def ids_mutate consistent_tree)
  with True assms(2) good_append show ?thesis by (auto simp: appendChildUsageAttribution_def)
next
  case False
  with assms show ?thesis by (auto simp: appendChildUsageAttribution_def)
qed

lemma good_label:
  assumes "good H (w, m)" "appendLabelChange H t l w m = (r, w', m')"
  shows "good H (w', m')"
proof (cases "map_of (m_byId m) t = None")
  case False
  obtain e w1 where n: "new_entry H (Label t l) w m = (e, w1)" by (rule prod.exhaust)
  obtain r2 w2 m2 where p: "appendEntry H e w1 m = (r2, w2, m2)" by (rule prod_cases3)
  have ap: "append_body H (Label t l) w m = (case r2 of Inl x \<Rightarrow> (Inl x, w2, m2) | Inr _ \<Rightarrow> (Inr (e_id e), w2, m2))"
    by (cases r2) (simp_all add: append_body_def n p)
  then have g: "good H (w2, m2)" using good_append [OF assms(1)] by (cases r2) auto
  have "w' = w2 \<and> m_fileEntries m' = m_fileEntries m2 \<and> m_byId m' = m_byId m2 \<and> m_leafId m' = m_leafId m2"
    using assms(2) False by (cases r2) (auto simp: appendLabelChange_def n p split: if_splits)
  with g show ?thesis
    by (cases "m_leafId m2") (simp_all add: good_def consistent_def fresh_host_def getEntries_cong [of m' m2])
next
  case True
  with assms show ?thesis by (auto simp: appendLabelChange_def)
qed

lemma good_rollback:
  assumes "good H (w, m)" "appendEntryWithRollback H (append_body H b) w m = (r, w', m')"
  shows "good H (w', m')"
proof -
  have cf: "consistent m" "fresh_host H w m" using assms(1) by (simp_all add: good_def)
  show ?thesis
    using cf assms(2)
  proof (cases rule: append_with_rollback_cases)
    case (kept e w1 w2 m2)
    have "good H (w2, m2)" using good_append [OF assms(1) kept(3)] .
    moreover have "same_memory m2 m'" "uuids w' = uuids w2" using flushNow_frame [OF kept(4)] by simp_all
    ultimately show ?thesis using good_mono same_memory_session by blast
  next
    case (undone err e w1 w2 m2)
    note f = new_entry_fresh [OF cf undone(4)]
    have "fresh_host H w' m'"
      using f(3) undone(2,5) by (auto simp: fresh_host_def fresh_supply_def same_session_def getEntries_def)
    then show ?thesis using cf undone(2) by (simp add: good_def consistent_same_session)
  qed
qed

lemma good_leaf: "good H (w, m) \<Longrightarrow> (case l of None \<Rightarrow> True | Some i \<Rightarrow> map_of (m_byId m) i \<noteq> None) \<Longrightarrow> good H (w, m\<lparr>m_leafId := l\<rparr>)"
  by (auto simp: good_def consistent_def fresh_host_def getEntries_def index_lookup_None split: option.splits)

lemma good_step: "session_step H s s' \<Longrightarrow> good H s \<Longrightarrow> good H s'"
proof (induction rule: session_step.induct)
  case (step_append b w m r w' m')
  then show ?case using good_append by blast
next
  case (step_attribution t c a og w m r w' m')
  then show ?case using good_attribution by blast
next
  case (step_label t l w m r w' m')
  then show ?case using good_label by blast
next
  case (step_rollback b w m r w' m')
  then show ?case using good_rollback by blast
next
  case (step_flush w m r w' m')
  from flushNow_frame [OF step_flush(1)] good_mono [OF step_flush(2)] show ?case
    by (simp add: same_memory_session)
next
  case (step_branch i w m r w' m')
  then show ?case using good_leaf [of H w m "Some i"] by (auto simp: branch_def split: if_splits)
next
  case (step_reset w m)
  then show ?case using good_leaf [of H w m None] by (simp add: resetLeaf_def)
next
  case (step_summary bo s d fh use w m r w' m')
  show ?case
  proof (cases "bo \<noteq> None \<and> map_of (m_byId m) (the bo) = None")
    case True
    with step_summary show ?thesis by (auto simp: branchWithSummary_def)
  next
    case False
    then have "good H (w, m\<lparr>m_leafId := bo\<rparr>)" using good_leaf [OF step_summary(2), of bo] by (cases bo) auto
    with False step_summary(1) good_append show ?thesis by (auto simp: branchWithSummary_def)
  qed
next
  case (step_new opts w m r w' m')
  note n = newSession_cases [OF step_new(1)]
  show ?case
  proof (cases r)
    case (Inl e)
    with n good_mono [OF step_new(2)] show ?thesis by simp
  next
    case (Inr f)
    with n have "getEntries m' = []" "m_byId m' = []" "m_leafId m' = None" "uuids w' = uuids w"
      by (auto simp: getEntries_def)
    then show ?thesis using step_new(2) by (auto simp: good_def consistent_cleared fresh_host_def fresh_supply_def)
  qed
next
  case (step_git w m r w' m')
  from step_git show ?case
    unfolding recordGitStateIfChanged_def appendGitState_def
    by (auto split: if_splits option.splits elim!: and_then_cases intro: good_append)
qed

text \<open>
  C1. Class invariant of SessionManager: in every state reachable by appends (plain, with rollback,
  child usage, labels), flushes, branching, branch summaries, git recording and new sessions, failed
  writes included, the id index agrees with the entry list, the entries form a tree in file order
  with distinct ids, and the leaf is an entry.
\<close>

theorem reachable_consistent:
  assumes "(session_step H)\<^sup>*\<^sup>* (w0, m0) (w, m)" "consistent m0" "fresh_host H w0 m0"
  shows "consistent m \<and> fresh_host H w m"
proof -
  have "good H (w, m)" using assms(1)
  proof (induction rule: rtranclp_induct2)
    case refl
    then show ?case using assms(2,3) by (simp add: good_def)
  next
    case (step w1 m1 w2 m2)
    then show ?case using good_step by blast
  qed
  then show ?thesis by (simp add: good_def)
qed

text \<open>A host for examples: its ids differ by length, no write fails, git is absent.\<close>

definition demo_host :: host where
  "demo_host = \<lparr>clock = (\<lambda>n. int n), randomUUID = (\<lambda>n. replicate (n + 9) CHR ''a''),
     uuidv7 = (\<lambda>n. replicate (n + 1) CHR ''s''), fault_of = (\<lambda>n. Fine), captureGitContext = (\<lambda>d. None),
     getDefaultSessionDir = (\<lambda>d. ''/s''), env_RLM_DEPTH = None, pwd = ''/''\<rparr>"

definition demo_world :: world where
  "demo_world = \<lparr>files = [], ticks = 0, uuids = 0, session_uuids = 0, writes = 0, notified = []\<rparr>"

definition demo_header :: session_header where
  "demo_header = \<lparr>h_version = Some 3, h_id = ''s'', h_timestamp = 0, h_cwd = ''/'', h_parentSession = None,
     h_rlmDepth = Some 0, h_git = None\<rparr>"

definition demo_manager :: manager where
  "demo_manager = \<lparr>m_sessionId = ''s'', m_sessionFile = Some ''/s/s.jsonl'', m_sessionDir = ''/s'', m_cwd = ''/'',
     m_persist = True, m_flushed = False, m_fileEntries = [Header demo_header], m_byId = [],
     m_labelsById = [], m_labelTimestampsById = [], m_leafId = None\<rparr>"

lemma demo_fresh: "fresh_supply (randomUUID demo_host) 0 {}"
  by (auto simp: fresh_supply_def demo_host_def inj_def replicate_eq_replicate)

lemma demo_good: "consistent demo_manager" "fresh_host demo_host demo_world demo_manager"
  using demo_fresh by (simp_all add: consistent_def fresh_host_def demo_manager_def demo_world_def
      getEntries_def index_entries_def)

lemma reachable_consistent_witness:
  "consistent (snd (snd (append_body demo_host (ModelChange ''p'' ''m'') demo_world demo_manager)))"
proof -
  obtain r w m where s: "append_body demo_host (ModelChange ''p'' ''m'') demo_world demo_manager = (r, w, m)"
    by (rule prod_cases3)
  have "(session_step demo_host)\<^sup>*\<^sup>* (demo_world, demo_manager) (w, m)"
    using step_append [OF s] by (rule r_into_rtranclp)
  from reachable_consistent [OF this demo_good] show ?thesis by (simp add: s)
qed

end
