(* ===== verification/Session_Durable.thy ===== *)
theory Session_Durable
  imports Session_Invariant
begin

text \<open>
  Disk against memory. \<open>durable\<close> says that when the manager believes its file is up to date, reading the
  file gives the entries in memory. A successful append keeps it, and so does an append with rollback
  whether it succeeds or fails; a plain append whose write fails does not
  (\<open>append_failure_breaks_durable\<close>).
\<close>

section \<open>The invariant\<close>

definition usage_stable :: "manager \<Rightarrow> bool" where
  "usage_stable m \<longleftrightarrow> applyChildUsageAttributions (m_fileEntries m) = m_fileEntries m
     \<and> (\<forall>a\<in>set (attributions (m_fileEntries m)). fst a \<in> ids (getEntries m))"

definition headed :: "file_entry list \<Rightarrow> bool" where
  "headed fs \<longleftrightarrow> (case fs of Header _ # _ \<Rightarrow> True | _ \<Rightarrow> False)"

definition on_disk :: "world \<Rightarrow> manager \<Rightarrow> bool" where
  "on_disk w m \<longleftrightarrow> (case map_of (files w) (the (m_sessionFile m)) of
      None \<Rightarrow> False
    | Some f \<Rightarrow> sf_tail f = NoTail \<and> finalizeLoadedEntries (parseEntriesFromBuffer f) = m_fileEntries m)"

definition durable :: "world \<Rightarrow> manager \<Rightarrow> bool" where
  "durable w m \<longleftrightarrow> usage_stable m \<and> headed (m_fileEntries m)
     \<and> (m_persist m \<and> truthy (m_sessionFile m) \<and> m_flushed m \<and> existsSync w (the (m_sessionFile m))
        \<longrightarrow> on_disk w m)"

lemma finalize_headed: "headed fs \<Longrightarrow> finalizeLoadedEntries fs = applyChildUsageAttributions fs"
  by (auto simp: headed_def finalizeLoadedEntries_def split: list.splits file_entry.splits)

lemma finalize_ne: "finalizeLoadedEntries fs \<noteq> [] \<Longrightarrow> headed fs"
  by (auto simp: headed_def finalizeLoadedEntries_def split: list.splits file_entry.splits)

lemma headed_snoc: "headed fs \<Longrightarrow> headed (fs @ gs)"
  by (auto simp: headed_def split: list.splits file_entry.splits)

lemma attribute_all_snoc:
  "\<forall>a\<in>set as. \<not> is_assistant_with (fst a) f \<Longrightarrow> attribute_all as (fs @ [f]) = attribute_all as fs @ [f]"
  by (induction as arbitrary: fs) (simp_all add: attribute_snoc)

lemma attributions_Nil [simp]: "attributions [] = []"
  by (simp add: attributions_def)

lemma attributions_one [simp]: "attributions [f] = attribution_of f"
  by (simp add: attributions_def)

lemma attributions_finalize: "headed fs \<Longrightarrow> attributions (finalizeLoadedEntries fs) = attributions fs"
  by (simp add: finalize_headed applyChildUsageAttributions_eq)

lemma not_assistant_other: "t \<noteq> e_id e \<Longrightarrow> \<not> is_assistant_with t (Entry e)"
  by (simp add: is_assistant_with_def)

text \<open>An entry whose id no attribution names, appended.\<close>

lemma apply_snoc:
  assumes "\<forall>a\<in>set (attributions fs). fst a \<noteq> e_id e"
  shows "applyChildUsageAttributions (fs @ [Entry e])
    = attribute_all (attribution_of (Entry e)) (applyChildUsageAttributions fs) @ [Entry e]"
proof -
  have "attribute_all (attributions fs) (fs @ [Entry e]) = attribute_all (attributions fs) fs @ [Entry e]"
    using assms by (intro attribute_all_snoc ballI not_assistant_other) auto
  moreover have "attribute_all (attribution_of (Entry e)) (x @ [Entry e]) = attribute_all (attribution_of (Entry e)) x @ [Entry e]"
    for x
  proof (cases "attribution_of (Entry e) = []")
    case False
    then show ?thesis using attribution_not_assistant by (intro attribute_all_snoc) blast
  qed simp
  ultimately show ?thesis by (simp add: applyChildUsageAttributions_eq)
qed

section \<open>Writing\<close>

lemma map_of_update [simp]: "map_of (AList.update k v m) k = Some v"
  by (simp add: update_conv')

lemma on_disk_rewritten:
  "usage_stable m \<Longrightarrow> headed (m_fileEntries m) \<Longrightarrow>
   map_of (files w) (the (m_sessionFile m)) = Some (file_of (m_fileEntries m)) \<Longrightarrow> on_disk w m"
  by (simp add: on_disk_def usage_stable_def finalize_headed) (simp add: file_of_def)

lemma on_disk_cong: "files w = files w' \<Longrightarrow> m_sessionFile m = m_sessionFile m' \<Longrightarrow> m_fileEntries m = m_fileEntries m' \<Longrightarrow>
   on_disk w m = on_disk w' m'"
  by (simp add: on_disk_def cong: option.case_cong)

lemma usage_stable_cong: "m_fileEntries m = m_fileEntries m' \<Longrightarrow> usage_stable m = usage_stable m'"
  by (simp add: usage_stable_def getEntries_def)

lemma rewriteFile_disk:
  assumes "rewriteFile H w m = (r, w', m')" "usage_stable m" "headed (m_fileEntries m)"
    "m_persist m" "truthy (m_sessionFile m)"
  shows "m' = m \<and> (on_disk w' m \<or> (\<exists>e. r = Inl e) \<and> files w' = files w)"
proof -
  define w1 where "w1 = w\<lparr>writes := Suc (writes w)\<rparr>"
  define w2 where "w2 = w1\<lparr>files := AList.update (the (m_sessionFile m)) (file_of (m_fileEntries m)) (files w1)\<rparr>"
  have "on_disk w2 m" using assms(2,3) by (intro on_disk_rewritten) (simp_all add: w2_def)
  moreover have "on_disk (notifyPersistListeners w2 m) m = on_disk w2 m" by (rule on_disk_cong) simp_all
  moreover have "files w1 = files w" by (simp add: w1_def)
  ultimately show ?thesis
    using assms(1,4,5) unfolding rewriteFile_def w1_def [symmetric] w2_def [symmetric] Let_def
    by (cases "fault_of H (writes w)") auto
qed

lemma durableI:
  "usage_stable m \<Longrightarrow> headed (m_fileEntries m) \<Longrightarrow>
   (m_persist m \<Longrightarrow> truthy (m_sessionFile m) \<Longrightarrow> m_flushed m \<Longrightarrow> existsSync w (the (m_sessionFile m)) \<Longrightarrow> on_disk w m)
   \<Longrightarrow> durable w m"
  by (simp add: durable_def)

lemma durable_cong:
  "files w' = files w \<Longrightarrow> m_fileEntries m' = m_fileEntries m \<Longrightarrow> m_persist m' = m_persist m \<Longrightarrow>
   m_sessionFile m' = m_sessionFile m \<Longrightarrow> m_flushed m' = m_flushed m \<Longrightarrow> durable w' m' = durable w m"
  by (simp add: durable_def existsSync_def on_disk_def usage_stable_def getEntries_def cong: option.case_cong)

lemma flushNow_durable:
  assumes "flushNow H w m = (r, w', m')" "durable w m"
  shows "(case r of
      Inl _ \<Rightarrow> m' = m \<and> (m_flushed m = False \<or> durable w' m')
    | Inr _ \<Rightarrow> durable w' m' \<and> (m_persist m \<and> truthy (m_sessionFile m) \<longrightarrow> m_flushed m' \<and> on_disk w' m'))"
proof -
  have us: "usage_stable m" "headed (m_fileEntries m)" using assms(2) by (simp_all add: durable_def)
  show ?thesis
  proof (cases "m_persist m \<and> truthy (m_sessionFile m) \<and> \<not> (m_flushed m \<and> existsSync w (the (m_sessionFile m)))")
    case False
    then have "r = Inr ()" "w' = w" "m' = m" using assms(1) by (auto simp: flushNow_def split: if_splits)
    with False assms(2) show ?thesis by (auto simp: durable_def)
  next
    case True
    obtain r1 w1 m1 where rw: "rewriteFile H w m = (r1, w1, m1)" by (rule prod_cases3)
    from rewriteFile_disk [OF rw us] True
    have m1: "m1 = m" "on_disk w1 m \<or> (\<exists>e. r1 = Inl e) \<and> files w1 = files w" by auto
    have fl: "flushNow H w m = and_then (r1, w1, m) (\<lambda>_ w m. (Inr (), w, m\<lparr>m_flushed := True\<rparr>))"
      using True m1 by (auto simp: flushNow_def rw)
    have od: "on_disk w1 (m\<lparr>m_flushed := True\<rparr>) = on_disk w1 m" by (rule on_disk_cong) simp_all
    have us': "usage_stable (m\<lparr>m_flushed := True\<rparr>)" using us(1) usage_stable_cong [of "m\<lparr>m_flushed := True\<rparr>" m] by simp
    show ?thesis
    proof (cases r1)
      case (Inl e)
      then have "r = Inl e" "w' = w1" "m' = m" using assms(1) fl by simp_all
      moreover have "m_flushed m \<Longrightarrow> durable w1 m"
        using m1(2) True us by (auto intro!: durableI simp: existsSync_def)
      ultimately show ?thesis by auto
    next
      case (Inr u)
      then have res: "r = Inr ()" "w' = w1" "m' = m\<lparr>m_flushed := True\<rparr>" using assms(1) fl by simp_all
      have "on_disk w1 (m\<lparr>m_flushed := True\<rparr>)" using od m1(2) Inr by auto
      then show ?thesis using res us us' by (auto intro!: durableI)
    qed
  qed
qed

section \<open>Appending\<close>

lemma attribution_of_short: "attribution_of f = [] \<or> (\<exists>a. attribution_of f = [a])"
  by (cases f) (auto split: entry_body.splits)

declare attribution_of.simps [simp del]

lemma apply_push:
  assumes "applyChildUsageAttributions fs = fs" "\<forall>a\<in>set (attributions fs). fst a \<noteq> e_id e"
    "as = attribution_of (Entry e)"
  shows "applyChildUsageAttributions (attribute_all as fs @ [Entry e]) = attribute_all as fs @ [Entry e]"
proof -
  have "attribute_all as (attribute_all (attributions fs) (attribute_all as fs)) = attribute_all as fs"
    using attribution_of_short [of "Entry e"] assms(1,3)
    by (auto simp: applyChildUsageAttributions_eq attribute_around)
  moreover have "\<forall>a\<in>set (attributions (attribute_all as fs)). fst a \<noteq> e_id e" using assms(2) by simp
  ultimately show ?thesis unfolding assms(3) by (simp only: apply_snoc) (simp add: applyChildUsageAttributions_eq)
qed

lemma parse_append_line: "sf_tail f = NoTail \<Longrightarrow>
  sf_tail (append_line f e) = NoTail \<and> parseEntriesFromBuffer (append_line f e) = parseEntriesFromBuffer f @ [e]"
  by (simp add: append_line_def parseEntriesFromBuffer_def parse_line_def parse_tail_def)

lemma ids_attribute_all [simp]: "map e_id (entries_of (attribute_all as fs)) = map e_id (entries_of fs)"
  by (induction as arbitrary: fs) simp_all

text \<open>
  The manager \<open>m1\<close> is \<open>m\<close> with the attribution of the entry, if any, applied to its list and the entry
  appended, as every append makes it before the entry is persisted.
\<close>

definition pushed :: "session_entry \<Rightarrow> manager \<Rightarrow> manager \<Rightarrow> bool" where
  "pushed e m m1 \<longleftrightarrow> m_fileEntries m1 = attribute_all (attribution_of (Entry e)) (m_fileEntries m) @ [Entry e]
     \<and> m_sessionFile m1 = m_sessionFile m \<and> m_persist m1 = m_persist m \<and> m_flushed m1 = m_flushed m"

lemma pushed_stable:
  assumes "durable w m" "pushed e m m1" "e_id e \<notin> ids (getEntries m)"
    "\<forall>a\<in>set (attribution_of (Entry e)). fst a \<in> ids (getEntries m)"
  shows "usage_stable m1" "headed (m_fileEntries m1)"
proof -
  have st: "applyChildUsageAttributions (m_fileEntries m) = m_fileEntries m" "headed (m_fileEntries m)"
    and tg: "\<forall>a\<in>set (attributions (m_fileEntries m)). fst a \<in> ids (getEntries m)"
    using assms(1) by (simp_all add: durable_def usage_stable_def)
  have fe: "m_fileEntries m1 = attribute_all (attribution_of (Entry e)) (m_fileEntries m) @ [Entry e]"
    using assms(2) by (simp add: pushed_def)
  have ne: "\<forall>a\<in>set (attributions (m_fileEntries m)). fst a \<noteq> e_id e" using tg assms(3) by metis
  have "set (map e_id (getEntries m1)) = insert (e_id e) (set (map e_id (getEntries m)))"
    unfolding getEntries_def fe entries_of_simps map_append set_append ids_attribute_all by simp
  then have "ids (getEntries m1) = insert (e_id e) (ids (getEntries m))" by simp
  then show "usage_stable m1"
    using apply_push [OF st(1) ne refl] tg assms(4) unfolding usage_stable_def fe by auto
  have "headed (attribute_all as fs) = headed fs" for as fs
  proof -
    have "(\<forall>x u. is_assistant_with t x \<longrightarrow> \<not> headed [x])" for t
      by (auto simp: headed_def is_assistant_with_def split: file_entry.splits)
    have h: "headed fs = (case map (\<lambda>f. case f of Header _ \<Rightarrow> True | Entry _ \<Rightarrow> False) fs of b # _ \<Rightarrow> b | [] \<Rightarrow> False)"
      for fs by (cases fs) (auto simp: headed_def split: file_entry.splits)
    have "headed (attribute a fs) = headed fs" for a fs
      unfolding h by (subst map_attribute) (auto split: file_entry.split)
    then show ?thesis by (induction as arbitrary: fs) simp_all
  qed
  then show "headed (m_fileEntries m1)" unfolding fe by (intro headed_snoc) (simp add: st)
qed

lemma durable_push:
  assumes "durable w m" "pushed e m m1" "e_id e \<notin> ids (getEntries m)"
    "\<forall>a\<in>set (attribution_of (Entry e)). fst a \<in> ids (getEntries m)"
    "persistEntry H e w m1 = (Inr u, w', m')"
  shows "durable w' m'"
proof -
  note st = pushed_stable [OF assms(1-4)]
  have fields: "m_sessionFile m1 = m_sessionFile m" "m_persist m1 = m_persist m" "m_flushed m1 = m_flushed m"
    and fe: "m_fileEntries m1 = attribute_all (attribution_of (Entry e)) (m_fileEntries m) @ [Entry e]"
    using assms(2) by (simp_all add: pushed_def)
  have us: "usage_stable (m1\<lparr>m_flushed := b\<rparr>)" for b using st(1) usage_stable_cong [of "m1\<lparr>m_flushed := b\<rparr>" m1] by simp
  consider (memory) "\<not> m_persist m1 \<or> \<not> truthy (m_sessionFile m1)"
    | (later) "m_persist m1 \<and> truthy (m_sessionFile m1)" "\<not> has_assistant (m_fileEntries m1) \<and> \<not> persist_always e"
    | (rewrite) "m_persist m1 \<and> truthy (m_sessionFile m1)" "\<not> (\<not> has_assistant (m_fileEntries m1) \<and> \<not> persist_always e)"
        "\<not> m_flushed m1 \<or> \<not> existsSync w (the (m_sessionFile m1))"
    | (append) "m_persist m1 \<and> truthy (m_sessionFile m1)" "\<not> (\<not> has_assistant (m_fileEntries m1) \<and> \<not> persist_always e)"
        "m_flushed m1 \<and> existsSync w (the (m_sessionFile m1))"
    by blast
  then show ?thesis
  proof cases
    case memory
    then have "m' = m1" using assms(5) by (simp add: persistEntry_def)
    then show ?thesis using memory st by (auto intro!: durableI)
  next
    case later
    then have "m' = m1\<lparr>m_flushed := False\<rparr>" using assms(5) by (simp add: persistEntry_def)
    then show ?thesis using st us by (auto intro!: durableI)
  next
    case rewrite
    obtain r1 w1 m2 where rw: "rewriteFile H w m1 = (r1, w1, m2)" by (rule prod_cases3)
    have "and_then (r1, w1, m2) (\<lambda>_ w m. (Inr (), w, m\<lparr>m_flushed := True\<rparr>)) = (Inr u, w', m')"
      using assms(5) rewrite by (simp add: persistEntry_def rw)
    then have r: "r1 = Inr ()" "w' = w1" "m' = m2\<lparr>m_flushed := True\<rparr>" by (cases r1; simp)+
    from rewriteFile_disk [OF rw st] rewrite(1) r(1) have "m2 = m1" "on_disk w1 m1" by auto
    moreover have "on_disk w1 (m1\<lparr>m_flushed := True\<rparr>) = on_disk w1 m1" by (rule on_disk_cong) simp_all
    ultimately show ?thesis using r us st(2) by (auto intro!: durableI)
  next
    case append
    let ?p = "the (m_sessionFile m1)"
    have "on_disk w m" using assms(1) append fields by (simp add: durable_def)
    then obtain f where f: "map_of (files w) ?p = Some f" "sf_tail f = NoTail"
      "finalizeLoadedEntries (parseEntriesFromBuffer f) = m_fileEntries m"
      unfolding on_disk_def fields by (auto split: option.splits)
    let ?raw = "parseEntriesFromBuffer f"
    have hd: "headed ?raw" using f(3) assms(1) by (intro finalize_ne) (auto simp: durable_def headed_def)
    have raw: "applyChildUsageAttributions ?raw = m_fileEntries m" "attributions ?raw = attributions (m_fileEntries m)"
      using f(3) finalize_headed [OF hd] attributions_finalize [OF hd] by simp_all
    have ne: "\<forall>a\<in>set (attributions ?raw). fst a \<noteq> e_id e"
      using assms(1,3) unfolding raw(2) durable_def usage_stable_def by metis
    have full: "finalizeLoadedEntries (?raw @ [Entry e]) = m_fileEntries m1"
      using finalize_headed [OF headed_snoc [OF hd]] apply_snoc [OF ne] raw(1) fe by simp
    define w1 where "w1 = w\<lparr>writes := Suc (writes w), files := AList.update ?p (append_line f (Entry e)) (files w)\<rparr>"
    have ok: "fault_of H (writes w) = Fine"
      using assms(5) append unfolding persistEntry_def appendFileSync_def
      by (cases "fault_of H (writes w)") (simp_all add: Let_def)
    then have r: "w' = notifyPersistListeners w1 m1" "m' = m1"
      using assms(5) append f(1) by (auto simp: persistEntry_def appendFileSync_def Let_def w1_def)
    have "on_disk w1 m1"
      using parse_append_line [OF f(2), of "Entry e"] full by (simp add: on_disk_def w1_def)
    moreover have "on_disk (notifyPersistListeners w1 m1) m1 = on_disk w1 m1" by (rule on_disk_cong) simp_all
    ultimately show ?thesis using r st by (auto intro!: durableI)
  qed
qed

section \<open>The operations\<close>

lemma pushed_append_body:
  assumes "attribution_of (Entry e) = []"
  shows "pushed e m (push_entry e m)"
  using assms by (simp add: pushed_def)

lemma append_body_durable:
  assumes "consistent m" "fresh_host H w m" "durable w m"
    "\<And>t c a og. b \<noteq> ChildUsageAttributed t c a og" "append_body H b w m = (Inr i, w', m')"
  shows "durable w' m'"
proof -
  from assms(5) obtain e w1 where e: "new_entry H b w m = (e, w1)"
    "persistEntry H e w1 (push_entry e m) = (Inr (), w', m')"
    by (rule append_body_cases) auto
  note ne = new_entry_fields [OF e(1)]
  then have w1: "durable w1 m" using assms(3) durable_cong [of w1 w m m] by simp
  have at: "attribution_of (Entry e) = []"
    using assms(4) ne by (auto simp: attribution_of.simps split: entry_body.split)
  show ?thesis
    using durable_push [OF w1 pushed_append_body [OF at] new_entry_fresh(1) [OF assms(1,2) e(1)] _ e(2)] at
    by simp
qed

lemma attribution_durable:
  assumes "consistent m" "fresh_host H w m" "durable w m"
    "appendChildUsageAttribution H t c a og w m = (Inr i, w', m')"
  shows "durable w' m'"
proof -
  let ?m = "mutate_usage t a m" and ?b = "ChildUsageAttributed t c a (if truthy og then og else None)"
  obtain x where x: "map_of (m_byId m) t = Some x" "is_assistant_entry x"
    using assms(4) by (auto simp: appendChildUsageAttribution_def split: option.splits if_splits)
  have ap: "append_body H ?b w ?m = (Inr i, w', m')"
    using assms(4) x by (simp add: appendChildUsageAttribution_def)
  have tin: "t \<in> ids (getEntries m)"
    using x(1) index_lookup_None [of "getEntries m" t] unfolding consistent_index [OF assms(1)] by simp
  have fr: "fresh_host H w ?m" using assms(2) by (simp add: fresh_host_def ids_mutate consistent_tree [OF assms(1)])
  note co = consistent_mutate [OF assms(1) x, of a]
  from ap obtain e w1 where e: "new_entry H ?b w ?m = (e, w1)"
    "persistEntry H e w1 (push_entry e ?m) = (Inr (), w', m')"
    by (rule append_body_cases) auto
  note ne = new_entry_fields [OF e(1)]
  then have w1: "durable w1 m" using assms(3) durable_cong [of w1 w m m] by simp
  have at: "attribution_of (Entry e) = [(t, a)]" using ne by (simp add: attribution_of.simps)
  have pu: "pushed e m (push_entry e ?m)"
    unfolding pushed_def at by (simp add: attribute_def) (simp add: mutate_usage_def)
  have "e_id e \<notin> ids (getEntries m)"
    using new_entry_fresh(1) [OF co fr e(1)] by (simp add: ids_mutate consistent_tree [OF assms(1)])
  from durable_push [OF w1 pu this _ e(2)] show ?thesis using at tin by simp
qed

text \<open>
  C2. After a message or a child usage attribution is appended without a throw, reading the session
  file back gives the entries in memory whenever the manager believes the file is up to date
  (deferred writes, rewrites and line appends included).
\<close>

theorem append_keeps_disk:
  assumes "consistent m" "fresh_host H w m" "durable w m"
    and "appendMessage H msg w m = (Inr i, w', m')
      \<or> appendChildUsageAttribution H t c a og w m = (Inr i, w', m')"
  shows "durable w' m'"
  using assms(4) append_body_durable [OF assms(1-3)] attribution_durable [OF assms(1-3)]
  unfolding appendMessage_def by blast

lemma durable_same_session:
  assumes "durable w m" "same_session m m'" "\<not> m_flushed m'"
  shows "durable w' m'"
  using assms usage_stable_cong [of m' m] by (intro durableI) (simp_all add: durable_def same_session_def)

lemma rollback_durable:
  assumes "consistent m" "fresh_host H w m" "durable w m" "\<And>t c a og. b \<noteq> ChildUsageAttributed t c a og"
    "appendEntryWithRollback H (append_body H b) w m = (r, w', m')"
  shows "durable w' m' \<and> (case r of Inl _ \<Rightarrow> same_session m m'
    | Inr i \<Rightarrow> m_leafId m' = Some i \<and> (m_persist m' \<and> truthy (m_sessionFile m') \<longrightarrow> on_disk w' m'))"
  using assms(1,2,5)
proof (cases rule: append_with_rollback_cases)
  case (kept e w1 w2 m2)
  have "durable w2 m2" using append_body_durable [OF assms(1-4) kept(3)] .
  from flushNow_durable [OF kept(4) this] have "durable w' m'"
    "m_persist m2 \<and> truthy (m_sessionFile m2) \<longrightarrow> on_disk w' m'" by simp_all
  moreover have "same_memory m2 m'" using flushNow_frame [OF kept(4)] by simp
  ultimately show ?thesis
    using kept(1) same_memory_fields [OF kept(2)] same_memory_fields [of m2 m'] by simp
next
  case (undone err e w1 w2 m2)
  have new: "e_id e \<notin> fst ` set (m_byId m)" "m_leafId m \<noteq> Some (e_id e)"
    using new_entry_fresh(1) [OF assms(1,2) undone(4)] assms(1)
    by (auto simp: consistent_def index_keys)
  from rollback_push(4) [OF new undone(6,3)] obtain m1 where m1: "\<not> m_flushed m1" "same_session m m1"
    "(\<exists>x. flushNow H w2 m1 = (Inr x, w', m')) \<or> (\<exists>x m3. flushNow H w2 m1 = (Inl x, w', m3)) \<and> m_flushed m' = False"
    by auto
  have "durable w' m'"
    using m1(3)
  proof (elim disjE exE conjE)
    fix x assume "flushNow H w2 m1 = (Inr x, w', m')"
    from flushNow_durable [OF this durable_same_session [OF assms(3) m1(2,1)]] show ?thesis by simp
  next
    assume "m_flushed m' = False"
    then show ?thesis using durable_same_session [OF assms(3) undone(2)] by simp
  qed
  with undone(1,2) show ?thesis by simp
qed

text \<open>
  C3. An append with rollback either succeeds with the new entry as leaf and the file, if any,
  holding the memory, or throws and leaves entries, index, leaf and labels as they were; in both
  cases, whatever writes fail, a file believed up to date reads back as the memory.
\<close>

theorem rollback_restores:
  assumes "consistent m" "fresh_host H w m" "durable w m"
    "appendCustomMessageEntryWithRollback H ct content disp det w m = (r, w', m')"
  shows "durable w' m' \<and> (case r of Inl _ \<Rightarrow> same_session m m'
    | Inr i \<Rightarrow> m_leafId m' = Some i \<and> (m_persist m' \<and> truthy (m_sessionFile m') \<longrightarrow> on_disk w' m'))"
  using rollback_durable [OF assms(1-3)] assms(4)
  unfolding appendCustomMessageEntryWithRollback_def appendCustomMessageEntry_def by blast

text \<open>
  Without rollback a failed write leaves the entry in memory only, with the file still believed to be
  up to date.
\<close>

definition failing_host :: host where
  "failing_host = demo_host\<lparr>fault_of := (\<lambda>n. FailNone)\<rparr>"

definition demo_user :: agent_message where
  "demo_user = UserMessage (StrContent ''hi'') 0"

definition saved_manager :: manager where
  "saved_manager = demo_manager\<lparr>m_flushed := True\<rparr>"

definition saved_world :: world where
  "saved_world = demo_world\<lparr>files := [(''/s/s.jsonl'', file_of [Header demo_header])]\<rparr>"

lemma saved_durable: "durable saved_world saved_manager"
  by (simp add: durable_def usage_stable_def headed_def on_disk_def saved_world_def saved_manager_def
      demo_manager_def applyChildUsageAttributions_def finalizeLoadedEntries_def attributions_def
      attribution_of.simps existsSync_def) (simp add: file_of_def)

lemma saved_good: "consistent saved_manager" "fresh_host failing_host saved_world saved_manager"
    "fresh_host demo_host saved_world saved_manager"
  using demo_fresh by (simp_all add: consistent_def fresh_host_def saved_manager_def saved_world_def demo_manager_def
      demo_world_def failing_host_def getEntries_def index_entries_def)

text \<open>
  A plain append whose write fails leaves the entry in memory only while the manager still
  believes the file is up to date: reading the file back gives the old entries.
\<close>

theorem append_failure_breaks_durable:
  "case appendSessionInfo failing_host ''x'' saved_world saved_manager of (r, w', m') \<Rightarrow>
     isl r \<and> m_flushed m' \<and> \<not> durable w' m' \<and> length (getEntries m') = 1
     \<and> finalizeLoadedEntries (parseEntriesFromBuffer (the (map_of (files w') (the (m_sessionFile m')))))
         = [Header demo_header]"
proof -
  have g: "generateId (\<lambda>i. map_of (m_byId saved_manager) i \<noteq> None) (randomUUID failing_host) (uuids saved_world)
      = (''aaaaaaaa'', 1)"
    by (simp add: generateId_def saved_manager_def demo_manager_def failing_host_def demo_host_def saved_world_def
        demo_world_def numeral_eq_Suc)
  define e where "e = \<lparr>e_id = ''aaaaaaaa'', e_parentId = None, e_timestamp = 0, e_body = SessionInfo (Some ''x'')\<rparr>"
  define w1 where "w1 = saved_world\<lparr>uuids := 1, ticks := 1\<rparr>"
  have t: "trim ''x'' = ''x''" by code_simp
  have n: "new_entry failing_host (SessionInfo (Some ''x'')) saved_world saved_manager = (e, w1)"
    unfolding new_entry_def g
    by (simp add: e_def w1_def saved_manager_def demo_manager_def failing_host_def demo_host_def saved_world_def demo_world_def)
  have p: "appendEntry failing_host e w1 saved_manager = (Inl io_error, w1\<lparr>writes := 1\<rparr>, push_entry e saved_manager)"
    by (simp add: appendEntry_def persistEntry_def appendFileSync_def existsSync_def persist_always_def e_def w1_def
        saved_world_def demo_world_def saved_manager_def demo_manager_def failing_host_def push_entry_def Let_def)
  have r: "appendSessionInfo failing_host ''x'' saved_world saved_manager
      = (Inl io_error, w1\<lparr>writes := 1\<rparr>, push_entry e saved_manager)"
    unfolding appendSessionInfo_def append_body_def t n by (simp add: p)
  have l: "finalizeLoadedEntries (parseEntriesFromBuffer (the (map_of (files (w1\<lparr>writes := 1\<rparr>))
      (the (m_sessionFile (push_entry e saved_manager)))))) = [Header demo_header]"
    by (simp add: w1_def saved_world_def saved_manager_def demo_manager_def finalizeLoadedEntries_def
        applyChildUsageAttributions_def)
  have f: "m_fileEntries (push_entry e saved_manager) = [Header demo_header, Entry e]"
    by (simp add: saved_manager_def demo_manager_def)
  have ex: "existsSync (w1\<lparr>writes := 1\<rparr>) ''/s/s.jsonl''"
    by (simp add: existsSync_def w1_def saved_world_def)
  have "\<not> on_disk (w1\<lparr>writes := 1\<rparr>) (push_entry e saved_manager)"
    unfolding on_disk_def f using l by (auto split: option.splits)
  then have "\<not> durable (w1\<lparr>writes := 1\<rparr>) (push_entry e saved_manager)"
    using ex by (simp add: durable_def) (simp add: saved_manager_def demo_manager_def)
  then show ?thesis unfolding r prod.case using l
    by (simp add: getEntries_def f) (simp add: saved_manager_def demo_manager_def)
qed

section \<open>Reading back\<close>

lemma buildIndex_fields:
  "m_byId (buildIndex m) = index_entries (getEntries m)"
  "m_leafId (buildIndex m) = (if getEntries m = [] then None else Some (e_id (last (getEntries m))))"
  "m_fileEntries (buildIndex m) = m_fileEntries m" "m_sessionFile (buildIndex m) = m_sessionFile m"
  "m_persist (buildIndex m) = m_persist m" "m_sessionId (buildIndex m) = m_sessionId m"
proof -
  define step where "step = foldl index_step (clear_index m)"
  have f: "m_byId (step es) = index_entries es"
    "m_leafId (step es) = (if es = [] then None else Some (e_id (last es)))"
    "m_fileEntries (step es) = m_fileEntries m" "m_sessionFile (step es) = m_sessionFile m"
    "m_persist (step es) = m_persist m" "m_sessionId (step es) = m_sessionId m" for es
    by (induction es rule: rev_induct)
       (auto simp: step_def clear_index_def index_entries_def Let_def split: entry_body.split)
  from f show "m_byId (buildIndex m) = index_entries (getEntries m)"
  "m_leafId (buildIndex m) = (if getEntries m = [] then None else Some (e_id (last (getEntries m))))"
  "m_fileEntries (buildIndex m) = m_fileEntries m" "m_sessionFile (buildIndex m) = m_sessionFile m"
  "m_persist (buildIndex m) = m_persist m" "m_sessionId (buildIndex m) = m_sessionId m"
    by (simp_all add: buildIndex_def step_def getEntries_def)
qed

text \<open>
  C4. Opening the file of a flushed session gives back the same entries and the same index, in a
  consistent manager whose leaf is the last entry of the file.
\<close>

theorem reload_roundtrip:
  assumes "consistent m" "durable w m" "m_persist m" "m_flushed m"
    "m_sessionFile m = Some p" "p \<noteq> []" "resolve (pwd H) p = p" "existsSync w p"
    "header_of (m_fileEntries m) = Some h" "h_version h = Some CURRENT_SESSION_VERSION"
    "truthy (h_parentSession h) \<Longrightarrow> isValidRlmDepth (h_rlmDepth h)"
  shows "\<exists>m'. setSessionFile H p None w m0 = (Inr (), w, m') \<and> m_fileEntries m' = m_fileEntries m
    \<and> m_byId m' = m_byId m \<and> m_flushed m' \<and> consistent m' \<and> m_sessionId m' = h_id h
    \<and> m_leafId m' = (if getEntries m = [] then None else Some (e_id (last (getEntries m))))"
proof -
  have "on_disk w m" using assms by (simp add: durable_def)
  then have load: "loadEntriesFromFile (files w) p = m_fileEntries m"
    using assms(5) by (auto simp: on_disk_def loadEntriesFromFile_def split: option.splits)
  have ne: "m_fileEntries m \<noteq> []" using assms(9) by auto
  have mig: "migrateToCurrentVersion (randomUUID H) (m_fileEntries m) (uuids w) = (False, m_fileEntries m, uuids w)"
    using assms(9,10) by (simp add: migrateToCurrentVersion_def file_version_def)
  define m2 where "m2 = m0\<lparr>m_sessionFile := Some p, m_fileEntries := m_fileEntries m\<rparr>"
  define m3 where "m3 = m2\<lparr>m_sessionId := h_id h, m_fileEntries := m_fileEntries m\<rparr>"
  have leg: "\<not> (truthy (h_parentSession h) \<and> \<not> isValidRlmDepth (h_rlmDepth h))" using assms(11) by blast
  have "load_session H p (m_fileEntries m) w m2 = (Inr (), w\<lparr>uuids := uuids w\<rparr>, (buildIndex m3)\<lparr>m_flushed := True\<rparr>)"
    using leg by (cases "truthy (h_parentSession h)") (simp_all add: load_session_def assms(9) mig Let_def m3_def)
  then have load2: "load_session H p (m_fileEntries m) w m2 = (Inr (), w, (buildIndex m3)\<lparr>m_flushed := True\<rparr>)"
    by simp
  let ?m = "(buildIndex m3)\<lparr>m_flushed := True\<rparr>"
  have run: "setSessionFile H p None w m0 = (Inr (), w, ?m)"
    unfolding setSessionFile_def Let_def assms(7) using assms(8) ne load load2 by (simp add: m2_def)
  have ge: "getEntries m3 = getEntries m" by (simp add: getEntries_def m3_def)
  have fe: "m_fileEntries m3 = m_fileEntries m" "m_sessionId m3 = h_id h" by (simp_all add: m3_def)
  have ge2: "getEntries ?m = getEntries m" by (simp add: getEntries_def buildIndex_fields fe)
  have by_id: "m_byId ?m = index_entries (getEntries m)" by (simp add: buildIndex_fields ge)
  have leaf: "m_leafId ?m = (if getEntries m = [] then None else Some (e_id (last (getEntries m))))"
    by (simp add: buildIndex_fields ge)
  have "consistent ?m"
    using by_id leaf consistent_tree [OF assms(1)] by (intro consistentI) (simp_all add: ge2)
  then show ?thesis
    using run by_id leaf consistent_index [OF assms(1)] by (intro exI [of _ ?m]) (simp add: buildIndex_fields fe)
qed

section \<open>A host whose writes succeed\<close>

lemma fault_free_persist:
  assumes "\<forall>n. fault_of H n = Fine"
  shows "fst (persistEntry H e w m) = Inr ()"
  using assms by (simp add: persistEntry_def rewriteFile_def appendFileSync_def Let_def)

lemma fault_free_append:
  assumes "\<forall>n. fault_of H n = Fine"
  obtains i w' m' where "append_body H b w m = (Inr i, w', m')"
proof -
  obtain r w' m' where run: "append_body H b w m = (r, w', m')" by (rule prod_cases3)
  then obtain i where "r = Inr i"
    by (rule append_body_cases) (use fault_free_persist [OF assms] in \<open>metis fst_conv sum.distinct(1)\<close>)
  with run that show thesis by blast
qed

lemma demo_fault_free: "\<forall>n. fault_of demo_host n = Fine"
  by (simp add: demo_host_def)

lemma append_keeps_disk_witness:
  "\<exists>i w' m'. appendMessage demo_host demo_user saved_world saved_manager = (Inr i, w', m') \<and> durable w' m'"
proof -
  obtain i w' m' where run: "appendMessage demo_host demo_user saved_world saved_manager = (Inr i, w', m')"
    unfolding appendMessage_def by (rule fault_free_append [OF demo_fault_free])
  from append_keeps_disk [OF saved_good(1,3) saved_durable disjI1 [OF run]] run show ?thesis by blast
qed

lemma rollback_restores_witness:
  "\<exists>r w' m'. appendCustomMessageEntryWithRollback failing_host ''t'' (StrContent ''c'') True None saved_world saved_manager
     = (r, w', m') \<and> durable w' m'"
proof -
  obtain r w' m' where run: "appendCustomMessageEntryWithRollback failing_host ''t'' (StrContent ''c'') True None
      saved_world saved_manager = (r, w', m')" by (rule prod_cases3)
  from rollback_restores [OF saved_good(1,2) saved_durable run] run show ?thesis by blast
qed

lemma reload_roundtrip_witness:
  "\<exists>m'. setSessionFile demo_host ''/s/s.jsonl'' None saved_world demo_manager = (Inr (), saved_world, m')
     \<and> m_fileEntries m' = [Header demo_header]"
proof -
  have p: "resolve (pwd demo_host) ''/s/s.jsonl'' = ''/s/s.jsonl''"
    by (simp add: demo_host_def) code_simp
  have "m_persist saved_manager" "m_flushed saved_manager" "m_sessionFile saved_manager = Some ''/s/s.jsonl''"
    "''/s/s.jsonl'' \<noteq> []" "existsSync saved_world ''/s/s.jsonl''"
    "header_of (m_fileEntries saved_manager) = Some demo_header"
    "h_version demo_header = Some CURRENT_SESSION_VERSION"
    "truthy (h_parentSession demo_header) \<Longrightarrow> isValidRlmDepth (h_rlmDepth demo_header)"
    by (simp_all add: saved_manager_def demo_manager_def existsSync_def saved_world_def demo_header_def
        CURRENT_SESSION_VERSION_def)
  from reload_roundtrip [OF saved_good(1) saved_durable this(1-4) p this(5-8), of demo_manager]
  show ?thesis by (auto simp: saved_manager_def demo_manager_def)
qed

end
