(* ===== verification/Session_Context.thy ===== *)
theory Session_Context
  imports Session_Durable
begin

text \<open>
  The context of the model and the branches of the tree: what a manager operation does to the message
  list, that the walks return, and that copying a branch into a new session keeps its context.
\<close>

section \<open>The active branch\<close>

lemma subseq_set: "subseq xs ys \<Longrightarrow> set xs \<subseteq> set ys"
  by (induction rule: list_emb.induct) auto

lemma consistent_lookup:
  assumes "consistent m" "i \<in> ids (getEntries m)"
  obtains e where "map_of (m_byId m) i = Some e" "e \<in> set (getEntries m)" "e_id e = i" "i \<noteq> []"
proof -
  from assms(2) obtain e where e: "e \<in> set (getEntries m)" "e_id e = i" by auto
  have "map_of (m_byId m) i = Some e"
    using index_lookup [OF wf_tree_distinct [OF consistent_tree [OF assms(1)]] e(1)] e(2)
    by (simp add: consistent_index [OF assms(1)])
  with e wf_tree_nonempty_id [OF consistent_tree [OF assms(1)] e(1)] that show thesis by simp
qed

text \<open>The path of the active branch.\<close>

lemma active_path:
  assumes "consistent m"
  obtains q where "getBranch m None = Some q" "is_path (m_byId m) None q" "subseq q (getEntries m)"
    "q = [] \<longleftrightarrow> m_leafId m = None" "m_leafId m \<noteq> None \<Longrightarrow> m_leafId m = Some (e_id (last q))"
    "map_option sc_messages (manager_context m) = Some (sc_messages (path_context q))"
proof (cases "m_leafId m")
  case None
  then have "getBranch m None = Some []" by (simp add: getBranch_def leaf_entry_def)
  moreover have "map_option sc_messages (manager_context m) = Some (sc_messages (path_context []))"
    using None by (simp add: manager_context_def buildSessionContext_def empty_context_def
        path_context_def path_messages_def)
  ultimately show thesis using None that [of "[]"] by simp
next
  case (Some l)
  then have "l \<in> ids (getEntries m)" using assms by (simp add: consistent_def)
  from consistent_lookup [OF assms this] obtain e where e: "map_of (m_byId m) l = Some e"
    "e \<in> set (getEntries m)" "e_id e = l" "l \<noteq> []" by blast
  from wf_walk [OF consistent_tree [OF assms] e(2)] obtain q where
    q: "\<And>acc. walk (index_entries (getEntries m)) (Some e) acc = Some (q @ rev acc)"
      "q \<noteq> []" "last q = e" "is_path (index_entries (getEntries m)) None q" "subseq q (getEntries m)" by blast
  have w: "walk (m_byId m) (Some e) [] = Some q" using q(1) [of "[]"] by (simp add: consistent_index [OF assms])
  have "getBranch m None = Some q" using Some e w by (simp add: getBranch_def leaf_entry_def)
  moreover have "manager_context m = Some (path_context q)"
    using Some e w by (simp add: manager_context_def buildSessionContext_def)
  ultimately show thesis using Some e q that [of q] by (simp add: consistent_index [OF assms])
qed

lemma active_path_push:
  assumes "consistent m" "e_id e \<notin> ids (getEntries m)" "e_id e \<noteq> []" "e_parentId e = m_leafId m"
    "getBranch m None = Some q"
  shows "getBranch (push_entry e m) None = Some (q @ [e])"
proof -
  note c = consistent_push [OF assms(1-4)]
  have tr: "wf_tree (getEntries m)" "wf_tree (getEntries m @ [e])"
    using consistent_tree [OF assms(1)] consistent_tree [OF c] by simp_all
  have byId: "m_byId (push_entry e m) = index_entries (getEntries m @ [e])"
    using consistent_index [OF c] by simp
  have le: "map_of (m_byId (push_entry e m)) (e_id e) = Some e" by simp
  have start: "getBranch (push_entry e m) None = walk (m_byId (push_entry e m)) (Some e) []"
    using assms(3) le by (simp add: getBranch_def leaf_entry_def)
  show ?thesis
  proof (cases "m_leafId m")
    case None
    then have "parent_entry (m_byId (push_entry e m)) e = None" using assms(4) by (simp add: parent_entry_def)
    moreover have "q = []" using None assms(5) by (simp add: getBranch_def leaf_entry_def)
    ultimately show ?thesis unfolding start by (simp add: walk_Some del: push_entry_fields)
  next
    case (Some l)
    then have "l \<in> ids (getEntries m)" using assms(1) by (simp add: consistent_def)
    from consistent_lookup [OF assms(1) this] obtain x where x: "map_of (m_byId m) l = Some x"
      "x \<in> set (getEntries m)" "e_id x = l" "l \<noteq> []" by blast
    have "walk (index_entries (getEntries m)) (Some x) [] = Some q"
      using assms(5) Some x by (simp add: getBranch_def leaf_entry_def consistent_index [OF assms(1)])
    from walk_snoc [OF tr x(2) this] have w: "walk (m_byId (push_entry e m)) (Some x) acc = Some (q @ rev acc)" for acc
      unfolding byId by simp
    have "l \<noteq> e_id e" using assms(2) x(2,3) by (metis image_eqI)
    then have "parent_entry (m_byId (push_entry e m)) e = Some x"
      using assms(4) Some x by (simp add: parent_entry_def update_conv')
    then have "walk (m_byId (push_entry e m)) (Some e) [] = walk (m_byId (push_entry e m)) (Some x) [e]"
      by (subst walk_Some) simp
    then show ?thesis unfolding start w by simp
  qed
qed

lemma context_of_path:
  assumes "consistent m" "getBranch m None = Some q"
  shows "map_option sc_messages (manager_context m) = Some (sc_messages (path_context q))"
  using active_path [OF assms(1)] assms(2) by (metis option.inject)

lemma getBranch_same_memory: "same_memory m m' \<Longrightarrow> getBranch m' i = getBranch m i"
  by (simp add: getBranch_def leaf_entry_def same_memory_fields [of m m'] cong: option.case_cong)

text \<open>The branch after an append, whether or not its write succeeded.\<close>

lemma append_body_branch:
  assumes "consistent m" "fresh_host H w m" "append_body H b w m = (r, w', m')" "getBranch m None = Some q"
  obtains e where "e_body e = b" "e_parentId e = m_leafId m" "e_timestamp e = clock H (ticks w)"
    "e_id e \<notin> ids (getEntries m)" "getBranch m' None = Some (q @ [e])" "consistent m'"
    "getEntries m' = getEntries m @ [e]"
proof -
  from assms(3) obtain e w1 where e: "new_entry H b w m = (e, w1)" "same_memory (push_entry e m) m'"
    by (rule append_body_cases) blast
  note f = new_entry_fresh [OF assms(1,2) e(1)] and g = new_entry_fields [OF e(1)]
  have pe: "e_parentId e = m_leafId m" using g by blast
  have "consistent m'" using append_body_invariant [OF assms(1-3)] by blast
  moreover have "getBranch m' None = Some (q @ [e])"
    using active_path_push [OF assms(1) f(1,2) pe assms(4)] getBranch_same_memory [OF e(2)] by simp
  moreover have "getEntries m' = getEntries m @ [e]" using same_memory_fields(9) [OF e(2)] by simp
  moreover have "e_body e = b" "e_timestamp e = clock H (ticks w)" using g by blast+
  ultimately show thesis using that pe f(1) by blast
qed

section \<open>What an operation does to the context\<close>

lemma append_body_context:
  assumes "consistent m" "fresh_host H w m" "append_body H b w m = (r, w', m')"
    "manager_context m = Some c" "\<And>d. b \<noteq> Compaction d"
  shows "\<exists>c' e. manager_context m' = Some c' \<and> e_body e = b \<and> e_timestamp e = clock H (ticks w)
    \<and> sc_messages c' = sc_messages c @ context_message e"
proof -
  obtain q where q: "getBranch m None = Some q" using active_path [OF assms(1)] by metis
  from append_body_branch [OF assms(1-3) q] obtain e where e: "e_body e = b" "e_timestamp e = clock H (ticks w)"
    "getBranch m' None = Some (q @ [e])" "consistent m'" by metis
  have "\<not> is_compaction e" using e(1) assms(5) by (simp split: entry_body.split)
  with context_of_path [OF e(4,3)] context_of_path [OF assms(1) q] assms(4) e(1,2)
  show ?thesis by (auto simp: path_messages_snoc)
qed

text \<open>
  C5. Appending a message adds exactly that message at the end of the context the model sees, also
  when the branch holds a compaction and also when the write fails.
\<close>

theorem context_append_only:
  assumes "consistent m" "fresh_host H w m" "manager_context m = Some c"
    and "appendMessage H msg w m = (r, w', m')"
  shows "\<exists>c'. manager_context m' = Some c' \<and> sc_messages c' = sc_messages c @ [msg]"
  using append_body_context [OF assms(1,2) assms(4) [unfolded appendMessage_def] assms(3)]
  by (force simp: context_message_def)

lemma retained_from_dropWhile:
  "retained_from k False es = context_messages (dropWhile (\<lambda>e. e_id e \<noteq> k) es)"
  by (induction es) auto

lemma compaction_append:
  assumes "consistent m" "fresh_host H w m" "getBranch m None = Some q"
    and "appendCompaction H summary firstKept tokensBefore details fromHook instructions use w m = (r, w', m')"
  shows "\<exists>c'. manager_context m' = Some c' \<and> sc_messages c' =
    (let kept = context_messages (dropWhile (\<lambda>e. e_id e \<noteq> firstKept) q)
     in createCompactionSummaryMessage summary tokensBefore (clock H (ticks w)) instructions (Some (length kept)) # kept)"
proof -
  from append_body_branch [OF assms(1,2) assms(4) [unfolded appendCompaction_def] assms(3)] obtain e where
    e: "e_body e = Compaction \<lparr>cd_summary = summary, cd_firstKeptEntryId = firstKept,
       cd_firstKeptEntryIndex = None, cd_tokensBefore = tokensBefore, cd_details = details,
       cd_fromHook = fromHook, cd_customInstructions = instructions, cd_usage = use\<rparr>"
    "e_timestamp e = clock H (ticks w)" "e_id e \<notin> ids (getEntries m)"
    "getBranch m' None = Some (q @ [e])" "consistent m'" by metis
  have "subseq q (getEntries m)" using active_path [OF assms(1)] assms(3) by (metis option.inject)
  then have "set q \<subseteq> set (getEntries m)" by (rule subseq_set)
  then have "e_id e \<notin> ids q" using e(3) by blast
  from path_messages_compaction [OF e(1) this] context_of_path [OF e(5,4)] e(2)
  show ?thesis by (auto simp: retained_from_dropWhile)
qed

text \<open>
  C6. After a compaction is appended the context is its summary followed by the messages of the
  active branch from the first kept entry on, and the summary records how many they are.
\<close>

theorem compaction_context:
  assumes "consistent m" "fresh_host H w m" "getBranch m None = Some q"
    and "appendCompaction H summary firstKept tokensBefore details fromHook instructions use w m = (r, w', m')"
  shows "\<exists>c'. manager_context m' = Some c' \<and> sc_messages c' =
    (let kept = context_messages (dropWhile (\<lambda>e. e_id e \<noteq> firstKept) q)
     in createCompactionSummaryMessage summary tokensBefore (clock H (ticks w)) instructions (Some (length kept)) # kept)"
  by (rule compaction_append [OF assms])

lemma getBranch_leaf: "getBranch (m\<lparr>m_leafId := Some i\<rparr>) None = getBranch m (Some i)"
  by (simp add: getBranch_def leaf_entry_def)

lemma fresh_leaf: "fresh_host H w (m\<lparr>m_leafId := l\<rparr>) = fresh_host H w m"
  by (simp add: fresh_host_def getEntries_def)

text \<open>
  Branching at an entry with a summary gives the context of that entry followed by the branch
  summary message, and leaves all earlier entries in place.
\<close>

theorem branch_with_summary:
  assumes "consistent m" "fresh_host H w m" "i \<in> ids (getEntries m)" "summary \<noteq> []"
    and "branchWithSummary H (Some i) summary details fromHook use w m = (r, w', m')"
  shows "\<exists>q c'. getBranch m (Some i) = Some q \<and> manager_context m' = Some c'
    \<and> sc_messages c' = sc_messages (path_context q) @ [createBranchSummaryMessage summary i (clock H (ticks w))]
    \<and> getEntries m = butlast (getEntries m')"
proof -
  let ?m = "m\<lparr>m_leafId := Some i\<rparr>"
  obtain x where x: "map_of (m_byId m) i = Some x" using consistent_lookup [OF assms(1,3)] by blast
  have "good H (w, ?m)" using good_leaf [of H w m "Some i"] assms(1,2) x by (simp add: good_pair)
  then have c: "consistent ?m" "fresh_host H w ?m" by (simp_all add: good_pair)
  obtain q where q: "getBranch ?m None = Some q" using active_path [OF c(1)] by metis
  have run: "append_body H (BranchSummary \<lparr>bd_fromId = i, bd_summary = summary,
             bd_details = details, bd_fromHook = fromHook, bd_usage = use\<rparr>) w ?m = (r, w', m')"
    using assms(5) x by (simp add: branchWithSummary_def)
  from append_body_branch [OF c run q] obtain e where
    e: "e_body e = BranchSummary \<lparr>bd_fromId = i, bd_summary = summary,
             bd_details = details, bd_fromHook = fromHook, bd_usage = use\<rparr>"
    "e_timestamp e = clock H (ticks w)" "getBranch m' None = Some (q @ [e])" "consistent m'"
    "getEntries m' = getEntries ?m @ [e]" by metis
  have "context_message e = [createBranchSummaryMessage summary i (clock H (ticks w))]"
    using e(1,2) assms(4) by (simp add: context_message_def)
  moreover have "sc_messages (path_context (q @ [e])) = sc_messages (path_context q) @ context_message e"
    by (rule path_messages_snoc) (simp add: e(1))
  moreover have "getEntries ?m = getEntries m" by (simp add: getEntries_def)
  ultimately show ?thesis
    using context_of_path [OF e(4,3)] q e(5) by (auto simp: getBranch_leaf)
qed

section \<open>Walks that search\<close>

lemma nearest_None [simp]: "nearest f m None = Some None"
  by (simp add: nearest.simps)

lemma nearest_Some:
  "nearest f m (Some e) = (case f e of Some r \<Rightarrow> Some (Some r) | None \<Rightarrow> nearest f m (parent_entry m e))"
  by (subst nearest.simps) simp

text \<open>The nearest entry of a kind is the last one on the path.\<close>

lemma nearest_path:
  assumes "is_path m prev (q @ [e])" "prev = None"
  shows "nearest f m (Some e) = Some (case find_last (\<lambda>e. f e \<noteq> None) (q @ [e]) of None \<Rightarrow> None | Some x \<Rightarrow> f x)"
  using assms
proof (induction q arbitrary: e rule: rev_induct)
  case Nil
  then show ?case by (subst nearest_Some) (auto simp: find_last_def split: option.split)
next
  case (snoc x q)
  then have "nearest f m (Some x) = Some (case find_last (\<lambda>e. f e \<noteq> None) (q @ [x]) of None \<Rightarrow> None | Some x \<Rightarrow> f x)"
    by (intro snoc.IH) (auto simp: is_path_append)
  moreover have "parent_entry m e = Some x" using snoc.prems by (auto simp: is_path_append split: if_splits)
  ultimately have "f e = None \<Longrightarrow> nearest f m (Some e)
      = Some (case find_last (\<lambda>e. f e \<noteq> None) (q @ [x]) of None \<Rightarrow> None | Some x \<Rightarrow> f x)"
    by (subst nearest_Some) simp
  then show ?case unfolding find_last_snoc by (cases "f e") (simp_all add: nearest_Some)
qed

text \<open>
  recordGitStateIfChanged returns in a consistent session (the walk over the branch ends) and a
  second call right after it records nothing, whether or not the first write succeeded.
\<close>

theorem git_state_recorded_once:
  assumes "consistent m" "fresh_host H w m"
  shows "\<exists>r w' m'. recordGitStateIfChanged H w m = Some (r, w', m')
    \<and> recordGitStateIfChanged H w' m' = Some (Inr None, w', m')"
proof -
  let ?f = "\<lambda>e. case e_body e of GitState g \<Rightarrow> Some g | _ \<Rightarrow> None"
  have total: "getActiveGitContext m \<noteq> None" if "consistent m" for m
  proof -
    from active_path [OF that] obtain q where q: "is_path (m_byId m) None q" "q = [] \<longleftrightarrow> m_leafId m = None"
      "m_leafId m \<noteq> None \<Longrightarrow> m_leafId m = Some (e_id (last q))" "subseq q (getEntries m)" by metis
    show ?thesis
    proof (cases "m_leafId m")
      case None
      then show ?thesis by (simp add: getActiveGitContext_def getLeafEntry_def leaf_entry_def)
    next
      case (Some l)
      then have ne: "q \<noteq> []" "l = e_id (last q)" using q by auto
      then have "last q \<in> set (getEntries m)" using subseq_set [OF q(4)] last_in_set by blast
      then have "map_of (m_byId m) l = Some (last q)" "l \<noteq> []"
        using ne index_lookup [OF wf_tree_distinct [OF consistent_tree [OF that]]] consistent_index [OF that]
          wf_tree_nonempty_id [OF consistent_tree [OF that]] by auto
      then have "getLeafEntry m = Some (last q)" using Some by (simp add: getLeafEntry_def leaf_entry_def)
      moreover have "nearest ?f (m_byId m) (Some (last q)) \<noteq> None"
        using nearest_path [of "m_byId m" None "butlast q" "last q" ?f] q(1) ne by simp
      ultimately show ?thesis by (auto simp: getActiveGitContext_def split: option.splits)
    qed
  qed
  then obtain g0 where g0: "getActiveGitContext m = Some g0" using assms(1) by blast
  show ?thesis
  proof (cases "\<not> m_persist m \<or> captureGitContext H (m_cwd m) = None
      \<or> (\<exists>g g'. captureGitContext H (m_cwd m) = Some g \<and> g0 = Some g' \<and> gitContextsEqual g' g)")
    case True
    then have "recordGitStateIfChanged H w m = Some (Inr None, w, m)"
      using g0 by (auto simp: recordGitStateIfChanged_def)
    then show ?thesis by blast
  next
    case False
    then obtain g where g: "m_persist m" "captureGitContext H (m_cwd m) = Some g"
      "\<not> (g0 \<noteq> None \<and> gitContextsEqual (the g0) g)" by (cases g0) auto
    obtain r2 w2 m2 where ap: "append_body H (GitState g) w m = (r2, w2, m2)" by (rule prod_cases3)
    obtain q where q: "getBranch m None = Some q" using active_path [OF assms(1)] by metis
    have res: "\<exists>r. recordGitStateIfChanged H w m = Some (r, w2, m2)"
      using g g0 ap by (cases r2) (auto simp: recordGitStateIfChanged_def appendGitState_def)
    from ap obtain e w1 where e: "new_entry H (GitState g) w m = (e, w1)" "same_memory (push_entry e m) m2"
      by (rule append_body_cases) blast
    note f = same_memory_fields [OF e(2)]
    have "e_body e = GitState g" using new_entry_fields [OF e(1)] by blast
    moreover have "getLeafEntry m2 = Some e"
      using new_entry_fresh(2) [OF assms e(1)] f by (simp add: getLeafEntry_def leaf_entry_def)
    ultimately have "getActiveGitContext m2 = Some (Some g)"
      by (simp add: getActiveGitContext_def nearest_Some)
    moreover have "captureGitContext H (m_cwd m2) = Some g" "m_persist m2" using f g by simp_all
    ultimately have "recordGitStateIfChanged H w2 m2 = Some (Inr None, w2, m2)"
      by (simp add: recordGitStateIfChanged_def gitContextsEqual_def)
    with res show ?thesis by blast
  qed
qed

end
