(* ===== verification/Session_Fork.thy ===== *)
theory Session_Fork
  imports Session_Context
begin

text \<open>
  Sessions made from others: \<open>createBranchedSession\<close> copies one branch, \<open>forkFrom\<close> copies a whole file
  without its \<open>git_state\<close> entries and links their children to the nearest ancestor that is kept.
\<close>

section \<open>Forking\<close>

text \<open>\<open>droppedParent\<close>: the parents of the entries that are left out.\<close>

definition dropped_parents :: "session_entry list \<Rightarrow> (string \<times> string option) list" where
  "dropped_parents es = foldl (\<lambda>m e. if is_git_state e then AList.update (e_id e) (e_parentId e) m else m) [] es"

partial_function (option) liveParent ::
  "(string \<times> string option) list \<Rightarrow> string option \<Rightarrow> string option option" where
  "liveParent dropped pid =
     (case pid of
        None \<Rightarrow> Some None
      | Some p \<Rightarrow> (case map_of dropped p of
            None \<Rightarrow> Some (Some p)
          | Some q \<Rightarrow> liveParent dropped q))"

definition relink :: "(string \<times> string option) list \<Rightarrow> session_entry \<Rightarrow> session_entry option" where
  "relink dropped e = map_option (\<lambda>p. e\<lparr>e_parentId := p\<rparr>) (liveParent dropped (e_parentId e))"

text \<open>The loop over the entries; it writes each one before it looks at the next.\<close>

fun write_fork ::
  "host \<Rightarrow> string \<Rightarrow> (string \<times> string option) list \<Rightarrow> session_entry list \<Rightarrow> world \<Rightarrow> (unit result \<times> world) option" where
  "write_fork H file dropped [] w = Some (Inr (), w)"
| "write_fork H file dropped (e # es) w =
     (if is_git_state e then write_fork H file dropped es w
      else case relink dropped e of
        None \<Rightarrow> None
      | Some out \<Rightarrow>
          (case appendFileSync H w undefined file (Entry out) of
             (Inl err, w1, _) \<Rightarrow> Some (Inl err, w1)
           | (Inr _, w1, _) \<Rightarrow> write_fork H file dropped es w1))"

definition fork_error :: "string \<Rightarrow> string \<Rightarrow> error" where
  "fork_error what path = Error (''Cannot fork: source session '' @ what @ '': '' @ path)"

text \<open>\<open>dir\<close> is \<open>sessionDir ?? getDefaultSessionDir(targetCwd)\<close>.\<close>

definition forkFrom ::
  "host \<Rightarrow> string \<Rightarrow> string \<Rightarrow> string option \<Rightarrow> world \<Rightarrow> (unit result \<times> world \<times> manager option) option" where
  "forkFrom H sourcePath targetCwd sessionDir w =
     (let source0 = loadEntriesFromFile (files w) sourcePath in
      if source0 = [] then Some (Inl (fork_error ''file is empty or invalid'' sourcePath), w, None)
      else case header_of source0 of
        None \<Rightarrow> Some (Inl (fork_error ''has no header'' sourcePath), w, None)
      | Some sourceHeader \<Rightarrow>
          let (_, source, u) = migrateToCurrentVersion (randomUUID H) source0 (uuids w);
              w1 = w\<lparr>uuids := u\<rparr>;
              dir = nullish sessionDir (getDefaultSessionDir H targetCwd)
          in (case createUniqueSessionFileTarget H dir w1 of
                (Inl err, w2) \<Rightarrow> Some (Inl err, w2, None)
              | (Inr (sid, file), w2) \<Rightarrow>
                  let header = \<lparr>h_version = Some CURRENT_SESSION_VERSION, h_id = sid,
                        h_timestamp = clock H (ticks w2), h_cwd = targetCwd, h_parentSession = Some sourcePath,
                        h_rlmDepth = Some (resolveSessionRlmDepth (files w2) (pwd H) (h_rlmDepth sourceHeader)
                          (h_parentSession sourceHeader) sourcePath),
                        h_git = captureGitContext H targetCwd\<rparr>;
                      w3 = w2\<lparr>ticks := Suc (ticks w2)\<rparr>
                  in (case appendFileSync H w3 undefined file (Header header) of
                        (Inl err, w4, _) \<Rightarrow> Some (Inl err, w4, None)
                      | (Inr _, w4, _) \<Rightarrow>
                          (case write_fork H file (dropped_parents (entries_of source)) (entries_of source) w4 of
                             None \<Rightarrow> None
                           | Some (Inl err, w5) \<Rightarrow> Some (Inl err, w5, None)
                           | Some (Inr _, w5) \<Rightarrow>
                               (case SessionManager H targetCwd dir (Some file) True None w5 of
                                  (Inl err, w6, m) \<Rightarrow> Some (Inl err, w6, None)
                                | (Inr _, w6, m) \<Rightarrow> Some (Inr (), w6, Some m))))))"

text \<open>What a fork keeps, when every link can be followed.\<close>

definition kept_entries :: "session_entry list \<Rightarrow> session_entry list" where
  "kept_entries es = filter (\<lambda>e. \<not> is_git_state e) es"

definition relinked :: "(string \<times> string option) list \<Rightarrow> session_entry \<Rightarrow> session_entry" where
  "relinked dropped e = e\<lparr>e_parentId := the (liveParent dropped (e_parentId e))\<rparr>"

definition forked :: "session_entry list \<Rightarrow> session_entry list" where
  "forked es = map (relinked (dropped_parents es)) (kept_entries es)"

lemma relinked_fields [simp]:
  "e_id (relinked d e) = e_id e" "e_body (relinked d e) = e_body e" "e_timestamp (relinked d e) = e_timestamp e"
  by (simp_all add: relinked_def)

lemma dropped_aux:
  "map_of (foldl (\<lambda>m e. if is_git_state e then AList.update (e_id e) (e_parentId e) m else m) m0 es) k =
     (case find_last (\<lambda>e. is_git_state e \<and> e_id e = k) es of None \<Rightarrow> map_of m0 k | Some e \<Rightarrow> Some (e_parentId e))"
  by (induction es rule: rev_induct) (auto simp: update_conv')

lemma dropped_lookup:
  assumes "distinct (map e_id es)" "e \<in> set es"
  shows "map_of (dropped_parents es) (e_id e) = (if is_git_state e then Some (e_parentId e) else None)"
proof -
  have eq: "map_of (dropped_parents es) (e_id e) =
     (case find_last (\<lambda>x. is_git_state x \<and> e_id x = e_id e) es of None \<Rightarrow> None | Some x \<Rightarrow> Some (e_parentId x))"
    unfolding dropped_parents_def dropped_aux by (simp split: option.split)
  have same: "x \<in> set es \<Longrightarrow> e_id x = e_id e \<Longrightarrow> x = e" for x
    using assms by (auto simp: distinct_map dest: inj_onD)
  show ?thesis
  proof (cases "find_last (\<lambda>x. is_git_state x \<and> e_id x = e_id e) es")
    case None
    then have "\<not> is_git_state e" using assms(2) unfolding find_last_None by blast
    with None show ?thesis unfolding eq by simp
  next
    case (Some x)
    from find_last_Some [OF Some] same have "x = e" "is_git_state e" by blast+
    with Some show ?thesis unfolding eq by simp
  qed
qed

lemma liveParent_None [simp]: "liveParent d None = Some None"
  by (simp add: liveParent.simps)

lemma liveParent_Some:
  "liveParent d (Some p) = (case map_of d p of None \<Rightarrow> Some (Some p) | Some q \<Rightarrow> liveParent d q)"
  by (subst liveParent.simps) simp

lemma ids_forked: "e_id ` set (forked es) \<subseteq> ids es"
  by (auto simp: forked_def kept_entries_def)

lemma distinct_forked: "distinct (map e_id es) \<Longrightarrow> distinct (map e_id (forked es))"
  by (auto simp: forked_def kept_entries_def o_def distinct_map intro: inj_on_subset)

lemma forked_lookup:
  assumes "wf_tree es" "x \<in> set es" "\<not> is_git_state x"
  shows "map_of (index_entries (forked es)) (e_id x) = Some (relinked (dropped_parents es) x)"
proof -
  have "relinked (dropped_parents es) x \<in> set (forked es)"
    using assms(2,3) by (simp add: forked_def kept_entries_def)
  from index_lookup [OF distinct_forked [OF wf_tree_distinct [OF assms(1)]] this] show ?thesis by simp
qed

text \<open>The path to an entry of the source, and the path to the nearest kept entry in the fork.\<close>

definition fork_path :: "session_entry list \<Rightarrow> session_entry list \<Rightarrow> session_entry list" where
  "fork_path es q = map (relinked (dropped_parents es)) (kept_entries q)"

lemma fork_walk_nth:
  assumes "wf_tree es" "i < length es"
  shows "\<exists>q. walk (index_entries es) (Some (es ! i)) [] = Some q \<and> set q \<subseteq> set (take (Suc i) es)
    \<and> liveParent (dropped_parents es) (Some (e_id (es ! i)))
        = Some (if fork_path es q = [] then None else Some (e_id (last (fork_path es q))))
    \<and> (fork_path es q \<noteq> [] \<longrightarrow> last (fork_path es q) \<in> set (forked es)
        \<and> (\<forall>acc. walk (index_entries (forked es)) (Some (last (fork_path es q))) acc = Some (fork_path es q @ rev acc)))
    \<and> (\<not> is_git_state (es ! i) \<longrightarrow> fork_path es q \<noteq> [] \<and> last (fork_path es q) = relinked (dropped_parents es) (es ! i))"
  using assms(2)
proof (induction i rule: less_induct)
  case (less i)
  let ?e = "es ! i" and ?d = "dropped_parents es" and ?m = "index_entries (forked es)"
  have mem: "?e \<in> set es" using less.prems by simp
  have mem': "?e \<in> set (take (Suc i) es)" using less.prems by (simp add: take_Suc_conv_app_nth)
  have ne: "e_id ?e \<noteq> []" using wf_tree_nonempty_id [OF assms(1) mem] .
  note dl = dropped_lookup [OF wf_tree_distinct [OF assms(1)] mem]
  from wf_parent_entry [OF assms(1) less.prems] show ?case
  proof
    assume none: "parent_entry (index_entries es) ?e = None"
    have pn: "e_parentId ?e = None"
    proof (cases "e_parentId ?e")
      case (Some p)
      from wf_tree_parent [OF assms(1) less.prems Some] obtain j where j: "j < i" "e_id (es ! j) = p" by blast
      have "es ! j \<in> set es" using j(1) less.prems by simp
      with index_lookup [OF wf_tree_distinct [OF assms(1)] this] wf_tree_nonempty_id [OF assms(1) this] j(2) Some none
      show ?thesis by (simp add: parent_entry_def)
    qed
    have w: "walk (index_entries es) (Some ?e) [] = Some [?e]" using none by (simp add: walk_Some)
    have r: "e_parentId (relinked ?d ?e) = None" by (simp add: relinked_def pn)
    have "walk ?m (Some (relinked ?d ?e)) acc = Some (relinked ?d ?e # rev acc)" for acc
      by (subst walk_Some) (simp add: parent_entry_def r)
    then show ?case using w mem mem' dl pn
      by (intro exI [of _ "[?e]"])
         (auto simp: fork_path_def kept_entries_def forked_def liveParent_Some)
  next
    assume "\<exists>j < i. parent_entry (index_entries es) ?e = Some (es ! j) \<and> e_parentId ?e = Some (e_id (es ! j))"
    then obtain j where j: "j < i" "parent_entry (index_entries es) ?e = Some (es ! j)"
      "e_parentId ?e = Some (e_id (es ! j))" by blast
    then have jl: "j < length es" using less.prems by simp
    from less.IH [OF j(1) jl] obtain q where q: "walk (index_entries es) (Some (es ! j)) [] = Some q" "set q \<subseteq> set (take (Suc j) es)"
      "liveParent ?d (Some (e_id (es ! j))) = Some (if fork_path es q = [] then None else Some (e_id (last (fork_path es q))))"
      "fork_path es q \<noteq> [] \<Longrightarrow> last (fork_path es q) \<in> set (forked es)"
      "\<And>acc. fork_path es q \<noteq> [] \<Longrightarrow> walk ?m (Some (last (fork_path es q))) acc = Some (fork_path es q @ rev acc)"
      by blast
    have sub: "set q \<subseteq> set (take (Suc i) es)"
      using q(2) set_take_subset_set_take [of "Suc j" "Suc i" es] j(1) by auto
    obtain q' where q': "\<And>acc. walk (index_entries es) (Some (es ! j)) acc = Some (q' @ rev acc)"
      using wf_walk_nth [OF assms(1) jl] by blast
    then have "q' = q" using q(1) by simp
    then have w: "walk (index_entries es) (Some ?e) [] = Some (q @ [?e])"
      using q' [of "[?e]"] j(2) by (simp add: walk_Some [of _ ?e])
    show ?case
    proof (cases "is_git_state ?e")
      case True
      then have "fork_path es (q @ [?e]) = fork_path es q" by (simp add: fork_path_def kept_entries_def)
      moreover have "liveParent ?d (Some (e_id ?e)) = liveParent ?d (Some (e_id (es ! j)))"
        using True dl j(3) by (subst liveParent_Some) simp
      ultimately show ?thesis using w q sub mem' True by (intro exI [of _ "q @ [?e]"]) simp
    next
      case False
      have fp: "fork_path es (q @ [?e]) = fork_path es q @ [relinked ?d ?e]"
        using False by (simp add: fork_path_def kept_entries_def)
      have live: "liveParent ?d (Some (e_id ?e)) = Some (Some (e_id ?e))"
        using False dl by (subst liveParent_Some) simp
      have pr: "e_parentId (relinked ?d ?e) = (if fork_path es q = [] then None else Some (e_id (last (fork_path es q))))"
        by (simp add: relinked_def j(3) q(3))
      have "walk ?m (Some (relinked ?d ?e)) acc = Some (fork_path es q @ relinked ?d ?e # rev acc)" for acc
      proof (cases "fork_path es q = []")
        case True
        then show ?thesis using pr by (subst walk_Some) (simp add: parent_entry_def)
      next
        case ne: False
        let ?l = "last (fork_path es q)"
        have "map_of ?m (e_id ?l) = Some ?l"
          using index_lookup [OF distinct_forked [OF wf_tree_distinct [OF assms(1)]] q(4) [OF ne]] .
        moreover have "e_id ?l \<noteq> []"
          using ids_forked [of es] q(4) [OF ne] wf_tree_nonempty_id [OF assms(1)] by (metis image_iff subsetD)
        ultimately have "parent_entry ?m (relinked ?d ?e) = Some ?l" using pr ne by (simp add: parent_entry_def)
        then show ?thesis using q(5) [OF ne, of "acc @ [relinked ?d ?e]"] by (subst walk_Some) simp
      qed
      moreover have "relinked ?d ?e \<in> set (forked es)"
        using mem False by (simp add: forked_def kept_entries_def)
      ultimately show ?thesis using w sub mem' fp live by (intro exI [of _ "q @ [?e]"]) simp
    qed
  qed
qed

lemma wf_tree_forked:
  assumes "wf_tree es"
  shows "wf_tree (forked es)"
proof -
  let ?d = "dropped_parents es"
  have "tree_from {} (map (relinked ?d) (kept_entries (take k es)))" if "k \<le> length es" for k
    using that
  proof (induction k)
    case (Suc k)
    then have k: "k < length es" by simp
    have ih: "tree_from {} (map (relinked ?d) (kept_entries (take k es)))" using Suc by simp
    show ?case
    proof (cases "is_git_state (es ! k)")
      case True
      then show ?thesis using ih k by (simp add: take_Suc_conv_app_nth kept_entries_def)
    next
      case False
      have "tree_from {} (take k es @ [es ! k])"
        using assms k unfolding wf_tree_def by (metis append_take_drop_id take_Suc_conv_app_nth tree_from_append)
      then have new: "e_id (es ! k) \<noteq> []" "e_id (es ! k) \<notin> ids (take k es)" by (simp_all add: tree_from_append)
      have par: "p \<in> ids (kept_entries (take k es))" if p: "e_parentId (relinked ?d (es ! k)) = Some p" for p
      proof -
        obtain p0 where p0: "e_parentId (es ! k) = Some p0" using p by (cases "e_parentId (es ! k)") (auto simp: relinked_def)
        from wf_tree_parent [OF assms k p0] obtain j where j: "j < k" "e_id (es ! j) = p0" by blast
        then have "j < length es" using k by simp
        from fork_walk_nth [OF assms this] obtain q where q: "set q \<subseteq> set (take (Suc j) es)"
          "liveParent ?d (Some p0) = Some (if fork_path es q = [] then None else Some (e_id (last (fork_path es q))))"
          using j(2) by blast
        have ne: "fork_path es q \<noteq> []" "p = e_id (last (fork_path es q))"
          using p q(2) p0 by (auto simp: relinked_def split: if_splits)
        then have "last (fork_path es q) \<in> set (fork_path es q)" by simp
        then obtain x where x: "x \<in> set q" "\<not> is_git_state x" "e_id x = p"
          using ne(2) by (auto simp: fork_path_def kept_entries_def)
        have "x \<in> set (take k es)" using x(1) q(1) set_take_subset_set_take [of "Suc j" k es] j(1) by auto
        with x(2,3) show ?thesis by (auto simp: kept_entries_def)
      qed
      have id: "e_id (es ! k) \<notin> e_id ` set (map (relinked ?d) (kept_entries (take k es)))"
        using new(2) by (auto simp: kept_entries_def)
      have "map (relinked ?d) (kept_entries (take (Suc k) es))
          = map (relinked ?d) (kept_entries (take k es)) @ [relinked ?d (es ! k)]"
        using False k by (simp add: take_Suc_conv_app_nth kept_entries_def)
      then show ?thesis
        using ih new(1) id par by (auto simp: tree_from_append image_image split: option.split)
    qed
  qed (simp add: kept_entries_def)
  from this [of "length es"] show ?thesis by (simp add: wf_tree_def forked_def)
qed

section \<open>The context of a forked branch\<close>

lemma context_message_git: "is_git_state e \<Longrightarrow> context_message e = []"
  by (auto simp: is_git_state.simps context_message_def split: entry_body.splits)

lemma context_message_relinked [simp]: "context_message (relinked d e) = context_message e"
  by (cases "e_body e") (simp_all add: context_message_def)

lemma context_messages_fork: "context_messages (fork_path es q) = context_messages q"
  by (induction q) (simp_all add: fork_path_def kept_entries_def context_message_git)

lemma is_compaction_relinked [simp]: "is_compaction (relinked d e) = is_compaction e"
  by simp

lemma compaction_not_git: "is_compaction e \<Longrightarrow> \<not> is_git_state e"
  by (auto simp: is_git_state.simps split: entry_body.splits)

declare is_compaction.simps [simp del]

lemma find_last_fork:
  "find_last is_compaction (fork_path es q) = map_option (relinked (dropped_parents es)) (find_last is_compaction q)"
  by (induction q rule: rev_induct) (auto simp: fork_path_def kept_entries_def dest: compaction_not_git)

lemma retained_from_fork:
  assumes "\<forall>e\<in>set q. e_id e = k \<longrightarrow> \<not> is_git_state e"
  shows "retained_from k b (fork_path es q) = retained_from k b q"
  using assms
proof (induction q arbitrary: b)
  case (Cons e q)
  have rest: "retained_from k b' (fork_path es q) = retained_from k b' q" for b' using Cons by simp
  show ?case
  proof (cases "is_git_state e")
    case True
    then have "e_id e \<noteq> k" using Cons.prems by auto
    with True rest show ?thesis
      by (simp add: fork_path_def kept_entries_def context_message_git)
  next
    case False
    with rest show ?thesis by (simp add: fork_path_def kept_entries_def Let_def)
  qed
qed (simp add: fork_path_def kept_entries_def)

lemma fork_path_append: "fork_path es (xs @ ys) = fork_path es xs @ fork_path es ys"
  by (simp add: fork_path_def kept_entries_def)

text \<open>
  The messages of a path with a last compaction, split at it; ids are distinct on a path, so the index
  the code searches for is that of the compaction.
\<close>

lemma path_messages_split:
  assumes "e_body c = Compaction d" "e_id c \<notin> ids xs" "\<forall>y\<in>set ys. \<not> is_compaction y"
  shows "sc_messages (path_context (xs @ c # ys)) =
    (let retained = retained_from (cd_firstKeptEntryId d) False xs
     in createCompactionSummaryMessage (cd_summary d) (cd_tokensBefore d) (e_timestamp c)
          (cd_customInstructions d) (Some (length retained)) # retained @ context_messages ys)"
  using assms(3)
proof (induction ys rule: rev_induct)
  case Nil
  then show ?case using path_messages_compaction [OF assms(1,2)] by simp
next
  case (snoc y ys)
  then have "sc_messages (path_context ((xs @ c # ys) @ [y])) = sc_messages (path_context (xs @ c # ys)) @ context_message y"
    by (intro path_messages_snoc) simp
  with snoc show ?case by (simp add: Let_def)
qed

lemma fork_path_messages:
  assumes "distinct (map e_id q)"
    "\<forall>c d. c \<in> set q \<longrightarrow> e_body c = Compaction d \<longrightarrow> (\<forall>e\<in>set q. e_id e = cd_firstKeptEntryId d \<longrightarrow> \<not> is_git_state e)"
  shows "sc_messages (path_context (fork_path es q)) = sc_messages (path_context q)"
proof (cases "find_last is_compaction q")
  case None
  then show ?thesis
    by (simp add: path_context_messages find_last_fork path_messages_def context_messages_fork)
next
  case (Some c)
  from find_last_split [OF this] obtain xs ys where
    q: "q = xs @ c # ys" "is_compaction c" "\<forall>a\<in>set ys. \<not> is_compaction a" by blast
  then obtain d where d: "e_body c = Compaction d" by (auto simp: is_compaction.simps split: entry_body.splits)
  have ng: "\<not> is_git_state c" using compaction_not_git [OF q(2)] .
  let ?r = "relinked (dropped_parents es)"
  have fq: "fork_path es q = fork_path es xs @ ?r c # fork_path es ys"
    unfolding q(1) fork_path_append using ng by (simp add: fork_path_def kept_entries_def)
  have nid: "e_id c \<notin> ids xs" using assms(1) unfolding q(1) by auto
  then have nid': "e_id (?r c) \<notin> ids (fork_path es xs)" by (auto simp: fork_path_def kept_entries_def)
  have nc: "\<forall>y\<in>set (fork_path es ys). \<not> is_compaction y"
    using q(3) by (auto simp: fork_path_def kept_entries_def)
  have d': "e_body (?r c) = Compaction d" using d by simp
  have "\<forall>e\<in>set xs. e_id e = cd_firstKeptEntryId d \<longrightarrow> \<not> is_git_state e"
    using assms(2) d unfolding q(1) by auto
  note rt = retained_from_fork [OF this, of False es]
  show ?thesis
    unfolding fq path_messages_split [OF d' nid' nc] rt
    unfolding q(1) path_messages_split [OF d nid q(3)] by (simp add: context_messages_fork)
qed

section \<open>The forked file\<close>

lemma upd_first_map:
  assumes "\<And>x. P (g x) = P x" "\<And>x. g (f x) = f (g x)"
  shows "upd_first P f (map g xs) = map g (upd_first P f xs)"
  using assms by (induction xs) auto

lemma upd_first_filter:
  assumes "\<And>x. P x \<Longrightarrow> Q x" "\<And>x. Q (f x) = Q x"
  shows "upd_first P f (filter Q xs) = filter Q (upd_first P f xs)"
  using assms by (induction xs) auto

lemma attribute_map:
  assumes "\<And>x t. is_assistant_with t (g x) = is_assistant_with t x"
    "\<And>x u. g (on_entry (set_usage u) x) = on_entry (set_usage u) (g x)"
  shows "attribute a (map g fs) = map g (attribute a fs)"
  using assms by (simp add: attribute_def upd_last_def rev_map upd_first_map)

lemma attribute_filter:
  assumes "\<And>x t. is_assistant_with t x \<Longrightarrow> Q x" "\<And>x u. Q (on_entry (set_usage u) x) = Q x"
  shows "attribute a (filter Q fs) = filter Q (attribute a fs)"
  using assms by (simp add: attribute_def upd_last_def rev_filter upd_first_filter)

text \<open>The copy commutes with the folding of child usage.\<close>

definition fork_lines :: "(string \<times> string option) list \<Rightarrow> file_entry list \<Rightarrow> file_entry list" where
  "fork_lines d fs = map (on_entry (relinked d))
     (filter (\<lambda>f. case f of Entry e \<Rightarrow> \<not> is_git_state e | Header _ \<Rightarrow> True) fs)"

lemma relinked_set_usage: "relinked d (set_usage u e) = set_usage u (relinked d e)"
  by (cases "e_body e") (auto simp: relinked_def set_usage.simps split: agent_message.split)

lemma is_git_set_usage [simp]: "is_git_state (set_usage u e) = is_git_state e"
  by (cases "e_body e") (auto simp: is_git_state.simps set_usage.simps split: agent_message.split)

lemma attribute_fork_lines: "attribute a (fork_lines d fs) = fork_lines d (attribute a fs)"
proof -
  let ?Q = "\<lambda>f. case f of Entry e \<Rightarrow> \<not> is_git_state e | Header _ \<Rightarrow> True"
  have "attribute a (map (on_entry (relinked d)) xs) = map (on_entry (relinked d)) (attribute a xs)" for xs
  proof (rule attribute_map)
    show "is_assistant_with t (on_entry (relinked d) x) = is_assistant_with t x" for x t
      by (cases x) (simp_all add: is_assistant_with_def is_assistant_entry.simps)
    show "on_entry (relinked d) (on_entry (set_usage u) x) = on_entry (set_usage u) (on_entry (relinked d) x)" for x u
      by (cases x) (simp_all add: relinked_set_usage)
  qed
  moreover have "attribute a (filter ?Q fs) = filter ?Q (attribute a fs)"
  proof (rule attribute_filter)
    show "is_assistant_with t x \<Longrightarrow> ?Q x" for x t
      by (auto simp: is_assistant_with_def is_assistant_entry.simps is_git_state.simps split: file_entry.splits entry_body.splits)
    show "?Q (on_entry (set_usage u) x) = ?Q x" for x u by (cases x) simp_all
  qed
  ultimately show ?thesis by (simp add: fork_lines_def)
qed

lemma attributions_fork_lines: "attributions (fork_lines d fs) = attributions fs"
proof (induction fs)
  case (Cons f fs)
  have "attribution_of (on_entry (relinked d) f) = attribution_of f"
    by (cases f) (simp_all add: attribution_of.simps)
  moreover have "f = Entry e \<Longrightarrow> is_git_state e \<Longrightarrow> attribution_of f = []" for e
    by (auto simp: attribution_of.simps is_git_state.simps split: entry_body.splits)
  ultimately show ?case using Cons by (cases f) (auto simp: attributions_def fork_lines_def)
qed (simp add: fork_lines_def)

lemma apply_fork_lines: "applyChildUsageAttributions (fork_lines d fs) = fork_lines d (applyChildUsageAttributions fs)"
proof -
  have "attribute_all as (fork_lines d fs) = fork_lines d (attribute_all as fs)" for as fs
    by (induction as arbitrary: fs) (simp_all add: attribute_fork_lines)
  then show ?thesis by (simp add: applyChildUsageAttributions_eq attributions_fork_lines)
qed

lemma attribute_Header: "attribute a (Header h # fs) = Header h # attribute a fs"
proof -
  have "\<not> P x \<Longrightarrow> upd_first P f (xs @ [x]) = upd_first P f xs @ [x]" for P f and x :: file_entry and xs
    by (induction xs) auto
  then show ?thesis by (simp add: attribute_def upd_last_def is_assistant_with_def)
qed

lemma apply_Header: "applyChildUsageAttributions (Header h # fs) = Header h # applyChildUsageAttributions fs"
proof -
  have "attribute_all as (Header h # fs) = Header h # attribute_all as fs" for as fs
    by (induction as arbitrary: fs) (simp_all add: attribute_Header)
  then show ?thesis by (simp add: applyChildUsageAttributions_eq attributions_def attribution_of.simps)
qed

lemma fork_lines_entries: "fork_lines (dropped_parents es) (map Entry es) = map Entry (forked es)"
proof -
  have "fork_lines d (map Entry xs) = map Entry (map (relinked d) (kept_entries xs))" for d xs
    by (induction xs) (simp_all add: fork_lines_def kept_entries_def)
  then show ?thesis by (simp add: forked_def)
qed

lemma forked_stable:
  assumes "applyChildUsageAttributions (Header h # map Entry es) = Header h # map Entry es"
  shows "applyChildUsageAttributions (Header h' # map Entry (forked es)) = Header h' # map Entry (forked es)"
  using apply_fork_lines [of "dropped_parents es" "map Entry es"] assms
  by (simp add: apply_Header fork_lines_entries)

text \<open>In a well-formed source every link can be followed, so the copying loop ends.\<close>

lemma relink_total:
  assumes "wf_tree es" "e \<in> set es"
  shows "relink (dropped_parents es) e = Some (relinked (dropped_parents es) e)"
proof -
  obtain i where i: "i < length es" "es ! i = e" using assms(2) by (auto simp: in_set_conv_nth)
  have "liveParent (dropped_parents es) (e_parentId e) \<noteq> None"
  proof (cases "e_parentId e")
    case (Some p)
    with wf_tree_parent [OF assms(1) i(1)] i(2) obtain j where "j < i" "e_id (es ! j) = p" by blast
    with fork_walk_nth [OF assms(1), of j] i(1) Some show ?thesis by auto
  qed simp
  then show ?thesis by (auto simp: relink_def relinked_def)
qed

lemma appendFileSync_fine:
  "fault_of H (writes w) = Fine \<Longrightarrow> map_of (files w) p = Some (file_of fs) \<Longrightarrow>
   appendFileSync H w m p e = (Inr (), w\<lparr>writes := Suc (writes w), files := AList.update p (file_of (fs @ [e])) (files w)\<rparr>, m)"
  by (simp add: appendFileSync_def Let_def)

lemma update_same: "map_of m k = Some v \<Longrightarrow> AList.update k v m = m"
  by (induction m) auto

lemma write_fork_file:
  assumes "\<forall>n. fault_of H n = Fine" "\<forall>e\<in>set es. relink d e = Some (relinked d e)"
    and "map_of (files w) file = Some (file_of fs)"
  shows "\<exists>w'. write_fork H file d es w = Some (Inr (), w')
    \<and> files w' = AList.update file (file_of (fs @ map Entry (map (relinked d) (kept_entries es)))) (files w)
    \<and> uuids w' = uuids w"
  using assms(2,3)
proof (induction es arbitrary: w fs)
  case Nil
  have "AList.update file (file_of fs) (files w) = files w" using Nil(2) by (rule update_same)
  then show ?case by (simp add: kept_entries_def)
next
  case (Cons e es)
  show ?case
  proof (cases "is_git_state e")
    case True
    with Cons show ?thesis by (simp add: kept_entries_def)
  next
    case False
    let ?w = "w\<lparr>writes := Suc (writes w), files := AList.update file (file_of (fs @ [Entry (relinked d e)])) (files w)\<rparr>"
    have "appendFileSync H w undefined file (Entry (relinked d e)) = (Inr (), ?w, undefined)"
      using assms(1) Cons.prems(2) by (simp add: appendFileSync_fine)
    moreover have "\<exists>w'. write_fork H file d es ?w = Some (Inr (), w')
      \<and> files w' = AList.update file (file_of ((fs @ [Entry (relinked d e)]) @ map Entry (map (relinked d) (kept_entries es)))) (files ?w)
      \<and> uuids w' = uuids ?w"
      using Cons.prems by (intro Cons.IH) simp_all
    ultimately show ?thesis using False Cons.prems(1)
      by (auto simp: kept_entries_def)
  qed
qed

lemma unique_target_ok:
  "unique_target k H dir w = (Inr (sid, file), w') \<Longrightarrow>
   file = getSessionFilePath dir sid \<and> map_of (files w) file = None \<and> files w' = files w \<and> uuids w' = uuids w"
proof (induction k arbitrary: w)
  case (Suc k)
  show ?case
  proof (cases "existsSync w (getSessionFilePath dir (uuidv7 H (session_uuids w)))")
    case True
    then have "unique_target k H dir (w\<lparr>session_uuids := Suc (session_uuids w)\<rparr>) = (Inr (sid, file), w')"
      using Suc.prems by (simp add: Let_def)
    from Suc.IH [OF this] show ?thesis by auto
  next
    case False
    with Suc.prems show ?thesis by (auto simp: Let_def existsSync_def)
  qed
qed simp

text \<open>Opening a well-formed file of the current version.\<close>

lemma load_session_current:
  assumes "h_version h = Some CURRENT_SESSION_VERSION" "truthy (h_parentSession h) \<Longrightarrow> isValidRlmDepth (h_rlmDepth h)"
  shows "load_session H path (Header h # fs) w m =
    (Inr (), w, (buildIndex (m\<lparr>m_sessionId := h_id h, m_fileEntries := Header h # fs\<rparr>))\<lparr>m_flushed := True\<rparr>)"
proof -
  have mig: "migrateToCurrentVersion rnd (Header h # fs) u = (False, Header h # fs, u)" for rnd u
    using assms(1) by (simp add: migrateToCurrentVersion_def file_version_def)
  have leg: "\<not> (truthy (h_parentSession h) \<and> \<not> isValidRlmDepth (h_rlmDepth h))" using assms(2) by blast
  show ?thesis
    using leg by (cases "truthy (h_parentSession h)") (simp_all add: load_session_def mig Let_def)
qed

lemma open_file:
  assumes "map_of (files w) file = Some (file_of (Header h # fs))"
    "applyChildUsageAttributions (Header h # fs) = Header h # fs" "h_version h = Some CURRENT_SESSION_VERSION"
    "isValidRlmDepth (h_rlmDepth h)" "resolve (pwd H) file = file" "file \<noteq> []" "wf_tree (entries_of fs)"
  shows "\<exists>m. SessionManager H cwd dir (Some file) True None w = (Inr (), w, m)
    \<and> m_fileEntries m = Header h # fs \<and> consistent m \<and> m_flushed m \<and> m_sessionFile m = Some file"
proof -
  define m0 where "m0 = \<lparr>m_sessionId = [], m_sessionFile = None, m_sessionDir = dir, m_cwd = cwd, m_persist = True,
     m_flushed = False, m_fileEntries = [], m_byId = [], m_labelsById = [], m_labelTimestampsById = [], m_leafId = None\<rparr>"
  define m1 where "m1 = m0\<lparr>m_sessionFile := Some file, m_fileEntries := Header h # fs\<rparr>"
  define m2 where "m2 = m1\<lparr>m_sessionId := h_id h, m_fileEntries := Header h # fs\<rparr>"
  let ?m = "(buildIndex m2)\<lparr>m_flushed := True\<rparr>"
  have load: "loadEntriesFromFile (files w) file = Header h # fs"
    using assms(1,2) by (simp add: loadEntriesFromFile_def finalizeLoadedEntries_def)
  have ex: "existsSync w file" using assms(1) by (simp add: existsSync_def)
  have "setSessionFile H file None w m0 = load_session H file (Header h # fs) w m1"
    unfolding setSessionFile_def Let_def assms(5) using ex load by (simp add: m1_def)
  also have "\<dots> = (Inr (), w, ?m)"
    unfolding m2_def by (rule load_session_current) (use assms in simp_all)
  finally have run: "SessionManager H cwd dir (Some file) True None w = (Inr (), w, ?m)"
    using assms(6) by (simp add: SessionManager_def m0_def Let_def)
  have ge: "getEntries m2 = entries_of fs" "getEntries ?m = entries_of fs"
    by (simp_all add: getEntries_def m2_def buildIndex_fields)
  have "consistent ?m"
    using assms(7) by (intro consistentI) (simp_all add: ge buildIndex_fields)
  then show ?thesis using run by (intro exI [of _ ?m]) (simp add: buildIndex_fields m2_def m1_def)
qed

text \<open>
  C8. forkFrom of a well-formed session, when no write fails, ends and gives a consistent session
  without git_state entries in which the branch of every kept entry is the branch of the source
  without its git_state entries.
\<close>

theorem fork_copies_branches:
  assumes "\<forall>n. fault_of H n = Fine"
    and "loadEntriesFromFile (files w) src = Header h # map Entry es" "wf_tree es"
    and "h_version h = Some CURRENT_SESSION_VERSION"
    and "isValidRlmDepth (Some (resolveSessionRlmDepth (files w) (pwd H) (h_rlmDepth h) (h_parentSession h) src))"
    and "createUniqueSessionFileTarget H dir w = (Inr (sid, file), w1)" "resolve (pwd H) file = file"
  shows "\<exists>w' m' h'. forkFrom H src cwd (Some dir) w = Some (Inr (), w', Some m')
    \<and> m_fileEntries m' = Header h' # map Entry (forked es) \<and> consistent m'
    \<and> h_parentSession h' = Some src \<and> h_git h' = captureGitContext H cwd
    \<and> (\<forall>e\<in>set (forked es). \<not> is_git_state e)
    \<and> (\<forall>e\<in>set es. \<not> is_git_state e \<longrightarrow> (\<exists>q. walk (index_entries es) (Some e) [] = Some q
        \<and> getBranch m' (Some (e_id e)) = Some (fork_path es q)))"
proof -
  have fin: "loadEntriesFromFile (files w) src = applyChildUsageAttributions fs" if
    "map_of (files w) src = Some f" "parseEntriesFromBuffer f = fs" "headed fs" for f fs
    using that by (simp add: loadEntriesFromFile_def finalize_headed)
  obtain f where f: "map_of (files w) src = Some f"
    using assms(2) by (auto simp: loadEntriesFromFile_def split: option.splits)
  have "headed (parseEntriesFromBuffer f)"
    using f assms(2) by (intro finalize_ne) (simp add: loadEntriesFromFile_def)
  from fin [OF f refl this] have st: "applyChildUsageAttributions (Header h # map Entry es) = Header h # map Entry es"
    using assms(2) attribution_idempotent_aux [of "parseEntriesFromBuffer f"] by simp
  have mig: "migrateToCurrentVersion (randomUUID H) (Header h # map Entry es) (uuids w)
      = (False, Header h # map Entry es, uuids w)"
    using assms(4) by (simp add: migrateToCurrentVersion_def file_version_def)
  have w1: "file = getSessionFilePath dir sid" "map_of (files w) file = None" "files w1 = files w" "uuids w1 = uuids w"
    using unique_target_ok [OF assms(6) [unfolded createUniqueSessionFileTarget_def]] by blast+
  define h' where "h' = \<lparr>h_version = Some CURRENT_SESSION_VERSION, h_id = sid,
      h_timestamp = clock H (ticks w1), h_cwd = cwd, h_parentSession = Some src,
      h_rlmDepth = Some (resolveSessionRlmDepth (files w1) (pwd H) (h_rlmDepth h) (h_parentSession h) src),
      h_git = captureGitContext H cwd\<rparr>"
  define w3 where "w3 = w1\<lparr>ticks := Suc (ticks w1)\<rparr>"
  define w4 where "w4 = w3\<lparr>writes := Suc (writes w3), files := AList.update file (file_of [Header h']) (files w3)\<rparr>"
  have ap: "appendFileSync H w3 undefined file (Header h') = (Inr (), w4, undefined)"
    using assms(1) w1(2,3) by (simp add: appendFileSync_def Let_def w3_def w4_def append_line_def file_of_def)
  have "\<exists>w5. write_fork H file (dropped_parents es) es w4 = Some (Inr (), w5)
    \<and> files w5 = AList.update file (file_of ([Header h'] @ map Entry (map (relinked (dropped_parents es)) (kept_entries es)))) (files w4)
    \<and> uuids w5 = uuids w4"
    using relink_total [OF assms(3)] by (intro write_fork_file [OF assms(1)]) (simp_all add: w4_def)
  then obtain w5 where w5: "write_fork H file (dropped_parents es) es w4 = Some (Inr (), w5)"
    "map_of (files w5) file = Some (file_of (Header h' # map Entry (forked es)))"
    by (auto simp: forked_def)
  have "\<exists>m. SessionManager H cwd dir (Some file) True None w5 = (Inr (), w5, m)
    \<and> m_fileEntries m = Header h' # map Entry (forked es) \<and> consistent m \<and> m_flushed m \<and> m_sessionFile m = Some file"
    using w5(2) forked_stable [OF st] assms(5,7) wf_tree_forked [OF assms(3)] w1(1,3)
    by (intro open_file) (simp_all add: h'_def getSessionFilePath_def)
  then obtain m where m: "SessionManager H cwd dir (Some file) True None w5 = (Inr (), w5, m)"
    "m_fileEntries m = Header h' # map Entry (forked es)" "consistent m" by blast
  have "forkFrom H src cwd (Some dir) w = Some (Inr (), w5, Some m)"
    unfolding forkFrom_def Let_def assms(2) mig
    by (simp add: assms(6) h'_def [symmetric] w3_def [symmetric] ap w5(1) m(1))
  moreover have "getEntries m = forked es" using m(2) by (simp add: getEntries_def)
  moreover have "\<exists>q. walk (index_entries es) (Some e) [] = Some q \<and> getBranch m (Some (e_id e)) = Some (fork_path es q)"
    if e: "e \<in> set es" "\<not> is_git_state e" for e
  proof -
    obtain i where i: "i < length es" "es ! i = e" using e(1) by (auto simp: in_set_conv_nth)
    from fork_walk_nth [OF assms(3) i(1)] e(2) i(2) obtain q where q: "walk (index_entries es) (Some e) [] = Some q"
      "fork_path es q \<noteq> []" "last (fork_path es q) = relinked (dropped_parents es) e"
      "\<And>acc. walk (index_entries (forked es)) (Some (last (fork_path es q))) acc = Some (fork_path es q @ rev acc)"
      by blast
    have "m_byId m = index_entries (forked es)"
      using consistent_index [OF m(3)] \<open>getEntries m = forked es\<close> by simp
    then show ?thesis
      using q q(4) [of "[]"] forked_lookup [OF assms(3) e] wf_tree_nonempty_id [OF assms(3) e(1)]
      by (simp add: getBranch_def leaf_entry_def)
  qed
  moreover have "\<forall>e\<in>set (forked es). \<not> is_git_state e"
    by (auto simp: forked_def kept_entries_def is_git_state.simps)
  ultimately show ?thesis using m by (auto simp: h'_def)
qed

text \<open>
  A forked branch has the context of its source branch, provided no compaction on it names a
  git_state entry as its first kept entry.
\<close>

theorem fork_keeps_context:
  assumes "distinct (map e_id q)"
    "\<forall>c d. c \<in> set q \<longrightarrow> e_body c = Compaction d \<longrightarrow> (\<forall>e\<in>set q. e_id e = cd_firstKeptEntryId d \<longrightarrow> \<not> is_git_state e)"
  shows "sc_messages (path_context (fork_path es q)) = sc_messages (path_context q)"
  by (rule fork_path_messages [OF assms])

end
