(* ===== verification/Session_Branched.thy ===== *)
theory Session_Branched
  imports Session_Fork
begin

text \<open>
  \<open>createBranchedSession\<close>: the copy of a branch without labels in its interior is a consistent session with
  the same context; a label in the interior cuts the copy (\<open>branched_session_loses_ancestors\<close>). Also the
  examples of the previous theory.
\<close>

section \<open>Chains\<close>

lemma subseq_distinct_map: "subseq xs ys \<Longrightarrow> distinct (map f ys) \<Longrightarrow> distinct (map f xs)"
proof (induction rule: list_emb.induct)
  case (list_emb_Cons2 x y xs ys)
  then show ?case using subseq_set [of xs ys] by auto
qed simp_all

lemma wf_tree_ids_ne: "wf_tree es \<Longrightarrow> [] \<notin> ids es"
  using tree_from_distinct [of "{}" es] by (simp add: wf_tree_def)

lemma is_path_walk: "is_path m None (q @ [e]) \<Longrightarrow> walk m (Some e) acc = Some (q @ e # rev acc)"
proof (induction q arbitrary: e acc rule: rev_induct)
  case Nil
  then show ?case by (simp add: walk_Some)
next
  case (snoc x q)
  then have "walk m (Some x) (acc @ [e]) = Some (q @ x # rev (acc @ [e]))" by (intro snoc.IH) (simp add: is_path_append)
  moreover have "parent_entry m e = Some x" using snoc.prems by (auto simp: is_path_append split: if_splits)
  ultimately show ?case by (simp add: walk_Some [of _ e])
qed

lemma linked_append: "linked p (xs @ ys) \<longleftrightarrow> linked p xs \<and> linked (if xs = [] then p else Some (e_id (last xs))) ys"
  by (induction xs arbitrary: p) auto

lemma linked_path:
  assumes "distinct (map e_id es)" "[] \<notin> ids es"
  shows "linked p q \<Longrightarrow> set q \<subseteq> set es \<Longrightarrow> (case prev of None \<Rightarrow> p = None | Some x \<Rightarrow> x \<in> set es \<and> p = Some (e_id x)) \<Longrightarrow>
    is_path (index_entries es) prev q"
proof (induction q arbitrary: p prev)
  case (Cons e q)
  have "parent_entry (index_entries es) e = prev"
  proof (cases prev)
    case None
    with Cons.prems show ?thesis by (simp add: parent_entry_def)
  next
    case (Some x)
    with Cons.prems have "e_parentId e = Some (e_id x)" "x \<in> set es" by simp_all
    moreover from this have "e_id x \<noteq> []" using assms(2) by (metis image_eqI)
    ultimately show ?thesis using index_lookup [OF assms(1)] Some by (simp add: parent_entry_def)
  qed
  moreover have "is_path (index_entries es) (Some e) q" using Cons.prems by (intro Cons.IH [of "Some (e_id e)"]) simp_all
  ultimately show ?case by simp
qed simp

lemma linked_walk:
  assumes "wf_tree es" "linked None es" "es \<noteq> []"
  shows "walk (index_entries es) (Some (last es)) [] = Some es"
proof -
  have "[] \<notin> ids es" using wf_tree_ids_ne [OF assms(1)] .
  from linked_path [OF wf_tree_distinct [OF assms(1)] this assms(2), of None]
  have "is_path (index_entries es) None (butlast es @ [last es])" using assms(3) by simp
  from is_path_walk [OF this, of "[]"] show ?thesis using assms(3) by simp
qed

lemma wf_no_parent:
  assumes "wf_tree es" "e \<in> set es" "parent_entry (index_entries es) e = None"
  shows "e_parentId e = None"
proof (cases "e_parentId e")
  case (Some p)
  from assms(2) obtain i where i: "i < length es" "es ! i = e" by (auto simp: in_set_conv_nth)
  with wf_tree_parent [OF assms(1), of i p] Some obtain j where j: "j < i" "e_id (es ! j) = p" by blast
  then have "es ! j \<in> set es" using i(1) by simp
  from index_lookup [OF wf_tree_distinct [OF assms(1)] this] wf_tree_nonempty_id [OF assms(1) this] j(2) Some assms(3)
  show ?thesis by (simp add: parent_entry_def)
qed

lemma path_linked:
  assumes "wf_tree es"
  shows "is_path (index_entries es) prev q \<Longrightarrow> set q \<subseteq> set es \<Longrightarrow> linked (map_option e_id prev) q"
proof (induction q arbitrary: prev)
  case (Cons e q)
  have "e_parentId e = map_option e_id prev"
  proof (cases prev)
    case None
    with Cons.prems wf_no_parent [OF assms, of e] show ?thesis by simp
  next
    case (Some x)
    with Cons.prems have "parent_entry (index_entries es) e = Some x" by simp
    then have "e_parentId e = Some (e_id x)"
      by (auto simp: parent_entry_def truthy_def split: if_splits option.splits dest: index_lookup_Some)
    with Some show ?thesis by simp
  qed
  with Cons.IH [of "Some e"] Cons.prems show ?case by simp
qed simp

section \<open>The labels of the copy\<close>

lemma fresh_supply_mono: "fresh_supply rnd pos S \<Longrightarrow> T \<subseteq> S \<Longrightarrow> fresh_supply rnd pos T"
  by (auto simp: fresh_supply_def)

lemma label_chain_spec:
  assumes "fresh_supply (randomUUID H) pos taken"
  shows "label_chain H parent taken ls pos = (es, pos') \<Longrightarrow>
    linked parent es \<and> distinct (map e_id es) \<and> ids es \<inter> taken = {} \<and> [] \<notin> ids es \<and> (\<forall>e\<in>set es. is_label e)"
  using assms
proof (induction ls arbitrary: parent taken pos es pos')
  case (Cons l ls)
  obtain t lab ts where l: "l = (t, lab, ts)" by (rule prod_cases3)
  obtain nid pos1 where g: "generateId (\<lambda>i. i \<in> taken) (randomUUID H) pos = (nid, pos1)" by (rule prod.exhaust)
  obtain es1 pos2 where r: "label_chain H (Some nid) (insert nid taken) ls pos1 = (es1, pos2)" by (rule prod.exhaust)
  note f = generateId_fresh [OF Cons.prems(2) g]
  have ih: "linked (Some nid) es1 \<and> distinct (map e_id es1) \<and> ids es1 \<inter> insert nid taken = {} \<and> [] \<notin> ids es1
      \<and> (\<forall>e\<in>set es1. is_label e)"
    using f by (intro Cons.IH [OF r]) blast
  have "es = \<lparr>e_id = nid, e_parentId = parent, e_timestamp = ts, e_body = Label t (Some lab)\<rparr> # es1"
    using Cons.prems(1) by (simp add: l g r Let_def)
  with ih f show ?case by auto
qed simp

lemma context_message_label: "is_label e \<Longrightarrow> context_message e = [] \<and> \<not> is_compaction e"
  by (auto simp: context_message_def is_compaction.simps split: entry_body.splits)

lemma path_messages_labels:
  "\<forall>e\<in>set ls. is_label e \<Longrightarrow> sc_messages (path_context (q @ ls)) = sc_messages (path_context q)"
proof (induction ls rule: rev_induct)
  case (snoc l ls)
  then have "sc_messages (path_context ((q @ ls) @ [l])) = sc_messages (path_context (q @ ls)) @ context_message l"
    using context_message_label by (intro path_messages_snoc) simp
  with snoc context_message_label show ?case by simp
qed simp

lemma last_id_eq: "q \<noteq> [] \<Longrightarrow> e_id (last q) \<noteq> [] \<Longrightarrow> last_id q = Some (e_id (last q))"
  by (simp add: last_id_def)

text \<open>What the copy holds when it is made.\<close>

lemma createBranchedSession_cases:
  assumes "createBranchedSession H l w m = Some (Inr f, w', m')" "getBranch m (Some l) = Some q"
  obtains h ls u where "q \<noteq> []"
    "label_chain H (last_id (filter (\<lambda>e. \<not> is_label e) q)) (e_id ` set (filter (\<lambda>e. \<not> is_label e) q))
        (labels_to_write m (e_id ` set (filter (\<lambda>e. \<not> is_label e) q))) (uuids w) = (ls, u)"
    "m_fileEntries m' = Header h # map Entry (filter (\<lambda>e. \<not> is_label e) q @ ls)"
    "\<exists>m1. m_byId m' = m_byId (buildIndex m1) \<and> m_leafId m' = m_leafId (buildIndex m1) \<and> getEntries m1 = getEntries m'"
proof -
  have ne: "q \<noteq> []" using assms by (auto simp: createBranchedSession_def)
  let ?kept = "filter (\<lambda>e. \<not> is_label e) q"
  define tgt where "tgt = (if m_persist m
                  then (case createUniqueSessionFileTarget H (m_sessionDir m) w of
                          (Inl e, w1) \<Rightarrow> (Inl e, w1)
                        | (Inr (sid, file), w1) \<Rightarrow> (Inr (sid, Some file), w1))
                  else (Inr (uuidv7 H (session_uuids w), None), w\<lparr>session_uuids := Suc (session_uuids w)\<rparr>))"
  obtain r w1 where t: "tgt = (r, w1)" by (rule prod.exhaust)
  obtain r2 w2 where u2: "unique_target 100 H (m_sessionDir m) w = (r2, w2)" by (rule prod.exhaust)
  have uu: "uuids w1 = uuids w"
    using t unique_target_frame [OF u2]
    by (cases r2) (auto simp: tgt_def createUniqueSessionFileTarget_def u2 split: if_splits)
  note run = assms(1) [unfolded createBranchedSession_def assms(2) option.case Let_def, folded tgt_def, unfolded t prod.case]
  obtain sid path where r: "r = Inr (sid, path)" using run ne by (cases r) auto
  obtain ls u where lc: "label_chain H (last_id ?kept) (e_id ` set ?kept) (labels_to_write m (e_id ` set ?kept)) (uuids w1) = (ls, u)"
    by (rule prod.exhaust)
  note run2 = run [unfolded r sum.case prod.case lc]
  define h where "h = \<lparr>h_version = Some CURRENT_SESSION_VERSION, h_id = sid,
                          h_timestamp = clock H (ticks w1), h_cwd = m_cwd m,
                          h_parentSession = (if m_persist m then m_sessionFile m else None),
                          h_rlmDepth = Some (resolveSessionRlmDepth (files w1) (pwd H)
                            (Option.bind (getHeader m) h_rlmDepth) (Option.bind (getHeader m) h_parentSession)
                            (nullish (m_sessionFile m) (nullish path []))),
                          h_git = (if m_persist m then captureGitContext H (m_cwd m) else None)\<rparr>"
  define m1 where "m1 = m\<lparr>m_fileEntries := Header h # map Entry (?kept @ ls), m_sessionId := sid,
                               m_sessionFile := (if m_persist m then path else m_sessionFile m)\<rparr>"
  note run3 = run2 [folded h_def, folded m1_def]
  have fields: "m_fileEntries m' = m_fileEntries (buildIndex m1) \<and> m_byId m' = m_byId (buildIndex m1)
      \<and> m_leafId m' = m_leafId (buildIndex m1)"
    using run3 ne by (auto split: if_splits elim!: and_then_cases dest!: rewriteFile_frame)
  have fe: "m_fileEntries m' = Header h # map Entry (?kept @ ls)"
    using fields by (simp add: buildIndex_fields m1_def)
  then have "getEntries m1 = getEntries m'" by (simp add: getEntries_def m1_def)
  then have ex: "\<exists>m1. m_byId m' = m_byId (buildIndex m1) \<and> m_leafId m' = m_leafId (buildIndex m1)
      \<and> getEntries m1 = getEntries m'" using fields by blast
  show thesis by (rule that [OF ne lc [unfolded uu] fe ex])
qed

text \<open>
  C7. createBranchedSession on a branch without label entries gives a consistent session that holds
  the branch followed by label entries, with every entry on its active branch and the context of the
  copied branch.
\<close>

theorem branched_session_context:
  assumes "consistent m" "fresh_host H w m" "l \<in> ids (getEntries m)"
    "getBranch m (Some l) = Some q" "\<forall>e\<in>set q. \<not> is_label e"
    "createBranchedSession H l w m = Some (Inr f, w', m')"
  shows "consistent m' \<and> (\<exists>ls. getEntries m' = q @ ls \<and> (\<forall>e\<in>set ls. is_label e))
    \<and> getBranch m' None = Some (getEntries m')
    \<and> map_option sc_messages (manager_context m') = Some (sc_messages (path_context q))"
proof -
  from createBranchedSession_cases [OF assms(6,4)] obtain h ls u m1 where c: "q \<noteq> []"
    "label_chain H (last_id (filter (\<lambda>e. \<not> is_label e) q)) (e_id ` set (filter (\<lambda>e. \<not> is_label e) q))
        (labels_to_write m (e_id ` set (filter (\<lambda>e. \<not> is_label e) q))) (uuids w) = (ls, u)"
    "m_fileEntries m' = Header h # map Entry (filter (\<lambda>e. \<not> is_label e) q @ ls)"
    "m_byId m' = m_byId (buildIndex m1)" "m_leafId m' = m_leafId (buildIndex m1)" "getEntries m1 = getEntries m'"
    by metis
  have kept: "filter (\<lambda>e. \<not> is_label e) q = q" using assms(5) by (simp add: filter_id_conv del: is_label.simps)
  have ge: "getEntries m' = q @ ls" using c(3) by (simp add: getEntries_def kept del: is_label.simps)
  have tr: "wf_tree (getEntries m)" using consistent_tree [OF assms(1)] .
  from consistent_lookup [OF assms(1,3)] obtain e where e: "map_of (m_byId m) l = Some e" "e \<in> set (getEntries m)"
    "e_id e = l" "l \<noteq> []" by blast
  from wf_walk [OF tr e(2)] obtain q0 where q0: "\<And>acc. walk (index_entries (getEntries m)) (Some e) acc = Some (q0 @ rev acc)"
    "q0 \<noteq> []" "last q0 = e" "is_path (index_entries (getEntries m)) None q0" "subseq q0 (getEntries m)" by blast
  have "q0 = q" using assms(4) e q0(1) [of "[]"]
    by (simp add: getBranch_def leaf_entry_def consistent_index [OF assms(1)])
  note q0 = q0 [unfolded this]
  have sub: "set q \<subseteq> set (getEntries m)" using subseq_set [OF q0(5)] .
  have lq: "linked None q" using path_linked [OF tr q0(4) sub] by simp
  have dq: "distinct (map e_id q)" using subseq_distinct_map [OF q0(5) wf_tree_distinct [OF tr]] .
  have neq: "[] \<notin> ids q" using sub wf_tree_ids_ne [OF tr] by blast
  have li: "last_id q = Some (e_id (last q))"
  proof (rule last_id_eq [OF c(1)])
    have "e_id (last q) \<in> ids q" using last_in_set [OF c(1)] by (rule imageI)
    then show "e_id (last q) \<noteq> []" using neq by metis
  qed
  have "fresh_supply (randomUUID H) (uuids w) (e_id ` set q)"
    by (rule fresh_supply_mono [OF assms(2) [unfolded fresh_host_def] image_mono [OF sub]])
  from label_chain_spec [OF this c(2) [unfolded kept]]
  have ls: "linked (last_id q) ls" "distinct (map e_id ls)" "ids ls \<inter> ids q = {}" "[] \<notin> ids ls" "\<forall>e\<in>set ls. is_label e"
    by blast+
  have link: "linked None (q @ ls)" using lq ls(1) c(1) by (simp add: linked_append li)
  have dist: "distinct (map e_id (q @ ls))" using dq ls(2,3) by auto
  have wf: "wf_tree (q @ ls)"
    unfolding wf_tree_def using linked_tree [OF link dist, of "{}"] neq ls(4) by auto
  have idx: "m_byId m' = index_entries (q @ ls)" "m_leafId m' = Some (e_id (last (q @ ls)))"
    using c(1,4,5,6) ge by (simp_all add: buildIndex_fields)
  have la: "last (q @ ls) \<in> set (q @ ls)" using c(1) by (intro last_in_set) simp
  have cons: "consistent m'"
  proof (rule consistentI)
    show "case m_leafId m' of None \<Rightarrow> True | Some l \<Rightarrow> l \<in> ids (getEntries m')"
      unfolding idx(2) ge option.case by (rule imageI [OF la])
  qed (use idx wf ge in simp_all)
  from la have lk: "map_of (m_byId m') (e_id (last (q @ ls))) = Some (last (q @ ls))" "e_id (last (q @ ls)) \<noteq> []"
    using index_lookup [OF wf_tree_distinct [OF wf]] wf_tree_nonempty_id [OF wf] idx(1) by auto
  have gb: "getBranch m' None = Some (q @ ls)"
    using linked_walk [OF wf link] c(1) idx lk by (simp add: getBranch_def leaf_entry_def)
  show ?thesis using cons ge ls(5) gb context_of_path [OF cons gb] path_messages_labels [OF ls(5)] by auto
qed

section \<open>Examples\<close>

text \<open>A user message, a label, and a user message below the label, in memory.\<close>

definition ex_a :: session_entry where
  "ex_a = \<lparr>e_id = ''a'', e_parentId = None, e_timestamp = 1, e_body = MessageE (UserMessage (StrContent ''one'') 1)\<rparr>"

definition ex_b :: session_entry where
  "ex_b = \<lparr>e_id = ''b'', e_parentId = Some ''a'', e_timestamp = 2, e_body = Label ''a'' (Some ''start'')\<rparr>"

definition ex_c :: session_entry where
  "ex_c = \<lparr>e_id = ''c'', e_parentId = Some ''b'', e_timestamp = 3, e_body = MessageE (UserMessage (StrContent ''two'') 3)\<rparr>"

definition labelled_manager :: manager where
  "labelled_manager = demo_manager\<lparr>m_sessionFile := None, m_persist := False,
     m_fileEntries := [Header demo_header, Entry ex_a, Entry ex_b, Entry ex_c],
     m_byId := [(''a'', ex_a), (''b'', ex_b), (''c'', ex_c)], m_labelsById := [(''a'', ''start'')],
     m_labelTimestampsById := [(''a'', 2)], m_leafId := Some ''c''\<rparr>"

lemmas ex_entries = ex_a_def ex_b_def ex_c_def

lemma walk_step: "walk m c p = (case c of None \<Rightarrow> Some (rev p) | Some e \<Rightarrow> walk m (parent_entry m e) (p @ [e]))"
  by (rule walk.simps)

lemma labelled_branch: "getBranch labelled_manager None = Some [ex_a, ex_b, ex_c]"
  "getBranch labelled_manager (Some ''c'') = Some [ex_a, ex_b, ex_c]"
  by (simp_all add: getBranch_def leaf_entry_def labelled_manager_def parent_entry_def ex_entries walk_Some)

text \<open>
  createBranchedSession drops a label entry in the interior of the branch without re-linking
  its child, so the messages before the label vanish from the context of the copy.
\<close>

theorem branched_session_loses_ancestors:
  "\<exists>w' m'. createBranchedSession demo_host ''c'' demo_world labelled_manager = Some (Inr None, w', m')
    \<and> map_option sc_messages (manager_context labelled_manager)
        = Some [UserMessage (StrContent ''one'') 1, UserMessage (StrContent ''two'') 3]
    \<and> map_option sc_messages (manager_context m') = Some [UserMessage (StrContent ''two'') 3]"
proof -
  have old: "map_option sc_messages (manager_context labelled_manager)
      = Some [UserMessage (StrContent ''one'') 1, UserMessage (StrContent ''two'') 3]"
    by (simp add: manager_context_def buildSessionContext_def labelled_manager_def parent_entry_def ex_entries
        walk_Some path_context_def path_messages_def context_message_def)
  have g: "generateId (\<lambda>i. i \<in> {''a'', ''c''}) (randomUUID demo_host) 0 = (''aaaaaaaa'', 1)"
    by (simp add: generateId_def demo_host_def numeral_eq_Suc)
  have lab: "is_label ex_b" "\<not> is_label ex_a" "\<not> is_label ex_c" by (simp_all add: ex_entries)
  define l where "l = \<lparr>e_id = ''aaaaaaaa'', e_parentId = Some ''c'', e_timestamp = 2, e_body = Label ''a'' (Some ''start'')\<rparr>"
  have lc: "label_chain demo_host (Some ''c'') {''a'', ''c''} [(''a'', ''start'', 2)] 0 = ([l], 1)"
    by (simp only: label_chain.simps g Let_def prod.case l_def)
  have lw: "labels_to_write labelled_manager {''a'', ''c''} = [(''a'', ''start'', 2)]"
    by (simp add: labels_to_write_def labelled_manager_def)
  have ids: "e_id ` set [ex_a, ex_c] = {''a'', ''c''}" "last_id [ex_a, ex_c] = Some ''c''"
    by (simp_all add: ex_entries last_id_def)
  have eid: "e_id ex_a = ''a''" "e_id ex_c = ''c''" by (simp_all add: ex_entries)
  have kept: "filter (\<lambda>e. \<not> is_label e) [ex_a, ex_b, ex_c] = [ex_a, ex_c]" using lab by (simp del: is_label.simps)
  have per: "\<not> m_persist labelled_manager" "uuids demo_world = 0" by (simp_all add: labelled_manager_def demo_world_def)
  obtain w' m' h where run: "createBranchedSession demo_host ''c'' demo_world labelled_manager = Some (Inr None, w', m')"
    "m' = buildIndex (labelled_manager\<lparr>m_fileEntries := Header h # map Entry ([ex_a, ex_c] @ [l]),
       m_sessionId := uuidv7 demo_host 0, m_sessionFile := m_sessionFile labelled_manager\<rparr>)"
    unfolding createBranchedSession_def labelled_branch option.case kept Let_def
    using per by (simp add: ids eid lw lc demo_world_def del: is_label.simps label_chain.simps)
  have "m_byId m' = [(''a'', ex_a), (''c'', ex_c), (''aaaaaaaa'', l)]" "m_leafId m' = Some ''aaaaaaaa''"
    by (simp_all add: run(2) buildIndex_fields getEntries_def index_entries_def ex_entries l_def)
  then have "map_option sc_messages (manager_context m') = Some [UserMessage (StrContent ''two'') 3]"
    by (simp add: manager_context_def buildSessionContext_def parent_entry_def ex_entries l_def
        walk_Some path_context_def path_messages_def context_message_def)
  with run(1) old show ?thesis by blast
qed

text \<open>A session in memory with one message.\<close>

definition one_manager :: manager where
  "one_manager = demo_manager\<lparr>m_sessionFile := None, m_persist := False,
     m_fileEntries := [Header demo_header, Entry ex_a], m_byId := [(''a'', ex_a)], m_leafId := Some ''a''\<rparr>"

lemma ex_fresh: "fresh_supply (randomUUID demo_host) 0 {''a'', ''b'', ''c'', ''g''}"
proof -
  have "length (randomUUID demo_host n) \<noteq> 1" for n by (simp add: demo_host_def)
  then have "randomUUID demo_host n \<notin> {''a'', ''b'', ''c'', ''g''}" for n
    by (metis empty_iff insert_iff length_Cons list.size(3) One_nat_def)
  then show ?thesis using demo_fresh by (simp add: fresh_supply_def)
qed

lemma one_good: "consistent one_manager" "fresh_host demo_host demo_world one_manager"
  using fresh_supply_mono [OF ex_fresh, of "{''a''}"]
  by (simp_all add: consistent_def fresh_host_def one_manager_def getEntries_def index_entries_def wf_tree_def
      ex_a_def demo_world_def)

lemma branched_session_context_witness:
  "\<exists>w' m'. createBranchedSession demo_host ''a'' demo_world one_manager = Some (Inr None, w', m') \<and> consistent m'"
proof -
  have gb: "getBranch one_manager (Some ''a'') = Some [ex_a]"
    by (simp add: getBranch_def leaf_entry_def one_manager_def parent_entry_def ex_a_def walk_Some)
  have lw: "labels_to_write one_manager {''a''} = []"
    by (simp add: labels_to_write_def one_manager_def demo_manager_def)
  have "\<exists>w' m'. createBranchedSession demo_host ''a'' demo_world one_manager = Some (Inr None, w', m')"
    unfolding createBranchedSession_def gb
    by (simp add: lw one_manager_def demo_manager_def ex_a_def last_id_def Let_def) (simp add: labels_to_write_def)
  then obtain w' m' where run: "createBranchedSession demo_host ''a'' demo_world one_manager = Some (Inr None, w', m')"
    by blast
  have "''a'' \<in> ids (getEntries one_manager)" by (simp add: getEntries_def one_manager_def ex_a_def)
  moreover have "\<forall>e\<in>set [ex_a]. \<not> is_label e" by (simp add: ex_a_def)
  ultimately show ?thesis using branched_session_context [OF one_good _ gb _ run] run by blast
qed

text \<open>A stored session whose second message hangs below a \<open>git_state\<close> entry.\<close>

definition ex_g :: session_entry where
  "ex_g = \<lparr>e_id = ''g'', e_parentId = Some ''a'', e_timestamp = 2,
     e_body = GitState \<lparr>g_repoUrl = None, g_commit = Some ''0'', g_branch = None\<rparr>\<rparr>"

definition ex_d :: session_entry where
  "ex_d = \<lparr>e_id = ''c'', e_parentId = Some ''g'', e_timestamp = 3, e_body = MessageE (UserMessage (StrContent ''two'') 3)\<rparr>"

definition fork_world :: world where
  "fork_world = demo_world\<lparr>files := [(''/p/x.jsonl'', file_of (Header demo_header # map Entry [ex_a, ex_g, ex_d]))]\<rparr>"

lemma fork_copies_branches_witness:
  "\<exists>w' m' h'. forkFrom demo_host ''/p/x.jsonl'' ''/t'' (Some ''/f'') fork_world = Some (Inr (), w', Some m')
    \<and> m_fileEntries m' = Header h' # map Entry (forked [ex_a, ex_g, ex_d])"
proof -
  have load: "loadEntriesFromFile (files fork_world) ''/p/x.jsonl'' = Header demo_header # map Entry [ex_a, ex_g, ex_d]"
    by (simp add: loadEntriesFromFile_def fork_world_def finalizeLoadedEntries_def applyChildUsageAttributions_def
        ex_a_def ex_g_def ex_d_def)
  have wf: "wf_tree [ex_a, ex_g, ex_d]" by (simp add: wf_tree_def ex_a_def ex_g_def ex_d_def)
  have ver: "h_version demo_header = Some CURRENT_SESSION_VERSION" by (simp add: demo_header_def CURRENT_SESSION_VERSION_def)
  have dep: "isValidRlmDepth (Some (resolveSessionRlmDepth (files fork_world) (pwd demo_host) (h_rlmDepth demo_header)
      (h_parentSession demo_header) ''/p/x.jsonl''))"
    by (simp add: resolveSessionRlmDepth_def resolveLegacySessionRlmDepth.simps demo_header_def isValidRlmDepth_def
        MAX_SAFE_INTEGER_def)
  obtain w1 where tg: "createUniqueSessionFileTarget demo_host ''/f'' fork_world = (Inr (''s'', ''/f/s.jsonl''), w1)"
    by (simp add: createUniqueSessionFileTarget_def numeral_eq_Suc Let_def existsSync_def fork_world_def demo_world_def
        getSessionFilePath_def demo_host_def slash_def)
  have rs: "resolve (pwd demo_host) ''/f/s.jsonl'' = ''/f/s.jsonl''" by (simp add: demo_host_def) code_simp
  from fork_copies_branches [OF demo_fault_free load wf ver dep tg rs] show ?thesis by blast
qed

lemma fork_keeps_context_witness:
  "sc_messages (path_context (fork_path [ex_a, ex_g, ex_d] [ex_a, ex_g, ex_d]))
     = sc_messages (path_context [ex_a, ex_g, ex_d])"
  by (rule fork_keeps_context) (auto simp: ex_a_def ex_g_def ex_d_def)

text \<open>A compaction whose first kept entry is a \<open>git_state\<close> entry keeps nothing in the fork.\<close>

definition ex_k :: session_entry where
  "ex_k = \<lparr>e_id = ''b'', e_parentId = Some ''c'', e_timestamp = 4,
     e_body = Compaction \<lparr>cd_summary = ''s'', cd_firstKeptEntryId = ''g'', cd_firstKeptEntryIndex = None,
       cd_tokensBefore = 9, cd_details = None, cd_fromHook = False, cd_customInstructions = None, cd_usage = None\<rparr>\<rparr>"

text \<open>
  A fork drops git_state entries, so a compaction whose first kept entry is one keeps no
  message in the fork.
\<close>

theorem fork_loses_kept_messages:
  "let es = [ex_a, ex_g, ex_d, ex_k]
   in length (sc_messages (path_context es)) = 2
     \<and> length (sc_messages (path_context (fork_path es es))) = 1
     \<and> UserMessage (StrContent ''two'') 3 \<in> set (sc_messages (path_context es))
     \<and> UserMessage (StrContent ''two'') 3 \<notin> set (sc_messages (path_context (fork_path es es)))"
proof -
  let ?es = "[ex_a, ex_g, ex_d, ex_k]"
  have k: "e_body ex_k = Compaction \<lparr>cd_summary = ''s'', cd_firstKeptEntryId = ''g'', cd_firstKeptEntryIndex = None,
       cd_tokensBefore = 9, cd_details = None, cd_fromHook = False, cd_customInstructions = None, cd_usage = None\<rparr>"
    by (simp add: ex_k_def)
  let ?r = "relinked (dropped_parents ?es)"
  have git: "is_git_state ex_g" "\<not> is_git_state ex_a" "\<not> is_git_state ex_d" "\<not> is_git_state ex_k"
    by (simp_all add: is_git_state.simps ex_a_def ex_g_def ex_d_def ex_k_def)
  have fp: "fork_path ?es ?es = [?r ex_a, ?r ex_d] @ [?r ex_k]" using git by (simp add: fork_path_def kept_entries_def)
  have k': "e_body (?r ex_k) = Compaction \<lparr>cd_summary = ''s'', cd_firstKeptEntryId = ''g'', cd_firstKeptEntryIndex = None,
       cd_tokensBefore = 9, cd_details = None, cd_fromHook = False, cd_customInstructions = None, cd_usage = None\<rparr>"
    using k by simp
  have old: "sc_messages (path_context ([ex_a, ex_g, ex_d] @ [ex_k]))
     = [createCompactionSummaryMessage ''s'' 9 4 None (Some 1), UserMessage (StrContent ''two'') 3]"
    by (subst path_messages_compaction [OF k])
       (simp_all add: ex_k_def ex_a_def ex_g_def ex_d_def context_message_def)
  have new: "sc_messages (path_context (fork_path ?es ?es)) = [createCompactionSummaryMessage ''s'' 9 4 None (Some 0)]"
    unfolding fp
    by (subst path_messages_compaction [OF k']) (simp_all add: ex_k_def ex_a_def ex_g_def ex_d_def context_message_def)
  have "UserMessage c t \<noteq> createCompactionSummaryMessage a b e f g" for c t a b e f g
    by (simp add: createCompactionSummaryMessage_def)
  then show ?thesis using old new by (simp add: Let_def)
qed

section \<open>Examples for the context\<close>

lemma one_branch: "getBranch one_manager None = Some [ex_a]"
  by (simp add: getBranch_def leaf_entry_def one_manager_def parent_entry_def ex_a_def walk_Some)

lemma context_append_only_witness:
  "\<exists>c r w' m' c'. manager_context one_manager = Some c
    \<and> appendMessage demo_host demo_user demo_world one_manager = (r, w', m') \<and> manager_context m' = Some c'
    \<and> sc_messages c' = sc_messages c @ [demo_user]"
proof -
  obtain c where c: "manager_context one_manager = Some c"
    using context_of_path [OF one_good(1) one_branch] by auto
  obtain r w' m' where run: "appendMessage demo_host demo_user demo_world one_manager = (r, w', m')" by (rule prod_cases3)
  from context_append_only [OF one_good c run] c run show ?thesis by blast
qed

lemma compaction_context_witness:
  "\<exists>r w' m' c'. appendCompaction demo_host ''s'' ''a'' 7 None False None None demo_world one_manager = (r, w', m')
    \<and> manager_context m' = Some c' \<and> length (sc_messages c') = 2"
proof -
  obtain r w' m' where run: "appendCompaction demo_host ''s'' ''a'' 7 None False None None demo_world one_manager = (r, w', m')"
    by (rule prod_cases3)
  from compaction_context [OF one_good one_branch run] obtain c' where "manager_context m' = Some c'"
    "length (sc_messages c') = 2" by (auto simp: Let_def ex_a_def context_message_def)
  with run show ?thesis by blast
qed

lemma branch_with_summary_witness:
  "\<exists>r w' m' q c'. branchWithSummary demo_host (Some ''a'') ''s'' None False None demo_world one_manager = (r, w', m')
    \<and> getBranch one_manager (Some ''a'') = Some q \<and> manager_context m' = Some c'
    \<and> sc_messages c' = sc_messages (path_context q) @ [createBranchSummaryMessage ''s'' ''a'' (clock demo_host (ticks demo_world))]"
proof -
  obtain r w' m' where run: "branchWithSummary demo_host (Some ''a'') ''s'' None False None demo_world one_manager = (r, w', m')"
    by (rule prod_cases3)
  have "''a'' \<in> ids (getEntries one_manager)" "''s'' \<noteq> []" by (simp_all add: getEntries_def one_manager_def ex_a_def)
  from branch_with_summary [OF one_good this run] run show ?thesis by blast
qed

lemma git_state_recorded_once_witness:
  "\<exists>r w' m'. recordGitStateIfChanged demo_host demo_world one_manager = Some (r, w', m')
    \<and> recordGitStateIfChanged demo_host w' m' = Some (Inr None, w', m')"
  by (rule git_state_recorded_once [OF one_good])

lemma migration_v1_chain_witness:
  "\<exists>gs pos'. migrateToCurrentVersion (randomUUID demo_host) [Header (demo_header\<lparr>h_version := None\<rparr>), Entry ex_a] 0
      = (True, gs, pos') \<and> wf_tree (entries_of gs)"
proof -
  let ?fs = "[Header (demo_header\<lparr>h_version := None\<rparr>), Entry ex_a]"
  obtain ch gs pos' where run: "migrateToCurrentVersion (randomUUID demo_host) ?fs 0 = (ch, gs, pos')" by (rule prod_cases3)
  have "file_version ?fs = 1" by (simp add: file_version_def)
  moreover have "\<forall>n. randomUUID demo_host n \<noteq> []" by (simp add: demo_host_def)
  moreover have "inj_on (\<lambda>n. take 8 (randomUUID demo_host n)) {0..<0 + length (entries_of ?fs)}" by (simp add: inj_on_def)
  ultimately show ?thesis using migration_v1_chain [OF _ _ _ run] run by auto
qed

text \<open>
  Two equal prefixes in a row: the ids of the migrated entries are equal and the second entry is its
  own parent, so the walk to the root does not return. The set of ids the migration draws against is
  never filled, so the draw is not repeated.
\<close>

text \<open>
  When two consecutive random prefixes agree, the migrated entries get the same id (the set of
  used ids is never filled), the second becomes its own parent and building the context does not
  return.
\<close>

theorem migration_collision_loops:
  "\<exists>gs pos'. migrateToCurrentVersion (randomUUID demo_host)
      [Header (demo_header\<lparr>h_version := None\<rparr>), Entry ex_a, Entry ex_c] 0 = (True, gs, pos')
    \<and> buildSessionContext (entries_of gs) LeafUndefined None = None"
proof -
  define a1 where "a1 = ex_a\<lparr>e_id := ''aaaaaaaa'', e_parentId := None\<rparr>"
  define c1 where "c1 = ex_c\<lparr>e_id := ''aaaaaaaa'', e_parentId := Some ''aaaaaaaa''\<rparr>"
  define gs where "gs = [Header (demo_header\<lparr>h_version := Some 3\<rparr>), Entry a1, Entry c1]"
  have g: "generateId (\<lambda>i. i \<in> set []) (randomUUID demo_host) 0 = (''aaaaaaaa'', 1)"
    "generateId (\<lambda>i. i \<in> set []) (randomUUID demo_host) 1 = (''aaaaaaaa'', 2)"
    by (simp_all add: generateId_def demo_host_def numeral_eq_Suc)
  have "migrateV1ToV2 (randomUUID demo_host) [Header (demo_header\<lparr>h_version := None\<rparr>), Entry ex_a, Entry ex_c] 0
      = ([Header (demo_header\<lparr>h_version := Some 2\<rparr>), Entry a1, Entry c1], 2)"
    unfolding migrateV1ToV2_def migrate_v1_loop.simps g Let_def prod.case
    by (simp add: a1_def c1_def ex_a_def ex_c_def)
  from migrateToCurrentVersion_v1 [OF _ this] have run: "migrateToCurrentVersion (randomUUID demo_host)
      [Header (demo_header\<lparr>h_version := None\<rparr>), Entry ex_a, Entry ex_c] 0 = (True, gs, 2)"
    by (simp add: file_version_def migrateV2ToV3_def gs_def a1_def c1_def ex_a_def ex_c_def)
  have es: "entries_of gs = [a1, c1]" by (simp add: gs_def)
  have idx: "index_entries [a1, c1] = [(''aaaaaaaa'', c1)]" by (simp add: index_entries_def a1_def c1_def)
  have "parent_entry [(''aaaaaaaa'', c1)] c1 = Some c1" by (simp add: parent_entry_def c1_def)
  from walk_self_parent [OF this] have "buildSessionContext (entries_of gs) LeafUndefined None = None"
    by (simp add: buildSessionContext_def es idx)
  with run show ?thesis by blast
qed

end
