(* ===== verification/Compaction.thy ===== *)
theory Compaction
  imports Session_Context "HOL-Library.List_Lexorder" "HOL-Library.Char_ord"
begin

text \<open>
  Context compaction (\<open>core/compaction/compaction.ts\<close>, \<open>utils.ts\<close>): token estimates, the choice of the cut
  point, what is summarised and what is kept, file tracking, the text given to the summarising
  model, and the assembly of its answers. The model call is a parameter.
\<close>

section \<open>File operations\<close>

record file_operations =
  fo_read :: "string list"
  fo_written :: "string list"
  fo_edited :: "string list"

definition createFileOps :: file_operations where
  "createFileOps = \<lparr>fo_read = [], fo_written = [], fo_edited = []\<rparr>"

fun extract_block :: "file_operations \<Rightarrow> assistant_block \<Rightarrow> file_operations" where
  "extract_block ops (AToolCall tc) =
     (case json_get (tc_arguments tc) ''path'' of
        Some (JString path) \<Rightarrow>
          if path \<noteq> [] \<and> tc_name tc = ''edit'' then ops\<lparr>fo_edited := set_add path (fo_edited ops)\<rparr> else ops
      | _ \<Rightarrow> ops)"
| "extract_block ops _ = ops"

fun extractFileOpsFromMessage :: "agent_message \<Rightarrow> file_operations \<Rightarrow> file_operations" where
  "extractFileOpsFromMessage (AssistantMessage m) ops = foldl extract_block ops (am_content m)"
| "extractFileOpsFromMessage _ ops = ops"

definition add_details :: "json \<Rightarrow> file_operations \<Rightarrow> file_operations" where
  "add_details d ops =
     (let r = (case json_get d ''readFiles'' of Some v \<Rightarrow> json_strings v | None \<Rightarrow> []);
          e = (case json_get d ''modifiedFiles'' of Some v \<Rightarrow> json_strings v | None \<Rightarrow> [])
      in ops\<lparr>fo_read := foldl (\<lambda>xs f. set_add f xs) (fo_read ops) r,
             fo_edited := foldl (\<lambda>xs f. set_add f xs) (fo_edited ops) e\<rparr>)"

definition extractFileOperations ::
  "agent_message list \<Rightarrow> session_entry list \<Rightarrow> nat option \<Rightarrow> file_operations" where
  "extractFileOperations messages entries prev =
     (let ops = (case prev of
            None \<Rightarrow> createFileOps
          | Some i \<Rightarrow> (case e_body (entries ! i) of
                Compaction c \<Rightarrow>
                  if \<not> cd_fromHook c \<and> cd_details c \<noteq> None then add_details (the (cd_details c)) createFileOps
                  else createFileOps
              | _ \<Rightarrow> createFileOps))
      in foldl (\<lambda>acc m. extractFileOpsFromMessage m acc) ops messages)"

definition computeFileLists :: "file_operations \<Rightarrow> string list \<times> string list" where
  "computeFileLists ops =
     (let modified = foldl (\<lambda>xs f. set_add f xs) [] (fo_edited ops @ fo_written ops)
      in (sort (filter (\<lambda>f. f \<notin> set modified) (fo_read ops)), sort modified))"

definition formatFileOperations :: "string list \<Rightarrow> string list \<Rightarrow> string" where
  "formatFileOperations readFiles modifiedFiles =
     (let sections =
          (if readFiles \<noteq> [] then [''<read-files>'' @ nl @ join nl readFiles @ nl @ ''</read-files>''] else [])
          @ (if modifiedFiles \<noteq> []
             then [''<modified-files>'' @ nl @ join nl modifiedFiles @ nl @ ''</modified-files>''] else [])
      in if sections = [] then [] else nl @ nl @ join (nl @ nl) sections)"

section \<open>The conversation as text\<close>

definition TOOL_RESULT_MAX_CHARS :: nat where
  "TOOL_RESULT_MAX_CHARS = 2000"

definition truncateForSummary :: "string \<Rightarrow> nat \<Rightarrow> string" where
  "truncateForSummary text maxChars =
     (if length text \<le> maxChars then text
      else take maxChars text @ nl @ nl @ ''[... '' @ dec (length text - maxChars) @ '' more characters truncated]'')"

definition texts_of :: "text_or_image list \<Rightarrow> string list" where
  "texts_of bs = concat (map (\<lambda>b. case b of TextContent t _ \<Rightarrow> [t] | ImageContent _ _ \<Rightarrow> []) bs)"

definition object_entries :: "json \<Rightarrow> (string \<times> json) list" where
  "object_entries j = (case j of JObject kvs \<Rightarrow> kvs | _ \<Rightarrow> [])"

definition call_text :: "tool_call \<Rightarrow> string" where
  "call_text tc = tc_name tc @ ''('' @
     join '', '' (map (\<lambda>(k, v). k @ ''='' @ stringify v) (object_entries (tc_arguments tc))) @ '')''"

fun serialize_message :: "llm_message \<Rightarrow> string list" where
  "serialize_message (LlmUser c ts) =
     (let content = (case c of StrContent s \<Rightarrow> s | Blocks bs \<Rightarrow> concat (texts_of bs))
      in if content \<noteq> [] then [''[User]: '' @ content] else [])"
| "serialize_message (LlmAssistant m) =
     (let thinking = concat (map (\<lambda>b. case b of AThinking t _ _ \<Rightarrow> [t] | _ \<Rightarrow> []) (am_content m));
          text = concat (map (\<lambda>b. case b of AText t _ \<Rightarrow> [t] | _ \<Rightarrow> []) (am_content m));
          calls = concat (map (\<lambda>b. case b of AToolCall tc \<Rightarrow> [call_text tc] | _ \<Rightarrow> []) (am_content m))
      in (if thinking \<noteq> [] then [''[Assistant thinking]: '' @ join nl thinking] else [])
         @ (if text \<noteq> [] then [''[Assistant]: '' @ join nl text] else [])
         @ (if calls \<noteq> [] then [''[Assistant tool calls]: '' @ join ''; '' calls] else []))"
| "serialize_message (LlmToolResult m) =
     (let content = concat (texts_of (tr_content m))
      in if content \<noteq> [] then [''[Tool result]: '' @ truncateForSummary content TOOL_RESULT_MAX_CHARS] else [])"

definition serializeConversation :: "llm_message list \<Rightarrow> string" where
  "serializeConversation ms = join (nl @ nl) (concat (map serialize_message ms))"

section \<open>Messages of entries\<close>

fun getMessageFromEntry :: "session_entry \<Rightarrow> agent_message option" where
  "getMessageFromEntry e =
     (case e_body e of
        MessageE m \<Rightarrow> Some m
      | CustomMessageE ct c d det \<Rightarrow> Some (createCustomMessage ct c d det (e_timestamp e))
      | BranchSummary b \<Rightarrow> Some (createBranchSummaryMessage (bd_summary b) (bd_fromId b) (e_timestamp e))
      | Compaction c \<Rightarrow> Some (createCompactionSummaryMessage (cd_summary c) (cd_tokensBefore c) (e_timestamp e)
                            (cd_customInstructions c) None)
      | _ \<Rightarrow> None)"

definition getMessageFromEntryForCompaction :: "session_entry \<Rightarrow> agent_message option" where
  "getMessageFromEntryForCompaction e = (if is_compaction e then None else getMessageFromEntry e)"

section \<open>Token estimates\<close>

definition chars_to_tokens :: "nat \<Rightarrow> int" where
  "chars_to_tokens chars = (int chars + 3) div 4"

definition blocks_chars :: "nat \<Rightarrow> text_or_image list \<Rightarrow> nat" where
  "blocks_chars image_chars bs =
     sum_list (map (\<lambda>b. case b of TextContent t _ \<Rightarrow> length t | ImageContent _ _ \<Rightarrow> image_chars) bs)"

definition content_chars :: "nat \<Rightarrow> msg_content \<Rightarrow> nat" where
  "content_chars image_chars c = (case c of StrContent s \<Rightarrow> length s | Blocks bs \<Rightarrow> blocks_chars image_chars bs)"

definition assistant_block_chars :: "assistant_block \<Rightarrow> nat" where
  "assistant_block_chars b = (case b of
     AText t _ \<Rightarrow> length t
   | AThinking t _ _ \<Rightarrow> length t
   | AToolCall tc \<Rightarrow> length (tc_name tc) + length (stringify (tc_arguments tc)))"

fun estimateTokens :: "agent_message \<Rightarrow> int" where
  "estimateTokens (UserMessage c ts) = chars_to_tokens (content_chars 0 c)"
| "estimateTokens (AssistantMessage m) = chars_to_tokens (sum_list (map assistant_block_chars (am_content m)))"
| "estimateTokens (CustomMessage m) = chars_to_tokens (content_chars 4800 (cm_content m))"
| "estimateTokens (ToolResultMessage m) = chars_to_tokens (blocks_chars 4800 (tr_content m))"
| "estimateTokens (BashExecution m) = chars_to_tokens (length (be_command m) + length (be_output m))"
| "estimateTokens (BranchSummaryMessage m) = chars_to_tokens (length (bs_summary m))"
| "estimateTokens (CompactionSummaryMessage m) = chars_to_tokens (length (cs_summary m))"
| "estimateTokens (HookMessage m) = 0"

definition calculateContextTokens :: "usage \<Rightarrow> int" where
  "calculateContextTokens u =
     (if u_totalTokens u \<noteq> 0 then u_totalTokens u else u_input u + u_output u + u_cacheRead u + u_cacheWrite u)"

fun getAssistantUsage :: "agent_message \<Rightarrow> usage option" where
  "getAssistantUsage (AssistantMessage m) =
     (if am_stopReason m \<noteq> Aborted \<and> am_stopReason m \<noteq> StopError then Some (am_usage m) else None)"
| "getAssistantUsage _ = None"

definition getLastAssistantUsage :: "session_entry list \<Rightarrow> usage option" where
  "getLastAssistantUsage es =
     (let usage_of = (\<lambda>e. case e_body e of MessageE m \<Rightarrow> getAssistantUsage m | _ \<Rightarrow> None)
      in Option.bind (find_last (\<lambda>e. usage_of e \<noteq> None) es) usage_of)"

record context_usage_estimate =
  ce_tokens :: int
  ce_usageTokens :: int
  ce_trailingTokens :: int
  ce_lastUsageIndex :: "nat option"

definition getLastAssistantUsageInfo :: "agent_message list \<Rightarrow> (usage \<times> nat) option" where
  "getLastAssistantUsageInfo ms =
     (case find_last (\<lambda>i. getAssistantUsage (ms ! i) \<noteq> None) [0..<length ms] of
        None \<Rightarrow> None
      | Some i \<Rightarrow> Some (the (getAssistantUsage (ms ! i)), i))"

definition estimateContextTokens :: "agent_message list \<Rightarrow> context_usage_estimate" where
  "estimateContextTokens ms =
     (case getLastAssistantUsageInfo ms of
        None \<Rightarrow>
          let estimated = sum_list (map estimateTokens ms)
          in \<lparr>ce_tokens = estimated, ce_usageTokens = 0, ce_trailingTokens = estimated, ce_lastUsageIndex = None\<rparr>
      | Some (u, i) \<Rightarrow>
          let usageTokens = calculateContextTokens u;
              trailing = sum_list (map estimateTokens (drop (Suc i) ms))
          in \<lparr>ce_tokens = usageTokens + trailing, ce_usageTokens = usageTokens, ce_trailingTokens = trailing,
              ce_lastUsageIndex = Some i\<rparr>)"

record compaction_settings =
  s_enabled :: bool
  s_reserveTokens :: int
  s_keepRecentTokens :: int

definition DEFAULT_COMPACTION_SETTINGS :: compaction_settings where
  "DEFAULT_COMPACTION_SETTINGS = \<lparr>s_enabled = True, s_reserveTokens = 16384, s_keepRecentTokens = 20000\<rparr>"

definition shouldCompact :: "int \<Rightarrow> int \<Rightarrow> compaction_settings \<Rightarrow> bool" where
  "shouldCompact contextTokens contextWindow s =
     (if \<not> s_enabled s then False
      else if contextWindow \<le> 0 then False
      else contextTokens > contextWindow - s_reserveTokens s)"

section \<open>The cut point\<close>

definition is_cut_point :: "session_entry \<Rightarrow> bool" where
  "is_cut_point e = (case e_body e of
     MessageE m \<Rightarrow> (case m of ToolResultMessage _ \<Rightarrow> False | HookMessage _ \<Rightarrow> False | _ \<Rightarrow> True)
   | BranchSummary _ \<Rightarrow> True
   | CustomMessageE _ _ _ _ \<Rightarrow> True
   | _ \<Rightarrow> False)"

definition findValidCutPoints :: "session_entry list \<Rightarrow> nat \<Rightarrow> nat \<Rightarrow> nat list" where
  "findValidCutPoints es s t = filter (\<lambda>i. is_cut_point (es ! i)) [s..<t]"

definition is_turn_start :: "session_entry \<Rightarrow> bool" where
  "is_turn_start e = (case e_body e of
     BranchSummary _ \<Rightarrow> True
   | CustomMessageE _ _ _ _ \<Rightarrow> True
   | MessageE m \<Rightarrow> (case m of UserMessage _ _ \<Rightarrow> True | BashExecution _ \<Rightarrow> True | _ \<Rightarrow> False)
   | _ \<Rightarrow> False)"

text \<open>\<open>-1\<close> is \<open>None\<close>.\<close>

definition findTurnStartIndex :: "session_entry list \<Rightarrow> nat \<Rightarrow> nat \<Rightarrow> nat option" where
  "findTurnStartIndex es i s = find_last (\<lambda>j. is_turn_start (es ! j)) [s..<Suc i]"

record cut_point_result =
  cp_firstKept :: nat
  cp_turnStart :: "nat option"
  cp_isSplitTurn :: bool

text \<open>The backward scan that adds up message sizes; the indices come newest first.\<close>

fun scan_back :: "session_entry list \<Rightarrow> nat list \<Rightarrow> int \<Rightarrow> nat list \<Rightarrow> int \<Rightarrow> nat \<Rightarrow> nat" where
  "scan_back es cutPoints keep [] acc c0 = c0"
| "scan_back es cutPoints keep (i # js) acc c0 =
     (case e_body (es ! i) of
        MessageE m \<Rightarrow>
          let acc' = acc + estimateTokens m
          in if acc' \<ge> keep
             then (case find (\<lambda>c. c \<ge> i) cutPoints of Some c \<Rightarrow> c | None \<Rightarrow> c0)
             else scan_back es cutPoints keep js acc' c0
      | _ \<Rightarrow> scan_back es cutPoints keep js acc c0)"

definition stops_retreat :: "session_entry \<Rightarrow> bool" where
  "stops_retreat e = (case e_body e of Compaction _ \<Rightarrow> True | MessageE _ \<Rightarrow> True | _ \<Rightarrow> False)"

fun retreat :: "session_entry list \<Rightarrow> nat \<Rightarrow> nat \<Rightarrow> nat" where
  "retreat es s 0 = 0"
| "retreat es s (Suc c) = (if s < Suc c \<and> \<not> stops_retreat (es ! c) then retreat es s c else Suc c)"

definition is_user_entry :: "session_entry \<Rightarrow> bool" where
  "is_user_entry e = (case e_body e of MessageE (UserMessage _ _) \<Rightarrow> True | _ \<Rightarrow> False)"

definition findCutPoint :: "session_entry list \<Rightarrow> nat \<Rightarrow> nat \<Rightarrow> int \<Rightarrow> cut_point_result" where
  "findCutPoint es s t keep =
     (let cutPoints = findValidCutPoints es s t
      in if cutPoints = [] then \<lparr>cp_firstKept = s, cp_turnStart = None, cp_isSplitTurn = False\<rparr>
         else let c0 = retreat es s (scan_back es cutPoints keep (rev [s..<t]) 0 (hd cutPoints));
                  isUser = is_user_entry (es ! c0);
                  turnStart = (if isUser then None else findTurnStartIndex es c0 s)
              in \<lparr>cp_firstKept = c0, cp_turnStart = turnStart, cp_isSplitTurn = (\<not> isUser \<and> turnStart \<noteq> None)\<rparr>)"

section \<open>Preparation\<close>

record compaction_preparation =
  p_firstKeptEntryId :: string
  p_messagesToSummarize :: "agent_message list"
  p_turnPrefixMessages :: "agent_message list"
  p_isSplitTurn :: bool
  p_tokensBefore :: int
  p_previousSummary :: "string option"
  p_fileOps :: file_operations
  p_settings :: compaction_settings

definition messages_between :: "session_entry list \<Rightarrow> nat \<Rightarrow> nat \<Rightarrow> agent_message list" where
  "messages_between es i j = List.map_filter getMessageFromEntryForCompaction (take (j - i) (drop i es))"

definition boundary_start :: "session_entry list \<Rightarrow> nat option \<Rightarrow> nat" where
  "boundary_start es prev =
     (case prev of
        None \<Rightarrow> 0
      | Some p \<Rightarrow> (case e_body (es ! p) of
            Compaction c \<Rightarrow> (case find_index (\<lambda>e. e_id e = cd_firstKeptEntryId c) es of
                Some i \<Rightarrow> i | None \<Rightarrow> Suc p)
          | _ \<Rightarrow> 0))"

text \<open>
  The outer option is the walk of \<open>buildSessionContext\<close>, which may not return; the inner one is
  \<open>undefined\<close>, no compaction.
\<close>

definition prepareCompaction ::
  "session_entry list \<Rightarrow> compaction_settings \<Rightarrow> compaction_preparation option option" where
  "prepareCompaction es settings =
     (if es \<noteq> [] \<and> is_compaction (last es) then Some None
      else let prev = find_last (\<lambda>i. is_compaction (es ! i)) [0..<length es];
               previousSummary = (case prev of None \<Rightarrow> None
                 | Some p \<Rightarrow> (case e_body (es ! p) of Compaction c \<Rightarrow> Some (cd_summary c) | _ \<Rightarrow> None));
               s = boundary_start es prev
           in case buildSessionContext es LeafUndefined None of
                None \<Rightarrow> None
              | Some ctx \<Rightarrow>
                  let tokensBefore = ce_tokens (estimateContextTokens (sc_messages ctx));
                      c0 = findCutPoint es s (length es) (s_keepRecentTokens settings);
                      k = cp_firstKept c0
                  in if k \<ge> length es \<or> e_id (es ! k) = [] then Some None
                     else let historyEnd = (if cp_isSplitTurn c0 then the (cp_turnStart c0) else k);
                              toSummarize = messages_between es s historyEnd;
                              prefix = (if cp_isSplitTurn c0 then messages_between es (the (cp_turnStart c0)) k else [])
                          in if toSummarize = [] \<and> prefix = [] \<and> \<not> truthy previousSummary then Some None
                             else let ops0 = extractFileOperations toSummarize es prev;
                                      ops = (if cp_isSplitTurn c0
                                             then foldl (\<lambda>acc m. extractFileOpsFromMessage m acc) ops0 prefix else ops0)
                                  in Some (Some \<lparr>p_firstKeptEntryId = e_id (es ! k), p_messagesToSummarize = toSummarize,
                                       p_turnPrefixMessages = prefix, p_isSplitTurn = cp_isSplitTurn c0,
                                       p_tokensBefore = tokensBefore, p_previousSummary = previousSummary,
                                       p_fileOps = ops, p_settings = settings\<rparr>))"

section \<open>Summaries\<close>

text \<open>The three fixed texts of the file; the model never looks into them.\<close>

record summary_prompts =
  SUMMARIZATION_PROMPT :: string
  UPDATE_SUMMARIZATION_PROMPT :: string
  KERNEL_PERSIST_SUMMARY_NOTE :: string
  TURN_PREFIX_SUMMARIZATION_PROMPT :: string

definition buildSummarizationPrompt :: "summary_prompts \<Rightarrow> string option \<Rightarrow> string option \<Rightarrow> string" where
  "buildSummarizationPrompt P instructions previous =
     (let base = (if truthy previous then UPDATE_SUMMARIZATION_PROMPT P else SUMMARIZATION_PROMPT P);
          base = (if truthy instructions
                  then base @ nl @ nl @ ''<user-instructions>'' @ nl
                    @ ''The user provided these instructions for this summary. Follow them with high priority while keeping the section format above: emphasize what they ask to focus on, and preserve verbatim anything they ask to remember.''
                    @ nl @ the instructions @ nl @ ''</user-instructions>''
                  else base)
      in base @ nl @ nl @ KERNEL_PERSIST_SUMMARY_NOTE P)"

text \<open>
  \<open>completeSimple\<close>: the answer to a prompt with a limit on its tokens. It stands for a network call of
  \<open>packages/ai\<close>.
\<close>

type_synonym completion = "string \<Rightarrow> int \<Rightarrow> assistant_message"

definition answer_text :: "assistant_message \<Rightarrow> string" where
  "answer_text m = join nl (concat (map (\<lambda>b. case b of AText t _ \<Rightarrow> [t] | _ \<Rightarrow> []) (am_content m)))"

definition conversation_prompt :: "agent_message list \<Rightarrow> string" where
  "conversation_prompt ms =
     ''<conversation>'' @ nl @ serializeConversation (convertToLlm ms) @ nl @ ''</conversation>'' @ nl @ nl"

definition generateSummary ::
  "summary_prompts \<Rightarrow> completion \<Rightarrow> agent_message list \<Rightarrow> int \<Rightarrow> string option \<Rightarrow> string option
     \<Rightarrow> (string \<times> usage option) result" where
  "generateSummary P llm ms reserve instructions previous =
     (let maxTokens = reserve * 4 div 5;
          prompt = conversation_prompt ms
            @ (if truthy previous
               then ''<previous-summary>'' @ nl @ the previous @ nl @ ''</previous-summary>'' @ nl @ nl else [])
            @ buildSummarizationPrompt P instructions previous;
          response = llm prompt maxTokens
      in if am_stopReason response = StopError
         then Inl (Error (''Summarization failed: '' @ or_else (am_errorMessage response) ''Unknown error''))
         else Inr (answer_text response, Some (am_usage response)))"

definition generateTurnPrefixSummary ::
  "summary_prompts \<Rightarrow> completion \<Rightarrow> agent_message list \<Rightarrow> int \<Rightarrow> (string \<times> usage option) result" where
  "generateTurnPrefixSummary P llm ms reserve =
     (let maxTokens = reserve div 2;
          response = llm (conversation_prompt ms @ TURN_PREFIX_SUMMARIZATION_PROMPT P) maxTokens
      in if am_stopReason response = StopError
         then Inl (Error (''Turn prefix summarization failed: '' @ or_else (am_errorMessage response) ''Unknown error''))
         else Inr (answer_text response, Some (am_usage response)))"

record compaction_result =
  cr_summary :: string
  cr_firstKeptEntryId :: string
  cr_tokensBefore :: int
  cr_readFiles :: "string list"
  cr_modifiedFiles :: "string list"
  cr_usage :: "usage option"

definition slices_usage :: "usage option list \<Rightarrow> usage option" where
  "slices_usage us = foldl (\<lambda>acc u. case u of
      None \<Rightarrow> acc
    | Some u \<Rightarrow> Some (addAssistantUsage (nullish acc emptyUsage) u)) None us"

text \<open>The two calls of a split turn run together; when both fail the error of the first is taken.\<close>

definition compact ::
  "summary_prompts \<Rightarrow> completion \<Rightarrow> compaction_preparation \<Rightarrow> string option \<Rightarrow> compaction_result result" where
  "compact P llm prep instructions =
     (let reserve = s_reserveTokens (p_settings prep);
          summarize = (\<lambda>_::unit. generateSummary P llm (p_messagesToSummarize prep) reserve instructions
                                   (p_previousSummary prep));
          parts = (if p_isSplitTurn prep \<and> p_turnPrefixMessages prep \<noteq> [] then
              (case (if p_messagesToSummarize prep \<noteq> [] then summarize () else Inr (''No prior history.'', None)) of
                 Inl e \<Rightarrow> Inl e
               | Inr (h, hu) \<Rightarrow>
                   (case generateTurnPrefixSummary P llm (p_turnPrefixMessages prep) reserve of
                      Inl e \<Rightarrow> Inl e
                    | Inr (t, tu) \<Rightarrow>
                        Inr (h @ nl @ nl @ ''---'' @ nl @ nl @ ''**Turn Context (split turn):**'' @ nl @ nl @ t, [hu, tu])))
            else (case summarize () of Inl e \<Rightarrow> Inl e | Inr (s, su) \<Rightarrow> Inr (s, [su])))
      in case parts of
           Inl e \<Rightarrow> Inl e
         | Inr (summary, us) \<Rightarrow>
             let (readFiles, modifiedFiles) = computeFileLists (p_fileOps prep)
             in if p_firstKeptEntryId prep = []
                then Inl (Error ''First kept entry has no UUID - session may need migration'')
                else Inr \<lparr>cr_summary = summary @ formatFileOperations readFiles modifiedFiles,
                       cr_firstKeptEntryId = p_firstKeptEntryId prep, cr_tokensBefore = p_tokensBefore prep,
                       cr_readFiles = readFiles, cr_modifiedFiles = modifiedFiles, cr_usage = slices_usage us\<rparr>)"

end
