(* ===== verification/Message_Pairs.thy ===== *)
theory Message_Pairs
  imports Messages
begin

text \<open>
  Tool results and the calls they answer: the order of messages a provider accepts, which the agent
  loop keeps and compaction must not break.
\<close>

text \<open>
  \<open>paired calls ms\<close>: every tool result of \<open>ms\<close> answers a call of the assistant message before it, with
  only tool results in between; \<open>calls\<close> are the ids that may be answered at the start.
\<close>

fun tool_calls_of :: "assistant_block list \<Rightarrow> tool_call list" where
  "tool_calls_of [] = []"
| "tool_calls_of (AToolCall tc # bs) = tc # tool_calls_of bs"
| "tool_calls_of (b # bs) = tool_calls_of bs"

fun paired :: "string list \<Rightarrow> agent_message list \<Rightarrow> bool" where
  "paired calls [] = True"
| "paired calls (AssistantMessage m # ms) = paired (map tc_id (tool_calls_of (am_content m))) ms"
| "paired calls (ToolResultMessage r # ms) = (tr_toolCallId r \<in> set calls \<and> paired calls ms)"
| "paired calls (m # ms) = paired [] ms"

fun is_tool_result :: "agent_message \<Rightarrow> bool" where
  "is_tool_result (ToolResultMessage _) = True"
| "is_tool_result _ = False"

lemma paired_Cons: "\<not> is_tool_result m \<Longrightarrow> paired calls (m # ms) = paired calls' (m # ms)"
  by (cases m) auto

lemma paired_rest: "paired calls (m # ms) \<Longrightarrow> \<exists>calls'. paired calls' ms"
  by (cases m) auto

lemma paired_suffix: "paired calls (xs @ ys) \<Longrightarrow> \<exists>calls'. paired calls' ys"
proof (induction xs arbitrary: calls)
  case (Cons x xs)
  from Cons.prems have "paired calls (x # (xs @ ys))" by simp
  from paired_rest [OF this] Cons.IH show ?case by blast
qed auto

lemma paired_suffix_start:
  assumes "paired calls (xs @ ys)" "ys \<noteq> [] \<Longrightarrow> \<not> is_tool_result (hd ys)"
  shows "paired calls' ys"
proof (cases ys)
  case (Cons y zs)
  from paired_suffix [OF assms(1)] Cons obtain c where "paired c (y # zs)" by blast
  moreover have "\<not> is_tool_result y" using assms(2) Cons by simp
  ultimately show ?thesis unfolding Cons using paired_Cons by blast
qed simp

lemma tool_result_cases: "is_tool_result m \<longleftrightarrow> (\<exists>r. m = ToolResultMessage r)"
  by (cases m) auto

text \<open>Appending messages that are no tool results, or the results of open calls.\<close>

lemma paired_append_plain:
  assumes "paired calls ms" "\<forall>x\<in>set xs. \<not> is_tool_result x"
  shows "paired calls (ms @ xs)"
proof -
  have plain: "paired c xs" if "\<forall>x\<in>set xs. \<not> is_tool_result x" for c xs
    using that
  proof (induction xs arbitrary: c)
    case (Cons x xs)
    then show ?case by (cases x) auto
  qed simp
  show ?thesis using assms
  proof (induction calls ms rule: paired.induct)
    case (1 calls)
    then show ?case by (simp add: plain)
  qed auto
qed

lemma paired_append_results:
  assumes "paired calls (ms @ [AssistantMessage m])"
    "\<forall>r\<in>set rs. tr_toolCallId r \<in> set (map tc_id (tool_calls_of (am_content m)))"
  shows "paired calls (ms @ [AssistantMessage m] @ map ToolResultMessage rs)"
proof -
  have results: "\<forall>r\<in>set rs. tr_toolCallId r \<in> set c \<Longrightarrow> paired c (map ToolResultMessage rs)" for c
    by (induction rs) auto
  show ?thesis using assms
  proof (induction calls ms rule: paired.induct)
    case (1 calls)
    then show ?case using results by simp
  qed auto
qed

end
