(* ===== verification/Compaction_Props.thy ===== *)
theory Compaction_Props
  imports Compaction Session_Branched Message_Pairs
begin

text \<open>
  Properties of compaction: where the cut can fall, that no tool result loses its call, that
  nothing of the context is lost between summary, turn prefix and kept messages, how much is kept,
  and the file lists of a summary.
\<close>

section \<open>The scan and the retreat\<close>

lemma scan_back_in: "scan_back es cps keep js acc c0 \<in> insert c0 (set cps)"
proof (induction es cps keep js acc c0 rule: scan_back.induct)
  case (2 es cps keep i js acc c0)
  show ?case
  proof (cases "e_body (es ! i)")
    case (MessageE m)
    with 2(1) [OF MessageE refl] show ?thesis
      by (auto simp: Let_def find_Some_iff split: option.split)
  qed (use 2 in auto)
qed simp

lemma retreat_le: "retreat es s c \<le> c"
  by (induction c) auto

lemma retreat_ge: "s \<le> c \<Longrightarrow> s \<le> retreat es s c"
  by (induction c) auto

lemma retreat_between: "retreat es s c \<le> j \<Longrightarrow> j < c \<Longrightarrow> \<not> stops_retreat (es ! j)"
proof (induction c)
  case (Suc c)
  then show ?case by (cases "j = c") (auto split: if_splits)
qed simp

text \<open>The entry the kept part starts with, found without the retreat over settings entries.\<close>

lemma cut_point_entry:
  assumes "findValidCutPoints es s t \<noteq> []"
  obtains c where "c \<in> set (findValidCutPoints es s t)" "s \<le> cp_firstKept (findCutPoint es s t keep)"
    "cp_firstKept (findCutPoint es s t keep) \<le> c" "c < t" "is_cut_point (es ! c)"
    "\<And>j. cp_firstKept (findCutPoint es s t keep) \<le> j \<Longrightarrow> j < c \<Longrightarrow> \<not> stops_retreat (es ! j)"
    "c = scan_back es (findValidCutPoints es s t) keep (rev [s..<t]) 0 (hd (findValidCutPoints es s t))"
proof -
  let ?cps = "findValidCutPoints es s t"
  let ?c = "scan_back es ?cps keep (rev [s..<t]) 0 (hd ?cps)"
  have k: "cp_firstKept (findCutPoint es s t keep) = retreat es s ?c"
    using assms by (simp add: findCutPoint_def Let_def)
  have mem: "?c \<in> set ?cps" using scan_back_in [of es ?cps keep "rev [s..<t]" 0 "hd ?cps"] assms by auto
  then have c: "s \<le> ?c" "?c < t" "is_cut_point (es ! ?c)" by (auto simp: findValidCutPoints_def)
  show thesis
    using that [OF mem _ _ c(2,3) _ refl] retreat_le [of es s ?c] retreat_ge [OF c(1), of es]
      retreat_between [of es s ?c] unfolding k by blast
qed

lemma turn_start_range:
  "findTurnStartIndex es i s = Some j \<Longrightarrow> s \<le> j \<and> j \<le> i \<and> is_turn_start (es ! j)"
  unfolding findTurnStartIndex_def by (drule find_last_Some) auto

lemma split_turn_start:
  assumes "cp_isSplitTurn (findCutPoint es s t keep)"
  shows "\<exists>j. cp_turnStart (findCutPoint es s t keep) = Some j \<and> s \<le> j
    \<and> j \<le> cp_firstKept (findCutPoint es s t keep)"
proof -
  obtain j where j: "cp_turnStart (findCutPoint es s t keep) = Some j"
    "findTurnStartIndex es (cp_firstKept (findCutPoint es s t keep)) s = Some j"
    using assms by (auto simp: findCutPoint_def Let_def split: if_splits)
  with turn_start_range [OF j(2)] show ?thesis by blast
qed

section \<open>Tool results keep their call\<close>

definition summaries_nonempty :: "session_entry list \<Rightarrow> bool" where
  "summaries_nonempty es =
     list_all (\<lambda>e. case e_body e of BranchSummary b \<Rightarrow> bd_summary b \<noteq> [] | _ \<Rightarrow> True) es"

lemma quiet_context:
  "\<not> stops_retreat e \<Longrightarrow> x \<in> set (context_message e) \<Longrightarrow> \<not> is_tool_result x"
  by (auto simp: stops_retreat_def context_message_def createCustomMessage_def createBranchSummaryMessage_def
      split: entry_body.splits if_splits)

lemma cut_point_context:
  assumes "is_cut_point e" "case e_body e of BranchSummary b \<Rightarrow> bd_summary b \<noteq> [] | _ \<Rightarrow> True"
  obtains x where "context_message e = [x]" "\<not> is_tool_result x"
  using assms by (auto simp: is_cut_point_def context_message_def createCustomMessage_def
      createBranchSummaryMessage_def split: entry_body.splits agent_message.splits)

lemma hd_append_cases:
  "\<forall>x\<in>set xs. \<not> is_tool_result x \<Longrightarrow> \<not> is_tool_result (hd zs) \<Longrightarrow> \<not> is_tool_result (hd (xs @ zs))"
  by (cases xs) auto

lemma kept_context_start:
  assumes "findValidCutPoints es s t \<noteq> []" "t \<le> length es" "summaries_nonempty es"
  shows "\<not> is_tool_result (hd (context_messages (drop (cp_firstKept (findCutPoint es s t keep)) es)))"
proof -
  let ?k = "cp_firstKept (findCutPoint es s t keep)"
  obtain c where c: "?k \<le> c" "c < t" "is_cut_point (es ! c)" and
    quiet: "\<And>j. ?k \<le> j \<Longrightarrow> j < c \<Longrightarrow> \<not> stops_retreat (es ! j)"
    by (rule cut_point_entry [OF assms(1)]) blast
  have len: "c < length es" using c(2) assms(2) by simp
  define xs where "xs = take (c - ?k) (drop ?k es)"
  have parts: "drop ?k es = xs @ es ! c # drop (Suc c) es"
  proof -
    have "drop (c - ?k) (drop ?k es) = es ! c # drop (Suc c) es"
      using c(1) len by (simp add: Cons_nth_drop_Suc)
    then show ?thesis using append_take_drop_id [of "c - ?k" "drop ?k es"] unfolding xs_def by metis
  qed
  have ne: "case e_body (es ! c) of BranchSummary b \<Rightarrow> bd_summary b \<noteq> [] | _ \<Rightarrow> True"
    using assms(3) len by (simp add: summaries_nonempty_def list_all_length)
  from cut_point_context [OF c(3) ne] obtain x where x: "context_message (es ! c) = [x]" "\<not> is_tool_result x" .
  have "\<forall>e\<in>set xs. \<not> stops_retreat e"
    using quiet c(1) len by (auto simp: in_set_conv_nth xs_def)
  then have "\<forall>y\<in>set (context_messages xs). \<not> is_tool_result y"
    using quiet_context by (fastforce simp: context_messages_def)
  moreover have "\<not> is_tool_result (hd (context_messages (es ! c # drop (Suc c) es)))"
    using x by (simp add: context_messages_def)
  ultimately have "\<not> is_tool_result (hd (context_messages (xs @ es ! c # drop (Suc c) es)))"
    unfolding context_messages_append by (rule hd_append_cases)
  then show ?thesis unfolding parts .
qed

section \<open>What a preparation holds\<close>

definition previous_compaction :: "session_entry list \<Rightarrow> nat option" where
  "previous_compaction es = find_last (\<lambda>i. is_compaction (es ! i)) [0..<length es]"

definition cut_of :: "session_entry list \<Rightarrow> compaction_settings \<Rightarrow> cut_point_result" where
  "cut_of es st = findCutPoint es (boundary_start es (previous_compaction es)) (length es) (s_keepRecentTokens st)"

definition history_end :: "cut_point_result \<Rightarrow> nat" where
  "history_end c = (if cp_isSplitTurn c then the (cp_turnStart c) else cp_firstKept c)"

text \<open>\<open>prepareCompaction\<close> over the intermediate values above.\<close>

lemma prepare_unfold:
  "prepareCompaction es st =
     (if es \<noteq> [] \<and> is_compaction (last es) then Some None
      else case buildSessionContext es LeafUndefined None of
        None \<Rightarrow> None
      | Some ctx \<Rightarrow>
          let c = cut_of es st; k = cp_firstKept c; prev = previous_compaction es;
              toSummarize = messages_between es (boundary_start es prev) (history_end c);
              prefix = (if cp_isSplitTurn c then messages_between es (the (cp_turnStart c)) k else []);
              previous = (case prev of None \<Rightarrow> None
                | Some p \<Rightarrow> (case e_body (es ! p) of Compaction c \<Rightarrow> Some (cd_summary c) | _ \<Rightarrow> None));
              ops = extractFileOperations toSummarize es prev
          in if k \<ge> length es \<or> e_id (es ! k) = [] then Some None
             else if toSummarize = [] \<and> prefix = [] \<and> \<not> truthy previous then Some None
             else Some (Some \<lparr>p_firstKeptEntryId = e_id (es ! k), p_messagesToSummarize = toSummarize,
               p_turnPrefixMessages = prefix, p_isSplitTurn = cp_isSplitTurn c,
               p_tokensBefore = ce_tokens (estimateContextTokens (sc_messages ctx)), p_previousSummary = previous,
               p_fileOps = (if cp_isSplitTurn c
                 then foldl (\<lambda>acc m. extractFileOpsFromMessage m acc) ops prefix else ops),
               p_settings = st\<rparr>))"
  unfolding prepareCompaction_def cut_of_def previous_compaction_def history_end_def Let_def by (rule refl)

lemma prefix_between:
  "(if cp_isSplitTurn c then messages_between es (the (cp_turnStart c)) (cp_firstKept c) else [])
     = messages_between es (history_end c) (cp_firstKept c)"
  by (simp add: history_end_def messages_between_def List.map_filter_simps)

lemma prepare_Some:
  assumes "prepareCompaction es st = Some (Some prep)"
  obtains ctx where "buildSessionContext es LeafUndefined None = Some ctx"
    "cp_firstKept (cut_of es st) < length es"
    "prep = \<lparr>p_firstKeptEntryId = e_id (es ! cp_firstKept (cut_of es st)),
      p_messagesToSummarize = messages_between es (boundary_start es (previous_compaction es)) (history_end (cut_of es st)),
      p_turnPrefixMessages = messages_between es (history_end (cut_of es st)) (cp_firstKept (cut_of es st)),
      p_isSplitTurn = cp_isSplitTurn (cut_of es st),
      p_tokensBefore = ce_tokens (estimateContextTokens (sc_messages ctx)),
      p_previousSummary = (case previous_compaction es of None \<Rightarrow> None
        | Some p \<Rightarrow> (case e_body (es ! p) of Compaction c \<Rightarrow> Some (cd_summary c) | _ \<Rightarrow> None)),
      p_fileOps = foldl (\<lambda>acc m. extractFileOpsFromMessage m acc)
        (extractFileOperations (messages_between es (boundary_start es (previous_compaction es))
          (history_end (cut_of es st))) es (previous_compaction es))
        (messages_between es (history_end (cut_of es st)) (cp_firstKept (cut_of es st))),
      p_settings = st\<rparr>"
proof -
  have fold_if: "(if b then foldl f x (if b then ys else []) else x) = foldl f x (if b then ys else [])"
    for b and f :: "file_operations \<Rightarrow> agent_message \<Rightarrow> file_operations" and x ys by simp
  show thesis
  proof (cases "buildSessionContext es LeafUndefined None")
    case None
    then show thesis using assms by (simp add: prepare_unfold split: if_splits)
  next
    case (Some ctx)
    with assms show thesis
      unfolding prepare_unfold Let_def fold_if prefix_between
      by (intro that [OF Some]) (simp_all split: if_splits)
  qed
qed

lemma prepare_fields:
  assumes "prepareCompaction es st = Some (Some prep)"
  shows "cp_firstKept (cut_of es st) < length es"
    and "p_firstKeptEntryId prep = e_id (es ! cp_firstKept (cut_of es st))"
    and "p_messagesToSummarize prep =
      messages_between es (boundary_start es (previous_compaction es)) (history_end (cut_of es st))"
    and "p_turnPrefixMessages prep =
      messages_between es (history_end (cut_of es st)) (cp_firstKept (cut_of es st))"
    and "p_previousSummary prep = (case previous_compaction es of None \<Rightarrow> None
      | Some p \<Rightarrow> (case e_body (es ! p) of Compaction c \<Rightarrow> Some (cd_summary c) | _ \<Rightarrow> None))"
    and "p_fileOps prep = foldl (\<lambda>acc m. extractFileOpsFromMessage m acc)
      (extractFileOperations (p_messagesToSummarize prep) es (previous_compaction es)) (p_turnPrefixMessages prep)"
    and "p_settings prep = st"
  by (rule prepare_Some [OF assms], simp)+

lemma getMessage_context:
  assumes "case e_body e of BranchSummary b \<Rightarrow> bd_summary b \<noteq> [] | _ \<Rightarrow> True"
  shows "(case getMessageFromEntryForCompaction e of None \<Rightarrow> [] | Some m \<Rightarrow> [m]) = context_message e"
  using assms
  by (auto simp: getMessageFromEntryForCompaction_def context_message_def is_compaction.simps
      split: entry_body.splits)

lemma map_filter_concat: "List.map_filter f xs = concat (map (\<lambda>x. case f x of None \<Rightarrow> [] | Some y \<Rightarrow> [y]) xs)"
  by (induction xs) (auto simp: List.map_filter_simps split: option.splits)

lemma messages_between_context:
  assumes "summaries_nonempty es"
  shows "messages_between es i j = context_messages (take (j - i) (drop i es))"
  unfolding messages_between_def map_filter_concat context_messages_def
  by (rule arg_cong [of _ _ concat], rule map_cong [OF refl], rule getMessage_context)
    (use assms in \<open>auto simp: summaries_nonempty_def list_all_iff dest!: in_set_takeD in_set_dropD\<close>)

lemma take_drop_split: "i \<le> j \<Longrightarrow> j \<le> k \<Longrightarrow> drop i xs = take (j - i) (drop i xs) @ take (k - j) (drop j xs) @ drop k xs"
proof -
  assume "i \<le> j" "j \<le> k"
  then have "drop j xs = drop (j - i) (drop i xs)" "drop k xs = drop (k - j) (drop j xs)" by simp_all
  then show ?thesis by (metis append_take_drop_id)
qed

lemma cut_range:
  assumes "cp_firstKept (cut_of es st) < length es"
  shows "boundary_start es (previous_compaction es) \<le> history_end (cut_of es st)"
    and "history_end (cut_of es st) \<le> cp_firstKept (cut_of es st)"
proof -
  let ?s = "boundary_start es (previous_compaction es)" and ?c = "cut_of es st"
  show "history_end ?c \<le> cp_firstKept ?c"
    using split_turn_start [of es ?s "length es" "s_keepRecentTokens st"]
    by (auto simp: history_end_def cut_of_def)
  have k: "?s \<le> cp_firstKept ?c"
  proof (cases "findValidCutPoints es ?s (length es) = []")
    case True
    then show ?thesis by (simp add: cut_of_def findCutPoint_def)
  next
    case False
    then show ?thesis using cut_point_entry [OF False, of thesis for thesis] unfolding cut_of_def by metis
  qed
  show "?s \<le> history_end ?c"
    using k split_turn_start [of es ?s "length es" "s_keepRecentTokens st"]
    by (auto simp: history_end_def cut_of_def)
qed

text \<open>The context from the boundary on is what is summarised, the turn prefix, and what is kept.\<close>

lemma partition_from_boundary:
  assumes "prepareCompaction es st = Some (Some prep)" "summaries_nonempty es"
  shows "context_messages (drop (boundary_start es (previous_compaction es)) es)
    = p_messagesToSummarize prep @ p_turnPrefixMessages prep
      @ context_messages (drop (cp_firstKept (cut_of es st)) es)"
proof -
  note f = prepare_fields [OF assms(1)]
  from take_drop_split [OF cut_range [OF f(1)], of es] show ?thesis
    unfolding f(3,4) messages_between_context [OF assms(2)] by (metis context_messages_append)
qed

lemma dropWhile_id:
  assumes "distinct (map e_id es)" "k < length es"
  shows "dropWhile (\<lambda>e. e_id e \<noteq> e_id (es ! k)) es = drop k es"
  using assms
proof (induction es arbitrary: k)
  case (Cons e es)
  then show ?case by (cases k) (auto simp: nth_mem)
qed simp

lemma dropWhile_found: "find_index P xs = Some i \<Longrightarrow> dropWhile (\<lambda>x. \<not> P x) xs = drop i xs"
  by (induction xs arbitrary: i) auto

lemma find_index_None: "find_index P xs = None \<longleftrightarrow> (\<forall>x\<in>set xs. \<not> P x)"
  by (induction xs) auto

lemma find_last_upt:
  "find_last P [0..<n] = Some p \<Longrightarrow> p < n \<and> P p \<and> (\<forall>j. p < j \<longrightarrow> j < n \<longrightarrow> \<not> P j)"
proof (induction n)
  case (Suc n)
  then show ?case by (cases "P n") (auto simp: less_Suc_eq)
qed simp

definition kept_before_previous :: "session_entry list \<Rightarrow> bool" where
  "kept_before_previous es =
     (case previous_compaction es of None \<Rightarrow> True
      | Some p \<Rightarrow> boundary_start es (Some p) \<le> Suc p)"

text \<open>
  The context of a path: the summary of its last compaction, if any, then the messages from the
  boundary on, which is where the next compaction starts.
\<close>

lemma context_from_boundary:
  assumes "distinct (map e_id q)" "kept_before_previous q"
  obtains pre where "sc_messages (path_context q) = pre @ context_messages (drop (boundary_start q (previous_compaction q)) q)"
    "length pre \<le> 1" "\<And>x. x \<in> set pre \<Longrightarrow> \<exists>c. x = CompactionSummaryMessage c"
    "previous_compaction q = None \<longleftrightarrow> pre = []"
proof (cases "previous_compaction q")
  case None
  then have "\<forall>e\<in>set q. \<not> is_compaction e"
    unfolding previous_compaction_def find_last_None by (auto simp: in_set_conv_nth)
  then have "find_last is_compaction q = None" by (simp add: find_last_None)
  then have "sc_messages (path_context q) = context_messages q"
    by (simp add: path_context_messages path_messages_def)
  then show thesis using None that [of "[]"] by (simp add: boundary_start_def)
next
  case (Some p)
  from find_last_upt [OF this [unfolded previous_compaction_def]] have
    p: "p < length q" "is_compaction (q ! p)" "\<forall>j. p < j \<longrightarrow> j < length q \<longrightarrow> \<not> is_compaction (q ! j)" by blast+
  from p(2) obtain d where d: "e_body (q ! p) = Compaction d"
    by (auto simp: is_compaction.simps split: entry_body.splits)
  have q: "q = take p q @ q ! p # drop (Suc p) q" using p(1) by (simp add: id_take_nth_drop)
  have nid: "e_id (q ! p) \<notin> ids (take p q)"
  proof -
    have "distinct (map e_id (take p q @ q ! p # drop (Suc p) q))" using assms(1) q by argo
    then show ?thesis by auto
  qed
  have nc: "\<forall>y\<in>set (drop (Suc p) q). \<not> is_compaction y"
    using p(3) by (auto simp: in_set_conv_nth)
  define retained where "retained = retained_from (cd_firstKeptEntryId d) False (take p q)"
  let ?b = "boundary_start q (Some p)"
  have none: "context_message (q ! p) = []" using d by (simp add: context_message_def)
  have step: "drop p q = q ! p # drop (Suc p) q" using p(1) by (simp add: Cons_nth_drop_Suc)
  have "retained @ context_messages (drop (Suc p) q) = context_messages (drop ?b q)"
  proof (cases "find_index (\<lambda>e. e_id e = cd_firstKeptEntryId d) q")
    case None
    then have "retained = []"
      unfolding retained_def find_index_None by (intro retained_from_absent) (auto dest: in_set_takeD)
    with None d show ?thesis by (simp add: boundary_start_def)
  next
    case (Some i)
    then have b: "?b = i" using d by (simp add: boundary_start_def)
    show ?thesis
    proof (cases "i \<le> p")
      case True
      have "retained = context_messages (drop i (take p q))"
      proof (cases "i < p")
        case True
        with Some p(1) have "find_index (\<lambda>e. e_id e = cd_firstKeptEntryId d) (take p q) = Some i"
          by (simp add: find_index_Some)
        from dropWhile_found [OF this] show ?thesis by (simp add: retained_def retained_from_dropWhile)
      next
        case False
        have "cd_firstKeptEntryId d \<notin> ids (take p q)"
        proof
          assume "cd_firstKeptEntryId d \<in> ids (take p q)"
          then obtain j where "j < p" "e_id (q ! j) = cd_firstKeptEntryId d"
            by (auto simp: in_set_conv_nth)
          with Some False show False by (auto simp: find_index_Some)
        qed
        then show ?thesis using False by (simp add: retained_def retained_from_absent)
      qed
      moreover have "drop i q = drop i (take p q) @ drop p q"
        using True p(1) by (metis append_take_drop_id drop_append length_take min.absorb4 diff_is_0_eq' drop0)
      ultimately show ?thesis using step none by (simp add: b)
    next
      case False
      then have "i = Suc p" using assms(2) \<open>previous_compaction q = Some p\<close> b by (simp add: kept_before_previous_def)
      have "cd_firstKeptEntryId d \<notin> ids (take p q)"
      proof
        assume "cd_firstKeptEntryId d \<in> ids (take p q)"
        then obtain j where "j < p" "e_id (q ! j) = cd_firstKeptEntryId d"
          by (auto simp: in_set_conv_nth)
        with Some \<open>i = Suc p\<close> show False by (auto simp: find_index_Some)
      qed
      then have "retained = []" by (simp add: retained_def retained_from_absent)
      then show ?thesis using b \<open>i = Suc p\<close> by simp
    qed
  qed
  moreover have "sc_messages (path_context q) =
    createCompactionSummaryMessage (cd_summary d) (cd_tokensBefore d) (e_timestamp (q ! p))
      (cd_customInstructions d) (Some (length retained)) # retained @ context_messages (drop (Suc p) q)"
    using path_messages_split [OF d nid nc] q by (simp add: Let_def retained_def)
  ultimately show thesis
    using Some that [of "[createCompactionSummaryMessage (cd_summary d) (cd_tokensBefore d) (e_timestamp (q ! p))
      (cd_customInstructions d) (Some (length retained))]"]
    by (simp add: createCompactionSummaryMessage_def)
qed

section \<open>The two main properties\<close>

lemma branch_distinct:
  assumes "consistent m" "getBranch m None = Some q"
  shows "distinct (map e_id q)"
proof -
  from active_path [OF assms(1)] assms(2) have "subseq q (getEntries m)" by (metis option.inject)
  from subseq_distinct_map [OF this wf_tree_distinct [OF consistent_tree [OF assms(1)]]] show ?thesis .
qed

lemma kept_dropWhile:
  assumes "consistent m" "getBranch m None = Some q" "prepareCompaction q st = Some (Some prep)"
  shows "dropWhile (\<lambda>e. e_id e \<noteq> p_firstKeptEntryId prep) q = drop (cp_firstKept (cut_of q st)) q"
  using dropWhile_id [OF branch_distinct [OF assms(1,2)] prepare_fields(1) [OF assms(3)]]
  by (simp add: prepare_fields(2) [OF assms(3)])



section \<open>How much is kept\<close>

fun entry_tokens :: "session_entry \<Rightarrow> int" where
  "entry_tokens e = (case e_body e of MessageE m \<Rightarrow> estimateTokens m | _ \<Rightarrow> 0)"

text \<open>The estimated size of the message entries \<open>es ! i, \<dots>, es ! (t - 1)\<close>.\<close>

definition tokens_from :: "session_entry list \<Rightarrow> nat \<Rightarrow> nat \<Rightarrow> int" where
  "tokens_from es i t = sum_list (map (\<lambda>j. entry_tokens (es ! j)) [i..<t])"

lemma estimateTokens_nonneg: "0 \<le> estimateTokens m"
  by (cases m) (simp_all add: chars_to_tokens_def)

lemma tokens_from_step: "i < t \<Longrightarrow> tokens_from es i t = entry_tokens (es ! i) + tokens_from es (Suc i) t"
  by (simp add: tokens_from_def upt_conv_Cons)

lemma entry_tokens_nonneg: "0 \<le> entry_tokens e"
  by (simp add: estimateTokens_nonneg split: entry_body.split)

lemma tokens_from_anti: "i \<le> j \<Longrightarrow> tokens_from es j t \<le> tokens_from es i t"
proof (induction j rule: dec_induct)
  case (step n)
  show ?case
  proof (cases "n < t")
    case True
    with step.IH tokens_from_step [OF True, of es] entry_tokens_nonneg [of "es ! n"] show ?thesis by linarith
  next
    case False
    with step.IH show ?thesis by (simp add: tokens_from_def)
  qed
qed simp

text \<open>
  The scan ends at the newest position \<open>i\<close> from which the messages reach the limit, and takes the
  first cut point from there on; when there is none it keeps the default.
\<close>

lemma scan_back_result:
  assumes "s \<le> i" "acc = tokens_from es i t" "acc < keep" "i \<le> t"
  shows "(tokens_from es s t < keep \<and> scan_back es cps keep (rev [s..<i]) acc c0 = c0)
    \<or> (\<exists>j. s \<le> j \<and> j < i \<and> tokens_from es (Suc j) t < keep \<and> keep \<le> tokens_from es j t
        \<and> scan_back es cps keep (rev [s..<i]) acc c0 = (case find (\<lambda>c. c \<ge> j) cps of Some c \<Rightarrow> c | None \<Rightarrow> c0))"
  using assms
proof (induction i arbitrary: acc)
  case 0
  then show ?case by simp
next
  case (Suc i)
  show ?case
  proof (cases "s = Suc i")
    case True
    with Suc.prems show ?thesis by simp
  next
    case False
    then have si: "s \<le> i" using Suc.prems(1) by simp
    have up: "rev [s..<Suc i] = i # rev [s..<i]" using si by simp
    have tf: "tokens_from es i t = entry_tokens (es ! i) + acc"
      using tokens_from_step [of i t es] Suc.prems by simp
    show ?thesis
    proof (cases "tokens_from es i t < keep")
      case True
      have "scan_back es cps keep (rev [s..<Suc i]) acc c0 = scan_back es cps keep (rev [s..<i]) (tokens_from es i t) c0"
        unfolding up using True tf by (auto simp: Let_def add.commute split: entry_body.split)
      moreover have "i \<le> t" using Suc.prems(4) by simp
      ultimately show ?thesis using Suc.IH [OF si refl True] by (auto simp: less_Suc_eq)
    next
      case False
      then have "entry_tokens (es ! i) \<noteq> 0" using tf Suc.prems(3) by auto
      then obtain m where m: "e_body (es ! i) = MessageE m" by (cases "e_body (es ! i)") auto
      have "scan_back es cps keep (rev [s..<Suc i]) acc c0 = (case find (\<lambda>c. c \<ge> i) cps of Some c \<Rightarrow> c | None \<Rightarrow> c0)"
        unfolding up using False tf m by (simp add: Let_def add.commute)
      then show ?thesis using si False Suc.prems(2,3) by auto
    qed
  qed
qed

lemma scan_from_end:
  assumes "findValidCutPoints es s t \<noteq> []" "0 < keep"
  shows "(tokens_from es s t < keep
      \<and> scan_back es (findValidCutPoints es s t) keep (rev [s..<t]) 0 c0 = c0)
    \<or> (\<exists>j. s \<le> j \<and> j < t \<and> tokens_from es (Suc j) t < keep \<and> keep \<le> tokens_from es j t
        \<and> scan_back es (findValidCutPoints es s t) keep (rev [s..<t]) 0 c0
          = (case find (\<lambda>c. c \<ge> j) (findValidCutPoints es s t) of Some c \<Rightarrow> c | None \<Rightarrow> c0))"
proof -
  have "s \<le> t" using assms(1) by (cases "s \<le> t") (simp_all add: findValidCutPoints_def)
  moreover have "(0::int) = tokens_from es t t" by (simp add: tokens_from_def)
  ultimately show ?thesis using scan_back_result assms(2) by blast
qed

lemma cut_points_sorted: "sorted (findValidCutPoints es s t)"
  by (simp add: findValidCutPoints_def sorted_wrt_filter)

lemma cut_points_upper: "sorted xs \<Longrightarrow> x \<in> set xs \<Longrightarrow> x \<le> last xs"
  by (induction xs) (auto split: if_splits)

text \<open>
  When what follows the last valid cut point is smaller than the limit, the first message entry
  kept is followed by less than the limit, and the retreat adds no message before it.
\<close>

theorem kept_tokens_bound:
  assumes "findValidCutPoints es s t \<noteq> []" "0 < keep"
    and "tokens_from es (Suc (last (findValidCutPoints es s t))) t < keep"
  shows "\<exists>c\<ge>cp_firstKept (findCutPoint es s t keep). c < t \<and> is_cut_point (es ! c)
    \<and> (\<forall>j. cp_firstKept (findCutPoint es s t keep) \<le> j \<longrightarrow> j < c \<longrightarrow> \<not> stops_retreat (es ! j))
    \<and> tokens_from es (Suc c) t < keep"
proof -
  let ?cps = "findValidCutPoints es s t"
  obtain c where c: "c \<in> set ?cps" "cp_firstKept (findCutPoint es s t keep) \<le> c" "c < t" "is_cut_point (es ! c)"
    "\<And>j. cp_firstKept (findCutPoint es s t keep) \<le> j \<Longrightarrow> j < c \<Longrightarrow> \<not> stops_retreat (es ! j)"
    "c = scan_back es ?cps keep (rev [s..<t]) 0 (hd ?cps)"
    by (rule cut_point_entry [OF assms(1)]) blast
  have "tokens_from es (Suc c) t < keep"
    using scan_from_end [OF assms(1,2), of "hd ?cps"]
  proof (elim disjE exE conjE)
    assume a: "tokens_from es s t < keep"
    have "s \<le> Suc c" using c(1) by (auto simp: findValidCutPoints_def)
    from tokens_from_anti [OF this, of es t] a show ?thesis by linarith
  next
    fix j assume j: "tokens_from es (Suc j) t < keep" "keep \<le> tokens_from es j t"
      "scan_back es ?cps keep (rev [s..<t]) 0 (hd ?cps) = (case find (\<lambda>c. c \<ge> j) ?cps of Some c \<Rightarrow> c | None \<Rightarrow> hd ?cps)"
    have "j \<le> last ?cps"
    proof (rule ccontr)
      assume "\<not> j \<le> last ?cps"
      then have "Suc (last ?cps) \<le> j" by simp
      from tokens_from_anti [OF this, of es t] j(2) assms(3) show False by linarith
    qed
    moreover have "last ?cps \<in> set ?cps" using assms(1) by simp
    ultimately have "find (\<lambda>c. c \<ge> j) ?cps \<noteq> None" by (auto simp: find_None_iff)
    then obtain x where x: "find (\<lambda>c. c \<ge> j) ?cps = Some x" by blast
    then have "j \<le> x" by (auto simp: find_Some_iff)
    moreover have "c = x" using j(3) c(6) x by simp
    ultimately have "Suc j \<le> Suc c" by simp
    from tokens_from_anti [OF this, of es t] j(1) show ?thesis by linarith
  qed
  with c show ?thesis by blast
qed

lemma retreat_zero: "(\<forall>j<c. \<not> stops_retreat (es ! j)) \<Longrightarrow> retreat es 0 c = 0"
  by (induction c) auto

text \<open>
  When what follows the last valid cut point alone exceeds the limit, the scan falls back to
  the first cut point and nothing is compacted, although the path is over the limit and has later
  valid cut points.
\<close>

theorem oversized_tail_blocks_compaction:
  assumes "previous_compaction es = None" "0 < s_keepRecentTokens st"
    and "findValidCutPoints es 0 (length es) = c # cs" "\<forall>j<c. \<not> stops_retreat (es ! j)"
    and "s_keepRecentTokens st \<le> tokens_from es (Suc (last (c # cs))) (length es)"
  shows "prepareCompaction es st \<noteq> Some (Some prep)"
proof -
  let ?keep = "s_keepRecentTokens st" and ?t = "length es"
  have ne: "findValidCutPoints es 0 ?t \<noteq> []" by (simp add: assms(3))
  have "scan_back es (c # cs) ?keep (rev [0..<?t]) 0 c = c"
    using scan_from_end [OF ne assms(2), of c] unfolding assms(3)
  proof (elim disjE exE conjE)
    fix j assume j: "tokens_from es (Suc j) ?t < ?keep"
      "scan_back es (c # cs) ?keep (rev [0..<?t]) 0 c = (case find (\<lambda>c. c \<ge> j) (c # cs) of Some c \<Rightarrow> c | None \<Rightarrow> c)"
    have "Suc (last (c # cs)) < Suc j"
    proof (rule ccontr)
      assume "\<not> Suc (last (c # cs)) < Suc j"
      then have "Suc j \<le> Suc (last (c # cs))" by linarith
      from tokens_from_anti [OF this, of es ?t] j(1) assms(5) show False by linarith
    qed
    moreover have "x \<le> last (c # cs)" if "x \<in> set (c # cs)" for x
      using cut_points_upper [OF _ that] cut_points_sorted [of es 0 ?t] assms(3) by simp
    ultimately have "\<forall>x\<in>set (c # cs). \<not> j \<le> x" by fastforce
    then have "find (\<lambda>c. c \<ge> j) (c # cs) = None" unfolding find_None_iff by blast
    with j(2) show ?thesis by simp
  qed
  then have k: "cp_firstKept (cut_of es st) = 0"
    using retreat_zero [OF assms(4)]
    by (simp add: cut_of_def boundary_start_def assms(1) findCutPoint_def assms(3) Let_def)
  then have "history_end (cut_of es st) = 0"
    using split_turn_start [of es 0 ?t ?keep]
    by (auto simp: history_end_def cut_of_def boundary_start_def assms(1))
  then show ?thesis
    unfolding prepare_unfold Let_def prefix_between k assms(1)
    by (simp add: messages_between_def List.map_filter_simps split: option.split)
qed

section \<open>File lists\<close>

lemma set_add_all: "set (foldl (\<lambda>xs f. set_add f xs) xs ys) = set xs \<union> set ys"
  by (induction ys arbitrary: xs) (auto simp: set_add_def)

lemma set_add_all_distinct: "distinct xs \<Longrightarrow> distinct (foldl (\<lambda>xs f. set_add f xs) xs ys)"
  by (induction ys arbitrary: xs) (auto simp: set_add_def)

lemma extract_block_read [simp]: "fo_read (extract_block ops b) = fo_read ops"
  by (cases b) (auto split: option.split json.split)

lemma extract_blocks_read [simp]: "fo_read (foldl extract_block ops bs) = fo_read ops"
  by (induction bs arbitrary: ops) auto

lemma extract_message_read [simp]: "fo_read (extractFileOpsFromMessage m ops) = fo_read ops"
  by (cases m) auto

lemma extract_messages_read [simp]:
  "fo_read (foldl (\<lambda>acc m. extractFileOpsFromMessage m acc) ops ms) = fo_read ops"
  by (induction ms arbitrary: ops) auto

lemma extract_read_distinct: "distinct (fo_read (extractFileOperations ms es prev))"
  by (auto simp: extractFileOperations_def Let_def createFileOps_def add_details_def set_add_all_distinct
      split: option.split entry_body.split)

text \<open>
  The file lists of a prepared compaction are sorted, without duplicates and disjoint: the
  modified files are those edited or written, and every file read is in one of the lists.
\<close>

theorem file_lists_spec:
  assumes "prepareCompaction es st = Some (Some prep)" "computeFileLists (p_fileOps prep) = (readFiles, modifiedFiles)"
  shows "sorted readFiles \<and> distinct readFiles \<and> sorted modifiedFiles \<and> distinct modifiedFiles
    \<and> set readFiles \<inter> set modifiedFiles = {}
    \<and> set modifiedFiles = set (fo_edited (p_fileOps prep)) \<union> set (fo_written (p_fileOps prep))
    \<and> set readFiles \<union> set modifiedFiles \<supseteq> set (fo_read (p_fileOps prep))"
proof -
  have d: "distinct (fo_read (p_fileOps prep))"
    unfolding prepare_fields(6) [OF assms(1)] by (simp add: extract_read_distinct)
  let ?mod = "foldl (\<lambda>xs f. set_add f xs) [] (fo_edited (p_fileOps prep) @ fo_written (p_fileOps prep))"
  have r: "readFiles = sort (filter (\<lambda>f. f \<notin> set ?mod) (fo_read (p_fileOps prep)))" "modifiedFiles = sort ?mod"
    using assms(2) by (simp_all only: computeFileLists_def Let_def prod.inject)
  have m: "distinct ?mod" by (rule set_add_all_distinct) simp
  show ?thesis unfolding r using d m by (auto simp: set_add_all)
qed

section \<open>A second compaction inside a long turn\<close>

definition user_entry :: "string \<Rightarrow> string option \<Rightarrow> string \<Rightarrow> session_entry" where
  "user_entry i p t = \<lparr>e_id = i, e_parentId = p, e_timestamp = 1, e_body = MessageE (UserMessage (StrContent t) 1)\<rparr>"

definition assistant_of :: "assistant_block list \<Rightarrow> assistant_message" where
  "assistant_of bs = \<lparr>am_content = bs, am_api = ''a'', am_provider = ''p'', am_model = ''m'', am_usage = emptyUsage,
     am_stopReason = Stop, am_errorMessage = None, am_timestamp = 1\<rparr>"

definition assistant_entry :: "string \<Rightarrow> string option \<Rightarrow> assistant_block list \<Rightarrow> session_entry" where
  "assistant_entry i p bs = \<lparr>e_id = i, e_parentId = p, e_timestamp = 1, e_body = MessageE (AssistantMessage (assistant_of bs))\<rparr>"

definition result_entry :: "string \<Rightarrow> string option \<Rightarrow> string \<Rightarrow> string \<Rightarrow> session_entry" where
  "result_entry i p call t = \<lparr>e_id = i, e_parentId = p, e_timestamp = 1, e_body = MessageE (ToolResultMessage
     \<lparr>tr_toolCallId = call, tr_toolName = ''sh'', tr_content = [TextContent t None], tr_details = None,
      tr_isError = False, tr_timestamp = 1\<rparr>)\<rparr>"

definition compacted_entry :: session_entry where
  "compacted_entry = \<lparr>e_id = ''c'', e_parentId = Some ''b'', e_timestamp = 1, e_body = Compaction
     \<lparr>cd_summary = ''old'', cd_firstKeptEntryId = ''b'', cd_firstKeptEntryIndex = None, cd_tokensBefore = 9,
      cd_details = None, cd_fromHook = False, cd_customInstructions = None, cd_usage = None\<rparr>\<rparr>"

definition keep_one :: compaction_settings where
  "keep_one = \<lparr>s_enabled = True, s_reserveTokens = 10, s_keepRecentTokens = 1\<rparr>"

text \<open>A session compacted once whose last turn, started at \<open>b\<close>, goes on after the compaction.\<close>

definition long_turn :: "session_entry list" where
  "long_turn = [user_entry ''a'' None ''one'', user_entry ''b'' (Some ''a'') ''two'', compacted_entry,
     assistant_entry ''d'' (Some ''c'') [AText ''x'' None], assistant_entry ''e'' (Some ''d'') [AText ''y'' None]]"

lemmas example_defs = user_entry_def assistant_entry_def result_entry_def compacted_entry_def assistant_of_def keep_one_def

lemma long_turn_cut:
  "previous_compaction long_turn = Some 2" "boundary_start long_turn (Some 2) = 1"
  "cut_of long_turn keep_one = \<lparr>cp_firstKept = 4, cp_turnStart = Some 1, cp_isSplitTurn = True\<rparr>"
proof -
  show p: "previous_compaction long_turn = Some 2"
    by (simp add: previous_compaction_def long_turn_def example_defs find_last_def is_compaction.simps)
  show b: "boundary_start long_turn (Some 2) = 1"
    by (simp add: boundary_start_def long_turn_def example_defs)
  show "cut_of long_turn keep_one = \<lparr>cp_firstKept = 4, cp_turnStart = Some 1, cp_isSplitTurn = True\<rparr>"
    unfolding cut_of_def p b
    by (simp add: long_turn_def example_defs findCutPoint_def findValidCutPoints_def is_cut_point_def
        assistant_block_chars_def chars_to_tokens_def Let_def stops_retreat_def is_user_entry_def
        findTurnStartIndex_def find_last_def is_turn_start_def numeral_eq_Suc)
qed

lemma long_turn_context: "buildSessionContext long_turn LeafUndefined None \<noteq> None"
  by (simp add: buildSessionContext_def long_turn_def example_defs index_entries_def walk_Some parent_entry_def)

lemma long_turn_prepared:
  "\<exists>prep. prepareCompaction long_turn keep_one = Some (Some prep) \<and> p_isSplitTurn prep
    \<and> p_messagesToSummarize prep = [] \<and> p_turnPrefixMessages prep \<noteq> [] \<and> p_previousSummary prep = Some ''old''"
proof -
  obtain ctx where ctx: "buildSessionContext long_turn LeafUndefined None = Some ctx" using long_turn_context by blast
  have h: "history_end \<lparr>cp_firstKept = 4, cp_turnStart = Some 1, cp_isSplitTurn = True\<rparr> = 1"
    by (simp add: history_end_def)
  have m: "messages_between long_turn 1 1 = []" "messages_between long_turn 1 4 \<noteq> []"
    by (simp_all add: messages_between_def List.map_filter_simps long_turn_def example_defs
        getMessageFromEntryForCompaction_def is_compaction.simps)
  show ?thesis
    unfolding prepare_unfold Let_def long_turn_cut h ctx using m
    by (simp add: long_turn_def example_defs is_compaction.simps)
qed

text \<open>
  When a split turn leaves no messages before it, the result of the compaction does not depend
  on the previous summary, so what an earlier compaction recorded is lost.
\<close>

theorem split_turn_drops_previous_summary:
  assumes "p_isSplitTurn prep" "p_turnPrefixMessages prep \<noteq> []" "p_messagesToSummarize prep = []"
  shows "compact P llm (prep\<lparr>p_previousSummary := s\<rparr>) instr = compact P llm prep instr"
  using assms by (simp add: compact_def Let_def split: sum.split prod.split)

theorem split_turn_drops_previous_summary_witness:
  "\<exists>prep. prepareCompaction long_turn keep_one = Some (Some prep) \<and> p_previousSummary prep = Some ''old''
    \<and> (\<forall>P llm s instr. compact P llm (prep\<lparr>p_previousSummary := s\<rparr>) instr = compact P llm prep instr)"
  using long_turn_prepared split_turn_drops_previous_summary by metis

section \<open>Witnesses\<close>

text \<open>Two finished turns, then a call with its result.\<close>

definition small_path :: "session_entry list" where
  "small_path = [user_entry ''a'' None ''one'',
     assistant_entry ''d'' (Some ''a'') [AToolCall \<lparr>tc_id = ''k'', tc_name = ''sh'', tc_arguments = JObject [], tc_thoughtSignature = None\<rparr>],
     result_entry ''r'' (Some ''d'') ''k'' ''out'', user_entry ''b'' (Some ''r'') ''two'']"

definition small_manager :: manager where
  "small_manager = demo_manager\<lparr>m_sessionFile := None, m_persist := False,
     m_fileEntries := Header demo_header # map Entry small_path,
     m_byId := index_entries small_path, m_leafId := Some ''b''\<rparr>"

lemma small_entries [simp]: "getEntries small_manager = small_path"
  by (simp add: small_manager_def getEntries_def)

lemma small_good: "consistent small_manager" "fresh_host demo_host demo_world small_manager"
proof -
  show "consistent small_manager"
  proof -
    have "m_leafId small_manager = Some ''b''" "m_byId small_manager = index_entries small_path"
      by (simp_all add: small_manager_def)
    then show ?thesis by (simp add: consistent_def wf_tree_def) (simp add: small_path_def example_defs)
  qed
  have "length (randomUUID demo_host n) \<noteq> 1" for n by (simp add: demo_host_def)
  then have "randomUUID demo_host n \<notin> {''a'', ''d'', ''r'', ''b''}" for n
    by (metis insertE length_Cons list.size(3) One_nat_def singletonD)
  then show "fresh_host demo_host demo_world small_manager"
    using ex_fresh by (auto simp: fresh_host_def fresh_supply_def small_path_def example_defs demo_world_def)
qed

lemma small_branch: "getBranch small_manager None = Some small_path"
  by (simp add: getBranch_def leaf_entry_def small_manager_def small_path_def example_defs index_entries_def
      walk_Some parent_entry_def)

lemma small_cut:
  "previous_compaction small_path = None"
  "cut_of small_path keep_one = \<lparr>cp_firstKept = 3, cp_turnStart = None, cp_isSplitTurn = False\<rparr>"
proof -
  show p: "previous_compaction small_path = None"
    by (simp add: previous_compaction_def small_path_def example_defs find_last_def is_compaction.simps)
  show "cut_of small_path keep_one = \<lparr>cp_firstKept = 3, cp_turnStart = None, cp_isSplitTurn = False\<rparr>"
    unfolding cut_of_def p
    by (simp add: small_path_def example_defs boundary_start_def findCutPoint_def findValidCutPoints_def is_cut_point_def
        content_chars_def chars_to_tokens_def Let_def stops_retreat_def is_user_entry_def numeral_eq_Suc)
qed

lemma small_prepared:
  obtains prep where "prepareCompaction small_path keep_one = Some (Some prep)" "p_messagesToSummarize prep \<noteq> []"
    "p_firstKeptEntryId prep = ''b''"
proof -
  have "buildSessionContext small_path LeafUndefined None \<noteq> None"
    by (simp add: buildSessionContext_def small_path_def example_defs index_entries_def walk_Some parent_entry_def)
  then obtain ctx where ctx: "buildSessionContext small_path LeafUndefined None = Some ctx" by blast
  have h: "history_end \<lparr>cp_firstKept = 3, cp_turnStart = None, cp_isSplitTurn = False\<rparr> = 3"
    by (simp add: history_end_def)
  have m: "messages_between small_path 0 3 \<noteq> []"
    by (simp add: messages_between_def List.map_filter_simps small_path_def example_defs
        getMessageFromEntryForCompaction_def is_compaction.simps)
  have "\<exists>prep. prepareCompaction small_path keep_one = Some (Some prep) \<and> p_messagesToSummarize prep \<noteq> []
    \<and> p_firstKeptEntryId prep = ''b''"
    unfolding prepare_unfold Let_def small_cut h ctx using m
    by (simp add: boundary_start_def) (simp add: small_path_def example_defs is_compaction.simps)
  with that show thesis by blast
qed

lemma small_pairs: "summaries_nonempty small_path" "kept_before_previous small_path"
  "paired [] (context_messages small_path)"
  by (simp_all add: summaries_nonempty_def kept_before_previous_def small_cut)
    (simp_all add: small_path_def example_defs context_message_def)



theorem kept_tokens_bound_witness:
  "\<exists>c\<ge>cp_firstKept (findCutPoint small_path 0 4 1). c < 4 \<and> is_cut_point (small_path ! c)
    \<and> tokens_from small_path (Suc c) 4 < 1"
proof -
  have cps: "findValidCutPoints small_path 0 4 = [0, 1, 3]"
    by (simp add: findValidCutPoints_def is_cut_point_def small_path_def example_defs numeral_eq_Suc)
  then have "findValidCutPoints small_path 0 4 \<noteq> []" "tokens_from small_path (Suc (last (findValidCutPoints small_path 0 4))) 4 < 1"
    by (simp_all add: tokens_from_def)
  from kept_tokens_bound [OF this(1) zero_less_one this(2)] show ?thesis by blast
qed

text \<open>One finished turn, and a call whose result alone exceeds the limit.\<close>

definition big_result :: "session_entry list" where
  "big_result = [user_entry ''a'' None ''one'', user_entry ''b'' (Some ''a'') ''two'',
     assistant_entry ''d'' (Some ''b'') [AToolCall \<lparr>tc_id = ''k'', tc_name = ''sh'', tc_arguments = JObject [], tc_thoughtSignature = None\<rparr>],
     result_entry ''r'' (Some ''d'') ''k'' ''long output'']"

theorem oversized_tail_blocks_compaction_witness:
  "(\<forall>prep. prepareCompaction big_result keep_one \<noteq> Some (Some prep))
    \<and> is_cut_point (big_result ! 2) \<and> is_user_entry (big_result ! 1)"
proof -
  have "previous_compaction big_result = None"
    by (simp add: previous_compaction_def big_result_def example_defs find_last_def is_compaction.simps)
  moreover have "findValidCutPoints big_result 0 (length big_result) = [0, 1, 2]"
    by (simp add: findValidCutPoints_def is_cut_point_def big_result_def example_defs)
  moreover have "s_keepRecentTokens keep_one \<le> tokens_from big_result (Suc (last [0, 1, 2])) (length big_result)"
    by (simp add: tokens_from_def big_result_def example_defs blocks_chars_def chars_to_tokens_def)
  moreover have "0 < s_keepRecentTokens keep_one" by (simp add: keep_one_def)
  moreover have "is_cut_point (big_result ! 2)" "is_user_entry (big_result ! 1)"
    by (simp_all add: is_cut_point_def is_user_entry_def big_result_def example_defs)
  ultimately show ?thesis using oversized_tail_blocks_compaction [of big_result keep_one 0 "[1, 2]"] by simp
qed

theorem file_lists_spec_witness:
  "\<exists>prep. prepareCompaction small_path keep_one = Some (Some prep)
    \<and> sorted (fst (computeFileLists (p_fileOps prep))) \<and> sorted (snd (computeFileLists (p_fileOps prep)))"
proof -
  obtain prep where p: "prepareCompaction small_path keep_one = Some (Some prep)" by (rule small_prepared)
  obtain a b where "computeFileLists (p_fileOps prep) = (a, b)" by (rule prod.exhaust)
  from file_lists_spec [OF p this] this p show ?thesis by auto
qed

text \<open>
  A settings entry in front of the user message where the cut falls: the cut moves to it, and the
  finished turn before it counts as the prefix of a split turn.
\<close>

definition git_then_user :: "session_entry list" where
  "git_then_user = [user_entry ''a'' None ''one'', assistant_entry ''d'' (Some ''a'') [AText ''x'' None],
     \<lparr>e_id = ''g'', e_parentId = Some ''d'', e_timestamp = 1, e_body = ThinkingLevelChange ''high''\<rparr>,
     user_entry ''b'' (Some ''g'') ''two'']"

lemma settings_entry_splits_turn:
  "findCutPoint git_then_user 0 4 1 = \<lparr>cp_firstKept = 2, cp_turnStart = Some 0, cp_isSplitTurn = True\<rparr>"
  by (simp add: git_then_user_def example_defs findCutPoint_def findValidCutPoints_def is_cut_point_def
      content_chars_def chars_to_tokens_def Let_def stops_retreat_def is_user_entry_def
      findTurnStartIndex_def find_last_def is_turn_start_def numeral_eq_Suc)

end
