(* ===== verification/Branch_Summarization.thy ===== *)
theory Branch_Summarization
  imports Compaction_Props
begin

text \<open>
  Branch summaries (\<open>core/compaction/branch-summarization.ts\<close>): which entries a move in the tree leaves
  behind, which of their messages fit a token budget, and the summary made of them. The model call is
  a parameter.
\<close>

section \<open>Collecting the entries left behind\<close>

record collect_entries_result =
  ce_entries :: "session_entry list"
  ce_commonAncestorId :: "string option"

text \<open>The loop from the old leaf up; \<open>stop\<close> is the common ancestor.\<close>

partial_function (option) collect_up ::
  "manager \<Rightarrow> string option \<Rightarrow> string option \<Rightarrow> session_entry list \<Rightarrow> session_entry list option" where
  "collect_up m stop current entries =
     (if truthy current \<and> current \<noteq> stop then
        (case getEntry m (the current) of
           None \<Rightarrow> Some (rev entries)
         | Some e \<Rightarrow> collect_up m stop (e_parentId e) (entries @ [e]))
      else Some (rev entries))"

definition collectEntriesForBranchSummary ::
  "manager \<Rightarrow> string option \<Rightarrow> string \<Rightarrow> collect_entries_result option" where
  "collectEntriesForBranchSummary m oldLeafId targetId =
     (if \<not> truthy oldLeafId then Some \<lparr>ce_entries = [], ce_commonAncestorId = None\<rparr>
      else case getBranch m oldLeafId of
        None \<Rightarrow> None
      | Some op \<Rightarrow>
          (case getBranch m (Some targetId) of
             None \<Rightarrow> None
           | Some target \<Rightarrow>
               let oldPath = e_id ` set op;
                   common = map_option e_id (find_last (\<lambda>e. e_id e \<in> oldPath) target)
               in map_option (\<lambda>es. \<lparr>ce_entries = es, ce_commonAncestorId = common\<rparr>)
                    (collect_up m common oldLeafId [])))"

section \<open>Messages within a budget\<close>

fun branch_message :: "session_entry \<Rightarrow> agent_message option" where
  "branch_message e =
     (case e_body e of
        MessageE m \<Rightarrow> (case m of ToolResultMessage _ \<Rightarrow> None | _ \<Rightarrow> Some m)
      | CustomMessageE ct c d det \<Rightarrow> Some (createCustomMessage ct c d det (e_timestamp e))
      | BranchSummary b \<Rightarrow> Some (createBranchSummaryMessage (bd_summary b) (bd_fromId b) (e_timestamp e))
      | Compaction c \<Rightarrow> Some (createCompactionSummaryMessage (cd_summary c) (cd_tokensBefore c) (e_timestamp e)
                            (cd_customInstructions c) None)
      | _ \<Rightarrow> None)"

record branch_preparation =
  bp_messages :: "agent_message list"
  bp_fileOps :: file_operations
  bp_totalTokens :: int

definition summary_details :: "file_operations \<Rightarrow> session_entry \<Rightarrow> file_operations" where
  "summary_details ops e = (case e_body e of
     BranchSummary b \<Rightarrow> if \<not> bd_fromHook b then (case bd_details b of Some d \<Rightarrow> add_details d ops | None \<Rightarrow> ops) else ops
   | _ \<Rightarrow> ops)"

definition is_summary_entry :: "session_entry \<Rightarrow> bool" where
  "is_summary_entry e = (case e_body e of Compaction _ \<Rightarrow> True | BranchSummary _ \<Rightarrow> True | _ \<Rightarrow> False)"

text \<open>The second pass, newest entry first. \<open>totalTokens < tokenBudget * 0.9\<close> is tested on integers.\<close>

fun prepare_back :: "int \<Rightarrow> session_entry list \<Rightarrow> branch_preparation \<Rightarrow> branch_preparation" where
  "prepare_back budget [] p = p"
| "prepare_back budget (e # es) p =
     (case branch_message e of
        None \<Rightarrow> prepare_back budget es p
      | Some m \<Rightarrow>
          let ops = extractFileOpsFromMessage m (bp_fileOps p);
              tokens = estimateTokens m;
              more = \<lparr>bp_messages = m # bp_messages p, bp_fileOps = ops, bp_totalTokens = bp_totalTokens p + tokens\<rparr>
          in if budget > 0 \<and> bp_totalTokens p + tokens > budget
             then (if is_summary_entry e \<and> 10 * bp_totalTokens p < 9 * budget then more else p\<lparr>bp_fileOps := ops\<rparr>)
             else prepare_back budget es more)"

definition prepareBranchEntries :: "session_entry list \<Rightarrow> int \<Rightarrow> branch_preparation" where
  "prepareBranchEntries es tokenBudget =
     prepare_back tokenBudget (rev es)
       \<lparr>bp_messages = [], bp_fileOps = foldl summary_details createFileOps es, bp_totalTokens = 0\<rparr>"

section \<open>The summary\<close>

record branch_summary_result =
  br_summary :: "string option"
  br_readFiles :: "string list option"
  br_modifiedFiles :: "string list option"
  br_aborted :: bool
  br_error :: "string option"
  br_usage :: "usage option"

definition no_branch_summary :: branch_summary_result where
  "no_branch_summary = \<lparr>br_summary = None, br_readFiles = None, br_modifiedFiles = None, br_aborted = False,
     br_error = None, br_usage = None\<rparr>"

text \<open>The options the model depends on; the two fixed texts of the file are fields too.\<close>

record branch_summary_options =
  o_contextWindow :: int
  o_customInstructions :: "string option"
  o_replaceInstructions :: bool
  o_reserveTokens :: int
  BRANCH_SUMMARY_PREAMBLE :: string
  BRANCH_SUMMARY_PROMPT :: string

definition branch_instructions :: "branch_summary_options \<Rightarrow> string" where
  "branch_instructions opts =
     (if o_replaceInstructions opts \<and> truthy (o_customInstructions opts) then the (o_customInstructions opts)
      else if truthy (o_customInstructions opts)
           then BRANCH_SUMMARY_PROMPT opts @ nl @ nl @ ''Additional focus: '' @ the (o_customInstructions opts)
      else BRANCH_SUMMARY_PROMPT opts)"

definition generateBranchSummary ::
  "completion \<Rightarrow> session_entry list \<Rightarrow> branch_summary_options \<Rightarrow> branch_summary_result" where
  "generateBranchSummary llm es opts =
     (let contextWindow = (if o_contextWindow opts \<noteq> 0 then o_contextWindow opts else 128000);
          tokenBudget = contextWindow - o_reserveTokens opts;
          prep = prepareBranchEntries es tokenBudget
      in if bp_messages prep = [] then no_branch_summary\<lparr>br_summary := Some ''No content to summarize''\<rparr>
         else let response = llm (conversation_prompt (bp_messages prep) @ branch_instructions opts) 2048
              in if am_stopReason response = Aborted then no_branch_summary\<lparr>br_aborted := True\<rparr>
                 else if am_stopReason response = StopError
                      then no_branch_summary\<lparr>br_error := Some (or_else (am_errorMessage response) ''Summarization failed'')\<rparr>
                 else let (readFiles, modifiedFiles) = computeFileLists (bp_fileOps prep);
                          summary = BRANCH_SUMMARY_PREAMBLE opts @ answer_text response
                            @ formatFileOperations readFiles modifiedFiles
                      in no_branch_summary\<lparr>br_summary := Some (if summary \<noteq> [] then summary else ''No summary generated''),
                           br_readFiles := Some readFiles, br_modifiedFiles := Some modifiedFiles,
                           br_usage := Some (am_usage response)\<rparr>)"

section \<open>What is collected\<close>

text \<open>The branch of an entry of a consistent session.\<close>

lemma entry_branch:
  assumes "consistent m" "i \<in> ids (getEntries m)" "getBranch m (Some i) = Some q"
  shows "q \<noteq> []" "e_id (last q) = i" "is_path (m_byId m) None q" "linked None q" "set q \<subseteq> set (getEntries m)"
    "distinct (map e_id q)" "[] \<notin> ids q"
proof -
  note tr = consistent_tree [OF assms(1)] and ix = consistent_index [OF assms(1)]
  from consistent_lookup [OF assms(1,2)] obtain e where e: "map_of (m_byId m) i = Some e" "e \<in> set (getEntries m)"
    "e_id e = i" "i \<noteq> []" by blast
  from wf_walk [OF tr e(2)] obtain q0 where q0: "\<And>acc. walk (index_entries (getEntries m)) (Some e) acc = Some (q0 @ rev acc)"
    "q0 \<noteq> []" "last q0 = e" "is_path (index_entries (getEntries m)) None q0" "subseq q0 (getEntries m)" by blast
  have "q0 = q" using assms(3) e q0(1) [of "[]"] by (simp add: getBranch_def leaf_entry_def ix)
  note q0 = q0 [unfolded this]
  show "q \<noteq> []" "e_id (last q) = i" "is_path (m_byId m) None q" using q0 e by (simp_all add: ix)
  show sub: "set q \<subseteq> set (getEntries m)" using subseq_set [OF q0(5)] .
  show "linked None q" using path_linked [OF tr q0(4) sub] by simp
  show "distinct (map e_id q)" using subseq_distinct_map [OF q0(5) wf_tree_distinct [OF tr]] .
  show "[] \<notin> ids q" using sub wf_tree_ids_ne [OF tr] by blast
qed

lemma path_unique: "is_path m None (xs @ [x]) \<Longrightarrow> is_path m None (ys @ [x]) \<Longrightarrow> xs = ys"
proof (induction xs arbitrary: x ys rule: rev_induct)
  case Nil
  then show ?case by (cases ys rule: rev_cases) (auto simp: is_path_append split: if_splits)
next
  case (snoc a xs)
  from snoc.prems(1) have a: "parent_entry m x = Some a" "is_path m None (xs @ [a])"
    by (auto simp: is_path_append split: if_splits)
  with snoc.prems(2) obtain zs where z: "ys = zs @ [a]"
    by (cases ys rule: rev_cases) (auto simp: is_path_append split: if_splits)
  with snoc.prems(2) have "is_path m None (zs @ [a])" by (auto simp: is_path_append split: if_splits)
  from snoc.IH [OF a(2) this] z show ?case by simp
qed

lemma collect_up_path:
  assumes "linked (if pre = [] then None else Some (e_id (last pre))) es"
    "\<And>e. e \<in> set es \<Longrightarrow> getEntry m (e_id e) = Some e \<and> e_id e \<noteq> [] \<and> Some (e_id e) \<noteq> stop"
    "stop = (if pre = [] then None else Some (e_id (last pre)))"
  shows "collect_up m stop (if pre @ es = [] then None else Some (e_id (last (pre @ es)))) acc = Some (es @ rev acc)"
  using assms
proof (induction es arbitrary: acc rule: rev_induct)
  case Nil
  then show ?case by (subst collect_up.simps) auto
next
  case (snoc e es)
  have l: "linked stop (es @ [e])" using snoc.prems(1,3) by simp
  then have par: "e_parentId e = (if pre @ es = [] then None else Some (e_id (last (pre @ es))))"
    using snoc.prems(3) by (auto simp: linked_append split: if_splits)
  have "collect_up m stop (e_parentId e) (acc @ [e]) = Some (es @ rev (acc @ [e]))"
    unfolding par using l snoc.prems by (intro snoc.IH) (auto simp: linked_append)
  moreover have "getEntry m (e_id e) = Some e" "e_id e \<noteq> []" "Some (e_id e) \<noteq> stop" using snoc.prems(2) by auto
  ultimately show ?case by (subst collect_up.simps) simp
qed

text \<open>
  Leaving one entry of a consistent session for another, the collection ends with the common
  ancestor where the two branches part and exactly the entries of the old branch below it, in order.
\<close>

theorem collect_entries_spec:
  assumes "consistent m" "i \<in> ids (getEntries m)" "t \<in> ids (getEntries m)"
    and "getBranch m (Some i) = Some p" "getBranch m (Some t) = Some q"
  shows "\<exists>pre es rest. collectEntriesForBranchSummary m (Some i) t
      = Some \<lparr>ce_entries = es, ce_commonAncestorId = (if pre = [] then None else Some (e_id (last pre)))\<rparr>
    \<and> p = pre @ es \<and> q = pre @ rest \<and> ids es \<inter> ids q = {}"
proof -
  note P = entry_branch [OF assms(1,2,4)] and Q = entry_branch [OF assms(1,3,5)]
  let ?common = "find_last (\<lambda>e. e_id e \<in> ids p) q"
  have inj: "x = y" if "x \<in> set p" "y \<in> set q" "e_id x = e_id y" for x y
  proof -
    have "x \<in> set (getEntries m)" "y \<in> set (getEntries m)" using that P(5) Q(5) by blast+
    with that(3) wf_tree_distinct [OF consistent_tree [OF assms(1)]] show ?thesis
      by (auto simp: distinct_map dest: inj_onD)
  qed
  obtain pre es rest where split: "p = pre @ es" "q = pre @ rest" "ids es \<inter> ids q = {}"
    "map_option e_id ?common = (if pre = [] then None else Some (e_id (last pre)))"
  proof (cases ?common)
    case None
    then have "\<forall>x\<in>set q. e_id x \<notin> ids p" by (simp add: find_last_None)
    then have "ids p \<inter> ids q = {}" by (intro equals0I) (metis (no_types, lifting) IntE imageE)
    with None that [of "[]" p q] show thesis by simp
  next
    case (Some x)
    from find_last_split [OF this] obtain q1 q2 where q: "q = q1 @ x # q2" "e_id x \<in> ids p"
      "\<forall>b\<in>set q2. e_id b \<notin> ids p" by blast
    then obtain y where "y \<in> set p" "e_id y = e_id x" by auto
    then have "x \<in> set p" using inj [of y x] q(1) by auto
    then obtain p1 p2 where p: "p = p1 @ x # p2" by (auto dest: split_list)
    have "is_path (m_byId m) None (p1 @ [x])" "is_path (m_byId m) None (q1 @ [x])"
      using P(3) Q(3) unfolding p q(1) by (simp_all add: is_path_append split: if_splits)
    from path_unique [OF this] have e: "p1 = q1" .
    have "ids p2 \<inter> ids (q1 @ [x]) = {}" using P(6) unfolding p e by auto
    moreover have "ids p2 \<inter> ids q2 = {}"
    proof (intro equals0I)
      fix k assume k: "k \<in> ids p2 \<inter> ids q2"
      then obtain b where "b \<in> set q2" "k = e_id b" by blast
      moreover from k have "k \<in> ids p2" by blast
      moreover have "ids p2 \<subseteq> ids p" unfolding p by auto
      ultimately show False using q(3) by blast
    qed
    ultimately have "ids p2 \<inter> ids q = {}" unfolding q(1) by auto
    with Some that [of "p1 @ [x]" p2 q2] show thesis unfolding p q(1) e by simp
  qed
  have "linked (if pre = [] then None else Some (e_id (last pre))) es"
    using P(4) unfolding split(1) linked_append by simp
  moreover have "getEntry m (e_id e) = Some e \<and> e_id e \<noteq> [] \<and> Some (e_id e) \<noteq> map_option e_id ?common"
    if "e \<in> set es" for e
  proof -
    have "e \<in> set (getEntries m)" using that P(5) split(1) by auto
    with index_lookup [OF wf_tree_distinct [OF consistent_tree [OF assms(1)]]]
    have "getEntry m (e_id e) = Some e" by (simp add: getEntry_def consistent_index [OF assms(1)])
    moreover have "e_id e \<noteq> []" using P(7) that split(1) by (metis Un_iff image_eqI set_append)
    moreover have "Some (e_id e) \<noteq> map_option e_id ?common"
    proof
      assume "Some (e_id e) = map_option e_id ?common"
      then have "pre \<noteq> []" "e_id e = e_id (last pre)" using split(4) by (auto split: if_splits)
      then have "e_id e \<in> ids q" using split(2) by auto
      with split(3) that show False by blast
    qed
    ultimately show ?thesis by blast
  qed
  ultimately have "collect_up m (map_option e_id ?common) (if pre @ es = [] then None else Some (e_id (last (pre @ es)))) []
    = Some (es @ rev [])" by (rule collect_up_path) (assumption, rule split(4))
  moreover have "i \<noteq> []" using P(1,2,7) by (metis image_eqI last_in_set)
  ultimately have "collectEntriesForBranchSummary m (Some i) t
      = Some \<lparr>ce_entries = es, ce_commonAncestorId = map_option e_id ?common\<rparr>"
    using P(1,2) assms(4,5) unfolding collectEntriesForBranchSummary_def split(1) [symmetric] by (simp add: Let_def)
  then show ?thesis unfolding split(4) using split(1,2,3) by blast
qed

section \<open>What fits the budget\<close>

fun is_summary_message :: "agent_message \<Rightarrow> bool" where
  "is_summary_message (BranchSummaryMessage _) = True"
| "is_summary_message (CompactionSummaryMessage _) = True"
| "is_summary_message _ = False"

definition branch_messages :: "session_entry list \<Rightarrow> agent_message list" where
  "branch_messages es = List.map_filter branch_message es"

lemma branch_messages_snoc:
  "branch_messages (es @ [e]) = branch_messages es @ (case branch_message e of None \<Rightarrow> [] | Some m \<Rightarrow> [m])"
  by (simp add: branch_messages_def map_filter_concat)

lemma summary_entry_message:
  "is_summary_entry e \<Longrightarrow> branch_message e = Some m \<Longrightarrow> is_summary_message m"
  by (auto simp: is_summary_entry_def createBranchSummaryMessage_def createCompactionSummaryMessage_def
      split: entry_body.splits agent_message.splits)

definition fits :: "int \<Rightarrow> branch_preparation \<Rightarrow> bool" where
  "fits budget p \<longleftrightarrow> budget > 0 \<longrightarrow> bp_totalTokens p \<le> budget
     \<or> (\<exists>m ms. bp_messages p = m # ms \<and> is_summary_message m \<and> 10 * sum_list (map estimateTokens ms) < 9 * budget)"

lemma prepare_back_spec:
  assumes "bp_totalTokens p = sum_list (map estimateTokens (bp_messages p))" "fits budget p"
    "budget > 0 \<Longrightarrow> bp_totalTokens p \<le> budget"
  shows "\<exists>pre added. branch_messages (rev es) = pre @ added
    \<and> bp_messages (prepare_back budget es p) = added @ bp_messages p
    \<and> bp_totalTokens (prepare_back budget es p) = sum_list (map estimateTokens (added @ bp_messages p))
    \<and> (budget \<le> 0 \<longrightarrow> pre = []) \<and> fits budget (prepare_back budget es p)"
  using assms
proof (induction budget es p rule: prepare_back.induct)
  case (1 budget p)
  then show ?case by (intro exI [of _ "[]"]) (simp add: branch_messages_def List.map_filter_simps)
next
  case (2 budget e es p)
  show ?case
  proof (cases "branch_message e")
    case None
    then have eq: "prepare_back budget (e # es) p = prepare_back budget es p" by simp
    from 2(1) [OF None 2(3-5)] None show ?thesis unfolding eq by (simp add: branch_messages_snoc del: branch_message.simps)
  next
    case (Some m)
    define more where "more = \<lparr>bp_messages = m # bp_messages p,
      bp_fileOps = extractFileOpsFromMessage m (bp_fileOps p), bp_totalTokens = bp_totalTokens p + estimateTokens m\<rparr>"
    have mt: "bp_totalTokens more = sum_list (map estimateTokens (bp_messages more))" "bp_messages more = m # bp_messages p"
      using 2(3) by (simp_all add: more_def)
    show ?thesis
    proof (cases "budget > 0 \<and> bp_totalTokens p + estimateTokens m > budget")
      case True
      then have eq: "prepare_back budget (e # es) p
          = (if is_summary_entry e \<and> 10 * bp_totalTokens p < 9 * budget then more
             else p\<lparr>bp_fileOps := extractFileOpsFromMessage m (bp_fileOps p)\<rparr>)"
        using Some by (simp add: Let_def more_def del: branch_message.simps)
      show ?thesis
      proof (cases "is_summary_entry e \<and> 10 * bp_totalTokens p < 9 * budget")
        case s: True
        then have "is_summary_message m" using summary_entry_message Some by blast
        with s 2(3) mt have "fits budget more" by (auto simp: fits_def)
        with s eq mt True Some show ?thesis
          by (intro exI [of _ "branch_messages (rev es)"] exI [of _ "[m]"])
            (simp add: branch_messages_snoc del: branch_message.simps)
      next
        case False
        with eq True 2(3,5) show ?thesis
          by (intro exI [of _ "branch_messages (rev (e # es))"] exI [of _ "[]"])
            (auto simp: fits_def simp del: branch_message.simps)
      qed
    next
      case False
      then have eq: "prepare_back budget (e # es) p = prepare_back budget es more"
        using Some by (auto simp: Let_def more_def simp del: branch_message.simps)
      have "budget > 0 \<Longrightarrow> bp_totalTokens more \<le> budget" using False by (simp add: more_def)
      moreover from this have "fits budget more" by (simp add: fits_def)
      ultimately obtain pre added where "branch_messages (rev es) = pre @ added"
        "bp_messages (prepare_back budget es more) = added @ bp_messages more"
        "bp_totalTokens (prepare_back budget es more) = sum_list (map estimateTokens (added @ bp_messages more))"
        "budget \<le> 0 \<longrightarrow> pre = []" "fits budget (prepare_back budget es more)"
        using 2(2) [OF Some refl refl, of] False mt(1) unfolding more_def [symmetric] by blast
      then show ?thesis unfolding eq using Some mt(2)
        by (intro exI [of _ pre] exI [of _ "added @ [m]"]) (simp add: branch_messages_snoc del: branch_message.simps)
    qed
  qed
qed

text \<open>
  The messages prepared for a branch summary are the newest ones of the branch, all of them
  without a budget; with one they stay within it, except that an oldest summary message may exceed
  it when the others fill less than nine tenths.
\<close>

theorem branch_budget:
  assumes "prepareBranchEntries es budget = p"
  shows "suffix (bp_messages p) (branch_messages es)
    \<and> bp_totalTokens p = sum_list (map estimateTokens (bp_messages p))
    \<and> (budget \<le> 0 \<longrightarrow> bp_messages p = branch_messages es)
    \<and> (budget > 0 \<longrightarrow> bp_totalTokens p \<le> budget
        \<or> (\<exists>m ms. bp_messages p = m # ms \<and> is_summary_message m \<and> 10 * sum_list (map estimateTokens ms) < 9 * budget))"
proof -
  let ?init = "\<lparr>bp_messages = [], bp_fileOps = foldl summary_details createFileOps es, bp_totalTokens = 0\<rparr>"
  have "fits budget ?init" by (simp add: fits_def)
  from prepare_back_spec [of ?init budget "rev es", OF _ this] show ?thesis
    unfolding assms [symmetric] prepareBranchEntries_def by (auto simp: fits_def suffix_def)
qed

section \<open>Witness and a divergence\<close>

theorem collect_entries_spec_witness:
  "\<exists>pre es rest. collectEntriesForBranchSummary small_manager (Some ''b'') ''d''
      = Some \<lparr>ce_entries = es, ce_commonAncestorId = (if pre = [] then None else Some (e_id (last pre)))\<rparr>
    \<and> small_path = pre @ es"
proof -
  have ids: "''b'' \<in> ids (getEntries small_manager)" "''d'' \<in> ids (getEntries small_manager)"
    by (simp_all add: small_path_def example_defs)
  have b: "getBranch small_manager (Some ''b'') = Some small_path"
    by (simp add: getBranch_def leaf_entry_def small_manager_def small_path_def example_defs index_entries_def
        walk_Some parent_entry_def)
  have "getBranch small_manager (Some ''d'') = Some (take 2 small_path)"
    by (simp add: getBranch_def leaf_entry_def small_manager_def small_path_def example_defs index_entries_def
        walk_Some parent_entry_def)
  from collect_entries_spec [OF small_good(1) ids b this] show ?thesis by blast
qed

text \<open>
  File operations in tool calls are collected in the budgeted pass: an edit in a message beyond the
  budget is not in the lists, while one recorded in a branch summary is.
\<close>

definition edit_then_talk :: "session_entry list" where
  "edit_then_talk = [assistant_entry ''d'' None [AToolCall \<lparr>tc_id = ''k'', tc_name = ''edit'',
       tc_arguments = JObject [(''path'', JString ''f'')], tc_thoughtSignature = None\<rparr>],
     user_entry ''x'' (Some ''d'') ''one'', user_entry ''b'' (Some ''x'') ''two'']"

lemma edit_beyond_budget_lost:
  "fo_edited (bp_fileOps (prepareBranchEntries edit_then_talk 1)) = []"
  "fo_edited (bp_fileOps (prepareBranchEntries edit_then_talk 0)) = [''f'']"
proof -
  show "fo_edited (bp_fileOps (prepareBranchEntries edit_then_talk 1)) = []"
    by (simp add: prepareBranchEntries_def edit_then_talk_def example_defs Let_def summary_details_def createFileOps_def
        content_chars_def chars_to_tokens_def is_summary_entry_def)
  show "fo_edited (bp_fileOps (prepareBranchEntries edit_then_talk 0)) = [''f'']"
    by (simp add: prepareBranchEntries_def edit_then_talk_def example_defs Let_def summary_details_def createFileOps_def
        is_summary_entry_def set_add_def)
qed

theorem branch_budget_witness:
  "suffix (bp_messages (prepareBranchEntries edit_then_talk 1)) (branch_messages edit_then_talk)
    \<and> bp_totalTokens (prepareBranchEntries edit_then_talk 1) \<le> 1"
proof -
  have "bp_messages (prepareBranchEntries edit_then_talk 1) = [UserMessage (StrContent ''two'') 1]"
    by (simp add: prepareBranchEntries_def edit_then_talk_def example_defs Let_def summary_details_def createFileOps_def
        content_chars_def chars_to_tokens_def is_summary_entry_def)
  with branch_budget [OF refl, of edit_then_talk 1] show ?thesis by auto
qed

end
