(* ===== verification/Agent_Types.thy ===== *)
theory Agent_Types
  imports Message_Pairs
begin

text \<open>
  The vocabulary of \<open>packages/agent\<close> (\<open>types.ts\<close>) and of asynchronous code. A host of type \<open>'x\<close> stands for
  everything outside the agent loop: the provider, the tools, the hooks, the listeners, the clock and
  the abort signal. An awaited call on the host is a function of its state that fulfils, rejects, or
  is overtaken by an abort; the state it returns holds whatever else happened while it was awaited.
\<close>

section \<open>Awaited calls\<close>

datatype js_error = JsError (er_name: string) (er_message: string)

datatype 'a outcome = Fulfilled 'a | Rejected js_error | AbortedDuring

type_synonym ('x, 'a) async = "'x \<Rightarrow> 'a outcome \<times> 'x"

text \<open>A step that may throw, on a state \<open>'w\<close>.\<close>

type_synonym ('w, 'a) step = "'w \<Rightarrow> (js_error + 'a) \<times> 'w"

definition returnC :: "'a \<Rightarrow> ('w, 'a) step" where
  "returnC x = (\<lambda>w. (Inr x, w))"

definition throwC :: "js_error \<Rightarrow> ('w, 'a) step" where
  "throwC e = (\<lambda>w. (Inl e, w))"

definition bindC :: "('w, 'a) step \<Rightarrow> ('a \<Rightarrow> ('w, 'b) step) \<Rightarrow> ('w, 'b) step" where
  "bindC m f = (\<lambda>w. case m w of (Inl e, w') \<Rightarrow> (Inl e, w') | (Inr x, w') \<Rightarrow> f x w')"

lemma bindC_return [simp]: "bindC (returnC x) f = f x"
  by (simp add: bindC_def returnC_def)

lemma bindC_throw [simp]: "bindC (throwC e) f = throwC e"
  by (simp add: bindC_def throwC_def)

lemma bindC_Inr: "bindC m f w = (Inr y, w'') \<longleftrightarrow> (\<exists>x w'. m w = (Inr x, w') \<and> f x w' = (Inr y, w''))"
  by (auto simp: bindC_def split: prod.splits sum.splits)

lemma bindC_Inl:
  "bindC m f w = (Inl e, w'') \<longleftrightarrow> m w = (Inl e, w'') \<or> (\<exists>x w'. m w = (Inr x, w') \<and> f x w' = (Inl e, w''))"
  by (auto simp: bindC_def split: prod.splits sum.splits)

lemma returnC_iff [simp]: "returnC x w = (r, w') \<longleftrightarrow> r = Inr x \<and> w' = w"
  by (auto simp: returnC_def)

lemma throwC_iff [simp]: "throwC e w = (r, w') \<longleftrightarrow> r = Inl e \<and> w' = w"
  by (auto simp: throwC_def)

fun eachC :: "('a \<Rightarrow> ('w, unit) step) \<Rightarrow> 'a list \<Rightarrow> ('w, unit) step" where
  "eachC f [] = returnC ()"
| "eachC f (x # xs) = bindC (f x) (\<lambda>_. eachC f xs)"

section \<open>Tools and contexts\<close>

datatype tool_execution_mode = Sequential | Parallel

record agent_tool_result =
  ar_content :: "text_or_image list"
  ar_details :: "json option"
  ar_terminate :: "bool option"

text \<open>
  \<open>AgentTool\<close>. Validation against the schema is the tool's \<open>at_validate\<close>. Execution is split at the
  callback: the partial results it publishes, then its result.
\<close>

record 'x agent_tool =
  at_name :: string
  at_executionMode :: "tool_execution_mode option"
  at_prepareArguments :: "(json \<Rightarrow> js_error + json) option"
  at_validate :: "tool_call \<Rightarrow> js_error + json"
  at_updates :: "string \<Rightarrow> json \<Rightarrow> 'x \<Rightarrow> agent_tool_result list \<times> 'x"
  at_finish :: "string \<Rightarrow> json \<Rightarrow> ('x, agent_tool_result) async"

record 'x agent_context =
  ctx_systemPrompt :: string
  ctx_messages :: "agent_message list"
  ctx_tools :: "'x agent_tool list"

section \<open>Events\<close>

datatype update_kind =
    TextStart | TextDelta | TextEnd | ThinkingStart | ThinkingDelta | ThinkingEnd
  | ToolcallStart | ToolcallDelta | ToolcallEnd

text \<open>\<open>AssistantMessageEvent\<close>: the loop reads the partial or final message of an event only.\<close>

datatype stream_event =
    StreamStart assistant_message
  | StreamUpdate update_kind assistant_message
  | StreamDone assistant_message
  | StreamError assistant_message

datatype agent_event =
    AgentStart
  | AgentEnd "agent_message list"
  | TurnStart
  | TurnEnd agent_message "tool_result_message list"
  | MessageStart agent_message
  | MessageUpdate agent_message stream_event
  | MessageEnd agent_message
  | ToolExecutionStart string string json
  | ToolExecutionUpdate string string json agent_tool_result
  | ToolExecutionEnd string string agent_tool_result bool

section \<open>Hooks and configuration\<close>

record before_tool_call_result =
  bt_block :: bool
  bt_reason :: "string option"

record after_tool_call_result =
  af_content :: "text_or_image list option"
  af_details :: "json option"
  af_isError :: "bool option"
  af_terminate :: "bool option"

record 'x before_tool_call_context =
  bc_assistantMessage :: assistant_message
  bc_toolCall :: tool_call
  bc_args :: json
  bc_context :: "'x agent_context"

record 'x after_tool_call_context = "'x before_tool_call_context" +
  ac_result :: agent_tool_result
  ac_isError :: bool

text \<open>\<open>ShouldStopAfterTurnContext\<close>, also the context of continuations.\<close>

record 'x turn_context =
  tn_message :: assistant_message
  tn_toolResults :: "tool_result_message list"
  tn_context :: "'x agent_context"
  tn_newMessages :: "agent_message list"

record llm_context =
  lx_systemPrompt :: string
  lx_messages :: "llm_message list"
  lx_tools :: "string list"

text \<open>
  \<open>AgentLoopConfig\<close> with the abort signal, the event sink and the clock of a run. \<open>lc_next\<close> and
  \<open>lc_result\<close> belong to the response \<open>lc_stream\<close> opened last; \<open>lc_pick\<close> is the scheduler of parallel
  tool calls.
\<close>

record 'x loop_config =
  lc_aborted :: "'x \<Rightarrow> bool"
  lc_emit :: "agent_event \<Rightarrow> 'x \<Rightarrow> js_error option \<times> 'x"
  lc_now :: "'x \<Rightarrow> int"
  lc_api :: string
  lc_provider :: string
  lc_modelId :: string
  lc_apiKey :: "string option"
  lc_toolExecution :: tool_execution_mode
  lc_transformContext :: "(agent_message list \<Rightarrow> ('x, agent_message list) async) option"
  lc_convertToLlm :: "agent_message list \<Rightarrow> ('x, llm_message list) async"
  lc_getSystemPrompt :: "('x \<Rightarrow> string) option"
  lc_getApiKey :: "(string \<Rightarrow> ('x, string option) async) option"
  lc_stream :: "llm_context \<Rightarrow> string option \<Rightarrow> ('x, unit) async"
  lc_next :: "('x, stream_event option) async"
  lc_result :: "('x, assistant_message) async"
  lc_beforeToolCall :: "('x before_tool_call_context \<Rightarrow> ('x, before_tool_call_result option) async) option"
  lc_afterToolCall :: "('x after_tool_call_context \<Rightarrow> ('x, after_tool_call_result option) async) option"
  lc_shouldStopAfterTurn :: "('x turn_context \<Rightarrow> ('x, bool) async) option"
  lc_shouldStopBeforeTurn :: "('x \<Rightarrow> bool \<times> 'x) option"
  lc_getSteeringMessages :: "('x, agent_message list) async option"
  lc_getFollowUpMessages :: "('x, agent_message list) async option"
  lc_getContinuationMessages :: "('x turn_context \<Rightarrow> ('x, agent_message list) async) option"
  lc_pick :: "'x \<Rightarrow> nat"

text \<open>The state of a run: the host, and the events emitted so far.\<close>

record 'x loop_world =
  lw_log :: "agent_event list"
  lw_host :: 'x

end
