(* ===== verification/Agent_Loop.thy ===== *)
theory Agent_Loop
  imports Agent_Types
begin

text \<open>
  The agent loop (\<open>packages/agent/src/agent-loop.ts\<close>): one assistant response after another, each with
  the tool calls it asks for, until there is nothing left to do, an error, or an abort. The event
  stream and the loops that may not end are \<open>partial_function\<close>s: \<open>None\<close> is a run that never returns.
  Parallel tool calls advance one stage at a time in the order the scheduler of the host picks.
\<close>

section \<open>Errors and aborts\<close>

definition ABORT_ERROR_MESSAGE :: string where
  "ABORT_ERROR_MESSAGE = ''Request was aborted''"

definition createAbortError :: js_error where
  "createAbortError = JsError ''Error'' ABORT_ERROR_MESSAGE"

definition isAbortError :: "js_error \<Rightarrow> bool" where
  "isAbortError e \<longleftrightarrow> er_message e = ABORT_ERROR_MESSAGE \<or> er_name e = ''AbortError''"

definition is_aborted :: "'x loop_config \<Rightarrow> 'x loop_world \<Rightarrow> bool" where
  "is_aborted C w = lc_aborted C (lw_host w)"

definition throwIfAborted :: "'x loop_config \<Rightarrow> ('x loop_world, unit) step" where
  "throwIfAborted C = (\<lambda>w. if is_aborted C w then (Inl createAbortError, w) else (Inr (), w))"

text \<open>
  The operation has been called when \<open>raceWithAbort\<close> reads the signal, so its effects stay even when
  the signal was aborted before.
\<close>

definition raceWithAbort :: "'x loop_config \<Rightarrow> ('x, 'a) async \<Rightarrow> ('x loop_world, 'a) step" where
  "raceWithAbort C op = (\<lambda>w.
     let (out, x) = op (lw_host w); w' = w\<lparr>lw_host := x\<rparr>
     in if is_aborted C w then (Inl createAbortError, w')
        else case out of
            Fulfilled v \<Rightarrow> (Inr v, w')
          | Rejected e \<Rightarrow> (Inl e, w')
          | AbortedDuring \<Rightarrow> (Inl createAbortError, w'))"

definition emit :: "'x loop_config \<Rightarrow> agent_event \<Rightarrow> ('x loop_world, unit) step" where
  "emit C ev = (\<lambda>w.
     let (r, x) = lc_emit C ev (lw_host w); w' = \<lparr>lw_log = lw_log w @ [ev], lw_host = x\<rparr>
     in case r of None \<Rightarrow> (Inr (), w') | Some e \<Rightarrow> (Inl e, w'))"

datatype 'a post_turn_result = Completed 'a | PostTurnAborted

definition settlePostTurn :: "'x loop_config \<Rightarrow> ('x loop_world, 'a) step \<Rightarrow> ('x loop_world, 'a post_turn_result) step" where
  "settlePostTurn C m = (\<lambda>w. case m w of
      (Inr v, w') \<Rightarrow> (Inr (Completed v), w')
    | (Inl e, w') \<Rightarrow> if is_aborted C w' \<and> isAbortError e then (Inr PostTurnAborted, w') else (Inl e, w'))"

definition pollMessagesUnlessAborted ::
  "'x loop_config \<Rightarrow> ('x, agent_message list) async option \<Rightarrow> ('x loop_world, agent_message list) step" where
  "pollMessagesUnlessAborted C poll = (\<lambda>w. case poll of
      None \<Rightarrow> (Inr [], w)
    | Some op \<Rightarrow> if is_aborted C w then (Inr [], w) else raceWithAbort C op w)"

section \<open>The assistant response\<close>

definition createAbortedAssistantMessage ::
  "'x loop_config \<Rightarrow> assistant_message option \<Rightarrow> int \<Rightarrow> assistant_message" where
  "createAbortedAssistantMessage C partial now =
     \<lparr>am_content = (case partial of Some m \<Rightarrow> am_content m | None \<Rightarrow> [AText [] None]),
      am_api = (case partial of Some m \<Rightarrow> am_api m | None \<Rightarrow> lc_api C),
      am_provider = (case partial of Some m \<Rightarrow> am_provider m | None \<Rightarrow> lc_provider C),
      am_model = (case partial of Some m \<Rightarrow> am_model m | None \<Rightarrow> lc_modelId C),
      am_usage = (case partial of Some m \<Rightarrow> am_usage m | None \<Rightarrow> emptyUsage),
      am_stopReason = Aborted, am_errorMessage = Some ABORT_ERROR_MESSAGE, am_timestamp = now\<rparr>"

record stream_state =
  ss_partial :: "assistant_message option"
  ss_added :: bool
  ss_messages :: "agent_message list"

text \<open>\<open>context.messages[context.messages.length - 1] = m\<close> when the partial message is there, else \<open>push\<close>.\<close>

definition put_message :: "assistant_message \<Rightarrow> stream_state \<Rightarrow> stream_state" where
  "put_message m st = st\<lparr>ss_messages :=
     (if ss_added st then butlast (ss_messages st) else ss_messages st) @ [AssistantMessage m]\<rparr>"

text \<open>The events of a final message: its start unless the partial one was announced, and its end.\<close>

definition emit_final :: "'x loop_config \<Rightarrow> bool \<Rightarrow> assistant_message \<Rightarrow> ('x loop_world, unit) step" where
  "emit_final C added m =
     bindC (if added then returnC () else emit C (MessageStart (AssistantMessage m)))
       (\<lambda>_. emit C (MessageEnd (AssistantMessage m)))"

type_synonym 'x stream_result = "(js_error + assistant_message) \<times> stream_state \<times> 'x loop_world"

definition finish_stream ::
  "'x loop_config \<Rightarrow> assistant_message \<Rightarrow> stream_state \<Rightarrow> 'x loop_world \<Rightarrow> 'x stream_result" where
  "finish_stream C m st w =
     (case emit_final C (ss_added st) m w of
        (Inl e, w') \<Rightarrow> (Inl e, put_message m st, w')
      | (Inr _, w') \<Rightarrow> (Inr m, put_message m st, w'))"

text \<open>The terminal events: the result of the response replaces their message unless an abort came.\<close>

definition finish_terminal ::
  "'x loop_config \<Rightarrow> assistant_message \<Rightarrow> stream_state \<Rightarrow> 'x loop_world \<Rightarrow> 'x stream_result" where
  "finish_terminal C terminal st w =
     (case raceWithAbort C (lc_result C) w of
        (Inr m, w') \<Rightarrow> finish_stream C m st w'
      | (Inl e, w') \<Rightarrow>
          if is_aborted C w' \<and> isAbortError e then finish_stream C terminal st w' else (Inl e, st, w'))"

partial_function (option) stream_loop ::
  "'x loop_config \<Rightarrow> stream_state \<Rightarrow> 'x loop_world \<Rightarrow> 'x stream_result option" where
  "stream_loop C st w =
     (case raceWithAbort C (lc_next C) w of
        (Inl e, w') \<Rightarrow> Some (Inl e, st, w')
      | (Inr None, w') \<Rightarrow>
          (case raceWithAbort C (lc_result C) w' of
             (Inl e, w'') \<Rightarrow> Some (Inl e, st, w'')
           | (Inr m, w'') \<Rightarrow> Some (finish_stream C m st w''))
      | (Inr (Some ev), w') \<Rightarrow>
          (case ev of
             StreamStart m \<Rightarrow>
               (case emit C (MessageStart (AssistantMessage m)) w' of
                  (Inl e, w'') \<Rightarrow> Some (Inl e, \<lparr>ss_partial = Some m, ss_added = True,
                      ss_messages = ss_messages st @ [AssistantMessage m]\<rparr>, w'')
                | (Inr _, w'') \<Rightarrow> stream_loop C \<lparr>ss_partial = Some m, ss_added = True,
                      ss_messages = ss_messages st @ [AssistantMessage m]\<rparr> w'')
           | StreamUpdate k m \<Rightarrow>
               (if ss_partial st = None then stream_loop C st w'
                else case emit C (MessageUpdate (AssistantMessage m) ev) w' of
                    (Inl e, w'') \<Rightarrow> Some (Inl e, (put_message m st)\<lparr>ss_partial := Some m\<rparr>, w'')
                  | (Inr _, w'') \<Rightarrow> stream_loop C ((put_message m st)\<lparr>ss_partial := Some m\<rparr>) w'')
           | StreamDone m \<Rightarrow> Some (finish_terminal C m st w')
           | StreamError m \<Rightarrow> Some (finish_terminal C m st w')))"

text \<open>What happens before the first event: the context is transformed and converted, the key resolved.\<close>

definition open_stream :: "'x loop_config \<Rightarrow> 'x agent_context \<Rightarrow> ('x loop_world, unit) step" where
  "open_stream C ctx =
     bindC (throwIfAborted C) (\<lambda>_.
     bindC (case lc_transformContext C of None \<Rightarrow> returnC (ctx_messages ctx)
            | Some f \<Rightarrow> raceWithAbort C (f (ctx_messages ctx))) (\<lambda>messages.
     bindC (raceWithAbort C (lc_convertToLlm C messages)) (\<lambda>llmMessages.
     bindC (case lc_getApiKey C of None \<Rightarrow> returnC None
            | Some f \<Rightarrow> raceWithAbort C (f (lc_provider C))) (\<lambda>key w.
     let llmContext = \<lparr>lx_systemPrompt = (case lc_getSystemPrompt C of Some f \<Rightarrow> f (lw_host w)
                                         | None \<Rightarrow> ctx_systemPrompt ctx),
           lx_messages = llmMessages, lx_tools = map at_name (ctx_tools ctx)\<rparr>
     in raceWithAbort C (lc_stream C llmContext (if truthy key then key else lc_apiKey C)) w))))"

text \<open>The outcome comes with the messages of the context, which the response has been added to.\<close>

definition streamAssistantResponse ::
  "'x loop_config \<Rightarrow> 'x agent_context \<Rightarrow> 'x loop_world
     \<Rightarrow> ((js_error + assistant_message \<times> agent_message list) \<times> 'x loop_world) option" where
  "streamAssistantResponse C ctx w =
     (let st0 = \<lparr>ss_partial = None, ss_added = False, ss_messages = ctx_messages ctx\<rparr>
      in case (case open_stream C ctx w of
                 (Inl e, w') \<Rightarrow> Some (Inl e, st0, w')
               | (Inr _, w') \<Rightarrow> stream_loop C st0 w') of
           None \<Rightarrow> None
         | Some (Inr m, st, w') \<Rightarrow> Some (Inr (m, ss_messages st), w')
         | Some (Inl e, st, w') \<Rightarrow>
             if is_aborted C w' \<and> isAbortError e then
               let m = createAbortedAssistantMessage C (ss_partial st) (lc_now C (lw_host w'))
               in (case finish_stream C m st w' of
                     (Inl e', st', w'') \<Rightarrow> Some (Inl e', w'')
                   | (Inr _, st', w'') \<Rightarrow> Some (Inr (m, ss_messages st'), w''))
             else Some (Inl e, w'))"

section \<open>Tool calls\<close>

definition createErrorToolResult :: "string \<Rightarrow> agent_tool_result" where
  "createErrorToolResult msg =
     \<lparr>ar_content = [TextContent msg None], ar_details = Some (JObject []), ar_terminate = None\<rparr>"

record 'x prepared_tool_call =
  pc_toolCall :: tool_call
  pc_tool :: "'x agent_tool"
  pc_args :: json

record finalized_tool_call =
  fc_toolCall :: tool_call
  fc_result :: agent_tool_result
  fc_isError :: bool

record executed_tool_call =
  ec_result :: agent_tool_result
  ec_isError :: bool

datatype 'x preparation = Immediate agent_tool_result bool | Prepared "'x prepared_tool_call"

definition shouldTerminateToolBatch :: "finalized_tool_call list \<Rightarrow> bool" where
  "shouldTerminateToolBatch fs \<longleftrightarrow> fs \<noteq> [] \<and> list_all (\<lambda>f. ar_terminate (fc_result f) = Some True) fs"

definition prepareToolCallArguments :: "'x agent_tool \<Rightarrow> tool_call \<Rightarrow> js_error + tool_call" where
  "prepareToolCallArguments tool tc =
     (case at_prepareArguments tool of
        None \<Rightarrow> Inr tc
      | Some f \<Rightarrow> (case f (tc_arguments tc) of Inl e \<Rightarrow> Inl e | Inr a \<Rightarrow> Inr (tc\<lparr>tc_arguments := a\<rparr>)))"

definition find_tool :: "'x agent_context \<Rightarrow> tool_call \<Rightarrow> 'x agent_tool option" where
  "find_tool ctx tc = find (\<lambda>t. at_name t = tc_name tc) (ctx_tools ctx)"

text \<open>The guarded part of \<open>prepareToolCall\<close>; what it throws becomes an error result.\<close>

definition try_prepare ::
  "'x loop_config \<Rightarrow> 'x agent_context \<Rightarrow> assistant_message \<Rightarrow> tool_call \<Rightarrow> 'x agent_tool
     \<Rightarrow> ('x loop_world, 'x preparation) step" where
  "try_prepare C ctx am tc tool =
     (case prepareToolCallArguments tool tc of
        Inl e \<Rightarrow> throwC e
      | Inr tc' \<Rightarrow>
          (case at_validate tool tc' of
             Inl e \<Rightarrow> throwC e
           | Inr args \<Rightarrow>
               (case lc_beforeToolCall C of
                  None \<Rightarrow> returnC (Prepared \<lparr>pc_toolCall = tc, pc_tool = tool, pc_args = args\<rparr>)
                | Some hook \<Rightarrow>
                    bindC (raceWithAbort C (hook \<lparr>bc_assistantMessage = am, bc_toolCall = tc, bc_args = args, bc_context = ctx\<rparr>))
                      (\<lambda>r. returnC (case r of
                         Some b \<Rightarrow> if bt_block b
                           then Immediate (createErrorToolResult (or_else (bt_reason b) ''Tool execution was blocked'')) True
                           else Prepared \<lparr>pc_toolCall = tc, pc_tool = tool, pc_args = args\<rparr>
                       | None \<Rightarrow> Prepared \<lparr>pc_toolCall = tc, pc_tool = tool, pc_args = args\<rparr>)))))"

definition prepareToolCall ::
  "'x loop_config \<Rightarrow> 'x agent_context \<Rightarrow> assistant_message \<Rightarrow> tool_call \<Rightarrow> 'x loop_world
     \<Rightarrow> 'x preparation \<times> 'x loop_world" where
  "prepareToolCall C ctx am tc w =
     (case find_tool ctx tc of
        None \<Rightarrow> (Immediate (createErrorToolResult (''Tool '' @ tc_name tc @ '' not found'')) True, w)
      | Some tool \<Rightarrow>
          (case try_prepare C ctx am tc tool w of
             (Inr p, w') \<Rightarrow> (p, w')
           | (Inl e, w') \<Rightarrow> (Immediate (createErrorToolResult (er_message e)) True, w')))"

text \<open>Partial results are published unless the signal is aborted; the first failed listener is kept.\<close>

fun publish_updates ::
  "'x loop_config \<Rightarrow> tool_call \<Rightarrow> agent_tool_result list \<Rightarrow> 'x loop_world \<Rightarrow> js_error option \<times> 'x loop_world" where
  "publish_updates C tc [] w = (None, w)"
| "publish_updates C tc (r # rs) w =
     (if is_aborted C w then publish_updates C tc rs w
      else case emit C (ToolExecutionUpdate (tc_id tc) (tc_name tc) (tc_arguments tc) r) w of
          (Inr _, w') \<Rightarrow> publish_updates C tc rs w'
        | (Inl e, w') \<Rightarrow> (Some e, snd (publish_updates C tc rs w')))"

definition failed_call :: "'x loop_config \<Rightarrow> js_error \<Rightarrow> 'x loop_world \<Rightarrow> executed_tool_call \<times> 'x loop_world" where
  "failed_call C e w =
     (\<lparr>ec_result = createErrorToolResult (if is_aborted C w then ''Tool execution aborted'' else er_message e),
       ec_isError = True\<rparr>, w)"

definition executePreparedToolCall ::
  "'x loop_config \<Rightarrow> 'x prepared_tool_call \<Rightarrow> 'x loop_world \<Rightarrow> executed_tool_call \<times> 'x loop_world" where
  "executePreparedToolCall C p w =
     (if is_aborted C w then failed_call C createAbortError w
      else let tc = pc_toolCall p;
               (ups, x) = at_updates (pc_tool p) (tc_id tc) (pc_args p) (lw_host w);
               (failed, w1) = publish_updates C tc ups (w\<lparr>lw_host := x\<rparr>)
           in case raceWithAbort C (at_finish (pc_tool p) (tc_id tc) (pc_args p)) w1 of
                (Inl e, w2) \<Rightarrow> failed_call C e w2
              | (Inr r, w2) \<Rightarrow>
                  if is_aborted C w2 then (\<lparr>ec_result = r, ec_isError = False\<rparr>, w2)
                  else case failed of
                      Some e \<Rightarrow> failed_call C e w2
                    | None \<Rightarrow> (\<lparr>ec_result = r, ec_isError = False\<rparr>, w2))"

definition merge_after :: "agent_tool_result \<Rightarrow> after_tool_call_result \<Rightarrow> agent_tool_result" where
  "merge_after r a =
     \<lparr>ar_content = nullish (af_content a) (ar_content r),
      ar_details = (case af_details a of Some d \<Rightarrow> Some d | None \<Rightarrow> ar_details r),
      ar_terminate = (case af_terminate a of Some t \<Rightarrow> Some t | None \<Rightarrow> ar_terminate r)\<rparr>"

definition finalizeExecutedToolCall ::
  "'x loop_config \<Rightarrow> 'x agent_context \<Rightarrow> assistant_message \<Rightarrow> 'x prepared_tool_call \<Rightarrow> executed_tool_call
     \<Rightarrow> 'x loop_world \<Rightarrow> finalized_tool_call \<times> 'x loop_world" where
  "finalizeExecutedToolCall C ctx am p ex w =
     (case lc_afterToolCall C of
        None \<Rightarrow> (\<lparr>fc_toolCall = pc_toolCall p, fc_result = ec_result ex, fc_isError = ec_isError ex\<rparr>, w)
      | Some hook \<Rightarrow>
          (case raceWithAbort C (hook \<lparr>bc_assistantMessage = am, bc_toolCall = pc_toolCall p, bc_args = pc_args p,
                 bc_context = ctx, ac_result = ec_result ex, ac_isError = ec_isError ex\<rparr>) w of
             (Inl e, w') \<Rightarrow>
               (\<lparr>fc_toolCall = pc_toolCall p, fc_result = createErrorToolResult (er_message e), fc_isError = True\<rparr>, w')
           | (Inr None, w') \<Rightarrow>
               (\<lparr>fc_toolCall = pc_toolCall p, fc_result = ec_result ex, fc_isError = ec_isError ex\<rparr>, w')
           | (Inr (Some a), w') \<Rightarrow>
               (\<lparr>fc_toolCall = pc_toolCall p, fc_result = merge_after (ec_result ex) a,
                 fc_isError = nullish (af_isError a) (ec_isError ex)\<rparr>, w')))"

definition emitToolExecutionStart :: "'x loop_config \<Rightarrow> tool_call \<Rightarrow> ('x loop_world, unit) step" where
  "emitToolExecutionStart C tc = emit C (ToolExecutionStart (tc_id tc) (tc_name tc) (tc_arguments tc))"

definition emitToolExecutionEnd :: "'x loop_config \<Rightarrow> finalized_tool_call \<Rightarrow> ('x loop_world, unit) step" where
  "emitToolExecutionEnd C f =
     emit C (ToolExecutionEnd (tc_id (fc_toolCall f)) (tc_name (fc_toolCall f)) (fc_result f) (fc_isError f))"

definition createToolResultMessage :: "finalized_tool_call \<Rightarrow> int \<Rightarrow> tool_result_message" where
  "createToolResultMessage f now =
     \<lparr>tr_toolCallId = tc_id (fc_toolCall f), tr_toolName = tc_name (fc_toolCall f),
      tr_content = ar_content (fc_result f), tr_details = ar_details (fc_result f),
      tr_isError = fc_isError f, tr_timestamp = now\<rparr>"

text \<open>The result message of a call, made and announced.\<close>

definition emitToolResultMessage ::
  "'x loop_config \<Rightarrow> finalized_tool_call \<Rightarrow> ('x loop_world, tool_result_message) step" where
  "emitToolResultMessage C f = (\<lambda>w.
     let m = createToolResultMessage f (lc_now C (lw_host w))
     in bindC (emit C (MessageStart (ToolResultMessage m))) (\<lambda>_.
        bindC (emit C (MessageEnd (ToolResultMessage m))) (\<lambda>_. returnC m)) w)"

record executed_batch =
  eb_messages :: "tool_result_message list"
  eb_terminate :: bool

fun sequential_calls ::
  "'x loop_config \<Rightarrow> 'x agent_context \<Rightarrow> assistant_message \<Rightarrow> tool_call list
     \<Rightarrow> finalized_tool_call list \<Rightarrow> tool_result_message list \<Rightarrow> ('x loop_world, executed_batch) step" where
  "sequential_calls C ctx am [] fs ms w =
     (Inr \<lparr>eb_messages = ms, eb_terminate = shouldTerminateToolBatch fs\<rparr>, w)"
| "sequential_calls C ctx am (tc # tcs) fs ms w =
     (if is_aborted C w then (Inr \<lparr>eb_messages = ms, eb_terminate = shouldTerminateToolBatch fs\<rparr>, w)
      else case emitToolExecutionStart C tc w of
          (Inl e, w1) \<Rightarrow> (Inl e, w1)
        | (Inr _, w1) \<Rightarrow>
            let (f, w2) = (case prepareToolCall C ctx am tc w1 of
                  (Immediate r er, w2) \<Rightarrow> (\<lparr>fc_toolCall = tc, fc_result = r, fc_isError = er\<rparr>, w2)
                | (Prepared p, w2) \<Rightarrow>
                    let (ex, w3) = executePreparedToolCall C p w2
                    in finalizeExecutedToolCall C ctx am p ex w3)
            in case bindC (emitToolExecutionEnd C f) (\<lambda>_. emitToolResultMessage C f) w2 of
                 (Inl e, w3) \<Rightarrow> (Inl e, w3)
               | (Inr m, w3) \<Rightarrow> sequential_calls C ctx am tcs (fs @ [f]) (ms @ [m]) w3)"

definition executeToolCallsSequential ::
  "'x loop_config \<Rightarrow> 'x agent_context \<Rightarrow> assistant_message \<Rightarrow> tool_call list \<Rightarrow> ('x loop_world, executed_batch) step" where
  "executeToolCallsSequential C ctx am tcs = sequential_calls C ctx am tcs [] []"

text \<open>
  A parallel call: prepared, executed, through the hook, ended. Each stage runs without interruption;
  which call advances next is up to the host.
\<close>

datatype 'x call_task =
    Waiting "'x prepared_tool_call"
  | Executed "'x prepared_tool_call" executed_tool_call
  | Hooked finalized_tool_call
  | Ended finalized_tool_call

fun stages_left :: "'x call_task \<Rightarrow> nat" where
  "stages_left (Waiting _) = 3"
| "stages_left (Executed _ _) = 2"
| "stages_left (Hooked _) = 1"
| "stages_left (Ended _) = 0"

fun advance ::
  "'x loop_config \<Rightarrow> 'x agent_context \<Rightarrow> assistant_message \<Rightarrow> 'x call_task \<Rightarrow> ('x loop_world, 'x call_task) step" where
  "advance C ctx am (Waiting p) w =
     (case executePreparedToolCall C p w of (ex, w') \<Rightarrow> (Inr (Executed p ex), w'))"
| "advance C ctx am (Executed p ex) w =
     (case finalizeExecutedToolCall C ctx am p ex w of (f, w') \<Rightarrow> (Inr (Hooked f), w'))"
| "advance C ctx am (Hooked f) w =
     (case emitToolExecutionEnd C f w of (Inl e, w') \<Rightarrow> (Inl e, w') | (Inr _, w') \<Rightarrow> (Inr (Ended f), w'))"
| "advance C ctx am (Ended f) w = (Inr (Ended f), w)"

definition unfinished :: "'x call_task list \<Rightarrow> nat list" where
  "unfinished ts = filter (\<lambda>i. stages_left (ts ! i) \<noteq> 0) [0..<length ts]"

definition pick_task :: "'x loop_config \<Rightarrow> 'x call_task list \<Rightarrow> 'x loop_world \<Rightarrow> nat" where
  "pick_task C ts w = unfinished ts ! (lc_pick C (lw_host w) mod length (unfinished ts))"

lemma advance_stage:
  "advance C ctx am t w = (Inr t', w') \<Longrightarrow> stages_left t \<noteq> 0 \<Longrightarrow> Suc (stages_left t') = stages_left t"
  by (cases t) (auto split: prod.splits sum.splits)

lemma pick_task_less:
  assumes "unfinished ts \<noteq> []"
  shows "pick_task C ts w < length ts" "stages_left (ts ! pick_task C ts w) \<noteq> 0"
proof -
  have "pick_task C ts w \<in> set (unfinished ts)" using assms by (simp add: pick_task_def)
  then show "pick_task C ts w < length ts" "stages_left (ts ! pick_task C ts w) \<noteq> 0"
    by (auto simp: unfinished_def)
qed

lemma sum_list_update_less:
  "i < length xs \<Longrightarrow> f y < f (xs ! i) \<Longrightarrow> sum_list (map f (xs[i := y])) < (sum_list (map f xs) :: nat)"
proof (induction xs arbitrary: i)
  case (Cons x xs)
  then show ?case by (cases i) auto
qed simp

text \<open>\<open>Promise.all\<close> over the calls: it returns when all have ended and throws when one does.\<close>

function run_tasks ::
  "'x loop_config \<Rightarrow> 'x agent_context \<Rightarrow> assistant_message \<Rightarrow> 'x call_task list \<Rightarrow> ('x loop_world, 'x call_task list) step" where
  "run_tasks C ctx am ts w =
     (if unfinished ts = [] then (Inr ts, w)
      else case advance C ctx am (ts ! pick_task C ts w) w of
          (Inl e, w') \<Rightarrow> (Inl e, w')
        | (Inr t, w') \<Rightarrow> run_tasks C ctx am (ts[pick_task C ts w := t]) w')"
  by pat_completeness auto
termination
proof (relation "measure (\<lambda>(C, ctx, am, ts, w). sum_list (map stages_left ts))", goal_cases)
  case (2 C ctx am ts w r w' t)
  then have "advance C ctx am (ts ! pick_task C ts w) w = (Inr t, w')" by simp
  with pick_task_less(2) [OF 2(1)] advance_stage [of C ctx am "ts ! pick_task C ts w" w t w']
  have "stages_left t < stages_left (ts ! pick_task C ts w)" by simp
  with pick_task_less(1) [OF 2(1)] show ?case by (simp add: sum_list_update_less)
qed simp

declare run_tasks.simps [simp del]

fun ended_call :: "'x call_task \<Rightarrow> finalized_tool_call list" where
  "ended_call (Ended f) = [f]"
| "ended_call _ = []"

text \<open>The calls are announced and prepared one after the other; those settled at once end here.\<close>

fun prepare_calls ::
  "'x loop_config \<Rightarrow> 'x agent_context \<Rightarrow> assistant_message \<Rightarrow> tool_call list \<Rightarrow> 'x call_task list
     \<Rightarrow> ('x loop_world, 'x call_task list) step" where
  "prepare_calls C ctx am [] ts w = (Inr ts, w)"
| "prepare_calls C ctx am (tc # tcs) ts w =
     (case emitToolExecutionStart C tc w of
        (Inl e, w1) \<Rightarrow> (Inl e, w1)
      | (Inr _, w1) \<Rightarrow>
          (case prepareToolCall C ctx am tc w1 of
             (Prepared p, w2) \<Rightarrow> prepare_calls C ctx am tcs (ts @ [Waiting p]) w2
           | (Immediate r er, w2) \<Rightarrow>
               let f = \<lparr>fc_toolCall = tc, fc_result = r, fc_isError = er\<rparr>
               in (case emitToolExecutionEnd C f w2 of
                     (Inl e, w3) \<Rightarrow> (Inl e, w3)
                   | (Inr _, w3) \<Rightarrow> prepare_calls C ctx am tcs (ts @ [Ended f]) w3)))"

fun emit_results ::
  "'x loop_config \<Rightarrow> finalized_tool_call list \<Rightarrow> ('x loop_world, tool_result_message list) step" where
  "emit_results C [] = returnC []"
| "emit_results C (f # fs) =
     bindC (emitToolResultMessage C f) (\<lambda>m. bindC (emit_results C fs) (\<lambda>ms. returnC (m # ms)))"

definition executeToolCallsParallel ::
  "'x loop_config \<Rightarrow> 'x agent_context \<Rightarrow> assistant_message \<Rightarrow> tool_call list \<Rightarrow> ('x loop_world, executed_batch) step" where
  "executeToolCallsParallel C ctx am tcs =
     bindC (prepare_calls C ctx am tcs []) (\<lambda>entries.
     bindC (run_tasks C ctx am entries) (\<lambda>settled.
     let fs = concat (map ended_call settled)
     in bindC (emit_results C fs) (\<lambda>ms.
        returnC \<lparr>eb_messages = ms, eb_terminate = shouldTerminateToolBatch fs\<rparr>)))"

definition has_sequential_call :: "'x agent_context \<Rightarrow> tool_call list \<Rightarrow> bool" where
  "has_sequential_call ctx tcs =
     list_ex (\<lambda>tc. case find_tool ctx tc of Some t \<Rightarrow> at_executionMode t = Some Sequential | None \<Rightarrow> False) tcs"

definition executeToolCalls ::
  "'x loop_config \<Rightarrow> 'x agent_context \<Rightarrow> assistant_message \<Rightarrow> ('x loop_world, executed_batch) step" where
  "executeToolCalls C ctx am =
     (let tcs = tool_calls_of (am_content am)
      in if lc_toolExecution C = Sequential \<or> has_sequential_call ctx tcs
         then executeToolCallsSequential C ctx am tcs
         else executeToolCallsParallel C ctx am tcs)"

end
