(* ===== verification/Agent_Run.thy ===== *)
theory Agent_Run
  imports Agent_Loop
begin

text \<open>
  The outer part of \<open>packages/agent/src/agent-loop.ts\<close>: \<open>runLoop\<close> with its two nested loops as a
  machine over a loop state, and the four entry points. \<open>loop_step\<close> is one turn, or one round of the
  polls made when there is nothing left to do; \<open>run_loop\<close> iterates it.
\<close>

section \<open>The loop state\<close>

record 'x loop_state =
  ls_context :: "'x agent_context"
  ls_new :: "agent_message list"
  ls_firstTurn :: bool
  ls_lastTurn :: "'x turn_context option"
  ls_pending :: "agent_message list"
  ls_hasMoreToolCalls :: bool

datatype 'x loop_next = Next "'x loop_state" | Return "agent_message list"

text \<open>A message added to the context and to the new messages.\<close>

definition add_message :: "agent_message \<Rightarrow> 'x loop_state \<Rightarrow> 'x loop_state" where
  "add_message m st = st\<lparr>ls_context := (ls_context st)\<lparr>ctx_messages := ctx_messages (ls_context st) @ [m]\<rparr>,
     ls_new := ls_new st @ [m]\<rparr>"

definition announce :: "'x loop_config \<Rightarrow> agent_message \<Rightarrow> ('x loop_world, unit) step" where
  "announce C m = bindC (emit C (MessageStart m)) (\<lambda>_. emit C (MessageEnd m))"

fun inject_pending :: "'x loop_config \<Rightarrow> agent_message list \<Rightarrow> 'x loop_state \<Rightarrow> ('x loop_world, 'x loop_state) step" where
  "inject_pending C [] st = returnC (st\<lparr>ls_pending := []\<rparr>)"
| "inject_pending C (m # ms) st = bindC (announce C m) (\<lambda>_. inject_pending C ms (add_message m st))"

definition end_run :: "'x loop_config \<Rightarrow> 'x loop_state \<Rightarrow> ('x loop_world, 'x loop_next) step" where
  "end_run C st = bindC (emit C (AgentEnd (ls_new st))) (\<lambda>_. returnC (Return (ls_new st)))"

definition shouldStopBeforeTurn :: "'x loop_config \<Rightarrow> 'x loop_state \<Rightarrow> ('x loop_world, bool) step" where
  "shouldStopBeforeTurn C st = (\<lambda>w.
     if ls_firstTurn st then (Inr False, w)
     else case lc_shouldStopBeforeTurn C of
         None \<Rightarrow> (Inr False, w)
       | Some f \<Rightarrow> (case f (lw_host w) of (b, x) \<Rightarrow> (Inr b, w\<lparr>lw_host := x\<rparr>)))"

definition settled :: "'a \<Rightarrow> ('x, 'a) async" where
  "settled v = (\<lambda>x. (Fulfilled v, x))"

section \<open>One turn\<close>

text \<open>The steering queue is polled last; what it hands out starts the next turn.\<close>

definition poll_steering :: "'x loop_config \<Rightarrow> 'x loop_state \<Rightarrow> ('x loop_world, 'x loop_next) step" where
  "poll_steering C st =
     bindC (settlePostTurn C (pollMessagesUnlessAborted C (lc_getSteeringMessages C))) (\<lambda>polled.
       case polled of
         PostTurnAborted \<Rightarrow> end_run C st
       | Completed ms \<Rightarrow>
           bindC (if ms = [] then shouldStopBeforeTurn C st else returnC False) (\<lambda>b.
           if b then end_run C st else returnC (Next (st\<lparr>ls_pending := ms\<rparr>))))"

text \<open>After \<open>turn_end\<close>: the stop hooks, then the steering queue.\<close>

definition after_turn ::
  "'x loop_config \<Rightarrow> 'x loop_state \<Rightarrow> assistant_message \<Rightarrow> tool_result_message list \<Rightarrow> ('x loop_world, 'x loop_next) step" where
  "after_turn C st am results = (\<lambda>w.
     if is_aborted C w then end_run C st w
     else
       let turn = \<lparr>tn_message = am, tn_toolResults = results, tn_context = ls_context st, tn_newMessages = ls_new st\<rparr>;
           st = st\<lparr>ls_lastTurn := Some turn\<rparr>
       in bindC (settlePostTurn C (raceWithAbort C
               (case lc_shouldStopAfterTurn C of None \<Rightarrow> settled False | Some f \<Rightarrow> f turn))) (\<lambda>stop.
          case stop of
            PostTurnAborted \<Rightarrow> end_run C st
          | Completed b \<Rightarrow>
              bindC (if b then returnC True else shouldStopBeforeTurn C st) (\<lambda>b.
              if b then end_run C st else poll_steering C st)) w)"

definition after_response ::
  "'x loop_config \<Rightarrow> 'x loop_state \<Rightarrow> assistant_message \<Rightarrow> ('x loop_world, 'x loop_next) step" where
  "after_response C st am =
     (if am_stopReason am = StopError \<or> am_stopReason am = Aborted
      then bindC (emit C (TurnEnd (AssistantMessage am) [])) (\<lambda>_. end_run C st)
      else bindC (if tool_calls_of (am_content am) = [] then returnC (st\<lparr>ls_hasMoreToolCalls := False\<rparr>, [])
                  else bindC (executeToolCalls C (ls_context st) am) (\<lambda>batch.
                    returnC (fold add_message (map ToolResultMessage (eb_messages batch))
                      (st\<lparr>ls_hasMoreToolCalls := \<not> eb_terminate batch\<rparr>), eb_messages batch)))
             (\<lambda>(st, results).
                bindC (emit C (TurnEnd (AssistantMessage am) results)) (\<lambda>_. after_turn C st am results)))"

text \<open>Up to the call of the model: the turn starts, and what is pending is announced and added.\<close>

definition start_turn :: "'x loop_config \<Rightarrow> 'x loop_state \<Rightarrow> ('x loop_world, 'x loop_state) step" where
  "start_turn C st =
     bindC (throwIfAborted C) (\<lambda>_.
     bindC (if ls_firstTurn st then returnC () else emit C TurnStart) (\<lambda>_.
     inject_pending C (ls_pending st) (st\<lparr>ls_firstTurn := False\<rparr>)))"

definition run_turn ::
  "'x loop_config \<Rightarrow> 'x loop_state \<Rightarrow> 'x loop_world \<Rightarrow> ((js_error + 'x loop_next) \<times> 'x loop_world) option" where
  "run_turn C st w =
     (case start_turn C st w of
        (Inl e, w1) \<Rightarrow> Some (Inl e, w1)
      | (Inr st1, w1) \<Rightarrow>
          (case streamAssistantResponse C (ls_context st1) w1 of
             None \<Rightarrow> None
           | Some (Inl e, w2) \<Rightarrow> Some (Inl e, w2)
           | Some (Inr (am, messages), w2) \<Rightarrow>
               Some (after_response C (st1\<lparr>ls_context := (ls_context st1)\<lparr>ctx_messages := messages\<rparr>,
                 ls_new := ls_new st1 @ [AssistantMessage am]\<rparr>) am w2)))"

section \<open>When the agent would stop\<close>

definition poll_continuation :: "'x loop_config \<Rightarrow> 'x loop_state \<Rightarrow> ('x loop_world, 'x loop_next) step" where
  "poll_continuation C st =
     bindC (case ls_lastTurn st of
           None \<Rightarrow> returnC (Completed [])
         | Some turn \<Rightarrow> settlePostTurn C (raceWithAbort C
             (case lc_getContinuationMessages C of None \<Rightarrow> settled [] | Some f \<Rightarrow> f turn))) (\<lambda>polled.
       case polled of
         PostTurnAborted \<Rightarrow> end_run C st
       | Completed ms \<Rightarrow>
           if ms \<noteq> [] then returnC (Next (st\<lparr>ls_pending := ms, ls_hasMoreToolCalls := True\<rparr>))
           else end_run C st)"

definition poll_idle :: "'x loop_config \<Rightarrow> 'x loop_state \<Rightarrow> ('x loop_world, 'x loop_next) step" where
  "poll_idle C st =
     bindC (shouldStopBeforeTurn C st) (\<lambda>b.
     if b then end_run C st
     else bindC (settlePostTurn C (pollMessagesUnlessAborted C (lc_getFollowUpMessages C))) (\<lambda>polled.
       case polled of
         PostTurnAborted \<Rightarrow> end_run C st
       | Completed ms \<Rightarrow>
           if ms \<noteq> [] then returnC (Next (st\<lparr>ls_pending := ms, ls_hasMoreToolCalls := True\<rparr>))
           else bindC (shouldStopBeforeTurn C st) (\<lambda>b.
             if b then end_run C st else poll_continuation C st)))"

section \<open>The loop\<close>

definition loop_step ::
  "'x loop_config \<Rightarrow> 'x loop_state \<Rightarrow> 'x loop_world \<Rightarrow> ((js_error + 'x loop_next) \<times> 'x loop_world) option" where
  "loop_step C st w =
     (if ls_hasMoreToolCalls st \<or> ls_pending st \<noteq> [] then run_turn C st w else Some (poll_idle C st w))"

partial_function (option) run_loop ::
  "'x loop_config \<Rightarrow> 'x loop_state \<Rightarrow> 'x loop_world \<Rightarrow> ((js_error + agent_message list) \<times> 'x loop_world) option" where
  "run_loop C st w =
     (case loop_step C st w of
        None \<Rightarrow> None
      | Some (Inl e, w') \<Rightarrow> Some (Inl e, w')
      | Some (Inr (Return ms), w') \<Rightarrow> Some (Inr ms, w')
      | Some (Inr (Next st'), w') \<Rightarrow> run_loop C st' w')"

definition runLoop ::
  "'x loop_config \<Rightarrow> 'x agent_context \<Rightarrow> agent_message list \<Rightarrow> 'x loop_world
     \<Rightarrow> ((js_error + agent_message list) \<times> 'x loop_world) option" where
  "runLoop C ctx new w =
     (case pollMessagesUnlessAborted C (lc_getSteeringMessages C) w of
        (Inl e, w') \<Rightarrow> Some (Inl e, w')
      | (Inr ms, w') \<Rightarrow> run_loop C \<lparr>ls_context = ctx, ls_new = new, ls_firstTurn = True, ls_lastTurn = None,
            ls_pending = ms, ls_hasMoreToolCalls = True\<rparr> w')"

definition runAgentLoop ::
  "'x loop_config \<Rightarrow> agent_message list \<Rightarrow> 'x agent_context \<Rightarrow> 'x loop_world
     \<Rightarrow> ((js_error + agent_message list) \<times> 'x loop_world) option" where
  "runAgentLoop C prompts ctx w =
     (case bindC (emit C AgentStart) (\<lambda>_. bindC (emit C TurnStart) (\<lambda>_. eachC (announce C) prompts)) w of
        (Inl e, w') \<Rightarrow> Some (Inl e, w')
      | (Inr _, w') \<Rightarrow> runLoop C (ctx\<lparr>ctx_messages := ctx_messages ctx @ prompts\<rparr>) prompts w')"

definition continue_guard :: "'x agent_context \<Rightarrow> js_error option" where
  "continue_guard ctx =
     (if ctx_messages ctx = [] then Some (JsError ''Error'' ''Cannot continue: no messages in context'')
      else if is_assistant (last (ctx_messages ctx))
           then Some (JsError ''Error'' ''Cannot continue from message role: assistant'')
      else None)"

definition runAgentLoopContinue ::
  "'x loop_config \<Rightarrow> 'x agent_context \<Rightarrow> 'x loop_world
     \<Rightarrow> ((js_error + agent_message list) \<times> 'x loop_world) option" where
  "runAgentLoopContinue C ctx w =
     (case continue_guard ctx of
        Some e \<Rightarrow> Some (Inl e, w)
      | None \<Rightarrow>
          (case bindC (emit C AgentStart) (\<lambda>_. emit C TurnStart) w of
             (Inl e, w') \<Rightarrow> Some (Inl e, w')
           | (Inr _, w') \<Rightarrow> runLoop C ctx [] w'))"

text \<open>
  The stream variants: the events of the run, and its messages, or none when it throws. \<open>Inl\<close> is a
  throw before there is a stream.
\<close>

definition endAgentStreamOnError ::
  "((js_error + agent_message list) \<times> 'x loop_world) option \<Rightarrow> (agent_event list \<times> agent_message list) option" where
  "endAgentStreamOnError r = map_option (\<lambda>(out, w). (lw_log w, case out of Inr ms \<Rightarrow> ms | Inl _ \<Rightarrow> [])) r"

definition agentLoop ::
  "'x loop_config \<Rightarrow> agent_message list \<Rightarrow> 'x agent_context \<Rightarrow> 'x \<Rightarrow> (agent_event list \<times> agent_message list) option" where
  "agentLoop C prompts ctx x = endAgentStreamOnError (runAgentLoop C prompts ctx \<lparr>lw_log = [], lw_host = x\<rparr>)"

definition agentLoopContinue ::
  "'x loop_config \<Rightarrow> 'x agent_context \<Rightarrow> 'x \<Rightarrow> js_error + (agent_event list \<times> agent_message list) option" where
  "agentLoopContinue C ctx x =
     (case continue_guard ctx of
        Some e \<Rightarrow> Inl e
      | None \<Rightarrow> Inr (endAgentStreamOnError (runAgentLoopContinue C ctx \<lparr>lw_log = [], lw_host = x\<rparr>)))"

end
