(* ===== verification/Message_Queue.thy ===== *)
theory Message_Queue
  imports Agent_Types
begin

text \<open>
  \<open>PendingMessageQueue\<close> of \<open>packages/agent/src/agent.ts\<close>: batches of messages waiting to be injected,
  handed out one batch at a time or all at once. The interface \<open>message_fifo\<close> says what the agent
  relies on: in whatever order messages are queued and drained and the mode is changed, they come out
  complete and in the order they came in.
\<close>

section \<open>The queue\<close>

datatype queue_mode = All | OneAtATime

datatype message_input = OneMessage agent_message | ManyMessages "agent_message list"

record pending_queue =
  pq_mode :: queue_mode
  pq_batches :: "agent_message list list"

definition new_queue :: "queue_mode \<Rightarrow> pending_queue" where
  "new_queue mode = \<lparr>pq_mode = mode, pq_batches = []\<rparr>"

fun input_messages :: "message_input \<Rightarrow> agent_message list" where
  "input_messages (OneMessage m) = [m]"
| "input_messages (ManyMessages ms) = ms"

definition enqueue :: "message_input \<Rightarrow> pending_queue \<Rightarrow> pending_queue" where
  "enqueue input q =
     (let batch = input_messages input
      in if batch \<noteq> [] then q\<lparr>pq_batches := pq_batches q @ [batch]\<rparr> else q)"

definition hasItems :: "pending_queue \<Rightarrow> bool" where
  "hasItems q \<longleftrightarrow> pq_batches q \<noteq> []"

definition drain :: "pending_queue \<Rightarrow> agent_message list \<times> pending_queue" where
  "drain q =
     (case pq_mode q of
        All \<Rightarrow> (concat (pq_batches q), q\<lparr>pq_batches := []\<rparr>)
      | OneAtATime \<Rightarrow>
          (case pq_batches q of
             [] \<Rightarrow> ([], q)
           | first # rest \<Rightarrow> (first, q\<lparr>pq_batches := rest\<rparr>)))"

definition clear :: "pending_queue \<Rightarrow> pending_queue" where
  "clear q = q\<lparr>pq_batches := []\<rparr>"

text \<open>A batch with a matching message is removed whole.\<close>

definition removeWhere :: "(agent_message \<Rightarrow> bool) \<Rightarrow> pending_queue \<Rightarrow> agent_message list \<times> pending_queue" where
  "removeWhere P q =
     (concat (filter (list_ex P) (pq_batches q)), q\<lparr>pq_batches := filter (\<lambda>b. \<not> list_ex P b) (pq_batches q)\<rparr>)"

definition set_mode :: "queue_mode \<Rightarrow> pending_queue \<Rightarrow> pending_queue" where
  "set_mode mode q = q\<lparr>pq_mode := mode\<rparr>"

section \<open>Uses of a queue\<close>

datatype ('b, 'c) queue_use = Put 'b | Take | Configure 'c

text \<open>What a sequence of uses hands out.\<close>

fun run_uses ::
  "('b \<Rightarrow> 'q \<Rightarrow> 'q) \<Rightarrow> ('q \<Rightarrow> 'm list \<times> 'q) \<Rightarrow> ('c \<Rightarrow> 'q \<Rightarrow> 'q) \<Rightarrow> ('b, 'c) queue_use list \<Rightarrow> 'q \<Rightarrow> 'm list \<times> 'q" where
  "run_uses put get conf [] q = ([], q)"
| "run_uses put get conf (Put b # us) q = run_uses put get conf us (put b q)"
| "run_uses put get conf (Configure c # us) q = run_uses put get conf us (conf c q)"
| "run_uses put get conf (Take # us) q =
     (let (ms, q') = get q; (rest, q'') = run_uses put get conf us q' in (ms @ rest, q''))"

fun put_items :: "('b \<Rightarrow> 'm list) \<Rightarrow> ('b, 'c) queue_use list \<Rightarrow> 'm list" where
  "put_items items [] = []"
| "put_items items (Put b # us) = items b @ put_items items us"
| "put_items items (u # us) = put_items items us"

lemma run_uses_append:
  "run_uses put get conf (xs @ ys) q =
     (let (ms, q') = run_uses put get conf xs q; (rest, q'') = run_uses put get conf ys q' in (ms @ rest, q''))"
proof (induction xs arbitrary: q)
  case (Cons u xs)
  then show ?case by (cases u) (simp_all add: case_prod_unfold Let_def)
qed simp

locale message_fifo =
  fixes put :: "'b \<Rightarrow> 'q \<Rightarrow> 'q"
    and get :: "'q \<Rightarrow> 'm list \<times> 'q"
    and conf :: "'c \<Rightarrow> 'q \<Rightarrow> 'q"
    and items :: "'b \<Rightarrow> 'm list"
    and contents :: "'q \<Rightarrow> 'm list"
    and invar :: "'q \<Rightarrow> bool"
  assumes put_contents: "invar q \<Longrightarrow> contents (put b q) = contents q @ items b"
    and put_invar: "invar q \<Longrightarrow> invar (put b q)"
    and conf_contents: "contents (conf c q) = contents q"
    and conf_invar: "invar q \<Longrightarrow> invar (conf c q)"
    and get_contents: "invar q \<Longrightarrow> contents q = fst (get q) @ contents (snd (get q))"
    and get_invar: "invar q \<Longrightarrow> invar (snd (get q))"
    and get_progress: "invar q \<Longrightarrow> contents q \<noteq> [] \<Longrightarrow> fst (get q) \<noteq> []"
begin

lemma uses_in_order:
  assumes "invar q" "run_uses put get conf us q = (ms, q')"
  shows "contents q @ put_items items us = ms @ contents q' \<and> invar q'"
  using assms
proof (induction us arbitrary: q ms q')
  case (Cons u us)
  show ?case
  proof (cases u)
    case (Put b)
    with Cons.IH [OF put_invar [OF Cons.prems(1)]] Cons.prems put_contents [OF Cons.prems(1)] show ?thesis by simp
  next
    case Take
    obtain rest q2 where r: "run_uses put get conf us (snd (get q)) = (rest, q2)" by (rule prod.exhaust)
    with Cons.prems Take have "ms = fst (get q) @ rest" "q' = q2" by (simp_all add: case_prod_unfold)
    with Cons.IH [OF get_invar [OF Cons.prems(1)] r] Take show ?thesis
      by (simp add: get_contents [OF Cons.prems(1)])
  next
    case (Configure c)
    with Cons.IH [OF conf_invar [OF Cons.prems(1)]] Cons.prems conf_contents show ?thesis by simp
  qed
qed simp

text \<open>As many takes as there are messages empty the queue.\<close>

lemma takes_empty:
  assumes "invar q" "length (contents q) \<le> n"
  shows "fst (run_uses put get conf (replicate n Take) q) = contents q"
  using assms
proof (induction n arbitrary: q)
  case (Suc n)
  note c = get_contents [OF Suc.prems(1)]
  have "length (contents (snd (get q))) \<le> n"
  proof (cases "contents q = []")
    case True
    with c show ?thesis by simp
  next
    case False
    from get_progress [OF Suc.prems(1) False] have "0 < length (fst (get q))" by simp
    moreover have "length (contents q) = length (fst (get q)) + length (contents (snd (get q)))" using c by (metis length_append)
    ultimately show ?thesis using Suc.prems(2) by linarith
  qed
  from Suc.IH [OF get_invar [OF Suc.prems(1)] this] c show ?case by (simp add: case_prod_unfold Let_def)
qed simp

end

section \<open>The queue provides the interface\<close>

definition queue_contents :: "pending_queue \<Rightarrow> agent_message list" where
  "queue_contents q = concat (pq_batches q)"

definition queue_invar :: "pending_queue \<Rightarrow> bool" where
  "queue_invar q \<longleftrightarrow> [] \<notin> set (pq_batches q)"

interpretation pq: message_fifo enqueue drain set_mode input_messages queue_contents queue_invar
proof unfold_locales
  show "queue_invar q \<Longrightarrow> queue_contents q = fst (drain q) @ queue_contents (snd (drain q))" for q
    by (cases "pq_batches q") (auto simp: drain_def queue_contents_def split: queue_mode.split)
  show "queue_invar q \<Longrightarrow> queue_invar (snd (drain q))" for q
    by (cases "pq_batches q") (auto simp: drain_def queue_invar_def split: queue_mode.split)
  show "queue_invar q \<Longrightarrow> queue_contents q \<noteq> [] \<Longrightarrow> fst (drain q) \<noteq> []" for q
    by (cases "pq_batches q") (auto simp: drain_def queue_invar_def queue_contents_def split: queue_mode.split)
qed (auto simp: enqueue_def Let_def queue_contents_def queue_invar_def set_mode_def)

lemma new_queue_invar [simp]: "queue_invar (new_queue mode)" "queue_contents (new_queue mode) = []"
  by (simp_all add: new_queue_def queue_invar_def queue_contents_def)

text \<open>
  Whatever the sequence of enqueueing, draining and mode changes, draining on until as many
  drains as messages gives every message queued, once and in order.
\<close>

theorem queue_delivers_in_order:
  "fst (run_uses enqueue drain set_mode (us @ replicate (length (put_items input_messages us)) Take) (new_queue mode))
     = put_items input_messages us"
proof -
  obtain ms q where r: "run_uses enqueue drain set_mode us (new_queue mode) = (ms, q)" by (rule prod.exhaust)
  from pq.uses_in_order [OF _ this] have c: "put_items input_messages us = ms @ queue_contents q" "queue_invar q" by simp_all
  then have "length (queue_contents q) \<le> length (put_items input_messages us)" by simp
  from pq.takes_empty [OF c(2) this] show ?thesis unfolding run_uses_append r c(1) by (simp add: case_prod_unfold)
qed

end
