(* ===== verification/Agent.thy ===== *)
theory Agent
  imports Agent_Run Message_Queue
begin

text \<open>
  The \<open>Agent\<close> class of \<open>packages/agent/src/agent.ts\<close>: the transcript and its streaming state, the two
  message queues, the active run with its abort flag, and the life cycle of a run. The environment
  of type \<open>'y\<close> stands for the provider, the tools, the hooks and the listeners; whatever it is
  called for, it may issue commands to the agent (queue, clear, abort), which take effect before the
  awaited call settles. Assigning to the state of the agent during a run is not modelled. The tools
  of the state are the names of tools of the environment.
\<close>

section \<open>State\<close>

record agent_state =
  st_systemPrompt :: string
  st_api :: string
  st_provider :: string
  st_modelId :: string
  st_tools :: "string list"
  st_messages :: "agent_message list"
  st_isStreaming :: bool
  st_streamingMessage :: "agent_message option"
  st_pendingToolCalls :: "string list"
  st_errorMessage :: "string option"

text \<open>\<open>ag_activeRun\<close> is the abort flag of the active run, if there is one.\<close>

record agent =
  ag_state :: agent_state
  ag_steeringQueue :: pending_queue
  ag_followUpQueue :: pending_queue
  ag_activeRun :: "bool option"
  ag_toolExecution :: tool_execution_mode

definition createMutableAgentState :: "string \<Rightarrow> string \<Rightarrow> string \<Rightarrow> string \<Rightarrow> string list \<Rightarrow> agent_message list \<Rightarrow> agent_state" where
  "createMutableAgentState systemPrompt api provider model tools messages =
     \<lparr>st_systemPrompt = systemPrompt, st_api = api, st_provider = provider, st_modelId = model, st_tools = tools,
      st_messages = messages, st_isStreaming = False, st_streamingMessage = None, st_pendingToolCalls = [],
      st_errorMessage = None\<rparr>"

definition new_agent :: "agent_state \<Rightarrow> queue_mode option \<Rightarrow> queue_mode option \<Rightarrow> tool_execution_mode option \<Rightarrow> agent" where
  "new_agent initial steering followUp execution =
     \<lparr>ag_state = initial, ag_steeringQueue = new_queue (nullish steering OneAtATime),
      ag_followUpQueue = new_queue (nullish followUp OneAtATime), ag_activeRun = None,
      ag_toolExecution = nullish execution Parallel\<rparr>"

definition set_steeringMode :: "queue_mode \<Rightarrow> agent \<Rightarrow> agent" where
  "set_steeringMode mode a = a\<lparr>ag_steeringQueue := set_mode mode (ag_steeringQueue a)\<rparr>"

definition set_followUpMode :: "queue_mode \<Rightarrow> agent \<Rightarrow> agent" where
  "set_followUpMode mode a = a\<lparr>ag_followUpQueue := set_mode mode (ag_followUpQueue a)\<rparr>"

definition steer :: "message_input \<Rightarrow> agent \<Rightarrow> agent" where
  "steer m a = a\<lparr>ag_steeringQueue := enqueue m (ag_steeringQueue a)\<rparr>"

definition followUp :: "message_input \<Rightarrow> agent \<Rightarrow> agent" where
  "followUp m a = a\<lparr>ag_followUpQueue := enqueue m (ag_followUpQueue a)\<rparr>"

definition clearSteeringQueue :: "agent \<Rightarrow> agent" where
  "clearSteeringQueue a = a\<lparr>ag_steeringQueue := clear (ag_steeringQueue a)\<rparr>"

definition clearFollowUpQueue :: "agent \<Rightarrow> agent" where
  "clearFollowUpQueue a = a\<lparr>ag_followUpQueue := clear (ag_followUpQueue a)\<rparr>"

definition clearAllQueues :: "agent \<Rightarrow> agent" where
  "clearAllQueues a = clearFollowUpQueue (clearSteeringQueue a)"

definition removeQueuedMessages :: "(agent_message \<Rightarrow> bool) \<Rightarrow> agent \<Rightarrow> agent_message list \<times> agent" where
  "removeQueuedMessages P a =
     (let (ms, s) = removeWhere P (ag_steeringQueue a); (ns, f) = removeWhere P (ag_followUpQueue a)
      in (ms @ ns, a\<lparr>ag_steeringQueue := s, ag_followUpQueue := f\<rparr>))"

definition hasQueuedMessages :: "agent \<Rightarrow> bool" where
  "hasQueuedMessages a \<longleftrightarrow> hasItems (ag_steeringQueue a) \<or> hasItems (ag_followUpQueue a)"

definition abort :: "agent \<Rightarrow> agent" where
  "abort a = a\<lparr>ag_activeRun := map_option (\<lambda>_. True) (ag_activeRun a)\<rparr>"

definition reset :: "agent \<Rightarrow> agent" where
  "reset a = clearSteeringQueue (clearFollowUpQueue (a\<lparr>ag_state := (ag_state a)
     \<lparr>st_messages := [], st_isStreaming := False, st_streamingMessage := None, st_pendingToolCalls := [],
      st_errorMessage := None\<rparr>\<rparr>))"

section \<open>The environment\<close>

datatype agent_command =
    Steer message_input
  | FollowUp message_input
  | ClearSteering
  | ClearFollowUp
  | RemoveQueued "agent_message \<Rightarrow> bool"
  | SteeringMode queue_mode
  | FollowUpMode queue_mode
  | AbortRun

fun exec_command :: "agent_command \<Rightarrow> agent \<Rightarrow> agent" where
  "exec_command (Steer m) a = steer m a"
| "exec_command (FollowUp m) a = followUp m a"
| "exec_command ClearSteering a = clearSteeringQueue a"
| "exec_command ClearFollowUp a = clearFollowUpQueue a"
| "exec_command (RemoveQueued P) a = snd (removeQueuedMessages P a)"
| "exec_command (SteeringMode mode) a = set_steeringMode mode a"
| "exec_command (FollowUpMode mode) a = set_followUpMode mode a"
| "exec_command AbortRun a = abort a"

text \<open>The agent in its environment; \<open>aw_skipPoll\<close> is the closure variable of \<open>createLoopConfig\<close>.\<close>

record 'y agent_world =
  aw_agent :: agent
  aw_skipPoll :: bool
  aw_env :: 'y

type_synonym ('y, 'r) env_call = "'y \<Rightarrow> ('r \<times> agent_command list) \<times> 'y"

definition lift_call :: "('y, 'r) env_call \<Rightarrow> 'y agent_world \<Rightarrow> 'r \<times> 'y agent_world" where
  "lift_call f W =
     (let ((r, cmds), y) = f (aw_env W) in (r, W\<lparr>aw_agent := fold exec_command cmds (aw_agent W), aw_env := y\<rparr>))"

record 'y env_tool =
  et_executionMode :: "tool_execution_mode option"
  et_prepareArguments :: "(json \<Rightarrow> js_error + json) option"
  et_validate :: "tool_call \<Rightarrow> js_error + json"
  et_updates :: "string \<Rightarrow> json \<Rightarrow> ('y, agent_tool_result list) env_call"
  et_finish :: "string \<Rightarrow> json \<Rightarrow> ('y, agent_tool_result outcome) env_call"

record 'y agent_env =
  ae_listeners :: "(agent_event \<Rightarrow> bool \<Rightarrow> ('y, js_error option) env_call) list"
  ae_now :: "'y \<Rightarrow> int"
  ae_tools :: "string \<Rightarrow> 'y env_tool"
  ae_transformContext :: "(agent_message list \<Rightarrow> ('y, agent_message list outcome) env_call) option"
  ae_convertToLlm :: "agent_message list \<Rightarrow> ('y, llm_message list outcome) env_call"
  ae_getApiKey :: "(string \<Rightarrow> ('y, string option outcome) env_call) option"
  ae_stream :: "llm_context \<Rightarrow> string option \<Rightarrow> ('y, unit outcome) env_call"
  ae_next :: "('y, stream_event option outcome) env_call"
  ae_result :: "('y, assistant_message outcome) env_call"
  ae_beforeToolCall :: "('y agent_world before_tool_call_context \<Rightarrow> ('y, before_tool_call_result option outcome) env_call) option"
  ae_afterToolCall :: "('y agent_world after_tool_call_context \<Rightarrow> ('y, after_tool_call_result option outcome) env_call) option"
  ae_shouldStopAfterTurn :: "('y agent_world turn_context \<Rightarrow> ('y, bool outcome) env_call) option"
  ae_shouldStopBeforeTurn :: "('y, bool) env_call option"
  ae_getContinuationMessages :: "('y agent_world turn_context \<Rightarrow> ('y, agent_message list outcome) env_call) option"
  ae_pick :: "'y \<Rightarrow> nat"

definition lift_tool :: "'y agent_env \<Rightarrow> string \<Rightarrow> 'y agent_world agent_tool" where
  "lift_tool E n =
     \<lparr>at_name = n, at_executionMode = et_executionMode (ae_tools E n),
      at_prepareArguments = et_prepareArguments (ae_tools E n), at_validate = et_validate (ae_tools E n),
      at_updates = (\<lambda>i a. lift_call (et_updates (ae_tools E n) i a)),
      at_finish = (\<lambda>i a. lift_call (et_finish (ae_tools E n) i a))\<rparr>"

section \<open>Events\<close>

fun reduce_event :: "agent_event \<Rightarrow> agent_state \<Rightarrow> agent_state" where
  "reduce_event (MessageStart m) s = s\<lparr>st_streamingMessage := Some m\<rparr>"
| "reduce_event (MessageUpdate m _) s = s\<lparr>st_streamingMessage := Some m\<rparr>"
| "reduce_event (MessageEnd m) s = s\<lparr>st_streamingMessage := None, st_messages := st_messages s @ [m]\<rparr>"
| "reduce_event (ToolExecutionStart i _ _) s = s\<lparr>st_pendingToolCalls := set_add i (st_pendingToolCalls s)\<rparr>"
| "reduce_event (ToolExecutionEnd i _ _ _) s = s\<lparr>st_pendingToolCalls := set_delete i (st_pendingToolCalls s)\<rparr>"
| "reduce_event (TurnEnd m _) s =
     (case m of
        AssistantMessage am \<Rightarrow> if truthy (am_errorMessage am) then s\<lparr>st_errorMessage := am_errorMessage am\<rparr> else s
      | _ \<Rightarrow> s)"
| "reduce_event (AgentEnd _) s = s\<lparr>st_streamingMessage := None\<rparr>"
| "reduce_event _ s = s"

definition map_state :: "(agent_state \<Rightarrow> agent_state) \<Rightarrow> 'y agent_world \<Rightarrow> 'y agent_world" where
  "map_state f W = W\<lparr>aw_agent := (aw_agent W)\<lparr>ag_state := f (ag_state (aw_agent W))\<rparr>\<rparr>"

definition signal_aborted :: "'y agent_world \<Rightarrow> bool" where
  "signal_aborted W \<longleftrightarrow> ag_activeRun (aw_agent W) = Some True"

fun run_listeners ::
  "(agent_event \<Rightarrow> bool \<Rightarrow> ('y, js_error option) env_call) list \<Rightarrow> agent_event \<Rightarrow> 'y agent_world
     \<Rightarrow> js_error option \<times> 'y agent_world" where
  "run_listeners [] ev W = (None, W)"
| "run_listeners (l # ls) ev W =
     (case lift_call (l ev (signal_aborted W)) W of
        (Some e, W') \<Rightarrow> (Some e, W')
      | (None, W') \<Rightarrow> run_listeners ls ev W')"

definition processEvents :: "'y agent_env \<Rightarrow> agent_event \<Rightarrow> 'y agent_world \<Rightarrow> js_error option \<times> 'y agent_world" where
  "processEvents E ev W =
     (let W1 = map_state (reduce_event ev) W
      in if ag_activeRun (aw_agent W1) = None
         then (Some (JsError ''Error'' ''Agent listener invoked outside active run''), W1)
         else run_listeners (ae_listeners E) ev W1)"

section \<open>A run\<close>

definition drain_steering :: "('y agent_world, agent_message list) async" where
  "drain_steering W =
     (if aw_skipPoll W then (Fulfilled [], W\<lparr>aw_skipPoll := False\<rparr>)
      else let (ms, q) = drain (ag_steeringQueue (aw_agent W))
           in (Fulfilled ms, W\<lparr>aw_agent := (aw_agent W)\<lparr>ag_steeringQueue := q\<rparr>\<rparr>))"

definition drain_followUp :: "('y agent_world, agent_message list) async" where
  "drain_followUp W =
     (let (ms, q) = drain (ag_followUpQueue (aw_agent W))
      in (Fulfilled ms, W\<lparr>aw_agent := (aw_agent W)\<lparr>ag_followUpQueue := q\<rparr>\<rparr>))"

definition createContextSnapshot :: "'y agent_env \<Rightarrow> 'y agent_world \<Rightarrow> 'y agent_world agent_context" where
  "createContextSnapshot E W =
     (let s = ag_state (aw_agent W)
      in \<lparr>ctx_systemPrompt = st_systemPrompt s, ctx_messages = st_messages s, ctx_tools = map (lift_tool E) (st_tools s)\<rparr>)"

text \<open>The configuration is made from the agent \<open>a\<close> at the start of the run.\<close>

definition createLoopConfig :: "'y agent_env \<Rightarrow> agent \<Rightarrow> 'y agent_world loop_config" where
  "createLoopConfig E a =
     \<lparr>lc_aborted = signal_aborted, lc_emit = processEvents E, lc_now = (\<lambda>W. ae_now E (aw_env W)),
      lc_api = st_api (ag_state a), lc_provider = st_provider (ag_state a), lc_modelId = st_modelId (ag_state a),
      lc_apiKey = None, lc_toolExecution = ag_toolExecution a,
      lc_transformContext = map_option (\<lambda>f ms. lift_call (f ms)) (ae_transformContext E),
      lc_convertToLlm = (\<lambda>ms. lift_call (ae_convertToLlm E ms)),
      lc_getSystemPrompt = Some (\<lambda>W. st_systemPrompt (ag_state (aw_agent W))),
      lc_getApiKey = map_option (\<lambda>f p. lift_call (f p)) (ae_getApiKey E),
      lc_stream = (\<lambda>lx key. lift_call (ae_stream E lx key)),
      lc_next = lift_call (ae_next E),
      lc_result = lift_call (ae_result E),
      lc_beforeToolCall = map_option (\<lambda>f c. lift_call (f c)) (ae_beforeToolCall E),
      lc_afterToolCall = map_option (\<lambda>f c. lift_call (f c)) (ae_afterToolCall E),
      lc_shouldStopAfterTurn = Some (\<lambda>turn. case ae_shouldStopAfterTurn E of
          None \<Rightarrow> settled False | Some f \<Rightarrow> lift_call (f turn)),
      lc_shouldStopBeforeTurn = Some (\<lambda>W. case ae_shouldStopBeforeTurn E of
          None \<Rightarrow> (False, W) | Some f \<Rightarrow> lift_call f W),
      lc_getSteeringMessages = Some drain_steering,
      lc_getFollowUpMessages = Some drain_followUp,
      lc_getContinuationMessages = Some (\<lambda>turn. case ae_getContinuationMessages E of
          None \<Rightarrow> settled [] | Some f \<Rightarrow> lift_call (f turn)),
      lc_pick = (\<lambda>W. ae_pick E (aw_env W))\<rparr>"

definition failure_message :: "'y agent_env \<Rightarrow> js_error \<Rightarrow> bool \<Rightarrow> 'y agent_world \<Rightarrow> assistant_message" where
  "failure_message E e aborted W =
     (let s = ag_state (aw_agent W)
      in \<lparr>am_content = [AText [] None], am_api = st_api s, am_provider = st_provider s, am_model = st_modelId s,
          am_usage = emptyUsage, am_stopReason = (if aborted then Aborted else StopError),
          am_errorMessage = Some (er_message e), am_timestamp = ae_now E (aw_env W)\<rparr>)"

definition handleRunFailure :: "'y agent_env \<Rightarrow> js_error \<Rightarrow> bool \<Rightarrow> 'y agent_world \<Rightarrow> 'y agent_world" where
  "handleRunFailure E e aborted W =
     (let m = AssistantMessage (failure_message E e aborted W);
          W1 = map_state (\<lambda>s. s\<lparr>st_errorMessage := Some (er_message e)\<rparr>) W;
          W2 = snd (processEvents E (MessageStart m) W1);
          W3 = snd (processEvents E (MessageEnd m) W2)
      in snd (processEvents E (AgentEnd [m]) W3))"

definition finishRun :: "'y agent_world \<Rightarrow> 'y agent_world" where
  "finishRun W =
     (let W1 = map_state (\<lambda>s. s\<lparr>st_isStreaming := False, st_streamingMessage := None, st_pendingToolCalls := []\<rparr>) W
      in W1\<lparr>aw_agent := (aw_agent W1)\<lparr>ag_activeRun := None\<rparr>\<rparr>)"

definition startRun :: "'y agent_world \<Rightarrow> 'y agent_world" where
  "startRun W =
     (let W1 = W\<lparr>aw_agent := (aw_agent W)\<lparr>ag_activeRun := Some False\<rparr>\<rparr>
      in map_state (\<lambda>s. s\<lparr>st_isStreaming := True, st_streamingMessage := None, st_errorMessage := None\<rparr>) W1)"

type_synonym 'y run_outcome = "((js_error + agent_message list) \<times> 'y agent_world loop_world) option"

text \<open>The world after a run, which ended as \<open>r\<close>: a throw is recorded, then the run is finished.\<close>

definition settle_run :: "'y agent_env \<Rightarrow> (js_error + agent_message list) \<times> 'y agent_world loop_world \<Rightarrow> 'y agent_world" where
  "settle_run E out = (case out of
      (Inr _, w) \<Rightarrow> finishRun (lw_host w)
    | (Inl e, w) \<Rightarrow> finishRun (handleRunFailure E e (signal_aborted (lw_host w)) (lw_host w)))"

definition runWithLifecycle ::
  "'y agent_env \<Rightarrow> ('y agent_world \<Rightarrow> 'y run_outcome) \<Rightarrow> 'y agent_world \<Rightarrow> ((js_error + unit) \<times> 'y agent_world) option" where
  "runWithLifecycle E executor W =
     (if ag_activeRun (aw_agent W) \<noteq> None then Some (Inl (JsError ''Error'' ''Agent is already processing.''), W)
      else map_option (\<lambda>out. (Inr (), settle_run E out)) (executor (startRun W)))"

definition prompt_run :: "'y agent_env \<Rightarrow> agent_message list \<Rightarrow> bool \<Rightarrow> 'y agent_world \<Rightarrow> 'y run_outcome" where
  "prompt_run E messages skip W =
     runAgentLoop (createLoopConfig E (aw_agent W)) messages (createContextSnapshot E W)
       \<lparr>lw_log = [], lw_host = W\<lparr>aw_skipPoll := skip\<rparr>\<rparr>"

definition runPromptMessages ::
  "'y agent_env \<Rightarrow> agent_message list \<Rightarrow> bool \<Rightarrow> 'y agent_world \<Rightarrow> ((js_error + unit) \<times> 'y agent_world) option" where
  "runPromptMessages E messages skip W = runWithLifecycle E (prompt_run E messages skip) W"

definition runContinuation :: "'y agent_env \<Rightarrow> 'y agent_world \<Rightarrow> ((js_error + unit) \<times> 'y agent_world) option" where
  "runContinuation E W =
     runWithLifecycle E (\<lambda>W. runAgentLoopContinue (createLoopConfig E (aw_agent W)) (createContextSnapshot E W)
       \<lparr>lw_log = [], lw_host = W\<lparr>aw_skipPoll := False\<rparr>\<rparr>) W"

section \<open>Prompting and continuing\<close>

datatype prompt_input = PromptText string "text_or_image list" | PromptMessages message_input

fun normalizePromptInput :: "prompt_input \<Rightarrow> int \<Rightarrow> agent_message list" where
  "normalizePromptInput (PromptMessages input) now = input_messages input"
| "normalizePromptInput (PromptText text images) now =
     [UserMessage (Blocks (TextContent text None # images)) now]"

definition prompt ::
  "'y agent_env \<Rightarrow> prompt_input \<Rightarrow> 'y agent_world \<Rightarrow> ((js_error + unit) \<times> 'y agent_world) option" where
  "prompt E input W =
     (if ag_activeRun (aw_agent W) \<noteq> None
      then Some (Inl (JsError ''Error'' ''Agent is already processing a prompt. Use steer() or followUp() to queue messages, or wait for completion.''), W)
      else runPromptMessages E (normalizePromptInput input (ae_now E (aw_env W))) False W)"

datatype continue_code = Busy | NothingToContinue

datatype continue_failure = Refused continue_code string | Thrown js_error

definition rethrow :: "((js_error + unit) \<times> 'w) option \<Rightarrow> ((continue_failure + unit) \<times> 'w) option" where
  "rethrow r = map_option (\<lambda>(out, W). (case out of Inl e \<Rightarrow> Inl (Thrown e) | Inr u \<Rightarrow> Inr u, W)) r"

text \<open>
  The queued messages, steering before follow-up. \<open>Inr\<close> is a started run, \<open>Inl\<close> the world when
  there is nothing queued.
\<close>

definition runQueuedMessages ::
  "'y agent_env \<Rightarrow> 'y agent_world \<Rightarrow> 'y agent_world + ((js_error + unit) \<times> 'y agent_world) option" where
  "runQueuedMessages E W =
     (let (steering, q) = drain (ag_steeringQueue (aw_agent W));
          W1 = W\<lparr>aw_agent := (aw_agent W)\<lparr>ag_steeringQueue := q\<rparr>\<rparr>
      in if steering \<noteq> [] then Inr (runPromptMessages E steering True W1)
         else let (follow, q') = drain (ag_followUpQueue (aw_agent W1));
                  W2 = W1\<lparr>aw_agent := (aw_agent W1)\<lparr>ag_followUpQueue := q'\<rparr>\<rparr>
              in if follow \<noteq> [] then Inr (runPromptMessages E follow False W2) else Inl W2)"

fun is_custom :: "agent_message \<Rightarrow> bool" where
  "is_custom (CustomMessage _) = True"
| "is_custom _ = False"

definition continue ::
  "'y agent_env \<Rightarrow> 'y agent_world \<Rightarrow> ((continue_failure + unit) \<times> 'y agent_world) option" where
  "continue E W =
     (let messages = st_messages (ag_state (aw_agent W))
      in if ag_activeRun (aw_agent W) \<noteq> None
         then Some (Inl (Refused Busy ''Agent is already processing. Wait for completion before continuing.''), W)
         else if messages = [] then
           (case runQueuedMessages E W of
              Inr run \<Rightarrow> rethrow run
            | Inl W' \<Rightarrow> Some (Inl (Refused NothingToContinue ''No messages to continue from''), W'))
         else if is_assistant (last messages) then
           (case runQueuedMessages E W of
              Inr run \<Rightarrow> rethrow run
            | Inl W' \<Rightarrow> Some (Inl (Refused NothingToContinue ''Cannot continue from message role: assistant''), W'))
         else if is_custom (last messages) then
           (case runQueuedMessages E W of
              Inr run \<Rightarrow> rethrow run
            | Inl W' \<Rightarrow> rethrow (runContinuation E W'))
         else rethrow (runContinuation E W))"

end
