(* ===== verification/Agent_Log.thy ===== *)
theory Agent_Log
  imports Agent_Run
begin

text \<open>
  What the steps of the agent loop do to the event log. The messages of the \<open>message_end\<close> events are
  the transcript of a run; every other event and every call on the host leaves it alone.
\<close>

section \<open>The transcript of a log\<close>

fun message_ends :: "agent_event list \<Rightarrow> agent_message list" where
  "message_ends [] = []"
| "message_ends (MessageEnd m # es) = m # message_ends es"
| "message_ends (e # es) = message_ends es"

lemma message_ends_append [simp]: "message_ends (xs @ ys) = message_ends xs @ message_ends ys"
  by (induction xs rule: message_ends.induct) auto

definition transcript :: "'x loop_world \<Rightarrow> agent_message list" where
  "transcript w = message_ends (lw_log w)"

named_theorems log_simps "the log and the transcript after a step"

lemma race_log: "raceWithAbort C op w = (r, w') \<Longrightarrow> lw_log w' = lw_log w"
  by (auto simp: raceWithAbort_def Let_def split: prod.splits if_splits outcome.splits)

lemma race_transcript: "raceWithAbort C op w = (r, w') \<Longrightarrow> transcript w' = transcript w"
  by (simp add: transcript_def race_log)

lemma emit_log: "emit C ev w = (r, w') \<Longrightarrow> lw_log w' = lw_log w @ [ev]"
  by (auto simp: emit_def Let_def split: prod.splits option.splits)

lemma emit_transcript: "emit C ev w = (r, w') \<Longrightarrow> transcript w' = transcript w @ message_ends [ev]"
  by (simp add: transcript_def emit_log)

lemma emit_transcript_other:
  "emit C ev w = (r, w') \<Longrightarrow> message_ends [ev] = [] \<Longrightarrow> transcript w' = transcript w"
  by (simp add: emit_transcript)

lemma throwIfAborted_state: "throwIfAborted C w = (r, w') \<Longrightarrow> w' = w"
  by (auto simp: throwIfAborted_def split: if_splits)

lemma announce_transcript: "announce C m w = (Inr u, w') \<Longrightarrow> transcript w' = transcript w @ [m]"
  by (auto simp: announce_def bindC_Inr dest!: emit_transcript)

lemma poll_transcript: "pollMessagesUnlessAborted C p w = (r, w') \<Longrightarrow> transcript w' = transcript w"
  by (auto simp: pollMessagesUnlessAborted_def split: option.splits if_splits dest: race_transcript)

lemma settle_transcript:
  assumes "\<And>r w'. m w = (r, w') \<Longrightarrow> transcript w' = transcript w" "settlePostTurn C m w = (r, w')"
  shows "transcript w' = transcript w"
  using assms by (auto simp: settlePostTurn_def split: prod.splits sum.splits if_splits)

section \<open>Tool calls\<close>

lemma try_prepare_transcript: "try_prepare C ctx am tc tool w = (r, w') \<Longrightarrow> transcript w' = transcript w"
  by (auto simp: try_prepare_def bindC_def split: sum.splits option.splits prod.splits dest: race_transcript)

lemma prepare_transcript: "prepareToolCall C ctx am tc w = (p, w') \<Longrightarrow> transcript w' = transcript w"
  by (auto simp: prepareToolCall_def split: option.splits prod.splits sum.splits dest: try_prepare_transcript)

lemma publish_transcript: "publish_updates C tc rs w = (e, w') \<Longrightarrow> transcript w' = transcript w"
proof (induction rs arbitrary: e w w')
  case (Cons r rs)
  show ?case
  proof (cases "is_aborted C w")
    case True
    with Cons show ?thesis by auto
  next
    case False
    obtain out w1 where em: "emit C (ToolExecutionUpdate (tc_id tc) (tc_name tc) (tc_arguments tc) r) w = (out, w1)"
      by (rule prod.exhaust)
    obtain e2 w2 where "publish_updates C tc rs w1 = (e2, w2)" by (rule prod.exhaust)
    with Cons.IH [OF this] Cons.prems False em emit_transcript_other [OF em] show ?thesis
      by (auto split: sum.splits)
  qed
qed simp

lemma transcript_host [simp]: "transcript (w\<lparr>lw_host := x\<rparr>) = transcript w"
  by (simp add: transcript_def)

lemma execute_transcript: "executePreparedToolCall C p w = (ex, w') \<Longrightarrow> transcript w' = transcript w"
  by (auto simp: executePreparedToolCall_def failed_call_def Let_def split: if_splits prod.splits sum.splits option.splits
      dest!: race_transcript publish_transcript)

lemma finalize_transcript: "finalizeExecutedToolCall C ctx am p ex w = (f, w') \<Longrightarrow> transcript w' = transcript w"
  by (auto simp: finalizeExecutedToolCall_def split: option.splits prod.splits sum.splits dest: race_transcript)

lemma finalize_call: "finalizeExecutedToolCall C ctx am p ex w = (f, w') \<Longrightarrow> fc_toolCall f = pc_toolCall p"
  by (auto simp: finalizeExecutedToolCall_def split: option.splits prod.splits sum.splits)

lemma prepare_call: "prepareToolCall C ctx am tc w = (Prepared p, w') \<Longrightarrow> pc_toolCall p = tc"
  by (auto simp: prepareToolCall_def try_prepare_def bindC_def split: option.splits prod.splits sum.splits if_splits)

lemma emitToolResult_spec:
  assumes "emitToolResultMessage C f w = (Inr m, w')"
  shows "transcript w' = transcript w @ [ToolResultMessage m] \<and> tr_toolCallId m = tc_id (fc_toolCall f)"
  using assms by (auto simp: emitToolResultMessage_def Let_def bindC_Inr createToolResultMessage_def dest!: emit_transcript)

lemma emitToolEnd_transcript: "emitToolExecutionEnd C f w = (r, w') \<Longrightarrow> transcript w' = transcript w"
  by (auto simp: emitToolExecutionEnd_def dest: emit_transcript)

lemma emitToolStart_transcript: "emitToolExecutionStart C tc w = (r, w') \<Longrightarrow> transcript w' = transcript w"
  by (auto simp: emitToolExecutionStart_def dest: emit_transcript)

text \<open>One call from its start to its outcome, as the sequential loop makes it.\<close>

definition settle_call ::
  "'x loop_config \<Rightarrow> 'x agent_context \<Rightarrow> assistant_message \<Rightarrow> tool_call \<Rightarrow> 'x loop_world
     \<Rightarrow> finalized_tool_call \<times> 'x loop_world" where
  "settle_call C ctx am tc w1 =
     (case prepareToolCall C ctx am tc w1 of
        (Immediate r er, w2) \<Rightarrow> (\<lparr>fc_toolCall = tc, fc_result = r, fc_isError = er\<rparr>, w2)
      | (Prepared p, w2) \<Rightarrow>
          let (ex, w3) = executePreparedToolCall C p w2
          in finalizeExecutedToolCall C ctx am p ex w3)"

lemma settle_call_spec:
  assumes "settle_call C ctx am tc w = (f, w')"
  shows "transcript w' = transcript w" "fc_toolCall f = tc"
proof -
  obtain p w2 where p: "prepareToolCall C ctx am tc w = (p, w2)" by (rule prod.exhaust)
  have "transcript w' = transcript w \<and> fc_toolCall f = tc"
  proof (cases p)
    case (Immediate r er)
    with assms p prepare_transcript [OF p] show ?thesis by (auto simp: settle_call_def)
  next
    case (Prepared pc)
    obtain ex w3 where ex: "executePreparedToolCall C pc w2 = (ex, w3)" by (rule prod.exhaust)
    have fin: "finalizeExecutedToolCall C ctx am pc ex w3 = (f, w')" using assms p ex Prepared by (simp add: settle_call_def)
    from prepare_call [of C ctx am tc w pc w2] p Prepared finalize_call [OF fin] finalize_transcript [OF fin]
      execute_transcript [OF ex] prepare_transcript [OF p]
    show ?thesis by simp
  qed
  then show "transcript w' = transcript w" "fc_toolCall f = tc" by blast+
qed

lemma sequential_unfold:
  "sequential_calls C ctx am (tc # tcs) fs ms w =
     (if is_aborted C w then (Inr \<lparr>eb_messages = ms, eb_terminate = shouldTerminateToolBatch fs\<rparr>, w)
      else case emitToolExecutionStart C tc w of
          (Inl e, w1) \<Rightarrow> (Inl e, w1)
        | (Inr _, w1) \<Rightarrow>
            (case settle_call C ctx am tc w1 of (f, w2) \<Rightarrow>
               (case bindC (emitToolExecutionEnd C f) (\<lambda>_. emitToolResultMessage C f) w2 of
                  (Inl e, w3) \<Rightarrow> (Inl e, w3)
                | (Inr m, w3) \<Rightarrow> sequential_calls C ctx am tcs (fs @ [f]) (ms @ [m]) w3)))"
  by (simp add: settle_call_def Let_def split: sum.split prod.split)

text \<open>
  Sequential calls: the results answer the first calls in their order, all of them unless an abort
  ended the batch, and the transcript grows by exactly the results.
\<close>

lemma sequential_spec:
  assumes "sequential_calls C ctx am tcs fs ms w = (Inr b, w')"
  shows "\<exists>rs n. eb_messages b = ms @ rs \<and> transcript w' = transcript w @ map ToolResultMessage rs
    \<and> map tr_toolCallId rs = map tc_id (take n tcs) \<and> (n < length tcs \<longrightarrow> is_aborted C w')"
  using assms
proof (induction tcs arbitrary: fs ms w)
  case Nil
  then show ?case by (intro exI [of _ "[]"] exI [of _ 0]) auto
next
  case (Cons tc tcs)
  show ?case
  proof (cases "is_aborted C w")
    case True
    with Cons.prems show ?thesis by (intro exI [of _ "[]"] exI [of _ 0]) auto
  next
    case False
    obtain r1 w1 where s: "emitToolExecutionStart C tc w = (r1, w1)" by (rule prod.exhaust)
    obtain f w2 where f: "settle_call C ctx am tc w1 = (f, w2)" by (rule prod.exhaust)
    obtain r3 w3 where e: "bindC (emitToolExecutionEnd C f) (\<lambda>_. emitToolResultMessage C f) w2 = (r3, w3)"
      by (rule prod.exhaust)
    have ok: "r1 \<noteq> Inl x" "r3 \<noteq> Inl x" for x
      using Cons.prems False s f e unfolding sequential_unfold by (auto split: sum.splits)
    then obtain u m where r: "r1 = Inr u" "r3 = Inr m" by (cases r1; cases r3) auto
    from e r(2) have m: "transcript w3 = transcript w2 @ [ToolResultMessage m]" "tr_toolCallId m = tc_id (fc_toolCall f)"
      by (auto simp: bindC_Inr dest!: emitToolEnd_transcript emitToolResult_spec)
    have "sequential_calls C ctx am tcs (fs @ [f]) (ms @ [m]) w3 = (Inr b, w')"
      using Cons.prems False s f e r unfolding sequential_unfold by simp
    from Cons.IH [OF this] obtain rs n where
      "eb_messages b = (ms @ [m]) @ rs" "transcript w' = transcript w3 @ map ToolResultMessage rs"
      "map tr_toolCallId rs = map tc_id (take n tcs)" "n < length tcs \<longrightarrow> is_aborted C w'" by blast
    with m emitToolStart_transcript [OF s] settle_call_spec [OF f] show ?thesis
      by (intro exI [of _ "m # rs"] exI [of _ "Suc n"]) simp
  qed
qed

section \<open>Parallel calls\<close>

fun task_call :: "'x call_task \<Rightarrow> tool_call" where
  "task_call (Waiting p) = pc_toolCall p"
| "task_call (Executed p ex) = pc_toolCall p"
| "task_call (Hooked f) = fc_toolCall f"
| "task_call (Ended f) = fc_toolCall f"

lemma advance_spec:
  assumes "advance C ctx am t w = (r, w')"
  shows "transcript w' = transcript w" "r = Inr t' \<Longrightarrow> task_call t' = task_call t"
  using assms by (cases t; auto split: prod.splits sum.splits
      dest: execute_transcript finalize_transcript finalize_call emitToolEnd_transcript)+

lemma run_tasks_spec:
  assumes "run_tasks C ctx am ts w = (Inr us, w')"
  shows "transcript w' = transcript w \<and> map task_call us = map task_call ts \<and> unfinished us = []"
  using assms
proof (induction C ctx am ts w rule: run_tasks.induct)
  case (1 C ctx am ts w)
  show ?case
  proof (cases "unfinished ts = []")
    case True
    with "1.prems" show ?thesis by (simp add: run_tasks.simps)
  next
    case False
    let ?i = "pick_task C ts w"
    obtain r w1 where a: "advance C ctx am (ts ! ?i) w = (r, w1)" by (rule prod.exhaust)
    then obtain t where t: "r = Inr t" using "1.prems" False by (subst (asm) run_tasks.simps) (auto split: sum.splits)
    have "run_tasks C ctx am (ts[?i := t]) w1 = (Inr us, w')"
      using "1.prems" False a t by (subst (asm) run_tasks.simps) simp
    from "1.IH" [OF False a [symmetric] t this] advance_spec(1) [OF a] advance_spec(2) [OF a t]
    show ?thesis by (metis list_update_id map_update)
  qed
qed

lemma unfinished_Nil: "unfinished ts = [] \<longleftrightarrow> (\<forall>t\<in>set ts. stages_left t = 0)"
  unfolding all_set_conv_all_nth by (auto simp: unfinished_def filter_empty_conv)

lemma ended_calls: "unfinished ts = [] \<Longrightarrow> map fc_toolCall (concat (map ended_call ts)) = map task_call ts"
  unfolding unfinished_Nil
proof (induction ts)
  case (Cons t ts)
  then show ?case by (cases t) auto
qed simp

lemma prepare_calls_spec:
  assumes "prepare_calls C ctx am tcs ts w = (Inr us, w')"
  shows "transcript w' = transcript w \<and> map task_call us = map task_call ts @ tcs"
  using assms
proof (induction tcs arbitrary: ts w)
  case (Cons tc tcs)
  obtain r1 w1 where s: "emitToolExecutionStart C tc w = (r1, w1)" by (rule prod.exhaust)
  obtain p w2 where p: "prepareToolCall C ctx am tc w1 = (p, w2)" by (rule prod.exhaust)
  from Cons.prems s obtain u where r1: "r1 = Inr u" by (auto split: sum.splits)
  show ?case
  proof (cases p)
    case (Prepared pc)
    with Cons.prems s p r1 have "prepare_calls C ctx am tcs (ts @ [Waiting pc]) w2 = (Inr us, w')" by simp
    from Cons.IH [OF this] emitToolStart_transcript [OF s] prepare_transcript [OF p] prepare_call [of C ctx am tc w1 pc w2] p Prepared
    show ?thesis by simp
  next
    case (Immediate r er)
    let ?f = "\<lparr>fc_toolCall = tc, fc_result = r, fc_isError = er\<rparr>"
    obtain r3 w3 where e: "emitToolExecutionEnd C ?f w2 = (r3, w3)" by (rule prod.exhaust)
    with Cons.prems s p r1 Immediate have "prepare_calls C ctx am tcs (ts @ [Ended ?f]) w3 = (Inr us, w')"
      by (auto simp: Let_def split: sum.splits)
    from Cons.IH [OF this] emitToolStart_transcript [OF s] prepare_transcript [OF p] emitToolEnd_transcript [OF e]
    show ?thesis by simp
  qed
qed simp

lemma emit_results_spec:
  assumes "emit_results C fs w = (Inr ms, w')"
  shows "transcript w' = transcript w @ map ToolResultMessage ms
    \<and> map tr_toolCallId ms = map (\<lambda>f. tc_id (fc_toolCall f)) fs"
  using assms by (induction fs arbitrary: ms w) (fastforce simp: bindC_Inr dest: emitToolResult_spec)+

lemma parallel_spec:
  assumes "executeToolCallsParallel C ctx am tcs w = (Inr b, w')"
  shows "transcript w' = transcript w @ map ToolResultMessage (eb_messages b)
    \<and> map tr_toolCallId (eb_messages b) = map tc_id tcs"
proof -
  from assms obtain es w1 us w2 ms where
    1: "prepare_calls C ctx am tcs [] w = (Inr es, w1)" and
    2: "run_tasks C ctx am es w1 = (Inr us, w2)" and
    3: "emit_results C (concat (map ended_call us)) w2 = (Inr ms, w')" and b: "eb_messages b = ms"
    by (auto simp: executeToolCallsParallel_def bindC_Inr Let_def)
  from prepare_calls_spec [OF 1] run_tasks_spec [OF 2] emit_results_spec [OF 3] ended_calls [of us]
  have "map fc_toolCall (concat (map ended_call us)) = tcs" "transcript w2 = transcript w" by simp_all
  moreover from this(1) have "map (\<lambda>f. tc_id (fc_toolCall f)) (concat (map ended_call us)) = map tc_id tcs"
    by (metis (no_types, lifting) list.map_comp comp_apply map_eq_conv)
  ultimately show ?thesis using emit_results_spec [OF 3] b by simp
qed

text \<open>Both modes together.\<close>

lemma execute_calls_spec:
  assumes "executeToolCalls C ctx am w = (Inr b, w')"
  shows "transcript w' = transcript w @ map ToolResultMessage (eb_messages b)
    \<and> (\<exists>n. map tr_toolCallId (eb_messages b) = map tc_id (take n (tool_calls_of (am_content am)))
        \<and> (n < length (tool_calls_of (am_content am)) \<longrightarrow> is_aborted C w'))"
proof (cases "lc_toolExecution C = Sequential \<or> has_sequential_call ctx (tool_calls_of (am_content am))")
  case True
  with assms have "sequential_calls C ctx am (tool_calls_of (am_content am)) [] [] w = (Inr b, w')"
    by (simp add: executeToolCalls_def executeToolCallsSequential_def Let_def)
  from sequential_spec [OF this] show ?thesis by auto
next
  case False
  with assms have "executeToolCallsParallel C ctx am (tool_calls_of (am_content am)) w = (Inr b, w')"
    by (simp add: executeToolCalls_def Let_def)
  from parallel_spec [OF this] show ?thesis by (metis order.refl not_less take_all)
qed

end
