(* ===== verification/Agent_Loop_Props.thy ===== *)
theory Agent_Loop_Props
  imports Agent_Log
begin

text \<open>
  Properties of a whole run of the agent loop: the messages it returns are its transcript and are what
  the model was shown, tool results follow their calls, an abort is not followed by another turn, and
  failing tools do not stop it.
\<close>

section \<open>The response\<close>

text \<open>Listeners do not throw abort errors.\<close>

definition plain_listeners :: "'x loop_config \<Rightarrow> bool" where
  "plain_listeners C \<longleftrightarrow> (\<forall>ev x e x'. lc_emit C ev x = (Some e, x') \<longrightarrow> \<not> isAbortError e)"

text \<open>A provider announces a response once; \<open>announced\<close> tells whether it has.\<close>

definition starts_once :: "'x loop_config \<Rightarrow> ('x \<Rightarrow> bool) \<Rightarrow> bool" where
  "starts_once C announced \<longleftrightarrow>
     (\<forall>x ev x'. lc_next C x = (Fulfilled (Some ev), x') \<longrightarrow>
        (case ev of StreamStart _ \<Rightarrow> \<not> announced x \<and> announced x' | _ \<Rightarrow> announced x' = announced x))
     \<and> (\<forall>ev x. announced (snd (lc_emit C ev x)) = announced x)"

definition settled_messages :: "stream_state \<Rightarrow> agent_message list" where
  "settled_messages st = (if ss_added st then butlast (ss_messages st) else ss_messages st)"

lemma put_message_simps [simp]:
  "ss_messages (put_message m st) = settled_messages st @ [AssistantMessage m]"
  "ss_added (put_message m st) = ss_added st"
  by (simp_all add: put_message_def settled_messages_def)

lemma settled_partial:
  "ss_added st \<Longrightarrow> settled_messages ((put_message m st)\<lparr>ss_partial := p\<rparr>) = settled_messages st"
  by (simp add: settled_messages_def put_message_def)

definition stream_ok :: "stream_state \<Rightarrow> 'x loop_world \<Rightarrow> 'x stream_result \<Rightarrow> bool" where
  "stream_ok st w res \<longleftrightarrow> (case res of (r, st', w') \<Rightarrow>
     (\<forall>m. r = Inr m \<longrightarrow> transcript w' = transcript w @ [AssistantMessage m]
        \<and> ss_messages st' = settled_messages st @ [AssistantMessage m])
     \<and> (\<forall>e. r = Inl e \<longrightarrow> isAbortError e \<longrightarrow> transcript w' = transcript w \<and> settled_messages st' = settled_messages st))"

lemma emit_no_abort: "plain_listeners C \<Longrightarrow> emit C ev w = (Inl e, w') \<Longrightarrow> \<not> isAbortError e"
  by (auto simp: emit_def plain_listeners_def Let_def split: prod.splits option.splits)

lemma emit_final_spec:
  assumes "emit_final C added m w = (r, w')"
  shows "r = Inr u \<Longrightarrow> transcript w' = transcript w @ [AssistantMessage m]"
    and "plain_listeners C \<Longrightarrow> r = Inl e \<Longrightarrow> \<not> isAbortError e"
proof -
  show "transcript w' = transcript w @ [AssistantMessage m]" if "r = Inr u"
    using assms that by (cases added) (auto simp: emit_final_def bindC_Inr dest!: emit_transcript)
  show "\<not> isAbortError e" if "plain_listeners C" "r = Inl e"
    using assms that emit_no_abort [OF that(1)]
    by (cases added) (auto simp: emit_final_def bindC_Inl dest: emit_no_abort)
qed

lemma finish_stream_ok:
  assumes "plain_listeners C"
  shows "stream_ok st w (finish_stream C m st w)"
proof -
  obtain r w' where e: "emit_final C (ss_added st) m w = (r, w')" by (rule prod.exhaust)
  from emit_final_spec [OF e] assms e show ?thesis
    by (cases r) (auto simp: finish_stream_def stream_ok_def)
qed

lemma stream_ok_shift:
  assumes "stream_ok st' w' res" "transcript w' = transcript w" "settled_messages st' = settled_messages st"
  shows "stream_ok st w res"
  using assms by (auto simp: stream_ok_def split: prod.splits)

lemma finish_terminal_ok:
  assumes "plain_listeners C"
  shows "stream_ok st w (finish_terminal C m st w)"
proof -
  obtain r w' where r: "raceWithAbort C (lc_result C) w = (r, w')" by (rule prod.exhaust)
  note t = race_transcript [OF r]
  show ?thesis
  proof (cases r)
    case (Inr m')
    with r have "finish_terminal C m st w = finish_stream C m' st w'" by (simp add: finish_terminal_def)
    with stream_ok_shift [OF finish_stream_ok [OF assms] t refl] show ?thesis by simp
  next
    case (Inl e)
    show ?thesis
    proof (cases "is_aborted C w' \<and> isAbortError e")
      case True
      with r Inl have "finish_terminal C m st w = finish_stream C m st w'" by (simp add: finish_terminal_def)
      with stream_ok_shift [OF finish_stream_ok [OF assms] t refl] show ?thesis by simp
    next
      case False
      with r Inl have "finish_terminal C m st w = (Inl e, st, w')" by (auto simp: finish_terminal_def)
      with t show ?thesis by (simp add: stream_ok_def)
    qed
  qed
qed

lemma race_host:
  "raceWithAbort C op w = (Inr v, w') \<Longrightarrow> op (lw_host w) = (Fulfilled v, lw_host w')"
  by (auto simp: raceWithAbort_def Let_def split: prod.splits if_splits outcome.splits)

lemma emit_announced:
  "starts_once C announced \<Longrightarrow> emit C ev w = (r, w') \<Longrightarrow> announced (lw_host w') = announced (lw_host w)"
  by (auto simp: starts_once_def emit_def Let_def split: prod.splits option.splits) (metis snd_conv)+

definition stream_inv :: "('x \<Rightarrow> bool) \<Rightarrow> stream_state \<Rightarrow> 'x loop_world \<Rightarrow> bool" where
  "stream_inv announced st w \<longleftrightarrow>
     (ss_added st \<longrightarrow> announced (lw_host w)) \<and> (ss_partial st \<noteq> None \<longrightarrow> ss_added st)"

lemma next_announced:
  assumes "starts_once C announced" "raceWithAbort C (lc_next C) w = (Inr (Some ev), w')"
  shows "case ev of StreamStart _ \<Rightarrow> \<not> announced (lw_host w) \<and> announced (lw_host w')
    | _ \<Rightarrow> announced (lw_host w') = announced (lw_host w)"
  using assms race_host [OF assms(2)] unfolding starts_once_def by blast

lemma stream_loop_ok:
  assumes "stream_loop C st w = Some res" "plain_listeners C" "starts_once C announced" "stream_inv announced st w"
  shows "stream_ok st w res"
  using assms
proof (induction rule: stream_loop.raw_induct [rotated, consumes 1, case_names step])
  case (step f C st w res)
  note IH = step.IH [OF _ step.prems(1,2)] and body = step.hyps
  obtain r w1 where n: "raceWithAbort C (lc_next C) w = (r, w1)" by (rule prod.exhaust)
  note t1 = race_transcript [OF n]
  show ?case
  proof (cases r)
    case (Inl e)
    with body n t1 show ?thesis by (auto simp: stream_ok_def)
  next
    case r: (Inr oev)
    show ?thesis
    proof (cases oev)
      case None
      obtain r2 w2 where n2: "raceWithAbort C (lc_result C) w1 = (r2, w2)" by (rule prod.exhaust)
      note t2 = race_transcript [OF n2]
      show ?thesis
      proof (cases r2)
        case (Inl e)
        with body n r None n2 t1 t2 show ?thesis by (auto simp: stream_ok_def)
      next
        case (Inr m)
        with body n r None n2 have "res = finish_stream C m st w2" by simp
        with stream_ok_shift [OF finish_stream_ok [OF step.prems(1)] _ refl] t1 t2 show ?thesis by metis
      qed
    next
      case ev: (Some ev)
      note na = next_announced [OF step.prems(2) n [unfolded r ev]]
      show ?thesis
      proof (cases ev)
        case (StreamStart m)
        let ?st = "\<lparr>ss_partial = Some m, ss_added = True, ss_messages = ss_messages st @ [AssistantMessage m]\<rparr>"
        obtain r2 w2 where e: "emit C (MessageStart (AssistantMessage m)) w1 = (r2, w2)" by (rule prod.exhaust)
        have t2: "transcript w2 = transcript w" using emit_transcript [OF e] t1 by simp
        have fresh: "\<not> ss_added st" using na StreamStart step.prems(3) by (auto simp: stream_inv_def)
        then have sm: "settled_messages ?st = settled_messages st" by (simp add: settled_messages_def)
        show ?thesis
        proof (cases r2)
          case (Inl x)
          with emit_no_abort [OF step.prems(1)] e body n r ev StreamStart show ?thesis by (auto simp: stream_ok_def)
        next
          case (Inr u)
          have "stream_inv announced ?st w2"
            using na StreamStart emit_announced [OF step.prems(2) e] by (simp add: stream_inv_def)
          moreover have "f C ?st w2 = Some res" using body n r ev StreamStart e Inr by simp
          ultimately show ?thesis using stream_ok_shift [OF IH t2 sm] by blast
        qed
      next
        case (StreamUpdate k m)
        show ?thesis
        proof (cases "ss_partial st")
          case None
          have "stream_inv announced st w1" using na StreamUpdate step.prems(3) by (simp add: stream_inv_def)
          moreover have "f C st w1 = Some res" using body n r ev StreamUpdate None by simp
          ultimately show ?thesis using stream_ok_shift [OF IH t1 refl] by blast
        next
          case (Some pm)
          let ?st = "(put_message m st)\<lparr>ss_partial := Some m\<rparr>"
          obtain r2 w2 where e: "emit C (MessageUpdate (AssistantMessage m) ev) w1 = (r2, w2)" by (rule prod.exhaust)
          have t2: "transcript w2 = transcript w" using emit_transcript [OF e] t1 by simp
          have added: "ss_added st" using Some step.prems(3) by (simp add: stream_inv_def)
          note sm = settled_partial [OF added, where m = m and p = "Some m"]
          show ?thesis
          proof (cases r2)
            case (Inl x)
            with emit_no_abort [OF step.prems(1)] e body n r ev StreamUpdate Some show ?thesis
              by (auto simp: stream_ok_def)
          next
            case (Inr u)
            have "stream_inv announced ?st w2"
              using na StreamUpdate emit_announced [OF step.prems(2) e] step.prems(3) added by (simp add: stream_inv_def)
            moreover have "f C ?st w2 = Some res" using body n r ev StreamUpdate Some e Inr by simp
            ultimately show ?thesis using stream_ok_shift [OF IH t2 sm] by blast
          qed
        qed
      next
        case (StreamDone m)
        with body n r ev have "res = finish_terminal C m st w1" by simp
        with stream_ok_shift [OF finish_terminal_ok [OF step.prems(1)] t1 refl] show ?thesis by metis
      next
        case (StreamError m)
        with body n r ev have "res = finish_terminal C m st w1" by simp
        with stream_ok_shift [OF finish_terminal_ok [OF step.prems(1)] t1 refl] show ?thesis by metis
      qed
    qed
  qed
qed

lemma open_stream_transcript: "open_stream C ctx w = (r, w') \<Longrightarrow> transcript w' = transcript w"
  by (cases r) (auto simp: open_stream_def bindC_Inr bindC_Inl Let_def split: option.splits
      dest!: race_transcript throwIfAborted_state)

text \<open>The response is the one message the stream adds, to the transcript and to the context.\<close>

lemma response_spec:
  assumes "plain_listeners C" "starts_once C announced"
    and "streamAssistantResponse C ctx w = Some (Inr (m, msgs), w')"
  shows "transcript w' = transcript w @ [AssistantMessage m]" "msgs = ctx_messages ctx @ [AssistantMessage m]"
proof -
  let ?st = "\<lparr>ss_partial = None, ss_added = False, ss_messages = ctx_messages ctx\<rparr>"
  have sm: "settled_messages ?st = ctx_messages ctx" by (simp add: settled_messages_def)
  obtain r0 w0 where o: "open_stream C ctx w = (r0, w0)" by (rule prod.exhaust)
  note t0 = open_stream_transcript [OF o]
  define stream where "stream = (case r0 of Inl e \<Rightarrow> Some (Inl e, ?st, w0) | Inr _ \<Rightarrow> stream_loop C ?st w0)"
  have ok: "stream = Some res \<Longrightarrow> stream_ok ?st w res" for res
  proof (cases r0)
    case (Inl e)
    assume "stream = Some res"
    with Inl t0 show ?thesis by (auto simp: stream_def stream_ok_def)
  next
    case (Inr u)
    assume "stream = Some res"
    with Inr have "stream_loop C ?st w0 = Some res" by (simp add: stream_def)
    from stream_loop_ok [OF this assms(1,2)] stream_ok_shift [OF _ t0 refl] show ?thesis by (simp add: stream_inv_def)
  qed
  from assms(3) obtain r st w1 where s: "stream = Some (r, st, w1)"
    by (auto simp: streamAssistantResponse_def o stream_def Let_def split: option.splits sum.splits)
  note ok = ok [OF s]
  have "transcript w' = transcript w @ [AssistantMessage m] \<and> msgs = ctx_messages ctx @ [AssistantMessage m]"
  proof (cases r)
    case (Inr m')
    with assms(3) s have "m' = m" "ss_messages st = msgs" "w1 = w'"
      by (auto simp: streamAssistantResponse_def o stream_def Let_def)
    with ok Inr sm show ?thesis by (simp add: stream_ok_def)
  next
    case (Inl e)
    let ?m = "createAbortedAssistantMessage C (ss_partial st) (lc_now C (lw_host w1))"
    obtain r2 st2 w2 where f: "finish_stream C ?m st w1 = (r2, st2, w2)" by (rule prod_cases3)
    from assms(3) s Inl f have "isAbortError e" "r2 = Inr m'' \<Longrightarrow> m = ?m" "msgs = ss_messages st2" "w2 = w'" "\<exists>m''. r2 = Inr m''" for m''
      by (auto simp: streamAssistantResponse_def o stream_def Let_def split: if_splits sum.splits)
    moreover have "r2 = Inr m'' \<Longrightarrow> m'' = ?m" for m''
      using f by (auto simp: finish_stream_def split: prod.splits sum.splits)
    ultimately show ?thesis using finish_stream_ok [OF assms(1), of st w1 ?m] f ok Inl sm
      by (auto simp: stream_ok_def)
  qed
  then show "transcript w' = transcript w @ [AssistantMessage m]" "msgs = ctx_messages ctx @ [AssistantMessage m]"
    by blast+
qed

section \<open>One step of the loop\<close>

text \<open>The queues and hooks hand out no tool results.\<close>

definition plain_source :: "('x, agent_message list) async \<Rightarrow> bool" where
  "plain_source op \<longleftrightarrow> (\<forall>x ms x'. op x = (Fulfilled ms, x') \<longrightarrow> (\<forall>m\<in>set ms. \<not> is_tool_result m))"

definition plain_sources :: "'x loop_config \<Rightarrow> bool" where
  "plain_sources C \<longleftrightarrow> (\<forall>op. lc_getSteeringMessages C = Some op \<longrightarrow> plain_source op)
     \<and> (\<forall>op. lc_getFollowUpMessages C = Some op \<longrightarrow> plain_source op)
     \<and> (\<forall>f turn. lc_getContinuationMessages C = Some f \<longrightarrow> plain_source (f turn))"

definition plain_messages :: "agent_message list \<Rightarrow> bool" where
  "plain_messages ms \<longleftrightarrow> (\<forall>m\<in>set ms. \<not> is_tool_result m)"

text \<open>What a step adds: to the transcript, to the new messages and to the context alike.\<close>

definition step_adds ::
  "'x loop_config \<Rightarrow> 'x loop_state \<Rightarrow> 'x loop_world \<Rightarrow> agent_message list \<Rightarrow> 'x loop_next \<Rightarrow> 'x loop_world \<Rightarrow> bool" where
  "step_adds C st w added n w' \<longleftrightarrow> transcript w' = transcript w @ added \<and>
     (case n of
        Return ms \<Rightarrow> ms = ls_new st @ added \<and> (\<exists>es. lw_log w' = es @ [AgentEnd ms])
      | Next st' \<Rightarrow> ls_new st' = ls_new st @ added
          \<and> ctx_messages (ls_context st') = ctx_messages (ls_context st) @ added
          \<and> (plain_sources C \<longrightarrow> plain_messages (ls_pending st')))"

lemma step_adds_cong:
  assumes "step_adds C st w added n w'" "transcript w = transcript w2" "ls_new st = ls_new st2"
    "ctx_messages (ls_context st) = ctx_messages (ls_context st2)"
  shows "step_adds C st2 w2 added n w'"
  using assms by (cases n) (simp_all add: step_adds_def)

lemma step_adds_trans:
  assumes "step_adds C st2 w2 later n w'" "transcript w2 = transcript w @ added" "ls_new st2 = ls_new st @ added"
    "ctx_messages (ls_context st2) = ctx_messages (ls_context st) @ added"
  shows "step_adds C st w (added @ later) n w'"
  using assms by (simp add: step_adds_def split: loop_next.splits)

lemma end_run_adds: "end_run C st w = (Inr n, w') \<Longrightarrow> step_adds C st w [] n w'"
  by (auto simp: end_run_def bindC_Inr step_adds_def dest: emit_transcript emit_log)

lemma settle_Completed: "settlePostTurn C m w = (Inr (Completed v), w') \<longleftrightarrow> m w = (Inr v, w')"
  by (auto simp: settlePostTurn_def split: prod.splits sum.splits if_splits)

lemma stop_transcript: "shouldStopBeforeTurn C st w = (r, w') \<Longrightarrow> transcript w' = transcript w"
  by (auto simp: shouldStopBeforeTurn_def split: if_splits option.splits prod.splits)

lemma poll_plain:
  "pollMessagesUnlessAborted C (Some op) w = (Inr ms, w') \<Longrightarrow> plain_source op \<Longrightarrow> plain_messages ms"
  by (auto simp: pollMessagesUnlessAborted_def plain_messages_def plain_source_def split: if_splits dest!: race_host)

lemma poll_None [simp]: "pollMessagesUnlessAborted C None w = (Inr [], w)"
  by (simp add: pollMessagesUnlessAborted_def)

lemma steering_plain:
  "pollMessagesUnlessAborted C (lc_getSteeringMessages C) w = (Inr ms, w') \<Longrightarrow> plain_sources C \<Longrightarrow> plain_messages ms"
  by (cases "lc_getSteeringMessages C") (auto simp: plain_messages_def plain_sources_def dest: poll_plain [unfolded plain_messages_def])

lemma follow_plain:
  "pollMessagesUnlessAborted C (lc_getFollowUpMessages C) w = (Inr ms, w') \<Longrightarrow> plain_sources C \<Longrightarrow> plain_messages ms"
  by (cases "lc_getFollowUpMessages C") (auto simp: plain_messages_def plain_sources_def dest: poll_plain [unfolded plain_messages_def])

lemma continuation_plain:
  assumes "raceWithAbort C (case lc_getContinuationMessages C of None \<Rightarrow> settled [] | Some f \<Rightarrow> f turn) w = (Inr ms, w')"
    "plain_sources C"
  shows "plain_messages ms"
proof (cases "lc_getContinuationMessages C")
  case None
  with race_host [OF assms(1)] show ?thesis by (simp add: settled_def plain_messages_def)
next
  case (Some f)
  with assms(2) have "plain_source (f turn)" by (simp add: plain_sources_def)
  with race_host [OF assms(1)] Some show ?thesis by (auto simp: plain_messages_def plain_source_def)
qed

text \<open>
  A state that adds nothing: \<open>quiet_end\<close> is a run of \<open>m\<close> on it that ends, in a world with the same
  transcript.
\<close>

lemma quiet_bind:
  assumes "bindC m f w = (Inr n, w')" "\<And>r w'. m w = (r, w') \<Longrightarrow> transcript w' = transcript w"
    and "\<And>x w1. m w = (Inr x, w1) \<Longrightarrow> f x w1 = (Inr n, w') \<Longrightarrow> step_adds C st w1 [] n w'"
  shows "step_adds C st w [] n w'"
proof -
  from assms(1) obtain x w1 where x: "m w = (Inr x, w1)" "f x w1 = (Inr n, w')" by (auto simp: bindC_Inr)
  from step_adds_cong [OF assms(3) [OF x] assms(2) [OF x(1)] refl refl] show ?thesis .
qed

lemma next_pending_adds:
  "plain_sources C \<longrightarrow> plain_messages ms \<Longrightarrow>
   returnC (Next (st\<lparr>ls_pending := ms\<rparr>)) w = (Inr n, w') \<Longrightarrow> step_adds C st w [] n w'"
  "plain_sources C \<longrightarrow> plain_messages ms \<Longrightarrow>
   returnC (Next (st\<lparr>ls_pending := ms, ls_hasMoreToolCalls := b\<rparr>)) w = (Inr n, w') \<Longrightarrow> step_adds C st w [] n w'"
  by (auto simp: step_adds_def)

lemma stop_or_return_transcript:
  "(if b then returnC c else shouldStopBeforeTurn C st) w = (r, w') \<Longrightarrow> transcript w' = transcript w"
  "(if b then shouldStopBeforeTurn C st else returnC c) w = (r, w') \<Longrightarrow> transcript w' = transcript w"
  by (auto split: if_splits dest: stop_transcript)

lemma poll_steering_adds:
  assumes "poll_steering C st w = (Inr n, w')"
  shows "step_adds C st w [] n w'"
  using assms unfolding poll_steering_def
proof (rule quiet_bind)
  show "settlePostTurn C (pollMessagesUnlessAborted C (lc_getSteeringMessages C)) w = (r, w1) \<Longrightarrow> transcript w1 = transcript w" for r w1
    by (rule settle_transcript [OF poll_transcript])
next
  fix polled w1
  assume p: "settlePostTurn C (pollMessagesUnlessAborted C (lc_getSteeringMessages C)) w = (Inr polled, w1)"
    and k: "(case polled of PostTurnAborted \<Rightarrow> end_run C st
       | Completed ms \<Rightarrow> bindC (if ms = [] then shouldStopBeforeTurn C st else returnC False) (\<lambda>b.
           if b then end_run C st else returnC (Next (st\<lparr>ls_pending := ms\<rparr>)))) w1 = (Inr n, w')"
  show "step_adds C st w1 [] n w'"
  proof (cases polled)
    case PostTurnAborted
    with k end_run_adds show ?thesis by simp
  next
    case (Completed ms)
    with p have plain: "plain_sources C \<longrightarrow> plain_messages ms" using steering_plain by (auto simp: settle_Completed)
    from k Completed have "bindC (if ms = [] then shouldStopBeforeTurn C st else returnC False) (\<lambda>b.
           if b then end_run C st else returnC (Next (st\<lparr>ls_pending := ms\<rparr>))) w1 = (Inr n, w')" by simp
    then show ?thesis
    proof (rule quiet_bind)
      show "(if ms = [] then shouldStopBeforeTurn C st else returnC False) w1 = (r, w2) \<Longrightarrow> transcript w2 = transcript w1" for r w2
        by (rule stop_or_return_transcript)
      show "(if b then end_run C st else returnC (Next (st\<lparr>ls_pending := ms\<rparr>))) w2 = (Inr n, w') \<Longrightarrow> step_adds C st w2 [] n w'" for b w2
        using end_run_adds next_pending_adds(1) [OF plain] by (cases b) simp_all
    qed
  qed
qed

lemma after_turn_adds:
  assumes "after_turn C st am rs w = (Inr n, w')"
  shows "step_adds C st w [] n w'"
proof (cases "is_aborted C w")
  case True
  with assms end_run_adds show ?thesis by (simp add: after_turn_def)
next
  case False
  define turn where "turn = \<lparr>tn_message = am, tn_toolResults = rs, tn_context = ls_context st, tn_newMessages = ls_new st\<rparr>"
  define st1 where "st1 = st\<lparr>ls_lastTurn := Some turn\<rparr>"
  have same: "ls_new st1 = ls_new st" "ctx_messages (ls_context st1) = ctx_messages (ls_context st)"
    by (simp_all add: st1_def)
  let ?stop = "settlePostTurn C (raceWithAbort C
      (case lc_shouldStopAfterTurn C of None \<Rightarrow> settled False | Some f \<Rightarrow> f turn))"
  have "bindC ?stop (\<lambda>stop. case stop of PostTurnAborted \<Rightarrow> end_run C st1
          | Completed b \<Rightarrow> bindC (if b then returnC True else shouldStopBeforeTurn C st1) (\<lambda>b.
              if b then end_run C st1 else poll_steering C st1)) w = (Inr n, w')"
    using assms False unfolding after_turn_def Let_def turn_def st1_def by simp
  then have "step_adds C st1 w [] n w'"
  proof (rule quiet_bind)
    show "?stop w = (r, w1) \<Longrightarrow> transcript w1 = transcript w" for r w1
      by (rule settle_transcript [OF race_transcript])
  next
    fix stop w1
    assume k: "(case stop of PostTurnAborted \<Rightarrow> end_run C st1
          | Completed b \<Rightarrow> bindC (if b then returnC True else shouldStopBeforeTurn C st1) (\<lambda>b.
              if b then end_run C st1 else poll_steering C st1)) w1 = (Inr n, w')"
    show "step_adds C st1 w1 [] n w'"
    proof (cases stop)
      case PostTurnAborted
      with k end_run_adds show ?thesis by simp
    next
      case (Completed b)
      with k have "bindC (if b then returnC True else shouldStopBeforeTurn C st1) (\<lambda>b.
              if b then end_run C st1 else poll_steering C st1) w1 = (Inr n, w')" by simp
      then show ?thesis
      proof (rule quiet_bind)
        show "(if b then returnC True else shouldStopBeforeTurn C st1) w1 = (r, w2) \<Longrightarrow> transcript w2 = transcript w1" for r w2
          by (rule stop_or_return_transcript)
        show "(if c then end_run C st1 else poll_steering C st1) w2 = (Inr n, w') \<Longrightarrow> step_adds C st1 w2 [] n w'" for c w2
          using end_run_adds poll_steering_adds by (cases c) simp_all
      qed
    qed
  qed
  with step_adds_cong [OF _ refl same] show ?thesis by blast
qed

lemma settle_race_transcript:
  "settlePostTurn C (raceWithAbort C op) w = (r, w') \<Longrightarrow> transcript w' = transcript w"
  by (rule settle_transcript [OF race_transcript])

lemma poll_continuation_adds:
  assumes "poll_continuation C st w = (Inr n, w')"
  shows "step_adds C st w [] n w'"
proof -
  let ?hook = "\<lambda>turn. raceWithAbort C (case lc_getContinuationMessages C of None \<Rightarrow> settled [] | Some f \<Rightarrow> f turn)"
  let ?poll = "case ls_lastTurn st of None \<Rightarrow> returnC (Completed []) | Some turn \<Rightarrow> settlePostTurn C (?hook turn)"
  show ?thesis
    using assms unfolding poll_continuation_def
  proof (rule quiet_bind)
    show "?poll w = (r, w1) \<Longrightarrow> transcript w1 = transcript w" for r w1
      by (cases "ls_lastTurn st") (simp_all add: settle_race_transcript)
  next
    fix polled w1
    assume p: "?poll w = (Inr polled, w1)"
      and k: "(case polled of PostTurnAborted \<Rightarrow> end_run C st
       | Completed ms \<Rightarrow> if ms \<noteq> [] then returnC (Next (st\<lparr>ls_pending := ms, ls_hasMoreToolCalls := True\<rparr>))
           else end_run C st) w1 = (Inr n, w')"
    show "step_adds C st w1 [] n w'"
    proof (cases polled)
      case PostTurnAborted
      with k end_run_adds show ?thesis by simp
    next
      case (Completed ms)
      have plain: "plain_sources C \<longrightarrow> plain_messages ms"
      proof (cases "ls_lastTurn st")
        case None
        with p Completed show ?thesis by (simp add: plain_messages_def)
      next
        case (Some turn)
        with p Completed have "?hook turn w = (Inr ms, w1)" by (simp add: settle_Completed)
        from continuation_plain [OF this] show ?thesis by blast
      qed
      show ?thesis using k Completed end_run_adds next_pending_adds(2) [OF plain] by (cases "ms = []") simp_all
    qed
  qed
qed

lemma poll_idle_adds:
  assumes "poll_idle C st w = (Inr n, w')"
  shows "step_adds C st w [] n w'"
  using assms unfolding poll_idle_def
proof (rule quiet_bind)
  show "shouldStopBeforeTurn C st w = (r, w1) \<Longrightarrow> transcript w1 = transcript w" for r w1 by (rule stop_transcript)
next
  let ?poll = "settlePostTurn C (pollMessagesUnlessAborted C (lc_getFollowUpMessages C))"
  fix b w1
  assume "(if b then end_run C st else bindC ?poll (\<lambda>polled. case polled of PostTurnAborted \<Rightarrow> end_run C st
       | Completed ms \<Rightarrow> if ms \<noteq> [] then returnC (Next (st\<lparr>ls_pending := ms, ls_hasMoreToolCalls := True\<rparr>))
           else bindC (shouldStopBeforeTurn C st) (\<lambda>b. if b then end_run C st else poll_continuation C st))) w1 = (Inr n, w')"
  then consider "end_run C st w1 = (Inr n, w')" | "bindC ?poll (\<lambda>polled. case polled of PostTurnAborted \<Rightarrow> end_run C st
       | Completed ms \<Rightarrow> if ms \<noteq> [] then returnC (Next (st\<lparr>ls_pending := ms, ls_hasMoreToolCalls := True\<rparr>))
           else bindC (shouldStopBeforeTurn C st) (\<lambda>b. if b then end_run C st else poll_continuation C st)) w1 = (Inr n, w')"
    by (cases b) simp_all
  then show "step_adds C st w1 [] n w'"
  proof cases
    case 1
    then show ?thesis by (rule end_run_adds)
  next
    case 2
    then show ?thesis
    proof (rule quiet_bind)
      show "?poll w1 = (r, w2) \<Longrightarrow> transcript w2 = transcript w1" for r w2 by (rule settle_transcript [OF poll_transcript])
    next
      fix polled w2
      assume p: "?poll w1 = (Inr polled, w2)" and k: "(case polled of PostTurnAborted \<Rightarrow> end_run C st
       | Completed ms \<Rightarrow> if ms \<noteq> [] then returnC (Next (st\<lparr>ls_pending := ms, ls_hasMoreToolCalls := True\<rparr>))
           else bindC (shouldStopBeforeTurn C st) (\<lambda>b. if b then end_run C st else poll_continuation C st)) w2 = (Inr n, w')"
      show "step_adds C st w2 [] n w'"
      proof (cases polled)
        case PostTurnAborted
        with k end_run_adds show ?thesis by simp
      next
        case (Completed ms)
        with p have plain: "plain_sources C \<longrightarrow> plain_messages ms" using follow_plain by (auto simp: settle_Completed)
        have idle: "step_adds C st w2 [] n w'"
          if "bindC (shouldStopBeforeTurn C st) (\<lambda>b. if b then end_run C st else poll_continuation C st) w2 = (Inr n, w')"
          using that
        proof (rule quiet_bind)
          show "shouldStopBeforeTurn C st w2 = (r, w3) \<Longrightarrow> transcript w3 = transcript w2" for r w3 by (rule stop_transcript)
          show "(if b then end_run C st else poll_continuation C st) w3 = (Inr n, w') \<Longrightarrow> step_adds C st w3 [] n w'" for b w3
            using end_run_adds poll_continuation_adds by (cases b) simp_all
        qed
        show ?thesis using k Completed idle next_pending_adds(2) [OF plain] by (cases "ms = []") simp_all
      qed
    qed
  qed
qed

section \<open>A turn\<close>

lemma add_message_fold [simp]:
  "ls_new (fold add_message ms st) = ls_new st @ ms"
  "ctx_messages (ls_context (fold add_message ms st)) = ctx_messages (ls_context st) @ ms"
  by (induction ms arbitrary: st) (simp_all add: add_message_def)

lemma inject_spec:
  assumes "inject_pending C ms st w = (Inr st', w')"
  shows "transcript w' = transcript w @ ms \<and> ls_new st' = ls_new st @ ms
    \<and> ctx_messages (ls_context st') = ctx_messages (ls_context st) @ ms"
  using assms
proof (induction ms arbitrary: st w)
  case (Cons m ms)
  then obtain u w1 where a: "announce C m w = (Inr u, w1)" "inject_pending C ms (add_message m st) w1 = (Inr st', w')"
    by (auto simp: bindC_Inr)
  from Cons.IH [OF a(2)] announce_transcript [OF a(1)] show ?case by (simp add: add_message_def)
qed simp

lemma start_turn_spec:
  assumes "start_turn C st w = (Inr st', w')"
  shows "transcript w' = transcript w @ ls_pending st \<and> ls_new st' = ls_new st @ ls_pending st
    \<and> ctx_messages (ls_context st') = ctx_messages (ls_context st) @ ls_pending st"
proof -
  from assms obtain w1 w2 u where w1: "throwIfAborted C w = (Inr u, w1)"
    and w2: "(if ls_firstTurn st then returnC () else emit C TurnStart) w1 = (Inr u, w2)"
    and i: "inject_pending C (ls_pending st) (st\<lparr>ls_firstTurn := False\<rparr>) w2 = (Inr st', w')"
    by (auto simp: start_turn_def bindC_Inr)
  have "transcript w2 = transcript w"
    using throwIfAborted_state [OF w1] w2 by (auto split: if_splits dest: emit_transcript)
  with inject_spec [OF i] show ?thesis by simp
qed

definition answers :: "assistant_message \<Rightarrow> tool_result_message list \<Rightarrow> bool" where
  "answers am rs \<longleftrightarrow> (\<forall>r\<in>set rs. tr_toolCallId r \<in> set (map tc_id (tool_calls_of (am_content am))))"

lemma execute_answers:
  assumes "executeToolCalls C ctx am w = (Inr b, w')"
  shows "transcript w' = transcript w @ map ToolResultMessage (eb_messages b)" "answers am (eb_messages b)"
proof -
  from execute_calls_spec [OF assms] obtain n where
    n: "map tr_toolCallId (eb_messages b) = map tc_id (take n (tool_calls_of (am_content am)))"
      "transcript w' = transcript w @ map ToolResultMessage (eb_messages b)" by blast
  have "tr_toolCallId r \<in> set (map tc_id (tool_calls_of (am_content am)))" if "r \<in> set (eb_messages b)" for r
  proof -
    from that have "tr_toolCallId r \<in> set (map tr_toolCallId (eb_messages b))" by simp
    then show ?thesis unfolding n(1) by (auto dest: in_set_takeD)
  qed
  with n show "transcript w' = transcript w @ map ToolResultMessage (eb_messages b)" "answers am (eb_messages b)"
    by (auto simp: answers_def)
qed

lemma turn_end_adds:
  assumes "bindC (emit C (TurnEnd m rs)) (\<lambda>_. k) w = (Inr n, w')"
    and "\<And>w1. k w1 = (Inr n, w') \<Longrightarrow> step_adds C st w1 [] n w'"
  shows "step_adds C st w [] n w'"
  using assms(1)
proof (rule quiet_bind)
  show "emit C (TurnEnd m rs) w = (r, w1) \<Longrightarrow> transcript w1 = transcript w" for r w1
    by (simp add: emit_transcript)
qed (rule assms(2))

lemma after_response_adds:
  assumes "after_response C st am w = (Inr n, w')"
  shows "\<exists>rs. step_adds C st w (map ToolResultMessage rs) n w' \<and> answers am rs"
proof (cases "am_stopReason am = StopError \<or> am_stopReason am = Aborted")
  case True
  with assms have "bindC (emit C (TurnEnd (AssistantMessage am) [])) (\<lambda>_. end_run C st) w = (Inr n, w')"
    by (simp add: after_response_def)
  from turn_end_adds [OF this end_run_adds] show ?thesis by (intro exI [of _ "[]"]) (simp add: answers_def)
next
  case False
  show ?thesis
  proof (cases "tool_calls_of (am_content am) = []")
    case True
    let ?st = "st\<lparr>ls_hasMoreToolCalls := False\<rparr>"
    have "bindC (emit C (TurnEnd (AssistantMessage am) [])) (\<lambda>_. after_turn C ?st am []) w = (Inr n, w')"
      using assms False True by (simp add: after_response_def)
    from turn_end_adds [OF this after_turn_adds] have "step_adds C ?st w [] n w'" .
    from step_adds_cong [OF this refl] show ?thesis by (intro exI [of _ "[]"]) (simp add: answers_def)
  next
    case calls: False
    obtain b w1 where b: "executeToolCalls C (ls_context st) am w = (Inr b, w1)"
      and k: "bindC (emit C (TurnEnd (AssistantMessage am) (eb_messages b))) (\<lambda>_. after_turn C
          (fold add_message (map ToolResultMessage (eb_messages b)) (st\<lparr>ls_hasMoreToolCalls := \<not> eb_terminate b\<rparr>))
          am (eb_messages b)) w1 = (Inr n, w')"
      using assms False calls by (auto simp: after_response_def bindC_Inr)
    let ?st = "fold add_message (map ToolResultMessage (eb_messages b)) (st\<lparr>ls_hasMoreToolCalls := \<not> eb_terminate b\<rparr>)"
    from turn_end_adds [OF k after_turn_adds] have "step_adds C ?st w1 [] n w'" .
    from step_adds_trans [OF this execute_answers(1) [OF b]] have "step_adds C st w (map ToolResultMessage (eb_messages b) @ []) n w'"
      by simp
    then show ?thesis using execute_answers(2) [OF b] by auto
  qed
qed

lemma run_turn_adds:
  assumes "plain_listeners C" "starts_once C announced" "run_turn C st w = Some (Inr n, w')"
  shows "\<exists>am rs. step_adds C st w (ls_pending st @ AssistantMessage am # map ToolResultMessage rs) n w' \<and> answers am rs"
proof -
  obtain r1 w1 where s: "start_turn C st w = (r1, w1)" by (rule prod.exhaust)
  with assms(3) obtain st1 where r1: "r1 = Inr st1" by (cases r1) (auto simp: run_turn_def)
  with assms(3) s obtain am msgs w2 where p: "streamAssistantResponse C (ls_context st1) w1 = Some (Inr (am, msgs), w2)"
    "after_response C (st1\<lparr>ls_context := (ls_context st1)\<lparr>ctx_messages := msgs\<rparr>, ls_new := ls_new st1 @ [AssistantMessage am]\<rparr>) am w2
      = (Inr n, w')"
    by (auto simp: run_turn_def split: option.splits prod.splits sum.splits)
  let ?st = "st1\<lparr>ls_context := (ls_context st1)\<lparr>ctx_messages := msgs\<rparr>, ls_new := ls_new st1 @ [AssistantMessage am]\<rparr>"
  note a = start_turn_spec [OF s [unfolded r1]] and b = response_spec [OF assms(1,2) p(1)]
  from after_response_adds [OF p(2)] obtain rs where rs: "step_adds C ?st w2 (map ToolResultMessage rs) n w'" "answers am rs" by blast
  have "step_adds C st w ((ls_pending st @ [AssistantMessage am]) @ map ToolResultMessage rs) n w'"
    by (rule step_adds_trans [OF rs(1)]) (use a b in simp_all)
  with rs(2) show ?thesis by auto
qed

text \<open>
  A step of the loop, as the rest of the proofs use it: what it adds, and that this keeps tool results
  with their calls.
\<close>

lemma loop_step_adds:
  assumes "plain_listeners C" "starts_once C announced" "loop_step C st w = Some (Inr n, w')"
  obtains added where "step_adds C st w added n w'"
    "\<And>calls ms. plain_messages (ls_pending st) \<Longrightarrow> paired calls ms \<Longrightarrow> paired calls (ms @ added)"
proof (cases "ls_hasMoreToolCalls st \<or> ls_pending st \<noteq> []")
  case True
  with assms(3) have "run_turn C st w = Some (Inr n, w')" by (simp add: loop_step_def)
  from run_turn_adds [OF assms(1,2) this] obtain am rs where
    t: "step_adds C st w (ls_pending st @ AssistantMessage am # map ToolResultMessage rs) n w'" "answers am rs" by blast
  show thesis
  proof (rule that [OF t(1)])
    fix calls ms
    assume plain: "plain_messages (ls_pending st)" and p: "paired calls ms"
    have "paired calls (ms @ (ls_pending st @ [AssistantMessage am]))"
      by (rule paired_append_plain [OF p]) (use plain in \<open>auto simp: plain_messages_def\<close>)
    then have "paired calls ((ms @ ls_pending st) @ [AssistantMessage am])" by simp
    from paired_append_results [OF this] t(2)
    show "paired calls (ms @ ls_pending st @ AssistantMessage am # map ToolResultMessage rs)"
      by (simp add: answers_def)
  qed
next
  case False
  with assms(3) have "poll_idle C st w = (Inr n, w')" by (simp add: loop_step_def)
  from poll_idle_adds [OF this] that show thesis by (metis append_Nil2)
qed

section \<open>The run\<close>

lemma run_loop_adds:
  assumes "run_loop C st w = Some res" "res = (Inr ms, w')" "plain_listeners C" "starts_once C announced"
  shows "\<exists>added es. transcript w' = transcript w @ added \<and> ms = ls_new st @ added
    \<and> lw_log w' = es @ [AgentEnd ms]
    \<and> (plain_sources C \<longrightarrow> plain_messages (ls_pending st) \<longrightarrow> (\<forall>calls. paired calls (ctx_messages (ls_context st))
        \<longrightarrow> paired calls (ctx_messages (ls_context st) @ added)))"
  using assms
proof (induction rule: run_loop.raw_induct [rotated, consumes 1, case_names step])
  case (step f C st w res)
  from step.hyps step.prems(1) obtain n w1 where l: "loop_step C st w = Some (Inr n, w1)"
    by (auto split: option.splits sum.splits prod.splits)
  from loop_step_adds [OF step.prems(2,3) l] obtain added where
    a: "step_adds C st w added n w1"
      "\<And>calls ms. plain_messages (ls_pending st) \<Longrightarrow> paired calls ms \<Longrightarrow> paired calls (ms @ added)" by blast
  show ?case
  proof (cases n)
    case (Return ms')
    with step.hyps step.prems(1) l have "ms' = ms" "w1 = w'" by auto
    with a Return show ?thesis by (auto simp: step_adds_def)
  next
    case (Next st1)
    with step.hyps l have "f C st1 w1 = Some res" by simp
    from step.IH [OF this step.prems] obtain later es where
      b: "transcript w' = transcript w1 @ later" "ms = ls_new st1 @ later" "lw_log w' = es @ [AgentEnd ms]"
        "plain_sources C \<longrightarrow> plain_messages (ls_pending st1) \<longrightarrow> (\<forall>calls. paired calls (ctx_messages (ls_context st1))
          \<longrightarrow> paired calls (ctx_messages (ls_context st1) @ later))" by blast
    have c: "transcript w1 = transcript w @ added" "ls_new st1 = ls_new st @ added"
      "ctx_messages (ls_context st1) = ctx_messages (ls_context st) @ added"
      "plain_sources C \<longrightarrow> plain_messages (ls_pending st1)" using a(1) Next by (simp_all add: step_adds_def)
    show ?thesis
      using b c a(2) by (intro exI [of _ "added @ later"] exI [of _ es]) auto
  qed
qed

lemma each_announce: "eachC (announce C) ms w = (Inr u, w') \<Longrightarrow> transcript w' = transcript w @ ms"
  by (induction ms arbitrary: w) (auto simp: bindC_Inr dest!: announce_transcript)

lemma runLoop_adds:
  assumes "runLoop C ctx new w = Some (Inr ms, w')" "plain_listeners C" "starts_once C announced"
  shows "\<exists>added es. transcript w' = transcript w @ added \<and> ms = new @ added \<and> lw_log w' = es @ [AgentEnd ms]
    \<and> (plain_sources C \<longrightarrow> (\<forall>calls. paired calls (ctx_messages ctx) \<longrightarrow> paired calls (ctx_messages ctx @ added)))"
proof -
  obtain r w1 where p: "pollMessagesUnlessAborted C (lc_getSteeringMessages C) w = (r, w1)" by (rule prod.exhaust)
  with assms(1) obtain q where r: "r = Inr q" by (cases r) (auto simp: runLoop_def)
  let ?st = "\<lparr>ls_context = ctx, ls_new = new, ls_firstTurn = True, ls_lastTurn = None, ls_pending = q, ls_hasMoreToolCalls = True\<rparr>"
  have "run_loop C ?st w1 = Some (Inr ms, w')" using assms(1) p r by (simp add: runLoop_def)
  from run_loop_adds [OF this refl assms(2,3)] poll_transcript [OF p] steering_plain [OF p [unfolded r]]
  show ?thesis by auto
qed

lemma runAgentLoop_adds:
  assumes "runAgentLoop C prompts ctx w = Some (Inr ms, w')" "plain_listeners C" "starts_once C announced"
  shows "\<exists>added es. transcript w' = transcript w @ ms \<and> ms = prompts @ added \<and> lw_log w' = es @ [AgentEnd ms]
    \<and> (plain_sources C \<longrightarrow> plain_messages prompts \<longrightarrow> paired [] (ctx_messages ctx) \<longrightarrow> paired [] (ctx_messages ctx @ ms))"
proof -
  obtain r w1 where p: "bindC (emit C AgentStart) (\<lambda>_. bindC (emit C TurnStart) (\<lambda>_. eachC (announce C) prompts)) w = (r, w1)"
    by (rule prod.exhaust)
  with assms(1) obtain u where r: "r = Inr u" by (cases r) (auto simp: runAgentLoop_def)
  from p r have t1: "transcript w1 = transcript w @ prompts"
    by (auto simp: bindC_Inr dest!: emit_transcript each_announce)
  have l: "runLoop C (ctx\<lparr>ctx_messages := ctx_messages ctx @ prompts\<rparr>) prompts w1 = Some (Inr ms, w')"
    using assms(1) p r by (simp add: runAgentLoop_def)
  from runLoop_adds [OF l assms(2,3)] obtain added es where
    a: "transcript w' = transcript w1 @ added" "ms = prompts @ added" "lw_log w' = es @ [AgentEnd ms]"
      "plain_sources C \<Longrightarrow> paired [] (ctx_messages ctx @ prompts) \<Longrightarrow> paired [] ((ctx_messages ctx @ prompts) @ added)"
    by auto
  have "paired [] (ctx_messages ctx) \<Longrightarrow> plain_messages prompts \<Longrightarrow> paired [] (ctx_messages ctx @ prompts)"
    using paired_append_plain by (simp add: plain_messages_def)
  with a t1 show ?thesis by (intro exI [of _ added] exI [of _ es]) auto
qed



end
