(* ===== verification/Agent_Batch.thy ===== *)
theory Agent_Batch
  imports Agent_Loop_Props
begin

text \<open>
  Tool batches and aborts: results come in the order of their calls, a failing tool is an error
  result and not a failed run, and no turn starts once the signal is aborted.
\<close>

section \<open>Tool batches\<close>

text \<open>
  C15. The result messages of a batch answer its first calls in the order of the calls whatever the
  order in which parallel calls finish; all calls are answered unless the run was aborted; the
  transcript grows by exactly the results.
\<close>

theorem tool_results_in_order:
  assumes "executeToolCalls C ctx am w = (Inr b, w')"
  shows "\<exists>n. map tr_toolCallId (eb_messages b) = map tc_id (take n (tool_calls_of (am_content am)))
    \<and> (n < length (tool_calls_of (am_content am)) \<longrightarrow> is_aborted C w')
    \<and> transcript w' = transcript w @ map ToolResultMessage (eb_messages b)"
  using execute_calls_spec [OF assms] by blast

definition listeners_succeed :: "'x loop_config \<Rightarrow> bool" where
  "listeners_succeed C \<longleftrightarrow> (\<forall>ev x. fst (lc_emit C ev x) = None)"

lemma emit_succeeds:
  assumes "listeners_succeed C"
  obtains w' where "emit C ev w = (Inr (), w')"
proof -
  obtain r x where r: "lc_emit C ev (lw_host w) = (r, x)" by (rule prod.exhaust)
  with assms have "r = None" unfolding listeners_succeed_def by (metis fst_conv)
  with r that show thesis by (simp add: emit_def)
qed

lemma bindC_succeeds:
  assumes "\<And>w. \<exists>x w'. m w = (Inr x, w')" "\<And>x w. \<exists>y w'. f x w = (Inr y, w')"
  shows "\<exists>y w'. bindC m f w = (Inr y, w')"
proof -
  obtain x w1 where "m w = (Inr x, w1)" using assms(1) by blast
  with assms(2) [of x w1] show ?thesis by (auto simp: bindC_def)
qed

lemma emit_ex: "listeners_succeed C \<Longrightarrow> \<exists>x w'. emit C ev w = (Inr x, w')"
  by (meson emit_succeeds)

lemma emit_result_succeeds: "listeners_succeed C \<Longrightarrow> \<exists>m w'. emitToolResultMessage C f w = (Inr m, w')"
  unfolding emitToolResultMessage_def Let_def
  by (intro bindC_succeeds emit_ex) (auto simp: returnC_def)

lemma emit_tool_end_succeeds: "listeners_succeed C \<Longrightarrow> \<exists>u w'. emitToolExecutionEnd C f w = (Inr u, w')"
  unfolding emitToolExecutionEnd_def by (rule emit_ex)

lemma sequential_succeeds:
  "listeners_succeed C \<Longrightarrow> \<exists>b w'. sequential_calls C ctx am tcs fs ms w = (Inr b, w')"
proof (induction tcs arbitrary: fs ms w)
  case (Cons tc tcs)
  show ?case
  proof (cases "is_aborted C w")
    case False
    obtain w1 where s: "emitToolExecutionStart C tc w = (Inr (), w1)"
      unfolding emitToolExecutionStart_def by (rule emit_succeeds [OF Cons.prems])
    obtain f w2 where f: "settle_call C ctx am tc w1 = (f, w2)" by (rule prod.exhaust)
    have "\<exists>m w3. bindC (emitToolExecutionEnd C f) (\<lambda>_. emitToolResultMessage C f) w2 = (Inr m, w3)"
      by (intro bindC_succeeds emit_tool_end_succeeds emit_result_succeeds Cons.prems)
    then obtain m w3 where "bindC (emitToolExecutionEnd C f) (\<lambda>_. emitToolResultMessage C f) w2 = (Inr m, w3)" by blast
    with Cons.IH [OF Cons.prems] False s f show ?thesis unfolding sequential_unfold by simp
  qed simp
qed simp

lemma advance_succeeds: "listeners_succeed C \<Longrightarrow> \<exists>t' w'. advance C ctx am t w = (Inr t', w')"
proof (cases t)
  case (Hooked f)
  assume "listeners_succeed C"
  then obtain u w' where "emitToolExecutionEnd C f w = (Inr u, w')" using emit_tool_end_succeeds by blast
  with Hooked show ?thesis by simp
qed (auto split: prod.split)

lemma run_tasks_succeeds: "listeners_succeed C \<Longrightarrow> \<exists>us w'. run_tasks C ctx am ts w = (Inr us, w')"
proof (induction C ctx am ts w rule: run_tasks.induct)
  case (1 C ctx am ts w)
  show ?case
  proof (cases "unfinished ts = []")
    case True
    then show ?thesis by (simp add: run_tasks.simps)
  next
    case False
    obtain t w1 where a: "advance C ctx am (ts ! pick_task C ts w) w = (Inr t, w1)"
      using advance_succeeds [OF "1.prems"] by blast
    from "1.IH" [OF False a [symmetric] refl "1.prems"] a False show ?thesis
      by (subst run_tasks.simps) simp
  qed
qed

lemma prepare_calls_succeeds: "listeners_succeed C \<Longrightarrow> \<exists>us w'. prepare_calls C ctx am tcs ts w = (Inr us, w')"
proof (induction tcs arbitrary: ts w)
  case (Cons tc tcs)
  obtain w1 where s: "emitToolExecutionStart C tc w = (Inr (), w1)"
    unfolding emitToolExecutionStart_def by (rule emit_succeeds [OF Cons.prems])
  obtain p w2 where p: "prepareToolCall C ctx am tc w1 = (p, w2)" by (rule prod.exhaust)
  show ?case
  proof (cases p)
    case (Prepared pc)
    with Cons.IH [OF Cons.prems] s p show ?thesis by simp
  next
    case (Immediate r er)
    obtain u w3 where "emitToolExecutionEnd C \<lparr>fc_toolCall = tc, fc_result = r, fc_isError = er\<rparr> w2 = (Inr u, w3)"
      using emit_tool_end_succeeds [OF Cons.prems] by blast
    with Cons.IH [OF Cons.prems] s p Immediate show ?thesis by simp
  qed
qed simp

lemma emit_results_succeeds: "listeners_succeed C \<Longrightarrow> \<exists>ms w'. emit_results C fs w = (Inr ms, w')"
proof (induction fs arbitrary: w)
  case (Cons f fs)
  show ?case unfolding emit_results.simps
    by (intro bindC_succeeds emit_result_succeeds Cons) (auto simp: returnC_def)
qed simp

text \<open>
  C16. As long as listeners do not throw, a batch of tool calls always ends with results: unknown
  tools, invalid arguments, throwing hooks and tools, and aborts become results and never escape.
\<close>

theorem tool_errors_contained:
  assumes "listeners_succeed C"
  shows "\<exists>b w'. executeToolCalls C ctx am w = (Inr b, w')"
proof (cases "lc_toolExecution C = Sequential \<or> has_sequential_call ctx (tool_calls_of (am_content am))")
  case True
  then show ?thesis using sequential_succeeds [OF assms]
    by (simp add: executeToolCalls_def executeToolCallsSequential_def Let_def)
next
  case False
  have "\<exists>b w'. executeToolCallsParallel C ctx am (tool_calls_of (am_content am)) w = (Inr b, w')"
    unfolding executeToolCallsParallel_def Let_def
    by (intro bindC_succeeds prepare_calls_succeeds run_tasks_succeeds emit_results_succeeds assms)
      (simp add: returnC_def)
  with False show ?thesis by (simp add: executeToolCalls_def Let_def)
qed

section \<open>Aborts\<close>

text \<open>An aborted signal stays aborted over the hooks called when the agent would stop.\<close>

definition abort_sticky :: "'x loop_config \<Rightarrow> bool" where
  "abort_sticky C \<longleftrightarrow>
     (\<forall>f x. lc_shouldStopBeforeTurn C = Some f \<longrightarrow> lc_aborted C x \<longrightarrow> lc_aborted C (snd (f x)))
     \<and> (\<forall>f turn x. lc_getContinuationMessages C = Some f \<longrightarrow> lc_aborted C x \<longrightarrow> lc_aborted C (snd (f turn x)))"

lemma stop_keeps_abort:
  "abort_sticky C \<Longrightarrow> is_aborted C w \<Longrightarrow> shouldStopBeforeTurn C st w = (r, w') \<Longrightarrow> is_aborted C w'"
  by (auto simp: shouldStopBeforeTurn_def is_aborted_def abort_sticky_def split: if_splits option.splits prod.splits)

lemma end_run_Return: "end_run C st w = (Inr n, w') \<Longrightarrow> n = Return (ls_new st)"
  by (auto simp: end_run_def bindC_Inr)

lemma aborted_continuation:
  assumes "abort_sticky C" "is_aborted C w" "poll_continuation C st w = (Inr n, w')"
  shows "n = Return (ls_new st)"
proof (cases "ls_lastTurn st")
  case None
  with assms(3) end_run_Return show ?thesis by (simp add: poll_continuation_def)
next
  case (Some turn)
  let ?op = "case lc_getContinuationMessages C of None \<Rightarrow> settled [] | Some f \<Rightarrow> f turn"
  obtain r x where op: "?op (lw_host w) = (r, x)" by (rule prod.exhaust)
  have "lc_aborted C (lw_host w)" using assms(2) by (simp add: is_aborted_def)
  then have "lc_aborted C x" using op assms(1)
    by (cases "lc_getContinuationMessages C") (auto simp: settled_def abort_sticky_def, metis snd_conv)
  then have "settlePostTurn C (raceWithAbort C ?op) w = (Inr PostTurnAborted, w\<lparr>lw_host := x\<rparr>)"
    using assms(2) op by (simp add: settlePostTurn_def raceWithAbort_def isAbortError_def createAbortError_def is_aborted_def)
  with assms(3) Some have "end_run C st (w\<lparr>lw_host := x\<rparr>) = (Inr n, w')"
    by (simp add: poll_continuation_def bindC_def)
  then show ?thesis by (rule end_run_Return)
qed

text \<open>
  C17. Once the signal is aborted, the next step of the loop is the last: before a turn it throws
  the abort error without any effect, at an idle point the run ends or throws.
\<close>

theorem abort_stops_loop:
  assumes "abort_sticky C" "is_aborted C w" "loop_step C st w = Some (r, w')"
  shows "((\<exists>e. r = Inl e) \<or> r = Inr (Return (ls_new st)))
    \<and> (ls_hasMoreToolCalls st \<or> ls_pending st \<noteq> [] \<longrightarrow> r = Inl createAbortError \<and> w' = w)"
proof (cases "ls_hasMoreToolCalls st \<or> ls_pending st \<noteq> []")
  case True
  have "start_turn C st w = (Inl createAbortError, w)"
    using assms(2) by (simp add: start_turn_def bindC_def throwIfAborted_def)
  with True assms(3) show ?thesis by (auto simp: loop_step_def run_turn_def)
next
  case False
  have "n = Return (ls_new st)" if r: "r = Inr n" for n
  proof -
    from False assms(3) r obtain b w1 where s: "shouldStopBeforeTurn C st w = (Inr b, w1)"
      and k: "(if b then end_run C st else bindC (settlePostTurn C (pollMessagesUnlessAborted C (lc_getFollowUpMessages C)))
        (\<lambda>polled. case polled of PostTurnAborted \<Rightarrow> end_run C st
         | Completed ms \<Rightarrow> if ms \<noteq> [] then returnC (Next (st\<lparr>ls_pending := ms, ls_hasMoreToolCalls := True\<rparr>))
             else bindC (shouldStopBeforeTurn C st) (\<lambda>b. if b then end_run C st else poll_continuation C st))) w1 = (Inr n, w')"
      by (auto simp: loop_step_def poll_idle_def bindC_Inr)
    note a1 = stop_keeps_abort [OF assms(1,2) s]
    have poll: "settlePostTurn C (pollMessagesUnlessAborted C (lc_getFollowUpMessages C)) w1 = (Inr (Completed []), w1)"
      using a1 by (simp add: settle_Completed) (simp add: pollMessagesUnlessAborted_def split: option.split)
    show ?thesis
    proof (cases b)
      case True
      with k end_run_Return show ?thesis by simp
    next
      case b: False
      with k poll obtain b2 w2 where s2: "shouldStopBeforeTurn C st w1 = (Inr b2, w2)"
        and k2: "(if b2 then end_run C st else poll_continuation C st) w2 = (Inr n, w')"
        by (auto simp: bindC_Inr)
      from k2 aborted_continuation [OF assms(1) stop_keeps_abort [OF assms(1) a1 s2]] end_run_Return
      show ?thesis by (cases b2) simp_all
    qed
  qed
  with False show ?thesis by (cases r) auto
qed

end
