(* ===== verification/Agent_Loop_Examples.thy ===== *)
theory Agent_Loop_Examples
  imports Agent_Batch
begin

text \<open>A concrete host on which the properties of the agent loop apply.\<close>

section \<open>A small host\<close>

text \<open>A provider that answers every prompt with one announced message; the host counts its events.\<close>

definition demo_reply :: assistant_message where
  "demo_reply = \<lparr>am_content = [AText ''ok'' None], am_api = ''a'', am_provider = ''p'', am_model = ''m'',
     am_usage = emptyUsage, am_stopReason = Stop, am_errorMessage = None, am_timestamp = 1\<rparr>"

definition demo_config :: "nat loop_config" where
  "demo_config = \<lparr>lc_aborted = (\<lambda>_. False), lc_emit = (\<lambda>_ x. (None, x)), lc_now = int, lc_api = ''a'',
     lc_provider = ''p'', lc_modelId = ''m'', lc_apiKey = None, lc_toolExecution = Parallel,
     lc_transformContext = None, lc_convertToLlm = (\<lambda>_. settled []), lc_getSystemPrompt = None, lc_getApiKey = None,
     lc_stream = (\<lambda>_ _ _. (Fulfilled (), 0)),
     lc_next = (\<lambda>x. if x = 0 then (Fulfilled (Some (StreamStart demo_reply)), 1)
                   else (Fulfilled (Some (StreamDone demo_reply)), x)),
     lc_result = settled demo_reply, lc_beforeToolCall = None, lc_afterToolCall = None,
     lc_shouldStopAfterTurn = None, lc_shouldStopBeforeTurn = None, lc_getSteeringMessages = None,
     lc_getFollowUpMessages = None, lc_getContinuationMessages = None, lc_pick = id\<rparr>"

definition demo_context :: "nat agent_context" where
  "demo_context = \<lparr>ctx_systemPrompt = [], ctx_messages = [], ctx_tools = []\<rparr>"

definition demo_start :: "nat loop_world" where
  "demo_start = \<lparr>lw_log = [], lw_host = 0\<rparr>"

abbreviation demo_prompt :: agent_message where
  "demo_prompt \<equiv> UserMessage (StrContent ''hi'') 1"

lemma demo_hypotheses:
  "plain_listeners demo_config" "starts_once demo_config (\<lambda>x. x \<noteq> 0)" "plain_sources demo_config"
  "listeners_succeed demo_config" "abort_sticky demo_config"
  by (auto simp: demo_config_def plain_listeners_def starts_once_def plain_sources_def listeners_succeed_def
      abort_sticky_def split: if_splits)

lemma demo_emit: "emit demo_config ev w = (Inr (), w\<lparr>lw_log := lw_log w @ [ev]\<rparr>)"
  by (simp add: emit_def demo_config_def)

lemma demo_race [simp]: "raceWithAbort demo_config (settled v) w = (Inr v, w)"
  by (simp add: raceWithAbort_def is_aborted_def demo_config_def settled_def)

lemma demo_next:
  "raceWithAbort demo_config (lc_next demo_config) w =
     (if lw_host w = 0 then (Inr (Some (StreamStart demo_reply)), w\<lparr>lw_host := 1\<rparr>)
      else (Inr (Some (StreamDone demo_reply)), w))"
  by (simp add: raceWithAbort_def is_aborted_def demo_config_def)

lemma demo_never_aborted [simp]: "\<not> is_aborted demo_config w"
  by (simp add: is_aborted_def demo_config_def)

lemma demo_fields [simp]:
  "lc_result demo_config = settled demo_reply" "lc_getSteeringMessages demo_config = None"
  "lc_getFollowUpMessages demo_config = None" "lc_getContinuationMessages demo_config = None"
  "lc_shouldStopAfterTurn demo_config = None" "lc_shouldStopBeforeTurn demo_config = None"
  by (simp_all add: demo_config_def)

lemma demo_open: "\<exists>w'. open_stream demo_config ctx w = (Inr (), w'\<lparr>lw_host := 0\<rparr>)"
  by (simp add: open_stream_def bindC_def throwIfAborted_def Let_def demo_config_def raceWithAbort_def is_aborted_def
      settled_def returnC_def) blast

lemma demo_stream_done:
  assumes "lw_host w \<noteq> 0"
  shows "\<exists>st' w'. stream_loop demo_config st w = Some (Inr demo_reply, st', w')"
  by (subst stream_loop.simps)
    (use assms in \<open>simp add: demo_next finish_terminal_def finish_stream_def emit_final_def bindC_def demo_emit returnC_def\<close>)

lemma demo_stream:
  assumes "lw_host w = 0"
  shows "\<exists>st' w'. stream_loop demo_config st w = Some (Inr demo_reply, st', w')"
  by (subst stream_loop.simps) (use assms demo_stream_done in \<open>simp add: demo_next demo_emit\<close>)

lemma demo_response: "\<exists>msgs w'. streamAssistantResponse demo_config ctx w = Some (Inr (demo_reply, msgs), w')"
proof -
  obtain w1 where o: "open_stream demo_config ctx w = (Inr (), w1\<lparr>lw_host := 0\<rparr>)" using demo_open by blast
  have "lw_host (w1\<lparr>lw_host := 0\<rparr>) = 0" by simp
  from demo_stream [OF this] obtain st' w' where
    "stream_loop demo_config \<lparr>ss_partial = None, ss_added = False, ss_messages = ctx_messages ctx\<rparr> (w1\<lparr>lw_host := 0\<rparr>)
      = Some (Inr demo_reply, st', w')" by blast
  with o show ?thesis by (simp add: streamAssistantResponse_def)
qed

lemma demo_stop [simp]: "shouldStopBeforeTurn demo_config st w = (Inr False, w)"
  by (simp add: shouldStopBeforeTurn_def)

lemma demo_turn:
  assumes "ls_hasMoreToolCalls st" "ls_pending st = []" "ls_firstTurn st"
  shows "\<exists>st' w'. loop_step demo_config st w = Some (Inr (Next st'), w') \<and> \<not> ls_hasMoreToolCalls st'
    \<and> ls_pending st' = [] \<and> ls_lastTurn st' \<noteq> None"
proof -
  let ?st = "st\<lparr>ls_firstTurn := False, ls_pending := []\<rparr>"
  have s: "start_turn demo_config st w = (Inr ?st, w)"
    using assms by (simp add: start_turn_def bindC_def throwIfAborted_def returnC_def)
  obtain msgs w2 where r: "streamAssistantResponse demo_config (ls_context ?st) w = Some (Inr (demo_reply, msgs), w2)"
    using demo_response by blast
  show ?thesis
    using assms s r
    by (simp add: loop_step_def run_turn_def after_response_def demo_reply_def bindC_def demo_emit returnC_def
        after_turn_def Let_def settlePostTurn_def poll_steering_def)
qed

lemma demo_idle:
  assumes "\<not> ls_hasMoreToolCalls st" "ls_pending st = []"
  shows "\<exists>w'. loop_step demo_config st w = Some (Inr (Return (ls_new st)), w')"
  using assms by (cases "ls_lastTurn st") (simp_all add: loop_step_def poll_idle_def bindC_def settlePostTurn_def
      poll_continuation_def end_run_def demo_emit returnC_def)

lemma demo_run: "\<exists>ms w'. runAgentLoop demo_config [demo_prompt] demo_context demo_start = Some (Inr ms, w')"
proof -
  let ?ctx = "demo_context\<lparr>ctx_messages := ctx_messages demo_context @ [demo_prompt]\<rparr>"
  let ?st = "\<lparr>ls_context = ?ctx, ls_new = [demo_prompt], ls_firstTurn = True, ls_lastTurn = None, ls_pending = [],
    ls_hasMoreToolCalls = True\<rparr>"
  have "\<exists>w1. bindC (emit demo_config AgentStart) (\<lambda>_. bindC (emit demo_config TurnStart)
      (\<lambda>_. eachC (announce demo_config) [demo_prompt])) demo_start = (Inr (), w1)"
    by (simp add: bindC_def demo_emit announce_def returnC_def)
  then obtain w1 where a: "bindC (emit demo_config AgentStart) (\<lambda>_. bindC (emit demo_config TurnStart)
      (\<lambda>_. eachC (announce demo_config) [demo_prompt])) demo_start = (Inr (), w1)" by blast
  obtain st' w2 where t: "loop_step demo_config ?st w1 = Some (Inr (Next st'), w2)" "\<not> ls_hasMoreToolCalls st'"
    "ls_pending st' = []" using demo_turn [of ?st w1] by auto
  obtain w3 where i: "loop_step demo_config st' w2 = Some (Inr (Return (ls_new st')), w3)"
    using demo_idle [OF t(2,3)] by blast
  have "run_loop demo_config ?st w1 = run_loop demo_config st' w2" by (subst run_loop.simps) (simp add: t)
  also have "\<dots> = Some (Inr (ls_new st'), w3)" by (subst run_loop.simps) (simp add: i)
  finally show ?thesis using a by (simp add: runAgentLoop_def runLoop_def)
qed



definition demo_call :: assistant_message where
  "demo_call = demo_reply\<lparr>am_content := [AToolCall \<lparr>tc_id = ''k'', tc_name = ''none'', tc_arguments = JNull, tc_thoughtSignature = None\<rparr>]\<rparr>"

theorem tool_errors_contained_witness:
  "\<exists>b w'. executeToolCalls demo_config demo_context demo_call demo_start = (Inr b, w')"
  by (rule tool_errors_contained [OF demo_hypotheses(4)])

lemma demo_batch: "\<exists>b w'. executeToolCalls demo_config demo_context demo_call demo_start = (Inr b, w')"
proof -
  have "\<exists>b w'. executeToolCallsParallel demo_config demo_context demo_call (tool_calls_of (am_content demo_call)) demo_start = (Inr b, w')"
    by (simp add: executeToolCallsParallel_def demo_call_def demo_context_def emitToolExecutionStart_def demo_emit
        prepareToolCall_def find_tool_def emitToolExecutionEnd_def bindC_def run_tasks.simps unfinished_def
        emitToolResultMessage_def Let_def returnC_def)
  then show ?thesis
    by (simp add: executeToolCalls_def Let_def has_sequential_call_def demo_call_def find_tool_def demo_context_def)
      (simp add: demo_config_def)
qed

theorem tool_results_in_order_witness:
  "\<exists>b w' n. executeToolCalls demo_config demo_context demo_call demo_start = (Inr b, w')
    \<and> map tr_toolCallId (eb_messages b) = take n [''k'']"
proof -
  obtain b w' where b: "executeToolCalls demo_config demo_context demo_call demo_start = (Inr b, w')"
    using demo_batch by blast
  from tool_results_in_order [OF b] obtain n where
    "map tr_toolCallId (eb_messages b) = map tc_id (take n (tool_calls_of (am_content demo_call)))" by blast
  moreover have "map tc_id (tool_calls_of (am_content demo_call)) = [''k'']" by (simp add: demo_call_def)
  ultimately show ?thesis using b by (metis take_map)
qed

definition aborted_config :: "nat loop_config" where
  "aborted_config = demo_config\<lparr>lc_aborted := (\<lambda>_. True)\<rparr>"

definition demo_state :: "nat loop_state" where
  "demo_state = \<lparr>ls_context = demo_context, ls_new = [], ls_firstTurn = True, ls_lastTurn = None, ls_pending = [],
     ls_hasMoreToolCalls = True\<rparr>"

theorem abort_stops_loop_witness:
  "loop_step aborted_config demo_state demo_start = Some (Inl createAbortError, demo_start)"
proof -
  have s: "abort_sticky aborted_config" "is_aborted aborted_config demo_start"
    by (simp_all add: abort_sticky_def is_aborted_def aborted_config_def)
  have "loop_step aborted_config demo_state demo_start \<noteq> None"
    by (simp add: loop_step_def demo_state_def run_turn_def start_turn_def bindC_def throwIfAborted_def s)
  then obtain r w' where l: "loop_step aborted_config demo_state demo_start = Some (r, w')" by auto
  from abort_stops_loop [OF s l] l show ?thesis by (simp add: demo_state_def)
qed

end
