(* ===== verification/Loop_Invariant.thy ===== *)
theory Loop_Invariant
  imports Agent_Run
begin

text \<open>
  The contract between the agent loop and its host, for invariants: a predicate that emitting an event
  and every call on the host keeps is kept by a whole run, whether it returns or throws. The \<open>Agent\<close>
  class is the client that provides the calls.
\<close>

definition step_keeps :: "('w \<Rightarrow> bool) \<Rightarrow> ('w \<Rightarrow> 'r \<times> 'w) \<Rightarrow> bool" where
  "step_keeps I m \<longleftrightarrow> (\<forall>w. I w \<longrightarrow> I (snd (m w)))"

definition host_keeps :: "('x loop_world \<Rightarrow> bool) \<Rightarrow> ('x \<Rightarrow> 'r \<times> 'x) \<Rightarrow> bool" where
  "host_keeps I op \<longleftrightarrow> (\<forall>w. I w \<longrightarrow> I (w\<lparr>lw_host := snd (op (lw_host w))\<rparr>))"

named_theorems keeps_intros "steps that keep an invariant"

lemma step_keepsD: "step_keeps I m \<Longrightarrow> I w \<Longrightarrow> m w = (r, w') \<Longrightarrow> I w'"
  unfolding step_keeps_def by (metis snd_conv)

lemma step_keepsI: "(\<And>w r w'. I w \<Longrightarrow> m w = (r, w') \<Longrightarrow> I w') \<Longrightarrow> step_keeps I m"
  unfolding step_keeps_def by (metis prod.collapse)

lemma keeps_return [keeps_intros]: "step_keeps I (returnC x)"
  by (simp add: step_keeps_def returnC_def)

lemma keeps_throw [keeps_intros]: "step_keeps I (throwC x)"
  by (simp add: step_keeps_def throwC_def)

lemma keeps_bind [keeps_intros]:
  assumes "step_keeps I m" "\<And>x. step_keeps I (f x)"
  shows "step_keeps I (bindC m f)"
proof (rule step_keepsI)
  fix w r w'
  assume w: "I w" and b: "bindC m f w = (r, w')"
  obtain x w1 where m: "m w = (x, w1)" by (rule prod.exhaust)
  note w1 = step_keepsD [OF assms(1) w m]
  show "I w'"
  proof (cases x)
    case (Inl e)
    with b m w1 show ?thesis by (simp add: bindC_def)
  next
    case (Inr y)
    with b m have "f y w1 = (r, w')" by (simp add: bindC_def)
    from step_keepsD [OF assms(2) w1 this] show ?thesis .
  qed
qed

lemma keeps_if [keeps_intros]: "step_keeps I m \<Longrightarrow> step_keeps I n \<Longrightarrow> step_keeps I (if b then m else n)"
  by simp

lemma keeps_cond: "step_keeps I m \<Longrightarrow> step_keeps I n \<Longrightarrow> step_keeps I (\<lambda>w. if P w then m w else n w)"
  by (simp add: step_keeps_def)

lemma keeps_settle [keeps_intros]:
  assumes "step_keeps I m"
  shows "step_keeps I (settlePostTurn C m)"
proof (rule step_keepsI)
  fix w r w'
  assume w: "I w" and b: "settlePostTurn C m w = (r, w')"
  obtain x w1 where m: "m w = (x, w1)" by (rule prod.exhaust)
  with b have "w' = w1" by (cases x) (auto simp: settlePostTurn_def split: if_splits)
  with step_keepsD [OF assms w m] show "I w'" by simp
qed

lemma keeps_throwIfAborted [keeps_intros]: "step_keeps I (throwIfAborted C)"
  by (simp add: step_keeps_def throwIfAborted_def)

lemma keeps_race [keeps_intros]: "host_keeps I op \<Longrightarrow> step_keeps I (raceWithAbort C op)"
  by (auto simp: step_keeps_def host_keeps_def raceWithAbort_def Let_def split: prod.splits outcome.splits)

lemma keeps_settled [keeps_intros]: "host_keeps I (settled v)"
  by (simp add: host_keeps_def settled_def)

lemma keeps_each [keeps_intros]: "(\<And>x. step_keeps I (f x)) \<Longrightarrow> step_keeps I (eachC f xs)"
  by (induction xs) (auto intro: keeps_intros)

section \<open>The tools of a run do not change\<close>

lemma add_message_tools [simp]: "ctx_tools (ls_context (add_message m st)) = ctx_tools (ls_context st)"
  by (simp add: add_message_def)

lemma add_messages_tools [simp]: "ctx_tools (ls_context (fold add_message ms st)) = ctx_tools (ls_context st)"
  by (induction ms arbitrary: st) simp_all

lemma inject_tools:
  "inject_pending C ms st w = (Inr st', w') \<Longrightarrow> ctx_tools (ls_context st') = ctx_tools (ls_context st)"
  by (induction ms arbitrary: st w) (fastforce simp: bindC_Inr)+

lemma start_turn_tools:
  "start_turn C st w = (Inr st', w') \<Longrightarrow> ctx_tools (ls_context st') = ctx_tools (ls_context st)"
  by (auto simp: start_turn_def bindC_Inr dest: inject_tools)

text \<open>\<open>nexts P m\<close>: a loop state that \<open>m\<close> goes on with satisfies \<open>P\<close>.\<close>

definition nexts :: "('x loop_state \<Rightarrow> bool) \<Rightarrow> ('x loop_world, 'x loop_next) step \<Rightarrow> bool" where
  "nexts P m \<longleftrightarrow> (\<forall>w st w'. m w = (Inr (Next st), w') \<longrightarrow> P st)"

named_theorems nexts_intros "steps that go on with a state of a given kind"

lemma nexts_bind [nexts_intros]: "(\<And>x. nexts P (f x)) \<Longrightarrow> nexts P (bindC m f)"
  by (auto simp: nexts_def bindC_Inr)

lemma nexts_end_run [nexts_intros]: "nexts P (end_run C st)"
  by (auto simp: nexts_def end_run_def bindC_Inr)

lemma nexts_return [nexts_intros]: "P st \<Longrightarrow> nexts P (returnC (Next st))"
  by (auto simp: nexts_def)

lemma nexts_if [nexts_intros]: "nexts P m \<Longrightarrow> nexts P n \<Longrightarrow> nexts P (if b then m else n)"
  by simp

lemma nexts_cond [nexts_intros]: "nexts P m \<Longrightarrow> nexts P n \<Longrightarrow> nexts P (\<lambda>w. if Q w then m w else n w)"
  by (auto simp: nexts_def)

lemma nexts_case [nexts_intros]:
  "nexts P m \<Longrightarrow> (\<And>v. nexts P (f v)) \<Longrightarrow> nexts P (case x of PostTurnAborted \<Rightarrow> m | Completed v \<Rightarrow> f v)"
  by (cases x) auto

abbreviation same_context :: "'x loop_state \<Rightarrow> 'x loop_state \<Rightarrow> bool" where
  "same_context st st' \<equiv> ls_context st' = ls_context st"

lemma poll_steering_nexts [nexts_intros]: "ls_context st = ctx \<Longrightarrow> nexts (\<lambda>st'. ls_context st' = ctx) (poll_steering C st)"
  unfolding poll_steering_def by (intro nexts_intros) simp

lemma after_turn_nexts: "nexts (same_context st) (after_turn C st am rs)"
  unfolding after_turn_def Let_def by (intro nexts_intros) simp

lemma after_turn_tools: "after_turn C st am rs w = (Inr (Next st'), w') \<Longrightarrow> ls_context st' = ls_context st"
  using after_turn_nexts [of st C am rs] unfolding nexts_def by blast

lemma after_response_tools:
  "after_response C st am w = (Inr (Next st'), w') \<Longrightarrow> ctx_tools (ls_context st') = ctx_tools (ls_context st)"
  using nexts_end_run [of "\<lambda>_. False" C st]
  by (auto simp: after_response_def bindC_Inr nexts_def split: if_splits dest!: after_turn_tools)

lemma poll_continuation_nexts [nexts_intros]: "ls_context st = ctx \<Longrightarrow> nexts (\<lambda>st'. ls_context st' = ctx) (poll_continuation C st)"
  unfolding poll_continuation_def by (intro nexts_intros) simp

lemma poll_idle_nexts: "nexts (same_context st) (poll_idle C st)"
  unfolding poll_idle_def by (intro nexts_intros) simp_all

lemma poll_idle_tools: "poll_idle C st w = (Inr (Next st'), w') \<Longrightarrow> ctx_tools (ls_context st') = ctx_tools (ls_context st)"
proof -
  assume "poll_idle C st w = (Inr (Next st'), w')"
  then have "ls_context st' = ls_context st" using poll_idle_nexts [of st C] unfolding nexts_def by blast
  then show ?thesis by simp
qed

lemma loop_step_tools:
  "loop_step C st w = Some (Inr (Next st'), w') \<Longrightarrow> ctx_tools (ls_context st') = ctx_tools (ls_context st)"
  by (auto simp: loop_step_def run_turn_def split: if_splits option.splits prod.splits sum.splits
      dest!: start_turn_tools after_response_tools poll_idle_tools)

section \<open>The contract\<close>

text \<open>The tools of the calls that still have to run.\<close>

fun task_tools :: "'x call_task \<Rightarrow> 'x agent_tool set" where
  "task_tools (Waiting p) = {pc_tool p}"
| "task_tools _ = {}"

locale loop_invariant =
  fixes C :: "'x loop_config" and I :: "'x loop_world \<Rightarrow> bool" and tools :: "'x agent_tool set"
  assumes emit_keeps: "step_keeps I (emit C ev)"
    and transform_keeps: "lc_transformContext C = Some f1 \<Longrightarrow> host_keeps I (f1 ms)"
    and convert_keeps: "host_keeps I (lc_convertToLlm C ms)"
    and key_keeps: "lc_getApiKey C = Some f2 \<Longrightarrow> host_keeps I (f2 p)"
    and stream_keeps: "host_keeps I (lc_stream C lx key)"
    and next_keeps: "host_keeps I (lc_next C)"
    and result_keeps: "host_keeps I (lc_result C)"
    and before_keeps: "lc_beforeToolCall C = Some f3 \<Longrightarrow> host_keeps I (f3 bc)"
    and after_keeps: "lc_afterToolCall C = Some f4 \<Longrightarrow> host_keeps I (f4 ac)"
    and stop_after_keeps: "lc_shouldStopAfterTurn C = Some f5 \<Longrightarrow> host_keeps I (f5 tn)"
    and stop_before_keeps: "lc_shouldStopBeforeTurn C = Some f6 \<Longrightarrow> host_keeps I f6"
    and steering_keeps: "lc_getSteeringMessages C = Some f7 \<Longrightarrow> host_keeps I f7"
    and follow_keeps: "lc_getFollowUpMessages C = Some f8 \<Longrightarrow> host_keeps I f8"
    and continue_keeps: "lc_getContinuationMessages C = Some f9 \<Longrightarrow> host_keeps I (f9 tn)"
    and updates_keeps: "t \<in> tools \<Longrightarrow> host_keeps I (at_updates t i a)"
    and finish_keeps: "t \<in> tools \<Longrightarrow> host_keeps I (at_finish t i a)"
begin

lemma keeps_poll:
  assumes "\<And>op. p = Some op \<Longrightarrow> host_keeps I op"
  shows "step_keeps I (pollMessagesUnlessAborted C p)"
proof (rule step_keepsI)
  fix w r w'
  assume w: "I w" "pollMessagesUnlessAborted C p w = (r, w')"
  show "I w'"
  proof (cases p)
    case (Some op)
    with w step_keepsD [OF keeps_race [OF assms [OF Some]]] show ?thesis
      by (auto simp: pollMessagesUnlessAborted_def split: if_splits)
  qed (use w in \<open>simp add: pollMessagesUnlessAborted_def\<close>)
qed

lemma keeps_stop: "step_keeps I (shouldStopBeforeTurn C st)"
proof (rule step_keepsI)
  fix w r w'
  assume w: "I w" "shouldStopBeforeTurn C st w = (r, w')"
  show "I w'"
  proof (cases "lc_shouldStopBeforeTurn C")
    case (Some f)
    from stop_before_keeps [OF this] w Some show ?thesis
      by (auto simp: shouldStopBeforeTurn_def host_keeps_def split: if_splits prod.splits)
  next
    case None
    with w show ?thesis by (cases "ls_firstTurn st") (simp_all add: shouldStopBeforeTurn_def)
  qed
qed

lemma keeps_announce: "step_keeps I (announce C m)"
  unfolding announce_def by (intro keeps_intros emit_keeps)

lemma keeps_end_run: "step_keeps I (end_run C st)"
  unfolding end_run_def by (intro keeps_intros emit_keeps)

subsection \<open>The response\<close>

lemma finish_stream_keeps: "I w \<Longrightarrow> finish_stream C m st w = (r, st', w') \<Longrightarrow> I w'"
proof -
  assume w: "I w" "finish_stream C m st w = (r, st', w')"
  have "step_keeps I (emit_final C (ss_added st) m)"
    unfolding emit_final_def by (intro keeps_intros emit_keeps)
  from step_keepsD [OF this w(1)] w(2) show ?thesis
    by (auto simp: finish_stream_def split: prod.splits sum.splits)
qed

lemma finish_terminal_keeps: "I w \<Longrightarrow> finish_terminal C m st w = (r, st', w') \<Longrightarrow> I w'"
proof -
  assume w: "I w" "finish_terminal C m st w = (r, st', w')"
  obtain r1 w1 where r1: "raceWithAbort C (lc_result C) w = (r1, w1)" by (rule prod.exhaust)
  note w1 = step_keepsD [OF keeps_race [OF result_keeps] w(1) r1]
  show ?thesis
  proof (cases r1)
    case (Inr m')
    with w(2) r1 finish_stream_keeps [OF w1] show ?thesis by (simp add: finish_terminal_def)
  next
    case (Inl e)
    with w(2) r1 w1 finish_stream_keeps [OF w1] show ?thesis
      by (cases "is_aborted C w1 \<and> isAbortError e") (auto simp: finish_terminal_def)
  qed
qed

lemma stream_loop_keeps:
  assumes "stream_loop C st w = Some res" "I w"
  shows "I (snd (snd res))"
proof -
  have "D = C \<longrightarrow> I w \<longrightarrow> I (snd (snd res))" if "stream_loop D st w = Some res" for D st w res
    using that
  proof (induction rule: stream_loop.raw_induct [rotated, consumes 1, case_names step])
    case (step f D st w res)
    show ?case
    proof (intro impI)
      assume D: "D = C" and w: "I w"
      have IH: "I w1 \<Longrightarrow> f C st1 w1 = Some res \<Longrightarrow> I (snd (snd res))" for st1 w1
        using step.IH D by blast
      note next_k = step_keepsD [OF keeps_race [OF next_keeps] w]
      note result_k = step_keepsD [OF keeps_race [OF result_keeps]]
      note emit_k = step_keepsD [OF emit_keeps]
      obtain r1 w1 where n: "raceWithAbort C (lc_next C) w = (r1, w1)" by (rule prod.exhaust)
      note w1 = next_k [OF n]
      show "I (snd (snd res))"
      proof (cases r1)
        case (Inl e)
        with step.hyps D n w1 show ?thesis by auto
      next
        case r1: (Inr oev)
        show ?thesis
        proof (cases oev)
          case None
          obtain r2 w2 where "raceWithAbort C (lc_result C) w1 = (r2, w2)" by (rule prod.exhaust)
          with step.hyps D n r1 None result_k [OF w1 this] finish_stream_keeps [of w2] show ?thesis
            by (cases r2) (auto simp: prod_eq_iff, metis prod.collapse)
        next
          case (Some ev)
          show ?thesis
          proof (cases ev)
            case (StreamStart m)
            obtain r2 w2 where e: "emit C (MessageStart (AssistantMessage m)) w1 = (r2, w2)" by (rule prod.exhaust)
            with step.hyps D n r1 Some StreamStart emit_k [OF w1 e] IH show ?thesis by (cases r2) auto
          next
            case (StreamUpdate k m)
            obtain r2 w2 where e: "emit C (MessageUpdate (AssistantMessage m) ev) w1 = (r2, w2)" by (rule prod.exhaust)
            with step.hyps D n r1 Some StreamUpdate emit_k [OF w1 e] IH w1 show ?thesis
              by (cases r2; cases "ss_partial st") auto
          next
            case (StreamDone m)
            with step.hyps D n r1 Some have "res = finish_terminal C m st w1" by simp
            with finish_terminal_keeps [OF w1] show ?thesis by (metis prod.collapse)
          next
            case (StreamError m)
            with step.hyps D n r1 Some have "res = finish_terminal C m st w1" by simp
            with finish_terminal_keeps [OF w1] show ?thesis by (metis prod.collapse)
          qed
        qed
      qed
    qed
  qed
  with assms show ?thesis by blast
qed

lemma open_stream_keeps: "step_keeps I (open_stream C ctx)"
proof -
  have lx: "step_keeps I (\<lambda>w. raceWithAbort C (lc_stream C (F w) k) w)" for F k
    by (rule step_keepsI) (rule step_keepsD [OF keeps_race [OF stream_keeps]])
  have "step_keeps I (case lc_transformContext C of None \<Rightarrow> returnC ms | Some f \<Rightarrow> raceWithAbort C (f ms))" for ms
    by (auto intro: keeps_intros transform_keeps split: option.split)
  moreover have "step_keeps I (case lc_getApiKey C of None \<Rightarrow> returnC None | Some f \<Rightarrow> raceWithAbort C (f p))" for p
    by (auto intro: keeps_intros key_keeps split: option.split)
  ultimately show ?thesis
    unfolding open_stream_def Let_def by (intro keeps_intros convert_keeps lx)
qed

lemma response_keeps:
  assumes "streamAssistantResponse C ctx w = Some (r, w')" "I w"
  shows "I w'"
proof -
  let ?st = "\<lparr>ss_partial = None, ss_added = False, ss_messages = ctx_messages ctx\<rparr>"
  obtain r0 w0 where o: "open_stream C ctx w = (r0, w0)" by (rule prod.exhaust)
  note w0 = step_keepsD [OF open_stream_keeps assms(2) o]
  obtain x st w1 where s: "(case r0 of Inl e \<Rightarrow> Some (Inl e, ?st, w0) | Inr _ \<Rightarrow> stream_loop C ?st w0) = Some (x, st, w1)"
    using assms(1) by (auto simp: streamAssistantResponse_def o Let_def split: option.splits sum.splits)
  have w1: "I w1"
  proof (cases r0)
    case (Inl e)
    with s w0 show ?thesis by simp
  next
    case (Inr u)
    with s have "stream_loop C ?st w0 = Some (x, st, w1)" by simp
    from stream_loop_keeps [OF this w0] show ?thesis by simp
  qed
  show ?thesis
  proof (cases x)
    case (Inr m)
    with assms(1) s w1 show ?thesis by (auto simp: streamAssistantResponse_def o Let_def)
  next
    case (Inl e)
    let ?m = "createAbortedAssistantMessage C (ss_partial st) (lc_now C (lw_host w1))"
    obtain r2 st2 w2 where f: "finish_stream C ?m st w1 = (r2, st2, w2)" by (rule prod_cases3)
    from assms(1) s Inl f w1 finish_stream_keeps [OF w1 f] show ?thesis
      by (cases r2) (auto simp: streamAssistantResponse_def o Let_def split: if_splits)
  qed
qed

subsection \<open>Tool calls\<close>

lemma prepare_keeps: "step_keeps I (prepareToolCall C ctx am tc)"
proof (rule step_keepsI)
  fix w p w'
  assume w: "I w" "prepareToolCall C ctx am tc w = (p, w')"
  show "I w'"
  proof (cases "find_tool ctx tc")
    case (Some tool)
    have "step_keeps I (try_prepare C ctx am tc tool)"
      unfolding try_prepare_def
      by (auto intro!: keeps_intros before_keeps split: sum.split option.split)
    moreover obtain r w1 where "try_prepare C ctx am tc tool w = (r, w1)" by (rule prod.exhaust)
    ultimately show ?thesis using step_keepsD w Some
      by (cases r) (auto simp: prepareToolCall_def)
  qed (use w in \<open>simp add: prepareToolCall_def\<close>)
qed

lemma publish_keeps: "step_keeps I (publish_updates C tc rs)"
proof (rule step_keepsI)
  show "I w \<Longrightarrow> publish_updates C tc rs w = (r, w') \<Longrightarrow> I w'" for w r w'
  proof (induction rs arbitrary: w r w')
    case (Cons x rs)
    show ?case
    proof (cases "is_aborted C w")
      case True
      with Cons show ?thesis by simp
    next
      case False
      obtain e w1 where e: "emit C (ToolExecutionUpdate (tc_id tc) (tc_name tc) (tc_arguments tc) x) w = (e, w1)"
        by (rule prod.exhaust)
      obtain e2 w2 where u: "publish_updates C tc rs w1 = (e2, w2)" by (rule prod.exhaust)
      from Cons.IH [OF step_keepsD [OF emit_keeps Cons.prems(1) e] u] Cons.prems(2) False e u
      show ?thesis by (cases e) auto
    qed
  qed simp
qed

lemma execute_keeps:
  assumes "pc_tool p \<in> tools"
  shows "step_keeps I (executePreparedToolCall C p)"
proof (rule step_keepsI)
  fix w r w'
  assume w: "I w" "executePreparedToolCall C p w = (r, w')"
  show "I w'"
  proof (cases "is_aborted C w")
    case True
    with w show ?thesis by (simp add: executePreparedToolCall_def failed_call_def)
  next
    case False
    let ?tc = "pc_toolCall p"
    obtain ups x where u: "at_updates (pc_tool p) (tc_id ?tc) (pc_args p) (lw_host w) = (ups, x)" by (rule prod.exhaust)
    obtain failed w1 where f: "publish_updates C ?tc ups (w\<lparr>lw_host := x\<rparr>) = (failed, w1)" by (rule prod.exhaust)
    obtain out w2 where o: "raceWithAbort C (at_finish (pc_tool p) (tc_id ?tc) (pc_args p)) w1 = (out, w2)" by (rule prod.exhaust)
    have "I (w\<lparr>lw_host := x\<rparr>)" using updates_keeps [OF assms] u w(1) by (metis host_keeps_def snd_conv)
    from step_keepsD [OF publish_keeps this f] have "I w1" .
    from step_keepsD [OF keeps_race [OF finish_keeps [OF assms]] this o] have "I w2" .
    moreover have "w' = w2" using w(2) False u f o
      by (auto simp: executePreparedToolCall_def failed_call_def Let_def split: sum.splits if_splits option.splits)
    ultimately show ?thesis by simp
  qed
qed

lemma finalize_keeps: "step_keeps I (finalizeExecutedToolCall C ctx am p ex)"
proof (rule step_keepsI)
  fix w r w'
  assume w: "I w" "finalizeExecutedToolCall C ctx am p ex w = (r, w')"
  show "I w'"
  proof (cases "lc_afterToolCall C")
    case (Some hook)
    let ?ctx = "\<lparr>bc_assistantMessage = am, bc_toolCall = pc_toolCall p, bc_args = pc_args p,
                 bc_context = ctx, ac_result = ec_result ex, ac_isError = ec_isError ex\<rparr>"
    obtain out w1 where o: "raceWithAbort C (hook ?ctx) w = (out, w1)" by (rule prod.exhaust)
    from step_keepsD [OF keeps_race [OF after_keeps [OF Some]] w(1) o] w(2) o Some show ?thesis
      by (auto simp: finalizeExecutedToolCall_def split: sum.splits option.splits)
  qed (use w in \<open>simp add: finalizeExecutedToolCall_def\<close>)
qed

lemma prepared_tool:
  "prepareToolCall C ctx am tc w = (Prepared p, w') \<Longrightarrow> set (ctx_tools ctx) \<subseteq> tools \<Longrightarrow> pc_tool p \<in> tools"
  by (auto simp: prepareToolCall_def try_prepare_def find_tool_def bindC_def find_Some_iff
      split: option.splits prod.splits sum.splits if_splits)

lemma emit_end_keeps: "step_keeps I (emitToolExecutionEnd C f)"
  unfolding emitToolExecutionEnd_def by (rule emit_keeps)

lemma emit_start_keeps: "step_keeps I (emitToolExecutionStart C tc)"
  unfolding emitToolExecutionStart_def by (rule emit_keeps)

lemma emit_result_keeps: "step_keeps I (emitToolResultMessage C f)"
proof (rule step_keepsI)
  fix w w' :: "'x loop_world" and r
  let ?m = "createToolResultMessage f (lc_now C (lw_host w))"
  have "step_keeps I (bindC (emit C (MessageStart (ToolResultMessage ?m))) (\<lambda>_.
        bindC (emit C (MessageEnd (ToolResultMessage ?m))) (\<lambda>_. returnC ?m)))"
    by (intro keeps_intros emit_keeps)
  from step_keepsD [OF this] show "I w \<Longrightarrow> emitToolResultMessage C f w = (r, w') \<Longrightarrow> I w'"
    by (simp add: emitToolResultMessage_def Let_def)
qed

lemma sequential_keeps:
  assumes "set (ctx_tools ctx) \<subseteq> tools"
  shows "I w \<Longrightarrow> sequential_calls C ctx am tcs fs ms w = (r, w') \<Longrightarrow> I w'"
proof (induction tcs arbitrary: fs ms w)
  case (Cons tc tcs)
  show ?case
  proof (cases "is_aborted C w")
    case False
    obtain r1 w1 where s: "emitToolExecutionStart C tc w = (r1, w1)" by (rule prod.exhaust)
    note w1 = step_keepsD [OF emit_start_keeps Cons.prems(1) s]
    show ?thesis
    proof (cases r1)
      case (Inl e)
      with Cons.prems False s w1 show ?thesis by simp
    next
      case (Inr u)
      obtain p w2 where p: "prepareToolCall C ctx am tc w1 = (p, w2)" by (rule prod.exhaust)
      note w2 = step_keepsD [OF prepare_keeps w1 p]
      obtain f w3 where f: "(case p of Immediate r er \<Rightarrow> (\<lparr>fc_toolCall = tc, fc_result = r, fc_isError = er\<rparr>, w2)
          | Prepared p \<Rightarrow> let (ex, w3) = executePreparedToolCall C p w2 in finalizeExecutedToolCall C ctx am p ex w3) = (f, w3)"
        by (rule prod.exhaust)
      have w3: "I w3"
      proof (cases p)
        case (Immediate r er)
        with f w2 show ?thesis by simp
      next
        case (Prepared pc)
        obtain ex w4 where e: "executePreparedToolCall C pc w2 = (ex, w4)" by (rule prod.exhaust)
        have "pc_tool pc \<in> tools" using p Prepared assms by (auto intro: prepared_tool)
        from step_keepsD [OF execute_keeps [OF this] w2 e] have "I w4" .
        moreover have "finalizeExecutedToolCall C ctx am pc ex w4 = (f, w3)" using f Prepared e by simp
        ultimately show ?thesis by (rule step_keepsD [OF finalize_keeps])
      qed
      obtain m w5 where b: "bindC (emitToolExecutionEnd C f) (\<lambda>_. emitToolResultMessage C f) w3 = (m, w5)" by (rule prod.exhaust)
      have "step_keeps I (bindC (emitToolExecutionEnd C f) (\<lambda>_. emitToolResultMessage C f))"
        by (intro keeps_intros emit_end_keeps emit_result_keeps)
      from step_keepsD [OF this w3 b] have w5: "I w5" .
      have eq: "sequential_calls C ctx am (tc # tcs) fs ms w = (case m of Inl e \<Rightarrow> (Inl e, w5)
          | Inr m \<Rightarrow> sequential_calls C ctx am tcs (fs @ [f]) (ms @ [m]) w5)"
        using False s Inr p f b by (cases p) (simp_all add: Let_def)
      show ?thesis using Cons.IH [OF w5] Cons.prems(2) w5 unfolding eq by (cases m) auto
    qed
  qed (use Cons.prems in simp)
qed simp

lemma prepare_calls_keeps:
  assumes "set (ctx_tools ctx) \<subseteq> tools"
  shows "I w \<Longrightarrow> \<forall>t\<in>set ts. task_tools t \<subseteq> tools \<Longrightarrow> prepare_calls C ctx am tcs ts w = (r, w')
    \<Longrightarrow> I w' \<and> (\<forall>us. r = Inr us \<longrightarrow> (\<forall>t\<in>set us. task_tools t \<subseteq> tools))"
proof (induction tcs arbitrary: ts w)
  case (Cons tc tcs)
  obtain r1 w1 where s: "emitToolExecutionStart C tc w = (r1, w1)" by (rule prod.exhaust)
  note w1 = step_keepsD [OF emit_start_keeps Cons.prems(1) s]
  show ?case
  proof (cases r1)
    case (Inl e)
    with Cons.prems s w1 show ?thesis by auto
  next
    case (Inr u)
    obtain p w2 where p: "prepareToolCall C ctx am tc w1 = (p, w2)" by (rule prod.exhaust)
    note w2 = step_keepsD [OF prepare_keeps w1 p]
    show ?thesis
    proof (cases p)
      case (Prepared pc)
      have "pc_tool pc \<in> tools" using p Prepared assms by (auto intro: prepared_tool)
      then have "\<forall>t\<in>set (ts @ [Waiting pc]). task_tools t \<subseteq> tools" using Cons.prems(2) by auto
      moreover have "prepare_calls C ctx am tcs (ts @ [Waiting pc]) w2 = (r, w')"
        using Cons.prems(3) s Inr p Prepared by simp
      ultimately show ?thesis using Cons.IH [OF w2] by blast
    next
      case (Immediate res er)
      let ?f = "\<lparr>fc_toolCall = tc, fc_result = res, fc_isError = er\<rparr>"
      obtain r3 w3 where e: "emitToolExecutionEnd C ?f w2 = (r3, w3)" by (rule prod.exhaust)
      note w3 = step_keepsD [OF emit_end_keeps w2 e]
      show ?thesis
      proof (cases r3)
        case (Inl x)
        with Cons.prems(3) s Inr p Immediate e w3 show ?thesis by auto
      next
        case (Inr v)
        have "\<forall>t\<in>set (ts @ [Ended ?f]). task_tools t \<subseteq> tools" using Cons.prems(2) by auto
        moreover have "prepare_calls C ctx am tcs (ts @ [Ended ?f]) w3 = (r, w')"
          using Cons.prems(3) s \<open>r1 = Inr u\<close> p Immediate e Inr by simp
        ultimately show ?thesis using Cons.IH [OF w3] by blast
      qed
    qed
  qed
qed auto

lemma advance_keeps:
  assumes "I w" "task_tools t \<subseteq> tools" "advance C ctx am t w = (r, w')"
  shows "I w' \<and> (\<forall>u. r = Inr u \<longrightarrow> task_tools u \<subseteq> tools)"
proof (cases t)
  case (Waiting p)
  with assms(2) have "pc_tool p \<in> tools" by simp
  from step_keepsD [OF execute_keeps [OF this] assms(1)] assms(3) Waiting show ?thesis
    by (auto split: prod.splits)
next
  case (Executed p ex)
  from step_keepsD [OF finalize_keeps assms(1)] assms(3) Executed show ?thesis
    by (auto split: prod.splits)
next
  case (Hooked f)
  from step_keepsD [OF emit_end_keeps assms(1)] assms(3) Hooked show ?thesis
    by (auto split: prod.splits sum.splits)
next
  case (Ended f)
  with assms show ?thesis by auto
qed

lemma run_tasks_keeps:
  assumes "I w" "\<forall>t\<in>set ts. task_tools t \<subseteq> tools" "run_tasks C ctx am ts w = (r, w')"
  shows "I w'"
proof -
  have "D = C \<Longrightarrow> I w \<Longrightarrow> \<forall>t\<in>set ts. task_tools t \<subseteq> tools \<Longrightarrow> run_tasks D ctx am ts w = (r, w') \<Longrightarrow> I w'" for D ctx am ts w
  proof (induction D ctx am ts w rule: run_tasks.induct)
    case (1 D ctx am ts w)
    show ?case
    proof (cases "unfinished ts = []")
      case True
      with 1 show ?thesis by (simp add: run_tasks.simps)
    next
      case False
      note D = "1.prems"(1)
      let ?i = "pick_task D ts w"
      obtain r1 w1 where a: "advance D ctx am (ts ! ?i) w = (r1, w1)" by (rule prod.exhaust)
      have "task_tools (ts ! ?i) \<subseteq> tools" using "1.prems"(3) pick_task_less(1) [OF False, of D w] by auto
      moreover have "advance C ctx am (ts ! ?i) w = (r1, w1)" using a D by simp
      ultimately have k: "I w1 \<and> (\<forall>u. r1 = Inr u \<longrightarrow> task_tools u \<subseteq> tools)"
        by (rule advance_keeps [OF "1.prems"(2)])
      have eq: "run_tasks D ctx am ts w = (case r1 of Inl e \<Rightarrow> (Inl e, w1) | Inr t \<Rightarrow> run_tasks D ctx am (ts[?i := t]) w1)"
        using False a by (subst run_tasks.simps) simp
      show ?thesis
      proof (cases r1)
        case (Inl e)
        with "1.prems"(4) k show ?thesis unfolding eq by simp
      next
        case (Inr t)
        have "\<forall>u\<in>set (ts[?i := t]). task_tools u \<subseteq> tools"
          using "1.prems"(3) k Inr set_update_subset_insert [of ts ?i t] by blast
        moreover have "run_tasks D ctx am (ts[?i := t]) w1 = (r, w')" using "1.prems"(4) Inr unfolding eq by simp
        ultimately show ?thesis using "1.IH" [OF False a [symmetric] Inr D] k by blast
      qed
    qed
  qed
  with assms show ?thesis by blast
qed

lemma emit_results_keeps: "step_keeps I (emit_results C fs)"
  by (induction fs) (auto intro!: keeps_intros emit_result_keeps)

lemma execute_calls_keeps:
  assumes "set (ctx_tools ctx) \<subseteq> tools"
  shows "step_keeps I (executeToolCalls C ctx am)"
proof (rule step_keepsI)
  fix w r w'
  assume w: "I w" "executeToolCalls C ctx am w = (r, w')"
  let ?tcs = "tool_calls_of (am_content am)"
  show "I w'"
  proof (cases "lc_toolExecution C = Sequential \<or> has_sequential_call ctx ?tcs")
    case True
    with w sequential_keeps [OF assms w(1)] show ?thesis
      by (simp add: executeToolCalls_def executeToolCallsSequential_def Let_def)
  next
    case False
    obtain r1 w1 where p: "prepare_calls C ctx am ?tcs [] w = (r1, w1)" by (rule prod.exhaust)
    from prepare_calls_keeps [OF assms w(1) _ p] have k: "I w1" "r1 = Inr us \<Longrightarrow> \<forall>t\<in>set us. task_tools t \<subseteq> tools" for us
      by auto
    have par: "executeToolCallsParallel C ctx am ?tcs w = (r, w')" using w(2) False by (simp add: executeToolCalls_def Let_def)
    show ?thesis
    proof (cases r1)
      case (Inl e)
      with par p k show ?thesis by (simp add: executeToolCallsParallel_def bindC_def)
    next
      case (Inr us)
      obtain r2 w2 where t: "run_tasks C ctx am us w1 = (r2, w2)" by (rule prod.exhaust)
      note w2 = run_tasks_keeps [OF k(1) k(2) [OF Inr] t]
      show ?thesis
      proof (cases r2)
        case (Inl e)
        with par p Inr t w2 show ?thesis by (simp add: executeToolCallsParallel_def bindC_def)
      next
        case fin: (Inr vs)
        let ?fs = "concat (map ended_call vs)"
        have b: "bindC (emit_results C ?fs) (\<lambda>ms. returnC \<lparr>eb_messages = ms, eb_terminate = shouldTerminateToolBatch ?fs\<rparr>) w2 = (r, w')"
          using par p Inr t fin by (simp add: executeToolCallsParallel_def bindC_def [of "prepare_calls C ctx am ?tcs []"]
              bindC_def [of "run_tasks C ctx am us"] Let_def)
        have k2: "step_keeps I (bindC (emit_results C ?fs) (\<lambda>ms. returnC \<lparr>eb_messages = ms, eb_terminate = shouldTerminateToolBatch ?fs\<rparr>))"
          by (intro keeps_intros emit_results_keeps)
        from step_keepsD [OF k2 w2 b] show ?thesis .
      qed
    qed
  qed
qed

subsection \<open>The run\<close>

lemma inject_keeps: "step_keeps I (inject_pending C ms st)"
  by (induction ms arbitrary: st) (auto intro!: keeps_intros keeps_announce)

lemma start_turn_keeps: "step_keeps I (start_turn C st)"
  unfolding start_turn_def by (intro keeps_intros emit_keeps inject_keeps)

lemma poll_steering_keeps: "step_keeps I (poll_steering C st)"
proof -
  have "step_keeps I (case polled of PostTurnAborted \<Rightarrow> end_run C st
       | Completed ms \<Rightarrow> bindC (if ms = [] then shouldStopBeforeTurn C st else returnC False) (\<lambda>b.
           if b then end_run C st else returnC (Next (st\<lparr>ls_pending := ms\<rparr>))))" for polled
    by (cases polled) (auto intro!: keeps_intros keeps_end_run keeps_stop)
  then show ?thesis unfolding poll_steering_def
    by (intro keeps_intros keeps_poll steering_keeps)
qed

lemma after_turn_keeps: "step_keeps I (after_turn C st am rs)"
proof -
  have "host_keeps I (case lc_shouldStopAfterTurn C of None \<Rightarrow> settled False | Some f \<Rightarrow> f turn)" for turn
    by (auto intro: keeps_settled stop_after_keeps split: option.split)
  then show ?thesis unfolding after_turn_def Let_def
    by (intro keeps_cond keeps_end_run)
      (auto intro!: keeps_intros keeps_end_run keeps_stop poll_steering_keeps split: post_turn_result.split)
qed

lemma after_response_keeps:
  assumes "set (ctx_tools (ls_context st)) \<subseteq> tools"
  shows "step_keeps I (after_response C st am)"
  unfolding after_response_def
  by (auto intro!: keeps_intros emit_keeps keeps_end_run after_turn_keeps execute_calls_keeps [OF assms] split: prod.split)

lemma poll_continuation_keeps: "step_keeps I (poll_continuation C st)"
proof -
  have "host_keeps I (case lc_getContinuationMessages C of None \<Rightarrow> settled [] | Some f \<Rightarrow> f turn)" for turn
    by (auto intro: keeps_settled continue_keeps split: option.split)
  then show ?thesis unfolding poll_continuation_def
    by (auto intro!: keeps_intros keeps_end_run split: option.split post_turn_result.split)
qed

lemma poll_idle_keeps: "step_keeps I (poll_idle C st)"
  unfolding poll_idle_def
  by (auto intro!: keeps_intros keeps_end_run keeps_stop keeps_poll follow_keeps poll_continuation_keeps
      split: post_turn_result.split)

lemma run_turn_keeps:
  assumes "run_turn C st w = Some (r, w')" "I w" "set (ctx_tools (ls_context st)) \<subseteq> tools"
  shows "I w'"
proof -
  obtain r1 w1 where s: "start_turn C st w = (r1, w1)" by (rule prod.exhaust)
  note w1 = step_keepsD [OF start_turn_keeps assms(2) s]
  show ?thesis
  proof (cases r1)
    case (Inl e)
    with assms(1) s w1 show ?thesis by (simp add: run_turn_def)
  next
    case (Inr st1)
    have tools1: "ctx_tools (ls_context st1) = ctx_tools (ls_context st)"
      using start_turn_tools s Inr by blast
    obtain r2 w2 where p: "streamAssistantResponse C (ls_context st1) w1 = Some (r2, w2)"
      using assms(1) s Inr by (auto simp: run_turn_def split: option.splits)
    note w2 = response_keeps [OF p w1]
    show ?thesis
    proof (cases r2)
      case (Inl e)
      with assms(1) s Inr p w2 show ?thesis by (simp add: run_turn_def)
    next
      case r2: (Inr q)
      obtain am msgs where q: "q = (am, msgs)" by (rule prod.exhaust)
      let ?st = "st1\<lparr>ls_context := (ls_context st1)\<lparr>ctx_messages := msgs\<rparr>, ls_new := ls_new st1 @ [AssistantMessage am]\<rparr>"
      have "after_response C ?st am w2 = (r, w')" using assms(1) s Inr p r2 q by (simp add: run_turn_def)
      moreover have "set (ctx_tools (ls_context ?st)) \<subseteq> tools" using assms(3) tools1 by simp
      ultimately show ?thesis using step_keepsD [OF after_response_keeps w2] by blast
    qed
  qed
qed

lemma loop_step_keeps:
  assumes "loop_step C st w = Some (r, w')" "I w" "set (ctx_tools (ls_context st)) \<subseteq> tools"
  shows "I w'"
proof (cases "ls_hasMoreToolCalls st \<or> ls_pending st \<noteq> []")
  case True
  with assms run_turn_keeps show ?thesis by (simp add: loop_step_def)
next
  case False
  with assms step_keepsD [OF poll_idle_keeps assms(2)] show ?thesis by (simp add: loop_step_def)
qed

lemma run_loop_keeps:
  assumes "run_loop C st w = Some res" "I w" "set (ctx_tools (ls_context st)) \<subseteq> tools"
  shows "I (snd res)"
proof -
  have "D = C \<longrightarrow> I w \<longrightarrow> set (ctx_tools (ls_context st)) \<subseteq> tools \<longrightarrow> I (snd res)" if "run_loop D st w = Some res" for D st w
    using that
  proof (induction rule: run_loop.raw_induct [rotated, consumes 1, case_names step])
    case (step f D st w res)
    show ?case
    proof (intro impI)
      assume D: "D = C" and w: "I w" and t: "set (ctx_tools (ls_context st)) \<subseteq> tools"
      from step.hyps D obtain r w1 where l: "loop_step C st w = Some (r, w1)" by (auto split: option.splits)
      note w1 = loop_step_keeps [OF l w t]
      show "I (snd res)"
      proof (cases r)
        case (Inl e)
        with step.hyps D l w1 show ?thesis by auto
      next
        case (Inr n)
        show ?thesis
        proof (cases n)
          case (Return ms)
          with step.hyps D l w1 Inr show ?thesis by auto
        next
          case (Next st1)
          have "f C st1 w1 = Some res" using step.hyps D l Inr Next by simp
          moreover have "set (ctx_tools (ls_context st1)) \<subseteq> tools" using loop_step_tools l Inr Next t by metis
          ultimately show ?thesis using step.IH D w1 by blast
        qed
      qed
    qed
  qed
  with assms show ?thesis by blast
qed

lemma runLoop_keeps:
  assumes "runLoop C ctx new w = Some (r, w')" "I w" "set (ctx_tools ctx) \<subseteq> tools"
  shows "I w'"
proof -
  obtain q w1 where p: "pollMessagesUnlessAborted C (lc_getSteeringMessages C) w = (q, w1)" by (rule prod.exhaust)
  have "step_keeps I (pollMessagesUnlessAborted C (lc_getSteeringMessages C))" by (intro keeps_poll steering_keeps)
  note w1 = step_keepsD [OF this assms(2) p]
  show ?thesis
  proof (cases q)
    case (Inl e)
    with assms(1) p w1 show ?thesis by (simp add: runLoop_def)
  next
    case (Inr ms)
    let ?st = "\<lparr>ls_context = ctx, ls_new = new, ls_firstTurn = True, ls_lastTurn = None, ls_pending = ms, ls_hasMoreToolCalls = True\<rparr>"
    have "run_loop C ?st w1 = Some (r, w')" using assms(1) p Inr by (simp add: runLoop_def)
    from run_loop_keeps [OF this w1] assms(3) show ?thesis by simp
  qed
qed

lemma runAgentLoop_keeps:
  assumes "runAgentLoop C prompts ctx w = Some (r, w')" "I w" "set (ctx_tools ctx) \<subseteq> tools"
  shows "I w'"
proof -
  let ?m = "bindC (emit C AgentStart) (\<lambda>_. bindC (emit C TurnStart) (\<lambda>_. eachC (announce C) prompts))"
  obtain q w1 where p: "?m w = (q, w1)" by (rule prod.exhaust)
  have k: "step_keeps I ?m" by (intro keeps_intros emit_keeps keeps_announce)
  note w1 = step_keepsD [OF k assms(2) p]
  show ?thesis
  proof (cases q)
    case (Inl e)
    with assms(1) p w1 show ?thesis by (simp add: runAgentLoop_def)
  next
    case (Inr u)
    with assms(1) p have "runLoop C (ctx\<lparr>ctx_messages := ctx_messages ctx @ prompts\<rparr>) prompts w1 = Some (r, w')"
      by (simp add: runAgentLoop_def)
    from runLoop_keeps [OF this w1] assms(3) show ?thesis by simp
  qed
qed

lemma runAgentLoopContinue_keeps:
  assumes "runAgentLoopContinue C ctx w = Some (r, w')" "I w" "set (ctx_tools ctx) \<subseteq> tools"
  shows "I w'"
proof (cases "continue_guard ctx")
  case (Some e)
  with assms show ?thesis by (simp add: runAgentLoopContinue_def)
next
  case None
  let ?m = "bindC (emit C AgentStart) (\<lambda>_. emit C TurnStart)"
  obtain q w1 where p: "?m w = (q, w1)" by (rule prod.exhaust)
  have k: "step_keeps I ?m" by (intro keeps_intros emit_keeps)
  note w1 = step_keepsD [OF k assms(2) p]
  show ?thesis
  proof (cases q)
    case (Inl e)
    with assms(1) None p w1 show ?thesis by (simp add: runAgentLoopContinue_def)
  next
    case (Inr u)
    with assms(1) None p have "runLoop C ctx [] w1 = Some (r, w')" by (simp add: runAgentLoopContinue_def)
    from runLoop_keeps [OF this w1 assms(3)] show ?thesis .
  qed
qed

end

end
