(* ===== verification/Agent_Props.thy ===== *)
theory Agent_Props
  imports Agent Agent_Loop_Examples Loop_Invariant
begin

text \<open>
  What the \<open>Agent\<close> class promises around a run. Its state is the reduction of the events of the run:
  the class provides the calls of the agent loop (\<open>loop_invariant\<close>), and nothing but \<open>processEvents\<close>
  touches the transcript while a run is active. Whatever a run does, the agent is idle afterwards.
\<close>

section \<open>Commands and calls\<close>

definition queues_ok :: "agent \<Rightarrow> bool" where
  "queues_ok a \<longleftrightarrow> queue_invar (ag_steeringQueue a) \<and> queue_invar (ag_followUpQueue a)"

lemmas agent_ops = steer_def followUp_def clearSteeringQueue_def clearFollowUpQueue_def removeQueuedMessages_def
  set_steeringMode_def set_followUpMode_def abort_def

lemma removeWhere_invar: "queue_invar q \<Longrightarrow> queue_invar (snd (removeWhere P q))"
  by (auto simp: removeWhere_def queue_invar_def)

lemma clear_invar [simp]: "queue_invar (clear q)"
  by (simp add: clear_def queue_invar_def)

lemma exec_frame:
  "ag_state (exec_command c a) = ag_state a"
  "ag_activeRun (exec_command c a) = None \<longleftrightarrow> ag_activeRun a = None"
  "ag_activeRun a = Some True \<Longrightarrow> ag_activeRun (exec_command c a) = Some True"
  "queues_ok a \<Longrightarrow> queues_ok (exec_command c a)"
proof -
  show "ag_state (exec_command c a) = ag_state a" by (cases c) (auto simp: agent_ops split: prod.split)
  show "ag_activeRun (exec_command c a) = None \<longleftrightarrow> ag_activeRun a = None"
    by (cases c) (auto simp: agent_ops split: prod.split)
  show "ag_activeRun a = Some True \<Longrightarrow> ag_activeRun (exec_command c a) = Some True"
    by (cases c) (auto simp: agent_ops split: prod.split)
  show "queues_ok a \<Longrightarrow> queues_ok (exec_command c a)"
    by (cases c) (auto simp: agent_ops queues_ok_def case_prod_unfold Let_def pq.put_invar pq.conf_invar removeWhere_invar)
qed

text \<open>\<open>commanded a b\<close>: commands lead from the agent \<open>a\<close> to \<open>b\<close>.\<close>

definition commanded :: "agent \<Rightarrow> agent \<Rightarrow> bool" where
  "commanded a b \<longleftrightarrow> (\<exists>cmds. b = fold exec_command cmds a)"

lemma commanded_refl [simp]: "commanded a a"
  unfolding commanded_def by (rule exI [of _ "[]"]) simp

lemma commanded_trans: "commanded a b \<Longrightarrow> commanded b c \<Longrightarrow> commanded a c"
  unfolding commanded_def by (metis fold_append comp_apply)

lemma fold_exec_frame:
  "ag_state (fold exec_command cmds a) = ag_state a"
  "ag_activeRun (fold exec_command cmds a) = None \<longleftrightarrow> ag_activeRun a = None"
  "ag_activeRun a = Some True \<Longrightarrow> ag_activeRun (fold exec_command cmds a) = Some True"
  "queues_ok a \<Longrightarrow> queues_ok (fold exec_command cmds a)"
  by (induction cmds arbitrary: a) (simp_all add: exec_frame)

lemma commanded_frame:
  assumes "commanded a b"
  shows "ag_state b = ag_state a" "ag_activeRun b = None \<longleftrightarrow> ag_activeRun a = None"
    "ag_activeRun a = Some True \<Longrightarrow> ag_activeRun b = Some True" "queues_ok a \<Longrightarrow> queues_ok b"
  using assms unfolding commanded_def by (auto simp: fold_exec_frame)

lemma lift_commanded: "lift_call f W = (r, W') \<Longrightarrow> commanded (aw_agent W) (aw_agent W')"
  by (auto simp: lift_call_def commanded_def case_prod_unfold Let_def)

lemma listeners_commanded: "run_listeners ls ev W = (r, W') \<Longrightarrow> commanded (aw_agent W) (aw_agent W')"
proof (induction ls arbitrary: W)
  case (Cons l ls)
  obtain q W1 where l: "lift_call (l ev (signal_aborted W)) W = (q, W1)" by (rule prod.exhaust)
  note c = lift_commanded [OF l]
  show ?case
  proof (cases q)
    case (Some e)
    with Cons.prems l c show ?thesis by simp
  next
    case None
    with Cons.prems l have "run_listeners ls ev W1 = (r, W')" by simp
    from commanded_trans [OF c Cons.IH [OF this]] show ?thesis .
  qed
qed simp

lemma map_state_agent [simp]: "aw_agent (map_state f W) = (aw_agent W)\<lparr>ag_state := f (ag_state (aw_agent W))\<rparr>"
  by (simp add: map_state_def)

lemma processEvents_commanded:
  "processEvents E ev W = (r, W') \<Longrightarrow>
     commanded ((aw_agent W)\<lparr>ag_state := reduce_event ev (ag_state (aw_agent W))\<rparr>) (aw_agent W')"
  by (auto simp: processEvents_def Let_def split: if_splits dest!: listeners_commanded)

lemma processEvents_frame:
  assumes "processEvents E ev W = (r, W')"
  shows "ag_state (aw_agent W') = reduce_event ev (ag_state (aw_agent W))"
    "ag_activeRun (aw_agent W') = None \<longleftrightarrow> ag_activeRun (aw_agent W) = None"
    "queues_ok (aw_agent W) \<Longrightarrow> queues_ok (aw_agent W')"
  using commanded_frame [OF processEvents_commanded [OF assms]] by (simp_all add: queues_ok_def)

section \<open>The state is the reduction of the events\<close>

definition agent_invariant :: "agent_state \<Rightarrow> 'y agent_world loop_world \<Rightarrow> bool" where
  "agent_invariant s0 w \<longleftrightarrow> ag_state (aw_agent (lw_host w)) = fold reduce_event (lw_log w) s0
     \<and> ag_activeRun (aw_agent (lw_host w)) \<noteq> None \<and> queues_ok (aw_agent (lw_host w))"

lemma commanded_keeps:
  fixes op :: "'y agent_world \<Rightarrow> 'r \<times> 'y agent_world"
  assumes "\<And>x r x'. op x = (r, x') \<Longrightarrow> commanded (aw_agent x) (aw_agent x')"
  shows "host_keeps (agent_invariant s0) op"
  unfolding host_keeps_def
proof (intro allI impI)
  fix w :: "'y agent_world loop_world" assume w: "agent_invariant s0 w"
  have "commanded (aw_agent (lw_host w)) (aw_agent (snd (op (lw_host w))))" by (rule assms) (rule prod.collapse [symmetric])
  from commanded_frame [OF this] w show "agent_invariant s0 (w\<lparr>lw_host := snd (op (lw_host w))\<rparr>)"
    by (simp add: agent_invariant_def)
qed

lemma lift_keeps: "host_keeps (agent_invariant s0) (lift_call f)"
  by (rule commanded_keeps) (rule lift_commanded)

lemma settled_keeps: "host_keeps (agent_invariant s0) (settled v)"
  by (rule commanded_keeps) (simp add: settled_def)

lemma stop_before_keeps_agent:
  "host_keeps (agent_invariant s0) (\<lambda>W. case h of None \<Rightarrow> (False, W) | Some f \<Rightarrow> lift_call f W)"
  by (cases h) (simp_all add: lift_keeps, simp add: host_keeps_def)

lemma drain_steering_keeps: "host_keeps (agent_invariant s0) drain_steering"
  by (auto simp: host_keeps_def agent_invariant_def drain_steering_def queues_ok_def case_prod_unfold Let_def
      intro: pq.get_invar)

lemma drain_followUp_keeps: "host_keeps (agent_invariant s0) drain_followUp"
  by (auto simp: host_keeps_def agent_invariant_def drain_followUp_def queues_ok_def case_prod_unfold Let_def
      intro: pq.get_invar)

lemma emit_keeps_agent: "step_keeps (agent_invariant s0) (emit (createLoopConfig E a) ev)"
proof (rule step_keepsI)
  fix w r w'
  assume w: "agent_invariant s0 w" and e: "emit (createLoopConfig E a) ev w = (r, w')"
  obtain q W' where p: "processEvents E ev (lw_host w) = (q, W')" by (rule prod.exhaust)
  with e have "lw_host w' = W'" "lw_log w' = lw_log w @ [ev]"
    by (auto simp: emit_def createLoopConfig_def Let_def split: option.splits)
  with w processEvents_frame [OF p] show "agent_invariant s0 w'" by (simp add: agent_invariant_def)
qed

interpretation run: loop_invariant "createLoopConfig E a" "agent_invariant s0" "range (lift_tool E)"
  for E :: "'y agent_env" and a s0
proof unfold_locales
  show "step_keeps (agent_invariant s0) (emit (createLoopConfig E a) ev)" for ev by (rule emit_keeps_agent)
qed (auto simp: createLoopConfig_def lift_tool_def lift_keeps drain_steering_keeps drain_followUp_keeps settled_keeps
    stop_before_keeps_agent     split: option.split)

lemma reduced_messages: "st_messages (fold reduce_event evs s) = st_messages s @ message_ends evs"
proof (induction evs arbitrary: s)
  case (Cons ev evs)
  have "st_messages (reduce_event ev s) = st_messages s @ message_ends [ev]"
    by (cases ev) (auto split: agent_message.split)
  moreover have "message_ends (ev # evs) = message_ends [ev] @ message_ends evs"
    using message_ends_append [of "[ev]" evs] by simp
  ultimately show ?case using Cons.IH [of "reduce_event ev s"] by simp
qed simp

lemma snapshot_tools: "set (ctx_tools (createContextSnapshot E W)) \<subseteq> range (lift_tool E)"
  by (auto simp: createContextSnapshot_def Let_def)

lemma prompt_run_invariant:
  assumes "ag_activeRun (aw_agent W) \<noteq> None" "queues_ok (aw_agent W)" "prompt_run E ms skip W = Some (r, w)"
  shows "agent_invariant (ag_state (aw_agent W)) w"
proof -
  have "agent_invariant (ag_state (aw_agent W)) \<lparr>lw_log = [], lw_host = W\<lparr>aw_skipPoll := skip\<rparr>\<rparr>"
    using assms(1,2) by (simp add: agent_invariant_def)
  from run.runAgentLoop_keeps [OF assms(3) [unfolded prompt_run_def] this snapshot_tools] show ?thesis .
qed

text \<open>The executor of \<open>runContinuation\<close>.\<close>

definition continue_run :: "'y agent_env \<Rightarrow> 'y agent_world \<Rightarrow> 'y run_outcome" where
  "continue_run E W = runAgentLoopContinue (createLoopConfig E (aw_agent W)) (createContextSnapshot E W)
     \<lparr>lw_log = [], lw_host = W\<lparr>aw_skipPoll := False\<rparr>\<rparr>"

lemma runContinuation_run: "runContinuation E W = runWithLifecycle E (continue_run E) W"
  by (simp add: runContinuation_def continue_run_def [abs_def])

lemma continue_run_invariant:
  assumes "ag_activeRun (aw_agent W) \<noteq> None" "queues_ok (aw_agent W)" "continue_run E W = Some (r, w)"
  shows "agent_invariant (ag_state (aw_agent W)) w"
proof -
  have "agent_invariant (ag_state (aw_agent W)) \<lparr>lw_log = [], lw_host = W\<lparr>aw_skipPoll := False\<rparr>\<rparr>"
    using assms(1,2) by (simp add: agent_invariant_def)
  from run.runAgentLoopContinue_keeps [OF assms(3) [unfolded continue_run_def] this snapshot_tools] show ?thesis .
qed

text \<open>
  C18. At the end of a prompt run, returning or throwing, the state of the agent is the reduction of
  the events emitted, and its messages are those before the run followed by the transcript, whatever
  listeners, tools and hooks do meanwhile with queues and abort.
\<close>

theorem state_reduces_events:
  assumes "ag_activeRun (aw_agent W) \<noteq> None" "queues_ok (aw_agent W)" "prompt_run E ms skip W = Some (r, w)"
  shows "ag_state (aw_agent (lw_host w)) = fold reduce_event (lw_log w) (ag_state (aw_agent W))
    \<and> st_messages (ag_state (aw_agent (lw_host w))) = st_messages (ag_state (aw_agent W)) @ transcript w"
  using prompt_run_invariant [OF assms] by (simp add: agent_invariant_def reduced_messages transcript_def)

section \<open>The end of a run\<close>

abbreviation agent_messages :: "'y agent_world \<Rightarrow> agent_message list" where
  "agent_messages W \<equiv> st_messages (ag_state (aw_agent W))"

definition idle :: "'y agent_world \<Rightarrow> bool" where
  "idle W \<longleftrightarrow> ag_activeRun (aw_agent W) = None \<and> \<not> st_isStreaming (ag_state (aw_agent W))
     \<and> st_streamingMessage (ag_state (aw_agent W)) = None \<and> st_pendingToolCalls (ag_state (aw_agent W)) = []"

lemma startRun_frame [simp]:
  "ag_activeRun (aw_agent (startRun W)) = Some False"
  "agent_messages (startRun W) = agent_messages W"
  "queues_ok (aw_agent (startRun W)) = queues_ok (aw_agent W)"
  by (simp_all add: startRun_def Let_def queues_ok_def)

lemma finishRun_frame [simp]:
  "idle (finishRun W)"
  "agent_messages (finishRun W) = agent_messages W"
  "st_errorMessage (ag_state (aw_agent (finishRun W))) = st_errorMessage (ag_state (aw_agent W))"
  "queues_ok (aw_agent (finishRun W)) = queues_ok (aw_agent W)"
  by (simp_all add: finishRun_def Let_def queues_ok_def idle_def)

lemma failure_frame:
  "agent_messages (handleRunFailure E e ab W) = agent_messages W @ [AssistantMessage (failure_message E e ab W)]"
  "st_errorMessage (ag_state (aw_agent (handleRunFailure E e ab W))) = Some (er_message e)"
  "queues_ok (aw_agent W) \<Longrightarrow> queues_ok (aw_agent (handleRunFailure E e ab W))"
proof -
  let ?m = "AssistantMessage (failure_message E e ab W)"
  let ?W1 = "map_state (\<lambda>s. s\<lparr>st_errorMessage := Some (er_message e)\<rparr>) W"
  obtain r2 W2 where p2: "processEvents E (MessageStart ?m) ?W1 = (r2, W2)" by (rule prod.exhaust)
  obtain r3 W3 where p3: "processEvents E (MessageEnd ?m) W2 = (r3, W3)" by (rule prod.exhaust)
  obtain r4 W4 where p4: "processEvents E (AgentEnd [?m]) W3 = (r4, W4)" by (rule prod.exhaust)
  have h: "handleRunFailure E e ab W = W4" by (simp add: handleRunFailure_def Let_def p2 p3 p4)
  note f = processEvents_frame [OF p2] processEvents_frame [OF p3] processEvents_frame [OF p4]
  show "agent_messages (handleRunFailure E e ab W) = agent_messages W @ [?m]"
    "st_errorMessage (ag_state (aw_agent (handleRunFailure E e ab W))) = Some (er_message e)"
    unfolding h by (simp_all add: f)
  show "queues_ok (aw_agent W) \<Longrightarrow> queues_ok (aw_agent (handleRunFailure E e ab W))"
    unfolding h by (intro f) (simp add: queues_ok_def)
qed

definition failure_of :: "'y agent_env \<Rightarrow> js_error + agent_message list \<Rightarrow> 'y agent_world loop_world \<Rightarrow> agent_message list" where
  "failure_of E out w = (case out of
     Inl e \<Rightarrow> [AssistantMessage (failure_message E e (signal_aborted (lw_host w)) (lw_host w))]
   | Inr _ \<Rightarrow> [])"

lemma settle_frame:
  assumes "agent_invariant s0 w"
  shows "idle (settle_run E (out, w))" "queues_ok (aw_agent (settle_run E (out, w)))"
    "agent_messages (settle_run E (out, w)) = st_messages s0 @ transcript w @ failure_of E out w"
    "out = Inl e \<Longrightarrow> st_errorMessage (ag_state (aw_agent (settle_run E (out, w)))) = Some (er_message e)"
  using assms by (cases out; simp add: settle_run_def failure_frame failure_of_def agent_invariant_def reduced_messages transcript_def)+

text \<open>A run on an idle agent always settles.\<close>

lemma lifecycle_settles:
  assumes "ag_activeRun (aw_agent W) = None" "queues_ok (aw_agent W)" "runWithLifecycle E ex W = Some (r, W')"
    and "\<And>out w. ex (startRun W) = Some (out, w) \<Longrightarrow> agent_invariant (ag_state (aw_agent (startRun W))) w"
  obtains out w where "ex (startRun W) = Some (out, w)" "r = Inr ()" "W' = settle_run E (out, w)"
    "idle W'" "queues_ok (aw_agent W')" "agent_messages W' = agent_messages W @ transcript w @ failure_of E out w"
proof -
  from assms(1,3) obtain out w where ex: "ex (startRun W) = Some (out, w)" and r: "r = Inr ()" "W' = settle_run E (out, w)"
    by (auto simp: runWithLifecycle_def)
  from that [OF ex r] settle_frame [OF assms(4) [OF ex]] show thesis unfolding r(2) by simp
qed

lemma prompt_settles:
  assumes "ag_activeRun (aw_agent W) = None" "queues_ok (aw_agent W)" "runPromptMessages E ms skip W = Some (r, W')"
  obtains out w where "prompt_run E ms skip (startRun W) = Some (out, w)" "r = Inr ()" "W' = settle_run E (out, w)"
    "idle W'" "queues_ok (aw_agent W')" "agent_messages W' = agent_messages W @ transcript w @ failure_of E out w"
proof (rule lifecycle_settles [OF assms(1,2) assms(3) [unfolded runPromptMessages_def]])
  have "ag_activeRun (aw_agent (startRun W)) \<noteq> None" "queues_ok (aw_agent (startRun W))" using assms(2) by simp_all
  note inv = prompt_run_invariant [OF this]
  show "agent_invariant (ag_state (aw_agent (startRun W))) w" if "prompt_run E ms skip (startRun W) = Some (out, w)" for out w
    using inv that .
qed (use that in blast)

lemma continuation_settles:
  assumes "ag_activeRun (aw_agent W) = None" "queues_ok (aw_agent W)" "runContinuation E W = Some (r, W')"
  obtains out w where "continue_run E (startRun W) = Some (out, w)" "r = Inr ()" "W' = settle_run E (out, w)"
    "idle W'" "queues_ok (aw_agent W')" "agent_messages W' = agent_messages W @ transcript w @ failure_of E out w"
proof (rule lifecycle_settles [OF assms(1,2) assms(3) [unfolded runContinuation_run]])
  have "ag_activeRun (aw_agent (startRun W)) \<noteq> None" "queues_ok (aw_agent (startRun W))" using assms(2) by simp_all
  note inv = continue_run_invariant [OF this]
  show "agent_invariant (ag_state (aw_agent (startRun W))) w" if "continue_run E (startRun W) = Some (out, w)" for out w
    using inv that .
qed (use that in blast)

text \<open>
  C19. A prompt on an idle agent never throws: the messages grow by the transcript of the run and,
  when the run threw, one assistant message with the error, which becomes the error of the agent;
  the agent is idle again.
\<close>

theorem prompt_appends:
  assumes "ag_activeRun (aw_agent W) = None" "queues_ok (aw_agent W)" "prompt E input W = Some (r, W')"
  shows "\<exists>out w. prompt_run E (normalizePromptInput input (ae_now E (aw_env W))) False (startRun W) = Some (out, w)
    \<and> r = Inr () \<and> idle W'
    \<and> agent_messages W' = agent_messages W @ transcript w
        @ (case out of Inr _ \<Rightarrow> [] | Inl e \<Rightarrow> [AssistantMessage (failure_message E e (signal_aborted (lw_host w)) (lw_host w))])
    \<and> (case out of Inr _ \<Rightarrow> True | Inl e \<Rightarrow> st_errorMessage (ag_state (aw_agent W')) = Some (er_message e))"
proof -
  have "runPromptMessages E (normalizePromptInput input (ae_now E (aw_env W))) False W = Some (r, W')"
    using assms(1,3) by (simp add: prompt_def)
  from prompt_settles [OF assms(1,2) this] obtain out w where
    p: "prompt_run E (normalizePromptInput input (ae_now E (aw_env W))) False (startRun W) = Some (out, w)" "r = Inr ()"
      "W' = settle_run E (out, w)" "idle W'" "agent_messages W' = agent_messages W @ transcript w @ failure_of E out w"
    by blast
  have "agent_invariant (ag_state (aw_agent (startRun W))) w"
    by (rule prompt_run_invariant [OF _ _ p(1)]) (simp_all add: assms(2))
  from settle_frame(4) [OF this] p show ?thesis
    by (intro exI [of _ out] exI [of _ w]) (auto simp: failure_of_def split: sum.split)
qed

section \<open>The life of an agent\<close>

text \<open>
  The public operations, one after the other, when each is awaited; between them the world outside
  moves on.
\<close>

inductive agent_step :: "'y agent_env \<Rightarrow> 'y agent_world \<Rightarrow> 'y agent_world \<Rightarrow> bool" for E where
  step_prompt: "prompt E input W = Some (r, W') \<Longrightarrow> agent_step E W W'"
| step_continue: "continue E W = Some (r, W') \<Longrightarrow> agent_step E W W'"
| step_command: "agent_step E W (W\<lparr>aw_agent := exec_command c (aw_agent W)\<rparr>)"
| step_reset: "agent_step E W (W\<lparr>aw_agent := reset (aw_agent W)\<rparr>)"
| step_outside: "agent_step E W (W\<lparr>aw_env := y\<rparr>)"

lemma drain_empty: "queue_invar q \<Longrightarrow> fst (drain q) = [] \<longleftrightarrow> queue_contents q = []"
  using pq.get_progress [of q] pq.get_contents [of q] by auto

lemma drain_nothing: "queue_contents q = [] \<Longrightarrow> queue_invar q \<Longrightarrow> drain q = ([], q)"
  by (cases "pq_batches q") (auto simp: drain_def queue_contents_def queue_invar_def split: queue_mode.split)

lemma drained_ok: "queues_ok a \<Longrightarrow> queues_ok (a\<lparr>ag_steeringQueue := snd (drain (ag_steeringQueue a))\<rparr>)"
  "queues_ok a \<Longrightarrow> queues_ok (a\<lparr>ag_followUpQueue := snd (drain (ag_followUpQueue a))\<rparr>)"
  by (auto simp: queues_ok_def intro: pq.get_invar)

text \<open>The queued messages of an idle agent: a run starts unless both queues are empty.\<close>

lemma queued_run:
  assumes "ag_activeRun (aw_agent W) = None" "queues_ok (aw_agent W)"
  shows "runQueuedMessages E W = Inl W1 \<Longrightarrow> W1 = W \<and> queue_contents (ag_steeringQueue (aw_agent W)) = []
      \<and> queue_contents (ag_followUpQueue (aw_agent W)) = []"
    and "runQueuedMessages E W = Inr (Some (r, W')) \<Longrightarrow> r = Inr () \<and> idle W' \<and> queues_ok (aw_agent W')
      \<and> prefix (agent_messages W) (agent_messages W')
      \<and> (queue_contents (ag_steeringQueue (aw_agent W)) \<noteq> [] \<or> queue_contents (ag_followUpQueue (aw_agent W)) \<noteq> [])"
proof -
  let ?a = "aw_agent W"
  let ?s = "ag_steeringQueue ?a" and ?f = "ag_followUpQueue ?a"
  have q: "queue_invar ?s" "queue_invar ?f" using assms(2) by (simp_all add: queues_ok_def)
  let ?W1 = "W\<lparr>aw_agent := ?a\<lparr>ag_steeringQueue := snd (drain ?s)\<rparr>\<rparr>"
  show "W1 = W \<and> queue_contents ?s = [] \<and> queue_contents ?f = []" if "runQueuedMessages E W = Inl W1"
  proof -
    from that have "fst (drain ?s) = []" "fst (drain ?f) = []"
      by (auto simp: runQueuedMessages_def case_prod_unfold Let_def split: if_splits)
    then have e: "queue_contents ?s = []" "queue_contents ?f = []" using drain_empty q by blast+
    with drain_nothing q have "drain ?s = ([], ?s)" "drain ?f = ([], ?f)" by blast+
    with that e show ?thesis by (auto simp: runQueuedMessages_def Let_def)
  qed
  show "r = Inr () \<and> idle W' \<and> queues_ok (aw_agent W') \<and> prefix (agent_messages W) (agent_messages W')
      \<and> (queue_contents ?s \<noteq> [] \<or> queue_contents ?f \<noteq> [])" if run: "runQueuedMessages E W = Inr (Some (r, W'))"
  proof (cases "fst (drain ?s) = []")
    case False
    with run have "runPromptMessages E (fst (drain ?s)) True ?W1 = Some (r, W')"
      by (simp add: runQueuedMessages_def case_prod_unfold Let_def)
    moreover have "ag_activeRun (aw_agent ?W1) = None" "queues_ok (aw_agent ?W1)" using assms by (simp_all add: drained_ok)
    ultimately obtain out w where
      "r = Inr ()" "idle W'" "queues_ok (aw_agent W')" "agent_messages W' = agent_messages ?W1 @ transcript w @ failure_of E out w"
      using prompt_settles by blast
    with False drain_empty [OF q(1)] show ?thesis by auto
  next
    case True
    with q drain_empty drain_nothing have "drain ?s = ([], ?s)" by blast
    then have w1: "?W1 = W" by simp
    let ?W2 = "W\<lparr>aw_agent := ?a\<lparr>ag_followUpQueue := snd (drain ?f)\<rparr>\<rparr>"
    have ne: "fst (drain ?f) \<noteq> []" and "runPromptMessages E (fst (drain ?f)) False ?W2 = Some (r, W')"
      using run True w1 by (auto simp: runQueuedMessages_def case_prod_unfold Let_def split: if_splits)
    moreover have "ag_activeRun (aw_agent ?W2) = None" "queues_ok (aw_agent ?W2)" using assms by (simp_all add: drained_ok)
    ultimately obtain out w where
      "r = Inr ()" "idle W'" "queues_ok (aw_agent W')" "agent_messages W' = agent_messages ?W2 @ transcript w @ failure_of E out w"
      using prompt_settles by blast
    with ne drain_empty [OF q(2)] show ?thesis by auto
  qed
qed

lemma rethrow_settled: "rethrow run = Some (r, W') \<Longrightarrow> \<exists>q. run = Some (q, W') \<and> (q = Inr () \<longrightarrow> r = Inr ())"
  unfolding rethrow_def by (cases run) (auto split: prod.splits)

definition nothing_queued :: "'y agent_world \<Rightarrow> bool" where
  "nothing_queued W \<longleftrightarrow> queue_contents (ag_steeringQueue (aw_agent W)) = []
     \<and> queue_contents (ag_followUpQueue (aw_agent W)) = []"

definition nothing_to_answer :: "agent_message list \<Rightarrow> bool" where
  "nothing_to_answer ms \<longleftrightarrow> ms = [] \<or> is_assistant (last ms)"

lemma queued_or:
  assumes "ag_activeRun (aw_agent W) = None" "queues_ok (aw_agent W)"
    and "(case runQueuedMessages E W of Inr run \<Rightarrow> rethrow run | Inl W1 \<Rightarrow> other W1) = Some (r, W')"
  shows "r = Inr () \<and> idle W' \<and> queues_ok (aw_agent W') \<and> prefix (agent_messages W) (agent_messages W') \<and> \<not> nothing_queued W
    \<or> other W = Some (r, W') \<and> nothing_queued W"
proof (cases "runQueuedMessages E W")
  case (Inl W1)
  with queued_run(1) [OF assms(1,2) Inl] assms(3) show ?thesis by (simp add: nothing_queued_def)
next
  case (Inr run)
  with assms(3) have "rethrow run = Some (r, W')" by simp
  from rethrow_settled [OF this] obtain q where q: "run = Some (q, W')" "q = Inr () \<longrightarrow> r = Inr ()" by blast
  with queued_run(2) [OF assms(1,2), of E q W'] Inr show ?thesis by (auto simp: nothing_queued_def)
qed

lemma continuation_or:
  assumes "ag_activeRun (aw_agent W) = None" "queues_ok (aw_agent W)" "rethrow (runContinuation E W) = Some (r, W')"
  shows "r = Inr () \<and> idle W' \<and> queues_ok (aw_agent W') \<and> prefix (agent_messages W) (agent_messages W')"
proof -
  from rethrow_settled [OF assms(3)] obtain q where q: "runContinuation E W = Some (q, W')" "q = Inr () \<longrightarrow> r = Inr ()"
    by blast
  from continuation_settles [OF assms(1,2) q(1)] obtain out w where "q = Inr ()" "idle W'" "queues_ok (aw_agent W')"
    "agent_messages W' = agent_messages W @ transcript w @ failure_of E out w" by metis
  with q(2) show ?thesis by simp
qed

text \<open>On an idle agent \<open>continue\<close> runs, or refuses and changes nothing.\<close>

lemma continue_cases:
  assumes "ag_activeRun (aw_agent W) = None" "queues_ok (aw_agent W)" "continue E W = Some (r, W')"
  shows "r = Inr () \<and> idle W' \<and> queues_ok (aw_agent W') \<and> prefix (agent_messages W) (agent_messages W')
      \<and> \<not> (nothing_queued W \<and> nothing_to_answer (agent_messages W))
    \<or> (\<exists>m. r = Inl (Refused NothingToContinue m)) \<and> W' = W \<and> nothing_queued W \<and> nothing_to_answer (agent_messages W)"
proof -
  let ?ms = "agent_messages W"
  have nw: "ag_activeRun (aw_agent W) \<noteq> None \<longleftrightarrow> False" using assms(1) by simp
  consider "?ms = []" | "?ms \<noteq> []" "is_assistant (last ?ms)"
    | "?ms \<noteq> []" "\<not> is_assistant (last ?ms)" "is_custom (last ?ms)"
    | "?ms \<noteq> []" "\<not> is_assistant (last ?ms)" "\<not> is_custom (last ?ms)" by blast
  then show ?thesis
  proof cases
    case 1
    with assms(3) have "(case runQueuedMessages E W of Inr run \<Rightarrow> rethrow run
        | Inl W1 \<Rightarrow> Some (Inl (Refused NothingToContinue ''No messages to continue from''), W1)) = Some (r, W')"
      unfolding continue_def nw Let_def by simp
    from queued_or [OF assms(1,2) this] 1 show ?thesis by (auto simp: nothing_to_answer_def)
  next
    case 2
    with assms(3) have "(case runQueuedMessages E W of Inr run \<Rightarrow> rethrow run
        | Inl W1 \<Rightarrow> Some (Inl (Refused NothingToContinue ''Cannot continue from message role: assistant''), W1)) = Some (r, W')"
      unfolding continue_def nw Let_def by simp
    from queued_or [OF assms(1,2) this] 2 show ?thesis by (auto simp: nothing_to_answer_def)
  next
    case 3
    with assms(3) have "(case runQueuedMessages E W of Inr run \<Rightarrow> rethrow run
        | Inl W1 \<Rightarrow> rethrow (runContinuation E W1)) = Some (r, W')"
      unfolding continue_def nw Let_def by simp
    from queued_or [OF assms(1,2) this] continuation_or [OF assms(1,2)] 3 show ?thesis by (auto simp: nothing_to_answer_def)
  next
    case 4
    with assms(3) have "rethrow (runContinuation E W) = Some (r, W')" unfolding continue_def nw Let_def by simp
    from continuation_or [OF assms(1,2) this] 4 show ?thesis by (simp add: nothing_to_answer_def)
  qed
qed

text \<open>
  C20. continue refuses exactly when a run is active, or when both queues are empty and there is
  nothing to answer, and then changes nothing; otherwise it runs, leaves the agent idle and only
  appends messages.
\<close>

theorem continue_refuses:
  assumes "queues_ok (aw_agent W)" "continue E W = Some (r, W')"
  shows "(case r of
      Inr _ \<Rightarrow> ag_activeRun (aw_agent W) = None \<and> \<not> (nothing_queued W \<and> nothing_to_answer (agent_messages W))
        \<and> idle W' \<and> prefix (agent_messages W) (agent_messages W')
    | Inl (Refused Busy _) \<Rightarrow> W' = W \<and> ag_activeRun (aw_agent W) \<noteq> None
    | Inl (Refused NothingToContinue _) \<Rightarrow> W' = W \<and> ag_activeRun (aw_agent W) = None
        \<and> nothing_queued W \<and> nothing_to_answer (agent_messages W)
    | Inl (Thrown _) \<Rightarrow> False)"
proof (cases "ag_activeRun (aw_agent W) = None")
  case True
  from continue_cases [OF True assms] True show ?thesis by auto
next
  case False
  with assms(2) show ?thesis by (auto simp: continue_def Let_def)
qed

section \<open>The class invariant\<close>

lemma reset_frame:
  "ag_activeRun (reset a) = ag_activeRun a" "queues_ok (reset a)"
  "st_isStreaming (ag_state (reset a)) = False" "st_streamingMessage (ag_state (reset a)) = None"
  "st_pendingToolCalls (ag_state (reset a)) = []"
  by (simp_all add: reset_def clearSteeringQueue_def clearFollowUpQueue_def queues_ok_def)

lemma idle_step:
  assumes "agent_step E W W'" "idle W" "queues_ok (aw_agent W)"
  shows "idle W' \<and> queues_ok (aw_agent W')"
  using assms(1)
proof cases
  case (step_prompt input r)
  from assms(2) have a: "ag_activeRun (aw_agent W) = None" by (simp add: idle_def)
  with step_prompt have "runPromptMessages E (normalizePromptInput input (ae_now E (aw_env W))) False W = Some (r, W')"
    by (simp add: prompt_def)
  from prompt_settles [OF a assms(3) this] show ?thesis by blast
next
  case (step_continue r)
  from assms(2) have a: "ag_activeRun (aw_agent W) = None" by (simp add: idle_def)
  from continue_cases [OF a assms(3) step_continue] assms(2,3) show ?thesis by blast
next
  case (step_command c)
  with assms(2,3) exec_frame [where c = c and a = "aw_agent W"] show ?thesis by (simp add: idle_def)
next
  case step_reset
  with assms(2) show ?thesis by (simp add: idle_def reset_frame)
next
  case (step_outside y)
  with assms(2,3) show ?thesis by (simp add: idle_def)
qed

text \<open>
  C21. In every state reachable from a new agent by prompts, continuations, resets, aborts and queue
  operations, the agent has no active run, is not streaming, and has neither a streaming message nor
  pending tool calls.
\<close>

theorem agent_idle_between_runs:
  assumes "(agent_step E)\<^sup>*\<^sup>* \<lparr>aw_agent = new_agent (createMutableAgentState sp api provider model tools ms) steering follow mode,
      aw_skipPoll = b, aw_env = y\<rparr> W"
  shows "idle W \<and> queues_ok (aw_agent W)"
  using assms
proof (induction rule: rtranclp_induct)
  case base
  then show ?case by (simp add: idle_def new_agent_def createMutableAgentState_def queues_ok_def)
next
  case (step W1 W2)
  with idle_step show ?case by blast
qed

end
