(* ===== verification/Agent_Examples.thy ===== *)
theory Agent_Examples
  imports Agent_Props
begin

text \<open>
  An agent whose provider first asks for a tool call and then answers, one whose provider is out of
  reach, and the properties of the class on them.
\<close>

declare run_loop.simps [code] and stream_loop.simps [code] and run_tasks.simps [code]

definition demo_tool :: "nat env_tool" where
  "demo_tool = \<lparr>et_executionMode = None, et_prepareArguments = None, et_validate = (\<lambda>tc. Inr (tc_arguments tc)),
     et_updates = (\<lambda>i a y. (([], []), y)),
     et_finish = (\<lambda>i a y. ((Fulfilled \<lparr>ar_content = [], ar_details = None, ar_terminate = None\<rparr>, []), y))\<rparr>"

text \<open>The environment counts the responses.\<close>

definition demo_env :: "nat agent_env" where
  "demo_env = \<lparr>ae_listeners = [], ae_now = (\<lambda>_. 5), ae_tools = (\<lambda>n. demo_tool),
     ae_transformContext = None, ae_convertToLlm = (\<lambda>ms y. ((Fulfilled [], []), y)), ae_getApiKey = None,
     ae_stream = (\<lambda>lx key y. ((Fulfilled (), []), Suc y)), ae_next = (\<lambda>y. ((Fulfilled None, []), y)),
     ae_result = (\<lambda>y. ((Fulfilled (if y = 1 then demo_call else demo_reply), []), y)),
     ae_beforeToolCall = None, ae_afterToolCall = None, ae_shouldStopAfterTurn = None, ae_shouldStopBeforeTurn = None,
     ae_getContinuationMessages = None, ae_pick = (\<lambda>_. 0)\<rparr>"

definition offline_env :: "nat agent_env" where
  "offline_env = demo_env\<lparr>ae_stream := (\<lambda>lx key y. ((Rejected (JsError ''Error'' ''offline''), []), y))\<rparr>"

definition demo_agent :: "nat agent_world" where
  "demo_agent = \<lparr>aw_agent = new_agent (createMutableAgentState [] ''a'' ''p'' ''m'' [''none''] []) None None None,
     aw_skipPoll = False, aw_env = 0\<rparr>"

definition demo_input :: agent_message where
  "demo_input = UserMessage (Blocks [TextContent ''hi'' None]) 5"

definition demo_result :: agent_message where
  "demo_result = ToolResultMessage \<lparr>tr_toolCallId = ''k'', tr_toolName = ''none'', tr_content = [], tr_details = None,
     tr_isError = False, tr_timestamp = 5\<rparr>"

lemma demo_agent_start [simp]:
  "ag_activeRun (aw_agent demo_agent) = None" "queues_ok (aw_agent demo_agent)" "agent_messages demo_agent = []"
  by (simp_all add: demo_agent_def new_agent_def createMutableAgentState_def queues_ok_def)

lemma demo_agent_run:
  "map_option (\<lambda>(r, W). (r, agent_messages W)) (prompt demo_env (PromptText ''hi'' []) demo_agent)
     = Some (Inr (), [demo_input, AssistantMessage demo_call, demo_result, AssistantMessage demo_reply])"
  by code_simp

lemma offline_run:
  "map_option (\<lambda>(r, W). (r, agent_messages W)) (prompt offline_env (PromptText ''hi'' []) demo_agent)
     = Some (Inr (), [demo_input, AssistantMessage (failure_message offline_env (JsError ''Error'' ''offline'') False demo_agent)])"
  by code_simp

lemma demo_prompt_run:
  "map_option (\<lambda>(r, w). (case r of Inr ms \<Rightarrow> ms | Inl _ \<Rightarrow> [])) (prompt_run demo_env [demo_input] False (startRun demo_agent))
     = Some [demo_input, AssistantMessage demo_call, demo_result, AssistantMessage demo_reply]"
  by code_simp

theorem state_reduces_events_witness:
  "\<exists>r w. prompt_run demo_env [demo_input] False (startRun demo_agent) = Some (r, w)
    \<and> agent_messages (lw_host w) = transcript w"
proof -
  from demo_prompt_run obtain r w where p: "prompt_run demo_env [demo_input] False (startRun demo_agent) = Some (r, w)"
    by auto
  have "ag_activeRun (aw_agent (startRun demo_agent)) \<noteq> None" "queues_ok (aw_agent (startRun demo_agent))" by simp_all
  from state_reduces_events [OF this p, THEN conjunct2] have "agent_messages (lw_host w) = transcript w"
    by (simp only: startRun_frame demo_agent_start append_Nil)
  with p show ?thesis by blast
qed

theorem prompt_appends_witness:
  "\<exists>W'. prompt offline_env (PromptText ''hi'' []) demo_agent = Some (Inr (), W') \<and> idle W' \<and> length (agent_messages W') = 2"
proof -
  from offline_run obtain r W' where p: "prompt offline_env (PromptText ''hi'' []) demo_agent = Some (r, W')"
    and l: "length (agent_messages W') = 2" by auto
  have "idle W' \<and> r = Inr ()" using prompt_appends [OF demo_agent_start(1,2) p] by blast
  with p l show ?thesis by blast
qed

theorem continue_refuses_witness:
  "\<exists>m. continue demo_env demo_agent = Some (Inl (Refused NothingToContinue m), demo_agent) \<and> nothing_queued demo_agent"
proof -
  have c: "continue demo_env demo_agent
      = Some (Inl (Refused NothingToContinue ''No messages to continue from''), demo_agent)"
    by (simp add: continue_def Let_def runQueuedMessages_def) (simp add: demo_agent_def new_agent_def drain_def new_queue_def nullish_def)
  from continue_refuses [OF demo_agent_start(2) c] c show ?thesis by auto
qed

theorem agent_idle_between_runs_witness:
  "\<exists>W. (agent_step demo_env)\<^sup>*\<^sup>* demo_agent W \<and> agent_messages W \<noteq> [] \<and> idle W"
proof -
  from demo_agent_run obtain r W where p: "prompt demo_env (PromptText ''hi'' []) demo_agent = Some (r, W)"
    and m: "agent_messages W \<noteq> []" by auto
  from step_prompt [OF p] have s: "(agent_step demo_env)\<^sup>*\<^sup>* demo_agent W" by blast
  from agent_idle_between_runs [OF s [unfolded demo_agent_def]] m s show ?thesis by blast
qed

end
