(* ===== verification/Transform_Messages.thy ===== *)
theory Transform_Messages
  imports Message_Pairs
begin

text \<open>
  \<open>packages/ai/src/providers/transform-messages.ts\<close>: the conversation as it is sent to a provider. Images and
  thinking a model cannot read are replaced, call ids of other models are normalised together with
  their results, failed responses are left out, and every call without a result gets one.
\<close>

section \<open>Images\<close>

definition NON_VISION_USER_IMAGE_PLACEHOLDER :: string where
  "NON_VISION_USER_IMAGE_PLACEHOLDER = ''(image omitted: model does not support images)''"

definition NON_VISION_TOOL_IMAGE_PLACEHOLDER :: string where
  "NON_VISION_TOOL_IMAGE_PLACEHOLDER = ''(tool image omitted: model does not support images)''"

text \<open>The flag is \<open>previousWasPlaceholder\<close>.\<close>

fun replace_images :: "bool \<Rightarrow> text_or_image list \<Rightarrow> string \<Rightarrow> text_or_image list" where
  "replace_images prev [] ph = []"
| "replace_images prev (ImageContent d t # bs) ph =
     (if prev then [] else [TextContent ph None]) @ replace_images True bs ph"
| "replace_images prev (TextContent t s # bs) ph = TextContent t s # replace_images (t = ph) bs ph"

definition replaceImagesWithPlaceholder :: "text_or_image list \<Rightarrow> string \<Rightarrow> text_or_image list" where
  "replaceImagesWithPlaceholder content placeholder = replace_images False content placeholder"

record target_model =
  tm_provider :: string
  tm_api :: string
  tm_id :: string
  tm_images :: bool

fun downgrade_message :: "llm_message \<Rightarrow> llm_message" where
  "downgrade_message (LlmUser (Blocks bs) ts) =
     LlmUser (Blocks (replaceImagesWithPlaceholder bs NON_VISION_USER_IMAGE_PLACEHOLDER)) ts"
| "downgrade_message (LlmToolResult r) =
     LlmToolResult (r\<lparr>tr_content := replaceImagesWithPlaceholder (tr_content r) NON_VISION_TOOL_IMAGE_PLACEHOLDER\<rparr>)"
| "downgrade_message m = m"

definition downgradeUnsupportedImages :: "llm_message list \<Rightarrow> target_model \<Rightarrow> llm_message list" where
  "downgradeUnsupportedImages ms M = (if tm_images M then ms else map downgrade_message ms)"

section \<open>Blocks and call ids\<close>

text \<open>\<open>normalizeToolCallId\<close> for a fixed model, when there is one.\<close>

type_synonym id_normalizer = "(string \<Rightarrow> assistant_message \<Rightarrow> string) option"

definition isSameModel :: "target_model \<Rightarrow> assistant_message \<Rightarrow> bool" where
  "isSameModel M am \<longleftrightarrow> am_provider am = tm_provider M \<and> am_api am = tm_api M \<and> am_model am = tm_id M"

type_synonym id_map = "string \<rightharpoonup> string"

fun transform_block ::
  "id_normalizer \<Rightarrow> target_model \<Rightarrow> assistant_message \<Rightarrow> assistant_block \<Rightarrow> id_map \<Rightarrow> assistant_block list \<times> id_map" where
  "transform_block N M am (AThinking t s redacted) \<mu> =
     (if redacted then (if isSameModel M am then [AThinking t s redacted] else [])
      else if isSameModel M am \<and> truthy s then [AThinking t s redacted]
      else if t = [] \<or> trim t = [] then []
      else if isSameModel M am then [AThinking t s redacted]
      else [AText t None], \<mu>)"
| "transform_block N M am (AText t s) \<mu> = ([if isSameModel M am then AText t s else AText t None], \<mu>)"
| "transform_block N M am (AToolCall tc) \<mu> =
     (let tc1 = (if \<not> isSameModel M am \<and> truthy (tc_thoughtSignature tc) then tc\<lparr>tc_thoughtSignature := None\<rparr> else tc)
      in case N of
           Some f \<Rightarrow>
             if \<not> isSameModel M am \<and> f (tc_id tc) am \<noteq> tc_id tc
             then ([AToolCall (tc1\<lparr>tc_id := f (tc_id tc) am\<rparr>)], \<mu>(tc_id tc \<mapsto> f (tc_id tc) am))
             else ([AToolCall tc1], \<mu>)
         | None \<Rightarrow> ([AToolCall tc1], \<mu>))"

fun transform_blocks ::
  "id_normalizer \<Rightarrow> target_model \<Rightarrow> assistant_message \<Rightarrow> assistant_block list \<Rightarrow> id_map \<Rightarrow> assistant_block list \<times> id_map" where
  "transform_blocks N M am [] \<mu> = ([], \<mu>)"
| "transform_blocks N M am (b # bs) \<mu> =
     (let (xs, \<mu>1) = transform_block N M am b \<mu>; (ys, \<mu>2) = transform_blocks N M am bs \<mu>1 in (xs @ ys, \<mu>2))"

fun transform_messages :: "id_normalizer \<Rightarrow> target_model \<Rightarrow> llm_message list \<Rightarrow> id_map \<Rightarrow> llm_message list" where
  "transform_messages N M [] \<mu> = []"
| "transform_messages N M (LlmUser c ts # ms) \<mu> = LlmUser c ts # transform_messages N M ms \<mu>"
| "transform_messages N M (LlmToolResult r # ms) \<mu> =
     (let normalized = \<mu> (tr_toolCallId r)
      in LlmToolResult (if truthy normalized \<and> normalized \<noteq> Some (tr_toolCallId r)
                        then r\<lparr>tr_toolCallId := the normalized\<rparr> else r)
         # transform_messages N M ms \<mu>)"
| "transform_messages N M (LlmAssistant am # ms) \<mu> =
     (let (content, \<mu>') = transform_blocks N M am (am_content am) \<mu>
      in LlmAssistant (am\<lparr>am_content := content\<rparr>) # transform_messages N M ms \<mu>')"

section \<open>Missing results\<close>

text \<open>\<open>clock k\<close> is the time read for the \<open>k\<close>-th synthetic result.\<close>

definition synthetic_result :: "tool_call \<Rightarrow> int \<Rightarrow> llm_message" where
  "synthetic_result tc now = LlmToolResult
     \<lparr>tr_toolCallId = tc_id tc, tr_toolName = tc_name tc, tr_content = [TextContent ''No result provided'' None],
      tr_details = None, tr_isError = True, tr_timestamp = now\<rparr>"

fun insertSyntheticToolResults ::
  "(nat \<Rightarrow> int) \<Rightarrow> nat \<Rightarrow> tool_call list \<Rightarrow> string list \<Rightarrow> llm_message list \<times> nat" where
  "insertSyntheticToolResults clock k [] existing = ([], k)"
| "insertSyntheticToolResults clock k (tc # tcs) existing =
     (if tc_id tc \<in> set existing then insertSyntheticToolResults clock k tcs existing
      else let (ms, k') = insertSyntheticToolResults clock (Suc k) tcs existing
           in (synthetic_result tc (clock k) # ms, k'))"

definition failed_response :: "assistant_message \<Rightarrow> bool" where
  "failed_response am \<longleftrightarrow> am_stopReason am = StopError \<or> am_stopReason am = Aborted"

text \<open>The second pass, with \<open>pendingToolCalls\<close> and \<open>existingToolResultIds\<close>.\<close>

fun insert_results ::
  "(nat \<Rightarrow> int) \<Rightarrow> nat \<Rightarrow> tool_call list \<Rightarrow> string list \<Rightarrow> llm_message list \<Rightarrow> llm_message list" where
  "insert_results clock k pending existing [] = fst (insertSyntheticToolResults clock k pending existing)"
| "insert_results clock k pending existing (LlmAssistant am # ms) =
     (let (synthetic, k') = insertSyntheticToolResults clock k pending existing;
          existing' = (if pending = [] then existing else []);
          calls = tool_calls_of (am_content am)
      in synthetic @
         (if failed_response am then insert_results clock k' [] existing' ms
          else LlmAssistant am #
            (if calls \<noteq> [] then insert_results clock k' calls [] ms else insert_results clock k' [] existing' ms)))"
| "insert_results clock k pending existing (LlmToolResult r # ms) =
     LlmToolResult r # insert_results clock k pending (set_add (tr_toolCallId r) existing) ms"
| "insert_results clock k pending existing (LlmUser c ts # ms) =
     (let (synthetic, k') = insertSyntheticToolResults clock k pending existing
      in synthetic @ LlmUser c ts # insert_results clock k' [] (if pending = [] then existing else []) ms)"

definition transformMessages ::
  "(nat \<Rightarrow> int) \<Rightarrow> id_normalizer \<Rightarrow> target_model \<Rightarrow> llm_message list \<Rightarrow> llm_message list" where
  "transformMessages clock N M ms =
     insert_results clock 0 [] [] (transform_messages N M (downgradeUnsupportedImages ms M) Map.empty)"

section \<open>What a provider accepts\<close>

definition call_ids :: "assistant_message \<Rightarrow> string list" where
  "call_ids am = map tc_id (tool_calls_of (am_content am))"

text \<open>
  \<open>answerable open ms\<close>: every result answers an open call of the response before it, once; calls of a
  failed response are never open, as it is not sent. Calls may stay without a result.
\<close>

fun answerable :: "string list \<Rightarrow> llm_message list \<Rightarrow> bool" where
  "answerable opn [] = True"
| "answerable opn (LlmUser c ts # ms) = answerable [] ms"
| "answerable opn (LlmAssistant am # ms) = answerable (if failed_response am then [] else call_ids am) ms"
| "answerable opn (LlmToolResult r # ms) =
     (tr_toolCallId r \<in> set opn \<and> answerable (removeAll (tr_toolCallId r) opn) ms)"

text \<open>\<open>answered\<close>: moreover, no call is left without a result, and no failed response is sent.\<close>

fun answered :: "string list \<Rightarrow> llm_message list \<Rightarrow> bool" where
  "answered opn [] = (opn = [])"
| "answered opn (LlmUser c ts # ms) = (opn = [] \<and> answered [] ms)"
| "answered opn (LlmAssistant am # ms) = (opn = [] \<and> \<not> failed_response am \<and> answered (call_ids am) ms)"
| "answered opn (LlmToolResult r # ms) =
     (tr_toolCallId r \<in> set opn \<and> answered (removeAll (tr_toolCallId r) opn) ms)"

fun responses :: "llm_message list \<Rightarrow> assistant_message list" where
  "responses [] = []"
| "responses (LlmAssistant am # ms) = am # responses ms"
| "responses (m # ms) = responses ms"

fun user_messages :: "llm_message list \<Rightarrow> llm_message list" where
  "user_messages [] = []"
| "user_messages (LlmUser c ts # ms) = LlmUser c ts # user_messages ms"
| "user_messages (m # ms) = user_messages ms"

subsection \<open>The second pass\<close>

definition unanswered :: "tool_call list \<Rightarrow> string list \<Rightarrow> string list" where
  "unanswered pending existing = filter (\<lambda>i. i \<notin> set existing) (map tc_id pending)"

lemma unanswered_Nil [simp]: "unanswered [] X = []" "unanswered P [] = map tc_id P"
  by (simp_all add: unanswered_def)

lemma unanswered_add: "unanswered P (set_add i X) = removeAll i (unanswered P X)"
  by (auto simp: unanswered_def set_add_def removeAll_filter_not_eq intro!: filter_cong)

lemma synthetic_answers:
  assumes "distinct (map tc_id P)" "insertSyntheticToolResults clock k P X = (syn, k')"
  shows "answered (unanswered P X) (syn @ ms) = answered [] ms"
  using assms
proof (induction P arbitrary: k syn k')
  case (Cons tc P)
  show ?case
  proof (cases "tc_id tc \<in> set X")
    case True
    with Cons show ?thesis by (simp add: unanswered_def)
  next
    case False
    obtain ys k2 where y: "insertSyntheticToolResults clock (Suc k) P X = (ys, k2)" by (rule prod.exhaust)
    with Cons.prems False have syn: "syn = synthetic_result tc (clock k) # ys" by simp
    have d: "distinct (map tc_id P)" using Cons.prems(1) by simp
    have "removeAll (tc_id tc) (unanswered P X) = unanswered P X"
      using Cons.prems(1) by (auto simp: unanswered_def intro!: removeAll_id)
    with Cons.IH [OF d y] False show ?thesis
      unfolding syn by (simp add: synthetic_result_def unanswered_def)
  qed
qed simp

lemma synthetic_users: "insertSyntheticToolResults clock k P X = (syn, k') \<Longrightarrow> user_messages (syn @ ms) = user_messages ms"
  by (induction P arbitrary: k syn k') (auto simp: synthetic_result_def split: if_splits prod.splits)

lemma insert_results_answers:
  assumes "answerable (unanswered P X) ms" "distinct (map tc_id P)" "\<forall>am\<in>set (responses ms). distinct (call_ids am)"
  shows "answered (unanswered P X) (insert_results clock k P X ms)"
  using assms
proof (induction clock k P X ms rule: insert_results.induct)
  case (1 clock k P X)
  obtain syn k' where s: "insertSyntheticToolResults clock k P X = (syn, k')" by (rule prod.exhaust)
  from synthetic_answers [OF 1(2) s, of "[]"] s show ?case by simp
next
  case (2 clock k P X am ms)
  obtain syn k' where s: "insertSyntheticToolResults clock k P X = (syn, k')" by (rule prod.exhaust)
  let ?X = "if P = [] then X else []"
  show ?case
  proof (cases "failed_response am")
    case True
    with "2.IH"(1) [OF s [symmetric] refl refl refl True] "2.prems" s show ?thesis
      by (simp add: synthetic_answers [OF "2.prems"(2) s])
  next
    case False
    show ?thesis
    proof (cases "tool_calls_of (am_content am) = []")
      case calls: True
      with "2.IH"(3) [OF s [symmetric] refl refl refl False] "2.prems" s False show ?thesis
        by (simp add: synthetic_answers [OF "2.prems"(2) s] call_ids_def)
    next
      case calls: False
      with "2.IH"(2) [OF s [symmetric] refl refl refl False calls] "2.prems" s False show ?thesis
        by (simp add: synthetic_answers [OF "2.prems"(2) s] call_ids_def)
    qed
  qed
next
  case (3 clock k P X r ms)
  then show ?case by (simp add: unanswered_add)
next
  case (4 clock k P X c ts ms)
  obtain syn k' where s: "insertSyntheticToolResults clock k P X = (syn, k')" by (rule prod.exhaust)
  with 4 show ?case by (simp add: synthetic_answers [OF "4.prems"(2) s])
qed

lemma synthetic_responses: "insertSyntheticToolResults clock k P X = (syn, k') \<Longrightarrow> responses (syn @ ms) = responses ms"
  by (induction P arbitrary: k syn k') (auto simp: synthetic_result_def split: if_splits prod.splits)

lemma insert_results_keeps:
  "user_messages (insert_results clock k P X ms) = user_messages ms"
  "responses (insert_results clock k P X ms) = filter (\<lambda>am. \<not> failed_response am) (responses ms)"
proof -
  have "user_messages (insert_results clock k P X ms) = user_messages ms
    \<and> responses (insert_results clock k P X ms) = filter (\<lambda>am. \<not> failed_response am) (responses ms)"
  proof (induction clock k P X ms rule: insert_results.induct)
    case (1 clock k P X)
    obtain syn k' where s: "insertSyntheticToolResults clock k P X = (syn, k')" by (rule prod.exhaust)
    from synthetic_users [OF s, of "[]"] synthetic_responses [OF s, of "[]"] s show ?case by simp
  next
    case (2 clock k P X am ms)
    obtain syn k' where s: "insertSyntheticToolResults clock k P X = (syn, k')" by (rule prod.exhaust)
    note IH = 2(1) [OF s [symmetric] refl refl refl] 2(2,3) [OF s [symmetric] refl refl refl]
    show ?case
    proof (cases "failed_response am")
      case True
      with IH(1) s show ?thesis by (simp add: synthetic_users [OF s] synthetic_responses [OF s])
    next
      case False
      with IH(2,3) s show ?thesis
        by (cases "tool_calls_of (am_content am) = []") (simp_all add: synthetic_users [OF s] synthetic_responses [OF s])
    qed
  next
    case (4 clock k P X c ts ms)
    obtain syn k' where s: "insertSyntheticToolResults clock k P X = (syn, k')" by (rule prod.exhaust)
    with 4 show ?case by (simp add: synthetic_users [OF s] synthetic_responses [OF s])
  qed simp
  then show "user_messages (insert_results clock k P X ms) = user_messages ms"
    "responses (insert_results clock k P X ms) = filter (\<lambda>am. \<not> failed_response am) (responses ms)" by blast+
qed

subsection \<open>The first pass\<close>

text \<open>The id a call of \<open>am\<close> is sent with, and the id its result is sent with.\<close>

definition new_id :: "id_normalizer \<Rightarrow> target_model \<Rightarrow> assistant_message \<Rightarrow> string \<Rightarrow> string" where
  "new_id N M am i = (case N of Some f \<Rightarrow> if isSameModel M am then i else f i am | None \<Rightarrow> i)"

definition result_id :: "id_map \<Rightarrow> string \<Rightarrow> string" where
  "result_id \<mu> i = (if truthy (\<mu> i) then the (\<mu> i) else i)"

lemma tool_calls_append [simp]: "tool_calls_of (xs @ ys) = tool_calls_of xs @ tool_calls_of ys"
  by (induction xs rule: tool_calls_of.induct) auto

lemma transform_block_ids:
  assumes "transform_block N M am b \<mu> = (ys, \<mu>')"
  shows "map tc_id (tool_calls_of ys) = map (\<lambda>tc. new_id N M am (tc_id tc)) (tool_calls_of [b])"
    "\<mu>' x = (if x \<in> tc_id ` set (tool_calls_of [b]) \<and> new_id N M am x \<noteq> x then Some (new_id N M am x) else \<mu> x)"
proof -
  have "map tc_id (tool_calls_of ys) = map (\<lambda>tc. new_id N M am (tc_id tc)) (tool_calls_of [b])
    \<and> \<mu>' x = (if x \<in> tc_id ` set (tool_calls_of [b]) \<and> new_id N M am x \<noteq> x then Some (new_id N M am x) else \<mu> x)"
  proof (cases b)
    case (AToolCall tc)
    with assms show ?thesis by (auto simp: Let_def new_id_def split: option.splits if_splits)
  qed (use assms in \<open>auto split: if_splits\<close>)
  then show "map tc_id (tool_calls_of ys) = map (\<lambda>tc. new_id N M am (tc_id tc)) (tool_calls_of [b])"
    "\<mu>' x = (if x \<in> tc_id ` set (tool_calls_of [b]) \<and> new_id N M am x \<noteq> x then Some (new_id N M am x) else \<mu> x)" by blast+
qed

lemma transform_blocks_ids:
  assumes "transform_blocks N M am bs \<mu> = (ys, \<mu>')"
  shows "map tc_id (tool_calls_of ys) = map (\<lambda>tc. new_id N M am (tc_id tc)) (tool_calls_of bs)
    \<and> (\<forall>x. \<mu>' x = (if x \<in> tc_id ` set (tool_calls_of bs) \<and> new_id N M am x \<noteq> x then Some (new_id N M am x) else \<mu> x))"
  using assms
proof (induction bs arbitrary: \<mu> ys \<mu>')
  case (Cons b bs)
  obtain xs \<mu>1 where b: "transform_block N M am b \<mu> = (xs, \<mu>1)" by (rule prod.exhaust)
  obtain zs \<mu>2 where r: "transform_blocks N M am bs \<mu>1 = (zs, \<mu>2)" by (rule prod.exhaust)
  from Cons.prems b r have e: "ys = xs @ zs" "\<mu>' = \<mu>2" by simp_all
  have t: "tool_calls_of (b # bs) = tool_calls_of [b] @ tool_calls_of bs" using tool_calls_append [of "[b]" bs] by simp
  from Cons.IH [OF r] transform_block_ids [OF b] show ?case unfolding e t by auto
qed simp

lemma transform_messages_answerable:
  assumes "answerable opn ms" "distinct (concat (map call_ids (responses ms)))"
    and "\<forall>am\<in>set (responses ms). distinct (map (new_id N M am) (call_ids am)) \<and> [] \<notin> new_id N M am ` set (call_ids am)"
    and "\<forall>am\<in>set (responses ms). \<forall>i\<in>set (call_ids am). \<mu> i = None"
    and "inj_on (result_id \<mu>) (set opn)"
  shows "answerable (map (result_id \<mu>) opn) (transform_messages N M ms \<mu>)
    \<and> (\<forall>am\<in>set (responses (transform_messages N M ms \<mu>)). distinct (call_ids am))
    \<and> user_messages (transform_messages N M ms \<mu>) = user_messages ms
    \<and> map (\<lambda>am. am\<lparr>am_content := []\<rparr>) (responses (transform_messages N M ms \<mu>))
        = map (\<lambda>am. am\<lparr>am_content := []\<rparr>) (responses ms)"
  using assms
proof (induction N M ms \<mu> arbitrary: opn rule: transform_messages.induct)
  case (2 N M c ts ms \<mu>)
  from 2(1) [of "[]"] 2(2-5) show ?case by simp
next
  case (3 N M r ms \<mu>)
  let ?i = "tr_toolCallId r"
  have i: "?i \<in> set opn" "answerable (removeAll ?i opn) ms" using 3(2) by simp_all
  have inj: "inj_on (result_id \<mu>) (set (removeAll ?i opn))" using 3(6) by (rule inj_on_subset) auto
  have "map (result_id \<mu>) (removeAll ?i opn) = removeAll (result_id \<mu> ?i) (map (result_id \<mu>) opn)"
    using 3(6) i(1) by (intro map_removeAll_inj_on) (simp add: insert_absorb)
  moreover have "tr_toolCallId (if truthy (\<mu> ?i) \<and> \<mu> ?i \<noteq> Some ?i then r\<lparr>tr_toolCallId := the (\<mu> ?i)\<rparr> else r) = result_id \<mu> ?i"
    by (cases "\<mu> ?i") (auto simp: result_id_def)
  ultimately show ?case using 3(1) [OF refl i(2) _ _ _ inj] 3(3-5) i(1) by (simp add: Let_def)
next
  case (4 N M am ms \<mu>)
  obtain content \<mu>' where t: "transform_blocks N M am (am_content am) \<mu> = (content, \<mu>')" by (rule prod.exhaust)
  let ?am = "am\<lparr>am_content := content\<rparr>"
  note ids = transform_blocks_ids [OF t]
  have c: "call_ids ?am = map (new_id N M am) (call_ids am)" using ids by (simp add: call_ids_def)
  have wf: "distinct (map (new_id N M am) (call_ids am))" "[] \<notin> new_id N M am ` set (call_ids am)" using 4(4) by simp_all
  have rid: "result_id \<mu>' i = new_id N M am i" if i: "i \<in> set (call_ids am)" for i
  proof -
    have "\<mu> i = None" "new_id N M am i \<noteq> []" using i 4(5) wf(2) by (auto simp: image_iff)
    moreover have "\<mu>' i = (if new_id N M am i \<noteq> i then Some (new_id N M am i) else \<mu> i)"
      using ids i by (simp add: call_ids_def)
    ultimately show ?thesis by (simp add: result_id_def)
  qed
  have none: "\<mu>' i = None" if "a \<in> set (responses ms)" "i \<in> set (call_ids a)" for a i
  proof -
    have "i \<notin> set (call_ids am)" using 4(3) that by auto
    with ids 4(5) that show ?thesis by (auto simp: call_ids_def)
  qed
  let ?opn = "if failed_response am then [] else call_ids am"
  have "inj_on (result_id \<mu>') (set (call_ids am))"
    using wf(1) rid by (auto simp: inj_on_def distinct_map)
  then have inj: "inj_on (result_id \<mu>') (set ?opn)" by simp
  have "answerable ?opn ms" "distinct (concat (map call_ids (responses ms)))" using 4(2,3) by simp_all
  note IH = 4(1) [OF t [symmetric] refl this _ _ inj]
  have "map (result_id \<mu>') (call_ids am) = map (new_id N M am) (call_ids am)" using rid by (intro map_cong) simp_all
  then have "map (result_id \<mu>') ?opn = (if failed_response am then [] else call_ids ?am)" unfolding c by simp
  moreover have "failed_response ?am = failed_response am" by (simp add: failed_response_def)
  ultimately show ?case using IH 4(4) none t wf(1) c by (auto simp del: map_eq_conv)
qed simp_all

lemma downgrade_keeps [simp]:
  "answerable opn (downgradeUnsupportedImages ms M) = answerable opn ms"
  "responses (downgradeUnsupportedImages ms M) = responses ms"
proof -
  have "answerable opn (map downgrade_message ms) = answerable opn ms \<and> responses (map downgrade_message ms) = responses ms"
  proof (induction ms arbitrary: opn)
    case (Cons m ms)
    show ?case
    proof (cases m)
      case (LlmUser c ts)
      with Cons show ?thesis by (cases c) auto
    qed (use Cons in auto)
  qed simp
  then show "answerable opn (downgradeUnsupportedImages ms M) = answerable opn ms"
    "responses (downgradeUnsupportedImages ms M) = responses ms" by (simp_all add: downgradeUnsupportedImages_def)
qed


section \<open>Example\<close>

text \<open>
  A call of another model, whose id is too long, with its result; then a failed response; then a call
  of the target model that got no result.
\<close>

definition response_of :: "string \<Rightarrow> stop_reason \<Rightarrow> string \<Rightarrow> assistant_message" where
  "response_of model reason i =
     \<lparr>am_content = [AToolCall \<lparr>tc_id = i, tc_name = ''sh'', tc_arguments = JObject [], tc_thoughtSignature = None\<rparr>],
      am_api = ''a'', am_provider = ''p'', am_model = model, am_usage = emptyUsage, am_stopReason = reason,
      am_errorMessage = None, am_timestamp = 1\<rparr>"

definition result_of :: "string \<Rightarrow> llm_message" where
  "result_of i = LlmToolResult \<lparr>tr_toolCallId = i, tr_toolName = ''sh'', tr_content = [], tr_details = None,
     tr_isError = False, tr_timestamp = 2\<rparr>"

definition mixed_history :: "llm_message list" where
  "mixed_history = [LlmUser (StrContent ''one'') 0, LlmAssistant (response_of ''old'' ToolUse ''abc''), result_of ''abc'',
     LlmAssistant (response_of ''m'' StopError ''x''), LlmAssistant (response_of ''m'' ToolUse ''y''),
     LlmUser (StrContent ''two'') 3]"

definition short_ids :: id_normalizer where
  "short_ids = Some (\<lambda>i _. take 2 i)"

definition text_model :: target_model where
  "text_model = \<lparr>tm_provider = ''p'', tm_api = ''a'', tm_id = ''m'', tm_images = False\<rparr>"

lemmas history_defs = mixed_history_def response_of_def result_of_def short_ids_def text_model_def


text \<open>
  The distinct ids are needed: when a later response of the target model reuses an id that was
  normalised before, its result is renamed and its call is not.
\<close>

lemma repeated_id_breaks_pairs:
  "answerable [] [LlmAssistant (response_of ''old'' ToolUse ''abc''), result_of ''abc'',
      LlmAssistant (response_of ''m'' ToolUse ''abc''), result_of ''abc'']"
  "\<not> answered [] (transformMessages (\<lambda>_. 9) short_ids text_model
      [LlmAssistant (response_of ''old'' ToolUse ''abc''), result_of ''abc'',
       LlmAssistant (response_of ''m'' ToolUse ''abc''), result_of ''abc''])"
proof -
  show "answerable [] [LlmAssistant (response_of ''old'' ToolUse ''abc''), result_of ''abc'',
      LlmAssistant (response_of ''m'' ToolUse ''abc''), result_of ''abc'']"
    by (simp add: history_defs failed_response_def call_ids_def)
  show "\<not> answered [] (transformMessages (\<lambda>_. 9) short_ids text_model
      [LlmAssistant (response_of ''old'' ToolUse ''abc''), result_of ''abc'',
       LlmAssistant (response_of ''m'' ToolUse ''abc''), result_of ''abc''])"
    by code_simp
qed

end
