(* ===== verification/Session_Lease.thy ===== *)
theory Session_Lease
  imports Prelude
begin

text \<open>
  Session leases (\<open>core/session-lease.ts\<close>): a directory per session file, moved into place with the owner
  inside, keeps other processes from opening the session; a lease whose owner is gone is reclaimed.
  A call runs under the guard lock of the directory, so it is one step of its process. What the
  system answers during a call (locks, processes, failing file operations) is its environment.
\<close>

section \<open>The environment of a call\<close>

datatype lock_outcome = Locked | LockBusy | LockFailed string

text \<open>What the queries for the start of a process give: \<open>/proc\<close>, \<open>ps\<close>, PowerShell.\<close>

record start_query =
  sq_stat :: "string option"
  sq_ps :: "string option"
  sq_powershell :: "string option"

record lease_env =
  le_windows :: bool
  le_alive :: "nat \<Rightarrow> bool"
  le_query :: "nat \<Rightarrow> start_query"
  le_lock :: "nat \<Rightarrow> lock_outcome"
  le_compromisedBefore :: bool
  le_compromisedAfter :: bool
  le_unlockError :: "string option"
  le_fsError :: "nat \<Rightarrow> string option"
  le_rmPartial :: bool
  le_readable :: bool
  le_now :: string

text \<open>What does not change: the random ids, path functions and the hash.\<close>

record lease_host =
  lh_uuid :: "nat \<Rightarrow> string"
  lh_resolve :: "string \<Rightarrow> string"
  lh_realpath :: "string \<Rightarrow> string option"
  lh_dirname :: "string \<Rightarrow> string"
  lh_basename :: "string \<Rightarrow> string"
  lh_join :: "string \<Rightarrow> string \<Rightarrow> string"
  lh_sha256 :: "string \<Rightarrow> string"

datatype lease_error =
    FsError string
  | SessionAlreadyActive string "string option"
  | LeaseError string

record session_lease_owner =
  lo_token :: string
  lo_pid :: nat
  lo_processStartId :: "string option"
  lo_activeSessionId :: "string option"
  lo_sessionPath :: string
  lo_createdAt :: string

record session_lease =
  sl_sessionPath :: string
  sl_directory :: string
  sl_token :: string

text \<open>A lease directory; \<open>InvalidDir\<close> has no owner file that \<open>readLeaseOwner\<close> accepts.\<close>

datatype lease_dir = NoDir | EmptyDir | InvalidDir | OwnerDir session_lease_owner

text \<open>
  The directories, and how many ids and file operations there have been. Candidate and stale
  directories have fresh names and are not kept.
\<close>

record lease_fs =
  lf_dirs :: "string \<Rightarrow> lease_dir"
  lf_uuids :: nat
  lf_ops :: nat

type_synonym 'a lease_step = "lease_fs \<Rightarrow> (lease_error + 'a) \<times> lease_fs"

section \<open>Processes\<close>

definition after_last :: "char \<Rightarrow> string \<Rightarrow> string" where
  "after_last c s = (if c \<in> set s then rev (takeWhile (\<lambda>x. x \<noteq> c) (rev s)) else s)"

text \<open>Field 19 after the command name, which is in parentheses.\<close>

definition stat_start_time :: "string \<Rightarrow> string option" where
  "stat_start_time stat =
     (let fields = split_on (CHR '' '') (drop 1 (after_last (CHR '')'') stat))
      in if 19 < length fields then Some (fields ! 19) else None)"

definition is_digit :: "char \<Rightarrow> bool" where
  "is_digit c \<longleftrightarrow> of_char c \<in> {48 .. 57 :: nat}"

definition getWindowsProcessStartId :: "nat \<Rightarrow> start_query \<Rightarrow> string option" where
  "getWindowsProcessStartId pid q =
     (if pid = 0 then None
      else case sq_powershell q of
          None \<Rightarrow> None
        | Some out \<Rightarrow> if trim out \<noteq> [] \<and> list_all is_digit (trim out) then Some (''win:'' @ trim out) else None)"

definition getPsProcessStartId :: "nat \<Rightarrow> start_query \<Rightarrow> string option" where
  "getPsProcessStartId pid q =
     (if pid = 0 then None
      else case sq_ps q of
          None \<Rightarrow> None
        | Some out \<Rightarrow> if trim out \<noteq> [] then Some (''ps:'' @ trim out) else None)"

definition getProcessStartId :: "lease_env \<Rightarrow> nat \<Rightarrow> string option" where
  "getProcessStartId E pid =
     (if pid = 0 then None
      else if le_windows E then getWindowsProcessStartId pid (le_query E pid)
      else let t = Option.bind (sq_stat (le_query E pid)) stat_start_time
           in if truthy t then Some (''proc:'' @ the t) else getPsProcessStartId pid (le_query E pid))"

text \<open>The process that makes the call; \<open>lp_startId\<close> is what \<open>getCurrentProcessStartId\<close> remembers.\<close>

record lease_process =
  lp_pid :: nat
  lp_startId :: "string option option"

definition getCurrentProcessStartId :: "lease_env \<Rightarrow> lease_process \<Rightarrow> string option" where
  "getCurrentProcessStartId E P = (case lp_startId P of Some s \<Rightarrow> s | None \<Rightarrow> getProcessStartId E (lp_pid P))"

definition isLeaseOwnerAlive :: "lease_env \<Rightarrow> session_lease_owner \<Rightarrow> bool" where
  "isLeaseOwnerAlive E owner =
     (if \<not> le_alive E (lo_pid owner) then False
      else if \<not> truthy (lo_processStartId owner) then True
      else let current = getProcessStartId E (lo_pid owner)
           in current = None \<or> current = lo_processStartId owner)"

definition readLeaseOwner :: "lease_env \<Rightarrow> string \<Rightarrow> lease_fs \<Rightarrow> session_lease_owner option" where
  "readLeaseOwner E directory fs =
     (case lf_dirs fs directory of OwnerDir owner \<Rightarrow> if le_readable E then Some owner else None | _ \<Rightarrow> None)"

text \<open>The owner of a directory, if it can be read and is alive.\<close>

definition live_owner :: "lease_env \<Rightarrow> string \<Rightarrow> lease_fs \<Rightarrow> session_lease_owner option" where
  "live_owner E directory fs =
     (case readLeaseOwner E directory fs of
        Some owner \<Rightarrow> if isLeaseOwnerAlive E owner then Some owner else None
      | None \<Rightarrow> None)"

section \<open>The guard\<close>

text \<open>Up to 100 attempts; the argument is how many are left.\<close>

fun take_lock :: "lease_env \<Rightarrow> string \<Rightarrow> nat \<Rightarrow> lease_error option" where
  "take_lock E directory 0 = Some (LeaseError (''Could not coordinate session lease: '' @ directory))"
| "take_lock E directory (Suc n) =
     (case le_lock E (99 - n) of
        Locked \<Rightarrow> None
      | LockFailed code \<Rightarrow> Some (FsError code)
      | LockBusy \<Rightarrow> take_lock E directory n)"

text \<open>\<open>release()\<close> of the lock may throw too, unless the guard was compromised.\<close>

definition withLeaseGuard :: "lease_env \<Rightarrow> string \<Rightarrow> 'a lease_step \<Rightarrow> 'a lease_step" where
  "withLeaseGuard E directory action fs =
     (let compromised = LeaseError (''Session lease guard was compromised: '' @ directory)
      in case take_lock E directory 100 of
          Some e \<Rightarrow> (Inl e, fs)
        | None \<Rightarrow>
            if le_compromisedBefore E then (Inl compromised, fs)
            else case action fs of
                (r, fs') \<Rightarrow>
                  if le_compromisedAfter E then (case r of Inl e \<Rightarrow> Inl e | Inr _ \<Rightarrow> Inl compromised, fs')
                  else case le_unlockError E of Some code \<Rightarrow> (Inl (FsError code), fs') | None \<Rightarrow> (r, fs'))"

section \<open>Acquiring\<close>

text \<open>The next file operation: the code it fails with, if it does.\<close>

definition file_op :: "lease_env \<Rightarrow> lease_fs \<Rightarrow> string option \<times> lease_fs" where
  "file_op E fs = (le_fsError E (lf_ops fs), fs\<lparr>lf_ops := Suc (lf_ops fs)\<rparr>)"

definition set_dir :: "string \<Rightarrow> lease_dir \<Rightarrow> lease_fs \<Rightarrow> lease_fs" where
  "set_dir directory d fs = fs\<lparr>lf_dirs := (lf_dirs fs)(directory := d)\<rparr>"

text \<open>The directory is moved away, if it is there, then removed; its result is not used.\<close>

definition reclaimStaleLease :: "lease_env \<Rightarrow> string \<Rightarrow> unit lease_step" where
  "reclaimStaleLease E directory fs =
     (case file_op E fs of
        (Some code, fs1) \<Rightarrow> (Inr (), fs1)
      | (None, fs1) \<Rightarrow>
          if lf_dirs fs1 directory = NoDir then (Inr (), fs1)
          else (case file_op E (set_dir directory NoDir fs1) of
                  (Some code, fs2) \<Rightarrow> (Inl (FsError code), fs2)
                | (None, fs2) \<Rightarrow> (Inr (), fs2)))"

text \<open>\<open>renameSync\<close> onto the directory succeeds when there is none or an empty one.\<close>

definition rename_candidate :: "lease_env \<Rightarrow> string \<Rightarrow> session_lease_owner \<Rightarrow> lease_fs \<Rightarrow> string option \<times> lease_fs" where
  "rename_candidate E directory owner fs =
     (case file_op E fs of
        (Some code, fs1) \<Rightarrow> (Some code, fs1)
      | (None, fs1) \<Rightarrow>
          if lf_dirs fs1 directory = NoDir \<or> lf_dirs fs1 directory = EmptyDir
          then (None, set_dir directory (OwnerDir owner) fs1)
          else (Some ''ENOTEMPTY'', fs1))"

fun acquire_attempts ::
  "lease_host \<Rightarrow> lease_env \<Rightarrow> lease_process \<Rightarrow> string option \<Rightarrow> string \<Rightarrow> string \<Rightarrow> nat \<Rightarrow> session_lease lease_step" where
  "acquire_attempts H E P ownerId path directory 0 fs =
     (case live_owner E directory fs of
        Some owner \<Rightarrow> (Inl (SessionAlreadyActive path (lo_activeSessionId owner)), fs)
      | None \<Rightarrow> (Inl (LeaseError (''Could not acquire session lease: '' @ path)), fs))"
| "acquire_attempts H E P ownerId path directory (Suc n) fs =
     (let token = lh_uuid H (lf_uuids fs);
          owner = \<lparr>lo_token = token, lo_pid = lp_pid P, lo_processStartId = getCurrentProcessStartId E P,
            lo_activeSessionId = ownerId, lo_sessionPath = path, lo_createdAt = le_now E\<rparr>;
          (mkdir, fs1) = file_op E (fs\<lparr>lf_uuids := Suc (lf_uuids fs)\<rparr>)
      in case mkdir of
          Some code \<Rightarrow> (Inl (FsError code), fs1)
        | None \<Rightarrow>
            let (write, fs2) = file_op E fs1
            in case write of
                Some code \<Rightarrow> (Inl (FsError code), fs2)
              | None \<Rightarrow>
                  let (rename, fs3) = rename_candidate E directory owner fs2
                  in case rename of
                      None \<Rightarrow> (Inr \<lparr>sl_sessionPath = path, sl_directory = directory, sl_token = token\<rparr>, fs3)
                    | Some code \<Rightarrow>
                        let (rm, fs4) = file_op E fs3
                        in case rm of
                            Some rmCode \<Rightarrow> (Inl (FsError rmCode), fs4)
                          | None \<Rightarrow>
                              if code \<noteq> ''EEXIST'' \<and> code \<noteq> ''ENOTEMPTY'' then (Inl (FsError code), fs4)
                              else (case live_owner E directory fs4 of
                                  Some existing \<Rightarrow> (Inl (SessionAlreadyActive path (lo_activeSessionId existing)), fs4)
                                | None \<Rightarrow> (case reclaimStaleLease E directory fs4 of
                                      (Inl e, fs5) \<Rightarrow> (Inl e, fs5)
                                    | (Inr _, fs5) \<Rightarrow> acquire_attempts H E P ownerId path directory n fs5)))"

definition lower :: "string \<Rightarrow> string" where
  "lower s = map (\<lambda>c. if of_char c \<in> {65 .. 90 :: nat} then char_of (of_char c + 32 :: nat) else c) s"

definition leasesEnabled :: "string option \<Rightarrow> bool" where
  "leasesEnabled value = (case value of None \<Rightarrow> False | Some v \<Rightarrow> lower v \<in> {''1'', ''true'', ''yes''})"

definition leaseDirectory :: "lease_host \<Rightarrow> string \<Rightarrow> string \<Rightarrow> string" where
  "leaseDirectory H agentDir sessionPath =
     lh_join H (lh_join H agentDir ''session-leases'') (lh_sha256 H sessionPath @ ''.lock'')"

definition canonicalSessionPath :: "lease_host \<Rightarrow> string \<Rightarrow> string" where
  "canonicalSessionPath H sessionPath =
     (let resolved = lh_resolve H sessionPath
      in case lh_realpath H resolved of
          Some p \<Rightarrow> p
        | None \<Rightarrow>
            (case lh_realpath H (lh_dirname H resolved) of
               Some d \<Rightarrow> lh_join H d (lh_basename H resolved)
             | None \<Rightarrow> resolved))"

text \<open>
  \<open>enabled\<close> and \<open>ownerId\<close> are the two environment variables. The first \<open>mkdirSync\<close> is the one of the
  directory of all leases.
\<close>

definition acquireSessionLease ::
  "lease_host \<Rightarrow> lease_env \<Rightarrow> lease_process \<Rightarrow> string option \<Rightarrow> string option \<Rightarrow> string option \<Rightarrow> string
     \<Rightarrow> session_lease option lease_step" where
  "acquireSessionLease H E P enabled ownerId sessionPath agentDir fs =
     (if \<not> truthy sessionPath \<or> \<not> leasesEnabled enabled then (Inr None, fs)
      else let path = canonicalSessionPath H (the sessionPath);
               directory = leaseDirectory H agentDir path
           in case file_op E fs of
               (Some code, fs1) \<Rightarrow> (Inl (FsError code), fs1)
             | (None, fs1) \<Rightarrow>
                 (case withLeaseGuard E directory (acquire_attempts H E P ownerId path directory 3) fs1 of
                    (Inl e, fs2) \<Rightarrow> (Inl e, fs2)
                  | (Inr l, fs2) \<Rightarrow> (Inr (Some l), fs2)))"

section \<open>Releasing\<close>

text \<open>A removal that fails may have removed the owner file.\<close>

definition remove_lease :: "lease_env \<Rightarrow> session_lease \<Rightarrow> unit lease_step" where
  "remove_lease E l fs =
     (case readLeaseOwner E (sl_directory l) fs of
        None \<Rightarrow> (Inr (), fs)
      | Some owner \<Rightarrow>
          if lo_token owner = sl_token l then
            (case file_op E fs of
               (Some code, fs1) \<Rightarrow> (Inl (FsError code), if le_rmPartial E then set_dir (sl_directory l) EmptyDir fs1 else fs1)
             | (None, fs1) \<Rightarrow> (Inr (), set_dir (sl_directory l) NoDir fs1))
          else (Inr (), fs))"

text \<open>\<open>release\<close> of a lease that was not released yet; it never throws.\<close>

definition releaseLease :: "lease_env \<Rightarrow> session_lease \<Rightarrow> lease_fs \<Rightarrow> lease_fs" where
  "releaseLease E l fs = snd (withLeaseGuard E (sl_directory l) (remove_lease E l) fs)"

end
