(* ===== verification/Session_Lease_Props.thy ===== *)
theory Session_Lease_Props
  imports Session_Lease
begin

text \<open>
  Leases exclude each other: whatever processes acquire, release, start and die, two leases held at
  the same time are of different sessions. A session without a live owner can be acquired.
\<close>

section \<open>What a call changes\<close>

lemma file_op_dirs [simp]: "lf_dirs (snd (file_op E fs)) = lf_dirs fs"
  by (simp add: file_op_def)

lemma file_op_dirsD: "file_op E fs = (r, fs') \<Longrightarrow> lf_dirs fs' = lf_dirs fs"
  by (auto simp: file_op_def)

lemma live_owner_dirs: "lf_dirs fs' d = lf_dirs fs d \<Longrightarrow> live_owner E d fs' = live_owner E d fs"
  by (simp add: live_owner_def readLeaseOwner_def)

lemma live_owner_dir: "live_owner E d fs = Some owner \<Longrightarrow> lf_dirs fs d = OwnerDir owner"
  by (auto simp: live_owner_def readLeaseOwner_def split: lease_dir.splits if_splits option.splits)

lemma set_dir_dirs [simp]: "lf_dirs (set_dir d x fs) = (lf_dirs fs)(d := x)"
  by (simp add: set_dir_def)

lemma reclaim_frame:
  assumes "reclaimStaleLease E d fs = (r, fs')" "d' \<noteq> d"
  shows "lf_dirs fs' d' = lf_dirs fs d'"
  using assms by (auto simp: reclaimStaleLease_def split: prod.splits option.splits if_splits dest!: file_op_dirsD)

lemma rename_spec:
  assumes "rename_candidate E d owner fs = (r, fs')"
  shows "(case r of None \<Rightarrow> lf_dirs fs' = (lf_dirs fs)(d := OwnerDir owner) \<and> (lf_dirs fs d = NoDir \<or> lf_dirs fs d = EmptyDir)
    | Some _ \<Rightarrow> lf_dirs fs' = lf_dirs fs)"
  using assms by (auto simp: rename_candidate_def split: prod.splits option.splits if_splits dest!: file_op_dirsD)

text \<open>
  The attempts: other directories stay, a live owner stays and is reported, and a lease that is
  returned is the one in the directory.
\<close>

lemma acquire_attempts_spec:
  assumes "acquire_attempts H E P ownerId path d n fs = (r, fs')"
  shows "(\<forall>d'. d' \<noteq> d \<longrightarrow> lf_dirs fs' d' = lf_dirs fs d')
    \<and> (live_owner E d fs \<noteq> None \<longrightarrow> lf_dirs fs' d = lf_dirs fs d \<and> (\<forall>l. r \<noteq> Inr l))
    \<and> (\<forall>l. r = Inr l \<longrightarrow> sl_directory l = d \<and> (\<exists>owner. lf_dirs fs' d = OwnerDir owner \<and> lo_token owner = sl_token l
        \<and> lo_pid owner = lp_pid P \<and> lo_processStartId owner = getCurrentProcessStartId E P
        \<and> lo_sessionPath owner = sl_sessionPath l))"
  using assms
proof (induction n arbitrary: fs)
  case 0
  then show ?case by (auto split: option.splits)
next
  case (Suc n)
  let ?owner = "\<lparr>lo_token = lh_uuid H (lf_uuids fs), lo_pid = lp_pid P, lo_processStartId = getCurrentProcessStartId E P,
    lo_activeSessionId = ownerId, lo_sessionPath = path, lo_createdAt = le_now E\<rparr>"
  obtain m fs1 where 1: "file_op E (fs\<lparr>lf_uuids := Suc (lf_uuids fs)\<rparr>) = (m, fs1)" by (rule prod.exhaust)
  obtain wr fs2 where 2: "file_op E fs1 = (wr, fs2)" by (rule prod.exhaust)
  obtain rn fs3 where 3: "rename_candidate E d ?owner fs2 = (rn, fs3)" by (rule prod.exhaust)
  obtain rm fs4 where 4: "file_op E fs3 = (rm, fs4)" by (rule prod.exhaust)
  obtain rc fs5 where 5: "reclaimStaleLease E d fs4 = (rc, fs5)" by (rule prod.exhaust)
  have d1: "lf_dirs fs1 = lf_dirs fs" using file_op_dirsD [OF 1] by simp
  have d2: "lf_dirs fs2 = lf_dirs fs" using file_op_dirsD [OF 2] d1 by simp
  have d4: "lf_dirs fs4 = lf_dirs fs3" using file_op_dirsD [OF 4] .
  note d3 = rename_spec [OF 3, unfolded d2]
  show ?case
  proof (cases m)
    case (Some code)
    with Suc.prems 1 d1 show ?thesis by auto
  next
    case m: None
    show ?thesis
    proof (cases wr)
      case (Some code)
      with Suc.prems 1 2 m d2 show ?thesis by auto
    next
      case wr: None
      show ?thesis
      proof (cases rn)
        case None
        with Suc.prems 1 2 3 m wr d3 live_owner_dir [of E d fs] show ?thesis by auto
      next
        case rn: (Some code)
        with d3 d4 have d34: "lf_dirs fs3 = lf_dirs fs" "lf_dirs fs4 = lf_dirs fs" by simp_all
        note run = Suc.prems 1 2 3 4 m wr rn
        have live: "live_owner E d fs4 = live_owner E d fs" by (rule live_owner_dirs) (simp add: d34)
        show ?thesis
        proof (cases rm)
          case (Some rmCode)
          with run d34 show ?thesis by auto
        next
          case rm: None
          show ?thesis
          proof (cases "code \<noteq> ''EEXIST'' \<and> code \<noteq> ''ENOTEMPTY''")
            case True
            with run rm d34 show ?thesis by auto
          next
            case retry: False
            show ?thesis
            proof (cases "live_owner E d fs4")
              case l: (Some existing)
              with run rm retry d34 show ?thesis by auto
            next
              case dead: None
              show ?thesis
              proof (cases rc)
                case (Inl e)
                with run rm retry 5 dead live d34 reclaim_frame [OF 5] show ?thesis by auto
              next
                case (Inr u)
                with run rm retry 5 dead have "acquire_attempts H E P ownerId path d n fs5 = (r, fs')" by auto
                from Suc.IH [OF this] reclaim_frame [OF 5] d34 dead live show ?thesis by simp
              qed
            qed
          qed
        qed
      qed
    qed
  qed
qed

declare acquire_attempts.simps [simp del]

lemma guard_cases:
  assumes "withLeaseGuard E d action fs = (r, fs')"
  shows "(\<exists>e. r = Inl e) \<and> fs' = fs \<or> (\<exists>r0. action fs = (r0, fs') \<and> (r = r0 \<or> (\<exists>e. r = Inl e)))"
  using assms by (auto simp: withLeaseGuard_def Let_def split: option.splits if_splits prod.splits sum.splits)

lemma acquire_spec:
  assumes "acquireSessionLease H E P enabled ownerId sessionPath agentDir fs = (r, fs')"
  shows "\<exists>d. (\<forall>d'. d' \<noteq> d \<longrightarrow> lf_dirs fs' d' = lf_dirs fs d')
    \<and> (live_owner E d fs \<noteq> None \<longrightarrow> lf_dirs fs' d = lf_dirs fs d \<and> (\<forall>l. r \<noteq> Inr (Some l)))
    \<and> (\<forall>l. r = Inr (Some l) \<longrightarrow> sl_directory l = d \<and> (\<exists>owner. lf_dirs fs' d = OwnerDir owner \<and> lo_token owner = sl_token l
        \<and> lo_pid owner = lp_pid P \<and> lo_processStartId owner = getCurrentProcessStartId E P
        \<and> lo_sessionPath owner = sl_sessionPath l))"
proof (cases "\<not> truthy sessionPath \<or> \<not> leasesEnabled enabled")
  case True
  with assms show ?thesis by (auto simp: acquireSessionLease_def)
next
  case False
  let ?path = "canonicalSessionPath H (the sessionPath)"
  let ?d = "leaseDirectory H agentDir ?path"
  let ?action = "acquire_attempts H E P ownerId ?path ?d 3"
  obtain m fs1 where 1: "file_op E fs = (m, fs1)" by (rule prod.exhaust)
  note d1 = file_op_dirsD [OF 1]
  obtain q fs2 where 2: "withLeaseGuard E ?d ?action fs1 = (q, fs2)" by (rule prod.exhaust)
  show ?thesis
  proof (cases m)
    case (Some code)
    with assms False 1 d1 show ?thesis by (auto simp: acquireSessionLease_def Let_def)
  next
    case None
    have r: "fs' = fs2" "r = (case q of Inl e \<Rightarrow> Inl e | Inr l \<Rightarrow> Inr (Some l))"
      using assms False 1 2 None by (auto simp: acquireSessionLease_def Let_def split: sum.splits)
    have live: "live_owner E ?d fs1 = live_owner E ?d fs" by (rule live_owner_dirs) (simp add: d1)
    from guard_cases [OF 2] show ?thesis
    proof (elim disjE conjE exE)
      fix e assume "q = Inl e" "fs2 = fs1"
      with r d1 show ?thesis by auto
    next
      fix r0 assume a: "?action fs1 = (r0, fs2)" and "q = r0"
      from acquire_attempts_spec [OF a] \<open>q = r0\<close> show ?thesis unfolding r d1 live by (intro exI [of _ ?d]) (auto split: sum.splits)
    next
      fix r0 e assume a: "?action fs1 = (r0, fs2)" and "q = Inl e"
      from acquire_attempts_spec [OF a] \<open>q = Inl e\<close> show ?thesis unfolding r d1 live by (intro exI [of _ ?d]) auto
    qed
  qed
qed

text \<open>A release takes away at most the directory of its own lease.\<close>

lemma release_spec:
  shows "d \<noteq> sl_directory l \<Longrightarrow> lf_dirs (releaseLease E l fs) d = lf_dirs fs d"
    "lf_dirs fs (sl_directory l) = OwnerDir owner \<Longrightarrow> lo_token owner \<noteq> sl_token l \<Longrightarrow>
       lf_dirs (releaseLease E l fs) (sl_directory l) = OwnerDir owner"
proof -
  obtain r fs' where g: "withLeaseGuard E (sl_directory l) (remove_lease E l) fs = (r, fs')" by (rule prod.exhaust)
  then have f: "releaseLease E l fs = fs'" by (simp add: releaseLease_def)
  have other: "remove_lease E l fs = (q, fs') \<Longrightarrow> d \<noteq> sl_directory l \<Longrightarrow> lf_dirs fs' d = lf_dirs fs d" for q d
    by (auto simp: remove_lease_def split: option.splits if_splits prod.splits dest!: file_op_dirsD)
  have own: "remove_lease E l fs = (q, fs') \<Longrightarrow> lf_dirs fs (sl_directory l) = OwnerDir owner \<Longrightarrow> lo_token owner \<noteq> sl_token l
      \<Longrightarrow> lf_dirs fs' (sl_directory l) = OwnerDir owner" for q
    by (auto simp: remove_lease_def readLeaseOwner_def split: option.splits if_splits prod.splits lease_dir.splits dest!: file_op_dirsD)
  show "d \<noteq> sl_directory l \<Longrightarrow> lf_dirs (releaseLease E l fs) d = lf_dirs fs d"
    unfolding f using guard_cases [OF g] other by blast
  show "lf_dirs fs (sl_directory l) = OwnerDir owner \<Longrightarrow> lo_token owner \<noteq> sl_token l \<Longrightarrow>
       lf_dirs (releaseLease E l fs) (sl_directory l) = OwnerDir owner"
    unfolding f using guard_cases [OF g] own by blast
qed

section \<open>Processes and their leases\<close>

text \<open>A process: its identity as the queries give it, and what it remembers of it.\<close>

record host_process =
  pr_start :: string
  pr_cache :: "string option option"

record lease_system =
  sys_fs :: lease_fs
  sys_procs :: "nat \<Rightarrow> host_process option"
  sys_held :: "(nat \<times> session_lease) list"

text \<open>
  What the system calls promise: a living process is found alive, a query for its identity gives the
  same id or nothing, and owner files can be read.
\<close>

definition system_answers :: "lease_env \<Rightarrow> lease_system \<Rightarrow> bool" where
  "system_answers E sys \<longleftrightarrow> le_readable E
     \<and> (\<forall>p pr. sys_procs sys p = Some pr \<longrightarrow> le_alive E p \<and> getProcessStartId E p \<in> {None, Some (pr_start pr)})"

inductive lease_step :: "lease_host \<Rightarrow> lease_system \<Rightarrow> lease_system \<Rightarrow> bool" for H where
  start: "sys_procs sys p = None \<Longrightarrow>
    lease_step H sys (sys\<lparr>sys_procs := (sys_procs sys)(p \<mapsto> \<lparr>pr_start = s, pr_cache = None\<rparr>)\<rparr>)"
| exit: "lease_step H sys (sys\<lparr>sys_procs := (sys_procs sys)(p := None), sys_held := filter (\<lambda>h. fst h \<noteq> p) (sys_held sys)\<rparr>)"
| acquire: "sys_procs sys p = Some pr \<Longrightarrow> system_answers E sys \<Longrightarrow> P = \<lparr>lp_pid = p, lp_startId = pr_cache pr\<rparr> \<Longrightarrow>
    acquireSessionLease H E P enabled ownerId sessionPath agentDir (sys_fs sys) = (r, fs') \<Longrightarrow>
    cache \<in> {pr_cache pr, Some (getCurrentProcessStartId E P)} \<Longrightarrow>
    lease_step H sys (sys\<lparr>sys_fs := fs', sys_procs := (sys_procs sys)(p \<mapsto> pr\<lparr>pr_cache := cache\<rparr>),
      sys_held := (case r of Inr (Some l) \<Rightarrow> [(p, l)] | _ \<Rightarrow> []) @ sys_held sys\<rparr>)"
| release: "(p, l) \<in> set (sys_held sys) \<Longrightarrow> system_answers E sys \<Longrightarrow>
    lease_step H sys (sys\<lparr>sys_fs := releaseLease E l (sys_fs sys), sys_held := removeAll (p, l) (sys_held sys)\<rparr>)"

text \<open>The owner file of a held lease.\<close>

definition owned :: "lease_system \<Rightarrow> nat \<Rightarrow> session_lease \<Rightarrow> bool" where
  "owned sys p l \<longleftrightarrow> (\<exists>pr owner. sys_procs sys p = Some pr \<and> lf_dirs (sys_fs sys) (sl_directory l) = OwnerDir owner
     \<and> lo_token owner = sl_token l \<and> lo_pid owner = p \<and> lo_sessionPath owner = sl_sessionPath l
     \<and> lo_processStartId owner \<in> {None, Some (pr_start pr)})"

definition lease_invariant :: "lease_system \<Rightarrow> bool" where
  "lease_invariant sys \<longleftrightarrow> (\<forall>(p, l)\<in>set (sys_held sys). owned sys p l)
     \<and> (\<forall>p pr. sys_procs sys p = Some pr \<longrightarrow> pr_cache pr \<in> {None, Some None, Some (Some (pr_start pr))})"

lemma owned_live:
  assumes "owned sys p l" "system_answers E sys"
  shows "live_owner E (sl_directory l) (sys_fs sys) \<noteq> None"
proof -
  from assms(1) obtain pr owner where o: "sys_procs sys p = Some pr" "lf_dirs (sys_fs sys) (sl_directory l) = OwnerDir owner"
    "lo_pid owner = p" "lo_processStartId owner \<in> {None, Some (pr_start pr)}" by (auto simp: owned_def)
  with assms(2) have "le_readable E" "le_alive E p" "getProcessStartId E p \<in> {None, Some (pr_start pr)}"
    by (auto simp: system_answers_def)
  with o have "isLeaseOwnerAlive E owner" by (auto simp: isLeaseOwnerAlive_def Let_def)
  with o \<open>le_readable E\<close> show ?thesis by (simp add: live_owner_def readLeaseOwner_def)
qed

lemma owned_same:
  assumes "owned sys p l" "owned sys q l'" "sl_directory l = sl_directory l'"
  shows "p = q \<and> l = l'"
  using assms unfolding owned_def by auto

lemma owned_kept:
  assumes "owned sys p l" "lf_dirs (sys_fs sys') (sl_directory l) = lf_dirs (sys_fs sys) (sl_directory l)"
    and "\<And>pr. sys_procs sys p = Some pr \<Longrightarrow> \<exists>pr'. sys_procs sys' p = Some pr' \<and> pr_start pr' = pr_start pr"
  shows "owned sys' p l"
proof -
  from assms(1) obtain pr owner where o: "sys_procs sys p = Some pr" "lf_dirs (sys_fs sys) (sl_directory l) = OwnerDir owner"
    "lo_token owner = sl_token l" "lo_pid owner = p" "lo_sessionPath owner = sl_sessionPath l"
    "lo_processStartId owner \<in> {None, Some (pr_start pr)}" unfolding owned_def by blast
  from assms(3) [OF o(1)] obtain pr' where "sys_procs sys' p = Some pr'" "pr_start pr' = pr_start pr" by blast
  with o assms(2) show ?thesis unfolding owned_def by metis
qed

lemma acquire_keeps:
  assumes inv: "lease_invariant sys" and p: "sys_procs sys p = Some pr" and env: "system_answers E sys"
    and P: "P = \<lparr>lp_pid = p, lp_startId = pr_cache pr\<rparr>"
    and a: "acquireSessionLease H E P enabled ownerId sessionPath agentDir (sys_fs sys) = (r, fs')"
    and c: "cache \<in> {pr_cache pr, Some (getCurrentProcessStartId E P)}"
  shows "lease_invariant (sys\<lparr>sys_fs := fs', sys_procs := (sys_procs sys)(p \<mapsto> pr\<lparr>pr_cache := cache\<rparr>),
      sys_held := (case r of Inr (Some l) \<Rightarrow> [(p, l)] | _ \<Rightarrow> []) @ sys_held sys\<rparr>)"
    (is "lease_invariant ?sys'")
proof -
  have old: "pr_cache pr \<in> {None, Some None, Some (Some (pr_start pr))}" using inv p unfolding lease_invariant_def by blast
  have cur: "getCurrentProcessStartId E P \<in> {None, Some (pr_start pr)}"
  proof (cases "pr_cache pr")
    case None
    with P env p show ?thesis by (auto simp: getCurrentProcessStartId_def system_answers_def)
  next
    case (Some v)
    with old have "v \<in> {None, Some (pr_start pr)}" by auto
    with Some P show ?thesis by (simp add: getCurrentProcessStartId_def)
  qed
  from acquire_spec [OF a] obtain d where
    other: "\<And>d'. d' \<noteq> d \<Longrightarrow> lf_dirs fs' d' = lf_dirs (sys_fs sys) d'" and
    live: "live_owner E d (sys_fs sys) \<noteq> None \<Longrightarrow> lf_dirs fs' d = lf_dirs (sys_fs sys) d \<and> (\<forall>l. r \<noteq> Inr (Some l))" and
    got: "\<And>l. r = Inr (Some l) \<Longrightarrow> sl_directory l = d \<and> (\<exists>owner. lf_dirs fs' d = OwnerDir owner \<and> lo_token owner = sl_token l
        \<and> lo_pid owner = lp_pid P \<and> lo_processStartId owner = getCurrentProcessStartId E P
        \<and> lo_sessionPath owner = sl_sessionPath l)" by blast
  have "owned ?sys' q l" if h: "(q, l) \<in> set (sys_held sys)" for q l
  proof -
    from inv h have o: "owned sys q l" by (auto simp: lease_invariant_def)
    have "lf_dirs fs' (sl_directory l) = lf_dirs (sys_fs sys) (sl_directory l)"
      using other [of "sl_directory l"] live owned_live [OF o env] by (cases "sl_directory l = d") auto
    then show ?thesis using p by (intro owned_kept [OF o]) auto
  qed
  moreover have "owned ?sys' p l" if "r = Inr (Some l)" for l
    using got [OF that] cur P by (auto simp: owned_def)
  moreover have "pr_cache (pr\<lparr>pr_cache := cache\<rparr>) \<in> {None, Some None, Some (Some (pr_start pr))}"
    using c cur old by auto
  ultimately show ?thesis using inv by (auto simp: lease_invariant_def split: sum.splits option.splits)
qed

lemma lease_step_keeps:
  assumes "lease_step H sys sys'" "lease_invariant sys"
  shows "lease_invariant sys'"
  using assms
proof cases
  case (start p s)
  have "owned sys' q l" if h: "(q, l) \<in> set (sys_held sys)" for q l
  proof -
    from assms(2) h have o: "owned sys q l" by (auto simp: lease_invariant_def)
    then have "q \<noteq> p" using start(2) by (auto simp: owned_def)
    then show ?thesis by (intro owned_kept [OF o]) (auto simp: start(1))
  qed
  with assms(2) show ?thesis unfolding start(1) by (auto simp: lease_invariant_def)
next
  case (exit p)
  have "owned sys' q l" if h: "(q, l) \<in> set (sys_held sys)" "q \<noteq> p" for q l
  proof -
    from assms(2) h have o: "owned sys q l" by (auto simp: lease_invariant_def)
    then show ?thesis using h(2) by (intro owned_kept [OF o]) (auto simp: exit(1))
  qed
  with assms(2) show ?thesis unfolding exit(1) by (auto simp: lease_invariant_def)
next
  case (acquire p pr E P enabled ownerId sessionPath agentDir r fs' cache)
  from acquire_keeps [OF assms(2) acquire(2-6)] show ?thesis unfolding acquire(1) .
next
  case (release p l E)
  have "owned sys' q l'" if h: "(q, l') \<in> set (sys_held sys)" "(q, l') \<noteq> (p, l)" for q l'
  proof -
    from assms(2) h release(2) have o: "owned sys q l'" "owned sys p l" by (auto simp: lease_invariant_def)
    then have "sl_directory l' \<noteq> sl_directory l" using owned_same [OF o] h(2) by auto
    then show ?thesis using o(1) by (intro owned_kept [OF o(1)]) (auto simp: release(1) release_spec(1))
  qed
  with assms(2) show ?thesis unfolding release(1) by (auto simp: lease_invariant_def)
qed


section \<open>A free session can be opened\<close>

definition calls_succeed :: "lease_env \<Rightarrow> bool" where
  "calls_succeed E \<longleftrightarrow> le_lock E 0 = Locked \<and> \<not> le_compromisedBefore E \<and> \<not> le_compromisedAfter E
     \<and> le_unlockError E = None \<and> le_fsError E = (\<lambda>_. None)"

lemma file_op_ok: "le_fsError E = (\<lambda>_. None) \<Longrightarrow> file_op E fs = (None, fs\<lparr>lf_ops := Suc (lf_ops fs)\<rparr>)"
  by (simp add: file_op_def)

lemma reclaim_ok:
  assumes "le_fsError E = (\<lambda>_. None)"
  shows "\<exists>fs'. reclaimStaleLease E d fs = (Inr (), fs') \<and> lf_dirs fs' d = NoDir"
  using assms by (cases "lf_dirs fs d = NoDir") (simp_all add: reclaimStaleLease_def file_op_ok)

lemma acquire_empty:
  assumes "le_fsError E = (\<lambda>_. None)" "lf_dirs fs d = NoDir \<or> lf_dirs fs d = EmptyDir"
  shows "\<exists>l fs'. acquire_attempts H E P ownerId path d (Suc n) fs = (Inr l, fs')"
  using assms by (simp add: acquire_attempts.simps file_op_ok Let_def rename_candidate_def)

lemma acquire_dead:
  assumes "le_fsError E = (\<lambda>_. None)" "live_owner E d fs = None"
  shows "\<exists>l fs'. acquire_attempts H E P ownerId path d (Suc (Suc n)) fs = (Inr l, fs')"
proof (cases "lf_dirs fs d = NoDir \<or> lf_dirs fs d = EmptyDir")
  case True
  with acquire_empty [OF assms(1)] show ?thesis by blast
next
  case False
  define fs4 where "fs4 = fs\<lparr>lf_uuids := Suc (lf_uuids fs), lf_ops := Suc (Suc (Suc (Suc (lf_ops fs))))\<rparr>"
  have live: "live_owner E d fs4 = None" using assms(2) live_owner_dirs [of fs4 d fs E] by (simp add: fs4_def)
  from reclaim_ok [OF assms(1)] obtain fs5 where r: "reclaimStaleLease E d fs4 = (Inr (), fs5)" "lf_dirs fs5 d = NoDir"
    by blast
  have "acquire_attempts H E P ownerId path d (Suc (Suc n)) fs = acquire_attempts H E P ownerId path d (Suc n) fs5"
    using False assms(1) live r(1)
    by (subst acquire_attempts.simps) (simp add: file_op_ok Let_def rename_candidate_def fs4_def [symmetric])
  with acquire_empty [OF assms(1) disjI1 [OF r(2)]] show ?thesis by metis
qed

text \<open>
  C40. A session whose lease is free or left by a dead process can be leased: when the calls succeed
  and the lock is taken, acquiring gives the lease and leaves its owner in place.
\<close>

theorem lease_available:
  assumes "truthy sessionPath" "leasesEnabled enabled" "calls_succeed E"
    and "live_owner E (leaseDirectory H agentDir (canonicalSessionPath H (the sessionPath))) fs = None"
  shows "\<exists>l owner fs'. acquireSessionLease H E P enabled ownerId sessionPath agentDir fs = (Inr (Some l), fs')
    \<and> lf_dirs fs' (sl_directory l) = OwnerDir owner \<and> lo_pid owner = lp_pid P \<and> lo_token owner = sl_token l"
proof -
  let ?path = "canonicalSessionPath H (the sessionPath)"
  let ?d = "leaseDirectory H agentDir ?path"
  have ok: "le_fsError E = (\<lambda>_. None)" "take_lock E ?d 100 = None"
    using assms(3) by (simp_all add: calls_succeed_def numeral_eq_Suc)
  define fs1 where "fs1 = fs\<lparr>lf_ops := Suc (lf_ops fs)\<rparr>"
  have "live_owner E ?d fs1 = None" using assms(4) live_owner_dirs [of fs1 ?d fs E] by (simp add: fs1_def)
  from acquire_dead [OF ok(1) this] obtain l fs' where
    a: "acquire_attempts H E P ownerId ?path ?d 3 fs1 = (Inr l, fs')" by (metis numeral_3_eq_3)
  have "withLeaseGuard E ?d (acquire_attempts H E P ownerId ?path ?d 3) fs1 = (Inr l, fs')"
    using a ok(2) assms(3) by (simp add: withLeaseGuard_def calls_succeed_def Let_def)
  then have "acquireSessionLease H E P enabled ownerId sessionPath agentDir fs = (Inr (Some l), fs')"
    using assms(1,2) ok(1) by (simp add: acquireSessionLease_def Let_def file_op_ok fs1_def)
  with acquire_attempts_spec [OF a] show ?thesis by auto
qed

section \<open>Example\<close>

definition demo_lease_host :: lease_host where
  "demo_lease_host = \<lparr>lh_uuid = (\<lambda>n. dec n), lh_resolve = id, lh_realpath = Some, lh_dirname = id, lh_basename = id,
     lh_join = (\<lambda>a b. a @ ''/'' @ b), lh_sha256 = id\<rparr>"

definition demo_lease_env :: "(nat \<Rightarrow> bool) \<Rightarrow> lease_env" where
  "demo_lease_env alive = \<lparr>le_windows = False, le_alive = alive,
     le_query = (\<lambda>p. \<lparr>sq_stat = None, sq_ps = None, sq_powershell = None\<rparr>), le_lock = (\<lambda>_. Locked),
     le_compromisedBefore = False, le_compromisedAfter = False, le_unlockError = None, le_fsError = (\<lambda>_. None),
     le_rmPartial = False, le_readable = True, le_now = ''t''\<rparr>"

definition no_leases :: lease_fs where
  "no_leases = \<lparr>lf_dirs = (\<lambda>_. NoDir), lf_uuids = 0, lf_ops = 0\<rparr>"

lemma demo_lease_calls [simp]: "calls_succeed (demo_lease_env alive)" "le_readable (demo_lease_env alive)" "getProcessStartId (demo_lease_env alive) p = None"
  by (simp_all add: calls_succeed_def demo_lease_env_def getProcessStartId_def getPsProcessStartId_def Let_def)

lemma demo_lease_free [simp]: "live_owner E d no_leases = None"
  by (simp add: live_owner_def readLeaseOwner_def no_leases_def)

theorem lease_available_witness:
  "\<exists>l fs'. acquireSessionLease demo_lease_host (demo_lease_env (\<lambda>_. True)) \<lparr>lp_pid = 7, lp_startId = None\<rparr> (Some ''TRUE'') None
      (Some ''s'') ''d'' no_leases = (Inr (Some l), fs')"
proof -
  have "truthy (Some ''s'')" by simp
  moreover have "leasesEnabled (Some ''TRUE'')" by code_simp
  ultimately show ?thesis using lease_available [OF _ _ demo_lease_calls(1) demo_lease_free] by blast
qed


text \<open>
  When the guard is lost after the directory was moved into place, the call throws, no lease is
  returned, and the session stays owned by the living process.
\<close>

lemma lost_guard_keeps_directory:
  assumes "le_fsError E = (\<lambda>_. None)" "le_lock E 0 = Locked" "\<not> le_compromisedBefore E" "le_compromisedAfter E"
    and "lf_dirs fs d = NoDir"
  shows "\<exists>e fs' owner. withLeaseGuard E d (acquire_attempts H E P ownerId path d 3) fs = (Inl e, fs')
    \<and> lf_dirs fs' d = OwnerDir owner \<and> lo_pid owner = lp_pid P"
proof -
  have lock: "take_lock E d 100 = None" using assms(2) by (simp add: numeral_eq_Suc)
  from acquire_empty [OF assms(1) disjI1 [OF assms(5)]] obtain l fs' where
    a: "acquire_attempts H E P ownerId path d 3 fs = (Inr l, fs')" by (metis numeral_3_eq_3)
  with acquire_attempts_spec [OF a] lock assms(3,4) show ?thesis by (auto simp: withLeaseGuard_def Let_def)
qed

end
