(* ===== verification/Index_Of.thy ===== *)
theory Index_Of
  imports Utf "HOL-Library.Sublist"
begin

text \<open>
  \<open>String.prototype.indexOf\<close>: the first occurrence of a text in another, and what it says about the
  prefixes and suffixes of the text searched.
\<close>

fun index_of :: "jsstring \<Rightarrow> jsstring \<Rightarrow> nat option" where
  "index_of pat [] = (if pat = [] then Some 0 else None)"
| "index_of pat (x # xs) = (if prefix pat (x # xs) then Some 0 else map_option Suc (index_of pat xs))"

lemma index_of_split:
  "index_of pat s = Some i \<Longrightarrow> \<exists>b. s = take i s @ pat @ b \<and> length (take i s) = i"
proof (induction pat s arbitrary: i rule: index_of.induct)
  case (2 pat x xs)
  show ?case
  proof (cases "prefix pat (x # xs)")
    case True
    with 2 show ?thesis by (auto simp: prefix_def)
  next
    case False
    with 2 obtain j where "index_of pat xs = Some j" "i = Suc j" by auto
    with 2(1) [OF False, of j] show ?thesis by auto
  qed
qed (auto split: if_splits)

lemma index_of_bound: "index_of pat s = Some i \<Longrightarrow> i + length pat \<le> length s \<and> take (length pat) (drop i s) = pat"
proof -
  assume "index_of pat s = Some i"
  from index_of_split [OF this] obtain b where s: "s = take i s @ pat @ b" "length (take i s) = i" by blast
  have "drop i s = pat @ b" using s by (metis append_eq_conv_conj)
  moreover have "length s = i + (length pat + length b)" using s by (metis length_append)
  ultimately show ?thesis by simp
qed

lemma index_of_None: "pat \<noteq> [] \<Longrightarrow> hd pat \<notin> set t \<Longrightarrow> index_of pat t = None"
  by (induction t) (auto simp: prefix_def neq_Nil_conv)

text \<open>The first occurrence: there is one, and none before.\<close>

lemma index_of_Some_iff:
  "index_of pat s = Some i \<longleftrightarrow> i \<le> length s \<and> prefix pat (drop i s) \<and> (\<forall>k < i. \<not> prefix pat (drop k s))"
proof (induction pat s arbitrary: i rule: index_of.induct)
  case (2 pat x xs)
  show ?case
  proof (cases "prefix pat (x # xs)")
    case True
    then show ?thesis by (auto; metis drop0 gr0I)
  next
    case False
    with 2 show ?thesis by (cases i) (auto simp: less_Suc_eq_0_disj)
  qed
qed auto

lemma index_of_None_iff: "index_of pat s = None \<longleftrightarrow> \<not> sublist pat s"
proof (induction pat s rule: index_of.induct)
  case (2 pat x xs)
  then show ?case by (auto simp: sublist_Cons_right)
qed auto

lemma index_of_append:
  assumes "index_of pat s = Some i"
  shows "index_of pat (s @ t) = Some i"
proof -
  have p: "i + length pat \<le> length s" "take (length pat) (drop i s) = pat" using index_of_bound [OF assms] by auto
  have "\<not> prefix pat (drop k (s @ t))" if "k < i" for k
  proof
    assume a: "prefix pat (drop k (s @ t))"
    have "drop k (s @ t) = drop k s @ t" "length pat \<le> length (drop k s)" using p that by simp_all
    with a have "prefix pat (drop k s)" by (metis prefix_length_prefix prefixI)
    with assms that show False by (simp add: index_of_Some_iff)
  qed
  with assms p(1) show ?thesis by (auto simp: index_of_Some_iff intro: prefix_order.trans)
qed

lemma index_of_append_None: "index_of pat (s @ t) = None \<Longrightarrow> index_of pat s = None"
  using index_of_append by (metis not_None_eq)

lemma index_of_suffix_None: "index_of pat (s @ t) = None \<Longrightarrow> index_of pat t = None"
  by (auto simp: index_of_None_iff sublist_append)

lemma index_of_drop: "index_of pat s = Some i \<Longrightarrow> k \<le> i \<Longrightarrow> index_of pat (drop k s) = Some (i - k)"
  by (auto simp: index_of_Some_iff)

text \<open>A text whose first unit does not occur again is found where it was put.\<close>

lemma index_of_put:
  assumes "index_of pat u = None" "pat \<noteq> []" "hd pat \<notin> set (tl pat)"
  shows "index_of pat (u @ pat @ w) = Some (length u)"
proof -
  have "\<not> prefix pat (drop k (u @ pat @ w))" if k: "k < length u" for k
  proof
    assume a: "prefix pat (drop k (u @ pat @ w))"
    let ?v = "drop k u"
    from a k have pv: "prefix pat (?v @ pat @ w)" by simp
    show False
    proof (cases "length pat \<le> length ?v")
      case True
      with pv have "prefix pat ?v" by (metis prefix_length_prefix prefixI)
      then have "sublist pat (take k u @ ?v)" by (simp only: sublist_append prefix_imp_sublist simp_thms)
      then have "sublist pat u" by simp
      with assms(1) show False by (simp add: index_of_None_iff)
    next
      case False
      have "0 < length ?v" using k by simp
      moreover from pv obtain zs where "?v @ pat @ w = pat @ zs" by (auto simp: prefix_def)
      then have "pat ! length ?v = (?v @ pat @ w) ! length ?v" using False by (simp only: nth_append) simp
      then have "pat ! length ?v = hd pat" using assms(2) by (simp add: nth_append hd_conv_nth)
      moreover have "pat ! length ?v = tl pat ! (length ?v - 1)" using False calculation(1) by (simp add: nth_tl Suc_diff_Suc)
      moreover have "length ?v - 1 < length (tl pat)" using False calculation(1) by simp
      ultimately show False using assms(3) by (metis nth_mem)
    qed
  qed
  then show ?thesis by (auto simp: index_of_Some_iff)
qed

end
