(* ===== verification/Edit_Diff.thy ===== *)
theory Edit_Diff
  imports Index_Of "HOL-Library.Multiset"
begin

text \<open>
  The edit tool (\<open>core/tools/edit-diff.ts\<close> and the execution of \<open>core/tools/edit.ts\<close>): replacements matched
  against one file content, exactly or after normalisation, applied together. Unicode normalisation
  (\<open>normalize("NFKC")\<close>) is the parameter \<open>nfkc\<close>.
\<close>

section \<open>Line endings\<close>

datatype line_ending = CRLF | LF

definition detectLineEnding :: "jsstring \<Rightarrow> line_ending" where
  "detectLineEnding content =
     (case index_of [newline] content of
        None \<Rightarrow> LF
      | Some lf \<Rightarrow> (case index_of [cr, newline] content of
            None \<Rightarrow> LF
          | Some crlf \<Rightarrow> if crlf < lf then CRLF else LF))"

fun replace_crlf :: "jsstring \<Rightarrow> jsstring" where
  "replace_crlf (x # y # s) = (if x = cr \<and> y = newline then newline # replace_crlf s else x # replace_crlf (y # s))"
| "replace_crlf s = s"

definition normalizeToLF :: "jsstring \<Rightarrow> jsstring" where
  "normalizeToLF text = map (\<lambda>c. if c = cr then newline else c) (replace_crlf text)"

definition restoreLineEndings :: "line_ending \<Rightarrow> jsstring \<Rightarrow> jsstring" where
  "restoreLineEndings ending text =
     (case ending of
        CRLF \<Rightarrow> concat (map (\<lambda>c. if c = newline then [cr, newline] else [c]) text)
      | LF \<Rightarrow> text)"

definition bom_char :: cu where
  "bom_char = 0xFEFF"

definition stripBom :: "jsstring \<Rightarrow> jsstring \<times> jsstring" where
  "stripBom content = (if prefix [bom_char] content then ([bom_char], drop 1 content) else ([], content))"

section \<open>Matching\<close>

definition ascii_char :: "cu \<Rightarrow> cu" where
  "ascii_char c =
     (if c \<in> {0x2018, 0x2019, 0x201A, 0x201B} then 39
      else if c \<in> {0x201C, 0x201D, 0x201E, 0x201F} then 34
      else if c \<in> {0x2010, 0x2011, 0x2012, 0x2013, 0x2014, 0x2015, 0x2212} then 45
      else if c \<in> {0xA0, 0x202F, 0x205F, 0x3000} \<or> 0x2002 \<le> c \<and> c \<le> 0x200A then 32
      else c)"

definition normalizeForFuzzyMatch :: "(jsstring \<Rightarrow> jsstring) \<Rightarrow> jsstring \<Rightarrow> jsstring" where
  "normalizeForFuzzyMatch nfkc text = map ascii_char (join [newline] (map trim_end (split_on newline (nfkc text))))"

record fuzzy_match_result =
  fm_found :: bool
  fm_index :: nat
  fm_matchLength :: nat
  fm_usedFuzzyMatch :: bool
  fm_contentForReplacement :: jsstring

text \<open>The index \<open>-1\<close> of a failed match is never used.\<close>

definition fuzzyFindText :: "(jsstring \<Rightarrow> jsstring) \<Rightarrow> jsstring \<Rightarrow> jsstring \<Rightarrow> fuzzy_match_result" where
  "fuzzyFindText nfkc content oldText =
     (case index_of oldText content of
        Some i \<Rightarrow> \<lparr>fm_found = True, fm_index = i, fm_matchLength = length oldText, fm_usedFuzzyMatch = False,
                   fm_contentForReplacement = content\<rparr>
      | None \<Rightarrow>
          let fuzzyContent = normalizeForFuzzyMatch nfkc content; fuzzyOldText = normalizeForFuzzyMatch nfkc oldText
          in (case index_of fuzzyOldText fuzzyContent of
                None \<Rightarrow> \<lparr>fm_found = False, fm_index = 0, fm_matchLength = 0, fm_usedFuzzyMatch = False,
                         fm_contentForReplacement = content\<rparr>
              | Some i \<Rightarrow> \<lparr>fm_found = True, fm_index = i, fm_matchLength = length fuzzyOldText, fm_usedFuzzyMatch = True,
                           fm_contentForReplacement = fuzzyContent\<rparr>))"

text \<open>Matches that do not overlap, from the left; for a pattern that is not empty.\<close>

function count_matches :: "jsstring \<Rightarrow> jsstring \<Rightarrow> nat" where
  "count_matches pat s =
     (if pat = [] then 0
      else case index_of pat s of
          None \<Rightarrow> 0
        | Some i \<Rightarrow> Suc (count_matches pat (drop (i + length pat) s)))"
  by pat_completeness auto
termination
proof (relation "measure (\<lambda>(pat, s). length s)", goal_cases)
  case (2 pat s i)
  from index_of_split [OF 2(2)] obtain b where "s = take i s @ pat @ b" by blast
  then have "length s = length (take i s) + (length pat + length b)" by (metis length_append)
  moreover from 2(1) have "0 < length pat" by simp
  ultimately have "0 < length s" by linarith
  with 2(1) show ?case by (simp add: diff_less)
qed simp

declare count_matches.simps [simp del]

text \<open>\<open>split\<close> on the empty string gives one piece for each code unit.\<close>

definition countOccurrences :: "(jsstring \<Rightarrow> jsstring) \<Rightarrow> jsstring \<Rightarrow> jsstring \<Rightarrow> int" where
  "countOccurrences nfkc content oldText =
     (let fuzzyContent = normalizeForFuzzyMatch nfkc content; fuzzyOldText = normalizeForFuzzyMatch nfkc oldText
      in if fuzzyOldText = [] then int (length fuzzyContent) - 1 else int (count_matches fuzzyOldText fuzzyContent))"

section \<open>Applying edits\<close>

record edit =
  ed_oldText :: jsstring
  ed_newText :: jsstring

record matched_edit =
  me_editIndex :: nat
  me_matchIndex :: nat
  me_matchLength :: nat
  me_newText :: jsstring

text \<open>The errors, with the arguments of their messages.\<close>

datatype edit_error =
    EmptyOldText nat nat
  | NotFound nat nat
  | Duplicate nat nat int
  | Overlap nat nat
  | NoChange nat

definition normalize_edit :: "edit \<Rightarrow> edit" where
  "normalize_edit e = \<lparr>ed_oldText = normalizeToLF (ed_oldText e), ed_newText = normalizeToLF (ed_newText e)\<rparr>"

fun find_empty :: "nat \<Rightarrow> edit list \<Rightarrow> nat option" where
  "find_empty i [] = None"
| "find_empty i (e # es) = (if ed_oldText e = [] then Some i else find_empty (Suc i) es)"

text \<open>The loop that matches the edits \<open>i, i + 1, ...\<close> of \<open>n\<close>.\<close>

fun match_edits ::
  "(jsstring \<Rightarrow> jsstring) \<Rightarrow> jsstring \<Rightarrow> nat \<Rightarrow> nat \<Rightarrow> edit list \<Rightarrow> edit_error + matched_edit list" where
  "match_edits nfkc base n i [] = Inr []"
| "match_edits nfkc base n i (e # es) =
     (let r = fuzzyFindText nfkc base (ed_oldText e)
      in if \<not> fm_found r then Inl (NotFound i n)
         else let k = countOccurrences nfkc base (ed_oldText e)
              in if k > 1 then Inl (Duplicate i n k)
                 else (case match_edits nfkc base n (Suc i) es of
                         Inl err \<Rightarrow> Inl err
                       | Inr ms \<Rightarrow> Inr (\<lparr>me_editIndex = i, me_matchIndex = fm_index r,
                                         me_matchLength = fm_matchLength r, me_newText = ed_newText e\<rparr> # ms)))"

fun find_overlap :: "matched_edit list \<Rightarrow> edit_error option" where
  "find_overlap (a # b # ms) =
     (if me_matchIndex a + me_matchLength a > me_matchIndex b then Some (Overlap (me_editIndex a) (me_editIndex b))
      else find_overlap (b # ms))"
| "find_overlap ms = None"

definition replace_match :: "matched_edit \<Rightarrow> jsstring \<Rightarrow> jsstring" where
  "replace_match m content =
     take (me_matchIndex m) content @ me_newText m @ drop (me_matchIndex m + me_matchLength m) content"

text \<open>The last match is replaced first.\<close>

definition applyEditsToNormalizedContent ::
  "(jsstring \<Rightarrow> jsstring) \<Rightarrow> jsstring \<Rightarrow> edit list \<Rightarrow> edit_error + (jsstring \<times> jsstring)" where
  "applyEditsToNormalizedContent nfkc normalizedContent edits =
     (let es = map normalize_edit edits; n = length es
      in case find_empty 0 es of
           Some i \<Rightarrow> Inl (EmptyOldText i n)
         | None \<Rightarrow>
             let initial = map (\<lambda>e. fuzzyFindText nfkc normalizedContent (ed_oldText e)) es;
                 base = (if list_ex fm_usedFuzzyMatch initial then normalizeForFuzzyMatch nfkc normalizedContent
                         else normalizedContent)
             in case match_edits nfkc base n 0 es of
                  Inl err \<Rightarrow> Inl err
                | Inr matched \<Rightarrow>
                    let sorted = sort_key me_matchIndex matched
                    in case find_overlap sorted of
                         Some err \<Rightarrow> Inl err
                       | None \<Rightarrow>
                           let newContent = foldr replace_match sorted base
                           in if base = newContent then Inl (NoChange n) else Inr (base, newContent))"

section \<open>The tool\<close>

text \<open>
  The file operations of one execution: the code \<open>access\<close> fails with, the text read (\<open>None\<close> when the read fails), a failing write,
  and the checkpoint from which on an abort is seen (0 before anything, 1 after \<open>access\<close>, 2 after
  the read, 3 during the write).
\<close>

record edit_io =
  io_accessError :: "string option"
  io_content :: "jsstring option"
  io_writeFails :: bool
  io_abortAt :: "nat option"

datatype edit_failure = InvalidInput | OperationAborted | NoAccess string | ReadFailed | EditFailed edit_error | WriteFailed

definition aborted_by :: "edit_io \<Rightarrow> nat \<Rightarrow> bool" where
  "aborted_by io k \<longleftrightarrow> (case io_abortAt io of Some a \<Rightarrow> a \<le> k | None \<Rightarrow> False)"

text \<open>The outcome, with the number of blocks replaced, and what was written to the file.\<close>

definition execute_edit :: "(jsstring \<Rightarrow> jsstring) \<Rightarrow> edit_io \<Rightarrow> edit list \<Rightarrow> (edit_failure + nat) \<times> jsstring option" where
  "execute_edit nfkc io edits =
     (if edits = [] then (Inl InvalidInput, None)
      else if aborted_by io 0 then (Inl OperationAborted, None)
      else if aborted_by io 1 then (Inl OperationAborted, None)
      else case io_accessError io of
          Some code \<Rightarrow> (Inl (NoAccess code), None)
        | None \<Rightarrow>
            if aborted_by io 2 then (Inl OperationAborted, None)
            else case io_content io of
              None \<Rightarrow> (Inl ReadFailed, None)
            | Some rawContent \<Rightarrow>
                 let (bom, content) = stripBom rawContent;
                     ending = detectLineEnding content
                 in case applyEditsToNormalizedContent nfkc (normalizeToLF content) edits of
                      Inl err \<Rightarrow> (Inl (EditFailed err), None)
                    | Inr (base, newContent) \<Rightarrow>
                        let final = bom @ restoreLineEndings ending newContent
                        in if aborted_by io 3 then (Inl OperationAborted, if io_writeFails io then None else Some final)
                           else if io_writeFails io then (Inl WriteFailed, None)
                           else (Inr (length edits), Some final))"

end
