(* ===== verification/Edit_Diff_Props.thy ===== *)
theory Edit_Diff_Props
  imports Edit_Diff
begin

text \<open>
  What the edit tool does to a file: the replaced spans are disjoint, each is the old text of one
  edit, everything between them is kept, and the line endings of a file that uses one convention
  survive the trip through the normalised form.
\<close>

section \<open>Disjoint matches\<close>

text \<open>Matches from position \<open>k\<close> on, each starting where the one before it has ended or later.\<close>

fun disjoint_from :: "nat \<Rightarrow> matched_edit list \<Rightarrow> bool" where
  "disjoint_from k [] \<longleftrightarrow> True"
| "disjoint_from k (m # ms) \<longleftrightarrow> k \<le> me_matchIndex m \<and> disjoint_from (me_matchIndex m + me_matchLength m) ms"

lemma no_overlap_disjoint:
  "find_overlap ms = None \<Longrightarrow> ms \<noteq> [] \<longrightarrow> k \<le> me_matchIndex (hd ms) \<Longrightarrow> disjoint_from k ms"
  by (induction ms arbitrary: k rule: find_overlap.induct) (auto split: if_splits)

definition match_span :: "jsstring \<Rightarrow> matched_edit \<Rightarrow> jsstring" where
  "match_span base m = take (me_matchLength m) (drop (me_matchIndex m) base)"

text \<open>The text with a piece for each match between the gaps.\<close>

definition weave :: "('a \<Rightarrow> jsstring) \<Rightarrow> jsstring \<Rightarrow> ('a \<times> jsstring) list \<Rightarrow> jsstring" where
  "weave f g0 ps = g0 @ concat (map (\<lambda>(x, g). f x @ g) ps)"

lemma weave_Cons: "weave f g0 ((x, g) # ps) = g0 @ f x @ weave f g ps"
  by (simp add: weave_def)

lemma replace_disjoint:
  assumes "disjoint_from k ms" "\<And>m. m \<in> set ms \<Longrightarrow> me_matchIndex m + me_matchLength m \<le> length base"
  shows "\<exists>g0 ps. map fst ps = ms \<and> drop k base = weave (match_span base) g0 ps
      \<and> foldr replace_match ms base = take k base @ weave me_newText g0 ps"
  using assms
proof (induction ms arbitrary: k)
  case Nil
  show ?case by (rule exI [of _ "drop k base"], rule exI [of _ "[]"]) (simp add: weave_def)
next
  case (Cons m ms)
  define i j where "i = me_matchIndex m" and "j = me_matchIndex m + me_matchLength m"
  from Cons.prems have le: "k \<le> i" "i \<le> j" "j \<le> length base" by (simp_all add: i_def j_def)
  from Cons.IH [of j] Cons.prems obtain g ps where IH: "map fst ps = ms"
      "drop j base = weave (match_span base) g ps"
      "foldr replace_match ms base = take j base @ weave me_newText g ps"
    by (auto simp: j_def)
  have len: "i + me_matchLength m = j" by (simp add: i_def j_def)
  define g0 where "g0 = take (i - k) (drop k base)"
  have "take k base @ g0 = take (k + (i - k)) base" unfolding g0_def by (rule take_add [symmetric])
  then have t: "take i base = take k base @ g0" using le(1) by simp
  have "take (i - k) (drop k base) @ drop (i - k) (drop k base) = drop k base" by (rule append_take_drop_id)
  then have d: "drop k base = g0 @ drop i base" using le(1) by (simp add: g0_def)
  have "match_span base m @ drop j base = drop i base"
    using append_take_drop_id [of "me_matchLength m" "drop i base"]
    by (simp add: match_span_def i_def j_def add.commute)
  then have 1: "drop k base = weave (match_span base) g0 ((m, g) # ps)"
    using d IH(2) by (simp add: weave_Cons)
  have "foldr replace_match (m # ms) base = take i base @ me_newText m @ weave me_newText g ps"
    using IH(3) le len by (simp add: replace_match_def i_def [symmetric] min_absorb1)
  then have "foldr replace_match (m # ms) base = take k base @ weave me_newText g0 ((m, g) # ps)"
    by (simp add: t weave_Cons)
  with 1 IH(1) show ?case by (intro exI [of _ g0] exI [of _ "(m, g) # ps"]) simp
qed

section \<open>Matching\<close>

text \<open>What a match may cover: the old text, or its normalised form in a normalised file.\<close>

definition covers :: "(jsstring \<Rightarrow> jsstring) \<Rightarrow> jsstring \<Rightarrow> jsstring \<Rightarrow> jsstring \<Rightarrow> bool" where
  "covers nfkc base d old \<longleftrightarrow> d = old \<or> index_of old base = None \<and> d = normalizeForFuzzyMatch nfkc old"

lemma fuzzyFindText_exact: "\<not> fm_usedFuzzyMatch (fuzzyFindText nfkc base old) \<Longrightarrow>
    fm_found (fuzzyFindText nfkc base old) \<Longrightarrow> index_of old base \<noteq> None"
  by (auto simp: fuzzyFindText_def Let_def split: option.splits)

lemma fuzzyFindText_cases:
  assumes "fm_found (fuzzyFindText nfkc base old)"
  obtains i where "index_of old base = Some i" "fm_index (fuzzyFindText nfkc base old) = i"
      "fm_matchLength (fuzzyFindText nfkc base old) = length old"
  | i where "index_of old base = None" "fm_usedFuzzyMatch (fuzzyFindText nfkc base old)"
      "index_of (normalizeForFuzzyMatch nfkc old) (normalizeForFuzzyMatch nfkc base) = Some i"
      "fm_index (fuzzyFindText nfkc base old) = i"
      "fm_matchLength (fuzzyFindText nfkc base old) = length (normalizeForFuzzyMatch nfkc old)"
  using assms by (auto simp: fuzzyFindText_def Let_def split: option.splits)

section \<open>Normalising twice\<close>

lemma ascii_char_newline: "ascii_char c = newline \<longleftrightarrow> c = newline"
  by (auto simp: ascii_char_def newline_def)

lemma ascii_char_idem: "ascii_char (ascii_char c) = ascii_char c"
  by (auto simp: ascii_char_def)

lemma ascii_char_space: "is_js_space (ascii_char c) \<longleftrightarrow> is_js_space c"
  by (auto simp: ascii_char_def is_js_space_def)

lemma trim_end_idem: "trim_end (trim_end s) = trim_end s"
  by (simp add: trim_end_def dropWhile_idem)

lemma trim_end_map: "trim_end (map ascii_char s) = map ascii_char (trim_end s)"
  by (simp add: trim_end_def dropWhile_map comp_def ascii_char_space rev_map)

lemma trim_end_subset: "set (trim_end s) \<subseteq> set s"
  by (auto simp: trim_end_def dest: set_dropWhileD)

lemma split_on_map:
  "(\<And>x. f x = c \<longleftrightarrow> x = c) \<Longrightarrow> split_on c (map f s) = map (map f) (split_on c s)"
  by (induction s) (auto split: list.splits)

lemma normalized_lines:
  "split_on newline (normalizeForFuzzyMatch nfkc t)
   = map (map ascii_char \<circ> trim_end) (split_on newline (nfkc t))"
proof -
  have "split_on newline (join [newline] (map trim_end (split_on newline (nfkc t))))
      = map trim_end (split_on newline (nfkc t))"
    by (rule split_on_join) (use trim_end_subset split_on_no_sep in fastforce)+
  then show ?thesis
    by (simp add: normalizeForFuzzyMatch_def split_on_map ascii_char_newline)
qed

text \<open>A text in normal form stays so when its lines are trimmed and punctuation becomes ASCII.\<close>

definition nfkc_stable :: "(jsstring \<Rightarrow> jsstring) \<Rightarrow> bool" where
  "nfkc_stable nfkc \<longleftrightarrow> (\<forall>t. nfkc (normalizeForFuzzyMatch nfkc t) = normalizeForFuzzyMatch nfkc t)"

lemma normalize_idem:
  assumes "nfkc_stable nfkc"
  shows "normalizeForFuzzyMatch nfkc (normalizeForFuzzyMatch nfkc t) = normalizeForFuzzyMatch nfkc t"
proof -
  let ?N = "normalizeForFuzzyMatch nfkc t"
  have lines: "map trim_end (split_on newline ?N) = split_on newline ?N"
    by (simp add: normalized_lines trim_end_map trim_end_idem)
  have "map ascii_char ?N = ?N"
    by (simp add: normalizeForFuzzyMatch_def ascii_char_idem)
  moreover have "normalizeForFuzzyMatch nfkc ?N = map ascii_char (join [newline] (map trim_end (split_on newline ?N)))"
    using assms by (simp add: normalizeForFuzzyMatch_def [of nfkc ?N] nfkc_stable_def)
  ultimately show ?thesis by (simp add: lines)
qed

section \<open>Matched edits\<close>

text \<open>What the loop establishes of an edit and its match.\<close>

definition edit_matched :: "(jsstring \<Rightarrow> jsstring) \<Rightarrow> jsstring \<Rightarrow> edit \<Rightarrow> matched_edit \<Rightarrow> bool" where
  "edit_matched nfkc base e m \<longleftrightarrow>
     me_newText m = ed_newText e \<and> me_matchIndex m + me_matchLength m \<le> length base
     \<and> covers nfkc base (match_span base m) (ed_oldText e) \<and> countOccurrences nfkc base (ed_oldText e) \<le> 1"

lemma fuzzyFindText_span:
  fixes nfkc base old
  defines "r \<equiv> fuzzyFindText nfkc base old"
  assumes found: "fm_found r" and norm: "fm_usedFuzzyMatch r \<Longrightarrow> normalizeForFuzzyMatch nfkc base = base"
  shows "fm_index r + fm_matchLength r \<le> length base"
    and "covers nfkc base (take (fm_matchLength r) (drop (fm_index r) base)) old"
proof -
  let ?goal = "fm_index r + fm_matchLength r \<le> length base
     \<and> covers nfkc base (take (fm_matchLength r) (drop (fm_index r) base)) old"
  have ?goal
  proof (rule fuzzyFindText_cases [OF found [unfolded r_def]])
    fix i assume "index_of old base = Some i" "fm_index (fuzzyFindText nfkc base old) = i"
      "fm_matchLength (fuzzyFindText nfkc base old) = length old"
    with index_of_bound [of old base i] show ?goal by (simp add: covers_def r_def)
  next
    fix i assume 2: "index_of old base = None" "fm_usedFuzzyMatch (fuzzyFindText nfkc base old)"
      "index_of (normalizeForFuzzyMatch nfkc old) (normalizeForFuzzyMatch nfkc base) = Some i"
      "fm_index (fuzzyFindText nfkc base old) = i"
      "fm_matchLength (fuzzyFindText nfkc base old) = length (normalizeForFuzzyMatch nfkc old)"
    then have "index_of (normalizeForFuzzyMatch nfkc old) base = Some i" using norm by (simp add: r_def)
    from index_of_bound [OF this] 2 show ?goal by (simp add: covers_def r_def)
  qed
  then show "fm_index r + fm_matchLength r \<le> length base"
    and "covers nfkc base (take (fm_matchLength r) (drop (fm_index r) base)) old" by simp_all
qed

lemma match_edits_matched:
  assumes "match_edits nfkc base n i es = Inr ms"
    "\<And>e. e \<in> set es \<Longrightarrow> fm_usedFuzzyMatch (fuzzyFindText nfkc base (ed_oldText e)) \<Longrightarrow> normalizeForFuzzyMatch nfkc base = base"
  shows "list_all2 (edit_matched nfkc base) es ms"
  using assms
proof (induction es arbitrary: i ms)
  case (Cons e es)
  let ?r = "fuzzyFindText nfkc base (ed_oldText e)"
  from Cons.prems(1) have f: "fm_found ?r" and c: "countOccurrences nfkc base (ed_oldText e) \<le> 1"
    by (auto simp: Let_def split: if_splits)
  then obtain ms' where ms': "match_edits nfkc base n (Suc i) es = Inr ms'"
      "ms = \<lparr>me_editIndex = i, me_matchIndex = fm_index ?r, me_matchLength = fm_matchLength ?r,
             me_newText = ed_newText e\<rparr> # ms'"
    using Cons.prems(1) by (auto simp: Let_def split: sum.splits)
  have "edit_matched nfkc base e (hd ms)"
    using fuzzyFindText_span [OF f Cons.prems(2) [of e]] c ms'(2)
    by (simp add: edit_matched_def match_span_def)
  moreover have "list_all2 (edit_matched nfkc base) es ms'"
    using ms'(1) Cons.prems(2) by (intro Cons.IH [of "Suc i"]) auto
  ultimately show ?case using ms'(2) by simp
qed simp

text \<open>An edit with the span it replaces, and the piece it puts there.\<close>

definition new_piece :: "edit \<times> jsstring \<Rightarrow> jsstring" where
  "new_piece p = normalizeToLF (ed_newText (fst p))"

definition piece_ok :: "(jsstring \<Rightarrow> jsstring) \<Rightarrow> jsstring \<Rightarrow> edit \<times> jsstring \<Rightarrow> bool" where
  "piece_ok nfkc base p \<longleftrightarrow> covers nfkc base (snd p) (normalizeToLF (ed_oldText (fst p)))
     \<and> countOccurrences nfkc base (normalizeToLF (ed_oldText (fst p))) \<le> 1"

lemma matched_piece:
  "edit_matched nfkc base (normalize_edit e) m \<Longrightarrow>
   me_newText m = new_piece (e, match_span base m) \<and> piece_ok nfkc base (e, match_span base m)"
  by (simp add: edit_matched_def normalize_edit_def new_piece_def piece_ok_def)

lemma weave_matched:
  assumes "list_all2 (\<lambda>e. edit_matched nfkc base (normalize_edit e)) es (map fst ps)"
  shows "\<exists>qs. map (\<lambda>q. fst (fst q)) qs = es \<and> weave (match_span base) g0 ps = weave snd g0 qs
     \<and> weave me_newText g0 ps = weave new_piece g0 qs \<and> (\<forall>q\<in>set qs. piece_ok nfkc base (fst q))"
  using assms
proof (induction ps arbitrary: es g0)
  case Nil
  then show ?case by (intro exI [of _ "[]"]) (simp add: weave_def)
next
  case (Cons p ps)
  obtain m g where p: "p = (m, g)" by fastforce
  from Cons.prems p obtain e es' where es: "es = e # es'" "edit_matched nfkc base (normalize_edit e) m"
      "list_all2 (\<lambda>e. edit_matched nfkc base (normalize_edit e)) es' (map fst ps)"
    by (auto simp: list_all2_Cons2)
  from Cons.IH [OF es(3), of g] obtain qs where "map (\<lambda>q. fst (fst q)) qs = es'"
      "weave (match_span base) g ps = weave snd g qs" "weave me_newText g ps = weave new_piece g qs"
      "\<forall>q\<in>set qs. piece_ok nfkc base (fst q)"
    by blast
  with es(1) matched_piece [OF es(2)] show ?case
    by (intro exI [of _ "((e, match_span base m), g) # qs"]) (simp add: p weave_Cons)
qed

text \<open>
  The new text is the old one with the span of each edit, every edit once, exchanged for its new
  text; each span is the edit's old text or its normalised form and occurs once.
\<close>

definition edits_woven ::
  "(jsstring \<Rightarrow> jsstring) \<Rightarrow> edit list \<Rightarrow> jsstring \<Rightarrow> jsstring \<Rightarrow> bool" where
  "edits_woven nfkc edits base new \<longleftrightarrow>
     (\<exists>g0 qs. base = weave snd g0 qs \<and> new = weave new_piece g0 qs
        \<and> mset (map (\<lambda>q. fst (fst q)) qs) = mset edits \<and> (\<forall>q\<in>set qs. piece_ok nfkc base (fst q)))"

lemma apply_edits_elim:
  assumes "applyEditsToNormalizedContent nfkc content edits = Inr (base, new)"
  obtains ms where "match_edits nfkc base (length edits) 0 (map normalize_edit edits) = Inr ms"
    "find_overlap (sort_key me_matchIndex ms) = None" "new = foldr replace_match (sort_key me_matchIndex ms) base"
    "base \<noteq> new"
    "base = (if \<exists>e\<in>set edits. fm_usedFuzzyMatch (fuzzyFindText nfkc content (ed_oldText (normalize_edit e)))
       then normalizeForFuzzyMatch nfkc content else content)"
proof -
  let ?fz = "\<lambda>e. fm_usedFuzzyMatch (fuzzyFindText nfkc content (ed_oldText (normalize_edit e)))"
  define b where "b = (if \<exists>e\<in>set edits. ?fz e then normalizeForFuzzyMatch nfkc content else content)"
  have ne: "find_empty 0 (map normalize_edit edits) = None"
    using assms by (auto simp: applyEditsToNormalizedContent_def Let_def split: option.splits)
  have bd: "(if list_ex fm_usedFuzzyMatch
         (map (\<lambda>e. fuzzyFindText nfkc content (ed_oldText e)) (map normalize_edit edits))
       then normalizeForFuzzyMatch nfkc content else content) = b"
    unfolding b_def by (simp add: list_ex_iff)
  note eqn = assms [unfolded applyEditsToNormalizedContent_def Let_def ne bd option.case length_map]
  then obtain ms where ms: "match_edits nfkc b (length edits) 0 (map normalize_edit edits) = Inr ms"
    by (cases "match_edits nfkc b (length edits) 0 (map normalize_edit edits)") simp_all
  note eqn' = eqn [unfolded ms sum.case]
  then have ov: "find_overlap (sort_key me_matchIndex ms) = None"
    by (cases "find_overlap (sort_key me_matchIndex ms)") simp_all
  from eqn' have "b \<noteq> foldr replace_match (sort_key me_matchIndex ms) b \<and> base = b
      \<and> new = foldr replace_match (sort_key me_matchIndex ms) b"
    unfolding ov option.case by (metis Inl_Inr_False Inr_inject prod.inject)
  with ms ov b_def show ?thesis by (intro that [of ms]) simp_all
qed

lemma applied_edits_woven:
  assumes "applyEditsToNormalizedContent nfkc content edits = Inr (base, new)"
    "nfkc_stable nfkc \<or> (\<forall>e\<in>set edits. index_of (normalizeToLF (ed_oldText e)) content \<noteq> None)"
  shows "edits_woven nfkc edits base new"
  using assms(1)
proof (rule apply_edits_elim)
  fix ms :: "matched_edit list"
  let ?fz = "\<lambda>b e. fm_usedFuzzyMatch (fuzzyFindText nfkc b (ed_oldText (normalize_edit e)))"
  let ?P = "\<lambda>e. edit_matched nfkc base (normalize_edit e)" and ?ss = "sort_key me_matchIndex ms"
  assume ms: "match_edits nfkc base (length edits) 0 (map normalize_edit edits) = Inr ms"
    "find_overlap ?ss = None" "new = foldr replace_match ?ss base"
    and base: "base = (if \<exists>e\<in>set edits. ?fz content e then normalizeForFuzzyMatch nfkc content else content)"
  have norm: "normalizeForFuzzyMatch nfkc base = base" if e: "e \<in> set edits" "?fz base e" for e
  proof (cases "\<exists>e\<in>set edits. ?fz content e")
    case True
    then have "nfkc_stable nfkc" using assms(2) by (auto simp: fuzzyFindText_def normalize_edit_def)
    with True show ?thesis using base normalize_idem [of nfkc content] by metis
  next
    case False
    with e base show ?thesis by metis
  qed
  have "list_all2 (edit_matched nfkc base) (map normalize_edit edits) ms"
    by (rule match_edits_matched [OF ms(1)]) (use norm in auto)
  then have "list_all2 (\<lambda>m e. ?P e m) ms edits" by (simp add: list_all2_conv_all_nth)
  from list_all2_reorder_left_invariance [OF this, of ?ss] obtain es
    where "list_all2 (\<lambda>m e. ?P e m) ?ss es" and mset_es: "mset es = mset edits"
    by auto
  then have es: "list_all2 ?P es ?ss" "mset es = mset edits" by (simp_all add: list_all2_conv_all_nth)
  have "\<And>m. m \<in> set ?ss \<Longrightarrow> me_matchIndex m + me_matchLength m \<le> length base"
    using es(1) unfolding list_all2_conv_all_nth in_set_conv_nth by (auto simp: edit_matched_def)
  from replace_disjoint [OF no_overlap_disjoint [OF ms(2)] this, of 0] obtain g0 ps
    where ps: "map fst ps = ?ss" "base = weave (match_span base) g0 ps" "new = weave me_newText g0 ps"
    using ms(3) by auto
  from weave_matched [of nfkc base es ps g0] es(1) ps(1) obtain qs where
    "map (\<lambda>q. fst (fst q)) qs = es" "weave (match_span base) g0 ps = weave snd g0 qs"
    "weave me_newText g0 ps = weave new_piece g0 qs" "\<forall>q\<in>set qs. piece_ok nfkc base (fst q)"
    by auto
  with ps(2,3) es(2) show ?thesis unfolding edits_woven_def by metis
qed

section \<open>Line endings\<close>

text \<open>A text whose line breaks are all \<open>\r\n\<close>.\<close>

fun crlf_only :: "jsstring \<Rightarrow> bool" where
  "crlf_only [] \<longleftrightarrow> True"
| "crlf_only [x] \<longleftrightarrow> x \<noteq> cr \<and> x \<noteq> newline"
| "crlf_only (x # y # s) \<longleftrightarrow> (if x = cr then y = newline \<and> crlf_only s else x \<noteq> newline \<and> crlf_only (y # s))"

definition uniform_endings :: "jsstring \<Rightarrow> bool" where
  "uniform_endings t \<longleftrightarrow> cr \<notin> set t \<or> crlf_only t"

lemma replace_crlf_id: "cr \<notin> set t \<Longrightarrow> replace_crlf t = t"
  by (induction t rule: replace_crlf.induct) auto

lemma normalizeToLF_id: "cr \<notin> set t \<Longrightarrow> normalizeToLF t = t"
  by (auto simp: normalizeToLF_def replace_crlf_id intro: map_idI)

lemma restore_Cons:
  "restoreLineEndings CRLF (c # t) = (if c = newline then [cr, newline] else [c]) @ restoreLineEndings CRLF t"
  by (simp add: restoreLineEndings_def)

lemma restore_append: "restoreLineEndings e (s @ t) = restoreLineEndings e s @ restoreLineEndings e t"
  by (cases e) (simp_all add: restoreLineEndings_def)

lemma crlf_restore: "crlf_only t \<Longrightarrow> restoreLineEndings CRLF (normalizeToLF t) = t"
proof (induction t rule: crlf_only.induct)
  case (3 x y s)
  then show ?case by (cases "x = cr") (auto simp: normalizeToLF_def restore_Cons)
qed (auto simp: normalizeToLF_def restoreLineEndings_def)

lemma crlf_detect:
  "crlf_only t \<Longrightarrow> newline \<in> set t \<Longrightarrow>
   \<exists>i. index_of [cr, newline] t = Some i \<and> index_of [newline] t = Some (Suc i)"
proof (induction t rule: crlf_only.induct)
  case (3 x y s)
  then show ?case by (cases "x = cr") auto
qed auto

lemma crlf_no_break: "crlf_only t \<Longrightarrow> newline \<notin> set t \<Longrightarrow> cr \<notin> set t"
  by (induction t rule: crlf_only.induct) (auto split: if_splits)

lemma uniform_restore:
  assumes "uniform_endings t"
  shows "restoreLineEndings (detectLineEnding t) (normalizeToLF t) = t"
proof (cases "cr \<in> set t")
  case True
  then have "crlf_only t" "newline \<in> set t" using assms crlf_no_break by (auto simp: uniform_endings_def)
  with crlf_detect [of t] crlf_restore [of t] show ?thesis by (auto simp: detectLineEnding_def)
next
  case False
  then have "index_of [cr, newline] t = None" by (simp add: index_of_None)
  then have "detectLineEnding t = LF" by (simp add: detectLineEnding_def split: option.split)
  with False show ?thesis by (simp add: normalizeToLF_id restoreLineEndings_def)
qed

lemma restore_weave:
  "restoreLineEndings e (weave f g0 qs)
   = weave (\<lambda>x. restoreLineEndings e (f x)) (restoreLineEndings e g0) (map (apsnd (restoreLineEndings e)) qs)"
proof (induction qs arbitrary: g0)
  case Nil
  show ?case by (simp add: weave_def)
next
  case (Cons q qs)
  then show ?case by (cases q) (simp add: weave_Cons restore_append)
qed

lemma stripBom_append: "fst (stripBom raw) @ snd (stripBom raw) = raw"
  by (auto simp: stripBom_def prefix_def)

section \<open>The edited file\<close>

lemma execute_edit_written:
  assumes "execute_edit nfkc io edits = (Inr n, Some written)"
  obtains raw base new where "io_content io = Some raw" "n = length edits"
    "applyEditsToNormalizedContent nfkc (normalizeToLF (snd (stripBom raw))) edits = Inr (base, new)"
    "written = fst (stripBom raw) @ restoreLineEndings (detectLineEnding (snd (stripBom raw))) new"
proof -
  from assms obtain raw where raw: "io_content io = Some raw"
    by (auto simp: execute_edit_def split: if_splits option.splits)
  obtain r where r: "applyEditsToNormalizedContent nfkc (normalizeToLF (snd (stripBom raw))) edits = r" by blast
  with assms raw obtain base new where "r = Inr (base, new)"
    by (cases r) (auto simp: execute_edit_def split_beta Let_def split: if_splits option.splits)
  with assms raw r show ?thesis
    by (intro that [of raw base new])
      (auto simp: execute_edit_def split_beta Let_def split: if_splits option.splits)
qed

text \<open>A text of an edit, with the line endings of the file.\<close>

definition with_ending :: "jsstring \<Rightarrow> jsstring \<Rightarrow> jsstring" where
  "with_ending raw s = restoreLineEndings (detectLineEnding (snd (stripBom raw))) (normalizeToLF s)"

definition found_exactly :: "jsstring \<Rightarrow> edit \<Rightarrow> bool" where
  "found_exactly raw e \<longleftrightarrow> index_of (normalizeToLF (ed_oldText e)) (normalizeToLF (snd (stripBom raw))) \<noteq> None"

text \<open>
  C36. A successful edit of a file with uniform line endings, with or without byte order mark,
  replaces for every edit its old text by its new text, in the line endings of the file, and keeps
  every other unit, when each old text occurs exactly.
\<close>

theorem edit_keeps_rest:
  assumes "execute_edit nfkc io edits = (Inr n, Some written)" "io_content io = Some raw"
    "uniform_endings (snd (stripBom raw))" "\<forall>e\<in>set edits. found_exactly raw e"
  shows "\<exists>g0 qs. raw = weave (\<lambda>e. with_ending raw (ed_oldText e)) g0 qs
      \<and> written = weave (\<lambda>e. with_ending raw (ed_newText e)) g0 qs
      \<and> mset (map fst qs) = mset edits"
proof -
  let ?t = "snd (stripBom raw)" and ?bom = "fst (stripBom raw)"
  let ?R = "restoreLineEndings (detectLineEnding ?t)"
  from assms(1,2) obtain base new where ap: "applyEditsToNormalizedContent nfkc (normalizeToLF ?t) edits = Inr (base, new)"
    and written: "written = ?bom @ ?R new" by (auto elim: execute_edit_written)
  have ex: "\<forall>e\<in>set edits. index_of (normalizeToLF (ed_oldText e)) (normalizeToLF ?t) \<noteq> None"
    using assms(4) by (simp add: found_exactly_def)
  from ap have base: "base = normalizeToLF ?t"
    by (rule apply_edits_elim) (use ex in \<open>auto simp: fuzzyFindText_def normalize_edit_def\<close>)
  from applied_edits_woven [OF ap] ex obtain g0 qs where w: "base = weave snd g0 qs" "new = weave new_piece g0 qs"
    "mset (map (\<lambda>q. fst (fst q)) qs) = mset edits" "\<forall>q\<in>set qs. piece_ok nfkc base (fst q)"
    by (auto simp: edits_woven_def)
  have old: "snd (fst q) = normalizeToLF (ed_oldText (fst (fst q)))" if "q \<in> set qs" for q
  proof -
    have "fst (fst q) \<in># mset (map (\<lambda>q. fst (fst q)) qs)" using that by auto
    then have "fst (fst q) \<in> set edits" unfolding w(3) by simp
    then have "index_of (normalizeToLF (ed_oldText (fst (fst q)))) base \<noteq> None" using ex base by blast
    moreover have "piece_ok nfkc base (fst q)" using w(4) that by blast
    ultimately show ?thesis unfolding piece_ok_def covers_def by (elim conjE disjE) simp_all
  qed
  let ?qs = "map (\<lambda>((e, d), g). (e, ?R g)) qs"
  have "raw = ?bom @ ?R base" using uniform_restore [OF assms(3)] stripBom_append [of raw] base by simp
  also have "?R base = weave (\<lambda>e. with_ending raw (ed_oldText e)) (?R g0) ?qs"
    unfolding w(1) restore_weave
    by (auto simp: weave_def with_ending_def comp_def split_beta dest: old intro!: arg_cong [of _ _ concat] map_cong)
  finally have 1: "raw = weave (\<lambda>e. with_ending raw (ed_oldText e)) (?bom @ ?R g0) ?qs"
    by (simp add: weave_def)
  have 2: "written = weave (\<lambda>e. with_ending raw (ed_newText e)) (?bom @ ?R g0) ?qs"
    unfolding written w(2) restore_weave
    by (auto simp: weave_def with_ending_def new_piece_def comp_def split_beta)
  have "map fst ?qs = map (\<lambda>q. fst (fst q)) qs" by (simp add: comp_def split_beta)
  with 1 2 w(3) show ?thesis by metis
qed

text \<open>
  Edits that are applied replace disjoint spans of the base text, one for each edit: the old
  text or its normalised form, occurring once; the base is the content or its normalised form, and
  the result differs from it.
\<close>

theorem edits_replace_spans:
  assumes "applyEditsToNormalizedContent nfkc content edits = Inr (base, new)" "nfkc_stable nfkc"
  shows "edits_woven nfkc edits base new \<and> base \<noteq> new
    \<and> base \<in> {content, normalizeForFuzzyMatch nfkc content}"
proof -
  have "edits_woven nfkc edits base new" using applied_edits_woven [OF assms(1)] assms(2) by blast
  moreover have "base \<noteq> new \<and> base \<in> {content, normalizeForFuzzyMatch nfkc content}"
    using assms(1) by (rule apply_edits_elim) auto
  ultimately show ?thesis by blast
qed

text \<open>
  blank
\<close>

theorem blank_old_text_refused:
  assumes "ed_oldText e \<noteq> []" "cr \<notin> set (ed_oldText e)" "index_of (ed_oldText e) content = Some i"
    "normalizeForFuzzyMatch nfkc (ed_oldText e) = []" "2 < length (normalizeForFuzzyMatch nfkc content)"
  shows "applyEditsToNormalizedContent nfkc content [e]
    = Inl (Duplicate 0 1 (int (length (normalizeForFuzzyMatch nfkc content)) - 1))"
  using assms
  by (simp add: applyEditsToNormalizedContent_def normalize_edit_def normalizeToLF_id fuzzyFindText_def
      countOccurrences_def)

text \<open>A failed execution leaves the file alone, unless it was aborted while writing.\<close>

lemma edit_failure_writes_nothing:
  assumes "execute_edit nfkc io edits = (Inl err, Some t)"
  shows "err = OperationAborted \<and> \<not> aborted_by io 2 \<and> aborted_by io 3 \<and> \<not> io_writeFails io"
proof -
  from assms obtain raw where raw: "io_content io = Some raw"
    by (auto simp: execute_edit_def split: if_splits option.splits)
  obtain r where r: "applyEditsToNormalizedContent nfkc (normalizeToLF (snd (stripBom raw))) edits = r" by blast
  with assms raw show ?thesis
    by (cases r) (auto simp: execute_edit_def split_beta Let_def split: if_splits option.splits)
qed

section \<open>Examples\<close>

lemmas edit_eval = execute_edit_def applyEditsToNormalizedContent_def normalize_edit_def fuzzyFindText_def
  countOccurrences_def count_matches.simps normalizeForFuzzyMatch_def normalizeToLF_def stripBom_def
  detectLineEnding_def restoreLineEndings_def aborted_by_def replace_match_def trim_end_def is_js_space_def
  ascii_char_def Let_def bom_char_def cr_def newline_def

text \<open>\<open>a\r\nb\r\n\<close> with \<open>b\<close> replaced by \<open>c\nd\<close>, under a byte order mark; matching without normalisation.\<close>

definition demo_file :: jsstring where
  "demo_file = [bom_char, 97, cr, newline, 98, cr, newline]"

definition demo_io :: edit_io where
  "demo_io = \<lparr>io_accessError = None, io_content = Some demo_file, io_writeFails = False, io_abortAt = None\<rparr>"

definition demo_edits :: "edit list" where
  "demo_edits = [\<lparr>ed_oldText = [98], ed_newText = [99, newline, 100]\<rparr>]"

lemma demo_edit_run:
  "execute_edit (\<lambda>t. t) demo_io demo_edits
   = (Inr 1, Some [bom_char, 97, cr, newline, 99, cr, newline, 100, cr, newline])"
  by (simp add: edit_eval demo_io_def demo_file_def demo_edits_def uniform_endings_def found_exactly_def)

lemma demo_uniform: "uniform_endings (snd (stripBom demo_file)) \<and> (\<forall>e\<in>set demo_edits. found_exactly demo_file e)"
  by (simp add: edit_eval demo_io_def demo_file_def demo_edits_def uniform_endings_def found_exactly_def)

lemma demo_content: "io_content demo_io = Some demo_file"
  by (simp add: demo_io_def)

theorem edit_keeps_rest_witness:
  "\<exists>g0 qs. demo_file = weave (\<lambda>e. with_ending demo_file (ed_oldText e)) g0 qs
      \<and> [bom_char, 97, cr, newline, 99, cr, newline, 100, cr, newline]
        = weave (\<lambda>e. with_ending demo_file (ed_newText e)) g0 qs
      \<and> mset (map fst qs) = mset demo_edits"
  using demo_uniform by (intro edit_keeps_rest [OF demo_edit_run demo_content]) simp_all

text \<open>The quote of the old text is curly in the file, where a blank follows it.\<close>

definition demo_nfkc :: "jsstring \<Rightarrow> jsstring" where
  "demo_nfkc t = t"

lemma demo_nfkc_stable: "nfkc_stable demo_nfkc"
  by (simp add: nfkc_stable_def demo_nfkc_def)

lemma demo_fuzzy_run:
  "applyEditsToNormalizedContent demo_nfkc [97, 0x2019, 32, newline, 98] [\<lparr>ed_oldText = [97, 39], ed_newText = [99]\<rparr>]
   = Inr ([97, 39, newline, 98], [99, newline, 98])"
  by (simp add: edit_eval demo_io_def demo_file_def demo_edits_def demo_nfkc_def uniform_endings_def found_exactly_def)

theorem edits_replace_spans_witness:
  "edits_woven demo_nfkc [\<lparr>ed_oldText = [97, 39], ed_newText = [99]\<rparr>] [97, 39, newline, 98] [99, newline, 98]
    \<and> [97, 39, newline, 98] \<noteq> [99, newline, 98]
    \<and> [97, 39, newline, 98] \<in> {[97, 0x2019, 32, newline, 98],
         normalizeForFuzzyMatch demo_nfkc [97, 0x2019, 32, newline, 98]}"
  by (rule edits_replace_spans [OF demo_fuzzy_run demo_nfkc_stable])

text \<open>Two spaces, which occur once in \<open>ab  cd\<close>.\<close>

theorem blank_old_text_refused_witness:
  "applyEditsToNormalizedContent demo_nfkc [97, 98, 32, 32, 99, 100] [\<lparr>ed_oldText = [32, 32], ed_newText = [32]\<rparr>]
    = Inl (Duplicate 0 1 (int (length (normalizeForFuzzyMatch demo_nfkc [97, 98, 32, 32, 99, 100])) - 1))"
proof (rule blank_old_text_refused [of _ _ 2])
  show "index_of (ed_oldText \<lparr>ed_oldText = [32, 32], ed_newText = [32]\<rparr>) [97, 98, 32, 32, 99, 100] = Some 2"
    by simp
  show "normalizeForFuzzyMatch demo_nfkc (ed_oldText \<lparr>ed_oldText = [32, 32], ed_newText = [32]\<rparr>) = []"
    by (simp add: edit_eval demo_io_def demo_file_def demo_edits_def demo_nfkc_def uniform_endings_def found_exactly_def)
  show "2 < length (normalizeForFuzzyMatch demo_nfkc [97, 98, 32, 32, 99, 100])"
    by (simp add: edit_eval demo_io_def demo_file_def demo_edits_def demo_nfkc_def uniform_endings_def found_exactly_def)
qed (simp_all add: cr_def)

text \<open>Occurrences that overlap are counted once: \<open>aa\<close> in \<open>aaa\<close>.\<close>

lemma overlapping_counted_once: "countOccurrences (\<lambda>t. t) [97, 97, 97] [97, 97] = 1"
  by (simp add: edit_eval demo_io_def demo_file_def demo_edits_def demo_nfkc_def uniform_endings_def found_exactly_def)

text \<open>In a file of mixed line endings every ending is rewritten to the first one.\<close>

lemma mixed_endings_rewritten:
  "execute_edit (\<lambda>t. t) (demo_io\<lparr>io_content := Some [97, cr, newline, 98, newline, 99]\<rparr>)
     [\<lparr>ed_oldText = [99], ed_newText = [100]\<rparr>]
   = (Inr 1, Some [97, cr, newline, 98, cr, newline, 100])"
  by (simp add: edit_eval demo_io_def demo_file_def demo_edits_def demo_nfkc_def uniform_endings_def found_exactly_def)

end
