(* ===== verification/Chunk_Decoder.thy ===== *)
theory Chunk_Decoder
  imports Prelude
begin

text \<open>
  Decoders of a stream that arrives in chunks. What the program relies on when it reads from a socket
  is that the way the stream is cut does not matter; the two decoders of the program, the private
  frames of session workers and the JSONL lines of the RPC mode, are instances.
\<close>

text \<open>One chunk after the other, until one throws.\<close>

fun feed_all :: "('s \<Rightarrow> 'c list \<Rightarrow> 'e + 'o list \<times> 's) \<Rightarrow> 's \<Rightarrow> 'c list list \<Rightarrow> 'e + 'o list \<times> 's" where
  "feed_all feed s [] = Inr ([], s)"
| "feed_all feed s (c # cs) =
     (case feed s c of
        Inl e \<Rightarrow> Inl e
      | Inr (xs, s1) \<Rightarrow>
          (case feed_all feed s1 cs of Inl e \<Rightarrow> Inl e | Inr (ys, s2) \<Rightarrow> Inr (xs @ ys, s2)))"

text \<open>\<open>settled\<close> holds of the states between chunks.\<close>

locale chunk_decoder =
  fixes feed :: "'s \<Rightarrow> 'c list \<Rightarrow> 'e + 'o list \<times> 's" and settled :: "'s \<Rightarrow> bool"
  assumes feed_Nil: "settled s \<Longrightarrow> feed s [] = Inr ([], s)"
    and feed_settled: "settled s \<Longrightarrow> feed s c = Inr (xs, s') \<Longrightarrow> settled s'"
    and feed_append: "settled s \<Longrightarrow> feed s (a @ b) =
      (case feed s a of
         Inl e \<Rightarrow> Inl e
       | Inr (xs, s1) \<Rightarrow> (case feed s1 b of Inl e \<Rightarrow> Inl e | Inr (ys, s2) \<Rightarrow> Inr (xs @ ys, s2)))"
begin

lemma feed_all_concat: "settled s \<Longrightarrow> feed_all feed s cs = feed s (concat cs)"
proof (induction cs arbitrary: s)
  case Nil
  then show ?case by (simp add: feed_Nil)
next
  case (Cons c cs)
  show ?case
  proof (cases "feed s c")
    case (Inr r)
    then obtain xs s1 where r: "feed s c = Inr (xs, s1)" by (cases r) simp
    with Cons.prems have "settled s1" by (rule feed_settled)
    with Cons.IH r show ?thesis by (simp add: feed_append [OF Cons.prems])
  qed (simp add: feed_append [OF Cons.prems])
qed

lemma feed_all_same: "settled s \<Longrightarrow> concat cs = concat ds \<Longrightarrow> feed_all feed s cs = feed_all feed s ds"
  by (simp add: feed_all_concat)

lemma feed_all_settled: "settled s \<Longrightarrow> feed_all feed s cs = Inr (xs, s') \<Longrightarrow> settled s'"
  by (simp add: feed_all_concat feed_settled)

end

end
