(* ===== verification/Private_Framing.thy ===== *)
theory Private_Framing
  imports Chunk_Decoder Utf
begin

text \<open>
  The frames between a daemon and its session workers (\<open>modes/session-worker/private-framing.ts\<close>): two
  big-endian lengths, a JSON header and a payload. \<open>JSON.stringify\<close> and \<open>JSON.parse\<close>, with the UTF-8
  coding of the header, and the validation the caller passes in are a parameter.
\<close>

section \<open>Frames\<close>

definition FRAME_PREFIX_BYTES :: nat where
  "FRAME_PREFIX_BYTES = 8"

record frame_limits =
  maxHeaderBytes :: nat
  maxPayloadBytes :: nat

definition DEFAULT_PRIVATE_FRAME_LIMITS :: frame_limits where
  "DEFAULT_PRIVATE_FRAME_LIMITS = \<lparr>maxHeaderBytes = 1024 * 1024, maxPayloadBytes = 1024 * 1024 * 1024\<rparr>"

record 'v frame =
  fr_header :: 'v
  fr_payload :: "byte list"

datatype frame_error =
    InvalidLength string nat
  | EmptyHeader
  | OutOfRange nat
  | InvalidHeaderJson
  | InvalidRoutingHeader
  | IncompleteBytes nat

text \<open>
  The JSON text of a value in UTF-8, what a byte string parses to (\<open>None\<close>: \<open>JSON.parse\<close> throws),
  whether a value is an object and no array, and the validator.
\<close>

record 'v header_codec =
  hc_stringify :: "'v \<Rightarrow> byte list"
  hc_parse :: "byte list \<Rightarrow> 'v option"
  hc_isObject :: "'v \<Rightarrow> bool"
  hc_validate :: "'v \<Rightarrow> bool"

definition assertFrameLength :: "string \<Rightarrow> nat \<Rightarrow> nat \<Rightarrow> frame_error option" where
  "assertFrameLength what v maximum = (if v > maximum then Some (InvalidLength what v) else None)"

text \<open>\<open>writeUInt32BE\<close>, which throws on a value of more than 32 bits, and \<open>readUInt32BE\<close>.\<close>

definition writeUInt32BE :: "nat \<Rightarrow> frame_error + byte list" where
  "writeUInt32BE v =
     (if v < 2 ^ 32
      then Inr [word_of_nat (v div 2 ^ 24), word_of_nat (v div 2 ^ 16), word_of_nat (v div 2 ^ 8), word_of_nat v]
      else Inl (OutOfRange v))"

definition readUInt32BE :: "byte list \<Rightarrow> nat" where
  "readUInt32BE bs = unat (word_rcat (take 4 bs) :: 32 word)"

definition encodePrivateFrame ::
  "'v header_codec \<Rightarrow> frame_limits \<Rightarrow> 'v \<Rightarrow> byte list \<Rightarrow> frame_error + byte list" where
  "encodePrivateFrame C limits header payload =
     (let headerBuffer = hc_stringify C header
      in case assertFrameLength ''header length'' (length headerBuffer) (maxHeaderBytes limits) of
           Some e \<Rightarrow> Inl e
         | None \<Rightarrow>
             (case assertFrameLength ''payload length'' (length payload) (maxPayloadBytes limits) of
                Some e \<Rightarrow> Inl e
              | None \<Rightarrow>
                  if headerBuffer = [] then Inl EmptyHeader
                  else (case writeUInt32BE (length headerBuffer) of
                          Inl e \<Rightarrow> Inl e
                        | Inr h \<Rightarrow>
                            (case writeUInt32BE (length payload) of
                               Inl e \<Rightarrow> Inl e
                             | Inr p \<Rightarrow> Inr (h @ p @ headerBuffer @ payload)))))"

section \<open>The decoder\<close>

text \<open>The loop of \<open>push\<close> over what is left of the buffer: the frames, and the bytes not used.\<close>

function decode_frames :: "'v header_codec \<Rightarrow> frame_limits \<Rightarrow> byte list \<Rightarrow> frame_error + 'v frame list \<times> byte list" where
  "decode_frames C limits buffered =
     (if length buffered < FRAME_PREFIX_BYTES then Inr ([], buffered)
      else let headerLength = readUInt32BE buffered; payloadLength = readUInt32BE (drop 4 buffered)
           in case assertFrameLength ''header length'' headerLength (maxHeaderBytes limits) of
                Some e \<Rightarrow> Inl e
              | None \<Rightarrow>
                  (case assertFrameLength ''payload length'' payloadLength (maxPayloadBytes limits) of
                     Some e \<Rightarrow> Inl e
                   | None \<Rightarrow>
                       if headerLength = 0 then Inl EmptyHeader
                       else let frameLength = FRAME_PREFIX_BYTES + headerLength + payloadLength
                            in if length buffered < frameLength then Inr ([], buffered)
                               else let body = drop FRAME_PREFIX_BYTES buffered
                                    in case hc_parse C (take headerLength body) of
                                         None \<Rightarrow> Inl InvalidHeaderJson
                                       | Some v \<Rightarrow>
                                           if \<not> hc_isObject C v \<or> \<not> hc_validate C v then Inl InvalidRoutingHeader
                                           else (case decode_frames C limits (drop frameLength buffered) of
                                                   Inl e \<Rightarrow> Inl e
                                                 | Inr (frames, rest) \<Rightarrow>
                                                     Inr (\<lparr>fr_header = v,
                                                           fr_payload = take payloadLength (drop headerLength body)\<rparr> # frames,
                                                          rest))))"
  by pat_completeness auto
termination
  by (relation "measure (\<lambda>(C, limits, buffered). length buffered)")
    (auto simp: FRAME_PREFIX_BYTES_def)

declare decode_frames.simps [simp del]

text \<open>When a frame is refused the buffer keeps the chunk, and the frames before it are lost.\<close>

definition push :: "'v header_codec \<Rightarrow> frame_limits \<Rightarrow> byte list \<Rightarrow> byte list \<Rightarrow> (frame_error + 'v frame list) \<times> byte list" where
  "push C limits buffered chunk =
     (case decode_frames C limits (buffered @ chunk) of
        Inl e \<Rightarrow> (Inl e, buffered @ chunk)
      | Inr (frames, rest) \<Rightarrow> (Inr frames, rest))"

definition finish :: "byte list \<Rightarrow> frame_error option" where
  "finish buffered = (if buffered \<noteq> [] then Some (IncompleteBytes (length buffered)) else None)"

section \<open>The channel\<close>

text \<open>
  Listeners are numbers. The stream appears as whether it was ended or destroyed (with the error), and
  the bytes written to it; \<open>ch_delivered\<close> records the calls of listeners.
\<close>

datatype channel_error = FrameError frame_error | ListenerError nat | WriteError | ChannelClosed

record 'v channel =
  ch_buffered :: "byte list"
  ch_listeners :: "nat list"
  ch_closed :: bool
  ch_attached :: bool
  ch_ended :: bool
  ch_destroyed :: "channel_error option"
  ch_written :: "byte list"
  ch_delivered :: "(nat \<times> 'v frame) list"

definition new_channel :: "'v channel" where
  "new_channel = \<lparr>ch_buffered = [], ch_listeners = [], ch_closed = False, ch_attached = True, ch_ended = False,
     ch_destroyed = None, ch_written = [], ch_delivered = []\<rparr>"

definition onFrame :: "nat \<Rightarrow> 'v channel \<Rightarrow> 'v channel" where
  "onFrame l ch = ch\<lparr>ch_listeners := (if l \<in> set (ch_listeners ch) then ch_listeners ch else ch_listeners ch @ [l])\<rparr>"

definition offFrame :: "nat \<Rightarrow> 'v channel \<Rightarrow> 'v channel" where
  "offFrame l ch = ch\<lparr>ch_listeners := removeAll l (ch_listeners ch)\<rparr>"

text \<open>\<open>writeFails\<close>: the callback of \<open>write\<close> gets an error.\<close>

definition send :: "'v header_codec \<Rightarrow> frame_limits \<Rightarrow> bool \<Rightarrow> 'v \<Rightarrow> byte list \<Rightarrow> 'v channel \<Rightarrow> channel_error option \<times> 'v channel" where
  "send C limits writeFails header payload ch =
     (if ch_closed ch \<or> ch_destroyed ch \<noteq> None then (Some ChannelClosed, ch)
      else case encodePrivateFrame C limits header payload of
          Inl e \<Rightarrow> (Some (FrameError e), ch)
        | Inr frame \<Rightarrow>
            if writeFails then (Some WriteError, ch) else (None, ch\<lparr>ch_written := ch_written ch @ frame\<rparr>))"

definition detach :: "'v channel \<Rightarrow> 'v channel" where
  "detach ch = ch\<lparr>ch_attached := False, ch_listeners := []\<rparr>"

definition close :: "'v channel \<Rightarrow> 'v channel" where
  "close ch = (if ch_closed ch then ch else (detach (ch\<lparr>ch_closed := True\<rparr>))\<lparr>ch_ended := True\<rparr>)"

text \<open>The loops over frames and listeners: the calls made, and the listener that threw, if any.\<close>

fun notify :: "(nat \<Rightarrow> 'v frame \<Rightarrow> bool) \<Rightarrow> nat list \<Rightarrow> 'v frame \<Rightarrow> (nat \<times> 'v frame) list \<times> nat option" where
  "notify throws [] f = ([], None)"
| "notify throws (l # ls) f =
     (if throws l f then ([(l, f)], Some l)
      else (let (ds, t) = notify throws ls f in ((l, f) # ds, t)))"

fun deliver :: "(nat \<Rightarrow> 'v frame \<Rightarrow> bool) \<Rightarrow> nat list \<Rightarrow> 'v frame list \<Rightarrow> (nat \<times> 'v frame) list \<times> nat option" where
  "deliver throws ls [] = ([], None)"
| "deliver throws ls (f # fs) =
     (case notify throws ls f of
        (ds, Some l) \<Rightarrow> (ds, Some l)
      | (ds, None) \<Rightarrow> (let (es, t) = deliver throws ls fs in (ds @ es, t)))"

text \<open>A detached handler is not called, and a destroyed stream emits no more data.\<close>

definition handleData ::
  "'v header_codec \<Rightarrow> frame_limits \<Rightarrow> (nat \<Rightarrow> 'v frame \<Rightarrow> bool) \<Rightarrow> byte list \<Rightarrow> 'v channel \<Rightarrow> 'v channel" where
  "handleData C limits throws chunk ch =
     (if \<not> ch_attached ch \<or> ch_destroyed ch \<noteq> None then ch
      else case push C limits (ch_buffered ch) chunk of
          (Inl e, b) \<Rightarrow> ch\<lparr>ch_buffered := b, ch_destroyed := Some (FrameError e)\<rparr>
        | (Inr frames, b) \<Rightarrow>
            (case deliver throws (ch_listeners ch) frames of
               (ds, t) \<Rightarrow> ch\<lparr>ch_buffered := b, ch_delivered := ch_delivered ch @ ds,
                              ch_destroyed := map_option ListenerError t\<rparr>))"

definition handleEnd :: "'v channel \<Rightarrow> 'v channel" where
  "handleEnd ch =
     (if \<not> ch_attached ch \<or> ch_destroyed ch \<noteq> None then ch
      else ch\<lparr>ch_destroyed := map_option FrameError (finish (ch_buffered ch))\<rparr>)"

definition handleClose :: "'v channel \<Rightarrow> 'v channel" where
  "handleClose ch = detach (ch\<lparr>ch_closed := True\<rparr>)"

end
