(* ===== verification/Private_Framing_Props.thy ===== *)
theory Private_Framing_Props
  imports Private_Framing
begin

text \<open>
  Frames survive the trip through a socket: whatever way the bytes of encoded frames are cut into
  chunks, the decoder gives the frames back in order; what it keeps between chunks is bounded.
\<close>

section \<open>Lengths\<close>

lemma base_256:
  fixes v :: int
  assumes "0 \<le> v" "v < 2 ^ 32"
  shows "v div 2 ^ 24 mod 256 * 2 ^ 24 + v div 2 ^ 16 mod 256 * 2 ^ 16 + v div 2 ^ 8 mod 256 * 2 ^ 8 + v mod 256 = v"
proof -
  define a b c where "a = v div 256" and "b = a div 256" and "c = b div 256"
  have d: "v div 2 ^ 8 = a" "v div 2 ^ 16 = b" "v div 2 ^ 24 = c"
    by (simp_all add: a_def b_def c_def zdiv_zmult2_eq [symmetric])
  have "v = 256 * a + v mod 256" "a = 256 * b + a mod 256" "b = 256 * c + b mod 256"
    by (simp_all add: a_def b_def c_def)
  moreover have "0 \<le> c" "c < 256" using assms d(3) by simp_all
  then have "c mod 256 = c" by simp
  ultimately have "c mod 256 * 16777216 + b mod 256 * 65536 + a mod 256 * 256 + v mod 256 = v" by linarith
  then show ?thesis unfolding d by simp
qed

lemma word_of_nat_byte: "uint (word_of_nat n :: byte) = int n mod 256"
  by (simp add: unsigned_of_nat take_bit_eq_mod zmod_int)

lemma read_write:
  assumes "writeUInt32BE v = Inr w"
  shows "readUInt32BE (w @ rest) = v \<and> length w = 4"
proof -
  from assms have v: "v < 2 ^ 32" and w: "w = [word_of_nat (v div 2 ^ 24), word_of_nat (v div 2 ^ 16), word_of_nat (v div 2 ^ 8), word_of_nat v]"
    by (auto simp: writeUInt32BE_def split: if_splits)
  let ?n = "int v"
  have "horner_sum uint (2 ^ 8) (rev w)
      = ?n div 2 ^ 24 mod 256 * 2 ^ 24 + ?n div 2 ^ 16 mod 256 * 2 ^ 16 + ?n div 2 ^ 8 mod 256 * 2 ^ 8 + ?n mod 256"
    by (simp add: w word_of_nat_byte zdiv_int algebra_simps)
  also have "\<dots> = ?n" using v by (intro base_256) simp_all
  finally have "(word_rcat w :: 32 word) = word_of_int ?n" by (simp add: word_rcat_def)
  with v show ?thesis by (simp add: readUInt32BE_def w unsigned_of_nat take_bit_eq_mod)
qed

section \<open>One frame\<close>

definition next_frame :: "'v header_codec \<Rightarrow> frame_limits \<Rightarrow> byte list \<Rightarrow> frame_error + ('v frame \<times> nat) option" where
  "next_frame C L b =
     (if length b < 8 then Inr None
      else let hl = readUInt32BE b; pl = readUInt32BE (drop 4 b)
           in if hl > maxHeaderBytes L then Inl (InvalidLength ''header length'' hl)
              else if pl > maxPayloadBytes L then Inl (InvalidLength ''payload length'' pl)
              else if hl = 0 then Inl EmptyHeader
              else if length b < 8 + hl + pl then Inr None
              else case hc_parse C (take hl (drop 8 b)) of
                     None \<Rightarrow> Inl InvalidHeaderJson
                   | Some v \<Rightarrow>
                       if \<not> hc_isObject C v \<or> \<not> hc_validate C v then Inl InvalidRoutingHeader
                       else Inr (Some (\<lparr>fr_header = v, fr_payload = take pl (drop hl (drop 8 b))\<rparr>, 8 + hl + pl)))"

lemma decode_next:
  "decode_frames C L b =
     (case next_frame C L b of
        Inl e \<Rightarrow> Inl e
      | Inr None \<Rightarrow> Inr ([], b)
      | Inr (Some (f, n)) \<Rightarrow>
          (case decode_frames C L (drop n b) of Inl e \<Rightarrow> Inl e | Inr (fs, rest) \<Rightarrow> Inr (f # fs, rest)))"
proof (cases "length b < 8")
  case True
  then show ?thesis by (subst decode_frames.simps) (simp add: next_frame_def FRAME_PREFIX_BYTES_def)
next
  case False
  define hl pl where "hl = readUInt32BE b" and "pl = readUInt32BE (drop 4 b)"
  note decode = decode_frames.simps [of C L b, folded hl_def pl_def, unfolded FRAME_PREFIX_BYTES_def assertFrameLength_def Let_def]
  note once = next_frame_def [of C L b, folded hl_def pl_def, unfolded Let_def]
  show ?thesis
  proof (cases "hl > maxHeaderBytes L \<or> pl > maxPayloadBytes L \<or> hl = 0 \<or> length b < 8 + hl + pl")
    case True
    with False show ?thesis unfolding decode once by auto
  next
    case F: False
    show ?thesis
    proof (cases "hc_parse C (take hl (drop 8 b))")
      case None
      with False F show ?thesis unfolding decode once by simp
    next
      case (Some v)
      with False F show ?thesis unfolding decode once by (cases "hc_isObject C v \<and> hc_validate C v") (auto simp del: drop_drop)
    qed
  qed
qed

lemma read_append: "4 \<le> length b \<Longrightarrow> readUInt32BE (b @ c) = readUInt32BE b"
  by (simp add: readUInt32BE_def)

lemma next_frame_append:
  "next_frame C L b \<noteq> Inr None \<Longrightarrow> next_frame C L (b @ c) = next_frame C L b"
  by (auto simp: next_frame_def Let_def read_append split: if_splits option.splits)

lemma next_frame_length: "next_frame C L b = Inr (Some (f, n)) \<Longrightarrow> 8 \<le> n \<and> n \<le> length b"
  by (auto simp: next_frame_def Let_def split: if_splits option.splits)

lemma next_frame_None: "next_frame C L b = Inr None \<Longrightarrow> length b < 8 + maxHeaderBytes L + maxPayloadBytes L"
  by (auto simp: next_frame_def Let_def split: if_splits option.splits)

section \<open>Chunks\<close>

lemma decode_append:
  "decode_frames C L (a @ b) =
     (case decode_frames C L a of
        Inl e \<Rightarrow> Inl e
      | Inr (xs, r) \<Rightarrow> (case decode_frames C L (r @ b) of Inl e \<Rightarrow> Inl e | Inr (ys, r') \<Rightarrow> Inr (xs @ ys, r')))"
proof (induction "length a" arbitrary: a rule: less_induct)
  case less
  show ?case
  proof (cases "next_frame C L a")
    case (Inl e)
    then show ?thesis using next_frame_append [of C L a b] by (simp add: decode_next [of C L a] decode_next [of C L "a @ b"])
  next
    case (Inr r)
    show ?thesis
    proof (cases r)
      case None
      then have "decode_frames C L a = Inr ([], a)" using Inr by (simp add: decode_next [of C L a])
      then show ?thesis by (simp split: sum.split prod.split)
    next
      case (Some fn)
      then obtain f n where fn: "next_frame C L a = Inr (Some (f, n))" using Inr by (cases fn) simp
      then have n: "8 \<le> n" "n \<le> length a" and ab: "next_frame C L (a @ b) = Inr (Some (f, n))"
        using next_frame_length [OF fn] next_frame_append [of C L a b] by simp_all
      have "length (drop n a) < length a" using n by simp
      from less [OF this] n show ?thesis
        unfolding decode_next [of C L a] decode_next [of C L "a @ b"] fn ab
        by (auto split: sum.splits)
    qed
  qed
qed

definition feed_frames :: "'v header_codec \<Rightarrow> frame_limits \<Rightarrow> byte list \<Rightarrow> byte list \<Rightarrow> frame_error + 'v frame list \<times> byte list" where
  "feed_frames C L buffered chunk =
     (case push C L buffered chunk of (Inl e, _) \<Rightarrow> Inl e | (Inr frames, rest) \<Rightarrow> Inr (frames, rest))"

lemma feed_frames_decode: "feed_frames C L buffered chunk = decode_frames C L (buffered @ chunk)"
  by (simp add: feed_frames_def push_def split: sum.split)

lemma decode_rest: "decode_frames C L b = Inr (xs, r) \<Longrightarrow> next_frame C L r = Inr None"
proof (induction "length b" arbitrary: b xs rule: less_induct)
  case less
  show ?case
  proof (cases "next_frame C L b")
    case (Inr q)
    show ?thesis
    proof (cases q)
      case None
      with Inr less.prems show ?thesis by (simp add: decode_next [of C L b])
    next
      case (Some fn)
      then obtain f n where fn: "next_frame C L b = Inr (Some (f, n))" using Inr by (cases fn) simp
      with less.prems obtain ys where "decode_frames C L (drop n b) = Inr (ys, r)"
        by (auto simp: decode_next [of C L b] split: sum.splits)
      with next_frame_length [OF fn] show ?thesis by (intro less.hyps [of "drop n b"]) auto
    qed
  qed (use less.prems in \<open>simp add: decode_next [of C L b]\<close>)
qed

text \<open>Between chunks the buffer holds no whole frame.\<close>

definition frames_settled :: "'v header_codec \<Rightarrow> frame_limits \<Rightarrow> byte list \<Rightarrow> bool" where
  "frames_settled C L b \<longleftrightarrow> next_frame C L b = Inr None"

interpretation frame_chunks: chunk_decoder "feed_frames C L" "frames_settled C L" for C L
proof
  fix s :: "byte list"
  assume "frames_settled C L s"
  then show "feed_frames C L s [] = Inr ([], s)"
    by (simp add: frames_settled_def feed_frames_decode decode_next [of C L s])
next
  fix s c :: "byte list" and xs s'
  assume "feed_frames C L s c = Inr (xs, s')"
  then show "frames_settled C L s'" by (simp add: frames_settled_def feed_frames_decode decode_rest)
next
  fix s a b :: "byte list"
  show "feed_frames C L s (a @ b) =
      (case feed_frames C L s a of Inl e \<Rightarrow> Inl e
       | Inr (xs, s1) \<Rightarrow> (case feed_frames C L s1 b of Inl e \<Rightarrow> Inl e | Inr (ys, s2) \<Rightarrow> Inr (xs @ ys, s2)))"
    unfolding feed_frames_decode append_assoc [symmetric] by (rule decode_append)
qed

section \<open>Round trip\<close>

text \<open>A header the decoder reads back: \<open>JSON.parse\<close> inverts \<open>JSON.stringify\<close> on it and it is valid.\<close>

definition readable_header :: "'v header_codec \<Rightarrow> 'v \<Rightarrow> bool" where
  "readable_header C v \<longleftrightarrow> hc_parse C (hc_stringify C v) = Some v \<and> hc_isObject C v \<and> hc_validate C v"

lemma next_encoded:
  assumes "encodePrivateFrame C L v p = Inr bs" "readable_header C v"
  shows "next_frame C L (bs @ rest) = Inr (Some (\<lparr>fr_header = v, fr_payload = p\<rparr>, length bs))"
proof -
  let ?h = "hc_stringify C v"
  from assms(1) obtain hw pw where w: "writeUInt32BE (length ?h) = Inr hw" "writeUInt32BE (length p) = Inr pw"
    and bs: "bs = hw @ pw @ ?h @ p" and len: "length ?h \<le> maxHeaderBytes L" "length p \<le> maxPayloadBytes L" "?h \<noteq> []"
    by (auto simp: encodePrivateFrame_def assertFrameLength_def Let_def split: if_splits option.splits sum.splits)
  from read_write [OF w(1), of "pw @ ?h @ p @ rest"] read_write [OF w(2), of "?h @ p @ rest"]
  have "readUInt32BE (bs @ rest) = length ?h" "readUInt32BE (drop 4 (bs @ rest)) = length p"
    "length hw = 4" "length pw = 4" by (simp_all add: bs)
  with len assms(2) show ?thesis
    by (simp add: next_frame_def bs readable_header_def Let_def)
qed

text \<open>The bytes of several frames.\<close>

fun encode_all :: "'v header_codec \<Rightarrow> frame_limits \<Rightarrow> ('v \<times> byte list) list \<Rightarrow> frame_error + byte list" where
  "encode_all C L [] = Inr []"
| "encode_all C L ((v, p) # fs) =
     (case encodePrivateFrame C L v p of
        Inl e \<Rightarrow> Inl e
      | Inr bs \<Rightarrow> (case encode_all C L fs of Inl e \<Rightarrow> Inl e | Inr cs \<Rightarrow> Inr (bs @ cs)))"

lemma decode_encoded:
  "encode_all C L fs = Inr bs \<Longrightarrow> \<forall>(v, p)\<in>set fs. readable_header C v \<Longrightarrow>
   decode_frames C L bs = Inr (map (\<lambda>(v, p). \<lparr>fr_header = v, fr_payload = p\<rparr>) fs, [])"
proof (induction fs arbitrary: bs)
  case Nil
  then show ?case by (simp add: decode_next next_frame_def)
next
  case (Cons q fs)
  obtain v p where q: "q = (v, p)" by fastforce
  with Cons.prems obtain b1 b2 where b: "encodePrivateFrame C L v p = Inr b1" "encode_all C L fs = Inr b2" "bs = b1 @ b2"
    by (auto split: sum.splits)
  from Cons.prems(2) q have "readable_header C v" "\<forall>(v, p)\<in>set fs. readable_header C v" by auto
  with next_encoded [OF b(1), of b2] Cons.IH [OF b(2)] show ?case
    unfolding b(3) decode_next [of C L "b1 @ b2"] by (simp add: q)
qed

lemma empty_settled: "frames_settled C L []"
  by (simp add: frames_settled_def next_frame_def)

lemma chunks_roundtrip:
  assumes "encode_all C L fs = Inr bytes" "\<forall>(v, p)\<in>set fs. readable_header C v" "concat chunks = bytes"
  shows "feed_all (feed_frames C L) [] chunks = Inr (map (\<lambda>(v, p). \<lparr>fr_header = v, fr_payload = p\<rparr>) fs, [])"
  using frame_chunks.feed_all_concat [OF empty_settled, of C L chunks] decode_encoded [OF assms(1,2)] assms(3)
  by (simp add: feed_frames_decode)

section \<open>Two channels\<close>

text \<open>A list of sends, each of which must succeed.\<close>

fun send_all :: "'v header_codec \<Rightarrow> frame_limits \<Rightarrow> ('v \<times> byte list) list \<Rightarrow> 'v channel \<Rightarrow> 'v channel option" where
  "send_all C L [] ch = Some ch"
| "send_all C L ((v, p) # fs) ch =
     (case send C L False v p ch of (None, ch') \<Rightarrow> send_all C L fs ch' | (Some e, _) \<Rightarrow> None)"

lemma send_all_written:
  "send_all C L fs ch = Some ch' \<Longrightarrow> \<exists>bs. encode_all C L fs = Inr bs \<and> ch_written ch' = ch_written ch @ bs"
proof (induction fs arbitrary: ch)
  case (Cons q fs)
  obtain v p where q: "q = (v, p)" by fastforce
  with Cons.prems obtain b where b: "encodePrivateFrame C L v p = Inr b"
      "send_all C L fs (ch\<lparr>ch_written := ch_written ch @ b\<rparr>) = Some ch'"
    by (auto simp: send_def split: if_splits sum.splits)
  from Cons.IH [OF b(2)] obtain bs where "encode_all C L fs = Inr bs"
      "ch_written ch' = ch_written (ch\<lparr>ch_written := ch_written ch @ b\<rparr>) @ bs" by blast
  with b(1) q show ?case by simp
qed simp

lemma notify_all: "\<forall>l f. \<not> throws l f \<Longrightarrow> notify throws ls f = (map (\<lambda>l. (l, f)) ls, None)"
  by (induction ls) simp_all

lemma deliver_all: "\<forall>l f. \<not> throws l f \<Longrightarrow> deliver throws ls fs = (concat (map (\<lambda>f. map (\<lambda>l. (l, f)) ls) fs), None)"
  by (induction fs) (simp_all add: notify_all)

definition receive_all ::
  "'v header_codec \<Rightarrow> frame_limits \<Rightarrow> (nat \<Rightarrow> 'v frame \<Rightarrow> bool) \<Rightarrow> byte list list \<Rightarrow> 'v channel \<Rightarrow> 'v channel" where
  "receive_all C L throws chunks ch = fold (handleData C L throws) chunks ch"

lemma receive_feed:
  assumes "\<forall>l f. \<not> throws l f" "feed_all (feed_frames C L) (ch_buffered ch) chunks = Inr (fs, rest)"
    "ch_attached ch" "ch_destroyed ch = None"
  shows "receive_all C L throws chunks ch = ch\<lparr>ch_buffered := rest, ch_delivered :=
     ch_delivered ch @ concat (map (\<lambda>f. map (\<lambda>l. (l, f)) (ch_listeners ch)) fs)\<rparr>"
  using assms(2-)
proof (induction chunks arbitrary: ch fs)
  case Nil
  then show ?case by (simp add: receive_all_def)
next
  case (Cons c cs)
  from Cons.prems(1) obtain xs s1 ys where f: "feed_frames C L (ch_buffered ch) c = Inr (xs, s1)"
      "feed_all (feed_frames C L) s1 cs = Inr (ys, rest)" "fs = xs @ ys"
    by (auto split: sum.splits)
  let ?ch = "ch\<lparr>ch_buffered := s1, ch_delivered :=
     ch_delivered ch @ concat (map (\<lambda>f. map (\<lambda>l. (l, f)) (ch_listeners ch)) xs)\<rparr>"
  have "push C L (ch_buffered ch) c = (Inr xs, s1)"
    using f(1) by (auto simp: feed_frames_def split: prod.splits sum.splits)
  then have h: "handleData C L throws c ch = ?ch"
    using Cons.prems(2,3) assms(1) by (simp add: handleData_def deliver_all)
  have "receive_all C L throws cs ?ch = ?ch\<lparr>ch_buffered := rest, ch_delivered :=
     ch_delivered ?ch @ concat (map (\<lambda>f. map (\<lambda>l. (l, f)) (ch_listeners ?ch)) ys)\<rparr>"
    using f(2) Cons.prems(2,3) by (intro Cons.IH) simp_all
  with h f(3) show ?case by (simp add: receive_all_def)
qed

text \<open>
  C22. Frames sent on one private channel arrive on another: whatever way the bytes are cut into
  chunks, every listener of the receiver gets all frames, in order and unchanged, nothing is left in
  the buffer and the end of the stream is clean; readable headers and listeners that do not throw
  are assumed.
\<close>

theorem channel_delivers:
  assumes "send_all C L fs new_channel = Some sender" "\<forall>(v, p)\<in>set fs. readable_header C v"
    "concat chunks = ch_written sender" "\<forall>l f. \<not> throws l f"
    "receiver = foldr onFrame ls new_channel"
  shows "handleEnd (receive_all C L throws chunks receiver) = receiver\<lparr>ch_delivered :=
     concat (map (\<lambda>(v, p). map (\<lambda>l. (l, \<lparr>fr_header = v, fr_payload = p\<rparr>)) (ch_listeners receiver)) fs)\<rparr>"
proof -
  from send_all_written [OF assms(1)] have "encode_all C L fs = Inr (ch_written sender)" by (auto simp: new_channel_def)
  from chunks_roundtrip [OF this assms(2,3)]
  have feed: "feed_all (feed_frames C L) [] chunks = Inr (map (\<lambda>(v, p). \<lparr>fr_header = v, fr_payload = p\<rparr>) fs, [])" .
  have r: "ch_buffered receiver = [] \<and> ch_attached receiver \<and> ch_destroyed receiver = None \<and> ch_delivered receiver = []"
    unfolding assms(5) by (induction ls) (simp_all add: new_channel_def onFrame_def)
  with receive_feed [OF assms(4), of C L receiver chunks] feed
  show ?thesis by (cases receiver) (simp add: handleEnd_def finish_def comp_def case_prod_unfold)
qed

text \<open>
  Between chunks the frame decoder never holds more than one incomplete frame: less than eight
  bytes plus the limits of header and payload.
\<close>

theorem frame_buffer_bounded:
  assumes "feed_all (feed_frames C L) [] chunks = Inr (frames, rest)"
  shows "length rest < 8 + maxHeaderBytes L + maxPayloadBytes L"
  using frame_chunks.feed_all_settled [OF empty_settled assms] by (simp add: frames_settled_def next_frame_None)

section \<open>Examples\<close>

text \<open>Headers whose JSON text is any non-empty byte string.\<close>

definition demo_codec :: "byte list header_codec" where
  "demo_codec = \<lparr>hc_stringify = (\<lambda>v. v), hc_parse = (\<lambda>b. Some b), hc_isObject = (\<lambda>v. True), hc_validate = (\<lambda>v. True)\<rparr>"

lemma demo_readable [simp]: "readable_header demo_codec v"
  by (simp add: readable_header_def demo_codec_def)

definition demo_bytes :: "byte list" where
  "demo_bytes = [0, 0, 0, 2, 0, 0, 0, 1, 123, 125, 7] @ [0, 0, 0, 1, 0, 0, 0, 0, 9]"

lemma demo_sent: "send_all demo_codec DEFAULT_PRIVATE_FRAME_LIMITS [([123, 125], [7]), ([9], [])] new_channel
    = Some (new_channel\<lparr>ch_written := demo_bytes\<rparr>)"
  by (simp add: send_def new_channel_def encodePrivateFrame_def demo_codec_def DEFAULT_PRIVATE_FRAME_LIMITS_def
      assertFrameLength_def writeUInt32BE_def demo_bytes_def)

definition demo_receiver :: "byte list channel" where
  "demo_receiver = foldr onFrame [1, 0] new_channel"

theorem channel_delivers_witness:
  "handleEnd (receive_all demo_codec DEFAULT_PRIVATE_FRAME_LIMITS (\<lambda>_ _. False) [take 3 demo_bytes, [], drop 3 demo_bytes]
     demo_receiver)
   = demo_receiver\<lparr>ch_delivered :=
      concat (map (\<lambda>(v, p). map (\<lambda>l. (l, \<lparr>fr_header = v, fr_payload = p\<rparr>)) (ch_listeners demo_receiver))
        [([123, 125], [7]), ([9], [])])\<rparr>"
  by (rule channel_delivers [OF demo_sent _ _ _ demo_receiver_def]) (simp_all add: new_channel_def)

lemma demo_part: "feed_all (feed_frames demo_codec DEFAULT_PRIVATE_FRAME_LIMITS) [] [take 3 demo_bytes] = Inr ([], take 3 demo_bytes)"
  by (simp add: feed_frames_decode decode_next next_frame_def demo_bytes_def)

theorem frame_buffer_bounded_witness:
  "length (take 3 demo_bytes)
     < 8 + maxHeaderBytes DEFAULT_PRIVATE_FRAME_LIMITS + maxPayloadBytes DEFAULT_PRIVATE_FRAME_LIMITS"
  by (rule frame_buffer_bounded [OF demo_part])

end
