(* ===== verification/Jsonl.thy ===== *)
theory Jsonl
  imports Chunk_Decoder Utf
begin

text \<open>
  The JSONL reader of the RPC mode (\<open>modes/rpc/jsonl.ts\<close>). Chunks are the strings \<open>StringDecoder\<close> gives;
  its last piece, when the stream ends, is a parameter of \<open>onEnd\<close>. The calls of \<open>onLine\<close> and
  \<open>onLineOverflow\<close> are events. The refinement below shows that neither the segments kept between chunks
  nor the way the stream is cut can be seen.
\<close>

section \<open>The reader\<close>

datatype jsonl_event = LineRead jsstring | LineOverflow jsstring

record jsonl_state =
  jr_pending :: "jsstring list"
  jr_pendingLength :: nat
  jr_discardingOverflow :: bool

definition new_reader :: jsonl_state where
  "new_reader = \<lparr>jr_pending = [], jr_pendingLength = 0, jr_discardingOverflow = False\<rparr>"

definition serializeJsonLine :: "('v \<Rightarrow> jsstring) \<Rightarrow> 'v \<Rightarrow> jsstring" where
  "serializeJsonLine stringify v = stringify v @ [newline]"

definition emitLine :: "jsstring \<Rightarrow> jsonl_event" where
  "emitLine line = LineRead (if line \<noteq> [] \<and> last line = cr then butlast line else line)"

definition resetPending :: "jsonl_state \<Rightarrow> jsonl_state" where
  "resetPending s = s\<lparr>jr_pending := [], jr_pendingLength := 0\<rparr>"

definition appendPending :: "nat option \<Rightarrow> jsstring \<Rightarrow> jsonl_state \<Rightarrow> jsonl_event list \<times> jsonl_state" where
  "appendPending maxLineLength segment s =
     (let grown = s\<lparr>jr_pending := jr_pending s @ [segment], jr_pendingLength := jr_pendingLength s + length segment\<rparr>
      in if jr_discardingOverflow s \<or> segment = [] then ([], s)
         else case maxLineLength of
             None \<Rightarrow> ([], grown)
           | Some m \<Rightarrow>
               if jr_pendingLength s + length segment > m then
                 let remaining = m - jr_pendingLength s;
                     pending = (if remaining > 0 then jr_pending s @ [take remaining segment] else jr_pending s)
                 in ([LineOverflow (concat pending)], (resetPending s)\<lparr>jr_discardingOverflow := True\<rparr>)
               else ([], grown))"

definition emitFrom :: "nat option \<Rightarrow> jsstring \<Rightarrow> jsonl_state \<Rightarrow> jsonl_event list \<times> jsonl_state" where
  "emitFrom maxLineLength segment s =
     (if jr_discardingOverflow s then ([], resetPending (s\<lparr>jr_discardingOverflow := False\<rparr>))
      else case appendPending maxLineLength segment s of
          (es, s1) \<Rightarrow>
            if jr_discardingOverflow s1 then (es, s1\<lparr>jr_discardingOverflow := False\<rparr>)
            else (es @ [emitLine (concat (jr_pending s1))], resetPending s1))"

text \<open>The loop of \<open>onData\<close> over the pieces between line feeds.\<close>

fun on_pieces :: "nat option \<Rightarrow> jsstring list \<Rightarrow> jsonl_state \<Rightarrow> jsonl_event list \<times> jsonl_state" where
  "on_pieces m [] s = ([], s)"
| "on_pieces m [piece] s = (if piece \<noteq> [] then appendPending m piece s else ([], s))"
| "on_pieces m (piece # p # ps) s =
     (let (es, s1) = emitFrom m piece s; (fs, s2) = on_pieces m (p # ps) s1 in (es @ fs, s2))"

definition onData :: "nat option \<Rightarrow> jsstring \<Rightarrow> jsonl_state \<Rightarrow> jsonl_event list \<times> jsonl_state" where
  "onData maxLineLength text = on_pieces maxLineLength (split_on newline text)"

definition onEnd :: "nat option \<Rightarrow> jsstring \<Rightarrow> jsonl_state \<Rightarrow> jsonl_event list \<times> jsonl_state" where
  "onEnd maxLineLength tail s =
     (let (es, s1) = (if tail \<noteq> [] then appendPending maxLineLength tail s else ([], s))
      in (es @ (if \<not> jr_discardingOverflow s1 \<and> jr_pending s1 \<noteq> [] then [emitLine (concat (jr_pending s1))] else []),
          new_reader))"

text \<open>A stream: its chunks, then its end.\<close>

fun read_stream :: "nat option \<Rightarrow> jsstring list \<Rightarrow> jsstring \<Rightarrow> jsonl_state \<Rightarrow> jsonl_event list" where
  "read_stream m [] tail s = fst (onEnd m tail s)"
| "read_stream m (c # cs) tail s = (let (es, s1) = onData m c s in es @ read_stream m cs tail s1)"

section \<open>Character by character\<close>

text \<open>The reader without segments: the line so far, and whether the rest of the line is dropped.\<close>

type_synonym line_state = "jsstring \<times> bool"

definition read_unit :: "nat option \<Rightarrow> cu \<Rightarrow> line_state \<Rightarrow> jsonl_event list \<times> line_state" where
  "read_unit m c s =
     (if c = newline then (if snd s then [] else [emitLine (fst s)], ([], False))
      else if snd s then ([], s)
      else if m \<noteq> None \<and> length (fst s) \<ge> the m then ([LineOverflow (fst s)], ([], True))
      else ([], (fst s @ [c], False)))"

fun read_units :: "nat option \<Rightarrow> jsstring \<Rightarrow> line_state \<Rightarrow> jsonl_event list \<times> line_state" where
  "read_units m [] s = ([], s)"
| "read_units m (c # cs) s = (let (es, s1) = read_unit m c s; (fs, s2) = read_units m cs s1 in (es @ fs, s2))"

lemma read_units_append:
  "read_units m (a @ b) s = (let (es, s1) = read_units m a s; (fs, s2) = read_units m b s1 in (es @ fs, s2))"
  by (induction a arbitrary: s) (auto split: prod.splits)

interpretation line_chunks: chunk_decoder "\<lambda>s c. Inr (read_units m c s) :: unit + jsonl_event list \<times> line_state" "\<lambda>_. True" for m
  by standard (auto simp: read_units_append split: prod.splits)

section \<open>Refinement\<close>

definition line_of :: "jsonl_state \<Rightarrow> line_state" where
  "line_of s = (concat (jr_pending s), jr_discardingOverflow s)"

definition reader_ok :: "nat option \<Rightarrow> jsonl_state \<Rightarrow> bool" where
  "reader_ok m s \<longleftrightarrow> jr_pendingLength s = length (concat (jr_pending s)) \<and> [] \<notin> set (jr_pending s)
     \<and> (jr_discardingOverflow s \<longrightarrow> jr_pending s = [])
     \<and> (case m of Some k \<Rightarrow> jr_pendingLength s \<le> k | None \<Rightarrow> True)"

lemma read_dropped: "newline \<notin> set seg \<Longrightarrow> read_units m seg (b, True) = ([], (b, True))"
  by (induction seg) (auto simp: read_unit_def)

lemma read_segment:
  assumes "newline \<notin> set seg" "m = None \<or> length b \<le> the m"
  shows "read_units m seg (b, False) =
    (if m \<noteq> None \<and> length b + length seg > the m then ([LineOverflow (take (the m) (b @ seg))], ([], True))
     else ([], (b @ seg, False)))"
  using assms
proof (induction seg arbitrary: b)
  case (Cons c cs)
  show ?case
  proof (cases "m \<noteq> None \<and> length b \<ge> the m")
    case True
    then have "length b = the m" using Cons.prems by auto
    with True Cons.prems show ?thesis by (auto simp: read_unit_def read_dropped)
  next
    case False
    with Cons.prems have "newline \<notin> set cs" "m = None \<or> length (b @ [c]) \<le> the m" by auto
    from Cons.IH [OF this] False Cons.prems(1) show ?thesis by (auto simp: read_unit_def)
  qed
qed auto

lemma append_refines:
  assumes "newline \<notin> set seg" "reader_ok m s"
  shows "appendPending m seg s = (es, s') \<Longrightarrow>
    reader_ok m s' \<and> (es, line_of s') = read_units m seg (line_of s)"
proof (cases "jr_discardingOverflow s")
  case True
  moreover assume "appendPending m seg s = (es, s')"
  ultimately show ?thesis using assms by (simp add: appendPending_def line_of_def read_dropped)
next
  case False
  moreover assume a: "appendPending m seg s = (es, s')"
  have "m = None \<or> length (concat (jr_pending s)) \<le> the m" using assms(2) by (cases m) (auto simp: reader_ok_def)
  note read_segment [OF assms(1) this]
  ultimately show ?thesis using assms(2) a
    by (cases m) (auto simp: appendPending_def line_of_def reader_ok_def resetPending_def Let_def split: if_splits)
qed

lemma emit_refines:
  assumes "newline \<notin> set seg" "reader_ok m s" "emitFrom m seg s = (es, s')"
  shows "reader_ok m s' \<and> (es, line_of s') = read_units m (seg @ [newline]) (line_of s)"
proof (cases "jr_discardingOverflow s")
  case True
  with assms show ?thesis
    by (auto simp: emitFrom_def resetPending_def reader_ok_def line_of_def read_units_append read_dropped read_unit_def
        split: option.splits)
next
  case False
  obtain fs s1 where a: "appendPending m seg s = (fs, s1)" by fastforce
  from append_refines [OF assms(1,2) a] have "reader_ok m s1" "read_units m seg (line_of s) = (fs, line_of s1)" by simp_all
  with False assms(3) a show ?thesis
    by (cases "jr_discardingOverflow s1")
      (auto simp: emitFrom_def read_units_append read_unit_def line_of_def reader_ok_def resetPending_def split: option.splits)
qed

lemma pieces_refine:
  assumes "ps \<noteq> []" "\<forall>p\<in>set ps. newline \<notin> set p" "reader_ok m s" "on_pieces m ps s = (es, s')"
  shows "reader_ok m s' \<and> (es, line_of s') = read_units m (join [newline] ps) (line_of s)"
  using assms
proof (induction m ps s arbitrary: es rule: on_pieces.induct)
  case (2 m piece s)
  then show ?case using append_refines [of piece m s es s'] by (auto split: if_splits)
next
  case (3 m piece p ps s)
  obtain xs s1 where e: "emitFrom m piece s = (xs, s1)" by fastforce
  obtain ys where o: "on_pieces m (p # ps) s1 = (ys, s')" "es = xs @ ys" using "3.prems"(4) e by (auto split: prod.splits)
  from emit_refines [OF _ "3.prems"(3) e] "3.prems"(2)
  have r: "reader_ok m s1" "read_units m (piece @ [newline]) (line_of s) = (xs, line_of s1)" by auto
  from "3.IH" [OF e [symmetric] refl] r(1) "3.prems"(2) o(1)
  have "reader_ok m s'" "read_units m (join [newline] (p # ps)) (line_of s1) = (ys, line_of s')" by auto
  moreover have "join [newline] (piece # p # ps) = (piece @ [newline]) @ join [newline] (p # ps)" by simp
  ultimately show ?case using r(2) o(2) by (simp only: read_units_append) simp
qed simp

lemma data_refines:
  assumes "reader_ok m s" "onData m text s = (es, s')"
  shows "reader_ok m s' \<and> (es, line_of s') = read_units m text (line_of s)"
proof -
  have "\<forall>p\<in>set (split_on newline text). newline \<notin> set p" using split_on_no_sep by fast
  from pieces_refine [OF _ this assms(1)] assms(2) show ?thesis by (simp add: onData_def)
qed

section \<open>What is read\<close>

text \<open>The calls of \<open>onLine\<close> and \<open>onLineOverflow\<close> for a text, without chunks.\<close>

definition line_event :: "nat option \<Rightarrow> jsstring \<Rightarrow> jsonl_event" where
  "line_event m line =
     (if m \<noteq> None \<and> length line > the m then LineOverflow (take (the m) line) else emitLine line)"

definition lines_of :: "nat option \<Rightarrow> jsstring \<Rightarrow> jsonl_event list" where
  "lines_of m text =
     (let ls = split_on newline text
      in map (line_event m) (butlast ls) @ (if last ls = [] then [] else [line_event m (last ls)]))"

lemma lines_of_Cons: "newline \<notin> set l \<Longrightarrow> lines_of m (l @ newline # t) = line_event m l # lines_of m t"
  by (simp add: lines_of_def split_on_append Let_def)

lemma lines_of_last: "newline \<notin> set l \<Longrightarrow> lines_of m l = (if l = [] then [] else [line_event m l])"
  by (simp add: lines_of_def split_on_id)

text \<open>What the end of the stream adds to a line that is not terminated.\<close>

definition flush_line :: "line_state \<Rightarrow> jsonl_event list" where
  "flush_line s = (if snd s \<or> fst s = [] then [] else [emitLine (fst s)])"

lemma read_lines:
  "fst (read_units m t ([], False)) @ flush_line (snd (read_units m t ([], False))) = lines_of m t"
proof (induction "length t" arbitrary: t rule: less_induct)
  case less
  note seg = read_segment [of _ m "[]"]
  show ?case
  proof (cases "newline \<in> set t")
    case True
    then obtain l u where t: "t = l @ newline # u" "newline \<notin> set l" by (auto dest: split_list_first)
    then have "fst (read_units m u ([], False)) @ flush_line (snd (read_units m u ([], False))) = lines_of m u"
      using less by simp
    then show ?thesis using t(2) seg [OF t(2)]
      by (auto simp: t(1) lines_of_Cons read_units_append read_unit_def line_event_def split_beta split: prod.splits)
  next
    case False
    then show ?thesis using seg [OF False]
      by (auto simp: lines_of_last flush_line_def line_event_def)
  qed
qed

lemma end_refines:
  assumes "reader_ok m s" "newline \<notin> set tail"
  shows "fst (onEnd m tail s) = fst (read_units m tail (line_of s)) @ flush_line (snd (read_units m tail (line_of s)))"
proof -
  have flush: "(if \<not> jr_discardingOverflow s1 \<and> jr_pending s1 \<noteq> [] then [emitLine (concat (jr_pending s1))] else [])
      = flush_line (line_of s1)" if "reader_ok m s1" for s1
    using that by (cases "jr_pending s1") (auto simp: flush_line_def line_of_def reader_ok_def)
  show ?thesis
  proof (cases "tail = []")
    case True
    then show ?thesis using flush [OF assms(1)] by (simp add: onEnd_def)
  next
    case False
    obtain es s1 where a: "appendPending m tail s = (es, s1)" by fastforce
    from append_refines [OF assms(2,1) a] have "reader_ok m s1" "read_units m tail (line_of s) = (es, line_of s1)"
      by simp_all
    then show ?thesis using False a flush [of s1] by (simp add: onEnd_def)
  qed
qed

lemma stream_refines:
  assumes "reader_ok m s" "newline \<notin> set tail"
  shows "read_stream m cs tail s
    = fst (read_units m (concat cs @ tail) (line_of s)) @ flush_line (snd (read_units m (concat cs @ tail) (line_of s)))"
  using assms(1)
proof (induction cs arbitrary: s)
  case Nil
  then show ?case by (simp add: end_refines assms(2))
next
  case (Cons c cs)
  obtain es s1 where d: "onData m c s = (es, s1)" by fastforce
  from data_refines [OF Cons.prems d] have "reader_ok m s1" "read_units m c (line_of s) = (es, line_of s1)" by simp_all
  with Cons.IH [of s1] d show ?case by (simp add: read_units_append split_beta Let_def)
qed

text \<open>
  C24. The JSONL reader, with its segments and overflow handling, calls its listeners exactly as
  splitting the whole text at line feeds would: every line once, over-long lines as one overflow
  with the allowed prefix, whatever the chunks.
\<close>

theorem jsonl_lines:
  assumes "newline \<notin> set tail"
  shows "read_stream m chunks tail new_reader = lines_of m (concat chunks @ tail)"
proof -
  have "reader_ok m new_reader" "line_of new_reader = ([], False)"
    by (simp_all add: reader_ok_def new_reader_def line_of_def split: option.split)
  with stream_refines [OF _ assms] read_lines [of m "concat chunks @ tail"] show ?thesis by simp
qed

text \<open>A line of 3 units in two chunks, one of 5 against a limit of 4, and one without line feed.\<close>

theorem jsonl_lines_witness:
  "read_stream (Some 4) [[97, 98], [99, 13, newline, 97, 98, 99], [100, 101, newline, 97]] [0xFFFD] new_reader
   = lines_of (Some 4) (concat [[97, 98], [99, 13, newline, 97, 98, 99], [100, 101, newline, 97]] @ [0xFFFD])"
  by (rule jsonl_lines) (simp add: newline_def)

lemma jsonl_example:
  "lines_of (Some 4) [97, 98, 99, 13, newline, 97, 98, 99, 100, 101, newline, 97, 0xFFFD]
   = [LineRead [97, 98, 99], LineOverflow [97, 98, 99, 100], LineRead [97, 0xFFFD]]"
  by (simp add: lines_of_def line_event_def emitLine_def newline_def cr_def Let_def)

text \<open>Serialised records are read back, one event each.\<close>

lemma jsonl_roundtrip:
  assumes "\<forall>v\<in>set vs. newline \<notin> set (text v) \<and> text v \<noteq> [] \<and> last (text v) \<noteq> cr
      \<and> (m = None \<or> length (text v) \<le> the m)"
  shows "lines_of m (concat (map (serializeJsonLine text) vs)) = map (\<lambda>v. LineRead (text v)) vs"
  using assms
  by (induction vs) (auto simp: serializeJsonLine_def lines_of_Cons lines_of_last line_event_def emitLine_def)

end
