(* ===== verification/Semaphore.thy ===== *)
theory Semaphore
  imports Prelude
begin

text \<open>
  The counting semaphore that bounds asynchronous work (\<open>utils/semaphore.ts\<close>). A task is a call of
  \<open>run\<close>; its waiter is known by the number of the task. Between two awaits JavaScript runs one task,
  so acquiring, aborting and releasing are steps of the system.
\<close>

section \<open>The class\<close>

record semaphore =
  se_available :: nat
  se_waiters :: "nat list"

definition new_semaphore :: "int \<Rightarrow> semaphore result" where
  "new_semaphore permits =
     (if permits < 1 then Inl (Error (''Semaphore permits must be a positive integer, got '' @ int_dec permits))
      else Inr \<lparr>se_available = nat permits, se_waiters = []\<rparr>)"

definition queueLength :: "semaphore \<Rightarrow> nat" where
  "queueLength s = length (se_waiters s)"

datatype acquire_outcome = Rejected | Acquired | Waiting

definition acquire :: "nat \<Rightarrow> bool \<Rightarrow> semaphore \<Rightarrow> acquire_outcome \<times> semaphore" where
  "acquire t aborted s =
     (if aborted then (Rejected, s)
      else if se_available s > 0 then (Acquired, s\<lparr>se_available := se_available s - 1\<rparr>)
      else (Waiting, s\<lparr>se_waiters := se_waiters s @ [t]\<rparr>))"

text \<open>\<open>onAbort\<close> of a waiter.\<close>

definition abort_waiter :: "nat \<Rightarrow> semaphore \<Rightarrow> semaphore" where
  "abort_waiter t s = s\<lparr>se_waiters := remove1 t (se_waiters s)\<rparr>"

text \<open>The waiter that is resolved, if there is one.\<close>

definition release :: "semaphore \<Rightarrow> nat option \<times> semaphore" where
  "release s =
     (case se_waiters s of
        [] \<Rightarrow> (None, s\<lparr>se_available := se_available s + 1\<rparr>)
      | t # ts \<Rightarrow> (Some t, s\<lparr>se_waiters := ts\<rparr>))"

section \<open>Tasks\<close>

text \<open>
  Which tasks hold a permit, which came (without being aborted before), which were granted one, in
  order, and which were aborted while waiting.
\<close>

record sem_system =
  ss_sem :: semaphore
  ss_holders :: "nat list"
  ss_arrived :: "nat list"
  ss_granted :: "nat list"
  ss_aborted :: "nat list"

definition sem_start :: "semaphore \<Rightarrow> sem_system" where
  "sem_start s = \<lparr>ss_sem = s, ss_holders = [], ss_arrived = [], ss_granted = [], ss_aborted = []\<rparr>"

definition grant :: "nat \<Rightarrow> sem_system \<Rightarrow> sem_system" where
  "grant t sys = sys\<lparr>ss_holders := t # ss_holders sys, ss_granted := ss_granted sys @ [t]\<rparr>"

text \<open>A call of \<open>run\<close>, the abort of a waiter, and the end of the function run, thrown or not.\<close>

definition run_call :: "nat \<Rightarrow> bool \<Rightarrow> sem_system \<Rightarrow> sem_system" where
  "run_call t aborted sys =
     (case acquire t aborted (ss_sem sys) of
        (Rejected, s) \<Rightarrow> sys\<lparr>ss_sem := s\<rparr>
      | (Acquired, s) \<Rightarrow> grant t (sys\<lparr>ss_sem := s, ss_arrived := ss_arrived sys @ [t]\<rparr>)
      | (Waiting, s) \<Rightarrow> sys\<lparr>ss_sem := s, ss_arrived := ss_arrived sys @ [t]\<rparr>)"

definition run_abort :: "nat \<Rightarrow> sem_system \<Rightarrow> sem_system" where
  "run_abort t sys = sys\<lparr>ss_sem := abort_waiter t (ss_sem sys), ss_aborted := t # ss_aborted sys\<rparr>"

definition run_end :: "nat \<Rightarrow> sem_system \<Rightarrow> sem_system" where
  "run_end t sys =
     (case release (ss_sem sys) of
        (next, s) \<Rightarrow>
          let sys' = sys\<lparr>ss_sem := s, ss_holders := remove1 t (ss_holders sys)\<rparr>
          in (case next of None \<Rightarrow> sys' | Some u \<Rightarrow> grant u sys'))"

inductive sem_step :: "sem_system \<Rightarrow> sem_system \<Rightarrow> bool" where
  call: "t \<notin> set (ss_arrived sys) \<Longrightarrow> sem_step sys (run_call t aborted sys)"
| abort: "t \<in> set (se_waiters (ss_sem sys)) \<Longrightarrow> sem_step sys (run_abort t sys)"
| finish: "t \<in> set (ss_holders sys) \<Longrightarrow> sem_step sys (run_end t sys)"

inductive_cases sem_stepE: "sem_step sys sys'"

section \<open>Invariant\<close>

definition sem_invariant :: "nat \<Rightarrow> sem_system \<Rightarrow> bool" where
  "sem_invariant permits sys \<longleftrightarrow>
     length (ss_holders sys) + se_available (ss_sem sys) = permits
     \<and> (se_waiters (ss_sem sys) \<noteq> [] \<longrightarrow> se_available (ss_sem sys) = 0)
     \<and> ss_granted sys @ se_waiters (ss_sem sys) = filter (\<lambda>t. t \<notin> set (ss_aborted sys)) (ss_arrived sys)
     \<and> distinct (ss_arrived sys) \<and> set (ss_aborted sys) \<subseteq> set (ss_arrived sys)
     \<and> set (ss_holders sys) \<subseteq> set (ss_granted sys)"

lemma waiters_subset:
  "sem_invariant permits sys \<Longrightarrow> set (ss_granted sys) \<union> set (se_waiters (ss_sem sys)) \<subseteq> set (ss_arrived sys)"
  unfolding sem_invariant_def by (metis filter_is_subset set_append)

lemma waiters_distinct:
  "sem_invariant permits sys \<Longrightarrow> distinct (ss_granted sys @ se_waiters (ss_sem sys))"
  unfolding sem_invariant_def by (metis distinct_filter)

lemma call_invariant:
  assumes "sem_invariant permits sys" "t \<notin> set (ss_arrived sys)"
  shows "sem_invariant permits (run_call t aborted sys)"
proof -
  have "t \<notin> set (ss_aborted sys)" using assms by (auto simp: sem_invariant_def)
  with assms show ?thesis
    by (auto simp: run_call_def acquire_def grant_def sem_invariant_def)
qed

lemma abort_invariant:
  assumes inv: "sem_invariant permits sys" and t: "t \<in> set (se_waiters (ss_sem sys))"
  shows "sem_invariant permits (run_abort t sys)"
proof -
  have d: "distinct (ss_granted sys @ se_waiters (ss_sem sys))" using waiters_distinct [OF inv] .
  with t have "t \<notin> set (ss_granted sys)" "distinct (se_waiters (ss_sem sys))" by auto
  moreover have removed: "distinct ws \<Longrightarrow> remove1 t ws = filter (\<lambda>u. u \<noteq> t) ws" for ws
  proof (induction ws)
    case (Cons w ws)
    then show ?case by (cases "w = t") (auto intro!: filter_True [symmetric])
  qed simp
  ultimately have "ss_granted sys @ remove1 t (se_waiters (ss_sem sys))
      = filter (\<lambda>u. u \<noteq> t) (ss_granted sys @ se_waiters (ss_sem sys))"
    using removed [of "se_waiters (ss_sem sys)"] by (auto intro!: filter_True [symmetric])
  also have "\<dots> = filter (\<lambda>u. u \<notin> set (t # ss_aborted sys)) (ss_arrived sys)"
    using inv by (simp add: sem_invariant_def conj_commute)
  finally show ?thesis using inv t waiters_subset [OF inv]
    by (auto simp: run_abort_def abort_waiter_def sem_invariant_def)
qed

lemma end_invariant:
  assumes inv: "sem_invariant permits sys" and t: "t \<in> set (ss_holders sys)"
  shows "sem_invariant permits (run_end t sys)"
proof -
  have len: "length (remove1 t (ss_holders sys)) + 1 = length (ss_holders sys)"
    using t by (simp add: length_remove1) (metis Suc_pred length_pos_if_in_set)
  have sub: "set (remove1 t (ss_holders sys)) \<subseteq> set (ss_holders sys)" by (rule set_remove1_subset)
  show ?thesis
  proof (cases "se_waiters (ss_sem sys)")
    case Nil
    with inv len sub show ?thesis by (auto simp: run_end_def release_def sem_invariant_def)
  next
    case (Cons u us)
    with inv len sub show ?thesis by (auto simp: run_end_def release_def sem_invariant_def grant_def)
  qed
qed

lemma step_invariant: "sem_step sys sys' \<Longrightarrow> sem_invariant permits sys \<Longrightarrow> sem_invariant permits sys'"
  by (erule sem_stepE) (simp_all add: call_invariant abort_invariant end_invariant)

lemma reachable_invariant:
  assumes "new_semaphore permits = Inr s" "sem_step\<^sup>*\<^sup>* (sem_start s) sys"
  shows "sem_invariant (nat permits) sys \<and> 1 \<le> permits"
  using assms(2)
proof (induction rule: rtranclp_induct)
  case base
  from assms(1) show ?case
    by (auto simp: new_semaphore_def sem_start_def sem_invariant_def split: if_splits)
qed (auto intro: step_invariant)

text \<open>
  C35. Holders and free permits always add up to the permits of the semaphore, tasks wait only while
  every permit is held, and tasks are granted permits in the order they came, aborted ones left out.
\<close>

theorem semaphore_fair:
  assumes "new_semaphore permits = Inr s" "sem_step\<^sup>*\<^sup>* (sem_start s) sys"
  shows "int (length (ss_holders sys) + se_available (ss_sem sys)) = permits
    \<and> (queueLength (ss_sem sys) > 0 \<longrightarrow> int (length (ss_holders sys)) = permits \<and> ss_holders sys \<noteq> [])
    \<and> ss_granted sys @ se_waiters (ss_sem sys) = filter (\<lambda>t. t \<notin> set (ss_aborted sys)) (ss_arrived sys)"
  using reachable_invariant [OF assms] by (auto simp: sem_invariant_def queueLength_def)

text \<open>One permit: task 0 runs, 1 and 2 wait, 1 is aborted, 0 ends and 2 is granted the permit.\<close>

lemma demo_sem: "new_semaphore 1 = Inr \<lparr>se_available = 1, se_waiters = []\<rparr>"
  by (simp add: new_semaphore_def)

definition demo_tasks :: sem_system where
  "demo_tasks = run_end 0 (run_abort 1 (run_call 2 False (run_call 1 False (run_call 0 False
     (sem_start \<lparr>se_available = 1, se_waiters = []\<rparr>)))))"

lemmas sem_eval = run_end_def run_abort_def run_call_def acquire_def abort_waiter_def release_def grant_def
  sem_start_def

lemma demo_tasks_eval: "demo_tasks = \<lparr>ss_sem = \<lparr>se_available = 0, se_waiters = []\<rparr>, ss_holders = [2],
    ss_arrived = [0, 1, 2], ss_granted = [0, 2], ss_aborted = [1]\<rparr>"
  by (simp add: demo_tasks_def sem_eval)

lemma demo_tasks_reachable: "sem_step\<^sup>*\<^sup>* (sem_start \<lparr>se_available = 1, se_waiters = []\<rparr>) demo_tasks"
proof -
  define s0 where "s0 = sem_start \<lparr>se_available = 1, se_waiters = []\<rparr>"
  define s1 s2 s3 where "s1 = run_call 0 False s0" and "s2 = run_call 1 False s1" and "s3 = run_call 2 False s2"
  define s4 where "s4 = run_abort 1 s3"
  note defs = s4_def s3_def s2_def s1_def s0_def
  have "sem_step s0 s1" unfolding s1_def by (rule call) (simp add: defs sem_eval)
  moreover have "sem_step s1 s2" unfolding s2_def by (rule call) (simp add: defs sem_eval)
  moreover have "sem_step s2 s3" unfolding s3_def by (rule call) (simp add: defs sem_eval)
  moreover have "sem_step s3 s4" unfolding s4_def by (rule abort) (simp add: defs sem_eval)
  moreover have "sem_step s4 demo_tasks"
    unfolding demo_tasks_def defs [symmetric] by (rule finish) (simp add: defs sem_eval)
  ultimately show ?thesis unfolding s0_def [symmetric]
    by (auto intro: converse_rtranclp_into_rtranclp)
qed

theorem semaphore_fair_witness:
  "int (length (ss_holders demo_tasks) + se_available (ss_sem demo_tasks)) = 1
    \<and> ss_granted demo_tasks @ se_waiters (ss_sem demo_tasks)
      = filter (\<lambda>t. t \<notin> set (ss_aborted demo_tasks)) (ss_arrived demo_tasks)"
  using semaphore_fair [OF demo_sem demo_tasks_reachable] by blast

end
