(* ===== verification/Action_Store.thy ===== *)
theory Action_Store
  imports Prelude
begin

text \<open>
  The queue of actions of a session (\<open>core/session-action-store.ts\<close>): turns and commands wait in two
  lanes, are selected, prepared, committed and run, or cancelled. Actions are objects shared between
  the store and its callers, so they live in a heap; a lane is a list of addresses. Messages are
  compared by identity and appear as addresses too.
\<close>

section \<open>Actions\<close>

datatype delivery_policy = NextTurnBoundary | WhenRunIdle
datatype wake_policy = Immediate | OnLowerBoundary | ExternalResume
datatype queued_lane = Steering | FollowUp

definition queuedMessageLaneDeliveryPolicy :: "queued_lane \<Rightarrow> delivery_policy" where
  "queuedMessageLaneDeliveryPolicy lane = (case lane of Steering \<Rightarrow> NextTurnBoundary | FollowUp \<Rightarrow> WhenRunIdle)"

datatype record_role = Primary | Prefix | NextTurn

record delivery_record =
  dr_id :: string
  dr_role :: record_role
  dr_message :: nat
  dr_started :: bool
  dr_durable :: bool
  dr_ownerActionId :: string

datatype action_payload =
    TurnPayload "delivery_record list" string "string option"
  | CommandPayload string string

datatype execution = AgentTurn | SessionCommand

datatype lifecycle =
    Queued
  | Selected
  | Preparing "nat option"
  | Committing
  | Running execution
  | Completed
  | Failed error
  | Cancelled

record session_action =
  sa_id :: string
  sa_source :: string
  sa_delivery :: delivery_policy
  sa_wake :: wake_policy
  sa_payload :: action_payload
  sa_lifecycle :: lifecycle
  sa_queueKey :: "string option"
  sa_agentMessageId :: "string option"
  sa_suppressAutonomousContinuation :: bool

record rollback_proof =
  rp_dispatchSettled :: bool
  rp_transcript :: "nat list"

datatype lifecycle_state = SQueued | SSelected | SPreparing | SCommitting | SRunning | SCompleted | SFailed | SCancelled

fun state_of :: "lifecycle \<Rightarrow> lifecycle_state" where
  "state_of Queued = SQueued"
| "state_of Selected = SSelected"
| "state_of (Preparing _) = SPreparing"
| "state_of Committing = SCommitting"
| "state_of (Running _) = SRunning"
| "state_of Completed = SCompleted"
| "state_of (Failed _) = SFailed"
| "state_of Cancelled = SCancelled"

definition TERMINAL_STATES :: "lifecycle_state list" where
  "TERMINAL_STATES = [SCompleted, SFailed, SCancelled]"

definition ACTIVE_STATES :: "lifecycle_state list" where
  "ACTIVE_STATES = [SSelected, SPreparing, SCommitting, SRunning]"

definition CLEARABLE_STATES :: "lifecycle_state list" where
  "CLEARABLE_STATES = [SQueued, SSelected, SPreparing]"

abbreviation action_state :: "session_action \<Rightarrow> lifecycle_state" where
  "action_state a \<equiv> state_of (sa_lifecycle a)"

definition isClearable :: "session_action \<Rightarrow> bool" where
  "isClearable a \<longleftrightarrow> action_state a \<in> set CLEARABLE_STATES"

fun LEGAL_TRANSITIONS :: "lifecycle_state \<Rightarrow> lifecycle_state list" where
  "LEGAL_TRANSITIONS SQueued = [SSelected, SFailed, SCancelled]"
| "LEGAL_TRANSITIONS SSelected = [SQueued, SPreparing, SRunning, SFailed, SCancelled]"
| "LEGAL_TRANSITIONS SPreparing = [SQueued, SCommitting, SFailed, SCancelled]"
| "LEGAL_TRANSITIONS SCommitting = [SQueued, SRunning, SFailed, SCancelled]"
| "LEGAL_TRANSITIONS SRunning = [SCompleted, SFailed, SCancelled]"
| "LEGAL_TRANSITIONS _ = []"

definition primaryRecords :: "session_action \<Rightarrow> delivery_record list" where
  "primaryRecords a =
     (case sa_payload a of
        TurnPayload records _ _ \<Rightarrow> filter (\<lambda>r. dr_role r = Primary) records
      | CommandPayload _ _ \<Rightarrow> [])"

text \<open>The errors, in the order of the file.\<close>

datatype store_error =
    IllegalTransition lifecycle_state lifecycle_state
  | RollbackNeedsProof
  | PrimaryDurable
  | SwapNotQueued
  | NotOwned
  | MoveNotQueued
  | ReleaseNonterminal string
  | EnqueueNotQueued
  | DuplicateId string

definition transitionSessionAction ::
  "session_action \<Rightarrow> lifecycle \<Rightarrow> rollback_proof option \<Rightarrow> store_error + session_action" where
  "transitionSessionAction a next proof =
     (if state_of next \<notin> set (LEGAL_TRANSITIONS (action_state a)) then Inl (IllegalTransition (action_state a) (state_of next))
      else if action_state a = SCommitting \<and> state_of next = SQueued then
        (case proof of
           None \<Rightarrow> Inl RollbackNeedsProof
         | Some p \<Rightarrow>
             if \<not> rp_dispatchSettled p then Inl RollbackNeedsProof
             else if \<exists>r\<in>set (primaryRecords a). dr_message r \<in> set (rp_transcript p) then Inl PrimaryDurable
             else Inr (a\<lparr>sa_lifecycle := next\<rparr>))
      else Inr (a\<lparr>sa_lifecycle := next\<rparr>))"

section \<open>Tickets\<close>

datatype submission_outcome =
    Accepted string bool
  | Coalesced string
  | HandledWithoutTurn
  | ExtensionCommand

datatype delivery_outcome = Delivered | NotApplicable

text \<open>A deferred value is settled at most once: \<open>None\<close> is pending, and settling tells whether it was.\<close>

type_synonym 'a deferred = "(error + 'a) option"

definition settle :: "error + 'a \<Rightarrow> 'a deferred \<Rightarrow> bool \<times> 'a deferred" where
  "settle v d = (case d of Some w \<Rightarrow> (False, Some w) | None \<Rightarrow> (True, Some v))"

record action_ticket =
  tk_id :: string
  tk_accepted :: "submission_outcome deferred"
  tk_delivered :: "delivery_outcome deferred"
  tk_completed :: "unit deferred"

definition new_ticket :: "string \<Rightarrow> action_ticket" where
  "new_ticket i = \<lparr>tk_id = i, tk_accepted = None, tk_delivered = None, tk_completed = None\<rparr>"

definition settleAccepted :: "submission_outcome \<Rightarrow> action_ticket \<Rightarrow> bool \<times> action_ticket" where
  "settleAccepted v t = (let (b, d) = settle (Inr v) (tk_accepted t) in (b, t\<lparr>tk_accepted := d\<rparr>))"

definition settleDelivered :: "delivery_outcome \<Rightarrow> action_ticket \<Rightarrow> bool \<times> action_ticket" where
  "settleDelivered v t = (let (b, d) = settle (Inr v) (tk_delivered t) in (b, t\<lparr>tk_delivered := d\<rparr>))"

definition rejectDelivered :: "error \<Rightarrow> action_ticket \<Rightarrow> bool \<times> action_ticket" where
  "rejectDelivered e t = (let (b, d) = settle (Inl e) (tk_delivered t) in (b, t\<lparr>tk_delivered := d\<rparr>))"

definition settleCompleted :: "error option \<Rightarrow> action_ticket \<Rightarrow> bool \<times> action_ticket" where
  "settleCompleted e t =
     (let (b, d) = settle (case e of Some err \<Rightarrow> Inl err | None \<Rightarrow> Inr ()) (tk_completed t) in (b, t\<lparr>tk_completed := d\<rparr>))"

section \<open>The store\<close>

record action_store =
  st_heap :: "nat \<Rightarrow> session_action"
  st_nextTurnBoundary :: "nat list"
  st_whenRunIdle :: "nat list"
  st_tickets :: "string \<rightharpoonup> action_ticket"

definition new_store :: "(nat \<Rightarrow> session_action) \<Rightarrow> action_store" where
  "new_store heap = \<lparr>st_heap = heap, st_nextTurnBoundary = [], st_whenRunIdle = [], st_tickets = Map.empty\<rparr>"

definition lane :: "delivery_policy \<Rightarrow> action_store \<Rightarrow> nat list" where
  "lane policy s = (case policy of NextTurnBoundary \<Rightarrow> st_nextTurnBoundary s | WhenRunIdle \<Rightarrow> st_whenRunIdle s)"

definition set_lane :: "delivery_policy \<Rightarrow> nat list \<Rightarrow> action_store \<Rightarrow> action_store" where
  "set_lane policy xs s =
     (case policy of NextTurnBoundary \<Rightarrow> s\<lparr>st_nextTurnBoundary := xs\<rparr> | WhenRunIdle \<Rightarrow> s\<lparr>st_whenRunIdle := xs\<rparr>)"

definition actions :: "delivery_policy option \<Rightarrow> action_store \<Rightarrow> nat list" where
  "actions policy s = (case policy of Some p \<Rightarrow> lane p s | None \<Rightarrow> st_nextTurnBoundary s @ st_whenRunIdle s)"

abbreviation state_at :: "action_store \<Rightarrow> nat \<Rightarrow> lifecycle_state" where
  "state_at s a \<equiv> action_state (st_heap s a)"

definition queuedActions :: "delivery_policy option \<Rightarrow> action_store \<Rightarrow> nat list" where
  "queuedActions policy s = filter (\<lambda>a. state_at s a = SQueued) (actions policy s)"

definition clearableActions :: "delivery_policy option \<Rightarrow> action_store \<Rightarrow> nat list" where
  "clearableActions policy s = filter (\<lambda>a. isClearable (st_heap s a)) (actions policy s)"

definition snapshotActions :: "action_store \<Rightarrow> nat list" where
  "snapshotActions s = queuedActions None s"

definition unfinishedActions :: "delivery_policy option \<Rightarrow> action_store \<Rightarrow> nat list" where
  "unfinishedActions policy s = filter (\<lambda>a. state_at s a \<notin> set TERMINAL_STATES) (actions policy s)"

definition activeActions :: "delivery_policy option \<Rightarrow> action_store \<Rightarrow> nat list" where
  "activeActions policy s = filter (\<lambda>a. state_at s a \<in> set ACTIVE_STATES) (actions policy s)"

definition action_label :: "session_action \<Rightarrow> string" where
  "action_label a = (case sa_payload a of TurnPayload _ text preview \<Rightarrow> nullish preview text | CommandPayload _ text \<Rightarrow> text)"

definition queuePreview :: "delivery_policy \<Rightarrow> action_store \<Rightarrow> string list" where
  "queuePreview policy s = map (\<lambda>a. action_label (st_heap s a)) (queuedActions (Some policy) s)"

definition ownedActions :: "action_store \<Rightarrow> nat list" where
  "ownedActions s = actions None s"

definition actionsForMessage :: "nat \<Rightarrow> action_store \<Rightarrow> nat list" where
  "actionsForMessage msg s =
     filter (\<lambda>a. case sa_payload (st_heap s a) of
         TurnPayload records _ _ \<Rightarrow> \<exists>r\<in>set records. dr_message r = msg
       | CommandPayload _ _ \<Rightarrow> False) (actions None s)"

definition ticketFor :: "nat \<Rightarrow> action_store \<Rightarrow> store_error + action_ticket" where
  "ticketFor a s = (case st_tickets s (sa_id (st_heap s a)) of None \<Rightarrow> Inl NotOwned | Some t \<Rightarrow> Inr t)"

definition assertNewAction :: "nat \<Rightarrow> action_store \<Rightarrow> store_error option" where
  "assertNewAction a s =
     (if state_at s a \<noteq> SQueued then Some EnqueueNotQueued
      else if st_tickets s (sa_id (st_heap s a)) \<noteq> None then Some (DuplicateId (sa_id (st_heap s a)))
      else None)"

definition add_ticket :: "nat \<Rightarrow> action_store \<Rightarrow> action_store" where
  "add_ticket a s = s\<lparr>st_tickets := (st_tickets s)(sa_id (st_heap s a) \<mapsto> new_ticket (sa_id (st_heap s a)))\<rparr>"

definition enqueue_action :: "nat \<Rightarrow> action_store \<Rightarrow> store_error + action_store" where
  "enqueue_action a s =
     (case assertNewAction a s of
        Some e \<Rightarrow> Inl e
      | None \<Rightarrow> let p = sa_delivery (st_heap s a) in Inr (add_ticket a (set_lane p (lane p s @ [a]) s)))"

text \<open>\<open>findIndex\<close>, and \<open>splice(i, 0, x)\<close>.\<close>

fun find_index :: "('a \<Rightarrow> bool) \<Rightarrow> 'a list \<Rightarrow> nat option" where
  "find_index P [] = None"
| "find_index P (x # xs) = (if P x then Some 0 else map_option Suc (find_index P xs))"

definition insert_at :: "nat \<Rightarrow> 'a \<Rightarrow> 'a list \<Rightarrow> 'a list" where
  "insert_at i x xs = take i xs @ x # drop i xs"

definition enqueueFront :: "nat \<Rightarrow> action_store \<Rightarrow> store_error + action_store" where
  "enqueueFront a s =
     (case assertNewAction a s of
        Some e \<Rightarrow> Inl e
      | None \<Rightarrow>
          let p = sa_delivery (st_heap s a); xs = lane p s;
              i = (case find_index (\<lambda>b. state_at s b = SQueued) xs of None \<Rightarrow> length xs | Some i \<Rightarrow> i)
          in Inr (add_ticket a (set_lane p (insert_at i a xs) s)))"

definition transition_at :: "nat \<Rightarrow> lifecycle \<Rightarrow> rollback_proof option \<Rightarrow> action_store \<Rightarrow> store_error + action_store" where
  "transition_at a next proof s =
     (case transitionSessionAction (st_heap s a) next proof of
        Inl e \<Rightarrow> Inl e
      | Inr x \<Rightarrow> Inr (s\<lparr>st_heap := (st_heap s)(a := x)\<rparr>))"

text \<open>The transition of a queued action to \<open>selected\<close> never throws.\<close>

definition selectFirst :: "action_store \<Rightarrow> nat option \<times> action_store" where
  "selectFirst s =
     (let queued = (\<lambda>a. state_at s a = SQueued);
          action = (case find queued (st_nextTurnBoundary s) of Some a \<Rightarrow> Some a | None \<Rightarrow> find queued (st_whenRunIdle s))
      in case action of
          None \<Rightarrow> (None, s)
        | Some a \<Rightarrow> (case transition_at a Selected None s of Inl e \<Rightarrow> (None, s) | Inr s' \<Rightarrow> (Some a, s')))"

text \<open>The loop of \<open>remove\<close>; a throw leaves the actions before it cancelled.\<close>

fun cancel_all :: "nat list \<Rightarrow> action_store \<Rightarrow> store_error option \<times> action_store" where
  "cancel_all [] s = (None, s)"
| "cancel_all (a # as) s =
     (case transition_at a Cancelled None s of Inl e \<Rightarrow> (Some e, s) | Inr s' \<Rightarrow> cancel_all as s')"

definition remove_actions ::
  "(session_action \<Rightarrow> bool) \<Rightarrow> nat list \<Rightarrow> action_store \<Rightarrow> (store_error + nat list) \<times> action_store" where
  "remove_actions predicate candidates s =
     (let removed = filter (\<lambda>a. predicate (st_heap s a)) candidates
      in case cancel_all removed s of (Some e, s') \<Rightarrow> (Inl e, s') | (None, s') \<Rightarrow> (Inr removed, s'))"

definition rollback_action :: "nat \<Rightarrow> rollback_proof option \<Rightarrow> action_store \<Rightarrow> store_error + action_store" where
  "rollback_action a proof s = transition_at a Queued proof s"

definition swapQueued :: "nat \<Rightarrow> nat \<Rightarrow> action_store \<Rightarrow> store_error + action_store" where
  "swapQueued left right s =
     (let p = sa_delivery (st_heap s left)
      in if state_at s left \<noteq> SQueued \<or> state_at s right \<noteq> SQueued \<or> p \<noteq> sa_delivery (st_heap s right) then Inl SwapNotQueued
         else case find_index ((=) left) (lane p s) of
             None \<Rightarrow> Inl NotOwned
           | Some i \<Rightarrow>
               (case find_index ((=) right) (lane p s) of
                  None \<Rightarrow> Inl NotOwned
                | Some j \<Rightarrow> Inr (set_lane p ((lane p s)[i := right, j := left]) s)))"

definition moveQueued :: "nat \<Rightarrow> delivery_policy \<Rightarrow> int \<Rightarrow> action_store \<Rightarrow> store_error + action_store" where
  "moveQueued a delivery index s =
     (let p = sa_delivery (st_heap s a)
      in if state_at s a \<noteq> SQueued then Inl MoveNotQueued
         else if a \<notin> set (lane p s) then Inl NotOwned
         else let s1 = set_lane p (remove1 a (lane p s)) s;
                  s2 = s1\<lparr>st_heap := (st_heap s1)(a := (st_heap s1 a)\<lparr>sa_delivery := delivery\<rparr>)\<rparr>;
                  target = lane delivery s2;
                  queued = filter (\<lambda>b. state_at s2 b = SQueued) target;
                  k = nat (max 0 (min index (int (length queued))));
                  i = (if k < length queued
                       then (case find_index ((=) (queued ! k)) target of Some i \<Rightarrow> i | None \<Rightarrow> length target)
                       else length target)
              in Inr (set_lane delivery (insert_at i a target) s2))"

definition releaseTerminal :: "nat \<Rightarrow> action_store \<Rightarrow> store_error + action_store" where
  "releaseTerminal a s =
     (let x = st_heap s a; p = sa_delivery x
      in if action_state x \<notin> set TERMINAL_STATES then Inl (ReleaseNonterminal (sa_id x))
         else Inr ((set_lane p (remove1 a (lane p s)) s)\<lparr>st_tickets := (st_tickets s)(sa_id x := None)\<rparr>))"

section \<open>Policies\<close>

record runtime_activity =
  ra_lowerAgentRun :: bool
  ra_compaction :: bool
  ra_retry :: bool
  ra_bash :: bool
  ra_refinementApply :: bool
  ra_branchMutation :: bool
  ra_schedulerPauseCount :: int
  ra_disposing :: bool

definition canSelectSessionAction :: "runtime_activity \<Rightarrow> bool" where
  "canSelectSessionAction activity \<longleftrightarrow>
     \<not> ra_lowerAgentRun activity \<and> \<not> ra_compaction activity \<and> \<not> ra_retry activity \<and> \<not> ra_bash activity
     \<and> \<not> ra_refinementApply activity \<and> \<not> ra_branchMutation activity \<and> ra_schedulerPauseCount activity = 0
     \<and> \<not> ra_disposing activity"

text \<open>Minutes and times; \<open>None\<close> stands for \<open>"off"\<close>, and for a time that is not finite.\<close>

record eviction_snapshot =
  ev_isSessionActive :: bool
  ev_attachedClients :: nat
  ev_hasRegisteredCronJob :: bool
  ev_lastActivityAt :: "int option"

definition isIdleEvictionThresholdMet :: "eviction_snapshot \<Rightarrow> int option \<Rightarrow> int \<Rightarrow> bool" where
  "isIdleEvictionThresholdMet session idleEvictionMinutes now =
     (case idleEvictionMinutes of
        None \<Rightarrow> False
      | Some minutes \<Rightarrow>
          if minutes \<le> 0 then False
          else \<not> ev_isSessionActive session \<and> ev_attachedClients session = 0 \<and> \<not> ev_hasRegisteredCronJob session
            \<and> (case ev_lastActivityAt session of Some t \<Rightarrow> now - t \<ge> minutes * 60000 | None \<Rightarrow> False))"

record passivation_snapshot = eviction_snapshot +
  pv_hasParent :: bool
  pv_hasNonPassiveDescendants :: bool
  pv_isHydrating :: bool

definition canPassivateSession :: "passivation_snapshot \<Rightarrow> int option \<Rightarrow> int \<Rightarrow> bool" where
  "canPassivateSession session idleEvictionMinutes now \<longleftrightarrow>
     pv_hasParent session \<and> \<not> pv_hasNonPassiveDescendants session \<and> \<not> pv_isHydrating session
     \<and> isIdleEvictionThresholdMet (eviction_snapshot.truncate session) idleEvictionMinutes now"

datatype worker_lifecycle = Starting | Ready | Recovering | Stopping | WorkerFailed

record worker_snapshot =
  wk_lifecycle :: worker_lifecycle
  wk_isConnected :: bool
  wk_isStopping :: bool
  wk_hasOwnerClient :: bool
  wk_isPreparingUpdateRestart :: bool
  wk_hasWakeBlindSchedule :: bool
  wk_sessions :: "eviction_snapshot list"

definition canEvictWorker :: "worker_snapshot \<Rightarrow> int option \<Rightarrow> int \<Rightarrow> bool" where
  "canEvictWorker worker idleEvictionMinutes now =
     (if wk_lifecycle worker \<noteq> Ready \<or> \<not> wk_isConnected worker \<or> wk_isStopping worker \<or> wk_hasOwnerClient worker
         \<or> wk_isPreparingUpdateRestart worker \<or> wk_hasWakeBlindSchedule worker \<or> wk_sessions worker = []
      then False
      else list_all (\<lambda>s. isIdleEvictionThresholdMet s idleEvictionMinutes now) (wk_sessions worker))"

end
