(* ===== verification/Action_Store_Props.thy ===== *)
theory Action_Store_Props
  imports Action_Store "HOL-Library.Multiset"
begin

text \<open>
  The store keeps its lanes, deliveries and tickets consistent, serves each lane in order, and never
  starts the same action twice.
\<close>

section \<open>Consistency\<close>

definition store_ids :: "action_store \<Rightarrow> nat \<Rightarrow> string" where
  "store_ids s a = sa_id (st_heap s a)"

definition store_ok :: "action_store \<Rightarrow> bool" where
  "store_ok s \<longleftrightarrow> distinct (ownedActions s)
     \<and> (\<forall>p. \<forall>a\<in>set (lane p s). sa_delivery (st_heap s a) = p)
     \<and> inj_on (store_ids s) (set (ownedActions s))
     \<and> dom (st_tickets s) = store_ids s ` set (ownedActions s)"

lemma owned_lanes: "ownedActions s = lane NextTurnBoundary s @ lane WhenRunIdle s"
  by (simp add: ownedActions_def actions_def lane_def)

lemma set_owned: "set (ownedActions s) = (\<Union>p. set (lane p s))"
  unfolding owned_lanes by (auto split: delivery_policy.splits) (metis delivery_policy.exhaust)

lemma lane_set_lane [simp]: "lane p (set_lane q xs s) = (if p = q then xs else lane p s)"
  by (cases p; cases q) (simp_all add: lane_def set_lane_def)

lemma set_lane_frame [simp]: "st_heap (set_lane q xs s) = st_heap s" "st_tickets (set_lane q xs s) = st_tickets s"
  by (cases q; simp add: set_lane_def)+

lemma lane_frame [simp]:
  "lane p (s\<lparr>st_heap := h\<rparr>) = lane p s" "lane p (s\<lparr>st_tickets := t\<rparr>) = lane p s"
  by (simp_all add: lane_def split: delivery_policy.split)

lemma lane_add_ticket [simp]: "lane p (add_ticket a s) = lane p s" "st_heap (add_ticket a s) = st_heap s"
  by (simp_all add: add_ticket_def)

text \<open>Consistency lane by lane.\<close>

lemma store_okI:
  assumes "\<And>p. distinct (lane p s)" "\<And>p a. a \<in> set (lane p s) \<Longrightarrow> sa_delivery (st_heap s a) = p"
    "inj_on (store_ids s) (\<Union>p. set (lane p s))" "dom (st_tickets s) = store_ids s ` (\<Union>p. set (lane p s))"
  shows "store_ok s"
proof -
  have "set (lane NextTurnBoundary s) \<inter> set (lane WhenRunIdle s) = {}" by (auto dest!: assms(2))
  with assms show ?thesis by (simp add: store_ok_def owned_lanes set_owned [symmetric])
qed

lemma store_okD:
  assumes "store_ok s"
  shows "distinct (lane p s)" "a \<in> set (lane p s) \<Longrightarrow> sa_delivery (st_heap s a) = p"
    "inj_on (store_ids s) (\<Union>p. set (lane p s))" "dom (st_tickets s) = store_ids s ` (\<Union>p. set (lane p s))"
  using assms by (auto simp: store_ok_def set_owned) (cases p; auto simp: owned_lanes)

lemma new_not_owned:
  assumes "store_ok s" "assertNewAction a s = None"
  shows "a \<notin> set (lane p s)" "store_ids s a \<notin> dom (st_tickets s)" "state_at s a = SQueued"
proof -
  show 1: "store_ids s a \<notin> dom (st_tickets s)" "state_at s a = SQueued"
    using assms(2) by (auto simp: assertNewAction_def store_ids_def split: if_splits)
  show "a \<notin> set (lane p s)" using 1(1) store_okD(4) [OF assms(1)] by auto
qed

lemma added_ok:
  assumes ok: "store_ok s" and new: "assertNewAction a s = None" and p: "p = sa_delivery (st_heap s a)"
    and xs: "set xs = insert a (set (lane p s))" "distinct xs"
  shows "store_ok (add_ticket a (set_lane p xs s))"
proof (rule store_okI)
  note n = new_not_owned [OF ok new]
  have u: "(\<Union>q. set (lane q (add_ticket a (set_lane p xs s)))) = insert a (\<Union>q. set (lane q s))"
    using xs by (auto split: if_splits)
  have ids: "store_ids (add_ticket a (set_lane p xs s)) = store_ids s" by (simp add: store_ids_def fun_eq_iff)
  show "inj_on (store_ids (add_ticket a (set_lane p xs s))) (\<Union>q. set (lane q (add_ticket a (set_lane p xs s))))"
    unfolding u ids using store_okD(3,4) [OF ok] n(2) by auto
  show "dom (st_tickets (add_ticket a (set_lane p xs s)))
      = store_ids (add_ticket a (set_lane p xs s)) ` (\<Union>q. set (lane q (add_ticket a (set_lane p xs s))))"
    unfolding u ids using store_okD(4) [OF ok] by (simp add: add_ticket_def store_ids_def)
qed (use store_okD [OF ok] p xs in \<open>auto split: if_splits\<close>)

lemma set_insert_at: "set (insert_at i x xs) = insert x (set xs)"
  unfolding insert_at_def by (metis append_take_drop_id list.set(2) set_append Un_insert_right)

lemma distinct_insert_at: "distinct xs \<Longrightarrow> x \<notin> set xs \<Longrightarrow> distinct (insert_at i x xs)"
  using append_take_drop_id [of i xs] unfolding insert_at_def
  by (metis distinct.simps(2) distinct_append disjoint_insert(1) list.set(2) set_append UnCI)

lemma enqueue_ok: "store_ok s \<Longrightarrow> enqueue_action a s = Inr s' \<Longrightarrow> store_ok s'"
  by (auto simp: enqueue_action_def Let_def split: option.splits
      intro!: added_ok dest: new_not_owned store_okD(1))

lemma enqueueFront_ok: "store_ok s \<Longrightarrow> enqueueFront a s = Inr s' \<Longrightarrow> store_ok s'"
  by (auto simp: enqueueFront_def Let_def set_insert_at split: option.splits
      intro!: added_ok distinct_insert_at dest: new_not_owned store_okD(1))

text \<open>Changes that keep what is in the lanes.\<close>

lemma same_owned_ok:
  assumes ok: "store_ok s" and "(\<Union>p. set (lane p s')) = (\<Union>p. set (lane p s))" "st_tickets s' = st_tickets s"
    "\<And>b. sa_id (st_heap s' b) = sa_id (st_heap s b)" "\<And>p. distinct (lane p s')"
    "\<And>p a. a \<in> set (lane p s') \<Longrightarrow> sa_delivery (st_heap s' a) = p"
  shows "store_ok s'"
proof -
  have "store_ids s' = store_ids s" using assms(4) by (simp add: store_ids_def fun_eq_iff)
  with assms store_okD [OF ok] show ?thesis by (intro store_okI) simp_all
qed

lemma transition_frame:
  assumes "transition_at a next pr s = Inr s'"
  shows "\<exists>x. s' = s\<lparr>st_heap := (st_heap s)(a := (st_heap s a)\<lparr>sa_lifecycle := x\<rparr>)\<rparr> \<and> x = next
    \<and> state_of next \<in> set (LEGAL_TRANSITIONS (state_at s a))"
  using assms
  by (auto simp: transition_at_def transitionSessionAction_def split: sum.splits if_splits option.splits)

lemma transition_ok: "store_ok s \<Longrightarrow> transition_at a next pr s = Inr s' \<Longrightarrow> store_ok s'"
proof -
  assume ok: "store_ok s" and "transition_at a next pr s = Inr s'"
  then have s': "s' = s\<lparr>st_heap := (st_heap s)(a := (st_heap s a)\<lparr>sa_lifecycle := next\<rparr>)\<rparr>"
    using transition_frame by blast
  show ?thesis unfolding s'
    by (rule same_owned_ok [OF ok]) (use store_okD(1,2) [OF ok] in auto)
qed

lemma cancel_ok: "store_ok s \<Longrightarrow> cancel_all as s = (r, s') \<Longrightarrow> store_ok s'"
  by (induction as s rule: cancel_all.induct) (auto split: sum.splits dest: transition_ok)

lemma remove_ok: "store_ok s \<Longrightarrow> remove_actions P cs s = (r, s') \<Longrightarrow> store_ok s'"
  by (auto simp: remove_actions_def Let_def split: prod.splits option.splits dest: cancel_ok)

lemma select_ok: "store_ok s \<Longrightarrow> selectFirst s = (r, s') \<Longrightarrow> store_ok s'"
  by (auto simp: selectFirst_def Let_def split: option.splits sum.splits dest: transition_ok)

lemma find_position_Some: "find_index P xs = Some i \<Longrightarrow> i < length xs \<and> P (xs ! i)"
  by (induction xs arbitrary: i) (auto split: if_splits)

lemma swap_ok:
  assumes ok: "store_ok s" and "swapQueued l r s = Inr s'"
  shows "store_ok s'"
proof -
  let ?p = "sa_delivery (st_heap s l)"
  from assms(2) obtain i j where ij: "find_index ((=) l) (lane ?p s) = Some i" "find_index ((=) r) (lane ?p s) = Some j"
    and s': "s' = set_lane ?p ((lane ?p s)[i := r, j := l]) s"
    by (auto simp: swapQueued_def Let_def split: if_splits option.splits)
  then have b: "i < length (lane ?p s)" "lane ?p s ! i = l" "j < length (lane ?p s)" "lane ?p s ! j = r"
    by (auto dest: find_position_Some)
  then have "(lane ?p s)[i := r, j := l] = (lane ?p s)[i := lane ?p s ! j, j := lane ?p s ! i]" by simp
  then have "mset ((lane ?p s)[i := r, j := l]) = mset (lane ?p s)"
    using mset_swap [OF b(3,1)] by simp
  then have m: "set ((lane ?p s)[i := r, j := l]) = set (lane ?p s)" "distinct ((lane ?p s)[i := r, j := l])"
    using store_okD(1) [OF ok, of ?p] by (metis mset_eq_setD, metis mset_eq_imp_distinct_iff)
  then show ?thesis unfolding s'
    by (intro same_owned_ok [OF ok]) (use m store_okD [OF ok] in \<open>auto split: if_splits\<close>)
qed

text \<open>The position in a lane of the \<open>k\<close>-th of some of its members, or the end.\<close>

definition queue_position :: "nat list \<Rightarrow> int \<Rightarrow> nat list \<Rightarrow> nat" where
  "queue_position queued k target =
     (let m = nat (max 0 (min k (int (length queued))))
      in if m < length queued
         then (case find_index ((=) (queued ! m)) target of Some i \<Rightarrow> i | None \<Rightarrow> length target)
         else length target)"

abbreviation still_queued :: "action_store \<Rightarrow> nat list \<Rightarrow> nat list" where
  "still_queued s xs \<equiv> filter (\<lambda>b. state_at s b = SQueued) xs"

lemma move_lanes:
  assumes ok: "store_ok s" and "moveQueued a d k s = Inr s'"
  shows "state_at s a = SQueued" "a \<in> set (lane (sa_delivery (st_heap s a)) s)"
    "st_heap s' = (st_heap s)(a := (st_heap s a)\<lparr>sa_delivery := d\<rparr>)" "st_tickets s' = st_tickets s"
    "lane p s' = (if p = d
       then insert_at (queue_position (still_queued s (remove1 a (lane p s))) k (remove1 a (lane p s))) a (remove1 a (lane p s))
       else remove1 a (lane p s))"
proof -
  let ?p = "sa_delivery (st_heap s a)"
  from assms(2) have q: "state_at s a = SQueued" and a: "a \<in> set (lane ?p s)"
    by (auto simp: moveQueued_def Let_def split: if_splits)
  have other: "remove1 a (lane q s) = lane q s" if "q \<noteq> ?p" for q
    using that store_okD(2) [OF ok, of a q] by (auto intro: remove1_idem)
  define s1 where "s1 = set_lane ?p (remove1 a (lane ?p s)) s"
  define s2 where "s2 = s1\<lparr>st_heap := (st_heap s1)(a := (st_heap s1 a)\<lparr>sa_delivery := d\<rparr>)\<rparr>"
  have l2: "lane q s2 = remove1 a (lane q s)" for q using other [of q] by (simp add: s2_def s1_def)
  have st: "state_at s2 b = state_at s b" for b by (simp add: s2_def s1_def)
  define i where "i = queue_position (still_queued s (remove1 a (lane d s))) k (remove1 a (lane d s))"
  have "moveQueued a d k s = Inr (set_lane d (insert_at i a (lane d s2)) s2)"
    using q a unfolding moveQueued_def Let_def s1_def [symmetric] s2_def [symmetric] l2 st
      i_def queue_position_def by simp
  with assms(2) have s': "s' = set_lane d (insert_at i a (lane d s2)) s2" by simp
  show "state_at s a = SQueued" "a \<in> set (lane ?p s)" by (fact q, fact a)
  show "st_heap s' = (st_heap s)(a := (st_heap s a)\<lparr>sa_delivery := d\<rparr>)" "st_tickets s' = st_tickets s"
    by (simp_all add: s' s2_def s1_def)
  show "lane p s' = (if p = d
       then insert_at (queue_position (still_queued s (remove1 a (lane p s))) k (remove1 a (lane p s))) a (remove1 a (lane p s))
       else remove1 a (lane p s))"
    by (simp add: s' l2 i_def)
qed

lemma move_ok:
  assumes ok: "store_ok s" and m: "moveQueued a d k s = Inr s'"
  shows "store_ok s'"
proof (rule same_owned_ok [OF ok])
  note l = move_lanes [OF ok m]
  let ?p = "sa_delivery (st_heap s a)"
  have own: "a \<in> set (lane q s) \<longleftrightarrow> q = ?p" for q using store_okD(2) [OF ok, of a q] l(2) by auto
  have sets: "set (lane q s') = (if q = d then insert a (set (lane q s) - {a}) else set (lane q s) - {a})" for q
    using l(5) [of q] store_okD(1) [OF ok] by (simp add: set_insert_at set_remove1_eq)
  then show "(\<Union>p. set (lane p s')) = (\<Union>p. set (lane p s))" using own by (auto split: if_splits) metis
  show "distinct (lane q s')" for q
    using l(5) [of q] store_okD(1) [OF ok] by (simp add: distinct_insert_at set_remove1_eq)
  show "sa_delivery (st_heap s' b) = q" if "b \<in> set (lane q s')" for b q
    using that sets [of q] store_okD(2) [OF ok, of b q] l(3) by (auto split: if_splits)
qed (use move_lanes [OF ok m] in simp_all)

lemma release_ok:
  assumes ok: "store_ok s" and "releaseTerminal a s = Inr s'" and a: "a \<in> set (ownedActions s)"
  shows "store_ok s'"
proof -
  let ?p = "sa_delivery (st_heap s a)"
  have own: "a \<in> set (lane q s) \<longleftrightarrow> q = ?p" for q
    using a store_okD(2) [OF ok, of a] by (auto simp: set_owned)
  have s': "s' = (set_lane ?p (remove1 a (lane ?p s)) s)\<lparr>st_tickets := (st_tickets s)(store_ids s a := None)\<rparr>"
    using assms(2) by (auto simp: releaseTerminal_def Let_def store_ids_def split: if_splits)
  have lanes: "set (lane q s') = set (lane q s) - {a}" for q
    using store_okD(1) [OF ok] own [of q] by (simp add: s' set_remove1_eq)
  have u: "(\<Union>q. set (lane q s')) = (\<Union>q. set (lane q s)) - {a}" by (auto simp: lanes)
  have ids: "store_ids s' = store_ids s" by (simp add: s' store_ids_def fun_eq_iff)
  have inj: "inj_on (store_ids s) (\<Union>q. set (lane q s))" by (rule store_okD(3) [OF ok])
  have "a \<in> (\<Union>q. set (lane q s))" using own by blast
  with inj have img: "store_ids s ` ((\<Union>q. set (lane q s)) - {a}) = store_ids s ` (\<Union>q. set (lane q s)) - {store_ids s a}"
    by (auto dest: inj_onD)
  show ?thesis
  proof (rule store_okI)
    show "dom (st_tickets s') = store_ids s' ` (\<Union>q. set (lane q s'))"
      unfolding u ids img using store_okD(4) [OF ok] by (simp add: s')
    show "inj_on (store_ids s') (\<Union>q. set (lane q s'))" unfolding u ids using inj by (rule inj_on_diff)
    show "distinct (lane q s')" for q using store_okD(1) [OF ok] by (simp add: s')
    show "sa_delivery (st_heap s' b) = q" if "b \<in> set (lane q s')" for b q
      using that lanes [of q] store_okD(2) [OF ok, of b q] by (simp add: s')
  qed
qed

section \<open>Steps\<close>

text \<open>
  The operations of the store, the transitions its owner makes on actions, and the list of actions
  that were started. An operation that throws is no step, except \<open>remove\<close>, which may have cancelled
  some actions.
\<close>

inductive store_step :: "action_store \<times> nat list \<Rightarrow> action_store \<times> nat list \<Rightarrow> bool" where
  enqueue: "enqueue_action a s = Inr s' \<Longrightarrow> store_step (s, runs) (s', runs)"
| front: "enqueueFront a s = Inr s' \<Longrightarrow> store_step (s, runs) (s', runs)"
| select: "selectFirst s = (r, s') \<Longrightarrow> store_step (s, runs) (s', runs)"
| remove: "remove_actions P cs s = (r, s') \<Longrightarrow> store_step (s, runs) (s', runs)"
| rollback: "rollback_action a pr s = Inr s' \<Longrightarrow> store_step (s, runs) (s', runs)"
| swap: "swapQueued a b s = Inr s' \<Longrightarrow> store_step (s, runs) (s', runs)"
| move: "moveQueued a d k s = Inr s' \<Longrightarrow> store_step (s, runs) (s', runs)"
| release: "releaseTerminal a s = Inr s' \<Longrightarrow> a \<in> set (ownedActions s) \<Longrightarrow> store_step (s, runs) (s', runs)"
| transition: "transition_at a next pr s = Inr s' \<Longrightarrow> state_of next \<noteq> SRunning \<Longrightarrow> store_step (s, runs) (s', runs)"
| run: "transition_at a (Running x) pr s = Inr s' \<Longrightarrow> store_step (s, runs) (s', a # runs)"

inductive_cases store_stepE: "store_step S S'"

lemma step_ok: "store_step S S' \<Longrightarrow> store_ok (fst S) \<Longrightarrow> store_ok (fst S')"
  by (erule store_stepE)
    (auto simp: rollback_action_def
      dest: enqueue_ok enqueueFront_ok select_ok remove_ok transition_ok swap_ok move_ok release_ok)

lemma reachable_ok: "store_step\<^sup>*\<^sup>* S S' \<Longrightarrow> store_ok (fst S) \<Longrightarrow> store_ok (fst S')"
  by (induction rule: rtranclp_induct) (auto dest: step_ok)

lemma new_store_ok: "store_ok (new_store heap)"
  by (simp add: store_ok_def ownedActions_def actions_def new_store_def lane_def split: delivery_policy.split)

section \<open>Life cycles\<close>

text \<open>How the state of an action may change in one step.\<close>

definition may_become :: "lifecycle_state \<Rightarrow> lifecycle_state \<Rightarrow> bool" where
  "may_become x y \<longleftrightarrow> (\<lambda>u v. v \<in> set (LEGAL_TRANSITIONS u))\<^sup>*\<^sup>* x y"

text \<open>States that no action leaves for anything but the end of its life.\<close>

definition started_states :: "lifecycle_state set" where
  "started_states = {SRunning, SCompleted, SFailed, SCancelled}"

lemma legal_started: "x \<in> started_states \<Longrightarrow> y \<in> set (LEGAL_TRANSITIONS x) \<Longrightarrow> y \<in> started_states \<and> y \<noteq> SRunning"
  by (cases x) (auto simp: started_states_def)

lemma legal_terminal: "x \<in> set TERMINAL_STATES \<Longrightarrow> LEGAL_TRANSITIONS x = []"
  by (cases x) (auto simp: TERMINAL_STATES_def)

text \<open>A change of the heap by legal transitions, none of them to \<open>running\<close>.\<close>

definition legal_change :: "action_store \<Rightarrow> action_store \<Rightarrow> bool" where
  "legal_change s s' \<longleftrightarrow> (\<forall>a. sa_lifecycle (st_heap s' a) = sa_lifecycle (st_heap s a)
     \<or> state_at s a \<notin> set TERMINAL_STATES \<and> state_at s' a \<noteq> SRunning
        \<and> (state_at s a \<in> started_states \<longrightarrow> state_at s' a \<in> started_states))"

lemma legal_change_trans: "legal_change s t \<Longrightarrow> legal_change t u \<Longrightarrow> legal_change s u"
  unfolding legal_change_def by metis

lemma transition_legal:
  assumes "transition_at a next pr s = Inr s'"
  shows "st_heap s' b = (if b = a then (st_heap s a)\<lparr>sa_lifecycle := next\<rparr> else st_heap s b)"
    "state_at s a \<notin> set TERMINAL_STATES" "state_at s a \<in> started_states \<Longrightarrow> state_of next \<in> started_states - {SRunning}"
  using transition_frame [OF assms] legal_started legal_terminal by fastforce+

lemma transition_legal_change: "transition_at a next pr s = Inr s' \<Longrightarrow> state_of next \<noteq> SRunning \<Longrightarrow> legal_change s s'"
  unfolding legal_change_def using transition_legal [of a "next" pr s s'] by auto

lemma cancel_legal_change: "cancel_all as s = (r, s') \<Longrightarrow> legal_change s s'"
proof (induction as s rule: cancel_all.induct)
  case (1 s)
  then show ?case by (simp add: legal_change_def)
next
  case (2 a as s)
  show ?case
  proof (cases "transition_at a Cancelled None s")
    case (Inl e)
    with 2 show ?thesis by (simp add: legal_change_def)
  next
    case (Inr t)
    with 2 have "legal_change t s'" by simp
    moreover have "legal_change s t" using transition_legal_change [OF Inr] by simp
    ultimately show ?thesis by (metis legal_change_trans)
  qed
qed

lemma same_lifecycles: "(\<And>a. sa_lifecycle (st_heap s' a) = sa_lifecycle (st_heap s a)) \<Longrightarrow> legal_change s s'"
  by (simp add: legal_change_def)

lemma step_legal:
  assumes "store_step (s, runs) (s', runs')" "store_ok s"
  shows "runs' = runs \<and> legal_change s s' \<or> (\<exists>a x pr. runs' = a # runs \<and> transition_at a (Running x) pr s = Inr s')"
  using assms(1)
proof (cases rule: store_step.cases)
  case (enqueue a)
  then show ?thesis
    by (auto simp: enqueue_action_def Let_def split: option.splits intro: same_lifecycles)
next
  case (front a)
  then show ?thesis by (auto simp: enqueueFront_def Let_def split: option.splits intro: same_lifecycles)
next
  case (select r)
  then show ?thesis
    by (auto simp: selectFirst_def Let_def split: option.splits sum.splits
        intro: same_lifecycles transition_legal_change)
next
  case (remove P cs r)
  then show ?thesis
    by (auto simp: remove_actions_def Let_def split: prod.splits option.splits dest: cancel_legal_change)
next
  case (rollback a pr)
  then show ?thesis by (auto simp: rollback_action_def intro: transition_legal_change)
next
  case (swap a b)
  then show ?thesis
    by (auto simp: swapQueued_def Let_def split: if_splits option.splits intro: same_lifecycles)
next
  case (move a d k)
  then have "st_heap s' = (st_heap s)(a := (st_heap s a)\<lparr>sa_delivery := d\<rparr>)" using move_lanes(3) [OF assms(2)] by blast
  with move show ?thesis by (auto intro: same_lifecycles)
next
  case (release a)
  then show ?thesis by (auto simp: releaseTerminal_def Let_def split: if_splits intro: same_lifecycles)
next
  case (transition a x pr)
  then show ?thesis by (auto intro: transition_legal_change)
next
  case (run a x pr)
  then show ?thesis by blast
qed

definition runs_ok :: "action_store \<times> nat list \<Rightarrow> bool" where
  "runs_ok S \<longleftrightarrow> store_ok (fst S) \<and> distinct (snd S) \<and> (\<forall>a\<in>set (snd S). state_at (fst S) a \<in> started_states)"

lemma step_runs_ok:
  assumes "store_step S S'" "runs_ok S"
  shows "runs_ok S'"
proof -
  obtain s runs s' runs' where S: "S = (s, runs)" "S' = (s', runs')" by (cases S; cases S') simp
  have ok: "store_ok s" "store_ok s'" using assms S step_ok [OF assms(1)] by (simp_all add: runs_ok_def)
  from step_legal [OF assms(1) [unfolded S] ok(1)] consider "runs' = runs" "legal_change s s'"
    | a x pr where "runs' = a # runs" "transition_at a (Running x) pr s = Inr s'" by blast
  then show ?thesis
  proof cases
    case 1
    then have "state_at s' a \<in> started_states" if "state_at s a \<in> started_states" for a
      using that unfolding legal_change_def by metis
    with 1(1) assms(2) ok S show ?thesis by (simp add: runs_ok_def)
  next
    case (2 a x pr)
    note t = transition_legal [OF 2(2)]
    have "a \<notin> set runs" using t(3) assms(2) S by (auto simp: runs_ok_def)
    with 2 t(1) assms(2) ok S show ?thesis by (auto simp: runs_ok_def started_states_def)
  qed
qed

lemma terminal_step:
  assumes "store_step S S'" "store_ok (fst S)" "state_at (fst S) a \<in> set TERMINAL_STATES"
  shows "sa_lifecycle (st_heap (fst S') a) = sa_lifecycle (st_heap (fst S) a)"
proof -
  obtain s runs s' runs' where S: "S = (s, runs)" "S' = (s', runs')" by (cases S; cases S') simp
  from step_legal [OF assms(1) [unfolded S]] assms(2) S consider "legal_change s s'"
    | b x pr where "transition_at b (Running x) pr s = Inr s'" by auto
  then show ?thesis
  proof cases
    case 1
    with assms(3) S show ?thesis by (auto simp: legal_change_def)
  next
    case (2 b x pr)
    from transition_legal [OF 2] assms(3) S show ?thesis by auto
  qed
qed

text \<open>
  C27. In every reachable state of the action store each action occurs once, in the lane of its
  delivery policy, ids are distinct, and exactly the actions in the lanes have tickets.
\<close>

theorem action_store_consistent:
  assumes "store_step\<^sup>*\<^sup>* (new_store heap, []) (s, runs)"
  shows "distinct (ownedActions s) \<and> (\<forall>p. \<forall>a\<in>set (lane p s). sa_delivery (st_heap s a) = p)
    \<and> inj_on (\<lambda>a. sa_id (st_heap s a)) (set (ownedActions s))
    \<and> dom (st_tickets s) = (\<lambda>a. sa_id (st_heap s a)) ` set (ownedActions s)"
  using reachable_ok [OF assms] new_store_ok [of heap] by (simp add: store_ok_def store_ids_def [abs_def])

text \<open>
  C26. Over any sequence of operations of the action store and transitions by its owner, no action
  is started twice, and an action that has ended keeps its outcome and is never started again.
\<close>

theorem action_runs_once:
  assumes "store_step\<^sup>*\<^sup>* (new_store heap, []) (s, runs)" "store_step\<^sup>*\<^sup>* (s, runs) (s', runs')"
  shows "distinct runs' \<and> (\<forall>a. state_at s a \<in> set TERMINAL_STATES \<longrightarrow>
    sa_lifecycle (st_heap s' a) = sa_lifecycle (st_heap s a) \<and> (a \<in> set runs' \<longleftrightarrow> a \<in> set runs))"
proof -
  have "runs_ok (new_store heap, [])" by (simp add: runs_ok_def new_store_ok)
  with assms(1) have ok: "runs_ok (s, runs)" by (induction rule: rtranclp_induct) (auto intro: step_runs_ok)
  have "runs_ok (s', runs') \<and> (\<forall>a. state_at s a \<in> set TERMINAL_STATES \<longrightarrow>
      sa_lifecycle (st_heap s' a) = sa_lifecycle (st_heap s a) \<and> (a \<in> set runs' \<longleftrightarrow> a \<in> set runs))"
    using assms(2)
  proof (induction rule: rtranclp_induct2)
    case refl
    from ok show ?case by simp
  next
    case (step t rs u rs')
    then have t: "store_ok t" by (simp add: runs_ok_def)
    have "sa_lifecycle (st_heap u a) = sa_lifecycle (st_heap t a) \<and> (a \<in> set rs' \<longleftrightarrow> a \<in> set rs)"
      if "state_at t a \<in> set TERMINAL_STATES" for a
      using terminal_step [OF step(2), of a] step_legal [OF step(2) t] transition_legal(2) t that by fastforce
    with step step_runs_ok [OF step(2)] show ?case by auto
  qed
  then show ?thesis by (simp add: runs_ok_def)
qed

section \<open>Order\<close>

lemma find_filter: "find P xs = (case filter P xs of [] \<Rightarrow> None | x # _ \<Rightarrow> Some x)"
  by (induction xs) auto

lemma queued_in_lane: "queuedActions (Some p) s = still_queued s (lane p s)"
  by (simp add: queuedActions_def actions_def)

lemma find_index_filter:
  "distinct xs \<Longrightarrow> k < length (filter P xs) \<Longrightarrow>
   \<exists>i. find_index ((=) (filter P xs ! k)) xs = Some i \<and> filter P (take i xs) = take k (filter P xs)
      \<and> filter P (drop i xs) = drop k (filter P xs)"
proof (induction xs arbitrary: k)
  case (Cons x xs)
  have other: "find_index ((=) (filter P xs ! j)) (x # xs) = map_option Suc (find_index ((=) (filter P xs ! j)) xs)"
    if "j < length (filter P xs)" for j
  proof -
    have "filter P xs ! j \<in> set xs" using nth_mem [OF that] by simp
    with Cons.prems(1) show ?thesis by auto
  qed
  show ?case
  proof (cases "P x")
    case True
    show ?thesis
    proof (cases k)
      case 0
      with True show ?thesis by simp
    next
      case (Suc j)
      with True Cons.prems have j: "j < length (filter P xs)" by simp
      from Cons.IH [OF _ j] Cons.prems(1) obtain i where "find_index ((=) (filter P xs ! j)) xs = Some i"
        "filter P (take i xs) = take j (filter P xs)" "filter P (drop i xs) = drop j (filter P xs)" by auto
      with True Suc other [OF j] show ?thesis by (intro exI [of _ "Suc i"]) simp
    qed
  next
    case False
    with Cons.prems have k: "k < length (filter P xs)" by simp
    from Cons.IH [OF _ k] Cons.prems(1) obtain i where "find_index ((=) (filter P xs ! k)) xs = Some i"
      "filter P (take i xs) = take k (filter P xs)" "filter P (drop i xs) = drop k (filter P xs)" by auto
    with False other [OF k] show ?thesis by (intro exI [of _ "Suc i"]) simp
  qed
qed simp

lemma insert_queue_position:
  assumes "distinct xs" "P a"
  shows "filter P (insert_at (queue_position (filter P xs) k xs) a xs)
    = insert_at (nat (max 0 (min k (int (length (filter P xs)))))) a (filter P xs)"
proof -
  define m where "m = nat (max 0 (min k (int (length (filter P xs)))))"
  show ?thesis
  proof (cases "m < length (filter P xs)")
    case True
    from find_index_filter [OF assms(1) True] obtain i where
      "find_index ((=) (filter P xs ! m)) xs = Some i" "filter P (take i xs) = take m (filter P xs)"
      "filter P (drop i xs) = drop m (filter P xs)" by blast
    with True assms(2) show ?thesis by (simp add: queue_position_def insert_at_def flip: m_def)
  next
    case False
    with assms(2) show ?thesis by (simp add: queue_position_def insert_at_def flip: m_def)
  qed
qed

lemma queued_add:
  assumes ok: "store_ok s" and new: "assertNewAction a s = None" and p: "d = sa_delivery (st_heap s a)"
  shows "queuedActions (Some p) (add_ticket a (set_lane d xs s))
    = (if p = d then still_queued s xs else queuedActions (Some p) s)"
  by (simp add: queued_in_lane)

lemma enqueue_queue:
  assumes "store_ok s" "enqueue_action a s = Inr s'"
  shows "queuedActions (Some p) s' = (if p = sa_delivery (st_heap s a)
    then queuedActions (Some p) s @ [a] else queuedActions (Some p) s)"
  using assms new_not_owned(3) [OF assms(1), of a]
  by (auto simp: enqueue_action_def Let_def queued_in_lane split: option.splits)

lemma front_split:
  "still_queued s (insert_at (case find_index (\<lambda>b. state_at s b = SQueued) xs of None \<Rightarrow> length xs | Some i \<Rightarrow> i) a xs)
   = (if state_at s a = SQueued then a # still_queued s xs else still_queued s xs)"
proof (induction xs)
  case (Cons x xs)
  then show ?case
    by (cases "find_index (\<lambda>b. state_at s b = SQueued) xs") (auto simp: insert_at_def)
qed (simp add: insert_at_def)

lemma enqueueFront_queue:
  assumes "store_ok s" "enqueueFront a s = Inr s'"
  shows "queuedActions (Some p) s' = (if p = sa_delivery (st_heap s a)
    then a # queuedActions (Some p) s else queuedActions (Some p) s)"
proof (cases "assertNewAction a s")
  case None
  from assms(2) None new_not_owned(3) [OF assms(1) None] show ?thesis
    by (auto simp: enqueueFront_def Let_def queued_in_lane front_split)
qed (use assms(2) in \<open>simp add: enqueueFront_def\<close>)

lemma snapshot_lanes: "snapshotActions s = still_queued s (lane NextTurnBoundary s) @ still_queued s (lane WhenRunIdle s)"
  by (simp add: snapshotActions_def queuedActions_def actions_def lane_def)

lemma select_snapshot:
  "selectFirst s = (case snapshotActions s of [] \<Rightarrow> (None, s)
     | a # _ \<Rightarrow> (Some a, s\<lparr>st_heap := (st_heap s)(a := (st_heap s a)\<lparr>sa_lifecycle := Selected\<rparr>)\<rparr>))"
proof -
  have q: "transition_at a Selected None s = Inr (s\<lparr>st_heap := (st_heap s)(a := (st_heap s a)\<lparr>sa_lifecycle := Selected\<rparr>)\<rparr>)"
    if "state_at s a = SQueued" for a
    using that by (simp add: transition_at_def transitionSessionAction_def)
  have l: "st_nextTurnBoundary s = lane NextTurnBoundary s" "st_whenRunIdle s = lane WhenRunIdle s"
    by (simp_all add: lane_def)
  have head: "state_at s a = SQueued" if "still_queued s xs = a # as" for a as xs
    using that by (metis (mono_tags, lifting) filter_eq_ConsD)
  show ?thesis
    unfolding selectFirst_def Let_def find_filter l snapshot_lanes
    by (auto simp: q dest: head split: list.splits)
qed

lemma select_queue:
  assumes ok: "store_ok s" and sel: "selectFirst s = (r, s')"
  shows "r = (case snapshotActions s of [] \<Rightarrow> None | a # _ \<Rightarrow> Some a) \<and> snapshotActions s' = tl (snapshotActions s)"
proof (cases "snapshotActions s")
  case Nil
  with sel show ?thesis by (auto simp: select_snapshot)
next
  case (Cons a as)
  have "snapshotActions s = still_queued s (ownedActions s)" by (simp add: snapshot_lanes owned_lanes)
  with ok have d: "distinct (snapshotActions s)" by (simp add: store_ok_def)
  from Cons sel have s': "s' = s\<lparr>st_heap := (st_heap s)(a := (st_heap s a)\<lparr>sa_lifecycle := Selected\<rparr>)\<rparr>" "r = Some a"
    by (auto simp: select_snapshot)
  then have "snapshotActions s' = filter (\<lambda>b. b \<noteq> a) (snapshotActions s)"
    by (auto simp: snapshot_lanes intro!: arg_cong2 [of _ _ _ _ append] filter_cong)
  also have "\<dots> = as" using d Cons by (auto simp: filter_id_conv)
  finally show ?thesis using Cons s'(2) by simp
qed

lemma filter_remove1_queued: "still_queued s (remove1 a xs) = remove1 a (still_queued s xs)"
  by (simp add: filter_remove1)

lemma move_queue:
  assumes ok: "store_ok s" and m: "moveQueued a d k s = Inr s'"
  shows "queuedActions (Some p) s' = (let rest = remove1 a (queuedActions (Some p) s)
    in if p = d then insert_at (nat (max 0 (min k (int (length rest))))) a rest else rest)"
proof -
  note l = move_lanes [OF ok m]
  have st: "state_at s' b = state_at s b" for b using l(3) by simp
  have "distinct (remove1 a (lane p s))" using store_okD(1) [OF ok] by simp
  from insert_queue_position [OF this, of "\<lambda>b. state_at s b = SQueued" a k] l(1) l(5) [of p]
  show ?thesis by (cases "p = d") (simp_all add: queued_in_lane st filter_remove1_queued Let_def)
qed

lemma clearable_cancel: "isClearable (st_heap s a) \<Longrightarrow>
    transition_at a Cancelled None s = Inr (s\<lparr>st_heap := (st_heap s)(a := (st_heap s a)\<lparr>sa_lifecycle := Cancelled\<rparr>)\<rparr>)"
  by (auto simp: isClearable_def CLEARABLE_STATES_def transition_at_def transitionSessionAction_def)

lemma cancel_clearable:
  "distinct as \<Longrightarrow> \<forall>a\<in>set as. isClearable (st_heap s a) \<Longrightarrow>
   cancel_all as s = (None, s\<lparr>st_heap := (\<lambda>b. if b \<in> set as then (st_heap s b)\<lparr>sa_lifecycle := Cancelled\<rparr> else st_heap s b)\<rparr>)"
proof (induction as arbitrary: s)
  case (Cons a as)
  let ?t = "s\<lparr>st_heap := (st_heap s)(a := (st_heap s a)\<lparr>sa_lifecycle := Cancelled\<rparr>)\<rparr>"
  have "\<forall>b\<in>set as. isClearable (st_heap ?t b)" "distinct as" using Cons.prems by auto
  from Cons.IH [OF this(2,1)] Cons.prems clearable_cancel [of s a] show ?case by (auto simp: fun_eq_iff)
qed simp

lemma remove_queue:
  assumes ok: "store_ok s" and rm: "remove_actions P (clearableActions None s) s = (r, s')"
  shows "r = Inr (filter (\<lambda>a. P (st_heap s a)) (clearableActions None s))
    \<and> queuedActions (Some p) s' = filter (\<lambda>a. \<not> P (st_heap s a)) (queuedActions (Some p) s)"
proof -
  let ?c = "clearableActions None s" and ?as = "filter (\<lambda>a. P (st_heap s a)) (clearableActions None s)"
  let ?s = "s\<lparr>st_heap := (\<lambda>b. if b \<in> set ?as then (st_heap s b)\<lparr>sa_lifecycle := Cancelled\<rparr> else st_heap s b)\<rparr>"
  have c: "distinct ?c" "set ?c = {a \<in> set (ownedActions s). isClearable (st_heap s a)}"
    using ok by (auto simp: clearableActions_def store_ok_def ownedActions_def)
  have "cancel_all ?as s = (None, ?s)" by (rule cancel_clearable) (use c in auto)
  with rm have r: "r = Inr ?as" "s' = ?s" by (simp_all add: remove_actions_def)
  have "b \<in> set ?c" if "b \<in> set (lane p s)" "state_at s b = SQueued" for b
    using that c(2) by (auto simp: set_owned isClearable_def CLEARABLE_STATES_def)
  then have "queuedActions (Some p) s' = filter (\<lambda>a. \<not> P (st_heap s a)) (queuedActions (Some p) s)"
    unfolding r(2) queued_in_lane by (auto intro!: filter_cong)
  with r(1) show ?thesis by blast
qed

text \<open>
  C28. Seen through their queued actions, the lanes are queues: enqueueing appends, enqueueing at
  the front prepends, selecting takes the first of the boundary lane before the idle lane, moving
  inserts at the clamped index, and removing filters; finished and running actions never disturb the
  order.
\<close>

theorem action_queues_refine:
  assumes "store_step\<^sup>*\<^sup>* (new_store heap, []) (s, runs)"
  shows "(enqueue_action a s = Inr s' \<longrightarrow> queuedActions (Some p) s'
        = queuedActions (Some p) s @ (if p = sa_delivery (st_heap s a) then [a] else []))
    \<and> (enqueueFront a s = Inr s' \<longrightarrow> queuedActions (Some p) s'
        = (if p = sa_delivery (st_heap s a) then [a] else []) @ queuedActions (Some p) s)
    \<and> (selectFirst s = (r, s') \<longrightarrow> r = (case snapshotActions s of [] \<Rightarrow> None | b # _ \<Rightarrow> Some b)
        \<and> snapshotActions s' = tl (snapshotActions s))
    \<and> (moveQueued a d k s = Inr s' \<longrightarrow> queuedActions (Some p) s' =
        (let rest = remove1 a (queuedActions (Some p) s)
         in if p = d then insert_at (nat (max 0 (min k (int (length rest))))) a rest else rest))
    \<and> (remove_actions P (clearableActions None s) s = (removed, s') \<longrightarrow>
        removed = Inr (filter (\<lambda>b. P (st_heap s b)) (clearableActions None s))
        \<and> queuedActions (Some p) s' = filter (\<lambda>b. \<not> P (st_heap s b)) (queuedActions (Some p) s))"
proof -
  from reachable_ok [OF assms] new_store_ok have ok: "store_ok s" by simp
  show ?thesis
    using enqueue_queue [OF ok, of a s' p] enqueueFront_queue [OF ok, of a s' p] select_queue [OF ok, of r s']
      move_queue [OF ok, of a d k s' p] remove_queue [OF ok, of P removed s' p] by auto
qed

section \<open>Examples\<close>

text \<open>Three turns, the last for an idle run; the first is selected and run to its end.\<close>

definition demo_action :: "string \<Rightarrow> delivery_policy \<Rightarrow> session_action" where
  "demo_action i d = \<lparr>sa_id = i, sa_source = ''interactive'', sa_delivery = d, sa_wake = Immediate,
     sa_payload = TurnPayload [] i None, sa_lifecycle = Queued, sa_queueKey = None, sa_agentMessageId = None,
     sa_suppressAutonomousContinuation = False\<rparr>"

definition demo_heap :: "nat \<Rightarrow> session_action" where
  "demo_heap = (\<lambda>_. demo_action ''c'' WhenRunIdle)(0 := demo_action ''a'' NextTurnBoundary, 1 := demo_action ''b'' NextTurnBoundary)"

definition demo_queue :: action_store where
  "demo_queue = (add_ticket 2 (set_lane WhenRunIdle [2] (add_ticket 1 (set_lane NextTurnBoundary [0, 1]
     (add_ticket 0 (set_lane NextTurnBoundary [0] (new_store demo_heap)))))))"

lemmas store_eval = enqueue_action_def assertNewAction_def demo_heap_def demo_action_def new_store_def
  add_ticket_def set_lane_def lane_def Let_def

lemma demo_queue_reachable: "store_step\<^sup>*\<^sup>* (new_store demo_heap, []) (demo_queue, [])"
proof -
  define s1 where "s1 = add_ticket 0 (set_lane NextTurnBoundary [0] (new_store demo_heap))"
  define s2 where "s2 = add_ticket 1 (set_lane NextTurnBoundary [0, 1] s1)"
  have "store_step (new_store demo_heap, []) (s1, [])"
    unfolding s1_def by (rule store_step.enqueue [of 0]) (simp add: store_eval)
  moreover have "store_step (s1, []) (s2, [])"
    unfolding s2_def by (rule store_step.enqueue [of 1]) (simp add: s1_def store_eval)
  moreover have "store_step (s2, []) (demo_queue, [])"
    unfolding demo_queue_def s1_def [symmetric] s2_def [symmetric]
    by (rule store_step.enqueue [of 2]) (simp add: s1_def s2_def store_eval)
  ultimately show ?thesis by (auto intro: converse_rtranclp_into_rtranclp)
qed

definition demo_started :: action_store where
  "demo_started = demo_queue\<lparr>st_heap := (st_heap demo_queue)(0 := (st_heap demo_queue 0)\<lparr>sa_lifecycle := Running AgentTurn\<rparr>)\<rparr>"

lemma demo_started_reachable: "store_step\<^sup>*\<^sup>* (demo_queue, []) (demo_started, [0])"
proof -
  define s1 where "s1 = demo_queue\<lparr>st_heap := (st_heap demo_queue)(0 := (st_heap demo_queue 0)\<lparr>sa_lifecycle := Selected\<rparr>)\<rparr>"
  have h: "st_heap demo_queue = demo_heap" "sa_lifecycle (demo_heap 0) = Queued" by (simp_all add: demo_queue_def store_eval)
  have "store_step (demo_queue, []) (s1, [])"
    by (rule store_step.transition [of 0 Selected None])
      (simp_all add: s1_def transition_at_def transitionSessionAction_def h)
  moreover have "store_step (s1, []) (demo_started, [0])"
    by (rule store_step.run [of 0 AgentTurn None])
      (simp add: s1_def demo_started_def transition_at_def transitionSessionAction_def)
  ultimately show ?thesis by (auto intro: converse_rtranclp_into_rtranclp)
qed

theorem action_store_consistent_witness:
  "distinct (ownedActions demo_queue) \<and> inj_on (\<lambda>a. sa_id (st_heap demo_queue a)) (set (ownedActions demo_queue))
    \<and> dom (st_tickets demo_queue) = (\<lambda>a. sa_id (st_heap demo_queue a)) ` set (ownedActions demo_queue)"
  using action_store_consistent [OF demo_queue_reachable] by blast

text \<open>The first action is cancelled while it runs, then the second is selected.\<close>

definition demo_cancelled :: action_store where
  "demo_cancelled = demo_started\<lparr>st_heap := (st_heap demo_started)(0 := (st_heap demo_started 0)\<lparr>sa_lifecycle := Cancelled\<rparr>)\<rparr>"

lemma demo_cancelled_reachable: "store_step\<^sup>*\<^sup>* (new_store demo_heap, []) (demo_cancelled, [0])"
proof -
  have "store_step (demo_started, [0]) (demo_cancelled, [0])"
    by (rule store_step.transition [of 0 Cancelled None])
      (simp_all add: demo_started_def demo_cancelled_def transition_at_def transitionSessionAction_def)
  with demo_queue_reachable demo_started_reachable show ?thesis by (meson rtranclp.rtrancl_into_rtrancl rtranclp_trans)
qed

theorem action_runs_once_witness:
  "distinct [0::nat] \<and> sa_lifecycle (st_heap (snd (selectFirst demo_cancelled)) 0) = Cancelled"
proof -
  have "store_step\<^sup>*\<^sup>* (demo_cancelled, [0]) (snd (selectFirst demo_cancelled), [0])"
    by (rule r_into_rtranclp, rule store_step.select [of _ "fst (selectFirst demo_cancelled)"]) simp
  from action_runs_once [OF demo_cancelled_reachable this] show ?thesis
    by (auto simp: demo_cancelled_def TERMINAL_STATES_def)
qed

lemma demo_select: "selectFirst demo_queue = (Some 0, demo_queue\<lparr>st_heap := (st_heap demo_queue)(0 := (st_heap demo_queue 0)\<lparr>sa_lifecycle := Selected\<rparr>)\<rparr>)"
  by (simp add: select_snapshot snapshot_lanes demo_queue_def store_eval)

theorem action_queues_refine_witness:
  "\<exists>s'. selectFirst demo_queue = (Some 0, s') \<and> Some 0 = (case snapshotActions demo_queue of [] \<Rightarrow> None | b # _ \<Rightarrow> Some b)
    \<and> snapshotActions s' = tl (snapshotActions demo_queue)"
  using action_queues_refine [OF demo_queue_reachable, where r = "Some 0"] demo_select by blast

end
