(* ===== verification/Command_Journal.thy ===== *)
theory Command_Journal
  imports Json
begin

text \<open>
  The command journal of the daemon supervisor (\<open>modes/daemon/command-recovery-journal.ts\<close>): a command is
  recorded before it is dispatched, so that after a crash it is known to have been received and is not
  dispatched again. A crash may stop a write anywhere; the file is the list of the pieces written.
\<close>

section \<open>Records and the file\<close>

record received_record =
  rr_key :: string
  rr_clientId :: string
  rr_commandId :: string
  rr_commandType :: string
  rr_recordedAt :: string

datatype 'r journal_record =
    Received received_record
  | Result string 'r string
  | Acknowledged string string

record 'r journal_entry =
  je_received :: received_record
  je_response :: "'r option"

definition COMPACT_AFTER_RECORDS :: nat where
  "COMPACT_AFTER_RECORDS = 4096"

definition createCommandIdempotencyKey :: "string \<Rightarrow> string \<Rightarrow> string" where
  "createCommandIdempotencyKey clientId commandId = stringify (JArray [JString clientId, JString commandId])"

text \<open>
  What a write leaves in the file: the line of a record; its text without the line feed; a proper
  prefix of the text, not empty; or a line feed alone.
\<close>

datatype 'r piece = Line "'r journal_record" | Unended "'r journal_record" | Torn | Blank

text \<open>
  The records \<open>load\<close> parses. What follows a text without line feed belongs to the same line, and a
  JSON text or a part of one with another text behind it is not JSON: such a line is skipped up to
  its line feed.
\<close>

fun journal_lines :: "'r piece list \<Rightarrow> 'r journal_record list" and skip_line :: "'r piece list \<Rightarrow> 'r journal_record list" where
  "journal_lines [] = []"
| "journal_lines (Line r # ps) = r # journal_lines ps"
| "journal_lines (Blank # ps) = journal_lines ps"
| "journal_lines (Unended r # ps) = (if ps = [] then [r] else skip_line ps)"
| "journal_lines (Torn # ps) = skip_line ps"
| "skip_line [] = []"
| "skip_line (Line r # ps) = journal_lines ps"
| "skip_line (Blank # ps) = journal_lines ps"
| "skip_line (Unended r # ps) = skip_line ps"
| "skip_line (Torn # ps) = skip_line ps"

text \<open>The \<open>Map\<close> of entries, in insertion order, after one more record.\<close>

type_synonym 'r entries = "(string \<times> 'r journal_entry) list"

fun apply_record :: "'r journal_record \<Rightarrow> 'r entries \<Rightarrow> 'r entries" where
  "apply_record (Received r) es = AList.update (rr_key r) \<lparr>je_received = r, je_response = None\<rparr> es"
| "apply_record (Acknowledged k _) es = AList.delete k es"
| "apply_record (Result k response _) es =
     (case map_of es k of
        None \<Rightarrow> es
      | Some e \<Rightarrow> AList.update k (e\<lparr>je_response := Some response\<rparr>) es)"

definition replay :: "'r piece list \<Rightarrow> 'r entries" where
  "replay file = fold apply_record (journal_lines file) []"

record 'r journal =
  jo_entries :: "'r entries"
  jo_recordCount :: nat
  jo_file :: "'r piece list"

definition load_journal :: "'r piece list \<Rightarrow> 'r journal" where
  "load_journal file = \<lparr>jo_entries = replay file, jo_recordCount = length (journal_lines file), jo_file = file\<rparr>"

section \<open>Writing\<close>

text \<open>How an append ends: it may throw before, while or after the line is written.\<close>

datatype write_outcome = Written | NotWritten error | ThenThrew error | TornWrite error | UnendedWrite error

fun written_pieces :: "write_outcome \<Rightarrow> 'r journal_record \<Rightarrow> 'r piece list" where
  "written_pieces Written r = [Line r]"
| "written_pieces (NotWritten _) r = []"
| "written_pieces (ThenThrew _) r = [Line r]"
| "written_pieces (TornWrite _) r = [Torn]"
| "written_pieces (UnendedWrite _) r = [Unended r]"

fun write_error :: "write_outcome \<Rightarrow> error option" where
  "write_error Written = None"
| "write_error (NotWritten e) = Some e"
| "write_error (ThenThrew e) = Some e"
| "write_error (TornWrite e) = Some e"
| "write_error (UnendedWrite e) = Some e"

definition append_record :: "write_outcome \<Rightarrow> 'r journal_record \<Rightarrow> 'r journal \<Rightarrow> error option \<times> 'r journal" where
  "append_record w r j =
     (let j' = j\<lparr>jo_file := jo_file j @ written_pieces w r\<rparr>
      in case write_error w of
          Some e \<Rightarrow> (Some e, j')
        | None \<Rightarrow> (None, j'\<lparr>jo_recordCount := jo_recordCount j + 1\<rparr>))"

definition entry_records :: "string \<Rightarrow> string \<times> 'r journal_entry \<Rightarrow> 'r journal_record list" where
  "entry_records now ke =
     Received (je_received (snd ke)) #
     (case je_response (snd ke) of Some response \<Rightarrow> [Result (fst ke) response now] | None \<Rightarrow> [])"

text \<open>The temporary file takes the place of the journal at once, or not at all.\<close>

datatype compact_outcome = Compacted | NotRenamed error | RenamedThrew error

definition compacted_records :: "string \<Rightarrow> 'r entries \<Rightarrow> 'r journal_record list" where
  "compacted_records now es = concat (map (entry_records now) es)"

definition compacted_file :: "'r journal_record list \<Rightarrow> 'r piece list" where
  "compacted_file records = (if records = [] then [Blank] else map Line records)"

definition compact_journal :: "compact_outcome \<Rightarrow> string \<Rightarrow> 'r journal \<Rightarrow> error option \<times> 'r journal" where
  "compact_journal c now j =
     (let records = compacted_records now (jo_entries j); file = compacted_file records
      in case c of
          NotRenamed e \<Rightarrow> (Some e, j)
        | RenamedThrew e \<Rightarrow> (Some e, j\<lparr>jo_file := file\<rparr>)
        | Compacted \<Rightarrow> (None, j\<lparr>jo_file := file, jo_recordCount := length records\<rparr>))"

section \<open>Operations\<close>

datatype 'r begin_result = New | Pending | Complete 'r

definition lookup_command :: "string \<Rightarrow> string \<Rightarrow> 'r journal \<Rightarrow> 'r begin_result option" where
  "lookup_command clientId commandId j =
     (case map_of (jo_entries j) (createCommandIdempotencyKey clientId commandId) of
        None \<Rightarrow> None
      | Some e \<Rightarrow> Some (case je_response e of Some response \<Rightarrow> Complete response | None \<Rightarrow> Pending))"

definition begin_command ::
  "write_outcome \<Rightarrow> string \<Rightarrow> string \<Rightarrow> string \<Rightarrow> string \<Rightarrow> 'r journal \<Rightarrow> (error + 'r begin_result) \<times> 'r journal" where
  "begin_command w now clientId commandId commandType j =
     (let key = createCommandIdempotencyKey clientId commandId
      in case lookup_command clientId commandId j of
          Some existing \<Rightarrow> (Inr existing, j)
        | None \<Rightarrow>
            let received = \<lparr>rr_key = key, rr_clientId = clientId, rr_commandId = commandId,
                  rr_commandType = commandType, rr_recordedAt = now\<rparr>
            in case append_record w (Received received) j of
                (Some e, j') \<Rightarrow> (Inl e, j')
              | (None, j') \<Rightarrow>
                  (Inr New, j'\<lparr>jo_entries := AList.update key \<lparr>je_received = received, je_response = None\<rparr> (jo_entries j')\<rparr>))"

definition recordResult ::
  "write_outcome \<Rightarrow> compact_outcome \<Rightarrow> string \<Rightarrow> string \<Rightarrow> string \<Rightarrow> 'r \<Rightarrow> 'r journal \<Rightarrow> error option \<times> 'r journal" where
  "recordResult w c now clientId commandId response j =
     (let key = createCommandIdempotencyKey clientId commandId
      in case map_of (jo_entries j) key of
          None \<Rightarrow> (Some (Error (''Cannot record a result before command receipt: '' @ key)), j)
        | Some e \<Rightarrow>
            (case append_record w (Result key response now) j of
               (Some err, j') \<Rightarrow> (Some err, j')
             | (None, j') \<Rightarrow>
                 let j2 = j'\<lparr>jo_entries := AList.update key (e\<lparr>je_response := Some response\<rparr>) (jo_entries j')\<rparr>
                 in if jo_recordCount j2 \<ge> COMPACT_AFTER_RECORDS then compact_journal c now j2 else (None, j2)))"

definition acknowledge ::
  "write_outcome \<Rightarrow> compact_outcome \<Rightarrow> string \<Rightarrow> string \<Rightarrow> string \<Rightarrow> 'r journal \<Rightarrow> error option \<times> 'r journal" where
  "acknowledge w c now clientId commandId j =
     (let key = createCommandIdempotencyKey clientId commandId
      in if map_of (jo_entries j) key = None then (None, j)
         else case append_record w (Acknowledged key now) j of
             (Some err, j') \<Rightarrow> (Some err, j')
           | (None, j') \<Rightarrow>
               let j2 = j'\<lparr>jo_entries := AList.delete key (jo_entries j')\<rparr>
               in if jo_entries j2 = [] \<or> jo_recordCount j2 \<ge> COMPACT_AFTER_RECORDS then compact_journal c now j2
                  else (None, j2))"

end
