(* ===== verification/Command_Journal_Props.thy ===== *)
theory Command_Journal_Props
  imports Command_Journal
begin

text \<open>
  A command that was admitted once stays known until it is acknowledged, across restarts and failing
  writes, as long as no write stops in the middle of a line; when one does, the next record is lost.
\<close>

section \<open>Reading back\<close>

definition whole :: "'r piece \<Rightarrow> bool" where
  "whole p \<longleftrightarrow> (case p of Line _ \<Rightarrow> True | Blank \<Rightarrow> True | _ \<Rightarrow> False)"

lemma whole_simps [simp]: "whole (Line r)" "whole Blank" "\<not> whole (Unended r)" "\<not> whole Torn"
  by (simp_all add: whole_def)

lemma lines_append: "list_all whole ps \<Longrightarrow> journal_lines (ps @ qs) = journal_lines ps @ journal_lines qs"
proof (induction ps)
  case (Cons p ps)
  then show ?case by (cases p) auto
qed simp

lemma lines_map [simp]: "journal_lines (map Line rs) = rs"
  by (induction rs) simp_all

lemma replay_line: "list_all whole file \<Longrightarrow> replay (file @ [Line r]) = apply_record r (replay file)"
  by (simp add: replay_def lines_append)

lemma keys_apply: "distinct (map fst es) \<Longrightarrow> distinct (map fst (apply_record r es))"
  by (cases r) (auto simp: distinct_update distinct_delete split: option.split)

lemma keys_replay: "distinct (map fst (replay file))"
  unfolding replay_def by (rule fold_invariant [where P = "\<lambda>es. distinct (map fst es)" and Q = "\<lambda>_. True"]) (simp_all add: keys_apply)

lemma map_of_updated: "map_of (AList.update k v es) = (map_of es)(k \<mapsto> v)"
  by (rule update_conv')

lemma map_of_deleted: "map_of (AList.delete k es) = (map_of es)(k := None)"
  by (rule delete_conv')

section \<open>Compaction\<close>

text \<open>Each key is the one of the record received for it, and occurs once.\<close>

definition entries_ok :: "'r entries \<Rightarrow> bool" where
  "entries_ok es \<longleftrightarrow> distinct (map fst es) \<and> (\<forall>(k, e)\<in>set es. rr_key (je_received e) = k)"

lemma update_new: "k \<notin> fst ` set es \<Longrightarrow> AList.update k v es = es @ [(k, v)]"
  by (induction es) auto

lemma update_last: "k \<notin> fst ` set es \<Longrightarrow> AList.update k v (es @ [(k, u)]) = es @ [(k, v)]"
  by (induction es) auto

lemma apply_entry:
  assumes "k \<notin> fst ` set es" "rr_key (je_received e) = k"
  shows "fold apply_record (entry_records now (k, e)) es = es @ [(k, e)]"
proof -
  have "map_of es k = None" using assms(1) by (simp add: map_of_eq_None_iff)
  then have "map_of (es @ [(k, u)]) k = Some u" for u by (simp add: map_add_def)
  with assms show ?thesis
    by (cases "je_response e") (simp_all add: entry_records_def update_new update_last)
qed

lemma replay_records:
  "entries_ok (ds @ es) \<Longrightarrow> fold apply_record (concat (map (entry_records now) es)) ds = ds @ es"
proof (induction es arbitrary: ds)
  case (Cons ke es)
  obtain k e where ke: "ke = (k, e)" by fastforce
  with Cons.prems have "k \<notin> fst ` set ds" "rr_key (je_received e) = k" by (auto simp: entries_ok_def)
  with apply_entry [OF this] Cons.IH [of "ds @ [ke]"] Cons.prems ke show ?case by simp
qed simp

lemma entry_records_ne: "entry_records now ke \<noteq> []"
  by (simp add: entry_records_def)

lemma compacted_replay: "entries_ok es \<Longrightarrow> replay (compacted_file (compacted_records now es)) = es"
proof -
  assume ok: "entries_ok es"
  have "journal_lines (compacted_file rs) = rs" for rs :: "'a journal_record list"
    by (cases rs) (simp_all add: compacted_file_def)
  with replay_records [of "[]" es now] ok show ?thesis by (simp add: replay_def compacted_records_def)
qed

lemma compacted_whole: "list_all whole (compacted_file rs)"
  by (simp add: compacted_file_def list_all_iff)

lemma compact_frame:
  assumes "compact_journal c now j = (r, j')"
  shows "jo_entries j' = jo_entries j
    \<and> jo_file j' \<in> {jo_file j, compacted_file (compacted_records now (jo_entries j))}"
  using assms by (cases c) (auto simp: compact_journal_def Let_def)

lemma entries_ok_update:
  "entries_ok es \<Longrightarrow> rr_key (je_received e) = k \<Longrightarrow> entries_ok (AList.update k e es)"
  unfolding entries_ok_def
proof (intro conjI; elim conjE)
  assume "\<forall>(k, e)\<in>set es. rr_key (je_received e) = k" "rr_key (je_received e) = k"
  then show "\<forall>(k, e)\<in>set (AList.update k e es). rr_key (je_received e) = k"
    by (induction es) auto
qed (rule distinct_update)

lemma entries_ok_delete: "entries_ok es \<Longrightarrow> entries_ok (AList.delete k es)"
  unfolding entries_ok_def by (intro conjI distinct_delete) (auto simp: AList.delete_eq)

section \<open>Known commands\<close>

text \<open>
  The commands admitted and not yet acknowledged, and the responses recorded for them since the last
  attempt that failed.
\<close>

record 'r journal_run =
  ru_journal :: "'r journal"
  ru_admitted :: "string set"
  ru_results :: "string \<rightharpoonup> 'r"

fun whole_write :: "write_outcome \<Rightarrow> bool" where
  "whole_write (TornWrite _) \<longleftrightarrow> False"
| "whole_write (UnendedWrite _) \<longleftrightarrow> False"
| "whole_write _ \<longleftrightarrow> True"

text \<open>The steps of the supervisor; a restart, or a crash between two writes, loads the file again.\<close>

inductive journal_step :: "'r journal_run \<Rightarrow> 'r journal_run \<Rightarrow> bool" where
  begin_new: "whole_write w \<Longrightarrow> begin_command w now c m t (ru_journal u) = (Inr New, j) \<Longrightarrow>
    k = createCommandIdempotencyKey c m \<Longrightarrow>
    journal_step u (u\<lparr>ru_journal := j, ru_admitted := insert k (ru_admitted u), ru_results := (ru_results u)(k := None)\<rparr>)"
| begin_other: "whole_write w \<Longrightarrow> begin_command w now c m t (ru_journal u) = (r, j) \<Longrightarrow> r \<noteq> Inr New \<Longrightarrow>
    journal_step u (u\<lparr>ru_journal := j\<rparr>)"
| result: "whole_write w \<Longrightarrow> recordResult w z now c m response (ru_journal u) = (r, j) \<Longrightarrow>
    k = createCommandIdempotencyKey c m \<Longrightarrow>
    journal_step u (u\<lparr>ru_journal := j, ru_results := (ru_results u)(k := if r = None then Some response else None)\<rparr>)"
| acknowledge: "whole_write w \<Longrightarrow> acknowledge w z now c m (ru_journal u) = (r, j) \<Longrightarrow>
    k = createCommandIdempotencyKey c m \<Longrightarrow>
    journal_step u (u\<lparr>ru_journal := j, ru_admitted := ru_admitted u - {k}, ru_results := (ru_results u)(k := None)\<rparr>)"
| restart: "journal_step u (u\<lparr>ru_journal := load_journal (jo_file (ru_journal u))\<rparr>)"

definition known :: "string set \<Rightarrow> (string \<rightharpoonup> 'r) \<Rightarrow> 'r entries \<Rightarrow> bool" where
  "known A R es \<longleftrightarrow> (\<forall>k\<in>A. map_of es k \<noteq> None \<and> (\<forall>r. R k = Some r \<longrightarrow> map_option je_response (map_of es k) = Some (Some r)))"

lemma entries_ok_apply:
  "entries_ok es \<Longrightarrow> (\<forall>r. x = Received r \<longrightarrow> P r) \<Longrightarrow> entries_ok (apply_record x es)"
proof (cases x)
  case (Result k response now)
  assume ok: "entries_ok es"
  show ?thesis
  proof (cases "map_of es k")
    case (Some e)
    then have "rr_key (je_received e) = k" using ok by (auto simp: entries_ok_def dest: map_of_SomeD)
    with ok Some Result show ?thesis by (simp add: entries_ok_update)
  qed (use ok Result in simp)
qed (simp_all add: entries_ok_update entries_ok_delete)

lemma replay_ok: "entries_ok (replay file)"
  unfolding replay_def
  by (rule fold_invariant [where P = entries_ok and Q = "\<lambda>_. True"])
    (simp_all add: entries_ok_apply [where P = "\<lambda>_. True"] entries_ok_def [of "[]"])

section \<open>Steps keep what is known\<close>

lemma known_update:
  "known A R es \<Longrightarrow> known (insert k A) (R(k := None)) (AList.update k v es)"
  unfolding known_def map_of_updated by auto

lemma known_more: "known A R es \<Longrightarrow> k \<notin> A \<Longrightarrow> known A R (AList.update k v es)"
  unfolding known_def map_of_updated by auto

lemma known_result:
  "known A R es \<Longrightarrow> map_of es k = Some e \<Longrightarrow> known A (R(k \<mapsto> r)) (AList.update k (e\<lparr>je_response := Some r\<rparr>) es)"
  unfolding known_def map_of_updated by auto

lemma known_less: "known A R es \<Longrightarrow> known A (R(k := None)) es"
  unfolding known_def by auto

lemma known_delete: "known A R es \<Longrightarrow> known (A - {k}) (R(k := None)) (AList.delete k es)"
  unfolding known_def map_of_deleted by auto

lemma known_drop: "known A R es \<Longrightarrow> known (A - {k}) (R(k := None)) es"
  unfolding known_def by auto

text \<open>What an append leaves when it does not stop within the line.\<close>

lemma append_cases:
  assumes "append_record w r j = (e, j')" "whole_write w" "list_all whole (jo_file j)"
  obtains "e = None" "jo_entries j' = jo_entries j" "jo_file j' = jo_file j @ [Line r]"
  | err where "e = Some err" "jo_entries j' = jo_entries j" "jo_file j' = jo_file j"
  | err where "e = Some err" "jo_entries j' = jo_entries j" "jo_file j' = jo_file j @ [Line r]"
  using assms by (cases w) (auto simp: append_record_def Let_def)

text \<open>A state of the journal, given what must be known of it.\<close>

definition state_ok :: "string set \<Rightarrow> (string \<rightharpoonup> 'r) \<Rightarrow> 'r journal \<Rightarrow> bool" where
  "state_ok A R j \<longleftrightarrow> list_all whole (jo_file j) \<and> entries_ok (jo_entries j)
     \<and> known A R (jo_entries j) \<and> known A R (replay (jo_file j))"

lemma compact_state_ok:
  assumes "state_ok A R j" "compact_journal c now j = (r, j')"
  shows "state_ok A R j'"
  using compact_frame [OF assms(2)] assms(1) compacted_replay [of "jo_entries j" now]
  by (auto simp: state_ok_def compacted_whole)

lemma begin_state_ok:
  assumes "state_ok A R j" "whole_write w" "begin_command w now c m t j = (r, j')"
    "k = createCommandIdempotencyKey c m"
  shows "state_ok (if r = Inr New then insert k A else A) (if r = Inr New then R(k := None) else R) j'"
proof (cases "lookup_command c m j")
  case (Some x)
  with assms(1,3) show ?thesis by (auto simp: begin_command_def lookup_command_def Let_def split: option.splits)
next
  case None
  then have no: "map_of (jo_entries j) k = None" using assms(4) by (auto simp: lookup_command_def split: option.splits)
  with assms(1) have k: "k \<notin> A" by (auto simp: state_ok_def known_def)
  let ?r = "\<lparr>rr_key = k, rr_clientId = c, rr_commandId = m, rr_commandType = t, rr_recordedAt = now\<rparr>"
  obtain e j1 where a: "append_record w (Received ?r) j = (e, j1)" by fastforce
  have fine: "list_all whole (jo_file j)" using assms(1) by (simp add: state_ok_def)
  from a assms(2) fine show ?thesis
  proof (cases rule: append_cases)
    case 1
    then have "r = Inr New" "j' = j1\<lparr>jo_entries := AList.update k \<lparr>je_received = ?r, je_response = None\<rparr> (jo_entries j)\<rparr>"
      using assms(3,4) None a by (simp_all add: begin_command_def Let_def)
    with 1 assms(1) fine show ?thesis
      by (simp add: state_ok_def replay_line known_update entries_ok_update)
  next
    case (2 err)
    with assms None a show ?thesis by (auto simp: begin_command_def Let_def state_ok_def)
  next
    case (3 err)
    then have "r = Inl err" "j' = j1" using assms(3,4) None a by (simp_all add: begin_command_def Let_def)
    with 3 assms(1) fine k show ?thesis by (simp add: state_ok_def replay_line known_more)
  qed
qed

lemma known_apply_result:
  assumes "known A R es"
  shows "known A (R(k \<mapsto> response)) (apply_record (Result k response now) es)"
    and "known A (R(k := None)) (apply_record (Result k response now) es)"
proof -
  have "known A (R(k := x)) (apply_record (Result k response now) es)" if "x = None \<or> x = Some response" for x
  proof (cases "map_of es k")
    case None
    with assms have "k \<notin> A" by (auto simp: known_def)
    with None assms show ?thesis by (auto simp: known_def)
  next
    case (Some e)
    with assms that show ?thesis by (auto simp: known_def map_of_updated)
  qed
  then show "known A (R(k \<mapsto> response)) (apply_record (Result k response now) es)"
    "known A (R(k := None)) (apply_record (Result k response now) es)" by blast+
qed

lemma result_state_ok:
  assumes ok: "state_ok A R j" and "whole_write w" "recordResult w z now c m response j = (r, j')"
    and k: "k = createCommandIdempotencyKey c m"
  shows "state_ok A (R(k := if r = None then Some response else None)) j'"
proof (cases "map_of (jo_entries j) k")
  case None
  with assms show ?thesis by (auto simp: recordResult_def Let_def state_ok_def known_less)
next
  case (Some e)
  obtain err j1 where a: "append_record w (Result k response now) j = (err, j1)" by fastforce
  have fine: "list_all whole (jo_file j)" "entries_ok (jo_entries j)" using ok by (simp_all add: state_ok_def)
  from a assms(2) fine(1) show ?thesis
  proof (cases rule: append_cases)
    case 1
    define j2 where "j2 = j1\<lparr>jo_entries := AList.update k (e\<lparr>je_response := Some response\<rparr>) (jo_entries j1)\<rparr>"
    have e: "rr_key (je_received e) = k" using fine(2) Some by (auto simp: entries_ok_def dest: map_of_SomeD)
    have j2: "state_ok A (R(k := x)) j2" if "x = None \<or> x = Some response" for x
      using that 1 ok fine e Some known_apply_result [of A R "replay (jo_file j)"] known_result [of A R "jo_entries j" k e response]
        known_less [of A R]
      by (auto simp: state_ok_def j2_def replay_line entries_ok_update known_def map_of_updated simp del: apply_record.simps)
    have "(if jo_recordCount j2 \<ge> COMPACT_AFTER_RECORDS then compact_journal z now j2 else (None, j2)) = (r, j')"
      using assms(3) k a 1(1) Some by (auto simp: recordResult_def Let_def j2_def split: if_splits)
    then show ?thesis using j2 compact_state_ok [of A _ j2 z now r j'] by (auto split: if_splits)
  next
    case (2 x)
    with assms a Some show ?thesis by (auto simp: recordResult_def Let_def state_ok_def known_less)
  next
    case (3 x)
    then have "r = Some x" "j' = j1" using assms(3) k a Some by (simp_all add: recordResult_def Let_def)
    with 3 ok fine known_apply_result(2) show ?thesis
      by (auto simp: state_ok_def replay_line known_less simp del: apply_record.simps)
  qed
qed

lemma acknowledge_state_ok:
  assumes ok: "state_ok A R j" and "whole_write w" "acknowledge w z now c m j = (r, j')"
    and k: "k = createCommandIdempotencyKey c m"
  shows "state_ok (A - {k}) (R(k := None)) j'"
proof (cases "map_of (jo_entries j) k")
  case None
  with assms show ?thesis by (auto simp: acknowledge_def Let_def state_ok_def known_drop)
next
  case (Some e)
  obtain err j1 where a: "append_record w (Acknowledged k now) j = (err, j1)" by fastforce
  have fine: "list_all whole (jo_file j)" "entries_ok (jo_entries j)" using ok by (simp_all add: state_ok_def)
  from a assms(2) fine(1) show ?thesis
  proof (cases rule: append_cases)
    case 1
    define j2 where "j2 = j1\<lparr>jo_entries := AList.delete k (jo_entries j1)\<rparr>"
    have j2: "state_ok (A - {k}) (R(k := None)) j2"
      using 1 ok fine by (simp add: state_ok_def j2_def replay_line entries_ok_delete known_delete)
    have "(if jo_entries j2 = [] \<or> jo_recordCount j2 \<ge> COMPACT_AFTER_RECORDS
        then compact_journal z now j2 else (None, j2)) = (r, j')"
      using assms(3) k a 1(1) Some by (auto simp: acknowledge_def Let_def j2_def split: if_splits)
    then show ?thesis using j2 compact_state_ok [of _ _ j2 z now r j'] by (auto split: if_splits)
  next
    case (2 x)
    with assms a Some show ?thesis by (auto simp: acknowledge_def Let_def state_ok_def known_drop)
  next
    case (3 x)
    then have "r = Some x" "j' = j1" using assms(3) k a Some by (simp_all add: acknowledge_def Let_def)
    with 3 ok fine show ?thesis by (simp add: state_ok_def replay_line known_drop known_delete)
  qed
qed

lemma journal_step_ok:
  assumes "journal_step u v" "state_ok (ru_admitted u) (ru_results u) (ru_journal u)"
  shows "state_ok (ru_admitted v) (ru_results v) (ru_journal v)"
  using assms(1)
proof (cases rule: journal_step.cases)
  case (begin_new w now c m t j k)
  with begin_state_ok [OF assms(2) begin_new(2,3) begin_new(4)] show ?thesis by simp
next
  case (begin_other w now c m t r j)
  with begin_state_ok [OF assms(2) begin_other(2,3) refl] show ?thesis by simp
next
  case (result w z now c m response r j k)
  with result_state_ok [OF assms(2) result(2,3,4)] show ?thesis by simp
next
  case (acknowledge w z now c m r j k)
  with acknowledge_state_ok [OF assms(2) acknowledge(2,3,4)] show ?thesis by simp
next
  case restart
  with assms(2) show ?thesis by (simp add: state_ok_def load_journal_def replay_ok)
qed

definition journal_start :: "'r journal_run" where
  "journal_start = \<lparr>ru_journal = load_journal [], ru_admitted = {}, ru_results = Map.empty\<rparr>"

lemma reachable_state_ok:
  "journal_step\<^sup>*\<^sup>* journal_start u \<Longrightarrow> state_ok (ru_admitted u) (ru_results u) (ru_journal u)"
proof (induction rule: rtranclp_induct)
  case base
  show ?case by (simp add: journal_start_def state_ok_def load_journal_def replay_def entries_ok_def known_def)
qed (rule journal_step_ok)

text \<open>
  C25. A command the journal admitted is never admitted again before it is acknowledged: in every
  reachable state, after failing writes, compactions and restarts, asking again writes nothing and
  answers pending or the recorded response, as long as no write stops within a line.
\<close>

theorem admitted_once:
  assumes "journal_step\<^sup>*\<^sup>* journal_start u" "k = createCommandIdempotencyKey c m" "k \<in> ru_admitted u"
    "ru_journal u = j \<or> load_journal (jo_file (ru_journal u)) = j"
  shows "\<exists>x. begin_command w now c m t j = (Inr x, j) \<and> x \<noteq> New
    \<and> (\<forall>response. ru_results u k = Some response \<longrightarrow> x = Complete response)"
proof -
  have "known (ru_admitted u) (ru_results u) (jo_entries j)"
    using reachable_state_ok [OF assms(1)] assms(4) by (auto simp: state_ok_def load_journal_def)
  then obtain e where e: "map_of (jo_entries j) k = Some e"
    "\<And>r. ru_results u k = Some r \<Longrightarrow> je_response e = Some r"
    using assms(3) by (auto simp: known_def)
  then show ?thesis using assms(2)
    by (auto simp: begin_command_def lookup_command_def Let_def split: option.splits)
qed

section \<open>Examples\<close>

lemma begin_steps:
  "whole_write w \<Longrightarrow> begin_command w now c m t (ru_journal u) = (Inr New, j) \<Longrightarrow>
   v = u\<lparr>ru_journal := j, ru_admitted := insert (createCommandIdempotencyKey c m) (ru_admitted u),
     ru_results := (ru_results u)(createCommandIdempotencyKey c m := None)\<rparr> \<Longrightarrow> journal_step u v"
  by (auto intro: journal_step.begin_new)

definition demo_key :: string where
  "demo_key = createCommandIdempotencyKey ''ui'' ''7''"

definition demo_received :: received_record where
  "demo_received = \<lparr>rr_key = demo_key, rr_clientId = ''ui'', rr_commandId = ''7'', rr_commandType = ''prompt'',
     rr_recordedAt = ''now''\<rparr>"

text \<open>A command admitted, answered, and known after a restart.\<close>

definition demo_run :: "nat journal_run" where
  "demo_run = \<lparr>ru_journal = \<lparr>jo_entries = [(demo_key, \<lparr>je_received = demo_received, je_response = Some 5\<rparr>)],
       jo_recordCount = 2, jo_file = [Line (Received demo_received), Line (Result demo_key 5 ''now'')]\<rparr>,
     ru_admitted = {demo_key}, ru_results = [demo_key \<mapsto> 5]\<rparr>"

lemmas journal_eval = begin_command_def recordResult_def lookup_command_def append_record_def load_journal_def
  replay_def journal_start_def COMPACT_AFTER_RECORDS_def Let_def

lemma demo_run_reachable: "journal_step\<^sup>*\<^sup>* journal_start demo_run"
proof -
  define j1 :: "nat journal" where "j1 = \<lparr>jo_entries = [(demo_key, \<lparr>je_received = demo_received, je_response = None\<rparr>)],
    jo_recordCount = 1, jo_file = [Line (Received demo_received)]\<rparr>"
  define u1 where "u1 = \<lparr>ru_journal = j1, ru_admitted = {demo_key}, ru_results = Map.empty\<rparr>"
  have "begin_command Written ''now'' ''ui'' ''7'' ''prompt'' (load_journal []) = (Inr New, j1)"
    by (simp add: journal_eval j1_def demo_received_def flip: demo_key_def)
  then have "journal_step journal_start u1"
    by (intro begin_steps [of Written "''now''" "''ui''" "''7''" "''prompt''" _ j1])
      (simp_all add: u1_def journal_start_def flip: demo_key_def)
  moreover have "recordResult Written Compacted ''now'' ''ui'' ''7'' 5 j1 = (None, ru_journal demo_run)"
    by (simp add: journal_eval j1_def demo_run_def flip: demo_key_def)
  then have "journal_step u1 (u1\<lparr>ru_journal := ru_journal demo_run,
      ru_results := (ru_results u1)(demo_key := if (None :: error option) = None then Some 5 else None)\<rparr>)"
    by (intro journal_step.result [of Written Compacted "''now''" "''ui''" "''7''"]) (simp_all add: u1_def demo_key_def)
  then have "journal_step u1 demo_run" by (simp add: u1_def demo_run_def)
  ultimately show ?thesis by (auto intro: converse_rtranclp_into_rtranclp)
qed

theorem admitted_once_witness:
  "begin_command Written ''later'' ''ui'' ''7'' ''prompt'' (load_journal (jo_file (ru_journal demo_run)))
    = (Inr (Complete 5), load_journal (jo_file (ru_journal demo_run)))"
proof -
  have "demo_key \<in> ru_admitted demo_run" "ru_results demo_run demo_key = Some 5" by (simp_all add: demo_run_def)
  with admitted_once [OF demo_run_reachable demo_key_def, of "load_journal (jo_file (ru_journal demo_run))"
      Written "''later''" "''prompt''"] show ?thesis by auto
qed

text \<open>
  After a write that stopped within a line, the next command is admitted and its record is
  written behind the torn text, so a restart does not know the command and admits it a second time.
\<close>

theorem torn_write_loses_next:
  "let j1 = snd (begin_command (TornWrite e) now1 c1 m1 t1 (load_journal []));
       (r2, j2) = begin_command Written now2 c2 m2 t2 (load_journal (jo_file j1));
       (r3, j3) = begin_command Written now3 c2 m2 t2 (load_journal (jo_file j2))
   in r2 = Inr New \<and> r3 = Inr New"
proof -
  have start: "begin_command w now c m t (load_journal f) =
      (case append_record w (Received \<lparr>rr_key = createCommandIdempotencyKey c m, rr_clientId = c, rr_commandId = m,
           rr_commandType = t, rr_recordedAt = now\<rparr>) (load_journal f) of
         (Some e, j) \<Rightarrow> (Inl e, j)
       | (None, j) \<Rightarrow> (Inr New, j\<lparr>jo_entries := AList.update (createCommandIdempotencyKey c m)
           \<lparr>je_received = \<lparr>rr_key = createCommandIdempotencyKey c m, rr_clientId = c, rr_commandId = m,
              rr_commandType = t, rr_recordedAt = now\<rparr>, je_response = None\<rparr> (jo_entries j)\<rparr>))"
    if "replay f = []" for w now c m t and f :: "'a piece list"
    using that by (simp add: begin_command_def lookup_command_def load_journal_def Let_def)
  have loaded: "jo_file (load_journal f) = f" for f :: "'a piece list" by (simp add: load_journal_def)
  have 0: "replay [] = []" and 1: "replay [Torn] = []" and 2: "replay [Torn, Line r] = []" for r :: "'a journal_record"
    by (simp_all add: replay_def)
  have "jo_file (snd (begin_command (TornWrite e) now1 c1 m1 t1 (load_journal [] :: 'a journal))) = [Torn]"
    by (simp add: start [OF 0] append_record_def loaded)
  moreover have "begin_command Written now2 c2 m2 t2 (load_journal [Torn] :: 'a journal) = (r2, j2) \<Longrightarrow>
      r2 = Inr New \<and> (\<exists>r. jo_file j2 = [Torn, Line r])" for r2 j2
    by (auto simp: start [OF 1] append_record_def loaded)
  moreover have "fst (begin_command Written now3 c2 m2 t2 (load_journal [Torn, Line r] :: 'a journal)) = Inr New" for r
    by (simp add: start [OF 2] append_record_def loaded)
  ultimately show ?thesis unfolding Let_def by (auto simp: split_beta) (metis prod.collapse)+
qed

end
