(* ===== verification/Utf8_Stream.thy ===== *)
theory Utf8_Stream
  imports Chunk_Decoder Utf
begin

text \<open>
  Reading UTF-8 that may be cut anywhere or damaged: the decoder behind \<open>TextDecoder\<close> and
  \<open>Buffer.toString("utf8")\<close> as the Encoding Standard defines it. A byte that does not continue the
  sequence it follows gives one U+FFFD for that sequence and is read again as a first byte. What it
  does is independent of the cuts, a line feed is always a line feed, and encoded text is read back.
\<close>

section \<open>The decoder\<close>

text \<open>The code point so far, the bytes still needed, and the bounds of the next one.\<close>

record utf8_state =
  us_cp :: nat
  us_needed :: nat
  us_lower :: nat
  us_upper :: nat

definition utf8_idle :: utf8_state where
  "utf8_idle = \<lparr>us_cp = 0, us_needed = 0, us_lower = 0x80, us_upper = 0xBF\<rparr>"

definition first_byte :: "nat \<Rightarrow> nat list \<times> utf8_state" where
  "first_byte n =
     (if n < 0x80 then ([n], utf8_idle)
      else if 0xC2 \<le> n \<and> n \<le> 0xDF then ([], utf8_idle\<lparr>us_needed := 1, us_cp := n - 0xC0\<rparr>)
      else if 0xE0 \<le> n \<and> n \<le> 0xEF then
        ([], \<lparr>us_cp = n - 0xE0, us_needed = 2, us_lower = (if n = 0xE0 then 0xA0 else 0x80),
              us_upper = (if n = 0xED then 0x9F else 0xBF)\<rparr>)
      else if 0xF0 \<le> n \<and> n \<le> 0xF4 then
        ([], \<lparr>us_cp = n - 0xF0, us_needed = 3, us_lower = (if n = 0xF0 then 0x90 else 0x80),
              us_upper = (if n = 0xF4 then 0x8F else 0xBF)\<rparr>)
      else ([0xFFFD], utf8_idle))"

definition utf8_byte :: "utf8_state \<Rightarrow> byte \<Rightarrow> nat list \<times> utf8_state" where
  "utf8_byte s b =
     (let n = unat b
      in if us_needed s = 0 then first_byte n
         else if n < us_lower s \<or> us_upper s < n then (let (cs, s') = first_byte n in (0xFFFD # cs, s'))
         else let cp = us_cp s * 64 + (n - 0x80)
              in if us_needed s = 1 then ([cp], utf8_idle)
                 else ([], utf8_idle\<lparr>us_cp := cp, us_needed := us_needed s - 1\<rparr>))"

fun utf8_bytes :: "utf8_state \<Rightarrow> byte list \<Rightarrow> nat list \<times> utf8_state" where
  "utf8_bytes s [] = ([], s)"
| "utf8_bytes s (b # bs) = (let (cs, s1) = utf8_byte s b; (ds, s2) = utf8_bytes s1 bs in (cs @ ds, s2))"

text \<open>The end of the input.\<close>

definition utf8_end :: "utf8_state \<Rightarrow> nat list" where
  "utf8_end s = (if us_needed s = 0 then [] else [0xFFFD])"

definition utf8_text :: "byte list \<Rightarrow> nat list" where
  "utf8_text bs = (let (cs, s) = utf8_bytes utf8_idle bs in cs @ utf8_end s)"

definition units :: "nat list \<Rightarrow> jsstring" where
  "units cs = concat (map cp_units cs)"

text \<open>\<open>Buffer.toString("utf8")\<close>.\<close>

definition toString :: "byte list \<Rightarrow> jsstring" where
  "toString bs = units (utf8_text bs)"

section \<open>Cuts do not matter\<close>

lemma utf8_bytes_append:
  "utf8_bytes s (a @ b) = (let (cs, s1) = utf8_bytes s a; (ds, s2) = utf8_bytes s1 b in (cs @ ds, s2))"
  by (induction a arbitrary: s) (auto split: prod.splits)

interpretation utf8_chunks: chunk_decoder "\<lambda>s bs. Inr (utf8_bytes s bs) :: unit + nat list \<times> utf8_state" "\<lambda>_. True"
  by standard (auto simp: utf8_bytes_append split: prod.splits)

lemma units_simps [simp]: "units [] = []" "units (c # cs) = cp_units c @ units cs" "units (cs @ ds) = units cs @ units ds"
  by (simp_all add: units_def)

lemma units_newline: "cp_units newline = [newline]"
  by (simp add: cp_units_def newline_def)

section \<open>Line feeds\<close>

lemma unat_newline: "unat (10 :: byte) = newline"
  by (simp add: newline_def)

text \<open>The bounds of a started sequence exclude the ASCII range, and what it ends in is beyond it.\<close>

definition utf8_ok :: "utf8_state \<Rightarrow> bool" where
  "utf8_ok s \<longleftrightarrow> 0x80 \<le> us_lower s \<and> (us_needed s = 0 \<longrightarrow> s = utf8_idle)
     \<and> (us_needed s = 1 \<longrightarrow> 2 \<le> us_cp s) \<and> (us_needed s = 2 \<longrightarrow> 1 \<le> us_cp s \<or> 0xA0 \<le> us_lower s)
     \<and> (us_needed s = 3 \<longrightarrow> 1 \<le> us_cp s \<or> 0x90 \<le> us_lower s) \<and> us_needed s \<le> 3"

lemma utf8_ok_idle [simp]: "utf8_ok utf8_idle"
  by (simp add: utf8_ok_def utf8_idle_def)

lemma first_byte_ok: "utf8_ok (snd (first_byte n))"
  by (auto simp: first_byte_def utf8_ok_def utf8_idle_def)

lemma utf8_byte_ok:
  assumes "utf8_ok s"
  shows "utf8_ok (snd (utf8_byte s b))"
proof -
  have cont: "utf8_ok (utf8_idle\<lparr>us_cp := us_cp s * 64 + (unat b - 0x80), us_needed := us_needed s - 1\<rparr>)"
    if "us_needed s \<noteq> 0" "us_needed s \<noteq> 1" "us_lower s \<le> unat b"
    using assms that by (auto simp: utf8_ok_def utf8_idle_def)
  show ?thesis
    using first_byte_ok [of "unat b"] cont by (auto simp: utf8_byte_def Let_def split: prod.splits)
qed

text \<open>Only the byte of a line feed gives a line feed.\<close>

lemma first_byte_newline: "newline \<in> set (fst (first_byte n)) \<Longrightarrow> n = newline"
  by (auto simp: first_byte_def newline_def split: if_splits)

lemma utf8_byte_newline:
  assumes "utf8_ok s" "newline \<in> set (fst (utf8_byte s b))"
  shows "unat b = newline"
  using assms first_byte_newline [of "unat b"]
  by (auto simp: utf8_byte_def utf8_ok_def Let_def split: if_splits prod.splits) (auto simp: newline_def)

lemma utf8_bytes_ok: "utf8_ok s \<Longrightarrow> utf8_ok (snd (utf8_bytes s bs))"
proof (induction bs arbitrary: s)
  case (Cons b bs)
  with utf8_byte_ok [of s b] show ?case by (auto split: prod.splits) (metis snd_conv)
qed simp

lemma utf8_bytes_newline:
  "utf8_ok s \<Longrightarrow> newline \<in> set (fst (utf8_bytes s bs)) \<Longrightarrow> 10 \<in> set bs"
proof (induction bs arbitrary: s)
  case (Cons b bs)
  obtain cs s1 where b: "utf8_byte s b = (cs, s1)" by force
  with Cons.prems(1) utf8_byte_ok [of s b] have "utf8_ok s1" by simp
  moreover have "b = 10" if "newline \<in> set cs"
    using utf8_byte_newline [OF Cons.prems(1), of b] that b by (simp add: newline_def unsigned_word_eqI)
  ultimately show ?case using Cons.IH [of s1] Cons.prems(2) b by (auto split: prod.splits)
qed simp

lemma utf8_byte_ascii:
  assumes "utf8_ok s" "unat b < 0x80"
  shows "utf8_byte s b = (utf8_end s @ [unat b], utf8_idle)"
  using assms by (auto simp: utf8_byte_def utf8_end_def first_byte_def utf8_ok_def Let_def)

lemma utf8_text_ascii:
  assumes "unat b < 0x80"
  shows "utf8_text (x @ b # y) = utf8_text x @ unat b # utf8_text y"
proof -
  obtain cs s where x: "utf8_bytes utf8_idle x = (cs, s)" by force
  with utf8_bytes_ok [of utf8_idle x] have "utf8_ok s" by simp
  with x assms show ?thesis
    by (simp add: utf8_text_def utf8_bytes_append utf8_byte_ascii Let_def split: prod.splits)
qed

text \<open>Splitting at line feeds before or after decoding is the same.\<close>

lemma toString_newline: "toString (x @ 10 # y) = toString x @ newline # toString y"
  by (simp add: toString_def utf8_text_ascii unat_newline units_newline) (simp add: newline_def cp_units_def)

lemma cp_units_newline: "newline \<in> set (cp_units c) \<Longrightarrow> c = newline"
  by (auto simp: cp_units_def newline_def split: if_splits)

lemma units_newline_iff: "newline \<in> set (units cs) \<longleftrightarrow> newline \<in> set cs"
  by (auto simp: units_def dest: cp_units_newline) (auto intro!: bexI simp: units_newline)

lemma toString_no_newline:
  assumes "10 \<notin> set bs"
  shows "newline \<notin> set (toString bs)"
proof -
  have "newline \<notin> set (fst (utf8_bytes utf8_idle bs))" using assms utf8_bytes_newline [OF utf8_ok_idle] by blast
  moreover have "newline \<notin> set (utf8_end s)" for s by (simp add: utf8_end_def newline_def)
  ultimately show ?thesis
    by (cases "utf8_bytes utf8_idle bs") (simp add: toString_def units_newline_iff utf8_text_def)
qed

lemma toString_Nil [simp]: "toString [] = []"
  by (simp add: toString_def utf8_text_def utf8_end_def utf8_idle_def)

section \<open>Encoded text is read back\<close>

lemma div_mod_64: "64 * (c div 64) + c mod 64 = (c :: nat)"
  by simp

lemma unat_lead:
  "c < 0x800 \<Longrightarrow> unat (word_of_nat (0xC0 + c div 64) :: byte) = 0xC0 + c div 64"
  "c < 0x10000 \<Longrightarrow> unat (word_of_nat (0xE0 + c div 4096) :: byte) = 0xE0 + c div 4096"
  "c < 0x110000 \<Longrightarrow> unat (word_of_nat (0xF0 + c div 262144) :: byte) = 0xF0 + c div 262144"
  by (rule unat_byte, simp)+

lemma utf8_continue:
  assumes "us_needed s \<noteq> 0" "us_lower s \<le> 0x80 + n mod 64" "0x80 + n mod 64 \<le> us_upper s"
  shows "utf8_byte s (cont n) =
    (if us_needed s = 1 then ([us_cp s * 64 + n mod 64], utf8_idle)
     else ([], utf8_idle\<lparr>us_cp := us_cp s * 64 + n mod 64, us_needed := us_needed s - 1\<rparr>))"
  using assms by (simp add: utf8_byte_def unat_cont Let_def)

lemma first_byte_3:
  "k < 16 \<Longrightarrow> first_byte (0xE0 + k) =
    ([], \<lparr>us_cp = k, us_needed = 2, us_lower = (if k = 0 then 0xA0 else 0x80), us_upper = (if k = 13 then 0x9F else 0xBF)\<rparr>)"
  by (auto simp: first_byte_def)

lemma first_byte_4:
  "k < 5 \<Longrightarrow> first_byte (0xF0 + k) =
    ([], \<lparr>us_cp = k, us_needed = 3, us_lower = (if k = 0 then 0x90 else 0x80), us_upper = (if k = 4 then 0x8F else 0xBF)\<rparr>)"
  by (auto simp: first_byte_def)

lemma utf8_byte_idle: "utf8_byte utf8_idle b = first_byte (unat b)"
  by (simp add: utf8_byte_def utf8_idle_def)

lemma utf8_bytes_char:
  assumes "scalar c"
  shows "utf8_bytes utf8_idle (encode_cp c) = ([c], utf8_idle)"
proof -
  have range: "c < 0x110000" "c < 0xD800 \<or> 0xE000 \<le> c" using assms by (auto simp: scalar_def is_high_def is_low_def)
  consider "c < 0x80" | "0x80 \<le> c" "c < 0x800" | "0x800 \<le> c" "c < 0x10000" | "0x10000 \<le> c"
    by linarith
  then show ?thesis
  proof cases
    case 1
    then show ?thesis by (simp add: encode_cp_def utf8_byte_def unat_byte first_byte_def utf8_idle_def)
  next
    case 2
    then have "2 \<le> c div 64" "c div 64 < 32" by simp_all
    with 2 have "utf8_byte utf8_idle (word_of_nat (0xC0 + c div 64)) = ([], utf8_idle\<lparr>us_needed := 1, us_cp := c div 64\<rparr>)"
      by (simp add: utf8_byte_def unat_lead first_byte_def utf8_idle_def Let_def del: of_nat_add)
    with 2 show ?thesis
      by (simp add: encode_cp_def utf8_continue utf8_idle_def del: of_nat_add)
  next
    case 3
    have lead: "utf8_byte utf8_idle (word_of_nat (0xE0 + c div 4096)) =
      ([], \<lparr>us_cp = c div 4096, us_needed = 2, us_lower = (if c div 4096 = 0 then 0xA0 else 0x80),
            us_upper = (if c div 4096 = 13 then 0x9F else 0xBF)\<rparr>)"
      using first_byte_3 [of "c div 4096"] 3 by (simp add: utf8_byte_idle unat_lead del: of_nat_add)
    have low: "32 \<le> c div 64 mod 64" if "c div 4096 = 0"
    proof -
      from that have "c < 4096" by (simp add: div_eq_0_iff)
      with 3 have "32 \<le> c div 64" "c div 64 < 64" by linarith+
      then show ?thesis by simp
    qed
    have high: "c div 64 mod 64 \<le> 31" if "c div 4096 = 13"
    proof -
      from that have b: "13 * 4096 \<le> c" "c < 14 * 4096" by linarith+
      with range(2) have "c < 0xD800" by linarith
      with b have "832 \<le> c div 64" "c div 64 < 864" by linarith+
      then obtain j where "c div 64 = 832 + j" "j < 32" by (auto simp: nat_le_iff_add)
      then have "c div 64 mod 64 = (13 * 64 + j) mod 64" by simp
      with \<open>j < 32\<close> show ?thesis by (simp only: mod_mult_self3)
    qed
    have *: "(c div 4096 * 64 + c div 64 mod 64) * 64 + c mod 64 = c"
      unfolding div_64_64 by (simp only: split_64)
    show ?thesis
      using 3 lead low high * by (simp add: encode_cp_def utf8_continue utf8_idle_def del: of_nat_add)
  next
    case 4
    have lead: "utf8_byte utf8_idle (word_of_nat (0xF0 + c div 262144)) =
      ([], \<lparr>us_cp = c div 262144, us_needed = 3, us_lower = (if c div 262144 = 0 then 0x90 else 0x80),
            us_upper = (if c div 262144 = 4 then 0x8F else 0xBF)\<rparr>)"
      using first_byte_4 [of "c div 262144"] range(1) by (simp add: utf8_byte_idle unat_lead del: of_nat_add)
    have low: "16 \<le> c div 4096 mod 64" if "c div 262144 = 0"
    proof -
      from that have "c < 262144" by (simp add: div_eq_0_iff)
      with 4 have "16 \<le> c div 4096" "c div 4096 < 64" by linarith+
      then show ?thesis by simp
    qed
    have high: "c div 4096 mod 64 \<le> 15" if "c div 262144 = 4"
    proof -
      from that have "4 * 262144 \<le> c" by linarith
      with range(1) have "256 \<le> c div 4096" "c div 4096 < 272" by linarith+
      then have "c div 4096 mod 64 = c div 4096 - 256" by (simp add: mod_if)
      with \<open>c div 4096 < 272\<close> show ?thesis by linarith
    qed
    have *: "((c div 262144 * 64 + c div 4096 mod 64) * 64 + c div 64 mod 64) * 64 + c mod 64 = c"
      unfolding div_64_64 by (simp only: split_64)
    show ?thesis
      using 4 lead low high * by (simp add: encode_cp_def utf8_continue utf8_idle_def del: of_nat_add)
  qed
qed

lemma utf8_bytes_enc:
  "\<forall>c\<in>set cs. scalar c \<Longrightarrow> utf8_bytes utf8_idle (enc cs) = (cs, utf8_idle)"
  by (induction cs) (simp_all add: utf8_bytes_append utf8_bytes_char)

lemma utf8_text_enc: "\<forall>c\<in>set cs. scalar c \<Longrightarrow> utf8_text (enc cs) = cs"
  by (simp add: utf8_text_def utf8_bytes_enc) (simp add: utf8_end_def utf8_idle_def)

text \<open>A string without lone surrogates survives encoding and decoding.\<close>

lemma toString_utf8:
  assumes "units_ok s" "well_formed s"
  shows "toString (utf8 s) = s"
  using assms by (simp add: toString_def units_def utf8_enc utf8_text_enc code_points_scalar units_of_well_formed)

end
