(* ===== verification/Event_Log.thy ===== *)
theory Event_Log
  imports Utf8_Stream
begin

text \<open>
  The append-only event log (\<open>core/event-log.ts\<close>). A file is its bytes. Operations are given what the
  outside does: the file operations that fail, how much of a write arrives, and what other processes do
  to the file between the steps of a repair. Serialisation and the parser of the consumer are
  parameters.
\<close>

section \<open>Reading\<close>

record log_options =
  lo_maxBytes :: "nat option"
  lo_maxRecords :: "nat option"

datatype log_error =
    ExceedsBytes nat
  | ExceedsRecords nat
  | NotSerializable
  | ParseFailed error
  | IoFailed error

text \<open>The file when its size is taken, and when it is read.\<close>

definition readAllSync :: "nat option \<Rightarrow> byte list \<Rightarrow> byte list \<Rightarrow> log_error + byte list" where
  "readAllSync maxBytes statted contents =
     (if \<exists>m. maxBytes = Some m \<and> length statted > m then Inl (ExceedsBytes (length statted))
      else Inr (take (length statted) contents))"

text \<open>A parser rejects a line, skips it, or gives a record.\<close>

type_synonym 'r line_parser = "nat \<Rightarrow> jsstring \<Rightarrow> error + 'r option"

text \<open>The loop over the lines from \<open>index\<close> on.\<close>

fun replay_lines :: "log_options \<Rightarrow> 'r line_parser \<Rightarrow> bool \<Rightarrow> nat \<Rightarrow> nat \<Rightarrow> jsstring list \<Rightarrow> log_error + 'r list" where
  "replay_lines opts parse endsWithNewline index recordCount [] = Inr []"
| "replay_lines opts parse endsWithNewline index recordCount (raw # rawLines) =
     (let line = js_trim raw
      in if line = [] then replay_lines opts parse endsWithNewline (Suc index) recordCount rawLines
         else if \<exists>m. lo_maxRecords opts = Some m \<and> recordCount + 1 > m then Inl (ExceedsRecords (the (lo_maxRecords opts)))
         else case parse index line of
             Inl e \<Rightarrow>
               if rawLines = [] \<and> \<not> endsWithNewline
               then replay_lines opts parse endsWithNewline (Suc index) (recordCount + 1) rawLines
               else Inl (ParseFailed e)
           | Inr event \<Rightarrow>
               (case replay_lines opts parse endsWithNewline (Suc index) (recordCount + 1) rawLines of
                  Inl e \<Rightarrow> Inl e
                | Inr events \<Rightarrow> Inr ((case event of Some r \<Rightarrow> [r] | None \<Rightarrow> []) @ events)))"

text \<open>Opening fails with \<open>ENOENT\<close>, fails otherwise, or gives a file.\<close>

datatype opened = Absent | OpenFailed error | Opened "byte list" "byte list"

definition ends_with_newline :: "jsstring \<Rightarrow> bool" where
  "ends_with_newline s \<longleftrightarrow> s \<noteq> [] \<and> last s = newline"

fun replaySync :: "log_options \<Rightarrow> 'r line_parser \<Rightarrow> opened \<Rightarrow> log_error + 'r list" where
  "replaySync opts parse Absent = Inr []"
| "replaySync opts parse (OpenFailed e) = Inl (IoFailed e)"
| "replaySync opts parse (Opened statted contents) =
     (case readAllSync (lo_maxBytes opts) statted contents of
        Inl e \<Rightarrow> Inl e
      | Inr bytes \<Rightarrow>
          let text = toString bytes
          in replay_lines opts parse (ends_with_newline text) 0 0 (split_on newline text))"

section \<open>Appending\<close>

datatype log_call = Mkdir | Stat | OpenRepair | ReadRepair | Truncate | OpenAppend | Write | Fsync | Close

text \<open>
  \<open>le_between\<close>, \<open>le_settle\<close> and \<open>le_late\<close> are what others do to the file after the first read of a
  repair, after the second, and after the check of the size; \<open>le_written\<close> is how many of the bytes
  of a write arrive.
\<close>

record log_env =
  le_error :: "log_call \<Rightarrow> error option"
  le_between :: "byte list \<Rightarrow> byte list"
  le_settle :: "byte list \<Rightarrow> byte list"
  le_late :: "byte list \<Rightarrow> byte list"
  le_written :: "nat \<Rightarrow> nat"

text \<open>The text of an event, \<open>None\<close> when \<open>JSON.stringify\<close> gives no string or throws.\<close>

type_synonym 'e serializer = "'e \<Rightarrow> jsstring option"

definition serializeLine :: "'e serializer \<Rightarrow> 'e \<Rightarrow> jsstring option" where
  "serializeLine stringify event = map_option (\<lambda>s. s @ [newline]) (stringify event)"

fun serialize_all :: "'e serializer \<Rightarrow> 'e list \<Rightarrow> jsstring list option" where
  "serialize_all stringify [] = Some []"
| "serialize_all stringify (e # es) =
     (case serializeLine stringify e of
        None \<Rightarrow> None
      | Some l \<Rightarrow> (case serialize_all stringify es of None \<Rightarrow> None | Some ls \<Rightarrow> Some (l # ls)))"

text \<open>The bytes up to the last line feed, and those behind it.\<close>

definition whole_lines :: "byte list \<Rightarrow> byte list" where
  "whole_lines bs = rev (dropWhile (\<lambda>b. b \<noteq> 10) (rev bs))"

definition ftruncate :: "nat \<Rightarrow> byte list \<Rightarrow> byte list" where
  "ftruncate n bs = take n bs @ replicate (n - length bs) 0"

definition repairTailSync :: "log_options \<Rightarrow> log_env \<Rightarrow> byte list \<Rightarrow> log_error option \<times> byte list" where
  "repairTailSync opts E f =
     (if le_error E Stat \<noteq> None then (None, f)
      else if f = [] then (None, f)
      else if \<exists>m. lo_maxBytes opts = Some m \<and> length f > m then (Some (ExceedsBytes (length f)), f)
      else if le_error E OpenRepair \<noteq> None \<or> le_error E ReadRepair \<noteq> None then (None, f)
      else if last f = 10 then (None, f)
      else let f1 = le_between E f
           in case readAllSync (lo_maxBytes opts) f1 f1 of
               Inl _ \<Rightarrow> (None, f1)
             | Inr second \<Rightarrow>
                 if second \<noteq> f then (None, f1)
                 else let f2 = le_settle E f1
                      in if length f2 \<noteq> length f then (None, f2)
                         else let f3 = le_late E f2
                              in if le_error E Truncate \<noteq> None then (None, f3)
                                 else (None, ftruncate (length (whole_lines f)) f3))"

text \<open>The error of the write, of \<open>fsync\<close>, or of closing, in whichever order they replace each other.\<close>

definition write_failure :: "log_env \<Rightarrow> bool \<Rightarrow> log_error option" where
  "write_failure E durable =
     map_option IoFailed
       (case le_error E Close of
          Some e \<Rightarrow> Some e
        | None \<Rightarrow> (case le_error E Write of Some e \<Rightarrow> Some e | None \<Rightarrow> if durable then le_error E Fsync else None))"

definition appendSync ::
  "log_options \<Rightarrow> log_env \<Rightarrow> 'e serializer \<Rightarrow> 'e list \<Rightarrow> bool \<Rightarrow> 'e list \<Rightarrow> byte list option
     \<Rightarrow> log_error option \<times> byte list option" where
  "appendSync opts E stringify events durable onCreate file =
     (case serialize_all stringify events of
        None \<Rightarrow> (Some NotSerializable, file)
      | Some lines \<Rightarrow>
          (case le_error E Mkdir of
             Some e \<Rightarrow> (Some (IoFailed e), file)
           | None \<Rightarrow>
               (case (case file of
                        Some f \<Rightarrow> (case repairTailSync opts E f of (e, f') \<Rightarrow> (e, Some f', Some []))
                      | None \<Rightarrow> (None, None, serialize_all stringify onCreate)) of
                  (Some e, file1, _) \<Rightarrow> (Some e, file1)
                | (None, file1, None) \<Rightarrow> (Some NotSerializable, file1)
                | (None, file1, Some leadLines) \<Rightarrow>
                    (case le_error E OpenAppend of
                       Some e \<Rightarrow> (Some (IoFailed e), file1)
                     | None \<Rightarrow>
                         let payload = utf8 (concat (leadLines @ lines));
                             f2 = (case file1 of Some f \<Rightarrow> f | None \<Rightarrow> [])
                         in (write_failure E durable, Some (f2 @ take (le_written E (length payload)) payload))))))"

end
