(* ===== verification/Rlm_Ledger.thy ===== *)
theory Rlm_Ledger
  imports Event_Log Session_Lease Json
begin

text \<open>
  The spawn ledger (\<open>modes/daemon/rlm-ledger.ts\<close>): which session spawned which, at what depth and under
  what name, in an event log that supervisor and workers append to. The family of a sessions directory
  is read back from it. Paths and their canonical forms are those of the session leases; file status,
  directory listings, session infos and JSON texts are parameters.
\<close>

section \<open>Records\<close>

definition RLM_LEDGER_MAX_BYTES :: nat where
  "RLM_LEDGER_MAX_BYTES = 32 * 1024 * 1024"

definition RLM_LEDGER_MAX_RECORDS :: nat where
  "RLM_LEDGER_MAX_RECORDS = 100000"

definition ledger_options :: log_options where
  "ledger_options = \<lparr>lo_maxBytes = Some RLM_LEDGER_MAX_BYTES, lo_maxRecords = Some RLM_LEDGER_MAX_RECORDS\<rparr>"

datatype delete_reason = ByUser | ParentTeardown | Revoked | Gc

fun reason_text :: "delete_reason \<Rightarrow> string" where
  "reason_text ByUser = ''user''"
| "reason_text ParentTeardown = ''parent-teardown''"
| "reason_text Revoked = ''revoked''"
| "reason_text Gc = ''gc''"

definition isDeleteReason :: "string \<Rightarrow> delete_reason option" where
  "isDeleteReason s =
     (if s = ''user'' then Some ByUser
      else if s = ''parent-teardown'' then Some ParentTeardown
      else if s = ''revoked'' then Some Revoked
      else if s = ''gc'' then Some Gc
      else None)"

record spawn_record =
  sp_childId :: string
  sp_parent :: string
  sp_child :: string
  sp_depth :: nat
  sp_name :: string

text \<open>Every record also has its version, 1, and the time it was written.\<close>

datatype ledger_record =
    MetaRecord string
  | SpawnRecord spawn_record
  | RenameRecord string string string
  | DeleteRecord string string delete_reason

record ledger_host =
  lg_paths :: lease_host
  lg_parse :: "jsstring \<Rightarrow> json option"
  lg_print :: "json \<Rightarrow> jsstring option"
  lg_now :: string
  lg_sessionsDir :: string

fun record_json :: "string \<Rightarrow> ledger_record \<Rightarrow> json" where
  "record_json now (MetaRecord dir) =
     JObject [(''v'', JNumber ''1''), (''op'', JString ''meta''), (''at'', JString now), (''sessionsDir'', JString dir)]"
| "record_json now (SpawnRecord r) =
     JObject [(''v'', JNumber ''1''), (''op'', JString ''spawn''), (''at'', JString now),
       (''childId'', JString (sp_childId r)), (''parent'', JString (sp_parent r)), (''child'', JString (sp_child r)),
       (''depth'', JNumber (dec (sp_depth r))), (''name'', JString (sp_name r))]"
| "record_json now (RenameRecord childId child name) =
     JObject [(''v'', JNumber ''1''), (''op'', JString ''rename''), (''at'', JString now),
       (''childId'', JString childId), (''child'', JString child), (''name'', JString name)]"
| "record_json now (DeleteRecord childId child reason) =
     JObject [(''v'', JNumber ''1''), (''op'', JString ''delete''), (''at'', JString now),
       (''childId'', JString childId), (''child'', JString child), (''reason'', JString (reason_text reason))]"

definition string_field :: "json \<Rightarrow> string \<Rightarrow> string option" where
  "string_field j k = (case json_get j k of Some (JString s) \<Rightarrow> Some s | _ \<Rightarrow> None)"

text \<open>The number a decimal text stands for; a text of another form is no safe non-negative integer.\<close>

definition parse_dec :: "string \<Rightarrow> nat option" where
  "parse_dec s =
     (if s \<noteq> [] \<and> list_all (\<lambda>c. 48 \<le> (of_char c :: nat) \<and> of_char c < (58 :: nat)) s
      then Some (foldl (\<lambda>n c. n * 10 + (of_char c - 48)) 0 s) else None)"

definition safe_depth :: "json \<Rightarrow> nat option" where
  "safe_depth j =
     (case json_get j ''depth'' of
        Some (JNumber s) \<Rightarrow>
          (case parse_dec s of
             Some n \<Rightarrow> if 1 \<le> n \<and> n \<le> 2 ^ 53 - 1 then Some n else None
           | None \<Rightarrow> None)
      | _ \<Rightarrow> None)"

definition malformed :: "nat \<Rightarrow> string \<Rightarrow> error" where
  "malformed index what = Error (''Malformed RLM ledger line '' @ dec (index + 1) @ '': '' @ what)"

definition read_record :: "nat \<Rightarrow> json \<Rightarrow> error + ledger_record option" where
  "read_record index j =
     (if json_get j ''v'' \<noteq> Some (JNumber ''1'') \<or> string_field j ''at'' = None
      then Inl (malformed index ''missing v/at'')
      else if json_get j ''op'' = Some (JString ''meta'') then
        (case string_field j ''sessionsDir'' of
           None \<Rightarrow> Inl (malformed index ''meta without sessionsDir'')
         | Some dir \<Rightarrow> Inr (Some (MetaRecord dir)))
      else if json_get j ''op'' = Some (JString ''spawn'') then
        (case (string_field j ''childId'', string_field j ''parent'', string_field j ''child'', string_field j ''name'',
               safe_depth j) of
           (Some childId, Some parent, Some child, Some name, Some depth) \<Rightarrow>
             Inr (Some (SpawnRecord \<lparr>sp_childId = childId, sp_parent = parent, sp_child = child, sp_depth = depth,
                                     sp_name = name\<rparr>))
         | _ \<Rightarrow> Inl (malformed index ''invalid spawn record''))
      else if json_get j ''op'' = Some (JString ''rename'') then
        (case (string_field j ''childId'', string_field j ''child'', string_field j ''name'') of
           (Some childId, Some child, Some name) \<Rightarrow> Inr (Some (RenameRecord childId child name))
         | _ \<Rightarrow> Inl (malformed index ''invalid rename record''))
      else if json_get j ''op'' = Some (JString ''delete'') then
        (case (string_field j ''childId'', string_field j ''child'',
               Option.bind (string_field j ''reason'') isDeleteReason) of
           (Some childId, Some child, Some reason) \<Rightarrow> Inr (Some (DeleteRecord childId child reason))
         | _ \<Rightarrow> Inl (malformed index ''invalid delete record''))
      else Inr None)"

definition parseLedgerLine :: "ledger_host \<Rightarrow> ledger_record line_parser" where
  "parseLedgerLine L index line =
     (case lg_parse L line of
        None \<Rightarrow> Inl (malformed index ''invalid JSON'')
      | Some j \<Rightarrow> read_record index j)"

definition ledger_text :: "ledger_host \<Rightarrow> ledger_record serializer" where
  "ledger_text L r = lg_print L (record_json (lg_now L) r)"

section \<open>Edges\<close>

record ledger_edge =
  ed_childId :: string
  ed_parent :: string
  ed_child :: string
  ed_depth :: nat
  ed_name :: string
  ed_deleted :: "delete_reason option"

abbreviation canonical :: "ledger_host \<Rightarrow> string \<Rightarrow> string" where
  "canonical L \<equiv> canonicalSessionPath (lg_paths L)"

definition edgeKey :: "ledger_host \<Rightarrow> string \<Rightarrow> string \<Rightarrow> string" where
  "edgeKey L childId child = childId @ [char_of (0 :: nat)] @ canonical L child"

text \<open>The map of edges, in the order of their first spawn.\<close>

type_synonym edge_map = "(string \<times> ledger_edge) list"

definition map_edge :: "string \<Rightarrow> (ledger_edge \<Rightarrow> ledger_edge) \<Rightarrow> edge_map \<Rightarrow> edge_map" where
  "map_edge key f es = (case map_of es key of None \<Rightarrow> es | Some e \<Rightarrow> AList.update key (f e) es)"

fun apply_ledger_record :: "ledger_host \<Rightarrow> ledger_record \<Rightarrow> edge_map \<Rightarrow> edge_map" where
  "apply_ledger_record L (MetaRecord dir) es = es"
| "apply_ledger_record L (SpawnRecord r) es =
     AList.update (edgeKey L (sp_childId r) (sp_child r))
       \<lparr>ed_childId = sp_childId r, ed_parent = sp_parent r, ed_child = sp_child r, ed_depth = sp_depth r,
        ed_name = sp_name r, ed_deleted = None\<rparr> es"
| "apply_ledger_record L (RenameRecord childId child name) es =
     map_edge (edgeKey L childId child) (ed_name_update (\<lambda>_. name)) es"
| "apply_ledger_record L (DeleteRecord childId child reason) es =
     map_edge (edgeKey L childId child) (ed_deleted_update (\<lambda>_. Some reason)) es"

definition edges_of :: "ledger_host \<Rightarrow> ledger_record list \<Rightarrow> edge_map" where
  "edges_of L records = fold (apply_ledger_record L) records []"

text \<open>\<open>replaySync\<close> of the ledger.\<close>

definition replay_edges :: "ledger_host \<Rightarrow> opened \<Rightarrow> log_error + edge_map" where
  "replay_edges L source =
     (case replaySync ledger_options (parseLedgerLine L) source of
        Inl e \<Rightarrow> Inl e
      | Inr records \<Rightarrow> Inr (edges_of L records))"

definition edge_list :: "edge_map \<Rightarrow> ledger_edge list" where
  "edge_list es = map snd es"

definition live_edges :: "edge_map \<Rightarrow> ledger_edge list" where
  "live_edges es = filter (\<lambda>e. ed_deleted e = None) (edge_list es)"

section \<open>Operations on the log\<close>

text \<open>
  An operation is given what it reads of the log and what happens to each of its appends; the log is
  then the file after them.
\<close>

datatype ledger_error =
    LogError log_error
  | InvalidSpawn string nat
  | DuplicateChild string string

type_synonym disk = "byte list option"

definition open_log :: "disk \<Rightarrow> opened" where
  "open_log d = (case d of None \<Rightarrow> Absent | Some f \<Rightarrow> Opened f f)"

definition appendRecord :: "ledger_host \<Rightarrow> log_env \<Rightarrow> ledger_record \<Rightarrow> disk \<Rightarrow> ledger_error option \<times> disk" where
  "appendRecord L E r d =
     (case appendSync ledger_options E (ledger_text L) [r] True [MetaRecord (lg_sessionsDir L)] d of
        (e, d') \<Rightarrow> (map_option LogError e, d'))"

fun find_duplicate :: "ledger_host \<Rightarrow> string \<Rightarrow> string \<Rightarrow> ledger_edge list \<Rightarrow> ledger_edge option" where
  "find_duplicate L childId childPath [] = None"
| "find_duplicate L childId childPath (e # es) =
     (if canonical L (ed_child e) = childPath \<and> ed_childId e \<noteq> childId then Some e
      else find_duplicate L childId childPath es)"

definition appendSpawnUnlocked :: "ledger_host \<Rightarrow> log_env \<Rightarrow> spawn_record \<Rightarrow> disk \<Rightarrow> ledger_error option \<times> disk" where
  "appendSpawnUnlocked L E r d =
     (if sp_childId r = [] \<or> sp_parent r = [] \<or> sp_child r = [] \<or> \<not> (1 \<le> sp_depth r \<and> sp_depth r \<le> 2 ^ 53 - 1)
      then (Some (InvalidSpawn (if sp_childId r = [] then ''<missing childId>'' else sp_childId r) (sp_depth r)), d)
      else let childPath = canonical L (sp_child r)
           in case replay_edges L (open_log d) of
               Inl e \<Rightarrow> (Some (LogError e), d)
             | Inr es \<Rightarrow>
                 (case find_duplicate L (sp_childId r) childPath (live_edges es) of
                    Some e \<Rightarrow> (Some (DuplicateChild childPath (ed_childId e)), d)
                  | None \<Rightarrow>
                      appendRecord L E (SpawnRecord (r\<lparr>sp_parent := canonical L (sp_parent r), sp_child := childPath\<rparr>)) d))"

definition appendRename :: "ledger_host \<Rightarrow> log_env \<Rightarrow> string \<Rightarrow> string \<Rightarrow> string \<Rightarrow> disk \<Rightarrow> ledger_error option \<times> disk" where
  "appendRename L E childId child name d = appendRecord L E (RenameRecord childId (canonical L child) name) d"

definition appendDelete ::
  "ledger_host \<Rightarrow> log_env \<Rightarrow> string \<Rightarrow> string \<Rightarrow> delete_reason \<Rightarrow> disk \<Rightarrow> ledger_error option \<times> disk" where
  "appendDelete L E childId child reason d = appendRecord L E (DeleteRecord childId (canonical L child) reason) d"

text \<open>One append after the other, until one throws; each has its own environment.\<close>

fun append_each :: "ledger_host \<Rightarrow> (nat \<Rightarrow> log_env) \<Rightarrow> nat \<Rightarrow> ledger_record list \<Rightarrow> disk \<Rightarrow> ledger_error option \<times> disk" where
  "append_each L E k [] d = (None, d)"
| "append_each L E k (r # rs) d =
     (case appendRecord L (E k) r d of
        (Some e, d') \<Rightarrow> (Some e, d')
      | (None, d') \<Rightarrow> append_each L E (Suc k) rs d')"

definition appendRenameByChildPath ::
  "ledger_host \<Rightarrow> (nat \<Rightarrow> log_env) \<Rightarrow> string \<Rightarrow> string \<Rightarrow> disk \<Rightarrow> ledger_error option \<times> disk" where
  "appendRenameByChildPath L E child name d =
     (let target = canonical L child
      in case replay_edges L (open_log d) of
          Inl e \<Rightarrow> (Some (LogError e), d)
        | Inr es \<Rightarrow>
            append_each L E 0
              (map (\<lambda>e. RenameRecord (ed_childId e) target name)
                 (filter (\<lambda>e. canonical L (ed_child e) = target) (live_edges es))) d)"

text \<open>\<open>edges\<close>, with the tombstones or without.\<close>

definition ledger_edges :: "ledger_host \<Rightarrow> bool \<Rightarrow> disk \<Rightarrow> log_error + ledger_edge list" where
  "ledger_edges L includeDeleted d =
     (case replay_edges L (open_log d) of
        Inl e \<Rightarrow> Inl e
      | Inr es \<Rightarrow> Inr (filter (\<lambda>e. includeDeleted \<or> ed_deleted e = None) (edge_list es)))"

section \<open>Families\<close>

text \<open>What an operation sees outside the log: files, the listing of the sessions directory, session infos.\<close>

record session_view =
  sv_parentSessionPath :: "string option"
  sv_rlmDepth :: "nat option"
  sv_name :: "string option"
  sv_cwd :: string

record ledger_world =
  lw_isFile :: "string \<Rightarrow> bool"
  lw_readdir :: "string list option"
  lw_info :: "string \<Rightarrow> session_view option"

record session_row =
  row_path :: string
  row_depth :: nat
  row_parent :: "string option"
  row_name :: "string option"
  row_cwd :: string

text \<open>Topology comes from the ledger alone; what the info says of parent and depth is left out.\<close>

definition sessionRow :: "ledger_world \<Rightarrow> string \<Rightarrow> nat \<Rightarrow> string option \<Rightarrow> string option \<Rightarrow> session_row" where
  "sessionRow W path depth parentPath name =
     (let parent = (if truthy parentPath then parentPath else None); given = (if truthy name then name else None)
      in case lw_info W path of
          Some info \<Rightarrow>
            \<lparr>row_path = path, row_depth = depth, row_parent = parent,
             row_name = (if given \<noteq> None then given else sv_name info), row_cwd = sv_cwd info\<rparr>
        | None \<Rightarrow> \<lparr>row_path = path, row_depth = depth, row_parent = parent, row_name = given, row_cwd = ''''\<rparr>)"

definition liveEdgesUnlocked :: "ledger_host \<Rightarrow> ledger_world \<Rightarrow> ledger_edge list \<Rightarrow> ledger_edge list" where
  "liveEdgesUnlocked L W es =
     filter (\<lambda>e. lw_isFile W (canonical L (ed_child e)) \<and> lw_isFile W (canonical L (ed_parent e))) es"

definition is_session_file :: "string \<Rightarrow> bool" where
  "is_session_file name \<longleftrightarrow> 6 \<le> length name \<and> drop (length name - 6) name = ''.jsonl''"

text \<open>The order of \<open>sort\<close>: by code units.\<close>

fun units_less_eq :: "string \<Rightarrow> string \<Rightarrow> bool" where
  "units_less_eq [] t = True"
| "units_less_eq (c # s) [] = False"
| "units_less_eq (c # s) (d # t) =
     ((of_char c :: nat) < of_char d \<or> c = d \<and> units_less_eq s t)"

fun insert_name :: "string \<Rightarrow> string list \<Rightarrow> string list" where
  "insert_name x [] = [x]"
| "insert_name x (y # ys) = (if units_less_eq x y then x # y # ys else y # insert_name x ys)"

text \<open>The session files of the directory.\<close>

definition session_files :: "ledger_host \<Rightarrow> ledger_world \<Rightarrow> string list" where
  "session_files L W =
     map (\<lambda>name. lh_join (lg_paths L) (lg_sessionsDir L) name)
       (foldr insert_name (filter is_session_file (nullish (lw_readdir W) [])) [])"

text \<open>The depth known for a path: the last live edge to it counts.\<close>

definition depthByPath :: "ledger_host \<Rightarrow> ledger_edge list \<Rightarrow> string \<Rightarrow> nat option" where
  "depthByPath L alive = map_of (rev (map (\<lambda>e. (canonical L (ed_child e), ed_depth e)) alive))"

definition depth_fits :: "ledger_host \<Rightarrow> ledger_edge list \<Rightarrow> ledger_edge \<Rightarrow> bool" where
  "depth_fits L alive e =
     (case depthByPath L alive (canonical L (ed_parent e)) of None \<Rightarrow> True | Some d \<Rightarrow> ed_depth e = d + 1)"

definition family_rows :: "ledger_host \<Rightarrow> ledger_world \<Rightarrow> ledger_edge list \<Rightarrow> session_row list" where
  "family_rows L W edges =
     (let alive = liveEdgesUnlocked L W edges;
          roots = filter (\<lambda>p. p \<notin> canonical L ` ed_child ` set alive) (map (canonical L) (session_files L W))
      in map (\<lambda>p. sessionRow W p 0 None None) roots
         @ map (\<lambda>e. sessionRow W (canonical L (ed_child e)) (ed_depth e) (Some (canonical L (ed_parent e))) (Some (ed_name e)))
             (filter (depth_fits L alive) alive))"

definition familyUnlocked :: "ledger_host \<Rightarrow> ledger_world \<Rightarrow> disk \<Rightarrow> log_error + session_row list" where
  "familyUnlocked L W d =
     (case replay_edges L (open_log d) of Inl e \<Rightarrow> Inl e | Inr es \<Rightarrow> Inr (family_rows L W (live_edges es)))"

definition siblings :: "ledger_host \<Rightarrow> ledger_world \<Rightarrow> string \<Rightarrow> disk \<Rightarrow> log_error + session_row list" where
  "siblings L W sessionPath d =
     (let target = canonical L sessionPath
      in case replay_edges L (open_log d) of
          Inl e \<Rightarrow> Inl e
        | Inr es \<Rightarrow>
            let family = family_rows L W (live_edges es);
                parentByChild = map_of (rev (map (\<lambda>e. (canonical L (ed_child e), canonical L (ed_parent e))) (live_edges es)));
                alone = [sessionRow W target 0 None None]
            in case parentByChild target of
                Some parent \<Rightarrow>
                  let rows = filter (\<lambda>r. parentByChild (canonical L (row_path r)) = Some parent) family
                  in Inr (if target \<notin> canonical L ` row_path ` set rows \<and> lw_isFile W target then alone else rows)
              | None \<Rightarrow>
                  let roots = filter (\<lambda>r. row_depth r = 0) family
                  in Inr (if target \<in> canonical L ` row_path ` set roots then roots
                          else if \<not> lw_isFile W target then [] else alone))"

text \<open>
  \<open>withPassiveRlmDescendantInfos\<close>: the sessions found so far and the rows of the live edges whose path
  is not among them. \<open>inCwd\<close> is the filter by directory.
\<close>

fun merge_edges ::
  "ledger_host \<Rightarrow> ledger_world \<Rightarrow> (session_view \<Rightarrow> bool) \<Rightarrow> string list \<Rightarrow> ledger_edge list \<Rightarrow> session_row list" where
  "merge_edges L W inCwd seen [] = []"
| "merge_edges L W inCwd seen (e # es) =
     (let childPath = canonical L (ed_child e)
      in if childPath \<in> set seen then merge_edges L W inCwd seen es
         else case lw_info W childPath of
             None \<Rightarrow> merge_edges L W inCwd (childPath # seen) es
           | Some info \<Rightarrow>
               if \<not> inCwd info then merge_edges L W inCwd (childPath # seen) es
               else \<lparr>row_path = childPath, row_depth = ed_depth e, row_parent = Some (ed_parent e),
                     row_name = sv_name info, row_cwd = sv_cwd info\<rparr> # merge_edges L W inCwd (childPath # seen) es)"

definition withPassiveRlmDescendantInfos ::
  "ledger_host \<Rightarrow> ledger_world \<Rightarrow> (session_view \<Rightarrow> bool) \<Rightarrow> session_row list \<Rightarrow> disk \<Rightarrow> session_row list" where
  "withPassiveRlmDescendantInfos L W inCwd savedSessions d =
     (case replay_edges L (open_log d) of
        Inl e \<Rightarrow> savedSessions
      | Inr es \<Rightarrow>
          savedSessions @
          merge_edges L W inCwd (map (\<lambda>r. canonical L (row_path r)) savedSessions) (liveEdgesUnlocked L W (live_edges es)))"

section \<open>Deleting a saved session\<close>

datatype runtime_kind = TopLevel | Subagent

text \<open>The summary of a session may be missing, and so may the kind in it.\<close>

definition known_child :: "runtime_kind option option \<Rightarrow> session_view option \<Rightarrow> bool" where
  "known_child summary info \<longleftrightarrow> summary = Some (Some Subagent)
     \<or> (case info of
          None \<Rightarrow> False
        | Some i \<Rightarrow> sv_parentSessionPath i \<noteq> None \<or> nullish (sv_rlmDepth i) 0 > 0)"

definition tombstoneSavedSessionDelete ::
  "ledger_host \<Rightarrow> ledger_world \<Rightarrow> (nat \<Rightarrow> log_env) \<Rightarrow> string \<Rightarrow> runtime_kind option option \<Rightarrow> disk
     \<Rightarrow> (ledger_error + ledger_edge option) \<times> disk" where
  "tombstoneSavedSessionDelete L W E sessionPath summary d =
     (let info = lw_info W sessionPath
      in if \<not> known_child summary info \<and> (summary \<noteq> None \<or> info \<noteq> None) then (Inr None, d)
         else case ledger_edges L False d of
             Inl e \<Rightarrow> (Inl (LogError e), d)
           | Inr edges \<Rightarrow>
               let matching = filter (\<lambda>e. canonical L (ed_child e) = canonical L sessionPath) edges
               in case append_each L E 0
                      (map (\<lambda>e. DeleteRecord (ed_childId e) (canonical L sessionPath) ByUser) matching) d of
                   (Some e, d') \<Rightarrow> (Inl e, d')
                 | (None, d') \<Rightarrow> (Inr (if matching = [] then None else Some (hd matching)), d'))"

section \<open>Seeding\<close>

datatype seed_status = SeedRunning | SeedCompleted | SeedDeleted

record seed_entry =
  se_childId :: string
  se_sessionName :: string
  se_sessionFile :: string
  se_rlmDepth :: "nat option"
  se_status :: seed_status

text \<open>Queued sessions with their depth, visited paths and records so far.\<close>

record seed_state =
  sd_queue :: "(string \<times> nat) list"
  sd_visited :: "string list"
  sd_records :: "spawn_record list"

fun seed_entries :: "ledger_host \<Rightarrow> string \<Rightarrow> nat \<Rightarrow> seed_entry list \<Rightarrow> seed_state \<Rightarrow> seed_state" where
  "seed_entries L sessionFile depth [] s = s"
| "seed_entries L sessionFile depth (e # es) s =
     (let childPath = canonical L (se_sessionFile e)
      in if se_status e = SeedDeleted \<or> childPath \<in> set (sd_visited s) then seed_entries L sessionFile depth es s
         else let s1 = s\<lparr>sd_visited := sd_visited s @ [childPath]\<rparr>;
                  childDepth = (case se_rlmDepth e of Some d \<Rightarrow> if d \<ge> 1 then d else depth + 1 | None \<Rightarrow> depth + 1)
              in if se_childId e = [] then seed_entries L sessionFile depth es s1
                 else seed_entries L sessionFile depth es
                   (s1\<lparr>sd_records := sd_records s1 @
                          [\<lparr>sp_childId = se_childId e, sp_parent = canonical L sessionFile, sp_child = childPath,
                            sp_depth = childDepth, sp_name = se_sessionName e\<rparr>],
                       sd_queue := sd_queue s1 @ [(se_sessionFile e, childDepth)]\<rparr>))"

partial_function (option) seed_loop :: "ledger_host \<Rightarrow> (string \<Rightarrow> seed_entry list) \<Rightarrow> seed_state \<Rightarrow> spawn_record list option" where
  "seed_loop L registry s =
     (case sd_queue s of
        [] \<Rightarrow> Some (sd_records s)
      | (sessionFile, depth) # rest \<Rightarrow>
          seed_loop L registry (seed_entries L sessionFile depth (registry sessionFile) (s\<lparr>sd_queue := rest\<rparr>)))"

definition seed_start :: "ledger_host \<Rightarrow> ledger_world \<Rightarrow> seed_state" where
  "seed_start L W =
     \<lparr>sd_queue = map (\<lambda>f. (f, 0)) (session_files L W), sd_visited = map (canonical L) (session_files L W), sd_records = []\<rparr>"

text \<open>
  The file a seed makes; \<open>None\<close> when there is nothing to seed, when it would be too large to be read, or
  when a record has no text.
\<close>

definition seed_file :: "ledger_host \<Rightarrow> spawn_record list \<Rightarrow> byte list option" where
  "seed_file L records =
     (if records = [] then None
      else case serialize_all (ledger_text L) (MetaRecord (lg_sessionsDir L) # map SpawnRecord records) of
          None \<Rightarrow> None
        | Some lines \<Rightarrow>
            let payload = utf8 (concat lines)
            in if length records + 1 > RLM_LEDGER_MAX_RECORDS \<or> length payload > RLM_LEDGER_MAX_BYTES then None
               else Some payload)"

text \<open>
  \<open>current\<close> is the log at the moment of the link, which does not replace a file; \<open>linkFails\<close>: writing
  the temporary file or linking fails otherwise. \<open>None\<close>: the walk does not end.
\<close>

definition seed ::
  "ledger_host \<Rightarrow> ledger_world \<Rightarrow> (string \<Rightarrow> seed_entry list) option \<Rightarrow> bool \<Rightarrow> disk \<Rightarrow> disk \<Rightarrow> disk option" where
  "seed L W source linkFails d current =
     (if source = None \<or> d \<noteq> None \<or> lw_readdir W = None then Some current
      else map_option
        (\<lambda>records. case seed_file L records of
             None \<Rightarrow> current
           | Some payload \<Rightarrow> if linkFails \<or> current \<noteq> None then current else Some payload)
        (seed_loop L (the source) (seed_start L W)))"

end
