(* ===== verification/Event_Log_Props.thy ===== *)
theory Event_Log_Props
  imports Event_Log "HOL-Library.Sublist"
begin

text \<open>
  What the event log promises: whatever a write leaves, the events whose lines arrived are replayed, in
  order, and the next append takes a torn line away. Then what it does not promise: an event that is
  replayed may be gone later, and a repair that is given up spoils the log.
\<close>

section \<open>Lines and their bytes\<close>

definition line_bytes :: "jsstring \<Rightarrow> byte list" where
  "line_bytes s = utf8 s @ [10]"

definition log_bytes :: "jsstring list \<Rightarrow> byte list" where
  "log_bytes ts = concat (map line_bytes ts)"

lemma log_bytes_simps [simp]:
  "log_bytes [] = []" "log_bytes (t # ts) = line_bytes t @ log_bytes ts" "log_bytes (ts @ us) = log_bytes ts @ log_bytes us"
  by (simp_all add: log_bytes_def)

text \<open>What \<open>JSON.stringify\<close> gives: no line feed, no white space around, no lone surrogate.\<close>

definition json_line :: "jsstring \<Rightarrow> bool" where
  "json_line s \<longleftrightarrow> s \<noteq> [] \<and> newline \<notin> set s \<and> \<not> is_js_space (hd s) \<and> \<not> is_js_space (last s)
     \<and> units_ok s \<and> well_formed s"

lemma code_points_no_newline: "newline \<notin> set s \<Longrightarrow> newline \<notin> set (code_points s)"
  by (induction s rule: code_points.induct) (auto simp: newline_def)

lemma encode_cp_no_newline:
  assumes "scalar c" "c \<noteq> newline"
  shows "10 \<notin> set (encode_cp c)"
proof -
  have tl: "b \<noteq> 10" if "b \<in> set (tl (encode_cp c))" for b
    using encode_cp_tl [OF that] by (auto simp: is_cont_iff)
  have "c < 0x110000" using assms(1) by (simp add: scalar_def)
  then have "unat (hd (encode_cp c)) \<noteq> 10"
    using assms(2) by (auto simp: encode_cp_def unat_byte unat_lead newline_def simp del: of_nat_add)
  then have "hd (encode_cp c) \<noteq> 10" by auto
  with tl show ?thesis by (cases "encode_cp c") auto
qed

lemma utf8_no_newline:
  assumes "units_ok s" "newline \<notin> set s"
  shows "10 \<notin> set (utf8 s)"
proof -
  have "10 \<notin> set (encode_cp c)" if "c \<in> set (code_points s)" for c
    using that code_points_scalar [OF assms(1)] code_points_no_newline [OF assms(2)]
    by (intro encode_cp_no_newline) auto
  then show ?thesis by (auto simp: utf8_def)
qed

lemma encode_cp_newline: "encode_cp newline = [10]"
  by (simp add: encode_cp_def newline_def)

lemma utf8_newline: "utf8 (s @ newline # t) = utf8 s @ 10 # utf8 t"
  by (simp add: utf8_def code_points_append_plain encode_cp_newline)

lemma utf8_lines: "utf8 (concat (map (\<lambda>t. t @ [newline]) ts)) = log_bytes ts"
  by (induction ts) (simp_all add: utf8_newline line_bytes_def utf8_def [of "[]"])

lemma toString_lines:
  "\<forall>t\<in>set ts. json_line t \<Longrightarrow>
   toString (log_bytes ts @ tail) = concat (map (\<lambda>t. t @ [newline]) ts) @ toString tail"
  by (induction ts) (simp_all add: line_bytes_def toString_newline toString_utf8 json_line_def)

lemma split_on_line: "c \<notin> set s \<Longrightarrow> split_on c (s @ c # t) = s # split_on c t"
  by (induction s) auto

lemma split_on_none: "c \<notin> set s \<Longrightarrow> split_on c s = [s]"
  by (induction s) auto

lemma split_lines:
  "\<forall>t\<in>set ts. json_line t \<Longrightarrow> newline \<notin> set r \<Longrightarrow>
   split_on newline (concat (map (\<lambda>t. t @ [newline]) ts) @ r) = ts @ [r]"
  by (induction ts) (simp_all add: split_on_line split_on_none json_line_def)

text \<open>What is left of some lines when only the first bytes arrive.\<close>

lemma take_records:
  assumes "\<forall>t\<in>set ts. json_line t"
  obtains n tail where "n \<le> length ts" "take k (log_bytes ts) = log_bytes (take n ts) @ tail" "10 \<notin> set tail"
    "length (log_bytes ts) \<le> k \<longrightarrow> n = length ts \<and> tail = []"
  using assms
proof (induction ts arbitrary: k thesis)
  case Nil
  show ?case by (rule Nil.prems(1) [of 0 "[]"]) simp_all
next
  case (Cons t ts)
  have t: "10 \<notin> set (utf8 t)" using Cons.prems(2) by (simp add: json_line_def utf8_no_newline)
  show ?case
  proof (cases "length (line_bytes t) \<le> k")
    case True
    from Cons.IH [of "k - length (line_bytes t)"] Cons.prems(2)
    obtain n tail where n: "n \<le> length ts"
      "take (k - length (line_bytes t)) (log_bytes ts) = log_bytes (take n ts) @ tail" "10 \<notin> set tail"
      "length (log_bytes ts) \<le> k - length (line_bytes t) \<longrightarrow> n = length ts \<and> tail = []"
      by (metis list.set_intros(2))
    with True show ?thesis by (intro Cons.prems(1) [of "Suc n" tail]) auto
  next
    case False
    then have "10 \<notin> set (take k (utf8 t))" "k \<le> length (utf8 t)"
      using t by (auto simp: line_bytes_def dest: in_set_takeD)
    with False show ?thesis
      by (intro Cons.prems(1) [of 0 "take k (utf8 t)"]) (auto simp: line_bytes_def)
  qed
qed

section \<open>Files\<close>

text \<open>The texts of the whole lines of a file; what follows them is the start of another.\<close>

definition log_holds :: "jsstring list \<Rightarrow> byte list \<Rightarrow> bool" where
  "log_holds ts f \<longleftrightarrow> (\<forall>t\<in>set ts. json_line t) \<and> (\<exists>tail. f = log_bytes ts @ tail \<and> 10 \<notin> set tail)"

lemma log_holds_Nil [simp]: "log_holds [] []"
  by (simp add: log_holds_def)

lemma whole_lines_log:
  assumes "10 \<notin> set tail"
  shows "whole_lines (log_bytes ts @ tail) = log_bytes ts"
proof -
  have "dropWhile (\<lambda>b. b \<noteq> 10) (rev tail @ rev (log_bytes ts)) = dropWhile (\<lambda>b. b \<noteq> 10) (rev (log_bytes ts))"
    by (rule dropWhile_append2) (use assms in auto)
  moreover have "dropWhile (\<lambda>b. b \<noteq> 10) (rev (log_bytes ts)) = rev (log_bytes ts)"
    by (cases ts rule: rev_cases) (simp_all add: line_bytes_def)
  ultimately show ?thesis by (simp add: whole_lines_def)
qed

text \<open>Nobody else writes, and the calls of a repair succeed.\<close>

definition calm :: "log_env \<Rightarrow> bool" where
  "calm E \<longleftrightarrow> le_between E = id \<and> le_settle E = id \<and> le_late E = id
     \<and> (\<forall>c\<in>{Stat, OpenRepair, ReadRepair, Truncate}. le_error E c = None)"

lemma repair_calm:
  assumes "calm E" "log_holds ts f"
  shows "repairTailSync opts E f =
    (if \<exists>m. lo_maxBytes opts = Some m \<and> length f > m then (Some (ExceedsBytes (length f)), f) else (None, log_bytes ts))"
proof -
  from assms(2) obtain tail where f: "f = log_bytes ts @ tail" "10 \<notin> set tail" by (auto simp: log_holds_def)
  note whole = whole_lines_log [OF f(2), of ts, folded f(1)]
  have cut: "take (length (log_bytes ts)) f = log_bytes ts" by (simp add: f(1))
  have unended: "last f = 10 \<longleftrightarrow> tail = []" if "f \<noteq> []"
  proof (cases "tail = []")
    case True
    with f that show ?thesis by (cases ts rule: rev_cases) (simp_all add: line_bytes_def)
  next
    case False
    then have "last f = last tail" "last tail \<in> set tail" by (simp_all add: f(1))
    with False f(2) show ?thesis by metis
  qed
  show ?thesis
    using assms(1) whole cut unended f(1)
    by (auto simp: repairTailSync_def calm_def readAllSync_def ftruncate_def Let_def)
qed

section \<open>Replay\<close>

text \<open>The records of some events, and what a parser makes of an unfinished line.\<close>

definition tail_records :: "'r line_parser \<Rightarrow> nat \<Rightarrow> jsstring \<Rightarrow> 'r list" where
  "tail_records parse i t =
     (if js_trim t = [] then [] else case parse i (js_trim t) of Inr (Some r) \<Rightarrow> [r] | _ \<Rightarrow> [])"

lemma length_tail_records: "length (tail_records parse i t) \<le> 1"
  by (simp add: tail_records_def split: sum.split option.split)

lemma json_line_trim: "json_line t \<Longrightarrow> js_trim t = t"
  by (simp add: json_line_def js_trim_id)

lemma replay_lines_all:
  assumes "\<forall>t\<in>set ts. json_line t \<and> (\<forall>i. parse i t = Inr (rec_of t))"
    and "\<forall>m. lo_maxRecords opts = Some m \<longrightarrow> k + length ts < m"
    and "js_trim r \<noteq> [] \<longrightarrow> \<not> e"
  shows "replay_lines opts parse e i k (ts @ [r]) =
    Inr (List.map_filter rec_of ts @ tail_records parse (i + length ts) r)"
  using assms
proof (induction ts arbitrary: i k)
  case Nil
  then show ?case
    by (auto simp: tail_records_def Let_def List.map_filter_def split: sum.split option.split)
next
  case (Cons t ts)
  have "t \<noteq> []" using Cons.prems(1) by (simp add: json_line_def)
  moreover have "replay_lines opts parse e (Suc i) (Suc k) (ts @ [r]) =
      Inr (List.map_filter rec_of ts @ tail_records parse (Suc i + length ts) r)"
    by (rule Cons.IH) (use Cons.prems in auto)
  ultimately show ?case
    using Cons.prems by (auto simp: json_line_trim Let_def List.map_filter_def split: option.split)
qed

text \<open>A file within the bounds of the log.\<close>

definition log_fits :: "log_options \<Rightarrow> byte list \<Rightarrow> bool" where
  "log_fits opts f \<longleftrightarrow> (\<forall>m. lo_maxBytes opts = Some m \<longrightarrow> length f \<le> m)
     \<and> (\<forall>m. lo_maxRecords opts = Some m \<longrightarrow> count_list f 10 < m)"

lemma count_list_none: "x \<notin> set xs \<Longrightarrow> count_list xs x = 0"
  by (simp add: count_list_0_iff)

lemma count_lines: "\<forall>t\<in>set ts. json_line t \<Longrightarrow> count_list (log_bytes ts) 10 = length ts"
  by (induction ts) (simp_all add: line_bytes_def json_line_def count_list_append count_list_none utf8_no_newline)

lemma count_log: "log_holds ts f \<Longrightarrow> count_list f 10 = length ts"
  by (auto simp: log_holds_def count_lines count_list_none count_list_append)

lemma replay_log:
  assumes "log_holds ts f" "log_fits opts f" "\<forall>t\<in>set ts. \<forall>i. parse i t = Inr (rec_of t)"
  shows "replaySync opts parse (Opened f (f @ g)) =
    Inr (List.map_filter rec_of ts @ tail_records parse (length ts) (toString (drop (length (log_bytes ts)) f)))"
proof -
  from assms(1) obtain tail where f: "f = log_bytes ts @ tail" "10 \<notin> set tail" and ts: "\<forall>t\<in>set ts. json_line t"
    by (auto simp: log_holds_def)
  let ?r = "toString tail"
  have r: "newline \<notin> set ?r" by (rule toString_no_newline [OF f(2)])
  have decoded: "toString f = concat (map (\<lambda>t. t @ [newline]) ts) @ ?r"
    using toString_lines [OF ts] by (simp add: f(1))
  have "\<not> ends_with_newline (toString f)" if "js_trim ?r \<noteq> []"
  proof -
    have "?r \<noteq> []" using that by (auto simp: js_trim_def trim_end_def)
    then have "last (toString f) = last ?r" "last ?r \<in> set ?r" by (simp_all add: decoded)
    with r show ?thesis by (metis ends_with_newline_def)
  qed
  moreover have "readAllSync (lo_maxBytes opts) f (f @ g) = Inr f"
    using assms(2) by (auto simp: readAllSync_def log_fits_def)
  moreover have "split_on newline (toString f) = ts @ [?r]"
    unfolding decoded by (rule split_lines [OF ts r])
  moreover have "\<forall>m. lo_maxRecords opts = Some m \<longrightarrow> 0 + length ts < m"
    using assms(2) count_log [OF assms(1)] by (auto simp: log_fits_def)
  ultimately show ?thesis
    using ts assms(3) replay_lines_all [where rec_of = rec_of and ts = ts and i = 0 and k = 0 and r = ?r and parse = parse
        and opts = opts and e = "ends_with_newline (toString f)"]
    by (simp add: f(1))
qed

section \<open>Appending\<close>

text \<open>
  The serialiser and the parser of a consumer agree on the events it writes: \<open>view\<close> is the record
  replayed for an event.
\<close>

definition log_codec :: "('e \<Rightarrow> bool) \<Rightarrow> 'e serializer \<Rightarrow> 'r line_parser \<Rightarrow> ('e \<Rightarrow> 'r option) \<Rightarrow> bool" where
  "log_codec valid stringify parse view \<longleftrightarrow>
     (\<forall>e s. valid e \<longrightarrow> stringify e = Some s \<longrightarrow> json_line s \<and> (\<forall>i. parse i s = Inr (view e)))"

definition text_lines :: "('e \<Rightarrow> bool) \<Rightarrow> 'e serializer \<Rightarrow> bool" where
  "text_lines valid stringify \<longleftrightarrow> (\<forall>e s. valid e \<longrightarrow> stringify e = Some s \<longrightarrow> json_line s)"

lemma codec_lines: "log_codec valid stringify parse view \<Longrightarrow> text_lines valid stringify"
  by (simp add: log_codec_def text_lines_def)

definition file_bytes :: "byte list option \<Rightarrow> byte list" where
  "file_bytes disk = (case disk of Some f \<Rightarrow> f | None \<Rightarrow> [])"

definition open_file :: "byte list option \<Rightarrow> byte list \<Rightarrow> opened" where
  "open_file disk grown = (case disk of Some f \<Rightarrow> Opened f (f @ grown) | None \<Rightarrow> Absent)"

text \<open>The events one append tries to write.\<close>

definition payload_events :: "'e list \<Rightarrow> byte list option \<Rightarrow> 'e list \<Rightarrow> 'e list" where
  "payload_events onCreate disk events = (if disk = None then onCreate else []) @ events"

abbreviation text_of :: "'e serializer \<Rightarrow> 'e \<Rightarrow> jsstring" where
  "text_of stringify e \<equiv> the (stringify e)"

lemma serialize_all_map:
  "serialize_all stringify es =
   (if \<forall>e\<in>set es. stringify e \<noteq> None then Some (map (\<lambda>e. text_of stringify e @ [newline]) es) else None)"
  by (induction es) (auto simp: serializeLine_def split: option.splits)

lemma append_payload:
  assumes codec: "text_lines valid stringify"
    and "\<forall>e\<in>set es. valid e \<and> stringify e \<noteq> None"
    and ts: "\<forall>t\<in>set ts. json_line t"
  obtains n where "n \<le> length es"
    "log_holds (ts @ map (text_of stringify) (take n es))
       (log_bytes ts @ take k (utf8 (concat (map (\<lambda>e. text_of stringify e @ [newline]) es))))"
    "length (utf8 (concat (map (\<lambda>e. text_of stringify e @ [newline]) es))) \<le> k \<longrightarrow> n = length es
       \<and> take k (utf8 (concat (map (\<lambda>e. text_of stringify e @ [newline]) es))) = log_bytes (map (text_of stringify) es)"
proof -
  let ?us = "map (text_of stringify) es"
  have us: "\<forall>t\<in>set ?us. json_line t" using codec assms(2) by (force simp: text_lines_def)
  have eq: "utf8 (concat (map (\<lambda>e. text_of stringify e @ [newline]) es)) = log_bytes ?us"
    using utf8_lines [of ?us] by (simp add: comp_def)
  obtain n tail where n: "n \<le> length ?us" "take k (log_bytes ?us) = log_bytes (take n ?us) @ tail" "10 \<notin> set tail"
    "length (log_bytes ?us) \<le> k \<longrightarrow> n = length ?us \<and> tail = []"
    by (rule take_records [OF us, of k]) blast
  have "log_holds (ts @ take n ?us) (log_bytes ts @ take k (log_bytes ?us))"
    unfolding log_holds_def using n(2,3) ts us by (auto simp del: set_map dest: in_set_takeD)
  with n(1,4) that [of n] show ?thesis by (simp add: eq take_map)
qed

text \<open>An append leaves the lines it found and the first lines it writes; all of them if all bytes arrive.\<close>

lemma append_holds:
  assumes codec: "text_lines valid stringify" and ts: "log_holds ts (file_bytes disk)" and calm: "calm E"
    and run: "appendSync opts E stringify events durable onCreate disk = (r, disk')"
    and valid: "\<forall>e\<in>set (payload_events onCreate disk events). valid e"
  obtains n where "n \<le> length (payload_events onCreate disk events)"
    "log_holds (ts @ map (text_of stringify) (take n (payload_events onCreate disk events))) (file_bytes disk')"
    "r = None \<and> (\<forall>k. k \<le> le_written E k) \<longrightarrow> n = length (payload_events onCreate disk events)
       \<and> (\<forall>e\<in>set (payload_events onCreate disk events). stringify e \<noteq> None)
       \<and> file_bytes disk' = log_bytes (ts @ map (text_of stringify) (payload_events onCreate disk events))"
    "\<forall>e\<in>set (take n (payload_events onCreate disk events)). stringify e \<noteq> None"
proof (cases "\<exists>us. us = payload_events onCreate disk events \<and> (\<forall>e\<in>set us. stringify e \<noteq> None)
    \<and> disk' = Some (log_bytes ts @ take (le_written E (length (utf8 (concat (map (\<lambda>e. text_of stringify e @ [newline]) us)))))
        (utf8 (concat (map (\<lambda>e. text_of stringify e @ [newline]) us))))")
  case True
  let ?new = "payload_events onCreate disk events"
  let ?p = "utf8 (concat (map (\<lambda>e. text_of stringify e @ [newline]) ?new))"
  from True have new: "\<forall>e\<in>set ?new. stringify e \<noteq> None"
    and disk': "disk' = Some (log_bytes ts @ take (le_written E (length ?p)) ?p)" by auto
  have ts_json: "\<forall>t\<in>set ts. json_line t" using ts by (simp add: log_holds_def)
  from new valid have "\<forall>e\<in>set ?new. valid e \<and> stringify e \<noteq> None" by blast
  from append_payload [OF codec this ts_json, of "le_written E (length ?p)"] obtain n where n: "n \<le> length ?new"
    "log_holds (ts @ map (text_of stringify) (take n ?new)) (file_bytes disk')"
    "length ?p \<le> le_written E (length ?p) \<longrightarrow> n = length ?new
       \<and> take (le_written E (length ?p)) ?p = log_bytes (map (text_of stringify) ?new)"
    by (auto simp: disk' file_bytes_def)
  then show thesis using that [of n] new by (auto simp: disk' file_bytes_def dest: in_set_takeD)
next
  case False
  from ts have holds: "log_holds ts (log_bytes ts)" by (auto simp: log_holds_def intro: exI [of _ "[]"])
  have "log_holds ts (file_bytes disk') \<and> r \<noteq> None"
  proof (cases disk)
    case None
    with ts have "ts = []" by (cases ts) (auto simp: file_bytes_def log_holds_def line_bytes_def)
    with run False None show ?thesis
      by (auto simp: appendSync_def serialize_all_map payload_events_def file_bytes_def Let_def split: option.splits if_splits)
  next
    case (Some f)
    with ts have "log_holds ts f" by (simp add: file_bytes_def)
    with repair_calm [OF calm this, of opts] run False Some holds show ?thesis
      by (auto simp: appendSync_def serialize_all_map payload_events_def file_bytes_def Let_def split: option.splits if_splits)
  qed
  then show thesis using that [of 0] by auto
qed

section \<open>Histories\<close>

text \<open>
  Appends of any number of processes, one after the other, to a log that did not exist. An append that
  returns has written all bytes; one that throws, or whose process dies, has written some of them.
\<close>

inductive log_history :: "log_options \<Rightarrow> ('e \<Rightarrow> bool) \<Rightarrow> 'e serializer \<Rightarrow> 'e list \<Rightarrow> byte list option \<Rightarrow> bool"
  for opts valid stringify where
  no_log: "log_history opts valid stringify [] None"
| appended: "log_history opts valid stringify acked disk \<Longrightarrow> calm E \<Longrightarrow> \<forall>k. k \<le> le_written E k \<Longrightarrow>
    appendSync opts E stringify events durable onCreate disk = (None, disk') \<Longrightarrow>
    \<forall>e\<in>set (payload_events onCreate disk events). valid e \<Longrightarrow>
    log_history opts valid stringify (acked @ payload_events onCreate disk events) disk'"
| cut_off: "log_history opts valid stringify acked disk \<Longrightarrow> calm E \<Longrightarrow>
    appendSync opts E stringify events durable onCreate disk = (r, disk') \<Longrightarrow>
    \<forall>e\<in>set (payload_events onCreate disk events). valid e \<Longrightarrow>
    log_history opts valid stringify acked disk'"

text \<open>Some events arrived, among them all that were acknowledged, in order.\<close>

lemma history_holds:
  assumes "log_history opts valid stringify acked disk" "log_codec valid stringify parse view"
  shows "\<exists>arrived. log_holds (map (text_of stringify) arrived) (file_bytes disk) \<and> subseq acked arrived
    \<and> (\<forall>e\<in>set arrived. valid e \<and> stringify e \<noteq> None)"
  using assms(1)
proof induction
  case no_log
  show ?case by (intro exI [of _ "[]"]) (simp add: file_bytes_def)
next
  case (appended acked disk E events durable onCreate disk')
  let ?new = "payload_events onCreate disk events"
  from appended.IH obtain arrived where IH: "log_holds (map (text_of stringify) arrived) (file_bytes disk)"
    "subseq acked arrived" "\<forall>e\<in>set arrived. valid e \<and> stringify e \<noteq> None" by blast
  from append_holds [OF codec_lines [OF assms(2)] IH(1) appended.hyps(2,4,5)] obtain n where
    "log_holds (map (text_of stringify) arrived @ map (text_of stringify) (take n ?new)) (file_bytes disk')"
    "n = length ?new" "\<forall>e\<in>set (take n ?new). stringify e \<noteq> None"
    using appended.hyps(3) by blast
  with IH appended.hyps(5) show ?case by (intro exI [of _ "arrived @ ?new"]) (auto intro: list_emb_append_mono)
next
  case (cut_off acked disk E events durable onCreate r disk')
  let ?new = "payload_events onCreate disk events"
  from cut_off.IH obtain arrived where IH: "log_holds (map (text_of stringify) arrived) (file_bytes disk)"
    "subseq acked arrived" "\<forall>e\<in>set arrived. valid e \<and> stringify e \<noteq> None" by blast
  from append_holds [OF codec_lines [OF assms(2)] IH(1) cut_off.hyps(2,3,4)] obtain n where
    "log_holds (map (text_of stringify) arrived @ map (text_of stringify) (take n ?new)) (file_bytes disk')"
    "\<forall>e\<in>set (take n ?new). stringify e \<noteq> None"
    by blast
  with IH cut_off.hyps(4) show ?case by (intro exI [of _ "arrived @ take n ?new"]) (auto intro: list_emb_append2 dest: in_set_takeD)
qed

lemma subseq_map_filter: "subseq xs ys \<Longrightarrow> subseq (List.map_filter f xs) (List.map_filter f ys)"
  by (induction rule: list_emb.induct) (auto simp: List.map_filter_def)

lemma log_holds_empty: "log_holds ts [] \<Longrightarrow> ts = []"
  by (cases ts) (auto simp: log_holds_def line_bytes_def)

text \<open>A replay gives the records of the events that arrived, and what the unfinished line is taken for.\<close>

lemma replay_arrived:
  assumes "log_holds (map (text_of stringify) arrived) (file_bytes disk)" "log_codec valid stringify parse view"
    and "\<forall>e\<in>set arrived. valid e \<and> stringify e \<noteq> None" "log_fits opts (file_bytes disk)"
  shows "\<exists>x. replaySync opts parse (open_file disk grown) = Inr (List.map_filter view arrived @ x)
    \<and> (file_bytes disk = log_bytes (map (text_of stringify) arrived) \<longrightarrow> x = [])"
proof (cases disk)
  case None
  with assms(1) have "arrived = []" using log_holds_empty by (fastforce simp: file_bytes_def)
  with None show ?thesis by (simp add: open_file_def List.map_filter_def)
next
  case (Some f)
  let ?rec = "\<lambda>t. case parse 0 t of Inr v \<Rightarrow> v | Inl _ \<Rightarrow> None"
  have parsed: "parse i (text_of stringify e) = Inr (view e)" if "e \<in> set arrived" for e i
    using that assms(2,3) by (force simp: log_codec_def)
  have "List.map_filter ?rec (map (text_of stringify) arrived) = List.map_filter view arrived"
    using parsed by (induction arrived) (auto simp: List.map_filter_def)
  then show ?thesis
    using replay_log [of "map (text_of stringify) arrived" f opts parse ?rec] assms(1,4) parsed
    by (auto simp: Some file_bytes_def open_file_def tail_records_def js_trim_def trim_end_def)
qed


text \<open>
  An append that returns takes a torn line away and adds its events behind those that had arrived:
  nothing else changes.
\<close>

theorem append_extends_replay:
  assumes "log_history opts valid stringify acked disk" "log_codec valid stringify parse view" "calm E"
    and "\<forall>k. k \<le> le_written E k"
    and "appendSync opts E stringify events durable onCreate disk = (None, disk')"
    and "\<forall>e\<in>set (payload_events onCreate disk events). valid e"
    and "log_fits opts (file_bytes disk')"
  shows "\<exists>old. replaySync opts parse (open_file (map_option whole_lines disk) []) = Inr old
    \<and> replaySync opts parse (open_file disk' []) = Inr (old @ List.map_filter view (payload_events onCreate disk events))"
proof -
  let ?new = "payload_events onCreate disk events"
  from history_holds [OF assms(1,2)] obtain arrived where arrived:
    "log_holds (map (text_of stringify) arrived) (file_bytes disk)" "\<forall>e\<in>set arrived. valid e \<and> stringify e \<noteq> None" by blast
  let ?ts = "map (text_of stringify) arrived"
  from append_holds [OF codec_lines [OF assms(2)] arrived(1) assms(3,5,6)] assms(4) have new:
    "log_holds (?ts @ map (text_of stringify) ?new) (file_bytes disk')"
    "\<forall>e\<in>set ?new. stringify e \<noteq> None" "file_bytes disk' = log_bytes (?ts @ map (text_of stringify) ?new)"
    by (metis order_refl take_all)+
  have whole: "file_bytes (map_option whole_lines disk) = log_bytes ?ts"
    using arrived(1) by (cases disk) (auto simp: file_bytes_def log_holds_def whole_lines_log)
  have "\<forall>t\<in>set ?ts. json_line t" using arrived(1) by (simp add: log_holds_def)
  then have holds: "log_holds ?ts (log_bytes ?ts)" by (auto simp: log_holds_def intro: exI [of _ "[]"])
  have "log_fits opts (log_bytes ?ts)"
    using assms(7) unfolding new(3) by (auto simp: log_fits_def count_list_append)
  then have "replaySync opts parse (open_file (map_option whole_lines disk) []) = Inr (List.map_filter view arrived)"
    using replay_arrived [of stringify arrived "map_option whole_lines disk" valid parse view opts "[]"] holds whole arrived(2) assms(2)
    by auto
  moreover have "replaySync opts parse (open_file disk' []) = Inr (List.map_filter view (arrived @ ?new))"
    using replay_arrived [of stringify "arrived @ ?new" disk' valid parse view opts "[]"] new arrived(2) assms(2,6,7) by auto
  ultimately show ?thesis by (simp add: List.map_filter_def)
qed

section \<open>The interface\<close>

text \<open>
  What a consumer relies on: an append that returns adds the records of its events behind those there
  were. \<open>intact s rs\<close> says that a replay of \<open>s\<close> gives \<open>rs\<close> and no writer left a part of a line.
\<close>

locale record_log =
  fixes intact :: "'s \<Rightarrow> 'r list \<Rightarrow> bool" and added :: "'s \<Rightarrow> 'e list \<Rightarrow> 's \<Rightarrow> bool" and view :: "'e \<Rightarrow> 'r option"
  assumes added_intact: "intact s rs \<Longrightarrow> added s es s' \<Longrightarrow> intact s' (rs @ List.map_filter view es)"
begin

lemma folded_intact:
  assumes "intact s rs" "added s es s'"
  obtains rs' where "intact s' rs'" "fold f rs' z = fold f (List.map_filter view es) (fold f rs z)"
  using added_intact [OF assms] by (metis comp_apply fold_append)

lemma folded_invariant:
  assumes "intact s rs" "P (fold f rs z)" "added s es s'"
    and "\<And>e r x. e \<in> set es \<Longrightarrow> view e = Some r \<Longrightarrow> P x \<Longrightarrow> P (f r x)"
  obtains rs' where "intact s' rs'" "P (fold f rs' z)"
proof -
  have "P (fold f (List.map_filter view es) x)" if "P x" for x
    using assms(4) that
  proof (induction es arbitrary: x)
    case (Cons e es)
    then have "P (fold f (List.map_filter view es) (case view e of Some r \<Rightarrow> f r x | None \<Rightarrow> x))"
      by (auto split: option.split)
    then show ?case by (auto simp: List.map_filter_def split: option.splits)
  qed (simp add: List.map_filter_def)
  then show thesis using folded_intact [OF assms(1,3), where f = f and z = z] assms(2) that by metis
qed

end

definition log_intact :: "('e \<Rightarrow> bool) \<Rightarrow> 'e serializer \<Rightarrow> ('e \<Rightarrow> 'r option) \<Rightarrow> byte list option \<Rightarrow> 'r list \<Rightarrow> bool" where
  "log_intact valid stringify view disk rs \<longleftrightarrow> text_lines valid stringify
     \<and> (\<exists>arrived. file_bytes disk = log_bytes (map (text_of stringify) arrived)
          \<and> (\<forall>e\<in>set arrived. valid e \<and> stringify e \<noteq> None) \<and> rs = List.map_filter view arrived)"

text \<open>An append that returned, with nobody else writing, and the events it wrote.\<close>

definition log_added ::
  "log_options \<Rightarrow> ('e \<Rightarrow> bool) \<Rightarrow> 'e serializer \<Rightarrow> byte list option \<Rightarrow> 'e list \<Rightarrow> byte list option \<Rightarrow> bool" where
  "log_added opts valid stringify disk es disk' \<longleftrightarrow>
     (\<exists>E events durable onCreate. calm E \<and> (\<forall>k. k \<le> le_written E k) \<and> es = payload_events onCreate disk events
        \<and> (\<forall>e\<in>set es. valid e) \<and> appendSync opts E stringify events durable onCreate disk = (None, disk'))"

lemma intact_empty: "text_lines valid stringify \<Longrightarrow> log_intact valid stringify view None []"
  by (auto simp: log_intact_def file_bytes_def List.map_filter_def intro: exI [of _ "[]"])

lemma intact_holds:
  assumes "text_lines valid stringify" "\<forall>e\<in>set arrived. valid e \<and> stringify e \<noteq> None"
  shows "log_holds (map (text_of stringify) arrived) (log_bytes (map (text_of stringify) arrived))"
  using assms by (fastforce simp: log_holds_def text_lines_def)

lemma added_bytes:
  assumes "log_intact valid stringify view disk rs" "log_added opts valid stringify disk es disk'"
  shows "file_bytes disk' = file_bytes disk @ log_bytes (map (text_of stringify) es) \<and> (\<forall>e\<in>set es. stringify e \<noteq> None)"
proof -
  from assms obtain arrived E events durable onCreate where lines: "text_lines valid stringify"
    and arrived: "file_bytes disk = log_bytes (map (text_of stringify) arrived)"
      "\<forall>e\<in>set arrived. valid e \<and> stringify e \<noteq> None" "rs = List.map_filter view arrived"
    and E: "calm E" "\<forall>k. k \<le> le_written E k" "es = payload_events onCreate disk events" "\<forall>e\<in>set es. valid e"
      "appendSync opts E stringify events durable onCreate disk = (None, disk')"
    unfolding log_intact_def log_added_def by blast
  have "log_holds (map (text_of stringify) arrived) (file_bytes disk)"
    unfolding arrived(1) by (rule intact_holds [OF lines arrived(2)])
  from append_holds [OF lines this E(1,5) E(4) [unfolded E(3)]] E(2) show ?thesis
    unfolding E(3) arrived(1) log_bytes_simps by metis
qed

interpretation event_log: record_log "log_intact valid stringify view" "log_added opts valid stringify" view
  for opts valid stringify view
proof
  fix disk rs es disk'
  assume intact: "log_intact valid stringify view disk rs" and added: "log_added opts valid stringify disk es disk'"
  then obtain arrived where "text_lines valid stringify" "file_bytes disk = log_bytes (map (text_of stringify) arrived)"
    "\<forall>e\<in>set arrived. valid e \<and> stringify e \<noteq> None" "rs = List.map_filter view arrived" "\<forall>e\<in>set es. valid e"
    unfolding log_intact_def log_added_def by blast
  with added_bytes [OF intact added] show "log_intact valid stringify view disk' (rs @ List.map_filter view es)"
    unfolding log_intact_def by (intro conjI exI [of _ "arrived @ es"]) (auto simp: List.map_filter_def)
qed

lemma intact_replay:
  assumes "log_intact valid stringify view disk rs" "log_codec valid stringify parse view" "log_fits opts (file_bytes disk)"
  shows "replaySync opts parse (open_file disk []) = Inr rs"
proof -
  from assms(1) obtain arrived where arrived: "file_bytes disk = log_bytes (map (text_of stringify) arrived)"
    "\<forall>e\<in>set arrived. valid e \<and> stringify e \<noteq> None" "rs = List.map_filter view arrived" and "text_lines valid stringify"
    unfolding log_intact_def by blast
  then show ?thesis
    using replay_arrived [of stringify arrived disk valid parse view opts "[]"] intact_holds [of valid stringify arrived] assms(2,3)
    by auto
qed

text \<open>Files only grow while nothing is torn, so the bounds hold of what there was before.\<close>

lemma fits_before:
  assumes "log_intact valid stringify view disk rs" "log_added opts valid stringify disk es disk'"
    and "log_fits opts (file_bytes disk')"
  shows "log_fits opts (file_bytes disk)"
  using added_bytes [OF assms(1,2)] assms(3) by (auto simp: log_fits_def count_list_append)

section \<open>What is not promised\<close>

lemma replay_lines_reject:
  assumes "\<forall>t\<in>set ts. json_line t \<and> (\<forall>i. \<exists>r. parse i t = Inr r)"
    and "\<forall>m. lo_maxRecords opts = Some m \<longrightarrow> k + length ts < m"
    and "js_trim bad \<noteq> []" "parse (i + length ts) (js_trim bad) = Inl err" "others \<noteq> []"
  shows "replay_lines opts parse e i k (ts @ bad # others) = Inl (ParseFailed err)"
  using assms
proof (induction ts arbitrary: i k)
  case (Cons t ts)
  obtain r where r: "parse i t = Inr r" using Cons.prems(1) by (metis list.set_intros(1))
  have "replay_lines opts parse e (Suc i) (Suc k) (ts @ bad # others) = Inl (ParseFailed err)"
    by (rule Cons.IH) (use Cons.prems in auto)
  moreover have "json_line t" using Cons.prems(1) by simp
  ultimately show ?case
    using Cons.prems(2) r by (auto simp: json_line_trim json_line_def Let_def)
qed (auto simp: Let_def)

text \<open>
  When the repair of a torn line is given up because the file cannot be opened for reading and
  writing, the append still goes on and returns: the torn line and the first new one become one line
  that is rejected, and every later replay throws, whatever is appended.
\<close>

theorem abandoned_repair_spoils_log:
  assumes "log_holds ts f" "f \<noteq> whole_lines f" "\<forall>t\<in>set ts. \<forall>i. \<exists>r. parse i t = Inr r"
    and "le_error E OpenRepair \<noteq> None" "\<forall>c\<in>{Mkdir, OpenAppend, Write, Fsync, Close}. le_error E c = None"
    and "\<forall>k. le_written E k = k" "stringify event = Some t" "json_line t"
    and "js_trim (toString (drop (length (log_bytes ts)) f @ utf8 t)) \<noteq> []"
    and "parse (length ts) (js_trim (toString (drop (length (log_bytes ts)) f @ utf8 t))) = Inl err"
    and "log_fits opts (f @ line_bytes t @ others)"
  shows "appendSync opts E stringify [event] durable onCreate (Some f) = (None, Some (f @ line_bytes t))
    \<and> replaySync opts parse (open_file (Some (f @ line_bytes t @ others)) []) = Inl (ParseFailed err)"
proof -
  from assms(1) obtain tail where f: "f = log_bytes ts @ tail" "10 \<notin> set tail" and ts: "\<forall>t\<in>set ts. json_line t"
    by (auto simp: log_holds_def)
  let ?bad = "toString (tail @ utf8 t)" and ?g = "f @ line_bytes t @ others"
  have t: "10 \<notin> set (tail @ utf8 t)" using f(2) assms(8) by (simp add: json_line_def utf8_no_newline)
  have g: "?g = log_bytes ts @ (tail @ utf8 t) @ 10 # others" by (simp add: f(1) line_bytes_def)
  have "toString ?g = concat (map (\<lambda>t. t @ [newline]) ts) @ ?bad @ newline # toString others"
    using toString_lines [OF ts, of "(tail @ utf8 t) @ 10 # others"] toString_newline [of "tail @ utf8 t" others]
    unfolding g by simp
  moreover have "split_on newline (concat (map (\<lambda>t. t @ [newline]) ts) @ ?bad @ newline # toString others)
      = ts @ ?bad # split_on newline (toString others)"
    using ts by (induction ts) (simp_all add: split_on_line json_line_def toString_no_newline [OF t])
  ultimately have lines: "split_on newline (toString ?g) = ts @ ?bad # split_on newline (toString others)" by simp
  have "\<forall>m. lo_maxRecords opts = Some m \<longrightarrow> 0 + length ts < m"
    using assms(11) count_lines [OF ts] by (fastforce simp: log_fits_def f(1) count_list_append line_bytes_def)
  then have "replay_lines opts parse e 0 0 (ts @ ?bad # split_on newline (toString others)) = Inl (ParseFailed err)" for e
    by (rule replay_lines_reject [rotated]) (use ts assms(3,9,10) f(1) in simp_all)
  moreover have "readAllSync (lo_maxBytes opts) ?g ?g = Inr ?g"
    using assms(11) by (auto simp: readAllSync_def log_fits_def)
  ultimately have "replaySync opts parse (open_file (Some ?g) []) = Inl (ParseFailed err)"
    by (simp add: open_file_def lines Let_def)
  moreover have "appendSync opts E stringify [event] durable onCreate (Some f) = (None, Some (f @ line_bytes t))"
    using assms(4-7) assms(11) utf8_newline [of t "[]"]
    by (auto simp: appendSync_def repairTailSync_def serializeLine_def write_failure_def log_fits_def line_bytes_def
        utf8_def [of "[]"] Let_def split: option.splits)
  ultimately show ?thesis by simp
qed

section \<open>Examples\<close>

text \<open>A log of events whose text is an empty object.\<close>

definition demo_text :: jsstring where
  "demo_text = [123, 125]"

definition demo_serializer :: "unit serializer" where
  "demo_serializer e = Some demo_text"

definition demo_parser :: "unit line_parser" where
  "demo_parser i s = (if s = demo_text then Inr (Some ()) else Inl (Error ''Malformed line''))"

definition demo_options :: log_options where
  "demo_options = \<lparr>lo_maxBytes = Some 1000, lo_maxRecords = Some 10\<rparr>"

definition demo_env :: "log_call list \<Rightarrow> log_env" where
  "demo_env failing = \<lparr>le_error = (\<lambda>c. if c \<in> set failing then Some (Error ''EACCES'') else None),
     le_between = id, le_settle = id, le_late = id, le_written = id\<rparr>"

lemma demo_json: "json_line demo_text"
  by (simp add: json_line_def demo_text_def newline_def is_js_space_def units_ok_def is_high_def is_low_def)

lemma demo_codec: "log_codec (\<lambda>_. True) demo_serializer demo_parser Some"
  by (simp add: log_codec_def demo_serializer_def demo_parser_def demo_json)

lemma demo_calm: "calm (demo_env [])" "k \<le> le_written (demo_env failing) k"
  by (simp_all add: calm_def demo_env_def)

lemma demo_bytes: "utf8 demo_text = [123, 125]" "utf8 (demo_text @ [newline]) = [123, 125, 10]"
  by (simp_all add: demo_text_def utf8_def encode_cp_def is_high_def is_low_def newline_def)

lemma demo_append:
  "appendSync demo_options (demo_env []) demo_serializer [()] True [] None = (None, Some [123, 125, 10])"
  using demo_bytes(2) by (simp add: appendSync_def serializeLine_def demo_serializer_def demo_env_def write_failure_def)

lemma demo_history: "log_history demo_options (\<lambda>_. True) demo_serializer [()] (Some [123, 125, 10])"
  using appended [OF no_log demo_calm(1) _ demo_append] by (simp add: payload_events_def demo_env_def)


lemma append_extends_replay_witness:
  "\<exists>old. replaySync demo_options demo_parser (open_file None []) = Inr old
    \<and> replaySync demo_options demo_parser (open_file (Some [123, 125, 10]) []) = Inr (old @ [()])"
  using append_extends_replay [OF no_log demo_codec demo_calm(1) _ demo_append]
  by (simp add: log_fits_def file_bytes_def demo_options_def demo_env_def List.map_filter_def payload_events_def)

lemma abandoned_repair_spoils_log_witness:
  "appendSync demo_options (demo_env [OpenRepair]) demo_serializer [()] True [] (Some [123]) = (None, Some [123, 123, 125, 10])
    \<and> replaySync demo_options demo_parser (open_file (Some [123, 123, 125, 10, 123, 125, 10]) []) = Inl (ParseFailed (Error ''Malformed line''))"
proof -
  have read: "toString [123, 123, 125] = [123, 123, 125]"
    by (simp add: toString_def utf8_text_def utf8_byte_def first_byte_def utf8_idle_def utf8_end_def cp_units_def Let_def)
  have trimmed: "js_trim [123, 123, 125] = [123, 123, 125]" by (rule js_trim_id) (simp_all add: is_js_space_def)
  show ?thesis
    using abandoned_repair_spoils_log [of "[]" "[123]" demo_parser "demo_env [OpenRepair]" demo_serializer "()" demo_text
        "Error ''Malformed line''" demo_options "[123, 125, 10]" True "[]"]
    by (simp add: log_holds_def whole_lines_def demo_env_def demo_serializer_def demo_json demo_bytes read trimmed
        line_bytes_def log_fits_def demo_options_def) (simp add: demo_parser_def demo_text_def)
qed

text \<open>
  An unfinished line may be readable: a replay gives its event, and the next append, even of nothing,
  discards it.
\<close>

lemma readable_tail_discarded:
  "replaySync demo_options demo_parser (open_file (Some [123, 125]) []) = Inr [()]
    \<and> appendSync demo_options (demo_env []) demo_serializer [] True [] (Some [123, 125]) = (None, Some [])"
proof -
  have read: "toString [123, 125] = demo_text"
    by (simp add: demo_text_def toString_def utf8_text_def utf8_byte_def first_byte_def utf8_idle_def utf8_end_def
        cp_units_def Let_def)
  have "replaySync demo_options demo_parser (open_file (Some [123, 125]) []) = Inr [()]"
    using json_line_trim [OF demo_json]
    by (simp add: open_file_def readAllSync_def demo_options_def read Let_def) (simp add: demo_text_def newline_def demo_parser_def)
  then show ?thesis
    by (simp add: appendSync_def repairTailSync_def demo_env_def demo_options_def whole_lines_def readAllSync_def
        ftruncate_def write_failure_def utf8_def Let_def)
qed

text \<open>Nothing keeps an append below the bound on reads: once above it, every replay and every append throws.\<close>

lemma oversized_log_locks:
  assumes "lo_maxBytes opts = Some m" "m < length f" "le_error E Mkdir = None" "le_error E Stat = None"
    and "\<forall>e\<in>set events. stringify e \<noteq> None"
  shows "replaySync opts parse (open_file (Some f) grown) = Inl (ExceedsBytes (length f))
    \<and> appendSync opts E stringify events durable onCreate (Some f) = (Some (ExceedsBytes (length f)), Some f)"
proof -
  have "f \<noteq> []" using assms(2) by auto
  with assms show ?thesis
    by (auto simp: open_file_def readAllSync_def appendSync_def serialize_all_map repairTailSync_def)
qed

end
