(* ===== verification/Rlm_Ledger_Props.thy ===== *)
theory Rlm_Ledger_Props
  imports Rlm_Ledger Event_Log_Props
begin

text \<open>
  The spawn ledger over the event log: its records are read back as they were written, so that an
  operation changes the edges as its record says; no path is the child of two live edges; a deleted
  session leaves no live edge; rows of a family agree on depths; and seeding ends.
\<close>

section \<open>Records are read back\<close>

definition valid_record :: "ledger_record \<Rightarrow> bool" where
  "valid_record r = (case r of SpawnRecord s \<Rightarrow> 1 \<le> sp_depth s \<and> sp_depth s \<le> 2 ^ 53 - 1 | _ \<Rightarrow> True)"

text \<open>What \<open>JSON.stringify\<close> and \<open>JSON.parse\<close> do with the records of the ledger.\<close>

definition json_host :: "ledger_host \<Rightarrow> bool" where
  "json_host L \<longleftrightarrow> (\<forall>r s. ledger_text L r = Some s \<longrightarrow> json_line s \<and> lg_parse L s = Some (record_json (lg_now L) r))"

lemma digit_value: "n < 10 \<Longrightarrow> of_char (char_of (48 + n)) = (48 + n :: nat)"
  by simp

lemma dec_digits_value:
  "n < f \<Longrightarrow> foldl (\<lambda>n c. n * 10 + (of_char c - 48)) 0 (dec_digits f n) = n
    \<and> list_all (\<lambda>c. 48 \<le> (of_char c :: nat) \<and> of_char c < (58 :: nat)) (dec_digits f n) \<and> dec_digits f n \<noteq> []"
proof (induction f arbitrary: n)
  case (Suc f)
  show ?case
  proof (cases "n < 10")
    case True
    then show ?thesis by simp
  next
    case False
    then have "n div 10 < f" using Suc.prems by simp
    from Suc.IH [OF this] False show ?thesis by simp
  qed
qed simp

lemma parse_dec_dec: "parse_dec (dec n) = Some n"
  using dec_digits_value [of n "Suc n"] by (simp add: parse_dec_def dec_def)

lemma isDeleteReason_text: "isDeleteReason (reason_text r) = Some r"
  by (cases r) (simp_all add: isDeleteReason_def)

lemma read_record_json:
  assumes "valid_record r"
  shows "read_record i (record_json now r) = Inr (Some r)"
proof (cases r)
  case (SpawnRecord s)
  with assms show ?thesis
    by (simp add: read_record_def string_field_def safe_depth_def parse_dec_dec valid_record_def)
qed (simp_all add: read_record_def string_field_def isDeleteReason_text)

lemma ledger_codec: "json_host L \<Longrightarrow> log_codec valid_record (ledger_text L) (parseLedgerLine L) Some"
  by (auto simp: log_codec_def json_host_def parseLedgerLine_def read_record_json)

section \<open>Appends through the interface\<close>

definition ledger_intact :: "ledger_host \<Rightarrow> disk \<Rightarrow> ledger_record list \<Rightarrow> bool" where
  "ledger_intact L = log_intact valid_record (ledger_text L) Some"

text \<open>Nobody else writes, and what is written arrives.\<close>

definition undisturbed :: "log_env \<Rightarrow> bool" where
  "undisturbed E \<longleftrightarrow> calm E \<and> (\<forall>k. k \<le> le_written E k)"

text \<open>The records an append writes; the first one of a log is preceded by the record about it.\<close>

definition with_meta :: "ledger_host \<Rightarrow> disk \<Rightarrow> ledger_record list \<Rightarrow> ledger_record list" where
  "with_meta L d rs = (if d = None then MetaRecord (lg_sessionsDir L) # rs else rs)"

lemma append_added:
  assumes "undisturbed E" "appendRecord L E r d = (None, d')" "valid_record r"
  shows "log_added ledger_options valid_record (ledger_text L) d (with_meta L d [r]) d'"
proof -
  from assms(2) have "appendSync ledger_options E (ledger_text L) [r] True [MetaRecord (lg_sessionsDir L)] d = (None, d')"
    by (auto simp: appendRecord_def split: prod.splits)
  with assms(1,3) show ?thesis
    unfolding log_added_def undisturbed_def
    by (intro exI [of _ E] exI [of _ "[r]"] exI [of _ True] exI [of _ "[MetaRecord (lg_sessionsDir L)]"])
      (auto simp: with_meta_def payload_events_def valid_record_def)
qed

lemma map_filter_Some: "List.map_filter Some xs = xs"
  by (simp add: List.map_filter_def comp_def)

text \<open>The edges after an append are those of before, changed by its record.\<close>

lemma append_edges:
  assumes "ledger_intact L d rs" "undisturbed E" "appendRecord L E r d = (None, d')" "valid_record r"
  obtains rs' where "ledger_intact L d' rs'" "edges_of L rs' = apply_ledger_record L r (edges_of L rs)"
proof -
  obtain rs' where "log_intact valid_record (ledger_text L) Some d' rs'"
    "fold (apply_ledger_record L) rs' [] =
     fold (apply_ledger_record L) (List.map_filter Some (with_meta L d [r])) (fold (apply_ledger_record L) rs [])"
    by (rule event_log.folded_intact [OF assms(1) [unfolded ledger_intact_def] append_added [OF assms(2-4)]])
  with that [of rs'] show thesis
    by (simp add: ledger_intact_def edges_of_def with_meta_def map_filter_Some split: if_splits)
qed

lemma open_log_file: "open_log d = open_file d []"
  by (simp add: open_log_def open_file_def split: option.split)

lemma intact_edges:
  assumes "ledger_intact L d rs" "json_host L" "log_fits ledger_options (file_bytes d)"
  shows "replay_edges L (open_log d) = Inr (edges_of L rs)"
  using intact_replay [OF assms(1) [unfolded ledger_intact_def] ledger_codec [OF assms(2)] assms(3)]
  by (simp add: replay_edges_def open_log_file)

lemma append_fits:
  assumes "ledger_intact L d rs" "undisturbed E" "appendRecord L E r d = (None, d')" "valid_record r"
    and "log_fits ledger_options (file_bytes d')"
  shows "log_fits ledger_options (file_bytes d)"
  using fits_before [OF assms(1) [unfolded ledger_intact_def] append_added [OF assms(2-4)] assms(5)] .

text \<open>Several appends in a row.\<close>

lemma append_each_edges:
  assumes "ledger_intact L d rs" "\<forall>k. undisturbed (E k)" "append_each L E k records d = (None, d')"
    and "\<forall>r\<in>set records. valid_record r"
  shows "\<exists>rs'. ledger_intact L d' rs' \<and> edges_of L rs' = fold (apply_ledger_record L) records (edges_of L rs)
    \<and> (log_fits ledger_options (file_bytes d') \<longrightarrow> log_fits ledger_options (file_bytes d))"
  using assms
proof (induction records arbitrary: k d rs)
  case (Cons r records)
  from Cons.prems(3) obtain d1 where d1: "appendRecord L (E k) r d = (None, d1)" "append_each L E (Suc k) records d1 = (None, d')"
    by (auto split: prod.splits option.splits)
  have one: "undisturbed (E k)" "valid_record r" using Cons.prems(2,4) by auto
  obtain rs1 where rs1: "ledger_intact L d1 rs1" "edges_of L rs1 = apply_ledger_record L r (edges_of L rs)"
    by (rule append_edges [OF Cons.prems(1) one(1) d1(1) one(2)])
  from Cons.IH [OF rs1(1) Cons.prems(2) d1(2)] Cons.prems(4) rs1(2)
    append_fits [OF Cons.prems(1) one(1) d1(1) one(2)] show ?case by auto
qed auto

section \<open>One live edge for a path\<close>

text \<open>\<open>realpath\<close> of a canonical path is the path.\<close>

definition canonical_stable :: "ledger_host \<Rightarrow> bool" where
  "canonical_stable L \<longleftrightarrow> (\<forall>p. canonical L (canonical L p) = canonical L p)"

definition edges_ok :: "ledger_host \<Rightarrow> edge_map \<Rightarrow> bool" where
  "edges_ok L es \<longleftrightarrow> distinct (map fst es)
     \<and> (\<forall>k e. map_of es k = Some e \<longrightarrow> k = edgeKey L (ed_childId e) (ed_child e) \<and> 1 \<le> ed_depth e)
     \<and> (\<forall>k1 e1 k2 e2. map_of es k1 = Some e1 \<longrightarrow> map_of es k2 = Some e2 \<longrightarrow> ed_deleted e1 = None \<longrightarrow> ed_deleted e2 = None
          \<longrightarrow> canonical L (ed_child e1) = canonical L (ed_child e2) \<longrightarrow> k1 = k2)"

lemma edges_ok_Nil [simp]: "edges_ok L []"
  by (simp add: edges_ok_def)

text \<open>A change of an edge that keeps its path, owner and depth, and does not revive it.\<close>

lemma map_edge_ok:
  assumes "edges_ok L es"
    and "\<And>e. ed_child (f e) = ed_child e \<and> ed_childId (f e) = ed_childId e \<and> ed_depth (f e) = ed_depth e
          \<and> (ed_deleted (f e) = None \<longrightarrow> ed_deleted e = None)"
  shows "edges_ok L (map_edge key f es)"
proof (cases "map_of es key")
  case (Some e)
  let ?es = "AList.update key (f e) es"
  have before: "\<exists>e0. map_of es k = Some e0 \<and> ed_child e1 = ed_child e0 \<and> ed_childId e1 = ed_childId e0
      \<and> ed_depth e1 = ed_depth e0 \<and> (ed_deleted e1 = None \<longrightarrow> ed_deleted e0 = None)"
    if "map_of ?es k = Some e1" for k e1
    using that Some assms(2) by (auto simp: update_conv' split: if_splits)
  have "edges_ok L ?es"
    unfolding edges_ok_def
  proof (intro conjI allI impI)
    show "distinct (map fst ?es)" using assms(1) by (simp add: edges_ok_def distinct_update)
  next
    fix k e1 assume "map_of ?es k = Some e1"
    from before [OF this] assms(1) show "k = edgeKey L (ed_childId e1) (ed_child e1)" "1 \<le> ed_depth e1"
      by (auto simp: edges_ok_def)
  next
    fix k1 e1 k2 e2
    assume "map_of ?es k1 = Some e1" "map_of ?es k2 = Some e2" "ed_deleted e1 = None" "ed_deleted e2 = None"
      "canonical L (ed_child e1) = canonical L (ed_child e2)"
    with before [of k1 e1] before [of k2 e2] assms(1) show "k1 = k2" unfolding edges_ok_def by metis
  qed
  then show ?thesis by (simp add: map_edge_def Some)
qed (use assms(1) in \<open>simp add: map_edge_def\<close>)

lemma find_duplicate_None:
  "find_duplicate L childId p es = None \<longleftrightarrow> (\<forall>e\<in>set es. canonical L (ed_child e) = p \<longrightarrow> ed_childId e = childId)"
  by (induction es) auto

lemma set_live_edges: "distinct (map fst es) \<Longrightarrow> e \<in> set (live_edges es) \<longleftrightarrow> (\<exists>k. map_of es k = Some e \<and> ed_deleted e = None)"
  by (auto simp: live_edges_def edge_list_def) force+

lemma spawn_ok:
  assumes ok: "edges_ok L es" and "canonical_stable L" and child: "sp_child r = canonical L c" and "1 \<le> sp_depth r"
    and "find_duplicate L (sp_childId r) (sp_child r) (live_edges es) = None"
  shows "edges_ok L (apply_ledger_record L (SpawnRecord r) es)"
proof -
  let ?k = "edgeKey L (sp_childId r) (sp_child r)"
  let ?e = "\<lparr>ed_childId = sp_childId r, ed_parent = sp_parent r, ed_child = sp_child r, ed_depth = sp_depth r,
        ed_name = sp_name r, ed_deleted = None\<rparr>"
  have stable: "canonical L (sp_child r) = sp_child r" using assms(2) child by (simp add: canonical_stable_def)
  have same: "k = ?k" if "map_of es k = Some e" "ed_deleted e = None" "canonical L (ed_child e) = sp_child r" for k e
  proof -
    have "e \<in> set (live_edges es)" using ok that set_live_edges by (auto simp: edges_ok_def)
    with assms(5) that(3) have "ed_childId e = sp_childId r" by (simp add: find_duplicate_None)
    moreover have "k = edgeKey L (ed_childId e) (ed_child e)" using ok that(1) by (simp add: edges_ok_def)
    ultimately show ?thesis using that(3) stable by (simp add: edgeKey_def)
  qed
  let ?es = "AList.update ?k ?e es"
  have get: "map_of ?es k = (if k = ?k then Some ?e else map_of es k)" for k by (simp add: update_conv')
  have "edges_ok L ?es"
    unfolding edges_ok_def
  proof (intro conjI allI impI)
    show "distinct (map fst ?es)" using ok by (simp add: edges_ok_def distinct_update)
  next
    fix k e assume "map_of ?es k = Some e"
    with ok assms(4) show "k = edgeKey L (ed_childId e) (ed_child e)" "1 \<le> ed_depth e"
      by (auto simp: get edges_ok_def split: if_splits)
  next
    fix k1 e1 k2 e2
    assume 1: "map_of ?es k1 = Some e1" "ed_deleted e1 = None" and 2: "map_of ?es k2 = Some e2" "ed_deleted e2 = None"
      and eq: "canonical L (ed_child e1) = canonical L (ed_child e2)"
    show "k1 = k2"
    proof (cases "k1 = ?k \<or> k2 = ?k")
      case True
      then have "canonical L (ed_child e1) = sp_child r" using 1(1) 2(1) eq stable by (auto simp: get)
      with same [of k1 e1] same [of k2 e2] 1 2 eq show ?thesis by (simp add: get split: if_splits)
    next
      case False
      with 1 2 eq ok show ?thesis unfolding edges_ok_def by (metis get)
    qed
  qed
  then show ?thesis by simp
qed

lemma find_duplicate_new:
  assumes "\<And>k e. map_of es k = Some e \<Longrightarrow> canonical L (ed_child e) \<noteq> p" "distinct (map fst es)"
  shows "find_duplicate L childId p (live_edges es) = None"
proof -
  have "canonical L (ed_child e) \<noteq> p" if "e \<in> set (live_edges es)" for e
    using that assms(1) set_live_edges [OF assms(2)] by blast
  then show ?thesis by (auto simp: find_duplicate_None)
qed

text \<open>Spawns of children nobody has, one after the other.\<close>

lemma spawn_all_ok:
  assumes "edges_ok L es" "canonical_stable L" "distinct (map sp_child records)"
    and "\<forall>r\<in>set records. (\<exists>c. sp_child r = canonical L c) \<and> 1 \<le> sp_depth r"
    and "\<forall>k e. map_of es k = Some e \<longrightarrow> canonical L (ed_child e) \<notin> sp_child ` set records"
  shows "edges_ok L (fold (apply_ledger_record L) (map SpawnRecord records) es)"
  using assms
proof (induction records arbitrary: es)
  case (Cons r records)
  let ?es = "apply_ledger_record L (SpawnRecord r) es"
  obtain c where c: "sp_child r = canonical L c" "1 \<le> sp_depth r" using Cons.prems(4) by auto
  have stable: "canonical L (sp_child r) = sp_child r" using Cons.prems(2) c by (simp add: canonical_stable_def)
  have "find_duplicate L (sp_childId r) (sp_child r) (live_edges es) = None"
    by (rule find_duplicate_new) (use Cons.prems(1,5) in \<open>auto simp: edges_ok_def\<close>)
  then have "edges_ok L ?es" by (rule spawn_ok [OF Cons.prems(1,2) c])
  moreover have "\<forall>k e. map_of ?es k = Some e \<longrightarrow> canonical L (ed_child e) \<notin> sp_child ` set records"
    using Cons.prems(3,5) stable by (auto simp: update_conv')
  ultimately show ?case using Cons.IH [of ?es] Cons.prems by simp
qed simp

section \<open>Seeding\<close>

definition seed_inv :: "ledger_host \<Rightarrow> string list \<Rightarrow> seed_state \<Rightarrow> bool" where
  "seed_inv L roots s \<longleftrightarrow> distinct (map sp_child (sd_records s)) \<and> set roots \<subseteq> set (sd_visited s)
     \<and> sp_child ` set (sd_records s) \<subseteq> set (sd_visited s) - set roots
     \<and> (\<forall>r\<in>set (sd_records s). (\<exists>c. sp_child r = canonical L c) \<and> 1 \<le> sp_depth r)"

lemma seed_entries_inv: "seed_inv L roots s \<Longrightarrow> seed_inv L roots (seed_entries L f depth es s)"
proof (induction es arbitrary: s)
  case (Cons e es)
  have "seed_inv L roots (s\<lparr>sd_visited := sd_visited s @ [canonical L (se_sessionFile e)]\<rparr>)"
    using Cons.prems by (auto simp: seed_inv_def)
  moreover have "seed_inv L roots
      (s\<lparr>sd_visited := sd_visited s @ [canonical L (se_sessionFile e)],
        sd_records := sd_records s @ [\<lparr>sp_childId = i, sp_parent = p, sp_child = canonical L (se_sessionFile e),
                            sp_depth = n, sp_name = nm\<rparr>], sd_queue := q\<rparr>)"
    if "canonical L (se_sessionFile e) \<notin> set (sd_visited s)" "1 \<le> n" for i p n nm q
    using Cons.prems that unfolding seed_inv_def by auto
  ultimately show ?case using Cons.IH Cons.prems by (auto simp: Let_def split: option.splits)
qed simp

lemma seed_loop_inv:
  assumes "seed_loop L registry s = Some records" "seed_inv L roots s"
  shows "\<exists>s'. sd_records s' = records \<and> seed_inv L roots s'"
  using assms
proof (induction rule: seed_loop.raw_induct [rotated, consumes 1, case_names step])
  case (step loop L registry s records)
  show ?case
  proof (cases "sd_queue s")
    case Nil
    with step show ?thesis by auto
  next
    case (Cons q rest)
    obtain f depth where q: "q = (f, depth)" by force
    let ?s = "seed_entries L f depth (registry f) (s\<lparr>sd_queue := rest\<rparr>)"
    have "seed_inv L roots ?s" by (rule seed_entries_inv) (use step.prems in \<open>simp add: seed_inv_def\<close>)
    moreover have "loop L registry ?s = Some records" using step Cons q by simp
    ultimately show ?thesis using step by blast
  qed
qed

lemma seed_start_inv: "seed_inv L (map (canonical L) (session_files L W)) (seed_start L W)"
  by (simp add: seed_inv_def seed_start_def)

text \<open>Every queued session has used up a path that was not visited before.\<close>

lemma seed_entries_measure:
  assumes "finite U" "\<forall>e\<in>set es. canonical L (se_sessionFile e) \<in> U"
  shows "card (U - set (sd_visited (seed_entries L f depth es s))) + length (sd_queue (seed_entries L f depth es s))
    \<le> card (U - set (sd_visited s)) + length (sd_queue s)"
  using assms(2)
proof (induction es arbitrary: s)
  case (Cons e es)
  let ?p = "canonical L (se_sessionFile e)"
  have shrink: "card (U - insert ?p (set (sd_visited s))) + 1 \<le> card (U - set (sd_visited s))" if "?p \<notin> set (sd_visited s)"
  proof -
    have "card (U - insert ?p (set (sd_visited s))) < card (U - set (sd_visited s))"
      using assms(1) Cons.prems that by (intro psubset_card_mono) auto
    then show ?thesis by simp
  qed
  have "card (U - set (sd_visited (seed_entries L f depth es t))) + length (sd_queue (seed_entries L f depth es t))
      \<le> card (U - set (sd_visited t)) + length (sd_queue t)" for t
    by (rule Cons.IH) (use Cons.prems in simp)
  note IH = this
  show ?case
    using IH [of s] shrink IH [of "s\<lparr>sd_visited := sd_visited s @ [?p]\<rparr>"] IH [of "s\<lparr>sd_visited := sd_visited s @ [?p],
        sd_records := sd_records s @ [\<lparr>sp_childId = se_childId e, sp_parent = canonical L f, sp_child = ?p,
           sp_depth = (case se_rlmDepth e of Some d \<Rightarrow> if d \<ge> 1 then d else depth + 1 | None \<Rightarrow> depth + 1),
           sp_name = se_sessionName e\<rparr>],
        sd_queue := sd_queue s @ [(se_sessionFile e, case se_rlmDepth e of Some d \<Rightarrow> if d \<ge> 1 then d else depth + 1 | None \<Rightarrow> depth + 1)]\<rparr>"]
    by (auto simp: Let_def)
qed simp

lemma seed_loop_ends:
  assumes "finite U" "\<And>f e. e \<in> set (registry f) \<Longrightarrow> canonical L (se_sessionFile e) \<in> U"
  shows "\<exists>records. seed_loop L registry s = Some records"
proof (induction "card (U - set (sd_visited s)) + length (sd_queue s)" arbitrary: s rule: less_induct)
  case less
  show ?case
  proof (cases "sd_queue s")
    case (Cons q rest)
    obtain f depth where q: "q = (f, depth)" by force
    let ?s = "seed_entries L f depth (registry f) (s\<lparr>sd_queue := rest\<rparr>)"
    have "card (U - set (sd_visited ?s)) + length (sd_queue ?s) \<le> card (U - set (sd_visited s)) + length rest"
      using seed_entries_measure [OF assms(1), of "registry f" L f depth "s\<lparr>sd_queue := rest\<rparr>"] assms(2) by simp
    then have "\<exists>records. seed_loop L registry ?s = Some records" using less.hyps [of ?s] Cons by simp
    then show ?thesis using Cons q by (subst seed_loop.simps) simp
  qed (simp add: seed_loop.simps)
qed

text \<open>
  Seeding ends if the registries name finitely many sessions: it records each of them at most
  once, none of them a session of the directory itself, at a depth of at least one.
\<close>

theorem seed_terminates:
  assumes "finite U" "\<forall>f. \<forall>e\<in>set (registry f). canonical L (se_sessionFile e) \<in> U"
  shows "\<exists>records. seed_loop L registry (seed_start L W) = Some records \<and> distinct (map sp_child records)
    \<and> sp_child ` set records \<inter> canonical L ` set (session_files L W) = {} \<and> (\<forall>r\<in>set records. 1 \<le> sp_depth r)"
proof -
  obtain records where r: "seed_loop L registry (seed_start L W) = Some records"
    using seed_loop_ends [OF assms(1), of registry L] assms(2) by blast
  from seed_loop_inv [OF r seed_start_inv] show ?thesis using r by (auto simp: seed_inv_def)
qed

section \<open>Histories of a ledger\<close>

text \<open>The operations that return, one after the other; a seed comes first.\<close>

inductive ledger_run :: "ledger_host \<Rightarrow> disk \<Rightarrow> bool" for L where
  no_ledger: "ledger_run L None"
| seeded: "seed L W (Some registry) linkFails None None = Some d' \<Longrightarrow>
    \<forall>records. seed_loop L registry (seed_start L W) = Some records \<longrightarrow> (\<forall>r\<in>set records. sp_depth r \<le> 2 ^ 53 - 1) \<Longrightarrow>
    ledger_run L d'"
| spawned: "ledger_run L d \<Longrightarrow> undisturbed E \<Longrightarrow> appendSpawnUnlocked L E r d = (None, d') \<Longrightarrow> ledger_run L d'"
| renamed: "ledger_run L d \<Longrightarrow> undisturbed E \<Longrightarrow> appendRename L E childId child name d = (None, d') \<Longrightarrow> ledger_run L d'"
| renamed_path: "ledger_run L d \<Longrightarrow> \<forall>k. undisturbed (E k) \<Longrightarrow> appendRenameByChildPath L E child name d = (None, d') \<Longrightarrow>
    ledger_run L d'"
| deleted: "ledger_run L d \<Longrightarrow> undisturbed E \<Longrightarrow> appendDelete L E childId child reason d = (None, d') \<Longrightarrow> ledger_run L d'"
| tombstoned: "ledger_run L d \<Longrightarrow> \<forall>k. undisturbed (E k) \<Longrightarrow>
    tombstoneSavedSessionDelete L W E sessionPath summary d = (Inr edge, d') \<Longrightarrow> ledger_run L d'"

abbreviation fits :: "disk \<Rightarrow> bool" where
  "fits d \<equiv> log_fits ledger_options (file_bytes d)"

definition ledger_inv :: "ledger_host \<Rightarrow> disk \<Rightarrow> bool" where
  "ledger_inv L d \<longleftrightarrow> (\<exists>rs. ledger_intact L d rs \<and> (fits d \<longrightarrow> edges_ok L (edges_of L rs)))"

lemma json_lines: "json_host L \<Longrightarrow> text_lines valid_record (ledger_text L)"
  by (rule codec_lines [OF ledger_codec])

lemma ledger_inv_start: "json_host L \<Longrightarrow> ledger_inv L None"
  unfolding ledger_inv_def ledger_intact_def
  by (rule exI [of _ "[]"]) (simp add: intact_empty json_lines edges_of_def)

text \<open>One record that leaves the edges as they should be.\<close>

lemma ledger_inv_append:
  assumes "ledger_inv L d" "undisturbed E" "appendRecord L E r d = (None, d')" "valid_record r"
    and "\<And>rs. ledger_intact L d rs \<Longrightarrow> fits d \<Longrightarrow> edges_ok L (edges_of L rs) \<Longrightarrow>
      edges_ok L (apply_ledger_record L r (edges_of L rs))"
  shows "ledger_inv L d'"
proof -
  from assms(1) obtain rs where rs: "ledger_intact L d rs" "fits d \<longrightarrow> edges_ok L (edges_of L rs)"
    unfolding ledger_inv_def by blast
  obtain rs' where rs': "ledger_intact L d' rs'" "edges_of L rs' = apply_ledger_record L r (edges_of L rs)"
    by (rule append_edges [OF rs(1) assms(2-4)])
  have "edges_ok L (edges_of L rs')" if "fits d'"
    using append_fits [OF rs(1) assms(2-4) that] rs rs'(2) assms(5) by simp
  with rs'(1) show ?thesis unfolding ledger_inv_def by blast
qed

lemma ledger_inv_each:
  assumes "ledger_inv L d" "\<forall>k. undisturbed (E k)" "append_each L E k records d = (None, d')"
    and "\<forall>r\<in>set records. valid_record r \<and> (\<forall>es. edges_ok L es \<longrightarrow> edges_ok L (apply_ledger_record L r es))"
  shows "ledger_inv L d'"
proof -
  from assms(1) obtain rs where rs: "ledger_intact L d rs" "fits d \<longrightarrow> edges_ok L (edges_of L rs)"
    unfolding ledger_inv_def by blast
  obtain rs' where rs': "ledger_intact L d' rs'" "edges_of L rs' = fold (apply_ledger_record L) records (edges_of L rs)"
    "fits d' \<longrightarrow> fits d"
    using append_each_edges [OF rs(1) assms(2,3)] assms(4) by blast
  have "edges_ok L (fold (apply_ledger_record L) records es)" if "edges_ok L es" for es
    using assms(4) that by (induction records arbitrary: es) auto
  with rs rs' show ?thesis unfolding ledger_inv_def by auto
qed

lemma rename_ok: "edges_ok L es \<Longrightarrow> edges_ok L (apply_ledger_record L (RenameRecord i c n) es)"
  by (simp add: map_edge_ok)

lemma delete_ok: "edges_ok L es \<Longrightarrow> edges_ok L (apply_ledger_record L (DeleteRecord i c n) es)"
  by (simp add: map_edge_ok)

lemma seed_intact:
  assumes "json_host L" "seed_file L records = Some f" "\<forall>r\<in>set records. 1 \<le> sp_depth r \<and> sp_depth r \<le> 2 ^ 53 - 1"
  shows "ledger_intact L (Some f) (MetaRecord (lg_sessionsDir L) # map SpawnRecord records)"
proof -
  let ?rs = "MetaRecord (lg_sessionsDir L) # map SpawnRecord records"
  from assms(2) have ser: "\<forall>r\<in>set ?rs. ledger_text L r \<noteq> None"
    and f: "f = utf8 (concat (map (\<lambda>e. text_of (ledger_text L) e @ [newline]) ?rs))"
    by (auto simp: seed_file_def serialize_all_map Let_def simp del: set_simps list.map concat.simps split: if_splits)
  have "f = log_bytes (map (text_of (ledger_text L)) ?rs)"
    unfolding f utf8_lines [symmetric] by (simp add: comp_def)
  moreover have "\<forall>r\<in>set ?rs. valid_record r" using assms(3) by (auto simp: valid_record_def)
  ultimately show ?thesis
    unfolding ledger_intact_def log_intact_def
    using ser json_lines [OF assms(1)] by (intro conjI exI [of _ ?rs]) (auto simp: file_bytes_def map_filter_Some)
qed

lemma tombstone_cases:
  assumes "tombstoneSavedSessionDelete L W E sessionPath summary d = (Inr edge, d')"
  shows "d' = d \<or> (\<exists>es :: ledger_edge list. append_each L E 0 (map (\<lambda>e. DeleteRecord (ed_childId e) (canonical L sessionPath) ByUser)
      (filter (\<lambda>e. canonical L (ed_child e) = canonical L sessionPath) es)) d = (None, d'))"
  using assms
  by (auto simp: tombstoneSavedSessionDelete_def Let_def split: if_splits sum.splits prod.splits option.splits)

lemma ledger_run_inv:
  assumes "ledger_run L d" "json_host L" "canonical_stable L"
  shows "ledger_inv L d"
  using assms(1)
proof induction
  case no_ledger
  show ?case by (rule ledger_inv_start [OF assms(2)])
next
  case (seeded W registry linkFails d')
  show ?case
  proof (cases d')
    case None
    then show ?thesis using ledger_inv_start [OF assms(2)] by simp
  next
    case (Some f)
    with seeded.hyps(1) obtain records where r: "seed_loop L registry (seed_start L W) = Some records"
      "seed_file L records = Some f"
      by (auto simp: seed_def split: if_splits option.splits)
    from seed_loop_inv [OF r(1) seed_start_inv] have ok: "distinct (map sp_child records)"
      "\<forall>r\<in>set records. (\<exists>c. sp_child r = canonical L c) \<and> 1 \<le> sp_depth r" by (auto simp: seed_inv_def)
    have "edges_ok L (edges_of L (MetaRecord (lg_sessionsDir L) # map SpawnRecord records))"
      using spawn_all_ok [OF edges_ok_Nil assms(3) ok] by (simp add: edges_of_def)
    moreover have "ledger_intact L d' (MetaRecord (lg_sessionsDir L) # map SpawnRecord records)"
      using seed_intact [OF assms(2) r(2)] ok(2) seeded.hyps(2) r(1) Some by blast
    ultimately show ?thesis unfolding ledger_inv_def by blast
  qed
next
  case (spawned d E r d')
  let ?r = "r\<lparr>sp_parent := canonical L (sp_parent r), sp_child := canonical L (sp_child r)\<rparr>"
  from spawned.hyps(3) obtain es where es: "replay_edges L (open_log d) = Inr es"
    and dup: "find_duplicate L (sp_childId r) (canonical L (sp_child r)) (live_edges es) = None"
    and app: "appendRecord L E (SpawnRecord ?r) d = (None, d')" and depth: "1 \<le> sp_depth r" "sp_depth r \<le> 2 ^ 53 - 1"
    by (auto simp: appendSpawnUnlocked_def Let_def split: if_splits sum.splits option.splits)
  show ?case
  proof (rule ledger_inv_append [OF spawned.IH spawned.hyps(2) app])
    show "valid_record (SpawnRecord ?r)" using depth by (simp add: valid_record_def)
  next
    fix rs assume rs: "ledger_intact L d rs" "fits d" "edges_ok L (edges_of L rs)"
    have "es = edges_of L rs" using intact_edges [OF rs(1) assms(2) rs(2)] es by simp
    with dup depth(1) rs(3) show "edges_ok L (apply_ledger_record L (SpawnRecord ?r) (edges_of L rs))"
      by (intro spawn_ok [OF _ assms(3)]) auto
  qed
next
  case (renamed d E childId child name d')
  show ?case
    by (rule ledger_inv_append [OF renamed.IH renamed.hyps(2) renamed.hyps(3) [unfolded appendRename_def]])
      (simp_all add: valid_record_def rename_ok del: apply_ledger_record.simps)
next
  case (renamed_path d E child name d')
  from renamed_path.hyps(3) obtain es where "append_each L E 0 (map (\<lambda>e. RenameRecord (ed_childId e) (canonical L child) name)
      (filter (\<lambda>e. canonical L (ed_child e) = canonical L child) (live_edges es))) d = (None, d')"
    by (auto simp: appendRenameByChildPath_def Let_def split: sum.splits)
  then show ?case
    by (rule ledger_inv_each [OF renamed_path.IH renamed_path.hyps(2)])
      (auto simp: valid_record_def rename_ok simp del: apply_ledger_record.simps)
next
  case (deleted d E childId child reason d')
  show ?case
    by (rule ledger_inv_append [OF deleted.IH deleted.hyps(2) deleted.hyps(3) [unfolded appendDelete_def]])
      (simp_all add: valid_record_def delete_ok del: apply_ledger_record.simps)
next
  case (tombstoned d E W sessionPath summary edge d')
  from tombstone_cases [OF tombstoned.hyps(3)] consider "d' = d" | es :: "ledger_edge list" where
    "append_each L E 0 (map (\<lambda>e. DeleteRecord (ed_childId e) (canonical L sessionPath) ByUser)
      (filter (\<lambda>e. canonical L (ed_child e) = canonical L sessionPath) es)) d = (None, d')" by blast
  then show ?case
  proof cases
    case 1
    with tombstoned.IH show ?thesis by simp
  next
    case 2
    then show ?thesis
      by (rule ledger_inv_each [OF tombstoned.IH tombstoned.hyps(2)])
        (auto simp: valid_record_def delete_ok simp del: apply_ledger_record.simps)
  qed
qed

lemma live_distinct:
  assumes "edges_ok L es"
  shows "distinct (map (\<lambda>e. canonical L (ed_child e)) (live_edges es))"
proof -
  let ?live = "filter (\<lambda>p. ed_deleted (snd p) = None) es"
  have keys: "distinct (map fst es)" using assms by (simp add: edges_ok_def)
  have "inj_on (\<lambda>p. canonical L (ed_child (snd p))) (set ?live)"
  proof (rule inj_onI)
    fix p q assume "p \<in> set ?live" "q \<in> set ?live" "canonical L (ed_child (snd p)) = canonical L (ed_child (snd q))"
    moreover from this keys have "map_of es (fst p) = Some (snd p)" "map_of es (fst q) = Some (snd q)" by auto
    ultimately show "p = q" using assms unfolding edges_ok_def by (metis (mono_tags, lifting) mem_Collect_eq prod_eqI option.inject set_filter)
  qed
  moreover have "distinct ?live" using keys by (auto simp: distinct_map)
  ultimately have "distinct (map (\<lambda>p. canonical L (ed_child (snd p))) ?live)" by (simp add: distinct_map)
  moreover have "live_edges es = map snd ?live" by (simp add: live_edges_def edge_list_def filter_map comp_def)
  ultimately show ?thesis by (simp add: comp_def)
qed

lemma run_edges:
  assumes "ledger_run L d" "json_host L" "canonical_stable L" "fits d"
  obtains es where "replay_edges L (open_log d) = Inr es" "edges_ok L es"
  using ledger_run_inv [OF assms(1-3)] intact_edges [OF _ assms(2,4)] assms(4) unfolding ledger_inv_def by blast

lemma live_depth: "edges_ok L es \<Longrightarrow> e \<in> set (live_edges es) \<Longrightarrow> 1 \<le> ed_depth e"
  by (auto simp: edges_ok_def set_live_edges)


section \<open>Families\<close>

lemma depth_of_child:
  assumes "distinct (map (\<lambda>e. canonical L (ed_child e)) alive)" "e \<in> set alive"
  shows "depthByPath L alive (canonical L (ed_child e)) = Some (ed_depth e)"
proof -
  have "distinct (map fst (rev (map (\<lambda>e. (canonical L (ed_child e), ed_depth e)) alive)))"
    using assms(1) by (simp add: comp_def rev_map [symmetric])
  then show ?thesis unfolding depthByPath_def by (rule map_of_is_SomeI) (use assms(2) in auto)
qed

lemma row_simps [simp]:
  "row_path (sessionRow W p n q m) = p" "row_depth (sessionRow W p n q m) = n"
  "row_parent (sessionRow W p n q m) = (if truthy q then q else None)"
  by (simp_all add: sessionRow_def Let_def split: option.split)


section \<open>Deleting\<close>

lemma deletes_ok:
  "edges_ok L es \<Longrightarrow> edges_ok L (fold (apply_ledger_record L) (map (\<lambda>e. DeleteRecord (ed_childId e) c by) victims) es)"
  by (induction victims arbitrary: es) (auto simp: delete_ok simp del: apply_ledger_record.simps)

lemma deletes_live:
  assumes "map_of (fold (apply_ledger_record L) (map (\<lambda>e. DeleteRecord (ed_childId e) c by) victims) es) k = Some e"
    "ed_deleted e = None"
  shows "map_of es k = Some e \<and> k \<notin> (\<lambda>v. edgeKey L (ed_childId v) c) ` set victims"
  using assms
proof (induction victims arbitrary: es)
  case (Cons v victims)
  let ?es = "apply_ledger_record L (DeleteRecord (ed_childId v) c by) es"
  have "map_of ?es k = Some e \<and> k \<notin> (\<lambda>v. edgeKey L (ed_childId v) c) ` set victims"
    by (rule Cons.IH) (use Cons.prems in simp_all)
  then show ?case
    using Cons.prems(2) by (auto simp: map_edge_def update_conv' split: option.splits if_splits)
qed simp

text \<open>
  After a saved session that is not known to be a root has been tombstoned, no live edge leads
  to it: duplicates of its edge are deleted as well.
\<close>

theorem tombstone_clears_path:
  assumes "ledger_run L d" "json_host L" "canonical_stable L" "\<forall>k. undisturbed (E k)"
    and "tombstoneSavedSessionDelete L W E sessionPath summary d = (Inr edge, d')"
    and "known_child summary (lw_info W sessionPath) \<or> summary = None \<and> lw_info W sessionPath = None"
    and "log_fits ledger_options (file_bytes d')"
  shows "\<exists>es. replay_edges L (open_log d') = Inr es
    \<and> (\<forall>e\<in>set (live_edges es). canonical L (ed_child e) \<noteq> canonical L sessionPath)"
proof -
  let ?p = "canonical L sessionPath"
  obtain rs where rs: "ledger_intact L d rs" "fits d \<longrightarrow> edges_ok L (edges_of L rs)"
    using ledger_run_inv [OF assms(1-3)] unfolding ledger_inv_def by blast
  from assms(5,6) obtain edges where edges: "ledger_edges L False d = Inr edges"
    and app: "append_each L E 0 (map (\<lambda>e. DeleteRecord (ed_childId e) ?p ByUser)
      (filter (\<lambda>e. canonical L (ed_child e) = ?p) edges)) d = (None, d')"
    by (auto simp: tombstoneSavedSessionDelete_def Let_def split: if_splits sum.splits prod.splits option.splits)
  let ?victims = "filter (\<lambda>e. canonical L (ed_child e) = ?p) edges"
  obtain rs' where rs': "ledger_intact L d' rs'" "fits d"
    "edges_of L rs' = fold (apply_ledger_record L) (map (\<lambda>e. DeleteRecord (ed_childId e) ?p ByUser) ?victims) (edges_of L rs)"
    using append_each_edges [OF rs(1) assms(4) app] assms(7) by (auto simp: valid_record_def)
  have es: "replay_edges L (open_log d') = Inr (edges_of L rs')" by (rule intact_edges [OF rs'(1) assms(2,7)])
  have ok: "edges_ok L (edges_of L rs)" "edges_ok L (edges_of L rs')"
    using rs rs' deletes_ok by simp_all
  have "edges = live_edges (edges_of L rs)"
    using edges intact_edges [OF rs(1) assms(2) rs'(2)] by (simp add: ledger_edges_def live_edges_def)
  moreover have "canonical L (ed_child e) \<noteq> ?p" if live: "e \<in> set (live_edges (edges_of L rs'))" for e
  proof
    assume c: "canonical L (ed_child e) = ?p"
    from live ok(2) obtain k where k: "map_of (edges_of L rs') k = Some e" "ed_deleted e = None"
      by (auto simp: set_live_edges edges_ok_def)
    from deletes_live [OF k(1) [unfolded rs'(3)] k(2)] have "map_of (edges_of L rs) k = Some e"
      and "k \<notin> (\<lambda>v. edgeKey L (ed_childId v) ?p) ` set ?victims" by auto
    moreover from this(1) ok(1) have "k = edgeKey L (ed_childId e) (ed_child e)" by (simp add: edges_ok_def)
    moreover have "canonical L ?p = ?p" using assms(3) by (simp add: canonical_stable_def)
    ultimately show False
      using c k(2) ok(1) \<open>edges = _\<close> by (auto simp: edgeKey_def set_live_edges edges_ok_def)
  qed
  ultimately show ?thesis using es by blast
qed

section \<open>Example\<close>

text \<open>One child is spawned and tombstoned; texts are single letters, and every path is canonical.\<close>

definition demo_spawn :: spawn_record where
  "demo_spawn = \<lparr>sp_childId = ''1'', sp_parent = ''p'', sp_child = ''c'', sp_depth = 1, sp_name = ''n''\<rparr>"

definition demo_records :: "ledger_record list" where
  "demo_records = [MetaRecord ''dir'', SpawnRecord demo_spawn, DeleteRecord ''1'' ''c'' ByUser]"

fun demo_print :: "nat \<Rightarrow> json list \<Rightarrow> json \<Rightarrow> jsstring option" where
  "demo_print k [] j = None"
| "demo_print k (x # xs) j = (if x = j then Some [k] else demo_print (Suc k) xs j)"

fun demo_read :: "nat \<Rightarrow> json list \<Rightarrow> jsstring \<Rightarrow> json option" where
  "demo_read k [] s = None"
| "demo_read k (x # xs) s = (if s = [k] then Some x else demo_read (Suc k) xs s)"

definition demo_paths :: lease_host where
  "demo_paths = \<lparr>lh_uuid = (\<lambda>_. ''0''), lh_resolve = (\<lambda>p. p), lh_realpath = Some, lh_dirname = (\<lambda>p. p), lh_basename = (\<lambda>p. p),
     lh_join = (\<lambda>a b. b), lh_sha256 = (\<lambda>p. p)\<rparr>"

definition demo_ledger :: ledger_host where
  "demo_ledger = \<lparr>lg_paths = demo_paths, lg_parse = demo_read 65 (map (record_json ''t'') demo_records),
     lg_print = demo_print 65 (map (record_json ''t'') demo_records), lg_now = ''t'', lg_sessionsDir = ''dir''\<rparr>"

definition demo_world :: ledger_world where
  "demo_world = \<lparr>lw_isFile = (\<lambda>p. p = ''p'' \<or> p = ''c''), lw_readdir = Some [''p.jsonl''], lw_info = (\<lambda>_. None)\<rparr>"

lemma demo_print_read:
  "demo_print k xs j = Some s \<Longrightarrow> demo_read k xs s = Some j \<and> (\<exists>i < length xs. s = [k + i])"
proof (induction xs arbitrary: k)
  case (Cons x xs)
  show ?case
  proof (cases "x = j")
    case False
    with Cons.prems have "demo_print (Suc k) xs j = Some s" by simp
    from Cons.IH [OF this] show ?thesis by auto
  qed (use Cons.prems in auto)
qed simp

lemma demo_host: "json_host demo_ledger"
  unfolding json_host_def
proof (intro allI impI)
  fix r s assume "ledger_text demo_ledger r = Some s"
  then have "demo_print 65 (map (record_json ''t'') demo_records) (record_json ''t'' r) = Some s"
    by (simp add: ledger_text_def demo_ledger_def)
  from demo_print_read [OF this] obtain i where "i < 3" "s = [65 + i]"
    "demo_read 65 (map (record_json ''t'') demo_records) s = Some (record_json ''t'' r)"
    by (auto simp: demo_records_def)
  then show "json_line s \<and> lg_parse demo_ledger s = Some (record_json (lg_now demo_ledger) r)"
    by (auto simp: demo_ledger_def json_line_def newline_def is_js_space_def units_ok_def is_high_def is_low_def)
qed

lemma demo_canonical [simp]: "canonical demo_ledger p = p"
  by (simp add: canonicalSessionPath_def demo_ledger_def demo_paths_def)

lemma demo_stable: "canonical_stable demo_ledger"
  by (simp add: canonical_stable_def)

lemma demo_undisturbed: "undisturbed (demo_env [])"
  by (simp add: undisturbed_def demo_calm)

lemma demo_texts:
  "ledger_text demo_ledger (MetaRecord ''dir'') = Some [65]"
  "ledger_text demo_ledger (SpawnRecord demo_spawn) = Some [66]"
  "ledger_text demo_ledger (DeleteRecord ''1'' ''c'' ByUser) = Some [67]"
  by (simp_all add: ledger_text_def demo_ledger_def demo_records_def demo_spawn_def)

lemma demo_spawned:
  "appendSpawnUnlocked demo_ledger (demo_env []) demo_spawn None = (None, Some [65, 10, 66, 10])"
proof -
  have "demo_spawn\<lparr>sp_parent := sp_parent demo_spawn, sp_child := sp_child demo_spawn\<rparr> = demo_spawn" by simp
  moreover have "utf8 [65, newline, 66, newline] = [65, 10, 66, 10]"
    by (simp add: utf8_def encode_cp_def is_high_def is_low_def newline_def)
  moreover have "lg_sessionsDir demo_ledger = ''dir''" by (simp add: demo_ledger_def)
  moreover have "sp_childId demo_spawn \<noteq> []" "sp_parent demo_spawn \<noteq> []" "sp_child demo_spawn \<noteq> []" "sp_depth demo_spawn = 1"
    by (simp_all add: demo_spawn_def)
  ultimately show ?thesis
    by (simp add: appendSpawnUnlocked_def open_log_def replay_edges_def edges_of_def live_edges_def edge_list_def
        appendRecord_def appendSync_def serializeLine_def demo_texts demo_env_def write_failure_def Let_def)
qed

lemma ledger_demo_run: "ledger_run demo_ledger (Some [65, 10, 66, 10])"
  by (rule spawned [OF no_ledger demo_undisturbed demo_spawned])

lemma demo_fits: "length f \<le> 100 \<Longrightarrow> fits (Some f)"
  using count_le_length [of f 10]
  by (auto simp: log_fits_def file_bytes_def ledger_options_def RLM_LEDGER_MAX_BYTES_def RLM_LEDGER_MAX_RECORDS_def)


definition demo_edge :: ledger_edge where
  "demo_edge = \<lparr>ed_childId = ''1'', ed_parent = ''p'', ed_child = ''c'', ed_depth = 1, ed_name = ''n'', ed_deleted = None\<rparr>"

lemma demo_replay: "replay_edges demo_ledger (open_log (Some [65, 10, 66, 10])) = Inr [(edgeKey demo_ledger ''1'' ''c'', demo_edge)]"
proof -
  have "toString [65, 10, 66, 10] = [65, newline, 66, newline]"
    by (simp add: toString_def utf8_text_def utf8_byte_def first_byte_def utf8_idle_def utf8_end_def cp_units_def newline_def Let_def)
  moreover have "split_on newline [65, newline, 66, newline] = [[65], [66], []]" by (simp add: newline_def)
  moreover have "js_trim [65] = [65]" "js_trim [66] = [66]" "js_trim [] = []"
    by (simp_all add: js_trim_def trim_end_def is_js_space_def)
  moreover have "parseLedgerLine demo_ledger i [65] = Inr (Some (MetaRecord ''dir''))"
    "parseLedgerLine demo_ledger i [66] = Inr (Some (SpawnRecord demo_spawn))" for i
    using read_record_json [of "SpawnRecord demo_spawn" i "''t''"] read_record_json [of "MetaRecord ''dir''" i "''t''"]
    by (simp_all add: parseLedgerLine_def demo_ledger_def demo_records_def valid_record_def demo_spawn_def)
  ultimately show ?thesis
    by (simp add: replay_edges_def open_log_def readAllSync_def ledger_options_def RLM_LEDGER_MAX_BYTES_def
        RLM_LEDGER_MAX_RECORDS_def edges_of_def demo_edge_def Let_def) (simp add: demo_spawn_def)
qed


lemma demo_silent: "le_error (demo_env []) c = None" "le_written (demo_env []) k = k"
  by (simp_all add: demo_env_def)

lemma demo_tombstoned:
  "tombstoneSavedSessionDelete demo_ledger demo_world (\<lambda>_. demo_env []) ''c'' None (Some [65, 10, 66, 10]) =
    (Inr (Some demo_edge), Some [65, 10, 66, 10, 67, 10])"
proof -
  have bytes: "utf8 [67, newline] = [67, 10]" by (simp add: utf8_def encode_cp_def is_high_def is_low_def newline_def)
  have repair: "repairTailSync ledger_options (demo_env []) [65, 10, 66, 10] = (None, [65, 10, 66, 10])"
    by (simp add: repairTailSync_def demo_env_def ledger_options_def RLM_LEDGER_MAX_BYTES_def)
  have "appendRecord demo_ledger (demo_env []) (DeleteRecord ''1'' ''c'' ByUser) (Some [65, 10, 66, 10]) =
      (None, Some [65, 10, 66, 10, 67, 10])"
    by (simp add: appendRecord_def appendSync_def serializeLine_def demo_texts repair bytes demo_silent write_failure_def)
  moreover have "ledger_edges demo_ledger False (Some [65, 10, 66, 10]) = Inr [demo_edge]"
    by (simp add: ledger_edges_def demo_replay edge_list_def) (simp add: demo_edge_def)
  moreover have "ed_child demo_edge = ''c''" "ed_childId demo_edge = ''1''" by (simp_all add: demo_edge_def)
  ultimately show ?thesis
    by (simp add: tombstoneSavedSessionDelete_def demo_world_def known_child_def)
qed

lemma tombstone_clears_path_witness:
  "\<exists>es. replay_edges demo_ledger (open_log (Some [65, 10, 66, 10, 67, 10])) = Inr es
    \<and> ''c'' \<notin> ed_child ` set (live_edges es)"
  using tombstone_clears_path [OF ledger_demo_run demo_host demo_stable _ demo_tombstoned _ demo_fits]
  by (force simp: demo_undisturbed demo_world_def)

definition demo_registry :: "string \<Rightarrow> seed_entry list" where
  "demo_registry f = (if f = ''p.jsonl'' then [\<lparr>se_childId = ''1'', se_sessionName = ''n'', se_sessionFile = ''c'',
     se_rlmDepth = None, se_status = SeedRunning\<rparr>] else [])"

lemma seed_terminates_witness:
  "\<exists>records. seed_loop demo_ledger demo_registry (seed_start demo_ledger demo_world) = Some records
    \<and> distinct (map sp_child records)"
  using seed_terminates [of "{''c''}" demo_registry demo_ledger demo_world] by (auto simp: demo_registry_def)

end
