(* ===== verification/Text_Decoder.thy ===== *)
theory Text_Decoder
  imports Utf8_Stream
begin

text \<open>
  \<open>TextDecoder\<close>, as the program uses it to turn chunks of bytes into text: the streaming UTF-8
  decoder of \<open>Utf8_Stream\<close> without a byte order mark at the start. What has been decoded depends on
  the bytes alone and is well-formed text.
\<close>

section \<open>The decoder\<close>

text \<open>\<open>TextDecoder\<close> drops one byte order mark at the start of the text.\<close>

record text_decoder =
  td_state :: utf8_state
  td_started :: bool

definition new_decoder :: text_decoder where
  "new_decoder = \<lparr>td_state = utf8_idle, td_started = False\<rparr>"

definition skip_bom :: "bool \<Rightarrow> nat list \<Rightarrow> nat list" where
  "skip_bom started cs = (if \<not> started \<and> cs \<noteq> [] \<and> hd cs = 0xFEFF then tl cs else cs)"

text \<open>\<open>decode(data, { stream: true })\<close> and \<open>decode()\<close>.\<close>

definition decode_chunk :: "byte list \<Rightarrow> text_decoder \<Rightarrow> nat list \<times> text_decoder" where
  "decode_chunk data td =
     (let (cs, s) = utf8_bytes (td_state td) data
      in (skip_bom (td_started td) cs, \<lparr>td_state = s, td_started = td_started td \<or> cs \<noteq> []\<rparr>))"

definition decode_end :: "text_decoder \<Rightarrow> nat list \<times> text_decoder" where
  "decode_end td = (skip_bom (td_started td) (utf8_end (td_state td)), new_decoder)"

section \<open>The decoder yields characters\<close>

definition utf8_scalar :: "utf8_state \<Rightarrow> bool" where
  "utf8_scalar s \<longleftrightarrow> us_upper s \<le> 0xBF \<and> 0x80 \<le> us_lower s \<and> us_needed s \<le> 3
     \<and> (us_needed s = 1 \<longrightarrow> us_cp s < 17408 \<and> (us_cp s < 864 \<or> 896 \<le> us_cp s))
     \<and> (us_needed s = 2 \<longrightarrow> us_cp s < 272 \<and> (us_cp s = 13 \<longrightarrow> us_upper s \<le> 0x9F))
     \<and> (us_needed s = 3 \<longrightarrow> us_cp s < 5 \<and> (us_cp s = 0 \<longrightarrow> 0x90 \<le> us_lower s)
          \<and> (us_cp s = 4 \<longrightarrow> us_upper s \<le> 0x8F))"

lemma utf8_scalar_idle [simp]: "utf8_scalar utf8_idle"
  by (simp add: utf8_scalar_def utf8_idle_def)

lemma first_byte_scalar: "utf8_scalar (snd (first_byte n))" "\<forall>c\<in>set (fst (first_byte n)). scalar c"
  by (auto simp: first_byte_def utf8_scalar_def utf8_idle_def scalar_def is_high_def is_low_def)

lemma utf8_byte_scalar:
  assumes "utf8_scalar s"
  shows "utf8_scalar (snd (utf8_byte s b))" "\<forall>c\<in>set (fst (utf8_byte s b)). scalar c"
proof -
  have next_ok: "utf8_scalar (utf8_idle\<lparr>us_cp := us_cp s * 64 + (n - 0x80), us_needed := us_needed s - 1\<rparr>)"
    if need: "us_needed s = 2 \<or> us_needed s = 3" and n: "us_lower s \<le> n" "n \<le> us_upper s" for n
  proof -
    have "0x80 \<le> n" using assms n by (simp add: utf8_scalar_def)
    then obtain j where j: "n = 0x80 + j" by (auto simp: nat_le_iff_add)
    from need show ?thesis
    proof
      assume two: "us_needed s = 2"
      with assms j n have "us_cp s < 272" "j \<le> 63" "us_cp s = 13 \<longrightarrow> j \<le> 31" by (auto simp: utf8_scalar_def)
      moreover from this have "us_cp s \<le> 12 \<or> us_cp s = 13 \<or> 14 \<le> us_cp s" by linarith
      ultimately have "us_cp s * 64 + j < 17408" "us_cp s * 64 + j < 864 \<or> 896 \<le> us_cp s * 64 + j" by (linarith, auto)
      with two j show ?thesis by (simp add: utf8_scalar_def utf8_idle_def)
    next
      assume three: "us_needed s = 3"
      with assms j n have "us_cp s < 5" "j \<le> 63" "us_cp s = 0 \<longrightarrow> 16 \<le> j" "us_cp s = 4 \<longrightarrow> j \<le> 15"
        by (auto simp: utf8_scalar_def)
      then have "us_cp s * 64 + j < 272" "us_cp s * 64 + j \<noteq> 13" by linarith+
      with three j show ?thesis by (simp add: utf8_scalar_def utf8_idle_def)
    qed
  qed
  have final: "scalar (us_cp s * 64 + (n - 0x80))"
    if one: "us_needed s = 1" and n: "us_lower s \<le> n" "n \<le> us_upper s" for n
  proof -
    have "0x80 \<le> n" using assms n by (simp add: utf8_scalar_def)
    then obtain j where j: "n = 0x80 + j" by (auto simp: nat_le_iff_add)
    with assms one n have "us_cp s < 17408" "us_cp s < 864 \<or> 896 \<le> us_cp s" "j \<le> 63"
      by (auto simp: utf8_scalar_def)
    then have "us_cp s * 64 + j < 0x110000" "us_cp s * 64 + j < 0xD800 \<or> 0xE000 \<le> us_cp s * 64 + j" by linarith+
    with j show ?thesis by (auto simp: scalar_def is_high_def is_low_def)
  qed
  have cases: "us_needed s = 0 \<or> us_needed s = 1 \<or> us_needed s = 2 \<or> us_needed s = 3"
    using assms by (auto simp: utf8_scalar_def)
  show "utf8_scalar (snd (utf8_byte s b))"
    using cases next_ok first_byte_scalar(1) [of "unat b"]
    by (auto simp: utf8_byte_def Let_def not_less split: prod.splits)
  show "\<forall>c\<in>set (fst (utf8_byte s b)). scalar c"
    using cases final first_byte_scalar(2) [of "unat b"] scalar_FFFD
    by (auto simp: utf8_byte_def Let_def not_less split: prod.splits)
qed

lemma utf8_bytes_scalar:
  "utf8_scalar s \<Longrightarrow> utf8_scalar (snd (utf8_bytes s bs)) \<and> (\<forall>c\<in>set (fst (utf8_bytes s bs)). scalar c)"
proof (induction bs arbitrary: s)
  case (Cons b bs)
  obtain cs s1 where b: "utf8_byte s b = (cs, s1)" by force
  with utf8_byte_scalar [OF Cons.prems, of b] have "utf8_scalar s1" "\<forall>c\<in>set cs. scalar c" by simp_all
  with Cons.IH [of s1] b show ?case by (auto split: prod.splits)
qed simp

lemma utf8_end_scalar: "\<forall>c\<in>set (utf8_end s). scalar c"
  by (simp add: utf8_end_def scalar_FFFD)

section \<open>What was decoded\<close>

text \<open>The text of the bytes: what one streaming decoder has yielded for them.\<close>

definition decoded :: "byte list \<Rightarrow> bool \<Rightarrow> nat list" where
  "decoded bs fin = skip_bom False (if fin then utf8_text bs else fst (utf8_bytes utf8_idle bs))"

definition decoder_at :: "byte list \<Rightarrow> text_decoder \<Rightarrow> bool" where
  "decoder_at bs td \<longleftrightarrow> td_state td = snd (utf8_bytes utf8_idle bs) \<and> (td_started td \<longleftrightarrow> fst (utf8_bytes utf8_idle bs) \<noteq> [])"

lemma skip_bom_app: "skip_bom False (cs @ ds) = skip_bom False cs @ skip_bom (cs \<noteq> []) ds"
  by (cases cs) (auto simp: skip_bom_def)

lemma skip_bom_subset: "c \<in> set (skip_bom b cs) \<Longrightarrow> c \<in> set cs"
  by (auto simp: skip_bom_def split: if_splits dest: list.set_sel(2))

lemma skip_bom_scalar: "\<forall>c\<in>set cs. scalar c \<Longrightarrow> \<forall>c\<in>set (skip_bom b cs). scalar c"
  using skip_bom_subset by fast

lemma decode_chunk_at:
  assumes "decoder_at bs td" "decode_chunk data td = (cs, td')"
  shows "decoder_at (bs @ data) td'" "decoded (bs @ data) False = decoded bs False @ cs" "\<forall>c\<in>set cs. scalar c"
proof -
  obtain xs s where x: "utf8_bytes utf8_idle bs = (xs, s)" by force
  obtain ys s' where y: "utf8_bytes s data = (ys, s')" by force
  have c: "cs = skip_bom (xs \<noteq> []) ys" "td_state td' = s'" "td_started td' \<longleftrightarrow> xs \<noteq> [] \<or> ys \<noteq> []"
    using assms x y by (auto simp: decode_chunk_def decoder_at_def)
  from x y c show "decoder_at (bs @ data) td'" "decoded (bs @ data) False = decoded bs False @ cs"
    by (simp_all add: decoder_at_def decoded_def utf8_bytes_append skip_bom_app)
  have "\<forall>c\<in>set ys. scalar c"
    using utf8_bytes_scalar [OF utf8_scalar_idle, of bs] utf8_bytes_scalar [of s data] x y by simp
  then show "\<forall>c\<in>set cs. scalar c" unfolding c(1) by (rule skip_bom_scalar)
qed

lemma decode_end_at:
  assumes "decoder_at bs td" "decode_end td = (cs, td')"
  shows "decoded bs True = decoded bs False @ cs" "\<forall>c\<in>set cs. scalar c"
proof -
  obtain xs s where x: "utf8_bytes utf8_idle bs = (xs, s)" by force
  have c: "cs = skip_bom (xs \<noteq> []) (utf8_end s)" using assms x by (auto simp: decode_end_def decoder_at_def)
  from x c show "decoded bs True = decoded bs False @ cs"
    by (simp add: decoded_def utf8_text_def skip_bom_app)
  show "\<forall>c\<in>set cs. scalar c" unfolding c by (rule skip_bom_scalar [OF utf8_end_scalar])
qed

section \<open>Text by its code points\<close>

lemma byteLength_units: "\<forall>c\<in>set cs. scalar c \<Longrightarrow> byteLength (units cs) = length (enc cs)"
  by (simp add: byteLength_def utf8_units units_def)

lemma units_inj_Nil [simp]: "units cs = [] \<longleftrightarrow> cs = []"
  by (cases cs) (simp_all add: cp_units_def)

lemma split_on_app:
  "split_on c (xs @ ys) = butlast (split_on c xs) @ [last (split_on c xs) @ hd (split_on c ys)] @ tl (split_on c ys)"
proof (induction xs)
  case Nil
  then show ?case by (simp add: hd_Cons_tl)
next
  case (Cons x xs)
  then show ?case
    by (cases "split_on c xs") (auto simp: neq_Nil_conv)
qed

lemma split_on_app_sep: "split_on c (xs @ c # ys) = split_on c xs @ split_on c ys"
  by (simp add: split_on_app [of c xs "c # ys"])

end
