(* ===== verification/Output_Accumulator.thy ===== *)
theory Output_Accumulator
  imports Text_Decoder Truncate
begin

text \<open>
  The accumulator of streaming tool output (\<open>core/tools/output-accumulator.ts\<close>): chunks of bytes are
  decoded as they come, a tail of the text is kept for snapshots, and the whole output goes to a
  temporary file once it is too large to be shown.
\<close>

section \<open>State\<close>

record accumulator =
  oa_maxLines :: nat
  oa_maxBytes :: nat
  oa_decoder :: text_decoder
  oa_rawChunks :: "byte list list"
  oa_tailText :: jsstring
  oa_tailBytes :: nat
  oa_tailStartsAtLineBoundary :: bool
  oa_totalRawBytes :: nat
  oa_totalDecodedBytes :: nat
  oa_totalLines :: nat
  oa_currentLineBytes :: nat
  oa_finished :: bool
  oa_tempFilePath :: "string option"
  oa_streamOpen :: bool
  oa_written :: "byte list"

definition new_accumulator :: "nat option \<Rightarrow> nat option \<Rightarrow> accumulator" where
  "new_accumulator ml mb =
     \<lparr>oa_maxLines = nullish ml DEFAULT_MAX_LINES, oa_maxBytes = nullish mb DEFAULT_MAX_BYTES,
      oa_decoder = new_decoder, oa_rawChunks = [], oa_tailText = [], oa_tailBytes = 0, oa_tailStartsAtLineBoundary = True,
      oa_totalRawBytes = 0, oa_totalDecodedBytes = 0, oa_totalLines = 1, oa_currentLineBytes = 0, oa_finished = False,
      oa_tempFilePath = None, oa_streamOpen = False, oa_written = []\<rparr>"

definition maxRollingBytes :: "accumulator \<Rightarrow> nat" where
  "maxRollingBytes a = max (oa_maxBytes a * 2) 1"

section \<open>Text\<close>

text \<open>The start of the tail moves to the next character.\<close>

definition trimTail :: "accumulator \<Rightarrow> accumulator" where
  "trimTail a =
     (let buffer = utf8 (oa_tailText a)
      in if length buffer \<le> maxRollingBytes a then a\<lparr>oa_tailBytes := length buffer\<rparr>
         else let kept = dropWhile is_cont (drop (length buffer - maxRollingBytes a) buffer);
                  start = length buffer - length kept;
                  tail = toString kept
              in a\<lparr>oa_tailStartsAtLineBoundary :=
                     (if start = 0 then oa_tailStartsAtLineBoundary a else buffer ! (start - 1) = 0x0A),
                   oa_tailText := tail, oa_tailBytes := byteLength tail\<rparr>)"

definition appendDecodedText :: "jsstring \<Rightarrow> accumulator \<Rightarrow> accumulator" where
  "appendDecodedText s a =
     (if s = [] then a
      else let bytes = byteLength s;
               a1 = a\<lparr>oa_totalDecodedBytes := oa_totalDecodedBytes a + bytes, oa_tailText := oa_tailText a @ s,
                      oa_tailBytes := oa_tailBytes a + bytes\<rparr>;
               a2 = (if oa_tailBytes a1 > maxRollingBytes a1 * 2 then trimTail a1 else a1);
               newlines = count_list s newline
           in if newlines = 0 then a2\<lparr>oa_currentLineBytes := oa_currentLineBytes a2 + bytes\<rparr>
              else a2\<lparr>oa_totalLines := oa_totalLines a2 + newlines,
                      oa_currentLineBytes := byteLength (last (split_on newline s))\<rparr>)"

definition getSnapshotText :: "accumulator \<Rightarrow> jsstring" where
  "getSnapshotText a =
     (if oa_tailStartsAtLineBoundary a then oa_tailText a
      else if newline \<notin> set (oa_tailText a) then oa_tailText a
      else tl (dropWhile (\<lambda>u. u \<noteq> newline) (oa_tailText a)))"

section \<open>The temporary file\<close>

definition shouldUseTempFile :: "accumulator \<Rightarrow> bool" where
  "shouldUseTempFile a \<longleftrightarrow> oa_totalRawBytes a > oa_maxBytes a \<or> oa_totalDecodedBytes a > oa_maxBytes a
     \<or> oa_totalLines a > oa_maxLines a"

text \<open>The path is a parameter; the file holds what was written to its stream.\<close>

definition ensureTempFile :: "string \<Rightarrow> accumulator \<Rightarrow> accumulator" where
  "ensureTempFile path a =
     (if oa_tempFilePath a \<noteq> None then a
      else a\<lparr>oa_tempFilePath := Some path, oa_streamOpen := True, oa_written := concat (oa_rawChunks a), oa_rawChunks := []\<rparr>)"

definition append_output :: "string \<Rightarrow> byte list \<Rightarrow> accumulator \<Rightarrow> error option \<times> accumulator" where
  "append_output path data a =
     (if oa_finished a then (Some (Error ''Cannot append to a finished output accumulator''), a)
      else let (cs, td) = decode_chunk data (oa_decoder a);
               a1 = appendDecodedText (units cs) (a\<lparr>oa_totalRawBytes := oa_totalRawBytes a + length data, oa_decoder := td\<rparr>)
           in (None,
               if oa_streamOpen a1 \<or> shouldUseTempFile a1 then
                 let a2 = ensureTempFile path a1
                 in if oa_streamOpen a2 then a2\<lparr>oa_written := oa_written a2 @ data\<rparr> else a2
               else if data \<noteq> [] then a1\<lparr>oa_rawChunks := oa_rawChunks a1 @ [data]\<rparr> else a1))"

definition finish_output :: "string \<Rightarrow> accumulator \<Rightarrow> accumulator" where
  "finish_output path a =
     (if oa_finished a then a
      else let (cs, td) = decode_end (oa_decoder a);
               a1 = appendDecodedText (units cs) (a\<lparr>oa_finished := True, oa_decoder := td\<rparr>)
           in if shouldUseTempFile a1 then ensureTempFile path a1 else a1)"

definition closeTempFile :: "accumulator \<Rightarrow> accumulator" where
  "closeTempFile a = a\<lparr>oa_streamOpen := False\<rparr>"

definition getLastLineBytes :: "accumulator \<Rightarrow> nat" where
  "getLastLineBytes a = oa_currentLineBytes a"

section \<open>Snapshots\<close>

definition snapshot :: "string \<Rightarrow> bool \<Rightarrow> accumulator \<Rightarrow> (truncation_result \<times> string option) \<times> accumulator" where
  "snapshot path persistIfTruncated a =
     (let tailTruncation = truncateTail (getSnapshotText a) \<lparr>opt_maxLines = Some (oa_maxLines a), opt_maxBytes = Some (oa_maxBytes a)\<rparr>;
          trunc = (oa_totalLines a > oa_maxLines a \<or> oa_totalDecodedBytes a > oa_maxBytes a);
          by = (if trunc
                then Some (case truncatedBy tailTruncation of
                       Some b \<Rightarrow> b
                     | None \<Rightarrow> if oa_totalDecodedBytes a > oa_maxBytes a then ByBytes else ByLines)
                else None);
          result = tailTruncation\<lparr>truncated := trunc, truncatedBy := by, totalLines := oa_totalLines a,
            totalBytes := oa_totalDecodedBytes a, maxLines := oa_maxLines a, maxBytes := oa_maxBytes a\<rparr>;
          a1 = (if persistIfTruncated \<and> trunc then ensureTempFile path a else a)
      in ((result, oa_tempFilePath a1), a1))"

end
