(* ===== verification/Output_Accumulator_Props.thy ===== *)
theory Output_Accumulator_Props
  imports Output_Accumulator
begin

text \<open>
  Properties of the accumulator of streaming output: whatever the chunks, a snapshot shows what
  tail truncation of the whole decoded text shows, although only a bounded tail of it is kept; the
  temporary file holds every byte; and memory stays within the limits.
\<close>

section \<open>Text by its code points\<close>

lemma split_on_units: "split_on newline (units cs) = map units (split_on newline cs)"
proof (induction cs)
  case (Cons c cs)
  show ?case
  proof (cases "c = newline")
    case True
    with Cons show ?thesis by (simp add: units_newline)
  next
    case False
    then have "newline \<notin> set (cp_units c)" using cp_units_newline by blast
    then have "split_on newline (cp_units c @ units cs)
        = (cp_units c @ hd (split_on newline (units cs))) # tl (split_on newline (units cs))"
      by (simp add: split_on_app split_on_id)
    with Cons False show ?thesis by (cases "split_on newline cs") auto
  qed
qed simp

lemma last_split_on_app:
  "last (split_on c (xs @ ys)) = (if c \<in> set ys then last (split_on c ys) else last (split_on c xs) @ ys)"
proof (cases "c \<in> set ys")
  case True
  then obtain as bs where "ys = as @ c # bs" by (meson split_list)
  then have "split_on c (xs @ ys) = split_on c (xs @ as) @ split_on c bs" "split_on c ys = split_on c as @ split_on c bs"
    using split_on_app_sep [of c "xs @ as" bs] split_on_app_sep [of c as bs] by simp_all
  with True show ?thesis by simp
qed (simp add: split_on_app split_on_id)

lemma length_split_on: "length (split_on c xs) = Suc (count_list xs c)"
  by (induction xs) (auto split: list.splits)

lemma count_units: "count_list (units cs) newline = count_list cs newline"
  using arg_cong [OF split_on_units [of cs], of length] by (simp add: length_split_on)

lemma joined_units:
  assumes "\<forall>c\<in>set cs. scalar c"
  shows "joined_bytes (map units (split_on newline cs)) = length (enc cs)"
  using byteLength_units [OF assms] by (simp flip: split_on_units)


section \<open>The tail decides\<close>

lemma joined_bytes_app: "joined_bytes ys \<le> joined_bytes (xs @ ys)"
  by (induction xs) (simp_all add: joined_bytes_Cons)

text \<open>
  Lines beyond the first ones only matter while everything before them fits.
\<close>

lemma tail_loop_app:
  assumes "cnt = joined_bytes arr" "cnt \<le> mb" "length arr \<le> ml"
  shows "tail_loop ml mb (xs @ ys) cnt arr =
    (if length arr + length xs \<le> ml \<and> joined_bytes (rev xs @ arr) \<le> mb
     then tail_loop ml mb ys (joined_bytes (rev xs @ arr)) (rev xs @ arr) else tail_loop ml mb xs cnt arr)"
  using assms
proof (induction xs arbitrary: cnt arr)
  case (Cons x xs)
  have sum: "joined_bytes (x # arr) = cnt + (byteLength x + (if length arr > 0 then 1 else 0))"
    using Cons.prems(1) by (simp add: joined_bytes_Cons)
  show ?case
  proof (cases "length arr < ml")
    case True
    show ?thesis
    proof (cases "joined_bytes (x # arr) \<le> mb")
      case True
      with Cons.IH [OF refl True] \<open>length arr < ml\<close> sum show ?thesis by (simp add: Let_def)
    next
      case False
      moreover from this have "\<not> joined_bytes (rev xs @ x # arr) \<le> mb"
        using joined_bytes_app [of "x # arr" "rev xs"] by linarith
      ultimately show ?thesis using \<open>length arr < ml\<close> sum by (simp add: Let_def)
    qed
  next
    case False
    with Cons.prems(3) show ?thesis by simp
  qed
qed simp

text \<open>What a tail truncation shows.\<close>

definition shown :: "truncation_result \<Rightarrow> jsstring \<times> nat \<times> nat \<times> bool \<times> bool" where
  "shown r = (content r, outputLines r, outputBytes r, lastLinePartial r, firstLineExceedsLimit r)"

definition tail_shown :: "nat \<Rightarrow> nat \<Rightarrow> jsstring list \<Rightarrow> jsstring \<times> nat \<times> nat \<times> bool \<times> bool" where
  "tail_shown ml mb ls = (case tail_loop ml mb (rev ls) 0 [] of (arr, cnt, by, part) \<Rightarrow>
     (join [newline] arr, length arr, joined_bytes arr, part, False))"

definition tail_by :: "nat \<Rightarrow> nat \<Rightarrow> jsstring list \<Rightarrow> limit_hit" where
  "tail_by ml mb ls = (case tail_loop ml mb (rev ls) 0 [] of (arr, cnt, by, part) \<Rightarrow>
     if length arr \<ge> ml \<and> cnt \<le> mb then ByLines else by)"

abbreviation tail_options :: "nat \<Rightarrow> nat \<Rightarrow> truncation_options" where
  "tail_options ml mb \<equiv> \<lparr>opt_maxLines = Some ml, opt_maxBytes = Some mb\<rparr>"

abbreviation fits_limits :: "nat \<Rightarrow> nat \<Rightarrow> jsstring \<Rightarrow> bool" where
  "fits_limits ml mb s \<equiv> length (split_on newline s) \<le> ml \<and> byteLength s \<le> mb"

lemma tail_loop_all:
  assumes "length ls \<le> ml" "joined_bytes ls \<le> mb"
  shows "tail_loop ml mb (rev ls) 0 [] = (ls, joined_bytes ls, ByLines, False)"
  using tail_loop_app [of 0 "[]" mb ml "rev ls" "[]"] assms by simp

lemma truncateTail_shown: "shown (truncateTail s (tail_options ml mb)) = tail_shown ml mb (split_on newline s)"
proof (cases "fits_limits ml mb s")
  case True
  then show ?thesis
    using tail_loop_all [of "split_on newline s" ml mb]
    by (simp add: truncateTail_def untruncated_def shown_def tail_shown_def Let_def)
next
  case False
  then show ?thesis
    by (auto simp: truncateTail_def shown_def tail_shown_def Let_def split: prod.splits)
qed

lemma truncateTail_by:
  "truncatedBy (truncateTail s (tail_options ml mb))
     = (if fits_limits ml mb s then None else Some (tail_by ml mb (split_on newline s)))"
  "truncated (truncateTail s (tail_options ml mb)) \<longleftrightarrow> \<not> fits_limits ml mb s"
  "totalLines (truncateTail s (tail_options ml mb)) = length (split_on newline s)"
  "totalBytes (truncateTail s (tail_options ml mb)) = byteLength s"
  "maxLines (truncateTail s (tail_options ml mb)) = ml" "maxBytes (truncateTail s (tail_options ml mb)) = mb"
  by (auto simp: truncateTail_def untruncated_def tail_by_def Let_def split: prod.splits)

text \<open>The lines of a text whose last ones exceed the limits.\<close>

lemma tail_loop_overfull:
  assumes "joined_bytes ls > mb"
  shows "tail_loop ml mb (rev (pre @ ls)) 0 [] = tail_loop ml mb (rev ls) 0 []"
  using tail_loop_app [of 0 "[]" mb ml "rev ls" "rev pre"] assms by simp

text \<open>A line that is only known by a long end of it.\<close>

lemma truncateString_units_suffix:
  assumes "\<forall>c\<in>set (x @ y). scalar c" "mb < length (enc y)"
  shows "truncateStringToBytesFromEnd (units (x @ y)) mb = truncateStringToBytesFromEnd (units y) mb"
proof -
  have "utf8 (units (x @ y)) = enc x @ enc y" "utf8 (units y) = enc y"
    using assms(1) utf8_units [of "x @ y"] utf8_units [of y] by (simp_all add: units_def)
  with assms(2) show ?thesis by (simp add: truncateStringToBytesFromEnd_def Let_def)
qed

lemma tail_loop_long_line:
  assumes "\<forall>c\<in>set (x @ y). scalar c" "mb < length (enc y)"
  shows "tail_loop ml mb (units (x @ y) # ls) 0 [] = tail_loop ml mb [units y] 0 []"
proof -
  have "byteLength (units (x @ y)) = length (enc x) + length (enc y)" "byteLength (units y) = length (enc y)"
    using assms(1) byteLength_units [of "x @ y"] byteLength_units [of y] by simp_all
  with truncateString_units_suffix [OF assms] assms(2) show ?thesis by (simp add: Let_def)
qed

text \<open>
  A text with at least one whole line after a line that does not fit any more: the whole lines
  decide.
\<close>

lemma tail_after_line:
  assumes "ls \<noteq> []" "mb < byteLength l + 1 + joined_bytes ls"
  shows "tail_shown ml mb (pre @ l # ls) = tail_shown ml mb ls"
    "tail_by ml mb (pre @ l # ls) =
      (if length ls < ml \<and> joined_bytes ls \<le> mb then ByBytes else tail_by ml mb ls)"
proof -
  have "tail_loop ml mb (rev (pre @ l # ls)) 0 [] =
      (if length ls \<le> ml \<and> joined_bytes ls \<le> mb then tail_loop ml mb (l # rev pre) (joined_bytes ls) ls
       else tail_loop ml mb (rev ls) 0 [])"
    using tail_loop_app [of 0 "[]" mb ml "rev ls" "l # rev pre"] by simp
  moreover have "tail_loop ml mb (l # rev pre) (joined_bytes ls) ls
      = (ls, joined_bytes ls, if length ls < ml then ByBytes else ByLines, False)"
    using assms by (simp add: Let_def)
  ultimately show "tail_shown ml mb (pre @ l # ls) = tail_shown ml mb ls"
    "tail_by ml mb (pre @ l # ls) = (if length ls < ml \<and> joined_bytes ls \<le> mb then ByBytes else tail_by ml mb ls)"
    using tail_loop_all [of ls ml mb] assms(1) by (auto simp: tail_shown_def tail_by_def)
qed

section \<open>The state holds a tail of the text\<close>

text \<open>
  The first \<open>k\<close> of the decoded characters \<open>ds\<close> are gone from the tail, none of them while the text
  is short.
\<close>

definition holds_tail :: "nat list \<Rightarrow> nat \<Rightarrow> accumulator \<Rightarrow> bool" where
  "holds_tail ds k a \<longleftrightarrow> k \<le> length ds \<and> oa_tailText a = units (drop k ds)
     \<and> (oa_tailStartsAtLineBoundary a \<longleftrightarrow> k = 0 \<or> ds ! (k - 1) = newline)
     \<and> (0 < k \<longrightarrow> maxRollingBytes a < length (enc (drop k ds)) + 4)"

definition holds_text :: "nat list \<Rightarrow> accumulator \<Rightarrow> bool" where
  "holds_text ds a \<longleftrightarrow> (\<forall>c\<in>set ds. scalar c) \<and> (\<exists>k. holds_tail ds k a)
     \<and> oa_tailBytes a = byteLength (oa_tailText a) \<and> oa_tailBytes a \<le> maxRollingBytes a * 2
     \<and> oa_totalDecodedBytes a = length (enc ds) \<and> oa_totalLines a = Suc (count_list ds newline)
     \<and> oa_currentLineBytes a = byteLength (last (split_on newline (units ds)))"

lemma holds_text_new [simp]: "holds_text [] (new_accumulator ml mb)"
  by (auto simp: holds_text_def holds_tail_def new_accumulator_def intro!: exI [of _ 0])

lemma set_drop_scalar: "\<forall>c\<in>set ds. scalar c \<Longrightarrow> \<forall>c\<in>set (drop k ds). scalar c"
  by (meson in_set_dropD)

lemma scalar_range: "\<forall>c\<in>set ds. scalar c \<Longrightarrow> \<forall>c\<in>set ds. c < 0x110000"
  by (auto simp: scalar_def)

lemma last_encode_cp: "last (encode_cp c) = 10 \<longleftrightarrow> c = newline" if "scalar c"
proof (cases "c < 0x80")
  case True
  then have "unat (word_of_nat c :: byte) = c" by (simp add: unat_byte)
  then have "(word_of_nat c :: byte) = 10 \<longleftrightarrow> c = 10" by (metis unat_newline newline_def unsigned_word_eqI)
  with True show ?thesis by (simp add: encode_cp_def newline_def)
next
  case False
  then have "last (encode_cp c) = cont c" by (simp add: encode_cp_def)
  moreover have "\<not> is_cont 10" by (simp add: is_cont_iff)
  then have "cont c \<noteq> 10" using is_cont_cont [of c] by metis
  ultimately show ?thesis using False by (simp add: newline_def)
qed

lemma enc_Nil_iff [simp]: "enc cs = [] \<longleftrightarrow> cs = []"
  by (cases cs) simp_all

lemma last_enc: "cs \<noteq> [] \<Longrightarrow> last (enc cs) = last (encode_cp (last cs))"
  by (induction cs) auto

text \<open>Trimming moves the tail to a later character and keeps almost the rolling limit.\<close>

lemma trimTail_holds:
  assumes "holds_tail ds k a" "\<forall>c\<in>set ds. scalar c"
  shows "\<exists>k. holds_tail ds k (trimTail a)" "oa_tailBytes (trimTail a) = byteLength (oa_tailText (trimTail a))"
    "oa_tailBytes (trimTail a) \<le> maxRollingBytes a"
proof -
  let ?cs = "drop k ds" and ?R = "maxRollingBytes a"
  have scal: "\<forall>c\<in>set ?cs. scalar c" using assms(2) by (rule set_drop_scalar)
  have u: "utf8 (oa_tailText a) = enc ?cs"
    using assms(1) utf8_units [OF scal] by (simp add: holds_tail_def units_def)
  have "(\<exists>k. holds_tail ds k (trimTail a)) \<and> oa_tailBytes (trimTail a) = byteLength (oa_tailText (trimTail a))
    \<and> oa_tailBytes (trimTail a) \<le> ?R"
  proof (cases "length (enc ?cs) \<le> ?R")
    case True
    with assms(1) u show ?thesis
      by (auto simp: trimTail_def Let_def holds_tail_def byteLength_def maxRollingBytes_def)
  next
    case False
    let ?n = "length (enc ?cs) - ?R"
    obtain j where j: "j \<le> length ?cs" "dropWhile is_cont (drop ?n (enc ?cs)) = enc (drop j ?cs)"
      "?n \<le> length (enc (take j ?cs))" "0 < j \<longrightarrow> length (enc (take (j - 1) ?cs)) < ?n"
      using skip_to_boundary [OF scalar_range [OF scal], of ?n] by auto
    have "0 < j" using j(3) False by (cases j) auto
    have tk: "take j ?cs = take (j - 1) ?cs @ [?cs ! (j - 1)]"
      using \<open>0 < j\<close> j(1) take_Suc_conv_app_nth [of "j - 1" ?cs] by simp
    have parts: "enc ?cs = enc (take j ?cs) @ enc (drop j ?cs)" by (metis append_take_drop_id enc_simps(3))
    then have len: "length (enc ?cs) = length (enc (take j ?cs)) + length (enc (drop j ?cs))" by simp
    have "length (enc (take j ?cs)) \<le> length (enc (take (j - 1) ?cs)) + 4"
      using length_encode_cp [of "?cs ! (j - 1)"] unfolding tk by simp
    with j(4) \<open>0 < j\<close> len have big: "?R < length (enc (drop j ?cs)) + 4" by simp
    have small: "length (enc (drop j ?cs)) \<le> ?R" using len j(3) False by linarith
    have "enc ?cs ! (length (enc (take j ?cs)) - 1) = last (enc (take j ?cs))"
      using \<open>0 < j\<close> j(1) by (subst parts) (simp add: nth_append last_conv_nth tk)
    also have "\<dots> = last (encode_cp (?cs ! (j - 1)))" by (subst last_enc) (simp_all add: tk)
    finally have edge: "enc ?cs ! (length (enc (take j ?cs)) - 1) = 10 \<longleftrightarrow> ?cs ! (j - 1) = newline"
      using last_encode_cp [of "?cs ! (j - 1)"] scal nth_mem [of "j - 1" ?cs] \<open>0 < j\<close> j(1)
      by (metis diff_less less_le_trans less_numeral_extra(1))
    have "k \<le> length ds" using assms(1) by (simp add: holds_tail_def)
    with \<open>0 < j\<close> have nth: "?cs ! (j - 1) = ds ! (k + j - 1)" by simp
    have str: "toString (enc (drop j ?cs)) = units (drop j ?cs)"
      using utf8_text_enc [OF set_drop_scalar [OF scal]] by (simp add: toString_def)
    have ne: "0 < length (enc (take j ?cs))" using j(3) False by linarith
    have t: "trimTail a = a\<lparr>oa_tailStartsAtLineBoundary := (?cs ! (j - 1) = newline),
        oa_tailText := units (drop j ?cs), oa_tailBytes := byteLength (units (drop j ?cs))\<rparr>"
      using False u j(2) edge str len ne by (simp add: trimTail_def Let_def)
    have "holds_tail ds (k + j) (trimTail a)"
      using \<open>0 < j\<close> j(1) big nth \<open>k \<le> length ds\<close> unfolding t
      by (simp add: holds_tail_def maxRollingBytes_def add.commute)
    then show ?thesis
      using small byteLength_units [OF set_drop_scalar [OF scal], of j] unfolding t by auto
  qed
  then show "\<exists>k. holds_tail ds k (trimTail a)" "oa_tailBytes (trimTail a) = byteLength (oa_tailText (trimTail a))"
    "oa_tailBytes (trimTail a) \<le> ?R" by blast+
qed

lemma last_split_units:
  "last (split_on newline (units cs @ units ds)) =
    (if newline \<in> set ds then last (split_on newline (units ds)) else last (split_on newline (units cs)) @ units ds)"
  by (simp add: last_split_on_app units_newline_iff)

text \<open>A text that ends in a whole character grows by the bytes of what is added.\<close>

lemma byteLength_last_line:
  assumes "\<forall>c\<in>set (cs @ ds). scalar c" "newline \<notin> set ds"
  shows "byteLength (last (split_on newline (units (cs @ ds)))) =
    byteLength (last (split_on newline (units cs))) + length (enc ds)"
proof -
  obtain l where l: "last (split_on newline cs) = l" "set l \<subseteq> set cs"
    using split_on_subset [of "last (split_on newline cs)" newline cs] by auto
  then have last: "last (split_on newline (units cs)) = units l" by (simp add: split_on_units last_map)
  from assms l(2) have "\<forall>c\<in>set (l @ ds). scalar c" "\<forall>c\<in>set l. scalar c" by auto
  with byteLength_units [of "l @ ds"] byteLength_units [of l] show ?thesis
    using assms(2) last by (simp add: last_split_units)
qed

lemma trimTail_keeps [simp]:
  "oa_maxBytes (trimTail a) = oa_maxBytes a" "oa_maxLines (trimTail a) = oa_maxLines a"
  "oa_decoder (trimTail a) = oa_decoder a" "oa_rawChunks (trimTail a) = oa_rawChunks a"
  "oa_totalRawBytes (trimTail a) = oa_totalRawBytes a" "oa_totalDecodedBytes (trimTail a) = oa_totalDecodedBytes a"
  "oa_totalLines (trimTail a) = oa_totalLines a" "oa_currentLineBytes (trimTail a) = oa_currentLineBytes a"
  "oa_finished (trimTail a) = oa_finished a" "oa_tempFilePath (trimTail a) = oa_tempFilePath a"
  "oa_streamOpen (trimTail a) = oa_streamOpen a" "oa_written (trimTail a) = oa_written a"
  "maxRollingBytes (trimTail a) = maxRollingBytes a"
  by (simp_all add: trimTail_def Let_def maxRollingBytes_def)

lemma appendDecodedText_keeps [simp]:
  "oa_maxBytes (appendDecodedText s a) = oa_maxBytes a" "oa_maxLines (appendDecodedText s a) = oa_maxLines a"
  "oa_decoder (appendDecodedText s a) = oa_decoder a" "oa_rawChunks (appendDecodedText s a) = oa_rawChunks a"
  "oa_totalRawBytes (appendDecodedText s a) = oa_totalRawBytes a"
  "oa_finished (appendDecodedText s a) = oa_finished a" "oa_tempFilePath (appendDecodedText s a) = oa_tempFilePath a"
  "oa_streamOpen (appendDecodedText s a) = oa_streamOpen a" "oa_written (appendDecodedText s a) = oa_written a"
  by (simp_all add: appendDecodedText_def Let_def)

lemma holds_tail_append:
  assumes "holds_tail ds k a"
  shows "holds_tail (ds @ es) k (a\<lparr>oa_totalDecodedBytes := n, oa_tailText := oa_tailText a @ units es, oa_tailBytes := m\<rparr>)"
  using assms by (auto simp: holds_tail_def maxRollingBytes_def nth_append)

lemma holds_tail_other:
  "holds_tail ds k (a\<lparr>oa_currentLineBytes := n\<rparr>) \<longleftrightarrow> holds_tail ds k a"
  "holds_tail ds k (a\<lparr>oa_totalLines := m\<rparr>) \<longleftrightarrow> holds_tail ds k a"
  by (simp_all add: holds_tail_def maxRollingBytes_def)

lemma maxRollingBytes_other [simp]:
  "maxRollingBytes (a\<lparr>oa_totalDecodedBytes := n, oa_tailText := s, oa_tailBytes := m\<rparr>) = maxRollingBytes a"
  "maxRollingBytes (a\<lparr>oa_currentLineBytes := n\<rparr>) = maxRollingBytes a"
  "maxRollingBytes (a\<lparr>oa_totalLines := m\<rparr>) = maxRollingBytes a"
  by (simp_all add: maxRollingBytes_def)

lemma appendDecodedText_holds:
  assumes "holds_text ds a" "\<forall>c\<in>set es. scalar c"
  shows "holds_text (ds @ es) (appendDecodedText (units es) a)"
proof (cases "es = []")
  case True
  with assms show ?thesis by (simp add: appendDecodedText_def)
next
  case False
  let ?b = "byteLength (units es)"
  define a1 where "a1 = a\<lparr>oa_totalDecodedBytes := oa_totalDecodedBytes a + ?b, oa_tailText := oa_tailText a @ units es,
                      oa_tailBytes := oa_tailBytes a + ?b\<rparr>"
  define a2 where "a2 = (if oa_tailBytes a1 > maxRollingBytes a1 * 2 then trimTail a1 else a1)"
  from assms(1) obtain k where k: "holds_tail ds k a" by (auto simp: holds_text_def)
  have scal: "\<forall>c\<in>set (ds @ es). scalar c" using assms by (auto simp: holds_text_def)
  have k1: "holds_tail (ds @ es) k a1" unfolding a1_def by (rule holds_tail_append [OF k])
  have "\<forall>c\<in>set (drop k ds). scalar c" using set_drop_scalar [of ds k] scal by simp
  then have "byteLength (oa_tailText a @ units es) = byteLength (oa_tailText a) + ?b"
    using byteLength_units [of "drop k ds @ es"] byteLength_units [of "drop k ds"] byteLength_units [of es] k assms(2)
    by (auto simp: holds_tail_def)
  then have bytes1: "oa_tailBytes a1 = byteLength (oa_tailText a1)"
    using assms(1) by (simp add: a1_def holds_text_def)
  have k2: "(\<exists>k. holds_tail (ds @ es) k a2) \<and> oa_tailBytes a2 = byteLength (oa_tailText a2)
    \<and> oa_tailBytes a2 \<le> maxRollingBytes a * 2"
    using trimTail_holds [OF k1 scal] k1 bytes1 by (auto simp: a2_def) (auto simp: a1_def)
  have rest: "oa_totalDecodedBytes a2 = length (enc (ds @ es))" "oa_totalLines a2 = oa_totalLines a"
    "oa_currentLineBytes a2 = oa_currentLineBytes a" "maxRollingBytes a2 = maxRollingBytes a"
    using assms byteLength_units [of es] by (simp_all add: a2_def a1_def holds_text_def)
  have run: "appendDecodedText (units es) a =
    (if newline \<notin> set es then a2\<lparr>oa_currentLineBytes := oa_currentLineBytes a2 + ?b\<rparr>
     else a2\<lparr>oa_totalLines := oa_totalLines a2 + count_list es newline,
             oa_currentLineBytes := byteLength (last (split_on newline (units es)))\<rparr>)"
    using False by (simp add: appendDecodedText_def Let_def a2_def a1_def count_units count_list_0_iff)
  show ?thesis
  proof (cases "newline \<in> set es")
    case True
    with assms k2 rest scal show ?thesis unfolding run
      by (simp add: holds_text_def holds_tail_other last_split_units)
  next
    case False
    then have "count_list es newline = 0" by simp
    with False assms k2 rest scal byteLength_last_line [OF scal False] byteLength_units [of es] show ?thesis unfolding run
      by (simp add: holds_text_def holds_tail_other del: units_simps)
  qed
qed

section \<open>An accumulator in use\<close>

text \<open>
  The bytes collected so far and whether the output has ended: chunks are appended, snapshots
  taken at any time, and the temporary file is closed after the end, as the tools do.
\<close>

inductive collects :: "string \<Rightarrow> nat option \<Rightarrow> nat option \<Rightarrow> byte list \<Rightarrow> bool \<Rightarrow> accumulator \<Rightarrow> bool"
  for path ml mb
where
  collects_new: "collects path ml mb [] False (new_accumulator ml mb)"
| collects_append: "collects path ml mb bs False a
    \<Longrightarrow> collects path ml mb (bs @ data) False (snd (append_output path data a))"
| collects_snapshot: "collects path ml mb bs fin a \<Longrightarrow> collects path ml mb bs fin (snd (snapshot path p a))"
| collects_finish: "collects path ml mb bs fin a \<Longrightarrow> collects path ml mb bs True (finish_output path a)"
| collects_close: "collects path ml mb bs True a \<Longrightarrow> collects path ml mb bs True (closeTempFile a)"

text \<open>Every byte is either in memory or in the file.\<close>

definition keeps_bytes :: "byte list \<Rightarrow> accumulator \<Rightarrow> bool" where
  "keeps_bytes bs a \<longleftrightarrow> (if oa_tempFilePath a = None then concat (oa_rawChunks a) = bs \<and> \<not> oa_streamOpen a
     else oa_written a = bs \<and> oa_rawChunks a = [])"

definition collected :: "nat option \<Rightarrow> nat option \<Rightarrow> byte list \<Rightarrow> bool \<Rightarrow> accumulator \<Rightarrow> bool" where
  "collected ml mb bs fin a \<longleftrightarrow> holds_text (decoded bs fin) a \<and> keeps_bytes bs a
     \<and> oa_maxLines a = nullish ml DEFAULT_MAX_LINES \<and> oa_maxBytes a = nullish mb DEFAULT_MAX_BYTES
     \<and> oa_finished a = fin \<and> oa_totalRawBytes a = length bs
     \<and> (\<not> fin \<longrightarrow> decoder_at bs (oa_decoder a) \<and> oa_streamOpen a = (oa_tempFilePath a \<noteq> None))
     \<and> (oa_tempFilePath a = None \<longrightarrow> length bs \<le> nullish mb DEFAULT_MAX_BYTES)"

lemma ensureTempFile_keeps [simp]:
  "oa_maxBytes (ensureTempFile path a) = oa_maxBytes a" "oa_maxLines (ensureTempFile path a) = oa_maxLines a"
  "oa_decoder (ensureTempFile path a) = oa_decoder a" "oa_finished (ensureTempFile path a) = oa_finished a"
  "oa_totalRawBytes (ensureTempFile path a) = oa_totalRawBytes a"
  "oa_tempFilePath (ensureTempFile path a) \<noteq> None"
  by (simp_all add: ensureTempFile_def)

lemma holds_text_cong:
  assumes "oa_tailText a = oa_tailText b" "oa_tailStartsAtLineBoundary a = oa_tailStartsAtLineBoundary b"
    "oa_maxBytes a = oa_maxBytes b" "oa_tailBytes a = oa_tailBytes b" "oa_totalDecodedBytes a = oa_totalDecodedBytes b"
    "oa_totalLines a = oa_totalLines b" "oa_currentLineBytes a = oa_currentLineBytes b"
  shows "holds_text ds a \<longleftrightarrow> holds_text ds b"
  using assms by (simp add: holds_text_def holds_tail_def maxRollingBytes_def)

lemma ensureTempFile_text [simp]: "holds_text ds (ensureTempFile path a) \<longleftrightarrow> holds_text ds a"
  by (rule holds_text_cong) (simp_all add: ensureTempFile_def)

lemma ensureTempFile_bytes: "keeps_bytes bs a \<Longrightarrow> keeps_bytes bs (ensureTempFile path a)"
  by (auto simp: keeps_bytes_def ensureTempFile_def)

lemma ensureTempFile_open:
  "oa_streamOpen (ensureTempFile path a) = (if oa_tempFilePath a = None then True else oa_streamOpen a)"
  by (simp add: ensureTempFile_def)

lemma collected_append:
  assumes "collected ml mb bs False a"
  shows "collected ml mb (bs @ data) False (snd (append_output path data a))"
proof -
  obtain cs td where d: "decode_chunk data (oa_decoder a) = (cs, td)" by force
  let ?a = "a\<lparr>oa_totalRawBytes := oa_totalRawBytes a + length data, oa_decoder := td\<rparr>"
  define a1 where "a1 = appendDecodedText (units cs) ?a"
  define a2 where "a2 = ensureTempFile path a1"
  have dec: "decoder_at bs (oa_decoder a)" using assms by (simp add: collected_def)
  note new = decode_chunk_at [OF dec d]
  have "holds_text (decoded bs False) ?a"
    using assms by (subst holds_text_cong [of _ a]) (simp_all add: collected_def)
  then have text1: "holds_text (decoded (bs @ data) False) a1"
    unfolding a1_def new(2) by (rule appendDecodedText_holds) (rule new(3))
  have bytes1: "keeps_bytes bs a1" "oa_streamOpen a1 = (oa_tempFilePath a1 \<noteq> None)"
    "oa_totalRawBytes a1 = length (bs @ data)" "oa_maxBytes a1 = oa_maxBytes a"
    using assms by (simp_all add: a1_def collected_def keeps_bytes_def)
  have nf: "\<not> oa_finished a" using assms by (simp add: collected_def)
  have "snd (append_output path data a) =
    (if oa_streamOpen a1 \<or> shouldUseTempFile a1
     then if oa_streamOpen a2 then a2\<lparr>oa_written := oa_written a2 @ data\<rparr> else a2
     else if data \<noteq> [] then a1\<lparr>oa_rawChunks := oa_rawChunks a1 @ [data]\<rparr> else a1)"
    by (simp add: append_output_def nf d a1_def a2_def Let_def)
  moreover have "oa_streamOpen a2" using bytes1(2) by (simp add: a2_def ensureTempFile_open)
  ultimately have run: "snd (append_output path data a) =
    (if oa_streamOpen a1 \<or> shouldUseTempFile a1 then a2\<lparr>oa_written := oa_written a2 @ data\<rparr>
     else if data \<noteq> [] then a1\<lparr>oa_rawChunks := oa_rawChunks a1 @ [data]\<rparr> else a1)" by simp
  show ?thesis
  proof (cases "oa_streamOpen a1 \<or> shouldUseTempFile a1")
    case True
    have "keeps_bytes bs a2" unfolding a2_def by (rule ensureTempFile_bytes [OF bytes1(1)])
    then have "keeps_bytes (bs @ data) (a2\<lparr>oa_written := oa_written a2 @ data\<rparr>)"
      by (simp add: keeps_bytes_def a2_def)
    moreover have "holds_text (decoded (bs @ data) False) (a2\<lparr>oa_written := oa_written a2 @ data\<rparr>)"
      using text1 by (subst holds_text_cong [of _ a2]) (simp_all add: a2_def)
    ultimately show ?thesis
      using True run assms new(1) bytes1 by (simp add: collected_def a2_def ensureTempFile_open) (simp add: a1_def)
  next
    case False
    then have "length (bs @ data) \<le> nullish mb DEFAULT_MAX_BYTES"
      using bytes1(3) assms by (simp add: shouldUseTempFile_def a1_def collected_def)
    moreover have "keeps_bytes (bs @ data) (snd (append_output path data a))"
      using False bytes1 unfolding run by (auto simp: keeps_bytes_def)
    moreover have "holds_text (decoded (bs @ data) False) (snd (append_output path data a))"
      using False text1 unfolding run by (subst holds_text_cong [of _ a1]) simp_all
    ultimately show ?thesis
      using False assms new(1) bytes1 unfolding collected_def run
      by (cases "data = []") (simp_all add: a1_def)
  qed
qed

lemma collected_ensure: "collected ml mb bs fin a \<Longrightarrow> collected ml mb bs fin (ensureTempFile path a)"
  by (auto simp: collected_def ensureTempFile_bytes ensureTempFile_open)

lemma collected_snapshot: "collected ml mb bs fin a \<Longrightarrow> collected ml mb bs fin (snd (snapshot path p a))"
  by (simp add: snapshot_def Let_def collected_ensure)

lemma collected_finish:
  assumes "collected ml mb bs fin a"
  shows "collected ml mb bs True (finish_output path a)"
proof (cases fin)
  case True
  with assms show ?thesis by (simp add: collected_def finish_output_def)
next
  case False
  obtain cs td where d: "decode_end (oa_decoder a) = (cs, td)" by force
  let ?a = "a\<lparr>oa_finished := True, oa_decoder := td\<rparr>"
  define a1 where "a1 = appendDecodedText (units cs) ?a"
  have dec: "decoder_at bs (oa_decoder a)" using assms False by (simp add: collected_def)
  note new = decode_end_at [OF dec d]
  have "holds_text (decoded bs False) ?a"
    using assms False by (subst holds_text_cong [of _ a]) (simp_all add: collected_def)
  then have "holds_text (decoded bs True) a1"
    unfolding a1_def new(1) by (rule appendDecodedText_holds) (rule new(2))
  then have "collected ml mb bs True a1"
    using assms by (simp add: collected_def keeps_bytes_def) (simp add: a1_def)
  moreover have "\<not> oa_finished a" using assms False by (simp add: collected_def)
  ultimately show ?thesis
    using d by (simp add: finish_output_def a1_def [symmetric] collected_ensure)
qed

lemma collects_collected: "collects path ml mb bs fin a \<Longrightarrow> collected ml mb bs fin a"
proof (induction rule: collects.induct)
  case collects_new
  have "decoder_at [] new_decoder" by (simp add: decoder_at_def new_decoder_def)
  then show ?case
    by (simp add: collected_def decoded_def skip_bom_def keeps_bytes_def) (simp add: new_accumulator_def)
next
  case (collects_close bs a)
  moreover have "holds_text ds (closeTempFile a) \<longleftrightarrow> holds_text ds a" for ds
    by (rule holds_text_cong) (simp_all add: closeTempFile_def)
  ultimately show ?case by (simp add: collected_def keeps_bytes_def) (simp add: closeTempFile_def)
qed (blast intro: collected_append collected_snapshot collected_finish)+

section \<open>Snapshots\<close>

lemma split_on_mid:
  assumes "\<not> newline \<in> set y"
  shows "\<exists>pre l. split_on newline (x @ y) = pre @ [l @ y] \<and> set l \<subseteq> set x"
  using split_on_app [of newline x y] split_on_id [OF assms] split_on_subset [of "last (split_on newline x)" newline x]
  by auto

lemma getSnapshotText_line:
  assumes "newline \<notin> set p" "oa_tailText a = units (p @ newline # r)" "\<not> oa_tailStartsAtLineBoundary a"
  shows "getSnapshotText a = units r"
proof -
  have "newline \<notin> set (units p)" using assms(1) by (simp add: units_newline_iff)
  then have "dropWhile (\<lambda>u. u \<noteq> newline) (units p @ newline # units r) = newline # units r"
    by (induction "units p") (auto simp: dropWhile_append)
  then show ?thesis using assms(2,3) by (simp add: getSnapshotText_def units_newline)
qed

text \<open>
  What tail truncation makes of the kept tail is what it makes of the whole text, because the tail
  is longer than the byte limit once anything was dropped.
\<close>

lemma tail_enough:
  assumes "holds_tail ds k a" "\<forall>c\<in>set ds. scalar c" "mb = oa_maxBytes a" "4 \<le> mb"
  shows "tail_shown ml mb (split_on newline (getSnapshotText a)) = tail_shown ml mb (split_on newline (units ds))"
    and "fits_limits ml mb (units ds) \<Longrightarrow> getSnapshotText a = units ds"
    and "\<not> fits_limits ml mb (getSnapshotText a) \<Longrightarrow>
      tail_by ml mb (split_on newline (getSnapshotText a)) = tail_by ml mb (split_on newline (units ds))"
    and "fits_limits ml mb (getSnapshotText a) \<Longrightarrow> \<not> fits_limits ml mb (units ds) \<Longrightarrow>
      mb < length (enc ds) \<and> (tail_by ml mb (split_on newline (units ds)) = ByBytes
        \<or> length (split_on newline (getSnapshotText a)) = ml)"
proof -
  let ?y = "drop k ds" and ?S = "getSnapshotText a" and ?W = "split_on newline (units ds)"
  have y: "\<forall>c\<in>set ?y. scalar c" using assms(2) by (rule set_drop_scalar)
  have tail: "oa_tailText a = units ?y" using assms(1) by (simp add: holds_tail_def)
  have whole: "ds = take k ds @ ?y" by simp
  have "tail_shown ml mb (split_on newline ?S) = tail_shown ml mb ?W
    \<and> (fits_limits ml mb (units ds) \<longrightarrow> ?S = units ds)
    \<and> (\<not> fits_limits ml mb ?S \<longrightarrow> tail_by ml mb (split_on newline ?S) = tail_by ml mb ?W)
    \<and> (fits_limits ml mb ?S \<and> \<not> fits_limits ml mb (units ds) \<longrightarrow> mb < length (enc ds) \<and>
         (tail_by ml mb ?W = ByBytes \<or> length (split_on newline ?S) = ml))"
  proof (cases "k = 0")
    case True
    with assms(1) tail have "?S = units ds" by (simp add: getSnapshotText_def holds_tail_def)
    then show ?thesis by auto
  next
    case False
    with assms have long: "mb < length (enc ?y)" by (auto simp: holds_tail_def maxRollingBytes_def)
    have "length (enc ?y) \<le> length (enc ds)" by (subst (2) whole) (simp del: append_take_drop_id)
    with long have all: "mb < length (enc ds)" "\<not> fits_limits ml mb (units ds)"
      using byteLength_units [OF assms(2)] by auto
    consider (edge) "oa_tailStartsAtLineBoundary a" | (inside) "\<not> oa_tailStartsAtLineBoundary a" "newline \<notin> set ?y"
      | (line) p r where "\<not> oa_tailStartsAtLineBoundary a" "?y = p @ newline # r" "newline \<notin> set p"
      by (metis split_list_first)
    then show ?thesis
    proof cases
      case edge
      with False assms(1) have "ds ! (k - 1) = newline" "k \<le> length ds" by (auto simp: holds_tail_def)
      with False have "ds = take (k - 1) ds @ newline # ?y"
        by (metis Cons_nth_drop_Suc One_nat_def Suc_pred append_take_drop_id diff_less gr0I le_less_trans less_le not_less lessI)
      then have "?W = map units (split_on newline (take (k - 1) ds)) @ split_on newline (units ?y)"
        by (metis map_append split_on_app_sep split_on_units)
      moreover have "mb < joined_bytes (split_on newline (units ?y))" using long byteLength_units [OF y] by simp
      ultimately have "tail_loop ml mb (rev ?W) 0 [] = tail_loop ml mb (rev (split_on newline (units ?y))) 0 []"
        by (metis tail_loop_overfull)
      moreover have "?S = units ?y" using edge tail by (simp add: getSnapshotText_def)
      ultimately show ?thesis using all long byteLength_units [OF y] by (auto simp: tail_shown_def tail_by_def)
    next
      case inside
      then have S: "?S = units ?y" "split_on newline (units ?y) = [units ?y]"
        using tail by (simp_all add: getSnapshotText_def units_newline_iff split_on_id)
      obtain pre l where l: "split_on newline (take k ds @ ?y) = pre @ [l @ ?y]" "set l \<subseteq> set (take k ds)"
        using split_on_mid [OF inside(2)] by blast
      have "\<forall>c\<in>set (l @ ?y). scalar c" using l(2) assms(2) y by (auto dest: in_set_takeD)
      from tail_loop_long_line [OF this long, of ml "rev (map units pre)"]
      have "tail_loop ml mb (rev ?W) 0 [] = tail_loop ml mb (rev (split_on newline ?S)) 0 []"
        using l(1) S by (simp add: split_on_units)
      then show ?thesis using all long byteLength_units [OF y] S by (auto simp: tail_shown_def tail_by_def)
    next
      case line
      have S: "?S = units r" using getSnapshotText_line [OF line(3) _ line(1)] line(2) tail by simp
      obtain pre l where l: "split_on newline (take k ds @ p) = pre @ [l @ p]" "set l \<subseteq> set (take k ds)"
        using split_on_mid [OF line(3)] by blast
      have "ds = (take k ds @ p) @ newline # r" using whole line(2) by simp
      then have "split_on newline ds = pre @ (l @ p) # split_on newline r"
        using l(1) split_on_app_sep [of newline "take k ds @ p" r] by simp
      then have W: "?W = map units pre @ units (l @ p) # split_on newline (units r)"
        by (simp only: split_on_units map_append list.map)
      have "\<forall>c\<in>set (l @ p). scalar c" "\<forall>c\<in>set r. scalar c" using l(2) assms(2) y line(2) by (auto dest: in_set_takeD)
      then have bytes: "byteLength (units (l @ p)) = length (enc l) + length (enc p)"
        "joined_bytes (split_on newline (units r)) = length (enc r)"
        using byteLength_units by (auto simp del: units_simps)
      moreover have "length (enc ?y) = length (enc p) + 1 + length (enc r)"
        unfolding line(2) by (simp add: encode_cp_def newline_def)
      ultimately have "mb < byteLength (units (l @ p)) + 1 + joined_bytes (split_on newline (units r))"
        using long by linarith
      from tail_after_line [OF split_on_ne this, of ml "map units pre"] all bytes(2)
      show ?thesis unfolding S W by auto
    qed
  qed
  then show "tail_shown ml mb (split_on newline ?S) = tail_shown ml mb ?W"
    and "fits_limits ml mb (units ds) \<Longrightarrow> ?S = units ds"
    and "\<not> fits_limits ml mb ?S \<Longrightarrow> tail_by ml mb (split_on newline ?S) = tail_by ml mb ?W"
    and "fits_limits ml mb ?S \<Longrightarrow> \<not> fits_limits ml mb (units ds) \<Longrightarrow> mb < length (enc ds) \<and>
      (tail_by ml mb ?W = ByBytes \<or> length (split_on newline ?S) = ml)" by blast+
qed

text \<open>
  C10. The output accumulator, which keeps only a rolling tail of the text, shows what truncating
  the whole output would show: same lines, same totals, whatever the chunks of bytes, as long as the
  byte limit is at least four; only the reason given for the cut may differ, when both limits cut at
  the same line.
\<close>

theorem snapshot_shows_whole_tail:
  assumes "collects path ml mb bs fin a" "4 \<le> nullish mb DEFAULT_MAX_BYTES"
    and "snapshot path p a = ((r, f), a')"
    and "whole = truncateTail (units (decoded bs fin)) \<lparr>opt_maxLines = ml, opt_maxBytes = mb\<rparr>"
  shows "shown r = shown whole \<and> truncated r = truncated whole \<and> totalLines r = totalLines whole
    \<and> totalBytes r = totalBytes whole \<and> maxLines r = maxLines whole \<and> maxBytes r = maxBytes whole
    \<and> (truncatedBy r = truncatedBy whole
       \<or> truncatedBy r = Some ByBytes \<and> truncatedBy whole = Some ByLines \<and> outputLines whole = maxLines whole)"
proof -
  let ?ds = "decoded bs fin" and ?L = "oa_maxLines a" and ?B = "oa_maxBytes a" and ?S = "getSnapshotText a"
  let ?t = "truncateTail ?S (tail_options ?L ?B)"
  have c: "collected ml mb bs fin a" by (rule collects_collected [OF assms(1)])
  then obtain k where k: "holds_tail ?ds k a" and scal: "\<forall>c\<in>set ?ds. scalar c"
    by (auto simp: collected_def holds_text_def)
  have limits: "?L = nullish ml DEFAULT_MAX_LINES" "?B = nullish mb DEFAULT_MAX_BYTES" using c by (simp_all add: collected_def)
  have whole: "whole = truncateTail (units ?ds) (tail_options ?L ?B)"
    unfolding assms(4) limits by (simp add: truncateTail_def)
  have counts: "oa_totalLines a = length (split_on newline (units ?ds))" "oa_totalDecodedBytes a = byteLength (units ?ds)"
    using c byteLength_units [OF scal] by (simp_all add: collected_def holds_text_def length_split_on count_units)
  have over: "oa_totalLines a > ?L \<or> oa_totalDecodedBytes a > ?B \<longleftrightarrow> \<not> fits_limits ?L ?B (units ?ds)"
    unfolding counts by auto
  have r: "r = ?t\<lparr>truncated := \<not> fits_limits ?L ?B (units ?ds),
      truncatedBy := (if fits_limits ?L ?B (units ?ds) then None
        else Some (case truncatedBy ?t of Some b \<Rightarrow> b | None \<Rightarrow> if oa_totalDecodedBytes a > ?B then ByBytes else ByLines)),
      totalLines := oa_totalLines a, totalBytes := oa_totalDecodedBytes a, maxLines := ?L, maxBytes := ?B\<rparr>"
    using assms(3) unfolding snapshot_def Let_def over by auto
  note enough = tail_enough [OF k scal refl assms(2) [folded limits(2)], of ?L]
  have "shown r = shown ?t" unfolding r by (simp add: shown_def)
  also have "\<dots> = shown whole" unfolding whole truncateTail_shown by (rule enough(1))
  finally have "shown r = shown whole" .
  moreover have "truncatedBy r = truncatedBy whole
    \<or> truncatedBy r = Some ByBytes \<and> truncatedBy whole = Some ByLines \<and> outputLines whole = maxLines whole"
  proof (cases "fits_limits ?L ?B (units ?ds)")
    case True
    then show ?thesis unfolding r whole by (simp add: truncateTail_by)
  next
    case big: False
    show ?thesis
    proof (cases "fits_limits ?L ?B ?S")
      case False
      with big enough(3) [OF False] show ?thesis unfolding r whole by (auto simp: truncateTail_by)
    next
      case True
      have more: "?B < length (enc ?ds)" and
        lim: "tail_by ?L ?B (split_on newline (units ?ds)) = ByBytes \<or> length (split_on newline ?S) = ?L"
        using enough(4) [OF True big] by blast+
      have tr: "truncatedBy r = Some ByBytes"
        using big True more counts(2) byteLength_units [OF scal] unfolding r by (auto simp: truncateTail_by)
      have tw: "truncatedBy whole = Some (tail_by ?L ?B (split_on newline (units ?ds)))"
        using big unfolding whole by (auto simp: truncateTail_by)
      have "outputLines ?t = length (split_on newline ?S)"
        using True by (simp add: truncateTail_def untruncated_def Let_def)
      moreover have "outputLines whole = outputLines ?t" using \<open>shown ?t = shown whole\<close> by (simp add: shown_def)
      moreover have "maxLines whole = ?L" unfolding whole by (simp add: truncateTail_by)
      ultimately show ?thesis using lim tr tw by (cases "tail_by ?L ?B (split_on newline (units ?ds))") auto
    qed
  qed
  ultimately show ?thesis using counts unfolding whole by (simp add: truncateTail_by r)
qed

theorem snapshot_shows_whole_tail_witness:
  "let a = snd (append_output ''out'' [98] (snd (append_output ''out'' [97, 10] (new_accumulator (Some 1) (Some 4)))));
       whole = truncateTail (units (decoded [97, 10, 98] False)) \<lparr>opt_maxLines = Some 1, opt_maxBytes = Some 4\<rparr>
   in shown (fst (fst (snapshot ''out'' True a))) = shown whole"
proof -
  have "collects ''out'' (Some 1) (Some 4) (([] @ [97, 10]) @ [98]) False
     (snd (append_output ''out'' [98] (snd (append_output ''out'' [97, 10] (new_accumulator (Some 1) (Some 4))))))"
    by (intro collects_append collects_new)
  moreover define a where
    "a = snd (append_output ''out'' [98] (snd (append_output ''out'' [97, 10] (new_accumulator (Some 1) (Some 4)))))"
  moreover obtain r f a' where "snapshot ''out'' True a = ((r, f), a')" by (metis prod.exhaust)
  ultimately show ?thesis
    using snapshot_shows_whole_tail [of "''out''" "Some 1" "Some 4" "[97, 10, 98]" False a True r f a', OF _ _ _ refl]
    by (simp add: Let_def flip: a_def)
qed

lemma snapshot_state: "snapshot path p a = ((r, f), a') \<Longrightarrow> f = oa_tempFilePath a'"
  by (auto simp: snapshot_def Let_def)

text \<open>
  The full output is kept: the file a snapshot names holds every byte collected, also after it was
  closed, and a truncated snapshot that asks for the file gets one.
\<close>

theorem snapshot_file_complete:
  assumes "collects path ml mb bs fin a" "snapshot path p a = ((r, f), a')"
  shows "(f \<noteq> None \<longrightarrow> oa_written a' = bs) \<and> (p \<and> truncated r \<longrightarrow> f \<noteq> None)
    \<and> (f = None \<longrightarrow> concat (oa_rawChunks a') = bs \<and> length bs \<le> nullish mb DEFAULT_MAX_BYTES)"
proof -
  have "collects path ml mb bs fin a'" using collects_snapshot [OF assms(1), of p] assms(2) by simp
  then have c: "collected ml mb bs fin a'" by (rule collects_collected)
  have f: "f = oa_tempFilePath a'" by (rule snapshot_state [OF assms(2)])
  have "p \<and> truncated r \<longrightarrow> f \<noteq> None"
    using assms(2) ensureTempFile_keeps(6) [of path a] by (auto simp: snapshot_def Let_def simp del: ensureTempFile_keeps)
  then show ?thesis using c f by (auto simp: collected_def keeps_bytes_def)
qed

theorem snapshot_file_complete_witness:
  "let a = snd (append_output ''out'' [98] (snd (append_output ''out'' [97, 10] (new_accumulator (Some 1) (Some 4)))));
       s = snapshot ''out'' True (finish_output ''out'' a)
   in snd (fst s) \<noteq> None \<and> oa_written (snd s) = [97, 10, 98]"
proof -
  define a where "a = snd (append_output ''out'' [98] (snd (append_output ''out'' [97, 10] (new_accumulator (Some 1) (Some 4)))))"
  have "collects ''out'' (Some 1) (Some 4) (([] @ [97, 10]) @ [98]) False a"
    unfolding a_def by (intro collects_append collects_new)
  then have c: "collects ''out'' (Some 1) (Some 4) [97, 10, 98] True (finish_output ''out'' a)"
    using collects_finish by fastforce
  have "decoded [97, 10, 98] True = [97, 10, 98]"
    by (simp add: decoded_def skip_bom_def utf8_text_def utf8_byte_def utf8_idle_def first_byte_def utf8_end_def)
  with collects_collected [OF c] have "oa_totalLines (finish_output ''out'' a) = 2" "oa_maxLines (finish_output ''out'' a) = 1"
    by (simp_all add: collected_def holds_text_def newline_def)
  then have "truncated (fst (fst (snapshot ''out'' True (finish_output ''out'' a))))" by (simp add: snapshot_def Let_def)
  moreover obtain r f a' where s: "snapshot ''out'' True (finish_output ''out'' a) = ((r, f), a')" by (metis prod.exhaust)
  ultimately show ?thesis using snapshot_file_complete [OF c s] unfolding Let_def a_def [symmetric] by simp
qed

text \<open>
  Memory stays bounded whatever is appended: the kept tail by four times the byte limit, the kept
  chunks by the limit itself.
\<close>

theorem accumulator_memory:
  assumes "collects path ml mb bs fin a"
  shows "byteLength (oa_tailText a) \<le> 2 * max (2 * nullish mb DEFAULT_MAX_BYTES) 1
    \<and> length (concat (oa_rawChunks a)) \<le> nullish mb DEFAULT_MAX_BYTES \<and> oa_totalRawBytes a = length bs"
  using collects_collected [OF assms]
  by (auto simp: collected_def holds_text_def keeps_bytes_def maxRollingBytes_def mult.commute split: if_splits)

theorem accumulator_memory_witness:
  "byteLength (oa_tailText (snd (append_output ''out'' (replicate 40 97) (new_accumulator None (Some 4))))) \<le> 16"
  using accumulator_memory [OF collects_append [OF collects_new [of "''out''" None "Some 4"]], of "replicate 40 97"] by simp

end
