(* ===== verification/Json_Repair.thy ===== *)
theory Json_Repair
  imports Json "HOL-Library.Sublist"
begin

text \<open>
  JSON with repair (\<open>packages/ai/src/utils/json-parse.ts\<close>): \<open>repairJson\<close> escapes raw control characters
  inside string literals and doubles backslashes before characters that escape nothing;
  \<open>parseJsonWithRepair\<close> and \<open>parseStreamingJson\<close> fall back on it. \<open>JSON.parse\<close> and the parser of the
  package \<open>partial-json\<close> are parameters.
\<close>

section \<open>Characters\<close>

definition quote_mark :: char where
  "quote_mark = CHR 0x22"

definition backslash :: char where
  "backslash = CHR 0x5C"

definition VALID_JSON_ESCAPES :: string where
  "VALID_JSON_ESCAPES = [quote_mark, backslash, CHR ''/'', CHR ''b'', CHR ''f'', CHR ''n'', CHR ''r'', CHR ''t'', CHR ''u'']"

definition isControlCharacter :: "char \<Rightarrow> bool" where
  "isControlCharacter c \<longleftrightarrow> of_char c \<le> (0x1F :: nat)"

definition escapeControlCharacter :: "char \<Rightarrow> string" where
  "escapeControlCharacter c =
     (let n = of_char c :: nat
      in if n = 8 then [backslash, CHR ''b'']
         else if n = 12 then [backslash, CHR ''f'']
         else if n = 10 then [backslash, CHR ''n'']
         else if n = 13 then [backslash, CHR ''r'']
         else if n = 9 then [backslash, CHR ''t'']
         else [backslash, CHR ''u'', CHR ''0'', CHR ''0'', hex_digit (n div 16), hex_digit (n mod 16)])"

text \<open>\<open>/^[0-9a-fA-F]{4}$/\<close>.\<close>

definition is_hex :: "char \<Rightarrow> bool" where
  "is_hex c \<longleftrightarrow> c \<in> set ''0123456789abcdefABCDEF''"

definition four_hex :: "string \<Rightarrow> bool" where
  "four_hex s \<longleftrightarrow> length s = 4 \<and> list_all is_hex s"

section \<open>Repair\<close>

text \<open>
  The loop over the text, with the flag \<open>inString\<close>; an escape takes two characters at once, one with
  four hexadecimal digits six.
\<close>

function repair_loop :: "bool \<Rightarrow> string \<Rightarrow> string" where
  "repair_loop inString [] = []"
| "repair_loop False (c # cs) = c # repair_loop (c = quote_mark) cs"
| "repair_loop True (c # cs) =
     (if c = quote_mark then c # repair_loop False cs
      else if c = backslash
      then (case cs of
              [] \<Rightarrow> [backslash, backslash]
            | e # ds \<Rightarrow>
                if e = CHR ''u'' \<and> four_hex (take 4 ds)
                then [backslash, e] @ take 4 ds @ repair_loop True (drop 4 ds)
                else if e \<in> set VALID_JSON_ESCAPES then [backslash, e] @ repair_loop True ds
                else [backslash, backslash] @ repair_loop True cs)
      else (if isControlCharacter c then escapeControlCharacter c else [c]) @ repair_loop True cs)"
  by pat_completeness auto
termination by (relation "measure (\<lambda>(b, cs). length cs)") auto

definition repairJson :: "string \<Rightarrow> string" where
  "repairJson s = repair_loop False s"

section \<open>Parsing\<close>

record json_parsers =
  jp_parse :: "string \<Rightarrow> json option"
  jp_partial :: "string \<Rightarrow> json option option"

text \<open>\<open>JSON.parse\<close> throws on malformed text; so does the rest when both attempts fail.\<close>

definition parseJsonWithRepair :: "json_parsers \<Rightarrow> string \<Rightarrow> json option" where
  "parseJsonWithRepair P s =
     (case jp_parse P s of
        Some v \<Rightarrow> Some v
      | None \<Rightarrow> (let repairedJson = repairJson s in if repairedJson \<noteq> s then jp_parse P repairedJson else None))"

text \<open>
  \<open>partialParse\<close> throws (\<open>None\<close>) or gives a value, \<open>undefined\<close> or \<open>null\<close> among them, which become the
  empty object. White space is what \<open>trim\<close> removes of the characters of the model.
\<close>

definition empty_object :: json where
  "empty_object = JObject []"

definition or_empty :: "json option \<Rightarrow> json" where
  "or_empty r = (case r of None \<Rightarrow> empty_object | Some JNull \<Rightarrow> empty_object | Some v \<Rightarrow> v)"

definition is_blank :: "char \<Rightarrow> bool" where
  "is_blank c \<longleftrightarrow> of_char c \<in> {9, 10, 11, 12, 13, 32, 0xA0 :: nat}"

definition parseStreamingJson :: "json_parsers \<Rightarrow> string option \<Rightarrow> json" where
  "parseStreamingJson P s =
     (case s of
        None \<Rightarrow> empty_object
      | Some partialJson \<Rightarrow>
          if list_all is_blank partialJson then empty_object
          else case parseJsonWithRepair P partialJson of
                 Some v \<Rightarrow> v
               | None \<Rightarrow>
                   (case jp_partial P partialJson of
                      Some r \<Rightarrow> or_empty r
                    | None \<Rightarrow>
                        (case jp_partial P (repairJson partialJson) of
                           Some r \<Rightarrow> or_empty r
                         | None \<Rightarrow> empty_object)))"

text \<open>Parsers to evaluate with: the empty object parses, anything else is taken for its beginning.\<close>

definition demo_parsers :: json_parsers where
  "demo_parsers = \<lparr>jp_parse = (\<lambda>s. if s = ''{}'' then Some empty_object else None), jp_partial = (\<lambda>_. Some (Some empty_object))\<rparr>"

section \<open>What repair does\<close>

lemma repair_simps [simp]:
  "repair_loop True (quote_mark # cs) = quote_mark # repair_loop False cs"
  "c \<noteq> quote_mark \<Longrightarrow> c \<noteq> backslash \<Longrightarrow> \<not> isControlCharacter c \<Longrightarrow> repair_loop True (c # cs) = c # repair_loop True cs"
  by simp_all

text \<open>
  A text is lexically clean when its string literals hold no raw control character and every
  backslash in them is followed by a letter that may follow one.
\<close>

fun clean :: "bool \<Rightarrow> string \<Rightarrow> bool" where
  "clean inString [] \<longleftrightarrow> True"
| "clean False (c # cs) \<longleftrightarrow> clean (c = quote_mark) cs"
| "clean True (c # cs) \<longleftrightarrow>
     (if c = quote_mark then clean False cs
      else if c = backslash then (case cs of [] \<Rightarrow> False | e # ds \<Rightarrow> e \<in> set VALID_JSON_ESCAPES \<and> clean True ds)
      else \<not> isControlCharacter c \<and> clean True cs)"

lemma escapes_facts:
  "quote_mark \<noteq> backslash" "\<not> isControlCharacter quote_mark" "\<not> isControlCharacter backslash"
  "CHR ''u'' \<in> set VALID_JSON_ESCAPES" "backslash \<in> set VALID_JSON_ESCAPES"
  by (simp_all add: quote_mark_def backslash_def isControlCharacter_def VALID_JSON_ESCAPES_def)

lemma hex_plain:
  assumes "is_hex c"
  shows "c \<noteq> quote_mark" "c \<noteq> backslash" "\<not> isControlCharacter c"
  using assms by (auto simp: is_hex_def quote_mark_def backslash_def isControlCharacter_def)

lemma clean_plain_app:
  "\<forall>c\<in>set xs. c \<noteq> quote_mark \<and> c \<noteq> backslash \<and> \<not> isControlCharacter c \<Longrightarrow> clean True (xs @ cs) = clean True cs"
  by (induction xs) auto

lemma four_hex_plain:
  "four_hex s \<Longrightarrow> \<forall>c\<in>set s. c \<noteq> quote_mark \<and> c \<noteq> backslash \<and> \<not> isControlCharacter c"
  by (auto simp: four_hex_def list_all_iff dest: hex_plain)

lemma hex_digit_plain:
  "n < 16 \<Longrightarrow> is_hex (hex_digit n)"
proof -
  assume "n < 16"
  then have "n \<in> set [0..<16]" by simp
  moreover have "list_all (\<lambda>n. is_hex (hex_digit n)) [0..<16]" by code_simp
  ultimately show ?thesis by (auto simp: list_all_iff)
qed

lemma escapeControl_clean:
  assumes "isControlCharacter c"
  shows "clean True (escapeControlCharacter c @ cs) = clean True cs"
proof -
  let ?n = "of_char c :: nat"
  have "is_hex (hex_digit (?n div 16))" "is_hex (hex_digit (?n mod 16))"
    using assms by (auto intro!: hex_digit_plain simp: isControlCharacter_def)
  then have "clean True (hex_digit (?n div 16) # hex_digit (?n mod 16) # cs) = clean True cs"
    using clean_plain_app [of "[hex_digit (?n div 16), hex_digit (?n mod 16)]" cs] hex_plain by auto
  then show ?thesis
    by (simp add: escapeControlCharacter_def Let_def VALID_JSON_ESCAPES_def backslash_def quote_mark_def isControlCharacter_def)
qed

text \<open>The repaired text is clean, whatever the text was.\<close>

lemma repair_loop_clean: "clean b (repair_loop b s)"
proof (induction b s rule: repair_loop.induct)
  case (3 c cs)
  show ?case
  proof (cases "c = backslash")
    case True
    show ?thesis
    proof (cases cs)
      case Nil
      with True escapes_facts show ?thesis by simp
    next
      case (Cons e ds)
      note IH = "3.IH"(2,3,4) [OF _ _ Cons]
      have ne: "c \<noteq> quote_mark" using True escapes_facts by simp
      consider "e = CHR ''u''" "four_hex (take 4 ds)" | "\<not> (e = CHR ''u'' \<and> four_hex (take 4 ds))" "e \<in> set VALID_JSON_ESCAPES"
        | "e \<notin> set VALID_JSON_ESCAPES" by blast
      then show ?thesis
      proof cases
        case 1
        with IH(1) [OF ne True] have "clean True (repair_loop True (drop 4 ds))" by blast
        with 1 True ne Cons escapes_facts clean_plain_app [OF four_hex_plain [OF 1(2)]]
        show ?thesis by simp
      next
        case 2
        with IH(2) [OF ne True] True ne Cons escapes_facts show ?thesis by auto
      next
        case 3
        with escapes_facts have "e \<noteq> CHR ''u''" by metis
        with 3 "3.IH"(4) [OF ne True Cons] True ne Cons escapes_facts show ?thesis by auto
      qed
    qed
  next
    case False
    with "3.IH"(1,5) escapeControl_clean [of c] show ?thesis by auto
  qed
qed simp_all

text \<open>A clean text is left as it is, so that repairing twice is repairing once.\<close>

lemma repair_clean_id: "clean b s \<Longrightarrow> repair_loop b s = s"
proof (induction b s rule: repair_loop.induct)
  case (3 c cs)
  show ?case
  proof (cases "c = backslash")
    case True
    with "3.prems" escapes_facts obtain e ds where cs: "cs = e # ds" "e \<in> set VALID_JSON_ESCAPES" "clean True ds"
      by (auto split: list.splits)
    have ne: "c \<noteq> quote_mark" using True escapes_facts by simp
    show ?thesis
    proof (cases "e = CHR ''u'' \<and> four_hex (take 4 ds)")
      case True
      have "clean True (drop 4 ds)"
        using cs(3) clean_plain_app [OF four_hex_plain, of "take 4 ds" "drop 4 ds"] True by simp
      with "3.IH"(2) [OF ne \<open>c = backslash\<close> cs(1) True] True cs ne \<open>c = backslash\<close> show ?thesis by simp
    next
      case False
      with "3.IH"(3) [OF ne True cs(1) False cs(2,3)] cs ne True show ?thesis by auto
    qed
  next
    case False
    with "3.IH" "3.prems" show ?thesis by (auto split: if_splits)
  qed
qed simp_all

section \<open>Printed values need no repair\<close>

text \<open>A text that ends outside of string literals.\<close>

definition closed :: "string \<Rightarrow> bool" where
  "closed s \<longleftrightarrow> (\<forall>cs. clean False (s @ cs) = clean False cs)"

lemma closed_Nil [simp]: "closed []"
  by (simp add: closed_def)

lemma closed_app: "closed s \<Longrightarrow> closed t \<Longrightarrow> closed (s @ t)"
  by (simp add: closed_def)

lemma closed_plain: "closed s" if "quote_mark \<notin> set s"
proof -
  have "clean False (s @ cs) = clean False cs" for cs using that by (induction s) auto
  then show ?thesis by (simp add: closed_def)
qed

lemma closed_join:
  "closed sep \<Longrightarrow> (\<And>s. s \<in> set ss \<Longrightarrow> closed s) \<Longrightarrow> closed (join sep ss)"
proof (induction ss)
  case (Cons s ss)
  then show ?case by (cases "ss = []") (simp_all add: join_Cons closed_app)
qed simp

lemma code_chars: "of_char quote_mark = (34 :: nat)" "of_char backslash = (92 :: nat)"
  by (simp_all add: quote_mark_def backslash_def)

lemma char_codes: "char_of (34 :: nat) = quote_mark" "char_of (92 :: nat) = backslash"
  by (metis code_chars char_of_char)+

lemma zero_plain: "CHR ''0'' \<noteq> quote_mark" "CHR ''0'' \<noteq> backslash" "\<not> isControlCharacter CHR ''0''"
  by (simp_all add: quote_mark_def backslash_def isControlCharacter_def)

lemma quote_char_clean: "clean True (quote_char c @ cs) = clean True cs"
proof (cases "(of_char c :: nat) < 32")
  case True
  let ?n = "of_char c :: nat"
  have "is_hex (hex_digit (?n div 16))" "is_hex (hex_digit (?n mod 16))"
    using True by (auto intro!: hex_digit_plain)
  then have "clean True (hex_digit (?n div 16) # hex_digit (?n mod 16) # cs) = clean True cs"
    using clean_plain_app [of "[hex_digit (?n div 16), hex_digit (?n mod 16)]" cs] hex_plain by auto
  with True escapes_facts show ?thesis
    by (simp add: quote_char_def Let_def char_codes zero_plain) (simp add: VALID_JSON_ESCAPES_def)
next
  case False
  have "c = quote_mark \<longleftrightarrow> (of_char c :: nat) = 34" "c = backslash \<longleftrightarrow> (of_char c :: nat) = 92"
    using code_chars by (metis of_char_eq_iff)+
  with False escapes_facts show ?thesis
    by (simp add: quote_char_def Let_def char_codes isControlCharacter_def) (simp add: VALID_JSON_ESCAPES_def)
qed

lemma quote_string_closed: "closed (quote_string s)"
proof -
  have "clean True (concat (map quote_char s) @ quote_mark # cs) = clean False cs" for cs
    by (induction s) (simp_all add: quote_char_clean)
  then show ?thesis by (simp add: closed_def quote_string_def char_codes)
qed

text \<open>Numbers print as digits, signs, points and exponents: no quotation marks.\<close>

fun plain_numbers :: "json \<Rightarrow> bool" where
  "plain_numbers (JNumber n) \<longleftrightarrow> quote_mark \<notin> set n"
| "plain_numbers (JArray xs) \<longleftrightarrow> (\<forall>x\<in>set xs. plain_numbers x)"
| "plain_numbers (JObject kvs) \<longleftrightarrow> (\<forall>kv\<in>set kvs. plain_numbers (snd kv))"
| "plain_numbers _ \<longleftrightarrow> True"

lemma stringify_closed: "plain_numbers v \<Longrightarrow> closed (stringify v)"
proof (induction v rule: stringify.induct)
  case (5 xs)
  then have "closed (join '','' (map stringify xs))"
    by (intro closed_join) (auto intro: closed_plain simp: quote_mark_def)
  then show ?case
    using closed_plain [of "''[''"] closed_plain [of "'']''"] by (auto intro!: closed_app simp: quote_mark_def closed_def)
next
  case (6 kvs)
  have "closed (quote_string k @ '':'' @ stringify v)" if "(k, v) \<in> set kvs" for k v
    using 6 that quote_string_closed [of k] by (auto simp: closed_def quote_mark_def)
  then have "closed (join '','' (map (\<lambda>(k, v). quote_string k @ '':'' @ stringify v) kvs))"
    by (intro closed_join) (auto intro: closed_plain simp: quote_mark_def)
  then show ?case by (auto simp: closed_def quote_mark_def)
qed (auto intro: closed_plain quote_string_closed simp: quote_mark_def)

text \<open>
  Repair is the nearest clean text in the sense of a retraction: its result is lexically clean, it
  leaves exactly the clean texts unchanged, and so it leaves every printed JSON value unchanged.
\<close>

theorem repair_normal_form:
  "clean False (repairJson s) \<and> (repairJson s = s \<longleftrightarrow> clean False s) \<and> repairJson (repairJson s) = repairJson s
    \<and> (s = stringify v \<and> plain_numbers v \<longrightarrow> repairJson s = s)"
proof -
  have "clean False (stringify v)" if "plain_numbers v"
    using stringify_closed [OF that] unfolding closed_def by (metis append_Nil2 clean.simps(1))
  then show ?thesis using repair_loop_clean [of False s] repair_clean_id by (auto simp: repairJson_def)
qed

text \<open>
  An escape \<open>\u\<close> without four hexadecimal digits is not repaired, although it escapes nothing: its
  letter is among those that may follow a backslash.
\<close>

lemma bad_unicode_escape_kept:
  "repairJson [quote_mark, backslash, CHR ''u'', CHR ''1'', quote_mark] = [quote_mark, backslash, CHR ''u'', CHR ''1'', quote_mark]"
  by (simp add: repairJson_def backslash_def quote_mark_def VALID_JSON_ESCAPES_def four_hex_def isControlCharacter_def)

end
