(* ===== verification/Assistant_Stream.thy ===== *)
theory Assistant_Stream
  imports Messages Json_Repair
begin

text \<open>
  Streamed assistant messages (\<open>AssistantMessageEvent\<close> of \<open>packages/ai/src/types.ts\<close>): events name a
  content block by its index, and the receivers of a stripped stream, the daemon supervisor and the
  client of a proxy server, keep an array of blocks that they fill in place. Arrays are written by
  index as in JavaScript: a gap before the index becomes holes.
\<close>

section \<open>Arrays\<close>

definition js_get :: "nat \<Rightarrow> 'a option list \<Rightarrow> 'a option" where
  "js_get i xs = (if i < length xs then xs ! i else None)"

definition js_set :: "nat \<Rightarrow> 'a \<Rightarrow> 'a option list \<Rightarrow> 'a option list" where
  "js_set i v xs = (if i < length xs then xs[i := Some v] else xs @ replicate (i - length xs) None @ [Some v])"

lemma js_get_set [simp]: "js_get j (js_set i v xs) = (if j = i then Some v else js_get j xs)"
  by (auto simp: js_get_def js_set_def nth_append nth_list_update)

lemma js_get_map [simp]: "js_get i (map Some xs) = (if i < length xs then Some (xs ! i) else None)"
  by (simp add: js_get_def)

lemma js_set_map: "i < length xs \<Longrightarrow> js_set i v (map Some xs) = map Some (xs[i := v])"
  by (simp add: js_set_def map_update)

lemma js_set_end: "js_set (length xs) v (map Some xs) = map Some (xs @ [v])"
  by (simp add: js_set_def)

section \<open>Truth\<close>

text \<open>Values that count as true: not \<open>null\<close>, \<open>false\<close>, zero and the empty string.\<close>

fun json_truthy :: "json \<Rightarrow> bool" where
  "json_truthy JNull \<longleftrightarrow> False"
| "json_truthy (JBool b) \<longleftrightarrow> b"
| "json_truthy (JNumber n) \<longleftrightarrow> n \<notin> {''0'', ''-0'', ''NaN''}"
| "json_truthy (JString s) \<longleftrightarrow> s \<noteq> []"
| "json_truthy _ \<longleftrightarrow> True"

section \<open>Events\<close>

text \<open>\<open>AssistantMessageEvent\<close> without its \<open>partial\<close>, which is the message as it is at that time.\<close>

datatype assistant_event =
    EvStart
  | EvTextStart nat
  | EvTextDelta nat string
  | EvTextEnd nat string
  | EvThinkingStart nat
  | EvThinkingDelta nat string
  | EvThinkingEnd nat string
  | EvToolcallStart nat
  | EvToolcallDelta nat string
  | EvToolcallEnd nat tool_call
  | EvDone stop_reason assistant_message
  | EvError stop_reason assistant_message

text \<open>What a reader of a block sees: signatures travel with final messages only.\<close>

fun visible :: "assistant_block \<Rightarrow> assistant_block" where
  "visible (AText t sig) = AText t None"
| "visible (AThinking t sig redacted) = AThinking t None False"
| "visible (AToolCall c) = AToolCall (c\<lparr>tc_thoughtSignature := None\<rparr>)"

lemma visible_text [simp]: "visible b = AText t None \<longleftrightarrow> (\<exists>s. b = AText t s)"
  by (cases b) auto

lemma visible_thinking [simp]: "visible b = AThinking t None False \<longleftrightarrow> (\<exists>s r. b = AThinking t s r)"
  by (cases b) auto

section \<open>How a provider streams\<close>

text \<open>
  A provider whose events are read as they are sent changes its message with each: a block starts
  empty at the end of the content, grows by deltas and is complete at its end. Signatures, usage and
  the like may change at any time.
\<close>

definition same_view :: "assistant_block list \<Rightarrow> assistant_block list \<Rightarrow> bool" where
  "same_view bs cs \<longleftrightarrow> map visible bs = map visible cs"

definition fresh_call :: "tool_call \<Rightarrow> bool" where
  "fresh_call c \<longleftrightarrow> tc_arguments c = empty_object"

fun provider_content :: "assistant_block list \<Rightarrow> assistant_event \<Rightarrow> assistant_block list \<Rightarrow> bool" where
  "provider_content bs (EvTextStart i) cs \<longleftrightarrow> i = length bs \<and> same_view cs (bs @ [AText [] None])"
| "provider_content bs (EvTextDelta i d) cs \<longleftrightarrow>
     i < length bs \<and> (\<exists>t s. bs ! i = AText t s \<and> same_view cs (bs[i := AText (t @ d) None]))"
| "provider_content bs (EvTextEnd i t) cs \<longleftrightarrow>
     i < length bs \<and> (\<exists>t' s. bs ! i = AText t' s) \<and> same_view cs (bs[i := AText t None])"
| "provider_content bs (EvThinkingStart i) cs \<longleftrightarrow> i = length bs \<and> same_view cs (bs @ [AThinking [] None False])"
| "provider_content bs (EvThinkingDelta i d) cs \<longleftrightarrow>
     i < length bs \<and> (\<exists>t s r. bs ! i = AThinking t s r \<and> same_view cs (bs[i := AThinking (t @ d) None False]))"
| "provider_content bs (EvThinkingEnd i t) cs \<longleftrightarrow>
     i < length bs \<and> (\<exists>t' s r. bs ! i = AThinking t' s r) \<and> same_view cs (bs[i := AThinking t None False])"
| "provider_content bs (EvToolcallStart i) cs \<longleftrightarrow>
     i = length bs \<and> (\<exists>c. fresh_call c \<and> same_view cs (bs @ [AToolCall c]))"
| "provider_content bs (EvToolcallDelta i d) cs \<longleftrightarrow>
     i < length bs \<and> (\<exists>c kvs. bs ! i = AToolCall c \<and> same_view cs (bs[i := AToolCall (c\<lparr>tc_arguments := JObject kvs\<rparr>)]))"
| "provider_content bs (EvToolcallEnd i c) cs \<longleftrightarrow> i < length bs \<and> same_view cs (bs[i := AToolCall c])"
| "provider_content bs _ cs \<longleftrightarrow> False"

lemma same_view_length: "same_view bs cs \<Longrightarrow> length bs = length cs"
  unfolding same_view_def by (metis length_map)

lemma same_view_nth: "same_view bs cs \<Longrightarrow> i < length bs \<Longrightarrow> visible (bs ! i) = visible (cs ! i)"
  unfolding same_view_def by (metis length_map nth_map)

lemma same_view_sym: "same_view bs cs \<Longrightarrow> same_view cs bs"
  by (simp add: same_view_def)

lemma same_view_trans: "same_view as bs \<Longrightarrow> same_view bs cs \<Longrightarrow> same_view as cs"
  by (simp add: same_view_def)

lemma same_view_update: "same_view bs cs \<Longrightarrow> visible b = visible c \<Longrightarrow> same_view (bs[i := b]) (cs[i := c])"
  by (simp add: same_view_def map_update)

lemma same_view_snoc: "same_view bs cs \<Longrightarrow> visible b = visible c \<Longrightarrow> same_view (bs @ [b]) (cs @ [c])"
  by (simp add: same_view_def)

end
