(* ===== verification/Compact_Stream.thy ===== *)
theory Compact_Stream
  imports Assistant_Stream
begin

text \<open>
  The compact assistant stream between a session daemon and its supervisor
  (\<open>modes/daemon/compact-session-stream.ts\<close>): the sender drops the whole message from an update and
  sends what changed; the receiver rebuilds the message from the one that started the stream.
\<close>

section \<open>Messages of the daemon\<close>

text \<open>\<open>DaemonOutbound\<close>, as far as the stream looks at it; an update carries its message and event.\<close>

datatype 'x session_event =
    SeMessageStart agent_message
  | SeMessageUpdate agent_message assistant_event
  | SeMessageEnd agent_message
  | SeOther 'x

datatype 'x outbound =
    SessionEvent string "'x session_event" "json option"
  | SessionReplaced string 'x
  | SessionResynced string 'x
  | SessionClosed string 'x
  | OutboundOther 'x

record compact_delta =
  cd_activeSessionId :: string
  cd_event :: assistant_event
  cd_contentStart :: "assistant_block option"
  cd_toolCallArguments :: "json option"
  cd_meta :: "json option"

section \<open>Sender\<close>

fun block_at :: "nat \<Rightarrow> assistant_message \<Rightarrow> assistant_block option" where
  "block_at i m = (if i < length (am_content m) then Some (am_content m ! i) else None)"

fun compactToolCallArguments :: "assistant_message \<Rightarrow> assistant_event \<Rightarrow> json option" where
  "compactToolCallArguments m (EvToolcallDelta i d) =
     (case block_at i m of Some (AToolCall c) \<Rightarrow> Some (tc_arguments c) | _ \<Rightarrow> None)"
| "compactToolCallArguments m _ = None"

fun compactContentStart :: "assistant_message \<Rightarrow> assistant_event \<Rightarrow> assistant_block option" where
  "compactContentStart m (EvTextStart i) =
     (case block_at i m of Some (AText t s) \<Rightarrow> Some (AText [] s) | _ \<Rightarrow> None)"
| "compactContentStart m (EvThinkingStart i) =
     (case block_at i m of Some (AThinking t s r) \<Rightarrow> Some (AThinking [] s r) | _ \<Rightarrow> None)"
| "compactContentStart m (EvToolcallStart i) =
     (case block_at i m of Some (AToolCall c) \<Rightarrow> Some (AToolCall (c\<lparr>tc_arguments := empty_object\<rparr>)) | _ \<Rightarrow> None)"
| "compactContentStart m _ = None"

text \<open>A spread under a condition.\<close>

definition if_truthy :: "json option \<Rightarrow> json option" where
  "if_truthy v = (case v of Some x \<Rightarrow> if json_truthy x then Some x else None | None \<Rightarrow> None)"

fun createCompactAssistantDelta :: "'x outbound \<Rightarrow> compact_delta option" where
  "createCompactAssistantDelta (SessionEvent sid (SeMessageUpdate (AssistantMessage m) ev) meta) =
     Some \<lparr>cd_activeSessionId = sid, cd_event = ev, cd_contentStart = compactContentStart m ev,
           cd_toolCallArguments = if_truthy (compactToolCallArguments m ev), cd_meta = meta\<rparr>"
| "createCompactAssistantDelta _ = None"

section \<open>Receiver\<close>

text \<open>The message that started the stream, with its content as it has been rebuilt.\<close>

record partial_message =
  pm_message :: assistant_message
  pm_content :: "assistant_block option list"

record reconstructor =
  re_partialMessages :: "string \<Rightarrow> partial_message option"
  re_toolCallJson :: "string \<Rightarrow> string option"

definition toolCallKey :: "string \<Rightarrow> nat \<Rightarrow> string" where
  "toolCallKey sid i = sid @ '':'' @ dec i"

definition new_reconstructor :: reconstructor where
  "new_reconstructor = \<lparr>re_partialMessages = Map.empty, re_toolCallJson = Map.empty\<rparr>"

definition started :: "assistant_message \<Rightarrow> partial_message" where
  "started m = \<lparr>pm_message = m, pm_content = map Some (am_content m)\<rparr>"

definition seed_stream :: "string \<Rightarrow> assistant_message \<Rightarrow> reconstructor \<Rightarrow> reconstructor" where
  "seed_stream sid m R = R\<lparr>re_partialMessages := (re_partialMessages R)(sid := Some (started m))\<rparr>"

definition clear_stream :: "string \<Rightarrow> reconstructor \<Rightarrow> reconstructor" where
  "clear_stream sid R =
     R\<lparr>re_partialMessages := (re_partialMessages R)(sid := None),
       re_toolCallJson := (\<lambda>key. if prefix (sid @ '':'') key then None else re_toolCallJson R key)\<rparr>"

fun observe :: "'x outbound \<Rightarrow> reconstructor \<Rightarrow> reconstructor" where
  "observe (SessionReplaced sid x) R = clear_stream sid R"
| "observe (SessionResynced sid x) R = clear_stream sid R"
| "observe (SessionClosed sid x) R = clear_stream sid R"
| "observe (SessionEvent sid (SeMessageStart (AssistantMessage m)) meta) R = seed_stream sid m R"
| "observe (SessionEvent sid (SeMessageEnd m) meta) R = clear_stream sid R"
| "observe _ R = R"

text \<open>The switch of \<open>reconstruct\<close>: the new content and the collected argument text, or nothing.\<close>

type_synonym arguments_text = "string \<Rightarrow> string option"

fun rebuild ::
  "json_parsers \<Rightarrow> compact_delta \<Rightarrow> assistant_event \<Rightarrow> assistant_block option list \<Rightarrow> arguments_text
     \<Rightarrow> (assistant_block option list \<times> arguments_text) option"
where
  "rebuild P d (EvTextStart i) bs js = Some (js_set i (nullish (cd_contentStart d) (AText [] None)) bs, js)"
| "rebuild P d (EvTextDelta i delta) bs js =
     (case js_get i bs of Some (AText t s) \<Rightarrow> Some (js_set i (AText (t @ delta) s) bs, js) | _ \<Rightarrow> None)"
| "rebuild P d (EvTextEnd i c) bs js =
     (case js_get i bs of Some (AText t s) \<Rightarrow> Some (js_set i (AText c s) bs, js) | _ \<Rightarrow> None)"
| "rebuild P d (EvThinkingStart i) bs js = Some (js_set i (nullish (cd_contentStart d) (AThinking [] None False)) bs, js)"
| "rebuild P d (EvThinkingDelta i delta) bs js =
     (case js_get i bs of Some (AThinking t s r) \<Rightarrow> Some (js_set i (AThinking (t @ delta) s r) bs, js) | _ \<Rightarrow> None)"
| "rebuild P d (EvThinkingEnd i c) bs js =
     (case js_get i bs of Some (AThinking t s r) \<Rightarrow> Some (js_set i (AThinking c s r) bs, js) | _ \<Rightarrow> None)"
| "rebuild P d (EvToolcallStart i) bs js =
     (case cd_contentStart d of Some (AToolCall c) \<Rightarrow> Some (js_set i (AToolCall c) bs, js(toolCallKey (cd_activeSessionId d) i := Some [])) | _ \<Rightarrow> None)"
| "rebuild P d (EvToolcallDelta i delta) bs js =
     (case js_get i bs of
        Some (AToolCall c) \<Rightarrow>
          (case cd_toolCallArguments d of
             Some v \<Rightarrow> Some (js_set i (AToolCall (c\<lparr>tc_arguments := v\<rparr>)) bs, js)
           | None \<Rightarrow>
               (let key = toolCallKey (cd_activeSessionId d) i; partialJson = nullish (js key) [] @ delta
                in Some (js_set i (AToolCall (c\<lparr>tc_arguments := parseStreamingJson P (Some partialJson)\<rparr>)) bs,
                         js(key := Some partialJson))))
      | _ \<Rightarrow> None)"
| "rebuild P d (EvToolcallEnd i c) bs js = Some (js_set i (AToolCall c) bs, js(toolCallKey (cd_activeSessionId d) i := None))"
| "rebuild P d EvStart bs js = None"
| "rebuild P d (EvDone r m) bs js = None"
| "rebuild P d (EvError r m) bs js = None"

text \<open>What goes on to the clients: the message with a copy of the content, and the event.\<close>

record rebuilt_update =
  ru_activeSessionId :: string
  ru_message :: partial_message
  ru_event :: assistant_event
  ru_meta :: "json option"

definition reconstruct :: "json_parsers \<Rightarrow> compact_delta \<Rightarrow> reconstructor \<Rightarrow> rebuilt_update option \<times> reconstructor" where
  "reconstruct P d R =
     (let sid = cd_activeSessionId d
      in case re_partialMessages R sid of
           None \<Rightarrow> (None, R)
         | Some p \<Rightarrow>
             (case rebuild P d (cd_event d) (pm_content p) (re_toolCallJson R) of
                None \<Rightarrow> (None, R)
              | Some (bs, js) \<Rightarrow>
                  (let p' = p\<lparr>pm_content := bs\<rparr>
                   in (Some \<lparr>ru_activeSessionId = sid, ru_message = p', ru_event = cd_event d, ru_meta = cd_meta d\<rparr>,
                       \<lparr>re_partialMessages = (re_partialMessages R)(sid := Some p'),
                        re_toolCallJson = js\<rparr>))))"

text \<open>
  A frame on its way through the supervisor: a compact delta is rebuilt, everything else is observed
  and passed on. Nothing is passed on when the delta cannot be rebuilt; the clients then catch up.
\<close>

datatype 'x relayed = Rebuilt rebuilt_update | Passed "'x outbound" | CatchUp string

definition relay :: "json_parsers \<Rightarrow> 'x outbound \<Rightarrow> reconstructor \<Rightarrow> 'x relayed \<times> reconstructor" where
  "relay P msg R =
     (case createCompactAssistantDelta msg of
        None \<Rightarrow> (Passed msg, observe msg R)
      | Some d \<Rightarrow>
          (case reconstruct P d R of
             (Some u, R') \<Rightarrow> (Rebuilt u, R')
           | (None, R') \<Rightarrow> (CatchUp (cd_activeSessionId d), R')))"

fun relay_all :: "json_parsers \<Rightarrow> 'x outbound list \<Rightarrow> reconstructor \<Rightarrow> 'x relayed list \<times> reconstructor" where
  "relay_all P [] R = ([], R)"
| "relay_all P (m # ms) R = (let (r, R1) = relay P m R; (rs, R2) = relay_all P ms R1 in (r # rs, R2))"

section \<open>A sender and its receiver\<close>

text \<open>The message each session is streaming.\<close>

type_synonym streaming = "string \<Rightarrow> assistant_message option"

inductive sends :: "streaming \<Rightarrow> 'x outbound \<Rightarrow> streaming \<Rightarrow> bool" where
  sends_start: "sends w (SessionEvent sid (SeMessageStart (AssistantMessage m)) meta) (w(sid := Some m))"
| sends_update: "w sid = Some m \<Longrightarrow> provider_content (am_content m) ev (am_content m')
    \<Longrightarrow> sends w (SessionEvent sid (SeMessageUpdate (AssistantMessage m') ev) meta) (w(sid := Some m'))"
| sends_end: "sends w (SessionEvent sid (SeMessageEnd m) meta) (w(sid := None))"
| sends_other_start: "\<not> is_assistant m \<Longrightarrow> sends w (SessionEvent sid (SeMessageStart m) meta) w"
| sends_other: "sends w (SessionEvent sid (SeOther x) meta) w"
| sends_replaced: "sends w (SessionReplaced sid x) (w(sid := None))"
| sends_resynced: "sends w (SessionResynced sid x) (w(sid := None))"
| sends_closed: "sends w (SessionClosed sid x) (w(sid := None))"
| sends_rest: "sends w (OutboundOther x) w"

inductive sends_all :: "streaming \<Rightarrow> 'x outbound list \<Rightarrow> streaming \<Rightarrow> bool" where
  sends_none: "sends_all w [] w"
| sends_more: "sends w m w1 \<Longrightarrow> sends_all w1 ms w2 \<Longrightarrow> sends_all w (m # ms) w2"

inductive_cases sends_all_NilE: "sends_all w [] w'"
inductive_cases sends_all_ConsE: "sends_all w (m # ms) w'"

text \<open>The receiver shows of each streaming message what the sender has.\<close>

fun rebuilt_message :: "assistant_message option \<Rightarrow> partial_message option \<Rightarrow> bool" where
  "rebuilt_message None p \<longleftrightarrow> p = None"
| "rebuilt_message (Some m) p \<longleftrightarrow> (\<exists>q bs. p = Some q \<and> pm_content q = map Some bs \<and> same_view bs (am_content m))"

definition follows :: "streaming \<Rightarrow> reconstructor \<Rightarrow> bool" where
  "follows w R \<longleftrightarrow> (\<forall>sid. rebuilt_message (w sid) (re_partialMessages R sid))"

text \<open>What was relayed shows what was sent.\<close>

fun displays :: "'x outbound \<Rightarrow> 'x relayed \<Rightarrow> bool" where
  "displays (SessionEvent sid (SeMessageUpdate (AssistantMessage m) ev) meta) r \<longleftrightarrow>
     (\<exists>u bs. r = Rebuilt u \<and> ru_activeSessionId u = sid \<and> ru_event u = ev \<and> ru_meta u = meta
        \<and> pm_content (ru_message u) = map Some bs \<and> same_view bs (am_content m))"
| "displays msg r \<longleftrightarrow> r = Passed msg"

end
