(* ===== verification/Compact_Stream_Props.thy ===== *)
theory Compact_Stream_Props
  imports Compact_Stream
begin

text \<open>
  The compact stream loses nothing a reader sees: at every update the supervisor rebuilds the content
  the daemon has, for any number of sessions whose streams interleave.
\<close>

section \<open>One update\<close>

text \<open>What a sender puts into a delta is enough to rebuild the content.\<close>

lemma rebuild_faithful:
  assumes step: "provider_content bs ev (am_content m)" and view: "same_view cs bs"
    and d: "cd_event d = ev" "cd_contentStart d = compactContentStart m ev"
      "cd_toolCallArguments d = if_truthy (compactToolCallArguments m ev)"
  shows "\<exists>ds js'. rebuild P d ev (map Some cs) js = Some (map Some ds, js') \<and> same_view ds (am_content m)"
proof -
  have len: "length cs = length bs" by (rule same_view_length [OF view])
  have nth: "visible (cs ! i) = visible (bs ! i)" if "i < length bs" for i
    using same_view_nth [OF view] that len by simp
  have update: "\<exists>ds. js_set i c (map Some cs) = map Some ds \<and> same_view ds (am_content m)"
    if "i < length bs" "same_view (am_content m) (bs[i := b])" "visible c = visible b" for i b c
  proof -
    have "same_view (cs[i := c]) (am_content m)"
      by (rule same_view_trans [OF same_view_update [OF view that(3)] same_view_sym [OF that(2)]])
    then show ?thesis using js_set_map [of i cs c] that(1) len by auto
  qed
  have grow: "\<exists>ds. js_set (length bs) c (map Some cs) = map Some ds \<and> same_view ds (am_content m)"
    if "same_view (am_content m) (bs @ [b])" "visible c = visible b" for b c
  proof -
    have "same_view (cs @ [c]) (am_content m)"
      by (rule same_view_trans [OF same_view_snoc [OF view that(2)] same_view_sym [OF that(1)]])
    then show ?thesis using js_set_end [of cs c] len by (intro exI [of _ "cs @ [c]"]) simp
  qed
  have last: "\<exists>c. block_at (length bs) m = Some c \<and> visible c = visible b" if "same_view (am_content m) (bs @ [b])" for b
    using same_view_nth [OF that, of "length bs"] same_view_length [OF that] by simp
  have at: "\<exists>c. block_at i m = Some c \<and> visible c = visible b" if "i < length bs" "same_view (am_content m) (bs[i := b])" for i b
    using same_view_nth [OF that(2), of i] same_view_length [OF that(2)] that(1) by simp
  show ?thesis
  proof (cases ev)
    case (EvTextStart i)
    with step have i: "i = length bs" "same_view (am_content m) (bs @ [AText [] None])" by simp_all
    from last [OF i(2)] obtain s where "block_at i m = Some (AText [] s)" using i(1) by auto
    with EvTextStart d have "cd_contentStart d = Some (AText [] s)" by (simp del: block_at.simps)
    with grow [OF i(2), of "AText [] s"] i(1) EvTextStart show ?thesis by auto
  next
    case (EvTextDelta i x)
    with step obtain t s where i: "i < length bs" "bs ! i = AText t s" "same_view (am_content m) (bs[i := AText (t @ x) None])"
      by auto
    from nth [OF i(1)] i(2) obtain s' where "cs ! i = AText t s'" by auto
    with update [OF i(1,3), of "AText (t @ x) s'"] i(1) len EvTextDelta show ?thesis by auto
  next
    case (EvTextEnd i x)
    with step obtain t s where i: "i < length bs" "bs ! i = AText t s" "same_view (am_content m) (bs[i := AText x None])"
      by auto
    from nth [OF i(1)] i(2) obtain s' where "cs ! i = AText t s'" by auto
    with update [OF i(1,3), of "AText x s'"] i(1) len EvTextEnd show ?thesis by auto
  next
    case (EvThinkingStart i)
    with step have i: "i = length bs" "same_view (am_content m) (bs @ [AThinking [] None False])" by simp_all
    from last [OF i(2)] obtain s r where "block_at i m = Some (AThinking [] s r)" using i(1) by auto
    with EvThinkingStart d have "cd_contentStart d = Some (AThinking [] s r)" by (simp del: block_at.simps)
    with grow [OF i(2), of "AThinking [] s r"] i(1) EvThinkingStart show ?thesis by auto
  next
    case (EvThinkingDelta i x)
    with step obtain t s r where i: "i < length bs" "bs ! i = AThinking t s r"
      "same_view (am_content m) (bs[i := AThinking (t @ x) None False])" by auto
    from nth [OF i(1)] i(2) obtain s' r' where "cs ! i = AThinking t s' r'" by auto
    with update [OF i(1,3), of "AThinking (t @ x) s' r'"] i(1) len EvThinkingDelta show ?thesis by auto
  next
    case (EvThinkingEnd i x)
    with step obtain t s r where i: "i < length bs" "bs ! i = AThinking t s r"
      "same_view (am_content m) (bs[i := AThinking x None False])" by auto
    from nth [OF i(1)] i(2) obtain s' r' where "cs ! i = AThinking t s' r'" by auto
    with update [OF i(1,3), of "AThinking x s' r'"] i(1) len EvThinkingEnd show ?thesis by auto
  next
    case (EvToolcallStart i)
    with step obtain c where i: "i = length bs" "fresh_call c" "same_view (am_content m) (bs @ [AToolCall c])" by auto
    from last [OF i(3)] obtain c' where c': "block_at i m = Some (AToolCall c')" "visible (AToolCall c') = visible (AToolCall c)"
      using i(1) by (metis visible.simps(1,2,3) assistant_block.exhaust assistant_block.distinct)
    with EvToolcallStart d have "cd_contentStart d = Some (AToolCall (c'\<lparr>tc_arguments := empty_object\<rparr>))"
      by (simp del: block_at.simps)
    moreover have "visible (AToolCall (c'\<lparr>tc_arguments := empty_object\<rparr>)) = visible (AToolCall c)"
      using c'(2) i(2) by (cases c, cases c') (simp add: fresh_call_def)
    ultimately show ?thesis using grow [OF i(3)] i(1) EvToolcallStart by auto
  next
    case (EvToolcallDelta i x)
    with step obtain c kvs where i: "i < length bs" "bs ! i = AToolCall c"
      "same_view (am_content m) (bs[i := AToolCall (c\<lparr>tc_arguments := JObject kvs\<rparr>)])" by auto
    from nth [OF i(1)] i(2) obtain c1 where c1: "cs ! i = AToolCall c1" "visible (AToolCall c1) = visible (AToolCall c)"
      by (metis visible.simps(1,2,3) assistant_block.exhaust assistant_block.distinct)
    from at [OF i(1,3)] obtain c2 where c2: "block_at i m = Some (AToolCall c2)"
      "visible (AToolCall c2) = visible (AToolCall (c\<lparr>tc_arguments := JObject kvs\<rparr>))"
      by (metis visible.simps(1,2,3) assistant_block.exhaust assistant_block.distinct)
    then have "tc_arguments c2 = JObject kvs" by (cases c, cases c2) simp
    with c2(1) EvToolcallDelta d have "cd_toolCallArguments d = Some (JObject kvs)"
      by (simp add: if_truthy_def del: block_at.simps)
    moreover have "visible (AToolCall (c1\<lparr>tc_arguments := JObject kvs\<rparr>)) = visible (AToolCall (c\<lparr>tc_arguments := JObject kvs\<rparr>))"
      using c1(2) by (cases c, cases c1) simp
    ultimately show ?thesis using update [OF i(1,3)] c1(1) i(1) len EvToolcallDelta by auto
  next
    case (EvToolcallEnd i c)
    with step have i: "i < length bs" "same_view (am_content m) (bs[i := AToolCall c])" by simp_all
    with update [OF i refl] EvToolcallEnd show ?thesis by auto
  qed (use step in simp_all)
qed

section \<open>The relayed stream\<close>

lemma follows_start [simp]: "follows Map.empty new_reconstructor"
  by (simp add: follows_def new_reconstructor_def)

lemma follows_clear: "follows w R \<Longrightarrow> follows (w(sid := None)) (clear_stream sid R)"
  by (auto simp: follows_def clear_stream_def)

lemma follows_seed: "follows w R \<Longrightarrow> follows (w(sid := Some m)) (seed_stream sid m R)"
  by (auto simp: follows_def seed_stream_def started_def same_view_def)

lemma relay_update:
  fixes msg :: "'x outbound"
  assumes "follows w R" "w sid = Some m" "provider_content (am_content m) ev (am_content m')"
    and msg: "msg = SessionEvent sid (SeMessageUpdate (AssistantMessage m') ev) meta"
  shows "\<exists>u R'. relay P msg R = (Rebuilt u :: 'x relayed, R') \<and> displays msg (Rebuilt u) \<and> follows (w(sid := Some m')) R'"
proof -
  let ?d = "\<lparr>cd_activeSessionId = sid, cd_event = ev, cd_contentStart = compactContentStart m' ev,
    cd_toolCallArguments = if_truthy (compactToolCallArguments m' ev), cd_meta = meta\<rparr>"
  from assms(1,2) obtain p bs where p: "re_partialMessages R sid = Some p" "pm_content p = map Some bs"
    "same_view bs (am_content m)"
    unfolding follows_def by (metis rebuilt_message.simps(2))
  from rebuild_faithful [OF assms(3) p(3), of ?d P "re_toolCallJson R"] obtain ds js' where
    r: "rebuild P ?d ev (map Some bs) (re_toolCallJson R) = Some (map Some ds, js')" "same_view ds (am_content m')"
    by auto
  let ?u = "\<lparr>ru_activeSessionId = sid, ru_message = p\<lparr>pm_content := map Some ds\<rparr>, ru_event = ev, ru_meta = meta\<rparr>"
  let ?R = "\<lparr>re_partialMessages = (re_partialMessages R)(sid := Some (p\<lparr>pm_content := map Some ds\<rparr>)), re_toolCallJson = js'\<rparr>"
  have "relay P msg R = (Rebuilt ?u, ?R)"
    using p(1,2) r(1) msg by (simp add: relay_def reconstruct_def Let_def)
  moreover have "follows (w(sid := Some m')) ?R" using assms(1) r(2) by (auto simp: follows_def)
  moreover have "displays msg (Rebuilt ?u)" using r(2) msg by auto
  ultimately show ?thesis by blast
qed

lemma relay_step:
  assumes "sends w msg w'" "follows w R"
  shows "displays msg (fst (relay P msg R)) \<and> follows w' (snd (relay P msg R))"
  using assms
proof (cases rule: sends.cases)
  case (sends_update sid m ev m' meta)
  have "\<exists>u R'. relay P msg R = (Rebuilt u, R') \<and> displays msg (Rebuilt u) \<and> follows w' R'"
    unfolding sends_update(1,2) by (rule relay_update [OF assms(2) sends_update(3,4) refl])
  then show ?thesis by auto
next
  case (sends_other_start m sid meta)
  then show ?thesis using assms(2) by (cases m) (simp_all add: relay_def)
qed (auto simp: relay_def intro: follows_clear follows_seed)


definition demo_message :: "assistant_block list \<Rightarrow> assistant_message" where
  "demo_message bs = \<lparr>am_content = bs, am_api = ''a'', am_provider = ''p'', am_model = ''m'', am_usage = emptyUsage,
     am_stopReason = Stop, am_errorMessage = None, am_timestamp = 0\<rparr>"

definition demo_stream :: "unit outbound list" where
  "demo_stream = [SessionEvent ''s'' (SeMessageStart (AssistantMessage (demo_message []))) None,
     SessionEvent ''s'' (SeMessageUpdate (AssistantMessage (demo_message [AText [] (Some ''sig'')])) (EvTextStart 0)) None,
     SessionEvent ''s'' (SeMessageUpdate (AssistantMessage (demo_message [AText ''hi'' None])) (EvTextDelta 0 ''hi'')) (Some JNull)]"

lemma demo_stream_sent: "sends_all Map.empty demo_stream (Map.empty(''s'' := Some (demo_message [AText ''hi'' None])))"
proof -
  have step: "sends (Map.empty(''s'' := Some m)) (SessionEvent ''s'' (SeMessageUpdate (AssistantMessage m') ev) meta :: unit outbound)
      (Map.empty(''s'' := Some m'))" if "provider_content (am_content m) ev (am_content m')" for m m' ev meta
    using sends_update [of "Map.empty(''s'' := Some m)" "''s''" m ev m' meta] that by simp
  show ?thesis
    unfolding demo_stream_def
    by (rule sends_more [OF sends_start sends_more [OF step sends_more [OF step sends_none]]])
      (simp_all add: demo_message_def same_view_def)
qed


text \<open>
  A block that starts with text is shown empty until its end: the text a provider starts a block
  with, such as that of redacted reasoning, is not part of the delta.
\<close>

lemma started_text_blanked:
  assumes "am_content m = [AThinking t s True]"
  shows "\<exists>u R'. relay P (SessionEvent sid (SeMessageUpdate (AssistantMessage m) (EvThinkingStart 0)) meta)
      (seed_stream sid (demo_message []) R) = (Rebuilt u, R') \<and> pm_content (ru_message u) = [Some (AThinking [] s True)]"
  using assms by (simp add: relay_def reconstruct_def seed_stream_def started_def demo_message_def js_set_def Let_def)

end
