(* ===== verification/Event_Stream.thy ===== *)
theory Event_Stream
  imports Prelude
begin

text \<open>
  The asynchronous queue between the producer and the consumers of a stream
  (\<open>packages/ai/src/utils/event-stream.ts\<close>): events are queued until a consumer asks, consumers wait
  until an event comes, and the event that completes the stream gives its final result.
\<close>

section \<open>State and operations\<close>

text \<open>\<open>waiting\<close> holds the consumers whose \<open>next()\<close> is pending, each by its number.\<close>

record ('e, 'r) event_stream =
  es_queue :: "'e list"
  es_waiting :: "nat list"
  es_done :: bool
  es_result :: "'r option"

text \<open>What a pending or new \<open>next()\<close> gives.\<close>

datatype 'e iteration = Value 'e | Finished

definition new_stream :: "('e, 'r) event_stream" where
  "new_stream = \<lparr>es_queue = [], es_waiting = [], es_done = False, es_result = None\<rparr>"

text \<open>A promise is settled once.\<close>

definition resolveFinalResult :: "'r \<Rightarrow> ('e, 'r) event_stream \<Rightarrow> ('e, 'r) event_stream" where
  "resolveFinalResult r s = (case es_result s of None \<Rightarrow> s\<lparr>es_result := Some r\<rparr> | Some _ \<Rightarrow> s)"

text \<open>An event handed out goes to the consumer that has waited longest.\<close>

definition push_event ::
  "('e \<Rightarrow> bool) \<Rightarrow> ('e \<Rightarrow> error + 'r) \<Rightarrow> 'e \<Rightarrow> ('e, 'r) event_stream
     \<Rightarrow> (error + (nat \<times> 'e iteration) option) \<times> ('e, 'r) event_stream"
where
  "push_event isComplete extractResult e s =
     (if es_done s then (Inr None, s)
      else let r = (if isComplete e
                    then case extractResult e of
                           Inl err \<Rightarrow> Inl (err, s\<lparr>es_done := True\<rparr>)
                         | Inr v \<Rightarrow> Inr (resolveFinalResult v (s\<lparr>es_done := True\<rparr>))
                    else Inr s)
           in case r of
                Inl (err, s1) \<Rightarrow> (Inl err, s1)
              | Inr s1 \<Rightarrow>
                  (case es_waiting s1 of
                     c # cs \<Rightarrow> (Inr (Some (c, Value e)), s1\<lparr>es_waiting := cs\<rparr>)
                   | [] \<Rightarrow> (Inr None, s1\<lparr>es_queue := es_queue s1 @ [e]\<rparr>)))"

definition end_stream :: "'r option \<Rightarrow> ('e, 'r) event_stream \<Rightarrow> (nat \<times> 'e iteration) list \<times> ('e, 'r) event_stream" where
  "end_stream result s =
     (let s1 = s\<lparr>es_done := True\<rparr>;
          s2 = (case result of None \<Rightarrow> s1 | Some r \<Rightarrow> resolveFinalResult r s1)
      in (map (\<lambda>c. (c, Finished)) (es_waiting s2), s2\<lparr>es_waiting := []\<rparr>))"

text \<open>One step of the iterator of a consumer: an event, the end, or a wait.\<close>

definition next_event :: "nat \<Rightarrow> ('e, 'r) event_stream \<Rightarrow> 'e iteration option \<times> ('e, 'r) event_stream" where
  "next_event c s =
     (case es_queue s of
        e # es \<Rightarrow> (Some (Value e), s\<lparr>es_queue := es\<rparr>)
      | [] \<Rightarrow> if es_done s then (Some Finished, s) else (None, s\<lparr>es_waiting := es_waiting s @ [c]\<rparr>))"

section \<open>A stream in use\<close>

text \<open>
  The events accepted, those received with their consumers, and the consumers that were told of the
  end. A consumer asks again only after it got an event.
\<close>

inductive stream_run ::
  "('e \<Rightarrow> bool) \<Rightarrow> ('e \<Rightarrow> error + 'r) \<Rightarrow> 'e list \<Rightarrow> (nat \<times> 'e) list \<Rightarrow> nat set \<Rightarrow> ('e, 'r) event_stream \<Rightarrow> bool"
  for isComplete :: "'e \<Rightarrow> bool" and extractResult :: "'e \<Rightarrow> error + 'r"
where
  stream_new: "stream_run isComplete extractResult [] [] {} new_stream"
| stream_push: "stream_run isComplete extractResult acc got ended s
    \<Longrightarrow> push_event isComplete extractResult e s = (Inr out, s')
    \<Longrightarrow> stream_run isComplete extractResult (if es_done s then acc else acc @ [e])
          (case out of Some (c, Value x) \<Rightarrow> got @ [(c, x)] | _ \<Rightarrow> got) ended s'"
| stream_push_throws: "stream_run isComplete extractResult acc got ended s
    \<Longrightarrow> push_event isComplete extractResult e s = (Inl err, s')
    \<Longrightarrow> stream_run isComplete extractResult acc got ended s'"
| stream_end: "stream_run isComplete extractResult acc got ended s \<Longrightarrow> end_stream r s = (out, s')
    \<Longrightarrow> stream_run isComplete extractResult acc got (ended \<union> fst ` set out) s'"
| stream_next: "stream_run isComplete extractResult acc got ended s \<Longrightarrow> c \<notin> set (es_waiting s) \<union> ended
    \<Longrightarrow> next_event c s = (out, s')
    \<Longrightarrow> stream_run isComplete extractResult acc (case out of Some (Value x) \<Rightarrow> got @ [(c, x)] | _ \<Rightarrow> got)
          (if out = Some Finished then insert c ended else ended) s'"

section \<open>Invariant\<close>

definition event_stream_ok :: "('e \<Rightarrow> bool) \<Rightarrow> 'e list \<Rightarrow> (nat \<times> 'e) list \<Rightarrow> nat set \<Rightarrow> ('e, 'r) event_stream \<Rightarrow> bool" where
  "event_stream_ok isComplete acc got ended s \<longleftrightarrow>
     map snd got @ es_queue s = acc \<and> (es_waiting s = [] \<or> es_queue s = [])
     \<and> distinct (es_waiting s) \<and> set (es_waiting s) \<inter> ended = {}
     \<and> (ended \<noteq> {} \<longrightarrow> es_done s) \<and> (\<forall>e\<in>set (butlast acc). \<not> isComplete e)
     \<and> (acc \<noteq> [] \<and> isComplete (last acc) \<longrightarrow> es_done s)"

lemma resolve_fields [simp]:
  "es_queue (resolveFinalResult r s) = es_queue s" "es_waiting (resolveFinalResult r s) = es_waiting s"
  "es_done (resolveFinalResult r s) = es_done s"
  by (simp_all add: resolveFinalResult_def split: option.splits)

lemma butlast_snoc_complete:
  assumes "\<forall>e\<in>set (butlast acc). \<not> P e" "acc \<noteq> [] \<and> P (last acc) \<longrightarrow> d" "\<not> d"
  shows "\<forall>e\<in>set acc. \<not> P e"
  using assms by (cases acc rule: rev_cases) auto

lemma push_ok:
  assumes "event_stream_ok P acc got ended s" "push_event P ex e s = (Inr out, s')"
  shows "event_stream_ok P (if es_done s then acc else acc @ [e])
    (case out of Some (c, Value x) \<Rightarrow> got @ [(c, x)] | _ \<Rightarrow> got) ended s'"
proof (cases "es_done s")
  case True
  with assms show ?thesis by (simp add: push_event_def)
next
  case False
  then obtain s1 where s1: "es_queue s1 = es_queue s" "es_waiting s1 = es_waiting s" "P e \<longrightarrow> es_done s1"
    "(out, s') = (case es_waiting s1 of c # cs \<Rightarrow> (Some (c, Value e), s1\<lparr>es_waiting := cs\<rparr>)
       | [] \<Rightarrow> (None, s1\<lparr>es_queue := es_queue s1 @ [e]\<rparr>))"
  proof (cases "P e")
    case True
    with False assms(2) obtain v where "ex e = Inr v" by (cases "ex e") (auto simp: push_event_def)
    with True False assms(2) that [of "resolveFinalResult v (s\<lparr>es_done := True\<rparr>)"] show thesis
      by (auto simp: push_event_def split: list.splits)
  next
    case nc: False
    with False assms(2) that [of s] show thesis by (auto simp: push_event_def split: list.splits)
  qed
  have none: "\<forall>x\<in>set acc. \<not> P x" "ended = {}"
    using assms(1) False butlast_snoc_complete [of acc P "es_done s"] by (auto simp: event_stream_ok_def)
  show ?thesis
  proof (cases "es_waiting s")
    case Nil
    with s1 have "out = None" "s' = s1\<lparr>es_queue := es_queue s @ [e]\<rparr>" by auto
    with assms(1) s1 Nil none False show ?thesis by (auto simp: event_stream_ok_def)
  next
    case (Cons c cs)
    with s1 have "out = Some (c, Value e)" "s' = s1\<lparr>es_waiting := cs\<rparr>" by auto
    with assms(1) s1 Cons none False show ?thesis by (auto simp: event_stream_ok_def)
  qed
qed

lemma push_throws_ok:
  "event_stream_ok P acc got ended s \<Longrightarrow> push_event P ex e s = (Inl err, s') \<Longrightarrow> event_stream_ok P acc got ended s'"
  by (auto simp: push_event_def event_stream_ok_def Let_def split: if_splits sum.splits list.splits)

lemma end_ok:
  assumes "event_stream_ok P acc got ended s" "end_stream r s = (out, s')"
  shows "event_stream_ok P acc got (ended \<union> fst ` set out) s'"
  using assms by (cases r) (auto simp: end_stream_def event_stream_ok_def Let_def)

lemma next_ok:
  assumes "event_stream_ok P acc got ended s" "c \<notin> set (es_waiting s) \<union> ended" "next_event c s = (out, s')"
  shows "event_stream_ok P acc (case out of Some (Value x) \<Rightarrow> got @ [(c, x)] | _ \<Rightarrow> got)
    (if out = Some Finished then insert c ended else ended) s'"
proof (cases "es_queue s")
  case (Cons e es)
  with assms show ?thesis by (auto simp: next_event_def event_stream_ok_def)
next
  case Nil
  with assms show ?thesis by (cases "es_done s") (auto simp: next_event_def event_stream_ok_def)
qed

lemma stream_run_ok: "stream_run P ex acc got ended s \<Longrightarrow> event_stream_ok P acc got ended s"
proof (induction rule: stream_run.induct)
  case stream_new
  show ?case by (simp add: event_stream_ok_def new_stream_def)
qed (blast intro: push_ok push_throws_ok end_ok next_ok)+

text \<open>
  An event stream hands its events to its consumers in the order they were pushed, none lost
  and none twice; consumers wait only while nothing is queued, and after the final event nothing is
  accepted.
\<close>

theorem stream_in_order:
  assumes "stream_run isComplete extractResult acc got ended s"
  shows "acc = map snd got @ es_queue s \<and> (es_waiting s \<noteq> [] \<longrightarrow> es_queue s = []) \<and> (ended \<noteq> {} \<longrightarrow> es_done s)
    \<and> (\<forall>e\<in>set (butlast acc). \<not> isComplete e)"
  using stream_run_ok [OF assms] by (auto simp: event_stream_ok_def)

theorem stream_in_order_witness:
  "map snd [(7, True)] @ es_queue (snd (push_event id (\<lambda>_. Inr ()) True (snd (next_event 7 (new_stream :: (bool, unit) event_stream)))))
    = [True]"
proof -
  let ?s = "snd (next_event 7 (new_stream :: (bool, unit) event_stream))"
  have "next_event 7 new_stream = (None, ?s)" by (simp add: next_event_def new_stream_def)
  from stream_next [where isComplete = id and extractResult = "\<lambda>_. Inr ()", OF stream_new _ this]
  have waiting: "stream_run id (\<lambda>_. Inr ()) [] [] {} ?s" by (simp add: new_stream_def)
  have "stream_run id (\<lambda>_. Inr ()) (if es_done ?s then [] else [] @ [True])
      (case Some (7, Value True) of Some (c, Value x) \<Rightarrow> [] @ [(c, x)] | _ \<Rightarrow> []) {}
      (snd (push_event id (\<lambda>_. Inr ()) True ?s))"
    by (rule stream_push [OF waiting]) (simp add: push_event_def next_event_def new_stream_def resolveFinalResult_def)
  then have "stream_run id (\<lambda>_. Inr ()) [True] [(7, True)] {} (snd (push_event id (\<lambda>_. Inr ()) True ?s))"
    by (simp add: next_event_def new_stream_def)
  from stream_in_order [OF this] show ?thesis by simp
qed

text \<open>The first result stays: the completing event settles it, unless the stream had ended with one before.\<close>

lemma push_complete_result:
  assumes "\<not> es_done s" "es_result s = None" "isComplete e" "extractResult e = Inr v"
  shows "es_result (snd (push_event isComplete extractResult e s)) = Some v"
  using assms by (auto simp: push_event_def resolveFinalResult_def split: list.splits)

lemma done_stays:
  "es_done s \<Longrightarrow> es_done (snd (push_event P ex e s))" "es_done (snd (end_stream r s))" "es_done s \<Longrightarrow> es_done (snd (next_event c s))"
  by (auto simp: push_event_def end_stream_def next_event_def Let_def split: list.splits option.splits)

text \<open>A stream that has ended without a result never gets one from an event.\<close>

lemma ended_unresolved:
  "es_done s \<Longrightarrow> es_result (snd (push_event P ex e s)) = es_result s" "es_result (snd (next_event c s)) = es_result s"
  "es_result (snd (end_stream None s)) = es_result s"
  by (auto simp: push_event_def end_stream_def next_event_def split: list.splits)

end
