(* ===== verification/Proxy_Stream.thy ===== *)
theory Proxy_Stream
  imports Assistant_Stream Event_Stream Text_Decoder Chunk_Decoder
begin

text \<open>
  The client of a proxy server (\<open>packages/agent/src/proxy.ts\<close>): the server sends server-sent events
  without the partial message, and the client rebuilds the message from them. The connection is a
  parameter: what \<open>fetch\<close> and each \<open>read\<close> give, when the signal is aborted, and \<open>JSON.parse\<close>.
\<close>

section \<open>Events and the partial message\<close>

datatype proxy_event =
    PeStart
  | PeTextStart nat
  | PeTextDelta nat string
  | PeTextEnd nat "string option"
  | PeThinkingStart nat
  | PeThinkingDelta nat string
  | PeThinkingEnd nat "string option"
  | PeToolcallStart nat string string
  | PeToolcallDelta nat string
  | PeToolcallEnd nat
  | PeDone stop_reason usage
  | PeError stop_reason "string option" usage
  | PeUnknown

text \<open>A tool call carries the text of its arguments, \<open>partialJson\<close>, until it ends.\<close>

type_synonym proxy_block = "assistant_block \<times> string option"

text \<open>The message is that of the client; its content is rebuilt in place.\<close>

record proxy_partial =
  pp_message :: assistant_message
  pp_content :: "proxy_block option list"

text \<open>
  What is pushed to the consumers. The events refer to the partial message itself; here they carry it
  as it is when they are pushed.
\<close>

datatype proxy_output =
    PoUpdate assistant_event proxy_partial
  | PoDone stop_reason proxy_partial
  | PoError stop_reason proxy_partial

definition mismatch :: "string \<Rightarrow> string \<Rightarrow> error" where
  "mismatch ev kind = Error (''Received '' @ ev @ '' for non-'' @ kind @ '' content'')"

text \<open>The assignments of the switch: the new content and the event, an error, or no event.\<close>

definition put :: "proxy_partial \<Rightarrow> nat \<Rightarrow> proxy_block \<Rightarrow> proxy_partial" where
  "put p i b = p\<lparr>pp_content := js_set i b (pp_content p)\<rparr>"

definition update_to :: "proxy_partial \<Rightarrow> assistant_event \<Rightarrow> (error + proxy_output option) \<times> proxy_partial" where
  "update_to p ev = (Inr (Some (PoUpdate ev p)), p)"

fun processProxyEvent ::
  "json_parsers \<Rightarrow> proxy_event \<Rightarrow> proxy_partial \<Rightarrow> (error + proxy_output option) \<times> proxy_partial"
where
  "processProxyEvent P PeStart p = update_to p EvStart"
| "processProxyEvent P (PeTextStart i) p = update_to (put p i (AText [] None, None)) (EvTextStart i)"
| "processProxyEvent P (PeTextDelta i d) p =
     (case js_get i (pp_content p) of
        Some (AText t s, x) \<Rightarrow> update_to (put p i (AText (t @ d) s, x)) (EvTextDelta i d)
      | _ \<Rightarrow> (Inl (mismatch ''text_delta'' ''text''), p))"
| "processProxyEvent P (PeTextEnd i sig) p =
     (case js_get i (pp_content p) of
        Some (AText t s, x) \<Rightarrow> update_to (put p i (AText t sig, x)) (EvTextEnd i t)
      | _ \<Rightarrow> (Inl (mismatch ''text_end'' ''text''), p))"
| "processProxyEvent P (PeThinkingStart i) p = update_to (put p i (AThinking [] None False, None)) (EvThinkingStart i)"
| "processProxyEvent P (PeThinkingDelta i d) p =
     (case js_get i (pp_content p) of
        Some (AThinking t s r, x) \<Rightarrow> update_to (put p i (AThinking (t @ d) s r, x)) (EvThinkingDelta i d)
      | _ \<Rightarrow> (Inl (mismatch ''thinking_delta'' ''thinking''), p))"
| "processProxyEvent P (PeThinkingEnd i sig) p =
     (case js_get i (pp_content p) of
        Some (AThinking t s r, x) \<Rightarrow> update_to (put p i (AThinking t sig r, x)) (EvThinkingEnd i t)
      | _ \<Rightarrow> (Inl (mismatch ''thinking_end'' ''thinking''), p))"
| "processProxyEvent P (PeToolcallStart i cid tool) p =
     update_to (put p i (AToolCall \<lparr>tc_id = cid, tc_name = tool, tc_arguments = empty_object, tc_thoughtSignature = None\<rparr>, Some []))
       (EvToolcallStart i)"
| "processProxyEvent P (PeToolcallDelta i d) p =
     (case js_get i (pp_content p) of
        Some (AToolCall c, x) \<Rightarrow>
          (let partialJson = nullish x ''undefined'' @ d;
               v = parseStreamingJson P (Some partialJson)
           in update_to (put p i (AToolCall (c\<lparr>tc_arguments := if json_truthy v then v else empty_object\<rparr>), Some partialJson))
                (EvToolcallDelta i d))
      | _ \<Rightarrow> (Inl (mismatch ''toolcall_delta'' ''toolCall''), p))"
| "processProxyEvent P (PeToolcallEnd i) p =
     (case js_get i (pp_content p) of
        Some (AToolCall c, x) \<Rightarrow> update_to (put p i (AToolCall c, None)) (EvToolcallEnd i c)
      | _ \<Rightarrow> (Inr None, p))"
| "processProxyEvent P (PeDone reason u) p =
     (let p1 = p\<lparr>pp_message := (pp_message p)\<lparr>am_stopReason := reason, am_usage := u\<rparr>\<rparr>
      in (Inr (Some (PoDone reason p1)), p1))"
| "processProxyEvent P (PeError reason msg u) p =
     (let p1 = p\<lparr>pp_message := (pp_message p)\<lparr>am_stopReason := reason, am_errorMessage := msg, am_usage := u\<rparr>\<rparr>
      in (Inr (Some (PoError reason p1)), p1))"
| "processProxyEvent P PeUnknown p = (Inr None, p)"

section \<open>Lines of the response\<close>

definition data_prefix :: jsstring where
  "data_prefix = map of_char ''data: ''"

text \<open>The body of the loop over the lines: events pushed, an error, and the partial message.\<close>

fun process_lines ::
  "json_parsers \<Rightarrow> (jsstring \<Rightarrow> error + proxy_event) \<Rightarrow> jsstring list \<Rightarrow> proxy_partial
     \<Rightarrow> proxy_output list \<times> error option \<times> proxy_partial"
where
  "process_lines P parse [] p = ([], None, p)"
| "process_lines P parse (line # ls) p =
     (let data = (if take 6 line = data_prefix then js_trim (drop 6 line) else [])
      in if data = [] then process_lines P parse ls p
         else case parse data of
                Inl e \<Rightarrow> ([], Some e, p)
              | Inr ev \<Rightarrow>
                  (case processProxyEvent P ev p of
                     (Inl e, p1) \<Rightarrow> ([], Some e, p1)
                   | (Inr x, p1) \<Rightarrow>
                       (let (outs, err, p2) = process_lines P parse ls p1
                        in ((case x of Some out \<Rightarrow> [out] | None \<Rightarrow> []) @ outs, err, p2))))"

text \<open>\<open>buffer += decoder.decode(value, ...)\<close>, the whole lines and the rest.\<close>

type_synonym line_buffer = "text_decoder \<times> jsstring"

definition take_lines :: "line_buffer \<Rightarrow> byte list \<Rightarrow> jsstring list \<times> line_buffer" where
  "take_lines st data =
     (let (cs, td) = decode_chunk data (fst st);
          lines = split_on newline (snd st @ units cs)
      in (butlast lines, (td, last lines)))"

section \<open>The request\<close>

record proxy_response =
  pr_ok :: bool
  pr_status :: string
  pr_error :: "string option"

datatype proxy_read = ReadFails error | ReadChunk "byte list"

text \<open>Whether the signal is aborted after a number of reads, and when an error is handled.\<close>

record proxy_env =
  pe_fetch :: "error + proxy_response"
  pe_reads :: "proxy_read list"
  pe_aborted :: "nat \<Rightarrow> bool"
  pe_parse :: "jsstring \<Rightarrow> error + proxy_event"

definition aborted_error :: error where
  "aborted_error = Error ''Request aborted by user''"

text \<open>The loop over the reads; \<open>n\<close> of them have been made.\<close>

fun read_loop ::
  "json_parsers \<Rightarrow> proxy_env \<Rightarrow> nat \<Rightarrow> proxy_read list \<Rightarrow> line_buffer \<Rightarrow> proxy_partial
     \<Rightarrow> proxy_output list \<times> (error option \<times> nat) \<times> proxy_partial"
where
  "read_loop P E n [] st p = ([], (if pe_aborted E (Suc n) then Some aborted_error else None, Suc n), p)"
| "read_loop P E n (ReadFails e # rs) st p = ([], (Some e, Suc n), p)"
| "read_loop P E n (ReadChunk data # rs) st p =
     (if pe_aborted E (Suc n) then ([], (Some aborted_error, Suc n), p)
      else let (lines, st1) = take_lines st data
           in case process_lines P (pe_parse E) lines p of
                (outs, Some e, p1) \<Rightarrow> (outs, (Some e, Suc n), p1)
              | (outs, None, p1) \<Rightarrow>
                  (let (outs', end, p2) = read_loop P E (Suc n) rs st1 p1 in (outs @ outs', end, p2)))"

text \<open>The error of a response that is not ok.\<close>

definition response_error :: "proxy_response \<Rightarrow> error" where
  "response_error r = Error (''Proxy error: '' @ (if truthy (pr_error r) then the (pr_error r) else pr_status r))"

definition request :: "json_parsers \<Rightarrow> proxy_env \<Rightarrow> proxy_partial \<Rightarrow> proxy_output list \<times> (error option \<times> nat) \<times> proxy_partial" where
  "request P E p =
     (case pe_fetch E of
        Inl e \<Rightarrow> ([], (Some e, 0), p)
      | Inr r \<Rightarrow> if \<not> pr_ok r then ([], (Some (response_error r), 0), p)
                else read_loop P E 0 (pe_reads E) (new_decoder, []) p)"

text \<open>\<open>streamProxy\<close>: the events pushed, before the stream is ended without a result of its own.\<close>

definition empty_message :: "string \<Rightarrow> string \<Rightarrow> string \<Rightarrow> int \<Rightarrow> assistant_message" where
  "empty_message api provider model now =
     \<lparr>am_content = [], am_api = api, am_provider = provider, am_model = model, am_usage = emptyUsage,
      am_stopReason = Stop, am_errorMessage = None, am_timestamp = now\<rparr>"

definition streamProxy :: "json_parsers \<Rightarrow> proxy_env \<Rightarrow> assistant_message \<Rightarrow> proxy_output list" where
  "streamProxy P E m =
     (case request P E \<lparr>pp_message = m, pp_content = []\<rparr> of
        (outs, (None, n), p) \<Rightarrow> outs
      | (outs, (Some e, n), p) \<Rightarrow>
          (let reason = (if pe_aborted E n then Aborted else StopError);
               p1 = p\<lparr>pp_message := (pp_message p)\<lparr>am_stopReason := reason, am_errorMessage := Some (message e)\<rparr>\<rparr>
           in outs @ [PoError reason p1]))"

text \<open>The stream object: what is pushed, then \<open>end()\<close>.\<close>

fun completes :: "proxy_output \<Rightarrow> bool" where
  "completes (PoUpdate ev p) \<longleftrightarrow> False"
| "completes (PoDone r p) \<longleftrightarrow> True"
| "completes (PoError r p) \<longleftrightarrow> True"

fun final_message :: "proxy_output \<Rightarrow> error + proxy_partial" where
  "final_message (PoUpdate ev p) = Inl (Error ''Unexpected event type'')"
| "final_message (PoDone r p) = Inr p"
| "final_message (PoError r p) = Inr p"

definition pushed_stream :: "proxy_output list \<Rightarrow> (proxy_output, proxy_partial) event_stream" where
  "pushed_stream outs =
     snd (end_stream None (fold (\<lambda>e s. snd (push_event completes final_message e s)) outs new_stream))"

end
