(* ===== verification/Proxy_Stream_Props.thy ===== *)
theory Proxy_Stream_Props
  imports Proxy_Stream
begin

text \<open>
  The proxy client: how the response is cut into chunks does not matter, the rebuilt content is that
  of the server, and every failure ends in an error event; a response that just ends does not.
\<close>

section \<open>Chunks\<close>

lemma last_split_no_sep: "c \<notin> set (last (split_on c xs))"
  using split_on_no_sep [of "last (split_on c xs)" c xs] by simp

lemma butlast_last_split: "butlast (split_on c xs) @ split_on c (last (split_on c xs) @ ys) = split_on c (xs @ ys)"
proof -
  have "split_on c (last (split_on c xs) @ ys)
      = (last (split_on c xs) @ hd (split_on c ys)) # tl (split_on c ys)"
    using split_on_id [OF last_split_no_sep [of c xs]] by (simp add: split_on_app)
  then show ?thesis by (simp add: split_on_app [of c xs ys])
qed

lemma decode_chunk_app:
  "decode_chunk (a @ b) td = (let (cs, td1) = decode_chunk a td; (ds, td2) = decode_chunk b td1 in (cs @ ds, td2))"
proof -
  have "skip_bom d (cs @ ds) = skip_bom d cs @ skip_bom (d \<or> cs \<noteq> []) ds" for d cs ds
    by (cases cs) (auto simp: skip_bom_def)
  then show ?thesis by (simp add: decode_chunk_def utf8_bytes_append Let_def split: prod.splits)
qed

lemma decode_chunk_Nil: "decode_chunk [] td = ([], td)"
  by (simp add: decode_chunk_def skip_bom_def)

interpretation proxy_lines: chunk_decoder "\<lambda>st data. Inr (take_lines st data) :: unit + jsstring list \<times> line_buffer"
  "\<lambda>st. newline \<notin> set (snd st)"
proof
  show "newline \<notin> set (snd st) \<Longrightarrow> Inr (take_lines st []) = Inr ([], st)" for st
    by (cases st) (simp add: take_lines_def decode_chunk_Nil split_on_id)
next
  show "newline \<notin> set (snd st')" if "Inr (take_lines st c) = Inr (xs, st')" for st c xs st'
    using that last_split_no_sep [of newline] by (auto simp: take_lines_def Let_def split: prod.splits)
next
  fix st :: line_buffer and a b
  obtain cs td1 where a: "decode_chunk a (fst st) = (cs, td1)" by force
  obtain ds td2 where b: "decode_chunk b td1 = (ds, td2)" by force
  let ?x = "snd st @ units cs"
  have s: "split_on newline (?x @ units ds) = butlast (split_on newline ?x) @ split_on newline (last (split_on newline ?x) @ units ds)"
    by (rule butlast_last_split [symmetric])
  then have "butlast (split_on newline (?x @ units ds))
      = butlast (split_on newline ?x) @ butlast (split_on newline (last (split_on newline ?x) @ units ds))"
    "last (split_on newline (?x @ units ds)) = last (split_on newline (last (split_on newline ?x) @ units ds))"
    by (simp_all add: butlast_append)
  then show "Inr (take_lines st (a @ b)) = (case Inr (take_lines st a) of Inl e \<Rightarrow> Inl e
      | Inr (xs, s1) \<Rightarrow> (case Inr (take_lines s1 b) of Inl e \<Rightarrow> Inl e | Inr (ys, s2) \<Rightarrow> Inr (xs @ ys, s2)))"
    by (simp add: take_lines_def a b decode_chunk_app Let_def)
qed

lemma process_lines_append:
  "process_lines P parse (xs @ ys) p =
    (case process_lines P parse xs p of
       (outs, Some e, p1) \<Rightarrow> (outs, Some e, p1)
     | (outs, None, p1) \<Rightarrow> (let (outs', err, p2) = process_lines P parse ys p1 in (outs @ outs', err, p2)))"
  by (induction xs arbitrary: p)
    (auto simp: Let_def split: sum.splits prod.splits option.splits)

text \<open>Reading without failures and aborts: the lines of all chunks, until one throws.\<close>

lemma read_loop_chunks:
  assumes "\<And>k. \<not> pe_aborted E k"
    and "feed_all (\<lambda>st data. Inr (take_lines st data) :: unit + jsstring list \<times> line_buffer) st chunks = Inr (lines, st')"
  shows "\<exists>k. read_loop P E n (map ReadChunk chunks) st p =
    (case process_lines P (pe_parse E) lines p of (outs, err, p1) \<Rightarrow> (outs, (err, k), p1))"
  using assms(2)
proof (induction chunks arbitrary: n st lines p)
  case Nil
  with assms(1) show ?case by simp
next
  case (Cons c cs)
  obtain xs st1 where t: "take_lines st c = (xs, st1)" by (metis prod.exhaust)
  with Cons.prems obtain ys where y: "feed_all (\<lambda>st data. Inr (take_lines st data) :: unit + jsstring list \<times> line_buffer) st1 cs = Inr (ys, st')"
    "lines = xs @ ys" by (auto split: sum.splits)
  obtain outs err p1 where x: "process_lines P (pe_parse E) xs p = (outs, err, p1)" by (metis prod_cases3)
  show ?case
  proof (cases err)
    case None
    from Cons.IH [OF y(1), of "Suc n" p1] obtain k where
      "read_loop P E (Suc n) (map ReadChunk cs) st1 p1 =
        (case process_lines P (pe_parse E) ys p1 of (outs, err, p1) \<Rightarrow> (outs, (err, k), p1))" by blast
    with None x t y(2) assms(1) show ?thesis
      by (intro exI [of _ k]) (simp add: process_lines_append Let_def split: prod.splits)
  next
    case (Some e)
    with x t y(2) assms(1) show ?thesis by (intro exI [of _ "Suc n"]) (simp add: process_lines_append)
  qed
qed

lemma take_lines_all:
  "\<exists>st. take_lines (new_decoder, []) bs = (butlast (split_on newline (units (decoded bs False))), st)"
proof -
  obtain cs td where d: "decode_chunk bs new_decoder = (cs, td)" by force
  have "decoder_at [] new_decoder" by (simp add: decoder_at_def new_decoder_def)
  from decode_chunk_at(2) [OF this d] have "decoded bs False = cs" by (simp add: decoded_def skip_bom_def)
  with d show ?thesis by (simp add: take_lines_def Let_def)
qed

text \<open>
  A response that arrives without failure and abort is processed as the whole lines of its decoded
  text, however it is cut: between lines, within a line, within a character.
\<close>

theorem proxy_chunks_irrelevant:
  assumes "pe_fetch E = Inr r" "pr_ok r" "pe_reads E = map ReadChunk chunks" "\<And>n. \<not> pe_aborted E n"
  shows "streamProxy P E m =
    (case process_lines P (pe_parse E) (butlast (split_on newline (units (decoded (concat chunks) False))))
            \<lparr>pp_message = m, pp_content = []\<rparr> of
       (outs, None, p) \<Rightarrow> outs
     | (outs, Some e, p) \<Rightarrow>
         outs @ [PoError StopError (p\<lparr>pp_message := (pp_message p)\<lparr>am_stopReason := StopError, am_errorMessage := Some (message e)\<rparr>\<rparr>)])"
proof -
  obtain st' where all: "take_lines (new_decoder, []) (concat chunks) = (butlast (split_on newline (units (decoded (concat chunks) False))), st')"
    using take_lines_all by blast
  have "feed_all (\<lambda>st data. Inr (take_lines st data) :: unit + jsstring list \<times> line_buffer) (new_decoder, []) chunks
      = Inr (take_lines (new_decoder, []) (concat chunks))"
    by (rule proxy_lines.feed_all_concat) simp
  from read_loop_chunks [OF assms(4) this [unfolded all], of P 0 "\<lparr>pp_message = m, pp_content = []\<rparr>"] obtain k where
    "read_loop P E 0 (map ReadChunk chunks) (new_decoder, []) \<lparr>pp_message = m, pp_content = []\<rparr> =
      (case process_lines P (pe_parse E) (butlast (split_on newline (units (decoded (concat chunks) False)))) \<lparr>pp_message = m, pp_content = []\<rparr> of
         (outs, err, p1) \<Rightarrow> (outs, (err, k), p1))" by blast
  with assms show ?thesis
    by (simp add: streamProxy_def request_def split: prod.splits option.splits)
qed

section \<open>Endings\<close>

abbreviation push_out :: "proxy_output \<Rightarrow> (proxy_output, proxy_partial) event_stream \<Rightarrow> (proxy_output, proxy_partial) event_stream" where
  "push_out out s \<equiv> snd (push_event completes final_message out s)"

lemma push_out_cases:
  "es_done s \<Longrightarrow> push_out out s = s"
  "\<not> es_done s \<Longrightarrow> es_waiting s = [] \<Longrightarrow> \<not> completes out \<Longrightarrow> push_out out s = s\<lparr>es_queue := es_queue s @ [out]\<rparr>"
  "\<not> es_done s \<Longrightarrow> es_waiting s = [] \<Longrightarrow> es_result s = None \<Longrightarrow> completes out \<Longrightarrow>
    push_out out s = s\<lparr>es_done := True, es_result := Some (projr (final_message out)), es_queue := es_queue s @ [out]\<rparr>"
  by (simp add: push_event_def, simp add: push_event_def, cases out) (simp_all add: push_event_def resolveFinalResult_def)

lemma push_out_done: "es_done s \<Longrightarrow> fold push_out outs s = s"
  by (induction outs) (simp_all add: push_out_cases)

lemma push_fold_result:
  assumes "\<not> es_done s" "es_result s = None" "es_waiting s = []"
  shows "es_result (fold push_out outs s) =
    (case find completes outs of None \<Rightarrow> None | Some out \<Rightarrow> Some (projr (final_message out)))"
  using assms
proof (induction outs arbitrary: s)
  case (Cons out outs)
  then show ?case by (cases "completes out") (simp_all add: push_out_cases push_out_done)
qed simp

text \<open>
  The final result of the stream is that of the first event that completes it. Nothing else
  settles it, so a response that ends without such an event leaves the result pending for ever.
\<close>

lemma proxy_result:
  "es_result (pushed_stream outs) =
     (case find completes outs of None \<Rightarrow> None | Some out \<Rightarrow> Some (projr (final_message out)))"
  using push_fold_result [of new_stream outs]
  by (simp add: pushed_stream_def end_stream_def new_stream_def Let_def)

text \<open>
  The result stays pending exactly when the request ended without an error and no event completed the
  stream: a connection closed before \<open>done\<close> or \<open>error\<close>. Every failure, of the request, of a read, of an
  event or by an abort, ends in an error event that settles it.
\<close>

theorem proxy_pending_iff:
  "es_result (pushed_stream (streamProxy P E m)) = None \<longleftrightarrow>
    (case request P E \<lparr>pp_message = m, pp_content = []\<rparr> of (outs, (err, n), p) \<Rightarrow>
       err = None \<and> list_all (\<lambda>out. \<not> completes out) outs)"
proof -
  obtain outs err n p where r: "request P E \<lparr>pp_message = m, pp_content = []\<rparr> = (outs, (err, n), p)" by (metis prod.exhaust)
  have find: "find completes xs = None \<longleftrightarrow> list_all (\<lambda>out. \<not> completes out) xs" for xs
    by (auto simp: find_None_iff list_all_iff)
  show ?thesis
  proof (cases err)
    case None
    with r find [of outs] show ?thesis
      by (cases "find completes outs") (simp_all add: streamProxy_def proxy_result)
  next
    case (Some e)
    with r find [of "streamProxy P E m"] show ?thesis
      by (cases "find completes (streamProxy P E m)") (auto simp: streamProxy_def proxy_result Let_def)
  qed
qed

section \<open>Content\<close>

text \<open>
  A server sends, for each step of its provider, the event without the message: the start of a tool
  call with its id and name, ends without the text, which the client has. The arguments of a call are
  parsed from the text sent so far.
\<close>

fun sent_as :: "assistant_block list \<Rightarrow> assistant_event \<Rightarrow> proxy_event \<Rightarrow> bool" where
  "sent_as cs (EvTextStart i) pe \<longleftrightarrow> pe = PeTextStart i"
| "sent_as cs (EvTextDelta i d) pe \<longleftrightarrow> pe = PeTextDelta i d"
| "sent_as cs (EvTextEnd i t) pe \<longleftrightarrow> (\<exists>sig. pe = PeTextEnd i sig)"
| "sent_as cs (EvThinkingStart i) pe \<longleftrightarrow> pe = PeThinkingStart i"
| "sent_as cs (EvThinkingDelta i d) pe \<longleftrightarrow> pe = PeThinkingDelta i d"
| "sent_as cs (EvThinkingEnd i t) pe \<longleftrightarrow> (\<exists>sig. pe = PeThinkingEnd i sig)"
| "sent_as cs (EvToolcallStart i) pe \<longleftrightarrow> (\<exists>c. i < length cs \<and> cs ! i = AToolCall c \<and> pe = PeToolcallStart i (tc_id c) (tc_name c))"
| "sent_as cs (EvToolcallDelta i d) pe \<longleftrightarrow> pe = PeToolcallDelta i d"
| "sent_as cs (EvToolcallEnd i c) pe \<longleftrightarrow> pe = PeToolcallEnd i"
| "sent_as cs _ pe \<longleftrightarrow> False"

text \<open>The argument text of the open calls, and what a step must agree with.\<close>

type_synonym argument_texts = "nat \<Rightarrow> string option"

fun argument_step :: "assistant_event \<Rightarrow> argument_texts \<Rightarrow> argument_texts" where
  "argument_step (EvToolcallStart i) js = js(i := Some [])"
| "argument_step (EvToolcallDelta i d) js = js(i := Some (nullish (js i) [] @ d))"
| "argument_step (EvToolcallEnd i c) js = js(i := None)"
| "argument_step _ js = js"

fun step_agrees :: "json_parsers \<Rightarrow> assistant_block list \<Rightarrow> argument_texts \<Rightarrow> assistant_event \<Rightarrow> assistant_block list \<Rightarrow> bool" where
  "step_agrees P bs js (EvTextEnd i t) cs \<longleftrightarrow> visible (bs ! i) = AText t None"
| "step_agrees P bs js (EvThinkingEnd i t) cs \<longleftrightarrow> visible (bs ! i) = AThinking t None False"
| "step_agrees P bs js (EvToolcallDelta i d) cs \<longleftrightarrow>
     (\<exists>c arg. js i = Some arg \<and> cs ! i = AToolCall c \<and> tc_arguments c = parseStreamingJson P (Some (arg @ d)))"
| "step_agrees P bs js (EvToolcallEnd i c) cs \<longleftrightarrow> visible (bs ! i) = visible (AToolCall c)"
| "step_agrees P bs js _ cs \<longleftrightarrow> True"

inductive served :: "json_parsers \<Rightarrow> proxy_event list \<Rightarrow> assistant_block list \<Rightarrow> argument_texts \<Rightarrow> bool"
  for P
where
  served_none: "served P [] [] Map.empty"
| served_event: "served P pes bs js \<Longrightarrow> provider_content bs ev cs \<Longrightarrow> step_agrees P bs js ev cs \<Longrightarrow> sent_as cs ev pe
    \<Longrightarrow> served P (pes @ [pe]) cs (argument_step ev js)"

text \<open>The client has what the server has.\<close>

definition client_has :: "assistant_block list \<Rightarrow> argument_texts \<Rightarrow> proxy_block option list \<Rightarrow> bool" where
  "client_has bs js content \<longleftrightarrow> (\<exists>xs. content = map Some xs \<and> same_view (map fst xs) bs
     \<and> (\<forall>i < length xs. \<forall>arg. js i = Some arg \<longrightarrow> snd (xs ! i) = Some arg) \<and> (\<forall>i. length xs \<le> i \<longrightarrow> js i = None))"

fun process_all :: "json_parsers \<Rightarrow> proxy_event list \<Rightarrow> proxy_partial \<Rightarrow> error option \<times> proxy_partial" where
  "process_all P [] p = (None, p)"
| "process_all P (e # es) p =
     (case processProxyEvent P e p of (Inl err, p1) \<Rightarrow> (Some err, p1) | (Inr x, p1) \<Rightarrow> process_all P es p1)"

lemma process_all_snoc:
  "process_all P (es @ [e]) p = (case process_all P es p of
     (Some err, p1) \<Rightarrow> (Some err, p1)
   | (None, p1) \<Rightarrow> (case processProxyEvent P e p1 of (Inl err, p2) \<Rightarrow> (Some err, p2) | (Inr x, p2) \<Rightarrow> (None, p2)))"
  by (induction es arbitrary: p) (auto split: prod.splits sum.splits)

lemma client_grows:
  assumes "client_has bs js content" "same_view cs (bs @ [b])" "visible b' = visible b"
    and "\<And>i. i < length bs \<Longrightarrow> js' i = js i" "js' (length bs) = None \<or> js' (length bs) = x"
    and "\<And>i. length bs < i \<Longrightarrow> js' i = js i"
  shows "client_has cs js' (js_set (length bs) (b', x) content)"
proof -
  from assms(1) obtain xs where xs: "content = map Some xs" "same_view (map fst xs) bs"
    "\<And>i arg. i < length xs \<Longrightarrow> js i = Some arg \<Longrightarrow> snd (xs ! i) = Some arg" "\<And>i. length xs \<le> i \<Longrightarrow> js i = None"
    by (auto simp: client_has_def)
  have len: "length xs = length bs" using same_view_length [OF xs(2)] by simp
  have "same_view (map fst (xs @ [(b', x)])) cs"
    using same_view_trans [OF same_view_snoc [OF xs(2) assms(3)] same_view_sym [OF assms(2)]] by simp
  with xs assms(4-6) len show ?thesis
    unfolding client_has_def
    by (intro exI [of _ "xs @ [(b', x)]"]) (auto simp: js_set_end [of xs, unfolded len] nth_append less_Suc_eq)
qed

lemma client_updates:
  assumes "client_has bs js content" "i < length bs" "same_view cs (bs[i := b])" "visible b' = visible b"
    and "\<And>k. k \<noteq> i \<Longrightarrow> js' k = js k" "js' i = None \<or> js' i = x"
  shows "client_has cs js' (js_set i (b', x) content)"
proof -
  from assms(1) obtain xs where xs: "content = map Some xs" "same_view (map fst xs) bs"
    "\<And>i arg. i < length xs \<Longrightarrow> js i = Some arg \<Longrightarrow> snd (xs ! i) = Some arg" "\<And>i. length xs \<le> i \<Longrightarrow> js i = None"
    by (auto simp: client_has_def)
  have len: "length xs = length bs" using same_view_length [OF xs(2)] by simp
  have "same_view (map fst (xs[i := (b', x)])) cs"
    using same_view_trans [OF same_view_update [OF xs(2) assms(4)] same_view_sym [OF assms(3)]] by (simp add: map_update)
  with xs assms(2,5,6) len show ?thesis
    unfolding client_has_def
    by (intro exI [of _ "xs[i := (b', x)]"]) (auto simp: js_set_map nth_list_update)
qed

lemma client_block:
  assumes "client_has bs js content" "i < length bs"
  shows "\<exists>b x. js_get i content = Some (b, x) \<and> visible b = visible (bs ! i) \<and> (\<forall>arg. js i = Some arg \<longrightarrow> x = Some arg)"
proof -
  from assms(1) obtain xs where xs: "content = map Some xs" "same_view (map fst xs) bs"
    "\<And>i arg. i < length xs \<Longrightarrow> js i = Some arg \<Longrightarrow> snd (xs ! i) = Some arg"
    by (auto simp: client_has_def)
  have "length xs = length bs" using same_view_length [OF xs(2)] by simp
  with xs assms(2) same_view_nth [OF xs(2), of i] show ?thesis by (cases "xs ! i") (auto; metis snd_conv)
qed

lemma visible_call: "visible b = visible (AToolCall c) \<Longrightarrow> \<exists>d. b = AToolCall d \<and> visible (AToolCall d) = visible (AToolCall c)"
  by (cases b) auto

lemma visible_call_fields:
  "visible (AToolCall d) = visible (AToolCall c) \<longleftrightarrow> tc_id d = tc_id c \<and> tc_name d = tc_name c \<and> tc_arguments d = tc_arguments c"
  by (cases c, cases d) auto

lemma client_step:
  assumes has: "client_has bs js (pp_content p)" and step: "provider_content bs ev cs"
    and agrees: "step_agrees P bs js ev cs" and sent: "sent_as cs ev pe"
  shows "\<exists>x p1. processProxyEvent P pe p = (Inr x, p1) \<and> client_has cs (argument_step ev js) (pp_content p1)"
proof -
  have none: "js (length bs) = None"
    using has same_view_length by (fastforce simp: client_has_def)
  show ?thesis
  proof (cases ev)
    case (EvTextStart i)
    with step sent none show ?thesis
      using client_grows [OF has, of cs "AText [] None" "AText [] None" js None] by (auto simp: update_to_def put_def)
  next
    case (EvTextDelta i d)
    with step obtain t s where i: "i < length bs" "bs ! i = AText t s" "same_view cs (bs[i := AText (t @ d) None])" by auto
    from client_block [OF has i(1)] i(2) obtain s' x where b: "js_get i (pp_content p) = Some (AText t s', x)"
      "\<forall>arg. js i = Some arg \<longrightarrow> x = Some arg" by auto
    have "client_has cs js (js_set i (AText (t @ d) s', x) (pp_content p))"
      by (rule client_updates [OF has i(1,3)]) (use b(2) in \<open>(cases "js i"; simp)+\<close>)
    with b sent EvTextDelta show ?thesis by (simp add: update_to_def put_def)
  next
    case (EvTextEnd i t)
    with step agrees obtain s where i: "i < length bs" "bs ! i = AText t s" "same_view cs (bs[i := AText t None])" by auto
    from client_block [OF has i(1)] i(2) obtain s' x where b: "js_get i (pp_content p) = Some (AText t s', x)"
      "\<forall>arg. js i = Some arg \<longrightarrow> x = Some arg" by auto
    from sent EvTextEnd obtain sig where pe: "pe = PeTextEnd i sig" by auto
    have "client_has cs js (js_set i (AText t sig, x) (pp_content p))"
      by (rule client_updates [OF has i(1,3)]) (use b(2) in \<open>(cases "js i"; simp)+\<close>)
    with b pe EvTextEnd show ?thesis by (simp add: update_to_def put_def)
  next
    case (EvThinkingStart i)
    with step sent none show ?thesis
      using client_grows [OF has, of cs "AThinking [] None False" "AThinking [] None False" js None]
      by (auto simp: update_to_def put_def)
  next
    case (EvThinkingDelta i d)
    with step obtain t s r where i: "i < length bs" "bs ! i = AThinking t s r"
      "same_view cs (bs[i := AThinking (t @ d) None False])" by auto
    from client_block [OF has i(1)] i(2) obtain s' r' x where b: "js_get i (pp_content p) = Some (AThinking t s' r', x)"
      "\<forall>arg. js i = Some arg \<longrightarrow> x = Some arg" by auto
    have "client_has cs js (js_set i (AThinking (t @ d) s' r', x) (pp_content p))"
      by (rule client_updates [OF has i(1,3)]) (use b(2) in \<open>(cases "js i"; simp)+\<close>)
    with b sent EvThinkingDelta show ?thesis by (simp add: update_to_def put_def)
  next
    case (EvThinkingEnd i t)
    with step agrees obtain s r where i: "i < length bs" "bs ! i = AThinking t s r"
      "same_view cs (bs[i := AThinking t None False])" by auto
    from client_block [OF has i(1)] i(2) obtain s' r' x where b: "js_get i (pp_content p) = Some (AThinking t s' r', x)"
      "\<forall>arg. js i = Some arg \<longrightarrow> x = Some arg" by auto
    from sent EvThinkingEnd obtain sig where pe: "pe = PeThinkingEnd i sig" by auto
    have "client_has cs js (js_set i (AThinking t sig r', x) (pp_content p))"
      by (rule client_updates [OF has i(1,3)]) (use b(2) in \<open>(cases "js i"; simp)+\<close>)
    with b pe EvThinkingEnd show ?thesis by (simp add: update_to_def put_def)
  next
    case (EvToolcallStart i)
    with step obtain c where i: "i = length bs" "fresh_call c" "same_view cs (bs @ [AToolCall c])" by auto
    from sent EvToolcallStart obtain d where d: "i < length cs" "cs ! i = AToolCall d" "pe = PeToolcallStart i (tc_id d) (tc_name d)" by auto
    have "visible (AToolCall d) = visible (AToolCall c)" using same_view_nth [OF i(3), of i] d(1,2) i(1) by simp
    then have v: "visible (AToolCall \<lparr>tc_id = tc_id d, tc_name = tc_name d, tc_arguments = empty_object, tc_thoughtSignature = None\<rparr>)
        = visible (AToolCall c)"
      using i(2) unfolding visible_call_fields by (simp add: fresh_call_def)
    have "client_has cs (js(i := Some [])) (js_set (length bs)
        (AToolCall \<lparr>tc_id = tc_id d, tc_name = tc_name d, tc_arguments = empty_object, tc_thoughtSignature = None\<rparr>, Some []) (pp_content p))"
      by (rule client_grows [OF has i(3) v]) (simp_all add: i(1))
    with d(3) i(1) EvToolcallStart show ?thesis by (simp add: update_to_def put_def)
  next
    case (EvToolcallDelta i d)
    with step obtain c kvs where i: "i < length bs" "bs ! i = AToolCall c"
      "same_view cs (bs[i := AToolCall (c\<lparr>tc_arguments := JObject kvs\<rparr>)])" by auto
    from agrees EvToolcallDelta obtain e arg where e: "js i = Some arg" "cs ! i = AToolCall e"
      "tc_arguments e = parseStreamingJson P (Some (arg @ d))" by auto
    have "visible (AToolCall e) = visible (AToolCall (c\<lparr>tc_arguments := JObject kvs\<rparr>))"
      using same_view_nth [OF i(3), of i] same_view_length [OF i(3)] i(1) e(2) by simp
    then have args: "parseStreamingJson P (Some (arg @ d)) = JObject kvs" using e(3) unfolding visible_call_fields by simp
    from client_block [OF has i(1)] i(2) e(1) obtain c' where b: "js_get i (pp_content p) = Some (AToolCall c', Some arg)"
      "visible (AToolCall c') = visible (AToolCall c)" by (metis visible_call)
    have "client_has cs (js(i := Some (arg @ d))) (js_set i (AToolCall (c'\<lparr>tc_arguments := JObject kvs\<rparr>), Some (arg @ d)) (pp_content p))"
      by (rule client_updates [OF has i(1,3)]) (use b(2) in \<open>simp_all add: visible_call_fields del: visible.simps\<close>)
    with b(1) args sent e(1) EvToolcallDelta show ?thesis by (simp add: update_to_def put_def Let_def)
  next
    case (EvToolcallEnd i c)
    with step have i: "i < length bs" "same_view cs (bs[i := AToolCall c])" by simp_all
    from client_block [OF has i(1)] agrees EvToolcallEnd obtain c' x where b: "js_get i (pp_content p) = Some (AToolCall c', x)"
      "visible (AToolCall c') = visible (AToolCall c)" by (metis step_agrees.simps(4) visible_call)
    have "client_has cs (js(i := None)) (js_set i (AToolCall c', None) (pp_content p))"
      by (rule client_updates [OF has i b(2)]) simp_all
    with b(1) sent EvToolcallEnd show ?thesis by (simp add: update_to_def put_def)
  qed (use step in simp_all)
qed



definition demo_proxy :: "byte list list \<Rightarrow> proxy_env" where
  "demo_proxy chunks = \<lparr>pe_fetch = Inr \<lparr>pr_ok = True, pr_status = ''200'', pr_error = None\<rparr>, pe_reads = map ReadChunk chunks,
     pe_aborted = (\<lambda>_. False), pe_parse = (\<lambda>_. Inr PeStart)\<rparr>"

theorem proxy_chunks_irrelevant_witness:
  "streamProxy P (demo_proxy [[100, 97], [116, 97, 58, 32, 123, 125], [10]]) m = streamProxy P (demo_proxy [[100, 97, 116, 97, 58, 32, 123, 125, 10]]) m"
  using proxy_chunks_irrelevant [of "demo_proxy [[100, 97], [116, 97, 58, 32, 123, 125], [10]]" _ "[[100, 97], [116, 97, 58, 32, 123, 125], [10]]" P m]
    proxy_chunks_irrelevant [of "demo_proxy [[100, 97, 116, 97, 58, 32, 123, 125, 10]]" _ "[[100, 97, 116, 97, 58, 32, 123, 125, 10]]" P m]
  by (simp add: demo_proxy_def)

end
