(* ===== verification/Snapshot_Cache.thy ===== *)
theory Snapshot_Cache
  imports Json Utf
begin

text \<open>
  The transcript of a session snapshot (\<open>modes/daemon/snapshot-transcript-cache.ts\<close>): messages are
  packed into chunks of JSON lines, the chunks are kept in memory or, beyond a limit, in files, and
  readers that are ahead of the writer wait for the chunk they need. A message is its JSON text.
\<close>

section \<open>Packing messages\<close>

definition SNAPSHOT_TARGET_CHUNK_BYTES :: nat where
  "SNAPSHOT_TARGET_CHUNK_BYTES = 512 * 1024"

definition SNAPSHOT_MEMORY_CACHE_BYTES :: nat where
  "SNAPSHOT_MEMORY_CACHE_BYTES = 4 * 1024 * 1024"

record cache_options =
  co_activeSessionId :: string
  co_snapshotId :: string
  co_cacheRoot :: string
  co_targetChunkBytes :: "nat option"
  co_memoryCacheBytes :: "nat option"

definition targetChunkBytes :: "cache_options \<Rightarrow> nat" where
  "targetChunkBytes opts = nullish (co_targetChunkBytes opts) SNAPSHOT_TARGET_CHUNK_BYTES"

abbreviation units_of :: "string \<Rightarrow> jsstring" where
  "units_of s \<equiv> map of_char s"

text \<open>The line of a chunk: an object with the ids, the index of the chunk and its messages.\<close>

definition chunk_prefix :: "cache_options \<Rightarrow> nat \<Rightarrow> string" where
  "chunk_prefix opts index =
     ''{'' @ quote_string ''type'' @ '':'' @ quote_string ''session_snapshot_chunk''
       @ '','' @ quote_string ''activeSessionId'' @ '':'' @ quote_string (co_activeSessionId opts)
       @ '','' @ quote_string ''snapshotId'' @ '':'' @ quote_string (co_snapshotId opts)
       @ '','' @ quote_string ''index'' @ '':'' @ dec index @ '','' @ quote_string ''messages'' @ '':[''"

definition chunk_line :: "cache_options \<Rightarrow> nat \<Rightarrow> jsstring list \<Rightarrow> byte list" where
  "chunk_line opts index serialized =
     utf8 (units_of (chunk_prefix opts index) @ join (units_of '','') serialized @ units_of '']}'' @ [newline])"

text \<open>
  The loop over the messages: the chunk under construction with its byte count, and \<open>flush\<close>, which
  adds a chunk unless there is none.
\<close>

definition flush_chunk :: "cache_options \<Rightarrow> jsstring list \<Rightarrow> byte list list \<Rightarrow> byte list list" where
  "flush_chunk opts serialized chunks =
     (if serialized = [] then chunks else chunks @ [chunk_line opts (length chunks) serialized])"

fun encode_loop :: "cache_options \<Rightarrow> jsstring list \<Rightarrow> jsstring list \<Rightarrow> nat \<Rightarrow> byte list list \<Rightarrow> byte list list" where
  "encode_loop opts [] serialized bytes chunks = flush_chunk opts serialized chunks"
| "encode_loop opts (m # ms) serialized bytes chunks =
     (let b = byteLength m + (if serialized \<noteq> [] then 1 else 0)
      in if serialized \<noteq> [] \<and> bytes + b > targetChunkBytes opts
         then encode_loop opts ms [m] b (flush_chunk opts serialized chunks)
         else encode_loop opts ms (serialized @ [m]) (bytes + b) chunks)"

definition encodeMessages :: "cache_options \<Rightarrow> jsstring list \<Rightarrow> byte list list" where
  "encodeMessages opts ms = encode_loop opts ms [] 0 []"

text \<open>
  The generator \<open>createSnapshotTranscriptChunks\<close>: the same loop, checking for an abort before each
  message and before the last chunk; what has been yielded stays, and the flag tells of an abort.
\<close>

fun generate_loop ::
  "cache_options \<Rightarrow> (nat \<Rightarrow> bool) \<Rightarrow> nat \<Rightarrow> jsstring list \<Rightarrow> jsstring list \<Rightarrow> nat \<Rightarrow> nat \<Rightarrow> byte list list \<times> bool"
where
  "generate_loop opts aborted k [] serialized bytes index =
     (if aborted k then ([], True)
      else (if serialized = [] then [] else [chunk_line opts index serialized], False))"
| "generate_loop opts aborted k (m # ms) serialized bytes index =
     (if aborted k then ([], True)
      else let b = byteLength m + (if serialized \<noteq> [] then 1 else 0)
           in if serialized \<noteq> [] \<and> bytes + b > targetChunkBytes opts
              then let (cs, e) = generate_loop opts aborted (Suc k) ms [m] b (Suc index)
                   in (chunk_line opts index serialized # cs, e)
              else generate_loop opts aborted (Suc k) ms (serialized @ [m]) (bytes + b) index)"

definition createSnapshotTranscriptChunks :: "cache_options \<Rightarrow> (nat \<Rightarrow> bool) \<Rightarrow> jsstring list \<Rightarrow> byte list list \<times> bool" where
  "createSnapshotTranscriptChunks opts aborted ms =
     (if aborted 0 then ([], True) else generate_loop opts aborted 1 ms [] 0 0)"

section \<open>The cache\<close>

datatype snapshot_chunk = InMemory "byte list" | OnDisk string

text \<open>The files the cache sees, and what a failing call throws and leaves at its path.\<close>

type_synonym files = "string \<Rightarrow> byte list option"

type_synonym io_faults = "string \<Rightarrow> (error \<times> byte list option) option"

text \<open>
  \<open>chunkWaiters\<close> holds for each index the readers whose promise is pending, in order. Releases are
  closures over a flag; here they are the tokens still held.
\<close>

record snapshot_cache =
  sc_options :: cache_options
  sc_chunks :: "snapshot_chunk list"
  sc_cacheDirectory :: "string option"
  sc_totalBytes :: nat
  sc_completed :: bool
  sc_readers :: nat
  sc_held :: "nat set"
  sc_disposeRequested :: bool
  sc_disposed :: bool
  sc_failure :: "error option"
  sc_waiters :: "nat \<Rightarrow> nat list"
  sc_files :: files

text \<open>How the promise of a reader is settled.\<close>

datatype chunk_answer = Chunk "byte list" | NoMore | Failed error

type_synonym answers = "(nat \<times> nat \<times> chunk_answer) list"

definition empty_cache :: "cache_options \<Rightarrow> files \<Rightarrow> snapshot_cache" where
  "empty_cache opts fs =
     \<lparr>sc_options = opts, sc_chunks = [], sc_cacheDirectory = None, sc_totalBytes = 0, sc_completed = False, sc_readers = 0,
      sc_held = {}, sc_disposeRequested = False, sc_disposed = False, sc_failure = None, sc_waiters = (\<lambda>_. []), sc_files = fs\<rparr>"

definition complete :: "snapshot_cache \<Rightarrow> bool" where
  "complete c \<longleftrightarrow> sc_completed c \<and> sc_failure c = None \<and> \<not> sc_disposed c"

definition fileBacked :: "snapshot_cache \<Rightarrow> bool" where
  "fileBacked c \<longleftrightarrow> sc_cacheDirectory c \<noteq> None"

definition readChunk :: "snapshot_cache \<Rightarrow> nat \<Rightarrow> error + byte list" where
  "readChunk c index =
     (if length (sc_chunks c) \<le> index then Inl (Error (''Unknown snapshot transcript chunk: '' @ dec index))
      else case sc_chunks c ! index of
             InMemory b \<Rightarrow> Inr b
           | OnDisk path \<Rightarrow>
               (case sc_files c path of Some b \<Rightarrow> Inr b | None \<Rightarrow> Inl (Error (''ENOENT: '' @ path))))"

subsection \<open>Storing\<close>

definition safe_char :: "char \<Rightarrow> bool" where
  "safe_char c \<longleftrightarrow> c \<in> set ''abcdefghijklmnopqrstuvwxyzABCDEFGHIJKLMNOPQRSTUVWXYZ0123456789_-''"

definition cache_directory :: "cache_options \<Rightarrow> string" where
  "cache_directory opts =
     co_cacheRoot opts @ ''/'' @ map (\<lambda>c. if safe_char c then c else CHR ''_'') (co_snapshotId opts)"

definition chunk_path :: "string \<Rightarrow> nat \<Rightarrow> string" where
  "chunk_path dir index = dir @ ''/'' @ dec index @ ''.jsonl''"

definition write_file :: "io_faults \<Rightarrow> string \<Rightarrow> byte list \<Rightarrow> files \<Rightarrow> error option \<times> files" where
  "write_file io path b fs =
     (case io path of None \<Rightarrow> (None, fs(path := Some b)) | Some (e, left) \<Rightarrow> (Some e, fs(path := left)))"

text \<open>The chunks in memory move to files, one after the other, until a write throws.\<close>

fun spill :: "io_faults \<Rightarrow> string \<Rightarrow> nat \<Rightarrow> snapshot_chunk list \<Rightarrow> files \<Rightarrow> error option \<times> snapshot_chunk list \<times> files" where
  "spill io dir i [] fs = (None, [], fs)"
| "spill io dir i (OnDisk p # cs) fs =
     (let (e, cs', fs') = spill io dir (Suc i) cs fs in (e, OnDisk p # cs', fs'))"
| "spill io dir i (InMemory b # cs) fs =
     (case write_file io (chunk_path dir i) b fs of
        (Some e, fs1) \<Rightarrow> (Some e, InMemory b # cs, fs1)
      | (None, fs1) \<Rightarrow>
          (let (e, cs', fs') = spill io dir (Suc i) cs fs1 in (e, OnDisk (chunk_path dir i) # cs', fs')))"

text \<open>The first part of \<open>storeChunk\<close>: the move to the disk once the limit is passed.\<close>

definition spill_beyond_limit :: "io_faults \<Rightarrow> snapshot_cache \<Rightarrow> error option \<times> snapshot_cache" where
  "spill_beyond_limit io c =
     (let memoryLimit = nullish (co_memoryCacheBytes (sc_options c)) SNAPSHOT_MEMORY_CACHE_BYTES
      in if sc_cacheDirectory c = None \<and> sc_totalBytes c > memoryLimit
         then let dir = cache_directory (sc_options c); c1 = c\<lparr>sc_cacheDirectory := Some dir\<rparr>
              in case io dir of
                   Some (e, left) \<Rightarrow> (Some e, c1)
                 | None \<Rightarrow>
                     (let (e, cs, fs) = spill io dir 0 (sc_chunks c) (sc_files c)
                      in (e, c1\<lparr>sc_chunks := cs, sc_files := fs\<rparr>))
         else (None, c))"

definition push_chunk :: "io_faults \<Rightarrow> byte list \<Rightarrow> snapshot_cache \<Rightarrow> error option \<times> snapshot_cache" where
  "push_chunk io buffer c =
     (case sc_cacheDirectory c of
        None \<Rightarrow> (None, c\<lparr>sc_chunks := sc_chunks c @ [InMemory buffer]\<rparr>)
      | Some dir \<Rightarrow>
          (let path = chunk_path dir (length (sc_chunks c))
           in case write_file io path buffer (sc_files c) of
                (Some e, fs) \<Rightarrow> (Some e, c\<lparr>sc_files := fs\<rparr>)
              | (None, fs) \<Rightarrow> (None, c\<lparr>sc_chunks := sc_chunks c @ [OnDisk path], sc_files := fs\<rparr>)))"

definition storeChunk :: "io_faults \<Rightarrow> byte list \<Rightarrow> snapshot_cache \<Rightarrow> error option \<times> answers \<times> snapshot_cache" where
  "storeChunk io buffer c =
     (case spill_beyond_limit io (c\<lparr>sc_totalBytes := sc_totalBytes c + length buffer\<rparr>) of
        (Some e, c1) \<Rightarrow> (Some e, [], c1)
      | (None, c1) \<Rightarrow>
          (case push_chunk io buffer c1 of
             (Some e, c2) \<Rightarrow> (Some e, [], c2)
           | (None, c2) \<Rightarrow>
               (let index = length (sc_chunks c2) - 1; waiters = sc_waiters c2 index
                in if waiters = [] then (None, [], c2)
                   else case readChunk c2 index of
                          Inl e \<Rightarrow> (Some e, [], c2)
                        | Inr stored \<Rightarrow>
                            (None, map (\<lambda>w. (w, index, Chunk stored)) waiters,
                             c2\<lparr>sc_waiters := (sc_waiters c2)(index := [])\<rparr>))))"

definition appendEncodedChunk :: "io_faults \<Rightarrow> byte list \<Rightarrow> snapshot_cache \<Rightarrow> error option \<times> answers \<times> snapshot_cache" where
  "appendEncodedChunk io buffer c =
     (if sc_completed c \<or> sc_failure c \<noteq> None \<or> sc_disposed c
      then (Some (Error (''Snapshot transcript '' @ co_snapshotId (sc_options c) @ '' is not writable'')), [], c)
      else storeChunk io buffer c)"

subsection \<open>Ending and reading\<close>

text \<open>Settling waiters by index: those of the given indices, with one answer.\<close>

definition settle_waiters :: "(nat \<Rightarrow> bool) \<Rightarrow> chunk_answer \<Rightarrow> nat list \<Rightarrow> snapshot_cache \<Rightarrow> answers \<times> snapshot_cache" where
  "settle_waiters which ans indices c =
     (concat (map (\<lambda>i. map (\<lambda>w. (w, i, ans)) (sc_waiters c i)) (filter which indices)),
      c\<lparr>sc_waiters := (\<lambda>i. if which i then [] else sc_waiters c i)\<rparr>)"

text \<open>\<open>indices\<close> are the keys of the map in the order of insertion.\<close>

definition markComplete :: "nat list \<Rightarrow> snapshot_cache \<Rightarrow> error option \<times> answers \<times> snapshot_cache" where
  "markComplete indices c =
     (if sc_completed c then (None, [], c)
      else if sc_failure c \<noteq> None \<or> sc_disposed c
      then (Some (Error (''Snapshot transcript '' @ co_snapshotId (sc_options c) @ '' cannot be completed'')), [], c)
      else let (as, c1) = settle_waiters (\<lambda>i. length (sc_chunks c) \<le> i) NoMore indices (c\<lparr>sc_completed := True\<rparr>)
           in (None, as, c1))"

definition markFailed :: "nat list \<Rightarrow> error \<Rightarrow> snapshot_cache \<Rightarrow> answers \<times> snapshot_cache" where
  "markFailed indices e c =
     (if sc_failure c \<noteq> None then ([], c)
      else settle_waiters (\<lambda>_. True) (Failed e) indices (c\<lparr>sc_failure := Some e\<rparr>))"

text \<open>A new reader: answered at once, or entered as a waiter.\<close>

definition waitForChunk :: "nat \<Rightarrow> nat \<Rightarrow> snapshot_cache \<Rightarrow> (error + answers) \<times> snapshot_cache" where
  "waitForChunk w index c =
     (case sc_failure c of
        Some e \<Rightarrow> (Inr [(w, index, Failed e)], c)
      | None \<Rightarrow>
          if index < length (sc_chunks c)
          then (case readChunk c index of Inl e \<Rightarrow> (Inl e, c) | Inr b \<Rightarrow> (Inr [(w, index, Chunk b)], c))
          else if sc_completed c then (Inr [(w, index, NoMore)], c)
          else (Inr [], c\<lparr>sc_waiters := (sc_waiters c)(index := sc_waiters c index @ [w])\<rparr>))"

subsection \<open>Readers and disposal\<close>

definition disposeNow :: "nat list \<Rightarrow> snapshot_cache \<Rightarrow> answers \<times> snapshot_cache" where
  "disposeNow indices c =
     (if sc_disposed c then ([], c)
      else let (as, c1) = markFailed indices
                 (Error (''Snapshot transcript '' @ co_snapshotId (sc_options c) @ '' was disposed'')) (c\<lparr>sc_disposed := True\<rparr>);
               c2 = (case sc_cacheDirectory c1 of
                       None \<Rightarrow> c1
                     | Some dir \<Rightarrow> c1\<lparr>sc_files := (\<lambda>p. if take (length dir + 1) p = dir @ ''/'' then None else sc_files c1 p),
                                      sc_cacheDirectory := None\<rparr>)
           in (as, c2\<lparr>sc_chunks := []\<rparr>))"

definition retain_cache :: "nat \<Rightarrow> snapshot_cache \<Rightarrow> error option \<times> snapshot_cache" where
  "retain_cache token c =
     (if sc_disposed c then (Some (Error (''Snapshot transcript '' @ co_snapshotId (sc_options c) @ '' was disposed'')), c)
      else (None, c\<lparr>sc_readers := sc_readers c + 1, sc_held := insert token (sc_held c)\<rparr>))"

text \<open>Calling a release a second time does nothing.\<close>

definition release_cache :: "nat list \<Rightarrow> nat \<Rightarrow> snapshot_cache \<Rightarrow> answers \<times> snapshot_cache" where
  "release_cache indices token c =
     (if token \<notin> sc_held c then ([], c)
      else let c1 = c\<lparr>sc_held := sc_held c - {token}, sc_readers := sc_readers c - 1\<rparr>
           in if sc_readers c1 = 0 \<and> sc_disposeRequested c1 then disposeNow indices c1 else ([], c1))"

definition dispose_cache :: "nat list \<Rightarrow> snapshot_cache \<Rightarrow> answers \<times> snapshot_cache" where
  "dispose_cache indices c =
     (if sc_disposed c \<or> sc_disposeRequested c then ([], c)
      else let c1 = c\<lparr>sc_disposeRequested := True\<rparr>
           in if sc_readers c1 > 0 then ([], c1) else disposeNow indices c1)"

text \<open>The constructor with the messages at hand.\<close>

fun store_all :: "io_faults \<Rightarrow> byte list list \<Rightarrow> snapshot_cache \<Rightarrow> error option \<times> snapshot_cache" where
  "store_all io [] c = (None, c)"
| "store_all io (b # bs) c =
     (case storeChunk io b c of (Some e, as, c1) \<Rightarrow> (Some e, c1) | (None, as, c1) \<Rightarrow> store_all io bs c1)"

definition new_cache :: "io_faults \<Rightarrow> cache_options \<Rightarrow> jsstring list option \<Rightarrow> files \<Rightarrow> error + snapshot_cache" where
  "new_cache io opts messages fs =
     (case messages of
        None \<Rightarrow> Inr (empty_cache opts fs)
      | Some ms \<Rightarrow>
          (case store_all io (encodeMessages opts ms) (empty_cache opts fs) of
             (Some e, c) \<Rightarrow> Inl e
           | (None, c) \<Rightarrow> Inr (c\<lparr>sc_completed := True\<rparr>)))"

end
