(* ===== verification/Snapshot_Cache_Props.thy ===== *)
theory Snapshot_Cache_Props
  imports Snapshot_Cache "HOL-Library.Sublist"
begin

text \<open>
  What a snapshot transcript promises: the chunks hold the messages in order within the size asked
  for, a chunk reads the same from memory and from disk, no reader waits for ever, and the files are
  gone after the last reader.
\<close>

section \<open>Packing\<close>

text \<open>The groups of messages the loop forms.\<close>

fun groups :: "nat \<Rightarrow> jsstring list \<Rightarrow> jsstring list \<Rightarrow> nat \<Rightarrow> jsstring list list" where
  "groups target [] serialized bytes = (if serialized = [] then [] else [serialized])"
| "groups target (m # ms) serialized bytes =
     (let b = byteLength m + (if serialized \<noteq> [] then 1 else 0)
      in if serialized \<noteq> [] \<and> bytes + b > target then serialized # groups target ms [m] b
         else groups target ms (serialized @ [m]) (bytes + b))"

definition lines_from :: "cache_options \<Rightarrow> nat \<Rightarrow> jsstring list list \<Rightarrow> byte list list" where
  "lines_from opts k gs = map (\<lambda>(i, g). chunk_line opts i g) (enumerate k gs)"

lemma lines_from_simps [simp]:
  "lines_from opts k [] = []" "lines_from opts k (g # gs) = chunk_line opts k g # lines_from opts (Suc k) gs"
  by (simp_all add: lines_from_def)

lemma encode_loop_groups:
  "encode_loop opts ms s b chunks = chunks @ lines_from opts (length chunks) (groups (targetChunkBytes opts) ms s b)"
  by (induction ms arbitrary: s b chunks) (simp_all add: flush_chunk_def Let_def)

lemma generate_loop_groups:
  assumes "\<And>i. \<not> aborted i"
  shows "generate_loop opts aborted k ms s b index = (lines_from opts index (groups (targetChunkBytes opts) ms s b), False)"
  using assms by (induction ms arbitrary: k s b index) (simp_all add: Let_def)

lemma generate_loop_prefix:
  "prefix (fst (generate_loop opts aborted k ms s b index)) (lines_from opts index (groups (targetChunkBytes opts) ms s b))"
proof (induction ms arbitrary: k s b index)
  case (Cons m ms)
  have "prefix (fst (generate_loop opts aborted (Suc k) ms s' b' i')) (lines_from opts i' (groups (targetChunkBytes opts) ms s' b'))"
    for s' b' i' by (rule Cons.IH)
  then show ?case by (auto simp: Let_def case_prod_beta)
qed simp

lemma groups_concat: "concat (groups target ms s b) = s @ ms"
  by (induction ms arbitrary: s b) (simp_all add: Let_def)

text \<open>Sizes, counted as the loop counts them: the texts and a comma between them.\<close>

abbreviation group_bytes :: "jsstring list \<Rightarrow> nat" where
  "group_bytes g \<equiv> sum_list (map byteLength g) + (length g - 1)"

lemma groups_bound:
  assumes "s = [] \<and> b = 0 \<or> s \<noteq> [] \<and> group_bytes s \<le> b \<and> (b \<le> target \<or> length s = 1)" "g \<in> set (groups target ms s b)"
  shows "g \<noteq> [] \<and> (group_bytes g \<le> target \<or> length g = 1)"
  using assms
proof (induction ms arbitrary: s b)
  case Nil
  then show ?case by (auto split: if_splits)
next
  case (Cons m ms)
  let ?b = "byteLength m + (if s \<noteq> [] then 1 else 0)"
  show ?case
  proof (cases "s \<noteq> [] \<and> b + ?b > target")
    case True
    with Cons.prems have "g = s \<or> g \<in> set (groups target ms [m] ?b)" by (auto simp: Let_def)
    with True Cons.prems(1) Cons.IH [of "[m]" ?b] show ?thesis by auto
  next
    case False
    with Cons.prems(2) have "g \<in> set (groups target ms (s @ [m]) (b + ?b))" by (auto simp: Let_def)
    moreover have "group_bytes (s @ [m]) \<le> b + ?b" "b + ?b \<le> target \<or> length (s @ [m]) = 1"
      using False Cons.prems(1) by (cases s; auto)+
    ultimately show ?thesis using Cons.IH [of "s @ [m]" "b + ?b"] by simp
  qed
qed

text \<open>
  The chunks of a transcript are the lines of groups of messages: joined in order they are all
  messages, none is empty, and each stays within the target unless it is a single message. The
  generator yields the same chunks, and when it is aborted, a prefix of them.
\<close>

theorem chunks_hold_messages:
  "\<exists>gs. encodeMessages opts ms = lines_from opts 0 gs \<and> concat gs = ms
     \<and> (\<forall>g\<in>set gs. g \<noteq> [] \<and> (group_bytes g \<le> targetChunkBytes opts \<or> length g = 1))
     \<and> prefix (fst (createSnapshotTranscriptChunks opts aborted ms)) (encodeMessages opts ms)
     \<and> ((\<forall>i. \<not> aborted i) \<longrightarrow> createSnapshotTranscriptChunks opts aborted ms = (encodeMessages opts ms, False))"
proof (intro exI conjI)
  let ?gs = "groups (targetChunkBytes opts) ms [] 0"
  show "encodeMessages opts ms = lines_from opts 0 ?gs" by (simp add: encodeMessages_def encode_loop_groups)
  then show "prefix (fst (createSnapshotTranscriptChunks opts aborted ms)) (encodeMessages opts ms)"
    "(\<forall>i. \<not> aborted i) \<longrightarrow> createSnapshotTranscriptChunks opts aborted ms = (encodeMessages opts ms, False)"
    by (simp_all add: createSnapshotTranscriptChunks_def generate_loop_prefix generate_loop_groups)
  show "concat ?gs = ms" by (simp add: groups_concat)
  show "\<forall>g\<in>set ?gs. g \<noteq> [] \<and> (group_bytes g \<le> targetChunkBytes opts \<or> length g = 1)"
    using groups_bound [of "[]" 0 "targetChunkBytes opts" _ ms] by blast
qed

theorem chunks_hold_messages_witness:
  "createSnapshotTranscriptChunks opts (\<lambda>_. False) [[49], [50]] = (encodeMessages opts [[49], [50]], False)"
  using chunks_hold_messages [of opts "[[49], [50]]" "\<lambda>_. False"] by auto

section \<open>Paths of chunks\<close>

definition dec_digits_value :: "string \<Rightarrow> nat" where
  "dec_digits_value s = foldl (\<lambda>v c. 10 * v + (of_char c - 48)) 0 s"

lemma digits_value_dec_digits: "n < f \<Longrightarrow> dec_digits_value (dec_digits f n) = n"
proof (induction f n rule: dec_digits.induct)
  case (2 f n)
  show ?case
  proof (cases "n < 10")
    case True
    then show ?thesis by (simp add: dec_digits_value_def of_char_of)
  next
    case False
    with 2 have "dec_digits_value (dec_digits f (n div 10)) = n div 10" by simp
    moreover have "(48 + n mod 10) mod 256 = 48 + n mod 10" by simp
    ultimately show ?thesis using False by (simp add: dec_digits_value_def of_char_of)
  qed
qed simp

lemma dec_inj: "dec m = dec n \<Longrightarrow> m = n"
  unfolding dec_def by (metis digits_value_dec_digits lessI)

lemma chunk_path_inj: "chunk_path dir i = chunk_path dir j \<longleftrightarrow> i = j"
  by (auto simp: chunk_path_def dest: dec_inj)

section \<open>What a chunk reads as\<close>

fun chunk_bytes :: "files \<Rightarrow> snapshot_chunk \<Rightarrow> byte list option" where
  "chunk_bytes fs (InMemory b) = Some b"
| "chunk_bytes fs (OnDisk p) = fs p"

text \<open>
  The chunks read as \<open>bs\<close>: a chunk on disk is in the file of its index in the directory of the cache.
\<close>

definition holds :: "byte list list \<Rightarrow> string option \<Rightarrow> snapshot_chunk list \<Rightarrow> files \<Rightarrow> bool" where
  "holds bs dir cs fs \<longleftrightarrow> map (chunk_bytes fs) cs = map Some bs
     \<and> (\<forall>i < length cs. \<forall>p. cs ! i = OnDisk p \<longrightarrow> (\<exists>d. dir = Some d \<and> p = chunk_path d i))"

lemma holds_length: "holds bs dir cs fs \<Longrightarrow> length cs = length bs"
  unfolding holds_def by (metis length_map)

lemma holds_read:
  assumes "holds bs (sc_cacheDirectory c) (sc_chunks c) (sc_files c)" "i < length bs"
  shows "readChunk c i = Inr (bs ! i)"
proof -
  have "chunk_bytes (sc_files c) (sc_chunks c ! i) = Some (bs ! i)"
    using assms holds_length [OF assms(1)] unfolding holds_def by (metis nth_map)
  then show ?thesis
    using assms(2) holds_length [OF assms(1)] by (cases "sc_chunks c ! i") (auto simp: readChunk_def)
qed

text \<open>Moving chunks to files changes none of them, also when a write fails half-way.\<close>

lemma spill_holds:
  assumes "spill io dir i cs fs = (e, cs', fs')" "map (chunk_bytes fs) cs = map Some bs"
    and "\<And>k p. k < length cs \<Longrightarrow> cs ! k \<noteq> OnDisk p"
  shows "map (chunk_bytes fs') cs' = map Some bs \<and> length cs' = length cs
    \<and> (\<forall>k < length cs'. \<forall>p. cs' ! k = OnDisk p \<longrightarrow> p = chunk_path dir (i + k))
    \<and> (\<forall>p. (\<forall>k. p \<noteq> chunk_path dir (i + k)) \<longrightarrow> fs' p = fs p)"
  using assms
proof (induction io dir i cs fs arbitrary: e cs' fs' bs rule: spill.induct)
  case (2 io dir i p cs fs)
  have False using "2.prems"(3) [of 0 p] by simp
  then show ?case ..
next
  case (3 io dir i b cs fs)
  obtain f fs1 where w: "write_file io (chunk_path dir i) b fs = (f, fs1)" by force
  from "3.prems"(2) obtain bs' where bs: "bs = b # bs'" "map (chunk_bytes fs) cs = map Some bs'" by (cases bs) auto
  have mem: "cs ! k \<noteq> OnDisk p" if "k < length cs" for k p using "3.prems"(3) [of "Suc k" p] that by simp
  have fs1: "fs1 p = fs p" if "p \<noteq> chunk_path dir i" for p
    using w that by (auto simp: write_file_def split: option.splits prod.splits)
  have keep: "map (chunk_bytes fs1) cs = map Some bs'"
  proof -
    have "chunk_bytes fs1 c = chunk_bytes fs c" if "c \<in> set cs" for c
      using mem that by (cases c) (auto simp: in_set_conv_nth)
    then show ?thesis using bs(2) by (metis (no_types, lifting) map_cong)
  qed
  show ?case
  proof (cases f)
    case (Some err)
    with w "3.prems"(1) have "cs' = InMemory b # cs" "fs' = fs1" by simp_all
    moreover have "fs1 p = fs p" if "\<forall>k. p \<noteq> chunk_path dir (i + k)" for p using that [rule_format, of 0] by (intro fs1) simp
    ultimately show ?thesis using keep mem bs(1) by (auto simp: nth_Cons split: nat.splits)
  next
    case None
    obtain e2 cs2 fs2 where s: "spill io dir (Suc i) cs fs1 = (e2, cs2, fs2)" by (metis prod_cases3)
    from None w s "3.prems"(1) have r: "cs' = OnDisk (chunk_path dir i) # cs2" "fs' = fs2" by simp_all
    note IH = "3.IH" [OF w [symmetric] None s keep mem]
    have "chunk_path dir i \<noteq> chunk_path dir (Suc i + k)" for k by (simp add: chunk_path_inj)
    moreover have "fs1 (chunk_path dir i) = Some b" using w None by (auto simp: write_file_def split: option.splits)
    ultimately have "fs2 (chunk_path dir i) = Some b" using IH by metis
    moreover have "fs2 p = fs p" if "\<forall>k. p \<noteq> chunk_path dir (i + k)" for p
      using IH fs1 [of p] that [rule_format, of 0] that [rule_format, of "Suc _"] by simp
    ultimately show ?thesis using IH r bs(1) by (auto simp: nth_Cons split: nat.splits)
  qed
qed simp

section \<open>A cache in use\<close>

text \<open>The keys of the map of waiters.\<close>

definition covers_waiting :: "snapshot_cache \<Rightarrow> nat list \<Rightarrow> bool" where
  "covers_waiting c indices \<longleftrightarrow> (\<forall>i. sc_waiters c i \<noteq> [] \<longrightarrow> i \<in> set indices)"

text \<open>
  The chunks appended, the reads asked for, each reader with its index, and the answers given.
  Writes may fail at any time; a retained cache is released with the token it gave.
\<close>

inductive cache_run :: "cache_options \<Rightarrow> byte list list \<Rightarrow> (nat \<times> nat) list \<Rightarrow> answers \<Rightarrow> snapshot_cache \<Rightarrow> bool"
  for opts
where
  run_new: "cache_run opts [] [] [] (empty_cache opts fs)"
| run_append: "cache_run opts bs asked as c \<Longrightarrow> appendEncodedChunk io b c = (e, xs, c')
    \<Longrightarrow> cache_run opts (if e = None then bs @ [b] else bs) asked (as @ xs) c'"
| run_complete: "cache_run opts bs asked as c \<Longrightarrow> covers_waiting c indices \<Longrightarrow> markComplete indices c = (e, xs, c')
    \<Longrightarrow> cache_run opts bs asked (as @ xs) c'"
| run_fail: "cache_run opts bs asked as c \<Longrightarrow> covers_waiting c indices \<Longrightarrow> markFailed indices err c = (xs, c')
    \<Longrightarrow> cache_run opts bs asked (as @ xs) c'"
| run_wait: "cache_run opts bs asked as c \<Longrightarrow> waitForChunk w i c = (Inr xs, c')
    \<Longrightarrow> cache_run opts bs (asked @ [(w, i)]) (as @ xs) c'"
| run_retain: "cache_run opts bs asked as c \<Longrightarrow> token \<notin> sc_held c \<Longrightarrow> retain_cache token c = (e, c')
    \<Longrightarrow> cache_run opts bs asked as c'"
| run_release: "cache_run opts bs asked as c \<Longrightarrow> covers_waiting c indices \<Longrightarrow> release_cache indices token c = (xs, c')
    \<Longrightarrow> cache_run opts bs asked (as @ xs) c'"
| run_dispose: "cache_run opts bs asked as c \<Longrightarrow> covers_waiting c indices \<Longrightarrow> dispose_cache indices c = (xs, c')
    \<Longrightarrow> cache_run opts bs asked (as @ xs) c'"

subsection \<open>Invariant\<close>

fun answer_ok :: "byte list list \<Rightarrow> snapshot_cache \<Rightarrow> nat \<times> nat \<times> chunk_answer \<Rightarrow> bool" where
  "answer_ok bs c (w, i, Chunk b) \<longleftrightarrow> i < length bs \<and> b = bs ! i"
| "answer_ok bs c (w, i, NoMore) \<longleftrightarrow> sc_completed c \<and> length bs \<le> i"
| "answer_ok bs c (w, i, Failed e) \<longleftrightarrow> sc_failure c \<noteq> None"

definition storage_ok :: "byte list list \<Rightarrow> snapshot_cache \<Rightarrow> bool" where
  "storage_ok bs c \<longleftrightarrow> (if sc_disposed c then sc_chunks c = [] else holds bs (sc_cacheDirectory c) (sc_chunks c) (sc_files c))"

definition waiters_ok :: "snapshot_cache \<Rightarrow> bool" where
  "waiters_ok c \<longleftrightarrow> (\<forall>i < length (sc_chunks c). sc_waiters c i = [])
     \<and> (sc_completed c \<or> sc_failure c \<noteq> None \<longrightarrow> (\<forall>i. sc_waiters c i = []))"

definition readers_ok :: "snapshot_cache \<Rightarrow> bool" where
  "readers_ok c \<longleftrightarrow> finite (sc_held c) \<and> sc_readers c = card (sc_held c)
     \<and> (sc_disposed c \<longrightarrow> sc_failure c \<noteq> None \<and> sc_disposeRequested c \<and> sc_held c = {})"

definition answers_ok :: "byte list list \<Rightarrow> (nat \<times> nat) list \<Rightarrow> answers \<Rightarrow> snapshot_cache \<Rightarrow> bool" where
  "answers_ok bs asked as c \<longleftrightarrow> (\<forall>a\<in>set as. answer_ok bs c a)
     \<and> (\<forall>(w, i)\<in>set asked. w \<in> set (sc_waiters c i) \<or> (\<exists>a. (w, i, a) \<in> set as))"

definition memory_bytes :: "snapshot_chunk list \<Rightarrow> nat" where
  "memory_bytes cs = sum_list (map (\<lambda>c. case c of InMemory b \<Rightarrow> length b | OnDisk p \<Rightarrow> 0) cs)"

definition memory_limit :: "cache_options \<Rightarrow> nat" where
  "memory_limit opts = nullish (co_memoryCacheBytes opts) SNAPSHOT_MEMORY_CACHE_BYTES"

definition memory_ok :: "cache_options \<Rightarrow> snapshot_cache \<Rightarrow> bool" where
  "memory_ok opts c \<longleftrightarrow> sc_options c = opts \<and> memory_bytes (sc_chunks c) \<le> memory_limit opts
     \<and> (sc_cacheDirectory c = None \<longrightarrow> memory_bytes (sc_chunks c) \<le> sc_totalBytes c)"

definition cache_ok :: "cache_options \<Rightarrow> byte list list \<Rightarrow> (nat \<times> nat) list \<Rightarrow> answers \<Rightarrow> snapshot_cache \<Rightarrow> bool" where
  "cache_ok opts bs asked as c \<longleftrightarrow>
     storage_ok bs c \<and> waiters_ok c \<and> readers_ok c \<and> answers_ok bs asked as c \<and> memory_ok opts c"

lemma memory_bytes_app [simp]: "memory_bytes (xs @ ys) = memory_bytes xs + memory_bytes ys"
  by (simp add: memory_bytes_def)

lemma memory_bytes_simps [simp]: "memory_bytes [InMemory b] = length b" "memory_bytes [OnDisk p] = 0" "memory_bytes [] = 0"
  by (simp_all add: memory_bytes_def)

lemma spill_memory: "spill io dir i cs fs = (e, cs', fs') \<Longrightarrow> memory_bytes cs' \<le> memory_bytes cs"
proof (induction io dir i cs fs arbitrary: e cs' fs' rule: spill.induct)
  case (3 io dir i b cs fs)
  then show ?case
    by (auto simp: memory_bytes_def split: prod.splits option.splits) (metis trans_le_add2)
qed (auto simp: memory_bytes_def split: prod.splits)

subsection \<open>Storing keeps it\<close>

lemma spill_beyond_limit_ok:
  assumes "spill_beyond_limit io c = (e, c')" "holds bs (sc_cacheDirectory c) (sc_chunks c) (sc_files c)"
    and "sc_options c = opts" "memory_bytes (sc_chunks c) \<le> memory_limit opts"
  shows "holds bs (sc_cacheDirectory c') (sc_chunks c') (sc_files c') \<and> memory_bytes (sc_chunks c') \<le> memory_limit opts
    \<and> length (sc_chunks c') = length (sc_chunks c)
    \<and> (e = None \<and> sc_cacheDirectory c' = None \<longrightarrow> sc_totalBytes c \<le> memory_limit opts \<and> c' = c)
    \<and> (sc_cacheDirectory c' = None \<longrightarrow> c' = c)
    \<and> c' = c\<lparr>sc_cacheDirectory := sc_cacheDirectory c', sc_chunks := sc_chunks c', sc_files := sc_files c'\<rparr>"
proof (cases "sc_cacheDirectory c = None \<and> sc_totalBytes c > memory_limit opts")
  case False
  with assms show ?thesis by (auto simp: spill_beyond_limit_def memory_limit_def)
next
  case True
  let ?dir = "cache_directory (sc_options c)"
  show ?thesis
  proof (cases "io ?dir")
    case (Some x)
    with True assms have "c' = c\<lparr>sc_cacheDirectory := Some ?dir\<rparr>" "e \<noteq> None"
      by (auto simp: spill_beyond_limit_def memory_limit_def split: prod.splits)
    with assms(2-4) True show ?thesis by (auto simp: holds_def)
  next
    case None
    obtain e1 cs1 fs1 where s: "spill io ?dir 0 (sc_chunks c) (sc_files c) = (e1, cs1, fs1)" by (metis prod_cases3)
    with True None assms have c': "c' = c\<lparr>sc_cacheDirectory := Some ?dir, sc_chunks := cs1, sc_files := fs1\<rparr>"
      by (auto simp: spill_beyond_limit_def memory_limit_def)
    have "sc_chunks c ! k \<noteq> OnDisk p" if "k < length (sc_chunks c)" for k p
      using assms(2) True that by (auto simp: holds_def)
    from spill_holds [OF s _ this] assms(2) have "holds bs (Some ?dir) cs1 fs1" "length cs1 = length (sc_chunks c)"
      by (auto simp: holds_def)
    with c' spill_memory [OF s] assms(4) show ?thesis by simp
  qed
qed

lemma push_chunk_ok:
  assumes "push_chunk io b c = (e, c')" "holds bs (sc_cacheDirectory c) (sc_chunks c) (sc_files c)"
    and "memory_bytes (sc_chunks c) \<le> memory_limit opts"
    and "sc_cacheDirectory c = None \<Longrightarrow> memory_bytes (sc_chunks c) + length b \<le> sc_totalBytes c \<and> sc_totalBytes c \<le> memory_limit opts"
  shows "holds (if e = None then bs @ [b] else bs) (sc_cacheDirectory c') (sc_chunks c') (sc_files c')
    \<and> memory_bytes (sc_chunks c') \<le> memory_limit opts
    \<and> (sc_cacheDirectory c' = None \<longrightarrow> memory_bytes (sc_chunks c') \<le> sc_totalBytes c')
    \<and> length (sc_chunks c') = length (sc_chunks c) + (if e = None then 1 else 0)
    \<and> c' = c\<lparr>sc_chunks := sc_chunks c', sc_files := sc_files c'\<rparr>"
proof (cases "sc_cacheDirectory c")
  case None
  with assms have "e = None" "c' = c\<lparr>sc_chunks := sc_chunks c @ [InMemory b]\<rparr>" by (auto simp: push_chunk_def)
  with None assms(2-4) show ?thesis by (auto simp: holds_def nth_append)
next
  case (Some dir)
  let ?path = "chunk_path dir (length (sc_chunks c))"
  have other: "chunk_bytes (fs(?path := x)) k = chunk_bytes fs k" if "k \<in> set (sc_chunks c)" for fs x k
  proof -
    from that obtain i where i: "i < length (sc_chunks c)" "sc_chunks c ! i = k" by (auto simp: in_set_conv_nth)
    show ?thesis
    proof (cases k)
      case (OnDisk p)
      with i assms(2) Some have "p = chunk_path dir i" by (auto simp: holds_def)
      with OnDisk i(1) show ?thesis by (simp add: chunk_path_inj)
    qed simp
  qed
  then have keep: "map (chunk_bytes ((sc_files c)(?path := x))) (sc_chunks c) = map Some bs" for x
    using assms(2) by (metis (no_types, lifting) holds_def map_cong)
  show ?thesis
  proof (cases "io ?path")
    case None
    with Some assms(1) have "e = None" "c' = c\<lparr>sc_chunks := sc_chunks c @ [OnDisk ?path], sc_files := (sc_files c)(?path := Some b)\<rparr>"
      by (auto simp: push_chunk_def write_file_def Let_def)
    with Some assms(2,3) keep show ?thesis by (auto simp: holds_def nth_append less_Suc_eq)
  next
    case f: (Some x)
    obtain err left where "x = (err, left)" by force
    with f Some assms(1) have "e = Some err" "c' = c\<lparr>sc_files := (sc_files c)(?path := left)\<rparr>"
      by (auto simp: push_chunk_def write_file_def Let_def)
    with Some assms(2,3) keep show ?thesis by (auto simp: holds_def)
  qed
qed

lemma answers_same:
  assumes "answers_ok bs asked as c" "sc_waiters c' = sc_waiters c" "sc_completed c' = sc_completed c" "sc_failure c' = sc_failure c"
  shows "answers_ok bs asked as c'"
proof -
  have "answer_ok bs c' a = answer_ok bs c a" for a
    using assms(3,4) by (cases a; cases "snd (snd a)") auto
  with assms show ?thesis by (simp add: answers_ok_def)
qed

text \<open>The fields that storing leaves alone.\<close>

definition same_rest :: "snapshot_cache \<Rightarrow> snapshot_cache \<Rightarrow> bool" where
  "same_rest d c \<longleftrightarrow> sc_waiters d = sc_waiters c \<and> sc_completed d = sc_completed c \<and> sc_failure d = sc_failure c
     \<and> sc_held d = sc_held c \<and> sc_readers d = sc_readers c \<and> sc_disposed d = sc_disposed c
     \<and> sc_disposeRequested d = sc_disposeRequested c \<and> sc_options d = sc_options c"

lemma same_rest_spill: "d = c\<lparr>sc_cacheDirectory := x, sc_chunks := y, sc_files := z\<rparr> \<Longrightarrow> same_rest d c"
  by (simp add: same_rest_def)

lemma same_rest_push: "d = c\<lparr>sc_chunks := y, sc_files := z\<rparr> \<Longrightarrow> same_rest d c"
  by (simp add: same_rest_def)

lemma append_ok:
  assumes ok: "cache_ok opts bs asked as c" and run: "appendEncodedChunk io b c = (e, xs, c')"
  shows "cache_ok opts (if e = None then bs @ [b] else bs) asked (as @ xs) c'"
proof (cases "sc_completed c \<or> sc_failure c \<noteq> None \<or> sc_disposed c")
  case True
  with run ok show ?thesis by (auto simp: appendEncodedChunk_def)
next
  case False
  let ?c = "c\<lparr>sc_totalBytes := sc_totalBytes c + length b\<rparr>"
  have held: "holds bs (sc_cacheDirectory c) (sc_chunks c) (sc_files c)" and mem: "memory_ok opts c"
    using ok False by (simp_all add: cache_ok_def storage_ok_def)
  obtain e1 c1 where s: "spill_beyond_limit io ?c = (e1, c1)" by force
  have f1: "holds bs (sc_cacheDirectory c1) (sc_chunks c1) (sc_files c1)" "memory_bytes (sc_chunks c1) \<le> memory_limit opts"
    "length (sc_chunks c1) = length (sc_chunks c)"
    "e1 = None \<and> sc_cacheDirectory c1 = None \<longrightarrow> sc_totalBytes c + length b \<le> memory_limit opts \<and> c1 = ?c"
    "sc_cacheDirectory c1 = None \<longrightarrow> c1 = ?c"
    "c1 = ?c\<lparr>sc_cacheDirectory := sc_cacheDirectory c1, sc_chunks := sc_chunks c1, sc_files := sc_files c1\<rparr>"
    using spill_beyond_limit_ok [OF s, of bs opts] held mem by (simp_all add: memory_ok_def)
  have rest: "waiters_ok c" "readers_ok c" "answers_ok bs asked as c" using ok by (simp_all add: cache_ok_def)
  have keep: "cache_ok opts bs asked as d" if "storage_ok bs d" "memory_ok opts d" "length (sc_chunks d) = length (sc_chunks c)"
    "same_rest d c" for d
    using that rest answers_same [OF rest(3), of d] by (simp add: cache_ok_def waiters_ok_def readers_ok_def same_rest_def)
  have same1: "same_rest c1 c" using same_rest_spill [OF f1(6)] by (simp add: same_rest_def)
  show ?thesis
  proof (cases e1)
    case (Some err)
    with run False s have "e = Some err" "xs = []" "c' = c1" by (simp_all add: appendEncodedChunk_def storeChunk_def)
    moreover have "cache_ok opts bs asked as c1"
    proof (rule keep)
      show "storage_ok bs c1" "memory_ok opts c1"
        using f1(1,2,5) same1 False mem by (auto simp: storage_ok_def memory_ok_def same_rest_def)
    qed (use f1(3) same1 in simp_all)
    ultimately show ?thesis by simp
  next
    case None
    obtain e2 c2 where p: "push_chunk io b c1 = (e2, c2)" by force
    have "sc_cacheDirectory c1 = None \<Longrightarrow> memory_bytes (sc_chunks c1) + length b \<le> sc_totalBytes c1 \<and> sc_totalBytes c1 \<le> memory_limit opts"
      using f1(4,5) None mem by (auto simp: memory_ok_def)
    note f2 = push_chunk_ok [OF p f1(1,2) this]
    have same2: "same_rest c2 c" using same_rest_push [OF f2 [THEN conjunct2, THEN conjunct2, THEN conjunct2, THEN conjunct2]] same1
      by (simp add: same_rest_def)
    then have same: "sc_waiters c2 = sc_waiters c" "sc_completed c2 = sc_completed c" "sc_failure c2 = sc_failure c"
      "sc_held c2 = sc_held c" "sc_readers c2 = sc_readers c" "sc_disposed c2 = sc_disposed c"
      "sc_disposeRequested c2 = sc_disposeRequested c" "sc_options c2 = sc_options c" by (simp_all add: same_rest_def)
    note f2 = f2 [THEN conjunct1] f2 [THEN conjunct2, THEN conjunct1] f2 [THEN conjunct2, THEN conjunct2, THEN conjunct1]
      f2 [THEN conjunct2, THEN conjunct2, THEN conjunct2, THEN conjunct1]
    show ?thesis
    proof (cases e2)
      case (Some err)
      with run False s None p have "e = Some err" "xs = []" "c' = c2" by (simp_all add: appendEncodedChunk_def storeChunk_def)
      moreover have "cache_ok opts bs asked as c2"
      proof (rule keep)
        show "storage_ok bs c2" "memory_ok opts c2"
          using f2(1-3) Some same False mem by (simp_all add: storage_ok_def memory_ok_def)
      qed (use f1(3) f2(4) Some same2 in simp_all)
      ultimately show ?thesis by simp
    next
      case stored: None
      let ?i = "length (sc_chunks c)"
      have len: "length (sc_chunks c2) = Suc ?i" "?i = length bs" using f2 stored f1(3) holds_length [OF held] by simp_all
      have "readChunk c2 ?i = Inr b" using holds_read [of "bs @ [b]" c2 ?i] f2 stored len by simp
      then have r: "e = None" "xs = map (\<lambda>w. (w, ?i, Chunk b)) (sc_waiters c ?i)"
        "c' = (if sc_waiters c ?i = [] then c2 else c2\<lparr>sc_waiters := (sc_waiters c2)(?i := [])\<rparr>)"
        using run False s None p stored len(1) same(1)
        by (auto simp: appendEncodedChunk_def storeChunk_def Let_def split: if_splits)
      have w: "sc_waiters c' = (sc_waiters c)(?i := [])" using r(3) same(1) by auto
      have "storage_ok (bs @ [b]) c'" "memory_ok opts c'" "readers_ok c'"
        using r(3) f2 stored same mem False rest(2) by (auto simp: storage_ok_def memory_ok_def readers_ok_def)
      moreover have "waiters_ok c'"
        using r(3) len same rest(1) False w by (auto simp: waiters_ok_def less_Suc_eq)
      moreover have "answers_ok (bs @ [b]) asked (as @ xs) c'"
      proof -
        have "answer_ok (bs @ [b]) c' a" if "answer_ok bs c a" for a
          using that False r(3) same by (cases a; cases "snd (snd a)") (auto simp: nth_append)
        then have "\<forall>a\<in>set as. answer_ok (bs @ [b]) c' a" using rest(3) by (auto simp: answers_ok_def)
        moreover have "\<forall>a\<in>set xs. answer_ok (bs @ [b]) c' a" using r(2) len(2) by auto
        moreover have "\<forall>(w, i)\<in>set asked. w \<in> set (sc_waiters c' i) \<or> (\<exists>a. (w, i, a) \<in> set (as @ xs))"
          using rest(3) r(2) w by (fastforce simp: answers_ok_def)
        ultimately show ?thesis by (auto simp: answers_ok_def)
      qed
      ultimately show ?thesis using r(1) by (simp add: cache_ok_def)
    qed
  qed
qed

subsection \<open>The other operations keep it\<close>

text \<open>Settling all waiters that are no longer to wait answers each of them.\<close>

lemma settle_ok:
  assumes ok: "cache_ok opts bs asked as c0" and cov: "covers_waiting c0 indices" and run: "settle_waiters which ans indices c = (xs, c')"
    and c: "sc_waiters c = sc_waiters c0" "sc_chunks c = sc_chunks c0" "sc_files c = sc_files c0" "sc_cacheDirectory c = sc_cacheDirectory c0"
      "sc_options c = sc_options c0" "sc_totalBytes c = sc_totalBytes c0" "sc_disposed c = sc_disposed c0"
    and readers: "readers_ok c"
    and all: "\<And>i. sc_waiters c0 i \<noteq> [] \<Longrightarrow> which i"
    and old: "\<And>a. answer_ok bs c0 a \<Longrightarrow> answer_ok bs c a" and new: "\<And>w i. which i \<Longrightarrow> answer_ok bs c (w, i, ans)"
  shows "cache_ok opts bs asked (as @ xs) c'"
proof -
  have "(\<lambda>i. if which i then [] else sc_waiters c i) = (\<lambda>_. [])" using c(1) all by fastforce
  then have c': "c' = c\<lparr>sc_waiters := (\<lambda>_. [])\<rparr>" using run by (simp add: settle_waiters_def)
  have xs: "xs = concat (map (\<lambda>i. map (\<lambda>w. (w, i, ans)) (sc_waiters c0 i)) (filter which indices))"
    using run c(1) by (simp add: settle_waiters_def)
  have same: "answer_ok bs c' a = answer_ok bs c a" for a
    unfolding c' by (cases a; cases "snd (snd a)") auto
  have "answers_ok bs asked (as @ xs) c'"
  proof -
    have "\<forall>a\<in>set (as @ xs). answer_ok bs c' a"
      using ok old new unfolding same xs cache_ok_def answers_ok_def by auto
    moreover have "\<exists>a. (w, i, a) \<in> set (as @ xs)" if "(w, i) \<in> set asked" for w i
    proof -
      from ok that have "w \<in> set (sc_waiters c0 i) \<or> (\<exists>a. (w, i, a) \<in> set as)" by (auto simp: cache_ok_def answers_ok_def)
      then show ?thesis
      proof
        assume w: "w \<in> set (sc_waiters c0 i)"
        then have ne: "sc_waiters c0 i \<noteq> []" by auto
        then have "which i" "i \<in> set indices" using all cov by (simp_all add: covers_waiting_def)
        with w have "(w, i, ans) \<in> set xs" unfolding xs by auto
        then show ?thesis by auto
      qed auto
    qed
    ultimately show ?thesis by (auto simp: answers_ok_def)
  qed
  moreover have "storage_ok bs c'" "memory_ok opts c'" "waiters_ok c'" "readers_ok c'"
    using ok c readers unfolding c' by (simp_all add: cache_ok_def storage_ok_def memory_ok_def waiters_ok_def readers_ok_def)
  ultimately show ?thesis by (simp add: cache_ok_def)
qed

lemma waiting_beyond: "waiters_ok c \<Longrightarrow> sc_waiters c i \<noteq> [] \<Longrightarrow> length (sc_chunks c) \<le> i"
  by (meson not_le waiters_ok_def)

lemma markComplete_ok:
  assumes ok: "cache_ok opts bs asked as c" and cov: "covers_waiting c indices" and run: "markComplete indices c = (e, xs, c')"
  shows "cache_ok opts bs asked (as @ xs) c'"
proof (cases "sc_completed c \<or> sc_failure c \<noteq> None \<or> sc_disposed c")
  case True
  with run have "xs = []" "c' = c" by (auto simp: markComplete_def split: if_splits)
  with ok show ?thesis by simp
next
  case False
  obtain ys d where s: "settle_waiters (\<lambda>i. length (sc_chunks c) \<le> i) NoMore indices (c\<lparr>sc_completed := True\<rparr>) = (ys, d)" by force
  with False run have r: "xs = ys" "c' = d" by (simp_all add: markComplete_def)
  have len: "length (sc_chunks c) = length bs"
    using ok False holds_length by (auto simp: cache_ok_def storage_ok_def)
  show ?thesis unfolding r
  proof (rule settle_ok [OF ok cov s])
    show "readers_ok (c\<lparr>sc_completed := True\<rparr>)" using ok by (simp add: cache_ok_def readers_ok_def)
    show "answer_ok bs (c\<lparr>sc_completed := True\<rparr>) a" if "answer_ok bs c a" for a
      using that by (cases a; cases "snd (snd a)") auto
    show "length (sc_chunks c) \<le> i" if "sc_waiters c i \<noteq> []" for i
      using ok that by (auto simp: cache_ok_def intro: waiting_beyond)
  qed (simp_all add: len)
qed

lemma markFailed_ok:
  assumes ok: "cache_ok opts bs asked as c" and cov: "covers_waiting c indices" and run: "markFailed indices err c = (xs, c')"
  shows "cache_ok opts bs asked (as @ xs) c' \<and> sc_failure c' \<noteq> None"
proof (cases "sc_failure c")
  case None
  obtain ys d where s: "settle_waiters (\<lambda>_. True) (Failed err) indices (c\<lparr>sc_failure := Some err\<rparr>) = (ys, d)" by force
  with None run have r: "xs = ys" "c' = d" by (simp_all add: markFailed_def)
  have "cache_ok opts bs asked (as @ ys) d"
  proof (rule settle_ok [OF ok cov s])
    show "readers_ok (c\<lparr>sc_failure := Some err\<rparr>)" using ok by (simp add: cache_ok_def readers_ok_def)
    show "answer_ok bs (c\<lparr>sc_failure := Some err\<rparr>) a" if "answer_ok bs c a" for a
      using that by (cases a; cases "snd (snd a)") auto
  qed simp_all
  moreover have "sc_failure d = Some err" using s by (auto simp: settle_waiters_def)
  ultimately show ?thesis unfolding r by simp
qed (use assms in \<open>auto simp: markFailed_def\<close>)

lemma markFailed_fields:
  "markFailed indices err c = (xs, c') \<Longrightarrow> sc_disposed c' = sc_disposed c \<and> sc_held c' = sc_held c
    \<and> sc_readers c' = sc_readers c \<and> sc_disposeRequested c' = sc_disposeRequested c \<and> sc_options c' = sc_options c
    \<and> sc_cacheDirectory c' = sc_cacheDirectory c \<and> sc_chunks c' = sc_chunks c \<and> sc_files c' = sc_files c"
  by (auto simp: markFailed_def settle_waiters_def split: if_splits)

lemma markFailed_disposed:
  "markFailed indices err (c\<lparr>sc_disposed := b\<rparr>) = (fst (markFailed indices err c), (snd (markFailed indices err c))\<lparr>sc_disposed := b\<rparr>)"
  by (simp add: markFailed_def settle_waiters_def)

text \<open>Disposal: every reader has an answer, the chunks are dropped, the files removed.\<close>

lemma disposeNow_ok:
  assumes ok: "cache_ok opts bs asked as c" and cov: "covers_waiting c indices" and run: "disposeNow indices c = (xs, c')"
    and idle: "sc_held c = {}" "sc_disposeRequested c"
  shows "cache_ok opts bs asked (as @ xs) c'"
proof (cases "sc_disposed c")
  case False
  let ?err = "Error (''Snapshot transcript '' @ co_snapshotId (sc_options c) @ '' was disposed'')"
  obtain ys d where f: "markFailed indices ?err c = (ys, d)" by force
  from markFailed_ok [OF ok cov f] have d: "cache_ok opts bs asked (as @ ys) d" "sc_failure d \<noteq> None" by simp_all
  have w: "\<forall>i. sc_waiters d i = []" using d by (auto simp: cache_ok_def waiters_ok_def)
  note same = markFailed_fields [OF f]
  have m: "markFailed indices ?err (c\<lparr>sc_disposed := True\<rparr>) = (ys, d\<lparr>sc_disposed := True\<rparr>)"
    using f by (simp only: markFailed_disposed fst_conv snd_conv)
  obtain fs' dir' where r: "xs = ys" "c' = d\<lparr>sc_disposed := True, sc_files := fs', sc_cacheDirectory := dir', sc_chunks := []\<rparr>"
  proof (cases "sc_cacheDirectory d")
    case None
    then have "d\<lparr>sc_disposed := True, sc_files := sc_files d, sc_cacheDirectory := None, sc_chunks := []\<rparr> = d\<lparr>sc_disposed := True, sc_chunks := []\<rparr>"
      by (cases d) simp
    moreover from None run False m have "xs = ys" "c' = d\<lparr>sc_disposed := True, sc_chunks := []\<rparr>"
      by (simp_all add: disposeNow_def Let_def)
    ultimately show thesis using that by metis
  next
    case (Some dir)
    with that [of None "\<lambda>p. if take (length dir + 1) p = dir @ ''/'' then None else sc_files (d\<lparr>sc_disposed := True\<rparr>) p"] run False m
    show thesis by (simp add: disposeNow_def Let_def)
  qed
  have "answers_ok bs asked (as @ ys) c'"
    by (rule answers_same [where c = d]) (use d(1) in \<open>simp_all add: r(2) cache_ok_def\<close>)
  then show ?thesis
    using d same idle w unfolding r(2) by (simp add: r(1) cache_ok_def storage_ok_def waiters_ok_def readers_ok_def memory_ok_def)
qed (use assms in \<open>auto simp: disposeNow_def\<close>)

lemma wait_ok:
  assumes ok: "cache_ok opts bs asked as c" and run: "waitForChunk w i c = (Inr xs, c')"
  shows "cache_ok opts bs (asked @ [(w, i)]) (as @ xs) c'"
proof (cases "sc_failure c = None \<and> length (sc_chunks c) \<le> i \<and> \<not> sc_completed c")
  case True
  with run have r: "xs = []" "c' = c\<lparr>sc_waiters := (sc_waiters c)(i := sc_waiters c i @ [w])\<rparr>"
    by (simp_all add: waitForChunk_def)
  have "answer_ok bs c' a = answer_ok bs c a" for a
    unfolding r by (cases a; cases "snd (snd a)") auto
  then have "answers_ok bs (asked @ [(w, i)]) as c'"
    using ok unfolding cache_ok_def answers_ok_def by (fastforce simp: r(2))
  with ok True show ?thesis
    by (auto simp: r cache_ok_def storage_ok_def memory_ok_def waiters_ok_def readers_ok_def)
next
  case False
  have len: "length (sc_chunks c) = length bs" if "sc_failure c = None"
    using ok that holds_length by (auto simp: cache_ok_def storage_ok_def readers_ok_def)
  have "\<exists>a. xs = [(w, i, a)] \<and> answer_ok bs c (w, i, a) \<and> c' = c"
  proof (cases "sc_failure c")
    case None
    with len have l: "length (sc_chunks c) = length bs" by simp
    show ?thesis
    proof (cases "i < length (sc_chunks c)")
      case True
      have "readChunk c i = Inr (bs ! i)"
        by (rule holds_read) (use ok None True l in \<open>auto simp: cache_ok_def storage_ok_def readers_ok_def split: if_splits\<close>)
      with None True run l show ?thesis by (auto simp: waitForChunk_def)
    next
      case nt: False
      with False None run l show ?thesis by (auto simp: waitForChunk_def)
    qed
  next
    case (Some e)
    with run show ?thesis by (auto simp: waitForChunk_def)
  qed
  then obtain a where "xs = [(w, i, a)]" "answer_ok bs c (w, i, a)" "c' = c" by blast
  with ok show ?thesis by (auto simp: cache_ok_def answers_ok_def)
qed

lemma readers_change_ok:
  assumes "cache_ok opts bs asked as c" "readers_ok d"
    and "sc_chunks d = sc_chunks c" "sc_files d = sc_files c" "sc_cacheDirectory d = sc_cacheDirectory c" "sc_options d = sc_options c"
      "sc_totalBytes d = sc_totalBytes c" "sc_completed d = sc_completed c" "sc_failure d = sc_failure c" "sc_waiters d = sc_waiters c"
      "sc_disposed d = sc_disposed c"
  shows "cache_ok opts bs asked as d"
proof -
  have "answers_ok bs asked as c" using assms(1) by (simp add: cache_ok_def)
  from answers_same [OF this assms(10,8,9)] have "answers_ok bs asked as d" .
  with assms show ?thesis by (simp add: cache_ok_def storage_ok_def waiters_ok_def memory_ok_def)
qed

lemma retain_ok:
  assumes "cache_ok opts bs asked as c" "token \<notin> sc_held c" "retain_cache token c = (e, c')"
  shows "cache_ok opts bs asked as c'"
proof (cases "sc_disposed c")
  case False
  then have c': "c' = c\<lparr>sc_readers := sc_readers c + 1, sc_held := insert token (sc_held c)\<rparr>"
    using assms(3) by (simp add: retain_cache_def)
  show ?thesis unfolding c'
    by (rule readers_change_ok [OF assms(1)]) (use assms(1,2) False in \<open>simp_all add: cache_ok_def readers_ok_def\<close>)
qed (use assms in \<open>auto simp: retain_cache_def\<close>)

lemma release_cache_ok:
  assumes "cache_ok opts bs asked as c" "covers_waiting c indices" "release_cache indices token c = (xs, c')"
  shows "cache_ok opts bs asked (as @ xs) c'"
proof (cases "token \<in> sc_held c")
  case True
  let ?c = "c\<lparr>sc_held := sc_held c - {token}, sc_readers := sc_readers c - 1\<rparr>"
  have r: "readers_ok ?c" using assms(1) True by (auto simp: cache_ok_def readers_ok_def)
  have c: "cache_ok opts bs asked as ?c" by (rule readers_change_ok [OF assms(1) r]) simp_all
  have run: "(xs, c') = (if sc_readers ?c = 0 \<and> sc_disposeRequested ?c then disposeNow indices ?c else ([], ?c))"
    using assms(3) True unfolding release_cache_def Let_def by simp
  show ?thesis
  proof (cases "sc_readers ?c = 0 \<and> sc_disposeRequested ?c")
    case True
    then have "sc_held ?c = {}" using r by (auto simp: readers_ok_def)
    moreover have "disposeNow indices ?c = (xs, c')" using run True by metis
    moreover have "covers_waiting ?c indices" using assms(2) by (simp add: covers_waiting_def)
    ultimately show ?thesis using disposeNow_ok [OF c] True by blast
  next
    case False
    with run have "xs = []" "c' = ?c" by auto
    with c show ?thesis by simp
  qed
qed (use assms in \<open>auto simp: release_cache_def\<close>)

lemma dispose_ok:
  assumes "cache_ok opts bs asked as c" "covers_waiting c indices" "dispose_cache indices c = (xs, c')"
  shows "cache_ok opts bs asked (as @ xs) c'"
proof (cases "sc_disposed c \<or> sc_disposeRequested c")
  case False
  let ?c = "c\<lparr>sc_disposeRequested := True\<rparr>"
  have r: "readers_ok ?c" using assms(1) by (auto simp: cache_ok_def readers_ok_def)
  have c: "cache_ok opts bs asked as ?c" by (rule readers_change_ok [OF assms(1) r]) simp_all
  have run: "(xs, c') = (if sc_readers ?c > 0 then ([], ?c) else disposeNow indices ?c)"
    using assms(3) False unfolding dispose_cache_def Let_def by simp
  show ?thesis
  proof (cases "sc_readers ?c > 0")
    case True
    with run have "xs = []" "c' = ?c" by auto
    with c show ?thesis by simp
  next
    case nr: False
    then have "sc_held ?c = {}" "sc_disposeRequested ?c" using r by (auto simp: readers_ok_def)
    moreover have "disposeNow indices ?c = (xs, c')" using run nr by metis
    moreover have "covers_waiting ?c indices" using assms(2) by (simp add: covers_waiting_def)
    ultimately show ?thesis using disposeNow_ok [OF c] by blast
  qed
qed (use assms in \<open>auto simp: dispose_cache_def\<close>)

lemma cache_run_ok: "cache_run opts bs asked as c \<Longrightarrow> cache_ok opts bs asked as c"
proof (induction rule: cache_run.induct)
  case (run_new fs)
  show ?case
    by (simp add: cache_ok_def storage_ok_def waiters_ok_def readers_ok_def answers_ok_def memory_ok_def empty_cache_def holds_def)
next
  case (run_fail bs asked as c indices err xs c')
  then show ?case using markFailed_ok by blast
qed (blast intro: append_ok markComplete_ok wait_ok retain_ok release_cache_ok dispose_ok)+

section \<open>What readers get\<close>

text \<open>
  C23. A snapshot transcript reads back: in memory or on disk, whatever writes fail, every chunk
  appended to a cache that is not disposed of reads as it was, and the chunks held in memory never
  exceed the limit.
\<close>

theorem transcript_reads_back:
  assumes "cache_run opts bs asked as c"
  shows "(\<not> sc_disposed c \<longrightarrow> length (sc_chunks c) = length bs \<and> (\<forall>i < length bs. readChunk c i = Inr (bs ! i)))
    \<and> memory_bytes (sc_chunks c) \<le> nullish (co_memoryCacheBytes opts) SNAPSHOT_MEMORY_CACHE_BYTES"
proof -
  have ok: "cache_ok opts bs asked as c" by (rule cache_run_ok [OF assms])
  then have "holds bs (sc_cacheDirectory c) (sc_chunks c) (sc_files c)" if "\<not> sc_disposed c"
    using that by (simp add: cache_ok_def storage_ok_def)
  then show ?thesis using ok holds_read holds_length by (auto simp: cache_ok_def memory_ok_def memory_limit_def)
qed

text \<open>
  C30. No reader of a snapshot transcript waits for ever or is misled: once the transcript is
  complete or has failed every read asked for is answered, a chunk is the one of its index, and the
  end is announced only behind the last chunk of a complete transcript.
\<close>

theorem readers_answered:
  assumes "cache_run opts bs asked as c" "(w, i) \<in> set asked"
  shows "((\<exists>a. (w, i, a) \<in> set as) \<or> \<not> sc_completed c \<and> sc_failure c = None \<and> length bs \<le> i \<and> w \<in> set (sc_waiters c i))
    \<and> ((w, i, Chunk b) \<in> set as \<longrightarrow> i < length bs \<and> b = bs ! i)
    \<and> ((w, i, NoMore) \<in> set as \<longrightarrow> sc_completed c \<and> length bs \<le> i)"
proof -
  have ok: "cache_ok opts bs asked as c" by (rule cache_run_ok [OF assms(1)])
  then have good: "\<forall>a\<in>set as. answer_ok bs c a" and
    "w \<in> set (sc_waiters c i) \<or> (\<exists>a. (w, i, a) \<in> set as)" using assms(2) by (auto simp: cache_ok_def answers_ok_def)
  moreover have "\<not> sc_completed c \<and> sc_failure c = None \<and> length bs \<le> i" if "w \<in> set (sc_waiters c i)"
  proof -
    have ne: "sc_waiters c i \<noteq> []" using that by auto
    then have open_: "\<not> sc_completed c" "sc_failure c = None" using ok by (auto simp: cache_ok_def waiters_ok_def)
    then have "length (sc_chunks c) = length bs"
      using ok holds_length by (auto simp: cache_ok_def storage_ok_def readers_ok_def)
    then show ?thesis using waiting_beyond [of c i] ok ne open_ by (simp add: cache_ok_def)
  qed
  moreover have "(w, i, Chunk b) \<in> set as \<longrightarrow> i < length bs \<and> b = bs ! i" using good by fastforce
  moreover have "(w, i, NoMore) \<in> set as \<longrightarrow> sc_completed c \<and> length bs \<le> i" using good by fastforce
  ultimately show ?thesis by blast
qed

text \<open>Nothing is left of the directory of a disposed cache.\<close>

lemma disposed_files_gone:
  assumes "\<not> sc_disposed c" "sc_cacheDirectory c = Some dir"
  shows "sc_files (snd (disposeNow indices c)) (chunk_path dir i) = None"
proof -
  obtain xs d where f: "markFailed indices (Error (''Snapshot transcript '' @ co_snapshotId (sc_options c) @ '' was disposed''))
      (c\<lparr>sc_disposed := True\<rparr>) = (xs, d)" by force
  have "sc_cacheDirectory d = Some dir" using markFailed_fields [OF f] assms(2) by simp
  with assms(1) f show ?thesis by (simp add: disposeNow_def Let_def chunk_path_def)
qed

definition demo_cache_options :: cache_options where
  "demo_cache_options = \<lparr>co_activeSessionId = ''a'', co_snapshotId = ''s'', co_cacheRoot = ''/c'', co_targetChunkBytes = None,
     co_memoryCacheBytes = Some 1\<rparr>"

text \<open>A reader that is ahead, two chunks of which the second is beyond the limit.\<close>

definition demo_waiting :: snapshot_cache where
  "demo_waiting = snd (waitForChunk 7 1 (empty_cache demo_cache_options Map.empty))"

definition demo_cache :: snapshot_cache where
  "demo_cache = snd (snd (appendEncodedChunk (\<lambda>_. None) [2, 3]
     (snd (snd (appendEncodedChunk (\<lambda>_. None) [1] demo_waiting)))))"

lemma demo_cache_run: "cache_run demo_cache_options [[1], [2, 3]] [(7, 1)] [(7, 1, Chunk [2, 3])] demo_cache"
proof -
  let ?c1 = "snd (snd (appendEncodedChunk (\<lambda>_. None) [1] demo_waiting))"
  have "waitForChunk 7 1 (empty_cache demo_cache_options Map.empty) = (Inr [], demo_waiting)"
    by (simp add: demo_waiting_def waitForChunk_def empty_cache_def)
  from run_wait [OF run_new this] have "cache_run demo_cache_options [] [(7, 1)] [] demo_waiting" by simp
  moreover have "appendEncodedChunk (\<lambda>_. None) [1] demo_waiting = (None, [], ?c1)"
    by (simp add: appendEncodedChunk_def storeChunk_def spill_beyond_limit_def push_chunk_def demo_waiting_def waitForChunk_def
        empty_cache_def demo_cache_options_def Let_def)
  ultimately have c1: "cache_run demo_cache_options [[1]] [(7, 1)] [] ?c1" using run_append [of demo_cache_options "[]"] by fastforce
  have "appendEncodedChunk (\<lambda>_. None) [2, 3] ?c1 = (None, [(7, 1, Chunk [2, 3])], demo_cache)"
    by (simp add: demo_cache_def appendEncodedChunk_def storeChunk_def spill_beyond_limit_def push_chunk_def demo_waiting_def
        waitForChunk_def empty_cache_def demo_cache_options_def Let_def write_file_def readChunk_def chunk_path_inj)
  from run_append [OF c1 this] show ?thesis by simp
qed

lemma demo_cache_open: "\<not> sc_disposed demo_cache"
  by (simp add: demo_cache_def appendEncodedChunk_def storeChunk_def spill_beyond_limit_def push_chunk_def demo_waiting_def
      waitForChunk_def empty_cache_def demo_cache_options_def Let_def write_file_def readChunk_def)

theorem transcript_reads_back_witness: "readChunk demo_cache 0 = Inr [1] \<and> memory_bytes (sc_chunks demo_cache) \<le> 1"
  using transcript_reads_back [OF demo_cache_run] demo_cache_open by (auto simp: demo_cache_options_def)

theorem readers_answered_witness:
  "cache_run demo_cache_options [[1], [2, 3]] [(7, 1)] [(7, 1, Chunk [2, 3])] demo_cache
     \<and> 1 < length [[1], [2, 3 :: byte]] \<and> [2, 3] = [[1], [2, 3 :: byte]] ! 1"
  using readers_answered [OF demo_cache_run, of 7 1 "[2, 3]"] demo_cache_run by simp

end
