(* ===== verification/Stdin_Buffer.thy ===== *)
theory Stdin_Buffer
  imports Index_Of Utf8_Stream
begin

text \<open>
  The input buffer of the terminal (\<open>packages/tui/src/stdin-buffer.ts\<close>): what the terminal sends
  arrives in chunks cut anywhere and is turned into keys, escape sequences and pastes. An incomplete
  sequence waits for more input until a timer hands it out as it is.
\<close>

section \<open>Sequences\<close>

definition ESC :: cu where
  "ESC = 0x1B"

definition BRACKETED_PASTE_START :: jsstring where
  "BRACKETED_PASTE_START = [0x1B, 0x5B, 0x32, 0x30, 0x30, 0x7E]"

definition BRACKETED_PASTE_END :: jsstring where
  "BRACKETED_PASTE_END = [0x1B, 0x5B, 0x32, 0x30, 0x31, 0x7E]"

datatype sequence_status = Complete | Incomplete | NotEscape

definition is_digit_unit :: "cu \<Rightarrow> bool" where
  "is_digit_unit c \<longleftrightarrow> 48 \<le> c \<and> c \<le> 57"

text \<open>The expressions \<open>\d*\<close> and \<open>\d+\<close> on a whole text.\<close>

abbreviation digits0 :: "jsstring \<Rightarrow> bool" where
  "digits0 s \<equiv> list_all is_digit_unit s"

abbreviation digits1 :: "jsstring \<Rightarrow> bool" where
  "digits1 s \<equiv> s \<noteq> [] \<and> list_all is_digit_unit s"

text \<open>\<open>/^<\d+;\d+;\d+[Mm]$/\<close>.\<close>

definition mouse_match :: "jsstring \<Rightarrow> bool" where
  "mouse_match payload \<longleftrightarrow>
     (case payload of
        [] \<Rightarrow> False
      | c # rest \<Rightarrow>
          c = 60 \<and> rest \<noteq> [] \<and> (last rest = 77 \<or> last rest = 109)
          \<and> (let parts = split_on 59 (butlast rest) in length parts = 3 \<and> list_all digits1 parts))"

definition isCompleteCsiSequence :: "jsstring \<Rightarrow> sequence_status" where
  "isCompleteCsiSequence data =
     (if \<not> prefix [ESC, 91] data then Complete
      else if length data < 3 then Incomplete
      else let payload = drop 2 data; lastChar = last payload
           in if 0x40 \<le> lastChar \<and> lastChar \<le> 0x7E
              then (if prefix [60] payload
                    then (if mouse_match payload then Complete
                          else if lastChar = 77 \<or> lastChar = 109
                          then (let parts = split_on 59 (butlast (drop 1 payload))
                                in if length parts = 3 \<and> list_all digits1 parts then Complete else Incomplete)
                          else Incomplete)
                    else Complete)
              else Incomplete)"

text \<open>The string terminator: \<open>ESC \\<close>, and for operating system commands also BEL.\<close>

definition isCompleteOscSequence :: "jsstring \<Rightarrow> sequence_status" where
  "isCompleteOscSequence data =
     (if \<not> prefix [ESC, 93] data then Complete
      else if suffix [ESC, 92] data \<or> suffix [7] data then Complete else Incomplete)"

definition isCompleteDcsSequence :: "jsstring \<Rightarrow> sequence_status" where
  "isCompleteDcsSequence data =
     (if \<not> prefix [ESC, 80] data then Complete else if suffix [ESC, 92] data then Complete else Incomplete)"

definition isCompleteApcSequence :: "jsstring \<Rightarrow> sequence_status" where
  "isCompleteApcSequence data =
     (if \<not> prefix [ESC, 95] data then Complete else if suffix [ESC, 92] data then Complete else Incomplete)"

definition isCompleteSequence :: "jsstring \<Rightarrow> sequence_status" where
  "isCompleteSequence data =
     (if \<not> prefix [ESC] data then NotEscape
      else if length data = 1 then Incomplete
      else let afterEsc = drop 1 data
           in if prefix [91] afterEsc
              then (if prefix [91, 77] afterEsc then (if 6 \<le> length data then Complete else Incomplete)
                    else isCompleteCsiSequence data)
              else if prefix [93] afterEsc then isCompleteOscSequence data
              else if prefix [80] afterEsc then isCompleteDcsSequence data
              else if prefix [95] afterEsc then isCompleteApcSequence data
              else if prefix [79] afterEsc then (if 2 \<le> length afterEsc then Complete else Incomplete)
              else Complete)"

text \<open>\<open>/^\x1b\[(\d+)(?::\d*)?(?::\d+)?u$/\<close>, with the number of the first group.\<close>

definition digits_number :: "jsstring \<Rightarrow> nat" where
  "digits_number s = foldl (\<lambda>n c. 10 * n + (c - 48)) 0 s"

definition kitty_match :: "jsstring \<Rightarrow> jsstring option" where
  "kitty_match s =
     (if prefix [ESC, 91] s \<and> 3 \<le> length s \<and> last s = 117
      then (case split_on 58 (butlast (drop 2 s)) of
              [n] \<Rightarrow> if digits1 n then Some n else None
            | [n, x] \<Rightarrow> if digits1 n \<and> digits0 x then Some n else None
            | [n, x, y] \<Rightarrow> if digits1 n \<and> digits0 x \<and> digits1 y then Some n else None
            | _ \<Rightarrow> None)
      else None)"

definition parseUnmodifiedKittyPrintableCodepoint :: "jsstring \<Rightarrow> nat option" where
  "parseUnmodifiedKittyPrintableCodepoint s =
     (case kitty_match s of
        None \<Rightarrow> None
      | Some n \<Rightarrow> (let codepoint = digits_number n in if 32 \<le> codepoint then Some codepoint else None))"

section \<open>Splitting the buffer\<close>

text \<open>The inner loop: the end of the first candidate that is not incomplete.\<close>

function find_end :: "jsstring \<Rightarrow> nat \<Rightarrow> nat option" where
  "find_end remaining seqEnd =
     (if length remaining < seqEnd then None
      else if isCompleteSequence (take seqEnd remaining) = Incomplete then find_end remaining (Suc seqEnd)
      else Some seqEnd)"
  by pat_completeness auto
termination by (relation "measure (\<lambda>(remaining, seqEnd). Suc (length remaining) - seqEnd)") auto

declare find_end.simps [simp del]

lemma find_end_bounds: "find_end r n = Some k \<Longrightarrow> n \<le> k \<and> k \<le> length r"
  by (induction r n rule: find_end.induct) (subst (asm) (2) find_end.simps, fastforce split: if_splits)

function extractCompleteSequences :: "jsstring \<Rightarrow> jsstring list \<times> jsstring" where
  "extractCompleteSequences buffer =
     (if buffer = [] then ([], [])
      else if prefix [ESC] buffer
      then (case find_end buffer 1 of
              None \<Rightarrow> ([], buffer)
            | Some seqEnd \<Rightarrow>
                (let (sequences, remainder) = extractCompleteSequences (drop seqEnd buffer)
                 in (take seqEnd buffer # sequences, remainder)))
      else (let (sequences, remainder) = extractCompleteSequences (drop 1 buffer)
            in ([hd buffer] # sequences, remainder)))"
  by pat_completeness auto
termination by (relation "measure length") (auto dest: find_end_bounds)

declare extractCompleteSequences.simps [simp del]

section \<open>The buffer\<close>

datatype stdin_event = StdinData jsstring | StdinPaste jsstring

text \<open>\<open>sb_timeout\<close> tells whether the timer is set.\<close>

record stdin_buffer =
  sb_buffer :: jsstring
  sb_timeout :: bool
  sb_pasteMode :: bool
  sb_pasteBuffer :: jsstring
  sb_pending :: "nat option"

definition new_stdin :: stdin_buffer where
  "new_stdin = \<lparr>sb_buffer = [], sb_timeout = False, sb_pasteMode = False, sb_pasteBuffer = [], sb_pending = None\<rparr>"

text \<open>
  A key that is reported both as a sequence and as a character is emitted once: the character that
  follows its own sequence is dropped.
\<close>

definition emitDataSequence :: "jsstring \<Rightarrow> stdin_buffer \<Rightarrow> stdin_event list \<times> stdin_buffer" where
  "emitDataSequence s b =
     (if length s = 1 \<and> sb_pending b = Some (hd s) then ([], b\<lparr>sb_pending := None\<rparr>)
      else ([StdinData s], b\<lparr>sb_pending := parseUnmodifiedKittyPrintableCodepoint s\<rparr>))"

fun emit_all :: "jsstring list \<Rightarrow> stdin_buffer \<Rightarrow> stdin_event list \<times> stdin_buffer" where
  "emit_all [] b = ([], b)"
| "emit_all (s # ss) b =
     (let (es, b1) = emitDataSequence s b; (fs, b2) = emit_all ss b1 in (es @ fs, b2))"

text \<open>
  What \<open>process\<close> does with the buffer before it looks for the end of a paste: there is no paste (\<open>Inl\<close>,
  the call is over), or there is (\<open>Inr\<close>, with the events before it and the text pasted so far).
\<close>

definition before_paste ::
  "jsstring \<Rightarrow> stdin_buffer \<Rightarrow> (stdin_event list \<times> stdin_buffer) + (stdin_event list \<times> jsstring \<times> stdin_buffer)"
where
  "before_paste buffer b =
     (if sb_pasteMode b then Inr ([], sb_pasteBuffer b @ buffer, b\<lparr>sb_buffer := []\<rparr>)
      else case index_of BRACKETED_PASTE_START buffer of
             Some startIndex \<Rightarrow>
               (let (es, b1) = (if 0 < startIndex
                                then emit_all (fst (extractCompleteSequences (take startIndex buffer))) b
                                else ([], b))
                in Inr (es, drop (startIndex + length BRACKETED_PASTE_START) buffer,
                        b1\<lparr>sb_pending := None, sb_pasteMode := True, sb_buffer := []\<rparr>))
           | None \<Rightarrow>
               (let (sequences, remainder) = extractCompleteSequences buffer;
                    (es, b1) = emit_all sequences (b\<lparr>sb_buffer := remainder\<rparr>)
                in Inl (es, b1\<lparr>sb_timeout := remainder \<noteq> []\<rparr>)))"

lemma before_paste_length:
  "before_paste buffer b = Inr (es, p, b1) \<Longrightarrow> length p \<le> length buffer + length (sb_pasteBuffer b)"
  by (auto simp: before_paste_def Let_def split: if_splits option.splits prod.splits)

function process :: "jsstring \<Rightarrow> stdin_buffer \<Rightarrow> stdin_event list \<times> stdin_buffer" where
  "process str b =
     (if str = [] \<and> sb_buffer b = [] then emitDataSequence [] (b\<lparr>sb_timeout := False\<rparr>)
      else case before_paste (sb_buffer b @ str) (b\<lparr>sb_timeout := False\<rparr>) of
             Inl r \<Rightarrow> r
           | Inr (es, pasteBuffer, b1) \<Rightarrow>
               (case index_of BRACKETED_PASTE_END pasteBuffer of
                  None \<Rightarrow> (es, b1\<lparr>sb_pasteBuffer := pasteBuffer\<rparr>)
                | Some endIndex \<Rightarrow>
                    (let pastedContent = take endIndex pasteBuffer;
                         remaining = drop (endIndex + length BRACKETED_PASTE_END) pasteBuffer;
                         b2 = b1\<lparr>sb_buffer := [], sb_pasteMode := False, sb_pasteBuffer := [], sb_pending := None\<rparr>;
                         (fs, b3) = (if remaining \<noteq> [] then process remaining b2 else ([], b2))
                     in (es @ StdinPaste pastedContent # fs, b3))))"
  by pat_completeness auto
termination
proof (relation "measure (\<lambda>(str, b). length str + length (sb_buffer b) + length (sb_pasteBuffer b))", goal_cases)
  case (2 str b x es y p b1 endIndex pastedContent remaining b2)
  from before_paste_length [of "sb_buffer b @ str" "b\<lparr>sb_timeout := False\<rparr>" es p b1] 2
  have "length p \<le> length str + length (sb_buffer b) + length (sb_pasteBuffer b)" by simp
  moreover have "endIndex + length BRACKETED_PASTE_END \<le> length p" using index_of_bound 2 by blast
  ultimately show ?case using 2 by (simp add: BRACKETED_PASTE_END_def)
qed simp

declare process.simps [simp del]

text \<open>Bytes become text: a single byte above 127 is the key with the meta modifier.\<close>

datatype stdin_input = InputText jsstring | InputBytes "byte list"

definition input_text :: "stdin_input \<Rightarrow> jsstring" where
  "input_text i =
     (case i of
        InputText s \<Rightarrow> s
      | InputBytes bs \<Rightarrow>
          if length bs = 1 \<and> 127 < unat (hd bs) then [ESC, unat (hd bs) - 128] else toString bs)"

definition process_input :: "stdin_input \<Rightarrow> stdin_buffer \<Rightarrow> stdin_event list \<times> stdin_buffer" where
  "process_input i b = process (input_text i) b"

definition flush_stdin :: "stdin_buffer \<Rightarrow> jsstring list \<times> stdin_buffer" where
  "flush_stdin b =
     (let b1 = b\<lparr>sb_timeout := False\<rparr>
      in if sb_buffer b1 = [] then ([], b1) else ([sb_buffer b1], b1\<lparr>sb_buffer := [], sb_pending := None\<rparr>))"

text \<open>The callback of the timer; when it runs, the timer was set.\<close>

definition timeout_fires :: "stdin_buffer \<Rightarrow> stdin_event list \<times> stdin_buffer" where
  "timeout_fires b = (let (sequences, b1) = flush_stdin b in emit_all sequences b1)"

definition clear_stdin :: "stdin_buffer \<Rightarrow> stdin_buffer" where
  "clear_stdin b = b\<lparr>sb_timeout := False, sb_buffer := [], sb_pasteMode := False, sb_pasteBuffer := [], sb_pending := None\<rparr>"

end
