(* ===== verification/Stdin_Buffer_Props.thy ===== *)
theory Stdin_Buffer_Props
  imports Stdin_Buffer
begin

text \<open>
  What the input buffer recognises: as long as the timer stays silent, the keys and pastes do not
  depend on how the input was cut, and a stream of complete sequences and pastes is taken apart into
  exactly those.
\<close>

section \<open>Scanning\<close>

lemma find_end_append: "find_end r n = Some k \<Longrightarrow> find_end (r @ t) n = Some k"
proof (induction r n rule: find_end.induct)
  case (1 r n)
  from 1(2) have le: "\<not> length r < n" by (auto simp: find_end.simps [of r n] split: if_splits)
  then have t: "take n (r @ t) = take n r" "\<not> length (r @ t) < n" by simp_all
  show ?case
  proof (cases "isCompleteSequence (take n r) = Incomplete")
    case True
    with le 1(2) have "find_end r (Suc n) = Some k" by (simp add: find_end.simps [of r n])
    with 1(1) [OF le True] True t le show ?thesis by (simp add: find_end.simps [of "r @ t" n])
  next
    case False
    with le 1(2) have "k = n" by (simp add: find_end.simps [of r n])
    with False le t show ?thesis by (simp add: find_end.simps [of "r @ t" n])
  qed
qed

abbreviation sequences_of :: "jsstring \<Rightarrow> jsstring list" where
  "sequences_of s \<equiv> fst (extractCompleteSequences s)"

abbreviation rest_of :: "jsstring \<Rightarrow> jsstring" where
  "rest_of s \<equiv> snd (extractCompleteSequences s)"

lemma extract_Nil [simp]: "extractCompleteSequences [] = ([], [])"
  by (simp add: extractCompleteSequences.simps)

lemma extract_append:
  "extractCompleteSequences (a @ b) =
     (let (s1, r1) = extractCompleteSequences a; (s2, r2) = extractCompleteSequences (r1 @ b) in (s1 @ s2, r2))"
proof (induction a rule: extractCompleteSequences.induct)
  case (1 a)
  consider "a = []" | "a \<noteq> []" "prefix [ESC] a" "find_end a 1 = None"
    | k where "a \<noteq> []" "prefix [ESC] a" "find_end a 1 = Some k" | "a \<noteq> []" "\<not> prefix [ESC] a" by fastforce
  then show ?case
  proof cases
    case 2
    then show ?thesis by (simp add: extractCompleteSequences.simps [of a] split: prod.splits)
  next
    case (3 k)
    then have k: "k \<le> length a" "find_end (a @ b) 1 = Some k" "prefix [ESC] (a @ b)"
      using find_end_bounds find_end_append by (auto simp: prefix_def)
    show ?thesis
      using 3 k 1(1) [OF 3(1,2,3)]
      by (simp add: extractCompleteSequences.simps [of a] extractCompleteSequences.simps [of "a @ b"] split: prod.splits)
  next
    case 4
    then have "\<not> prefix [ESC] (a @ b)" by (cases a) auto
    with 4 1(2) [OF 4] show ?thesis
      by (cases a) (simp_all add: extractCompleteSequences.simps [of "_ # _"] split: prod.splits)
  qed simp
qed

text \<open>What is left is the end of the text, and scanning it again finds nothing.\<close>

lemma extract_suffix: "\<exists>p. a = p @ rest_of a"
proof (induction a rule: extractCompleteSequences.induct)
  case (1 a)
  consider "a = []" | "a \<noteq> []" "prefix [ESC] a" "find_end a 1 = None"
    | k where "a \<noteq> []" "prefix [ESC] a" "find_end a 1 = Some k" | "a \<noteq> []" "\<not> prefix [ESC] a" by fastforce
  then show ?case
  proof cases
    case (3 k)
    from 1(1) [OF 3] obtain p where "drop k a = p @ rest_of (drop k a)" by blast
    then have "a = (take k a @ p) @ rest_of (drop k a)" by (metis append.assoc append_take_drop_id)
    with 3 show ?thesis by (simp add: extractCompleteSequences.simps [of a] case_prod_beta) (metis append.assoc)
  next
    case 4
    from 1(2) [OF 4] obtain p where "drop 1 a = p @ rest_of (drop 1 a)" by blast
    then have "a = (take 1 a @ p) @ rest_of (drop 1 a)" by (metis append.assoc append_take_drop_id)
    with 4 show ?thesis by (simp add: extractCompleteSequences.simps [of a] case_prod_beta) (metis append.assoc)
  qed (simp_all add: extractCompleteSequences.simps [of a])
qed

lemma extract_rest: "extractCompleteSequences (rest_of a) = ([], rest_of a)"
  using extract_append [of a "[]"] by (simp add: case_prod_beta) (metis append_self_conv prod.collapse fst_conv snd_conv)

interpretation key_scanner: chunk_decoder
  "\<lambda>s c. Inr (extractCompleteSequences (s @ c)) :: unit + jsstring list \<times> jsstring"
  "\<lambda>s. extractCompleteSequences s = ([], s)"
proof
  show "extractCompleteSequences s' = ([], s')" if "Inr (extractCompleteSequences (s @ c)) = (Inr (xs, s') :: unit + _)" for s c xs s'
    using extract_rest [of "s @ c"] that by simp
  show "(Inr (extractCompleteSequences (s @ a @ b)) :: unit + _) =
    (case Inr (extractCompleteSequences (s @ a)) of Inl e \<Rightarrow> Inl e
     | Inr (xs, s1) \<Rightarrow> (case Inr (extractCompleteSequences (s1 @ b)) of Inl e \<Rightarrow> Inl e | Inr (ys, s2) \<Rightarrow> Inr (xs @ ys, s2)))"
    for s a b using extract_append [of "s @ a" b] by (simp add: case_prod_beta)
qed simp

section \<open>One call\<close>

text \<open>Emitting depends on the pending code point alone and changes nothing else.\<close>

fun key_events :: "nat option \<Rightarrow> jsstring list \<Rightarrow> stdin_event list \<times> nat option" where
  "key_events q [] = ([], q)"
| "key_events q (s # ss) =
     (if length s = 1 \<and> q = Some (hd s) then key_events None ss
      else (let (es, q') = key_events (parseUnmodifiedKittyPrintableCodepoint s) ss in (StdinData s # es, q')))"

lemma emit_all_keys:
  "emit_all ss b = (fst (key_events (sb_pending b) ss), b\<lparr>sb_pending := snd (key_events (sb_pending b) ss)\<rparr>)"
  by (induction ss arbitrary: b) (simp_all add: emitDataSequence_def case_prod_beta)

lemma key_events_append:
  "key_events q (ss @ ts) = (fst (key_events q ss) @ fst (key_events (snd (key_events q ss)) ts),
     snd (key_events (snd (key_events q ss)) ts))"
  by (induction ss arbitrary: q) (simp_all add: case_prod_beta)

text \<open>The two kinds of states between calls.\<close>

abbreviation typing :: "jsstring \<Rightarrow> bool \<Rightarrow> nat option \<Rightarrow> stdin_buffer" where
  "typing r t q \<equiv> \<lparr>sb_buffer = r, sb_timeout = t, sb_pasteMode = False, sb_pasteBuffer = [], sb_pending = q\<rparr>"

abbreviation pasting :: "jsstring \<Rightarrow> stdin_buffer" where
  "pasting p \<equiv> \<lparr>sb_buffer = [], sb_timeout = False, sb_pasteMode = True, sb_pasteBuffer = p, sb_pending = None\<rparr>"

definition after_end :: "nat \<Rightarrow> jsstring \<Rightarrow> jsstring" where
  "after_end j p = drop (j + length BRACKETED_PASTE_END) p"

definition after_start :: "nat \<Rightarrow> jsstring \<Rightarrow> jsstring" where
  "after_start i s = drop (i + length BRACKETED_PASTE_START) s"

text \<open>From the text pasted so far on.\<close>

definition paste_tail :: "jsstring \<Rightarrow> stdin_event list \<times> stdin_buffer" where
  "paste_tail p =
     (case index_of BRACKETED_PASTE_END p of
        None \<Rightarrow> ([], pasting p)
      | Some j \<Rightarrow>
          if after_end j p = [] then ([StdinPaste (take j p)], typing [] False None)
          else (StdinPaste (take j p) # fst (process (after_end j p) (typing [] False None)),
                snd (process (after_end j p) (typing [] False None))))"

lemma process_pasting: "s \<noteq> [] \<Longrightarrow> process s (pasting p) = paste_tail (p @ s)"
  by (subst process.simps)
    (simp add: before_paste_def paste_tail_def after_end_def case_prod_beta Let_def split: option.splits)

lemma process_typing:
  assumes "s \<noteq> []"
  shows "process s (typing r t q) =
    (case index_of BRACKETED_PASTE_START (r @ s) of
       None \<Rightarrow> (fst (key_events q (sequences_of (r @ s))),
                typing (rest_of (r @ s)) (rest_of (r @ s) \<noteq> []) (snd (key_events q (sequences_of (r @ s)))))
     | Some i \<Rightarrow> (fst (key_events q (sequences_of (take i (r @ s)))) @ fst (paste_tail (after_start i (r @ s))),
                 snd (paste_tail (after_start i (r @ s)))))"
proof (cases "index_of BRACKETED_PASTE_START (r @ s)")
  case None
  then show ?thesis
    using assms by (subst process.simps) (simp add: before_paste_def emit_all_keys case_prod_beta)
next
  case (Some i)
  have "before_paste (r @ s) (typing r False q) =
      Inr (fst (key_events q (sequences_of (take i (r @ s)))), after_start i (r @ s), pasting [])"
    using Some by (simp add: before_paste_def emit_all_keys after_start_def)
  with Some assms show ?thesis
    by (subst process.simps) (simp add: paste_tail_def after_end_def case_prod_beta Let_def split: option.splits)
qed

section \<open>Cuts do not matter\<close>

lemmas marker_defs = BRACKETED_PASTE_START_def BRACKETED_PASTE_END_def

lemma after_end_shorter: "index_of BRACKETED_PASTE_END p = Some j \<Longrightarrow> length (after_end j p) < length p"
  using index_of_bound [of BRACKETED_PASTE_END p j] by (simp add: after_end_def marker_defs) linarith

lemma after_end_append: "index_of BRACKETED_PASTE_END p = Some j \<Longrightarrow> after_end j (p @ c) = after_end j p @ c"
  using index_of_bound [of BRACKETED_PASTE_END p j] by (simp add: after_end_def)

lemma after_start_append: "index_of BRACKETED_PASTE_START p = Some j \<Longrightarrow> after_start j (p @ c) = after_start j p @ c"
  using index_of_bound [of BRACKETED_PASTE_START p j] by (simp add: after_start_def)

lemma after_start_shorter: "length (after_start i s) \<le> length s"
  by (simp add: after_start_def)

text \<open>Input in which every paste begins behind a complete sequence.\<close>

function clean_input :: "jsstring \<Rightarrow> bool" where
  "clean_input t \<longleftrightarrow>
     (case index_of BRACKETED_PASTE_START t of
        None \<Rightarrow> True
      | Some i \<Rightarrow>
          rest_of (take i t) = []
          \<and> (case index_of BRACKETED_PASTE_END (after_start i t) of
               None \<Rightarrow> True
             | Some j \<Rightarrow> clean_input (after_end j (after_start i t))))"
  by pat_completeness auto
termination
  by (relation "measure length") (auto intro: less_le_trans [OF after_end_shorter after_start_shorter])

declare clean_input.simps [simp del]

definition clean_paste :: "jsstring \<Rightarrow> bool" where
  "clean_paste p \<longleftrightarrow> (case index_of BRACKETED_PASTE_END p of None \<Rightarrow> True | Some j \<Rightarrow> clean_input (after_end j p))"

lemma clean_input_paste:
  "clean_input t \<longleftrightarrow> (case index_of BRACKETED_PASTE_START t of
     None \<Rightarrow> True | Some i \<Rightarrow> rest_of (take i t) = [] \<and> clean_paste (after_start i t))"
  by (subst clean_input.simps) (simp add: clean_paste_def split: option.split)

text \<open>What \<open>process\<close> makes of two chunks, one after the other.\<close>

definition in_turn :: "jsstring \<Rightarrow> stdin_event list \<times> stdin_buffer \<Rightarrow> stdin_event list \<times> stdin_buffer" where
  "in_turn c r = (fst r @ fst (process c (snd r)), snd (process c (snd r)))"

lemma paste_tail_append:
  assumes "clean_paste (p @ c)" "c \<noteq> []"
    and IH: "\<And>a. length a < length p \<Longrightarrow> a \<noteq> [] \<Longrightarrow> clean_input (a @ c)
      \<Longrightarrow> process (a @ c) (typing [] False None) = in_turn c (process a (typing [] False None))"
  shows "paste_tail (p @ c) = in_turn c (paste_tail p)"
proof (cases "index_of BRACKETED_PASTE_END p")
  case None
  then have "paste_tail p = ([], pasting p)" by (simp add: paste_tail_def)
  with process_pasting [OF assms(2), of p] show ?thesis by (simp add: in_turn_def)
next
  case (Some j)
  note j = Some index_of_append [OF Some, of c] after_end_append [OF Some, of c]
  have t: "take j (p @ c) = take j p" using index_of_bound [OF Some] by simp
  show ?thesis
  proof (cases "after_end j p = []")
    case True
    with j t assms(2) show ?thesis by (simp add: paste_tail_def in_turn_def)
  next
    case False
    from assms(1) j have "clean_input (after_end j p @ c)" by (simp add: clean_paste_def)
    from IH [OF after_end_shorter [OF Some] False this] j t False show ?thesis
      by (simp add: paste_tail_def in_turn_def)
  qed
qed

text \<open>A proper prefix of the mark of a paste waits in the buffer.\<close>

lemma find_end_None:
  "\<forall>k. n \<le> k \<and> k \<le> length r \<longrightarrow> isCompleteSequence (take k r) = Incomplete \<Longrightarrow> find_end r n = None"
proof (induction r n rule: find_end.induct)
  case (1 r n)
  show ?case
  proof (cases "length r < n")
    case False
    with 1(2) have "isCompleteSequence (take n r) = Incomplete" by simp
    with 1(1) [OF False this] 1(2) show ?thesis by (simp add: find_end.simps [of r n])
  qed (simp add: find_end.simps [of r n])
qed

lemma mark_waits:
  assumes "m < length BRACKETED_PASTE_START"
  shows "extractCompleteSequences (take m BRACKETED_PASTE_START) = ([], take m BRACKETED_PASTE_START)"
proof (cases m)
  case (Suc n)
  have "isCompleteSequence (take k BRACKETED_PASTE_START) = Incomplete" if "1 \<le> k" "k < 6" for k
  proof -
    from that have "k = 1 \<or> k = 2 \<or> k = 3 \<or> k = 4 \<or> k = 5" by auto
    then show ?thesis
      by (auto simp: marker_defs isCompleteSequence_def isCompleteCsiSequence_def ESC_def numeral_eq_Suc)
  qed
  moreover have "length BRACKETED_PASTE_START = 6" by (simp add: marker_defs)
  ultimately have "find_end (take m BRACKETED_PASTE_START) 1 = None"
    using assms by (intro find_end_None) (auto simp: min_def)
  moreover have "prefix [ESC] (take m BRACKETED_PASTE_START)" "take m BRACKETED_PASTE_START \<noteq> []"
    unfolding Suc by (simp_all add: marker_defs ESC_def)
  ultimately show ?thesis by (simp add: extractCompleteSequences.simps [of "take m BRACKETED_PASTE_START"])
qed simp

text \<open>When the mark of a paste becomes complete, everything before it has been handed out.\<close>

lemma start_later:
  assumes none: "index_of BRACKETED_PASTE_START x = None" and some: "index_of BRACKETED_PASTE_START (x @ c) = Some i"
    and settled: "rest_of (take i (x @ c)) = []"
  shows "\<exists>k. index_of BRACKETED_PASTE_START (rest_of x @ c) = Some k
    \<and> after_start k (rest_of x @ c) = after_start i (x @ c)
    \<and> sequences_of (take i (x @ c)) = sequences_of x @ sequences_of (take k (rest_of x @ c))"
proof -
  obtain p where p: "x = p @ rest_of x" using extract_suffix by blast
  let ?d = "length p" and ?r = "rest_of x"
  have len: "length x = ?d + length ?r" using p by (metis length_append)
  have r: "?r @ c = drop ?d (x @ c)" using p by (metis append.assoc append_eq_conv_conj)
  have "?d \<le> i \<and> sequences_of (take i (x @ c)) = sequences_of x @ sequences_of (take (i - ?d) (?r @ c))"
  proof (cases "length x \<le> i")
    case True
    then have "take i (x @ c) = x @ take (i - length x) c" "take (i - ?d) (?r @ c) = ?r @ take (i - length x) c"
      using len by simp_all
    with True len show ?thesis by (simp add: extract_append [of x] case_prod_beta)
  next
    case False
    let ?q = "drop i x" and ?u = "take i x"
    have pre: "prefix BRACKETED_PASTE_START (?q @ c)" using some False by (auto simp: index_of_Some_iff)
    have short: "length ?q < length BRACKETED_PASTE_START"
    proof (rule ccontr)
      assume "\<not> length ?q < length BRACKETED_PASTE_START"
      with pre have "prefix BRACKETED_PASTE_START ?q" by (metis leI prefixI prefix_length_prefix)
      then have "sublist BRACKETED_PASTE_START (?u @ ?q)" by (simp only: sublist_append prefix_imp_sublist simp_thms)
      with none show False by (simp add: index_of_None_iff)
    qed
    then have "?q = take (length ?q) BRACKETED_PASTE_START" using pre by (auto simp: prefix_def append_eq_append_conv_if)
    then have q: "extractCompleteSequences ?q = ([], ?q)" using mark_waits [OF short] by metis
    have u: "rest_of ?u = []" using settled False by simp
    have "extractCompleteSequences (?u @ ?q) = (sequences_of ?u, ?q)"
      unfolding extract_append [of ?u] using u q by (simp add: case_prod_beta)
    then have x: "extractCompleteSequences x = (sequences_of ?u, ?q)" by simp
    with len False have "?d = i" by simp
    with x False show ?thesis by simp
  qed
  moreover from this have "i - ?d + n + ?d = i + n" for n by simp
  then have "after_start (i - ?d) (?r @ c) = after_start i (x @ c)" by (simp only: after_start_def r drop_drop)
  moreover have "index_of BRACKETED_PASTE_START (?r @ c) = Some (i - ?d)"
    unfolding r using calculation(1) by (intro index_of_drop [OF some]) simp
  ultimately show ?thesis by blast
qed

lemma process_append:
  assumes "clean_input (r @ a @ c)" "a \<noteq> []" "c \<noteq> []"
  shows "process (a @ c) (typing r t q) = in_turn c (process a (typing r t q))"
  using assms
proof (induction "length (r @ a)" arbitrary: r a t q rule: less_induct)
  case less
  let ?x = "r @ a"
  have ac: "a @ c \<noteq> []" using less.prems by simp
  show ?case
  proof (cases "index_of BRACKETED_PASTE_START ?x")
    case (Some i)
    note i = index_of_append [OF Some, of c] after_start_append [OF Some, of c]
    have clean: "clean_paste (after_start i ?x @ c)"
      using less.prems(1) i unfolding append_assoc [symmetric] by (simp add: clean_input_paste)
    have "paste_tail (after_start i ?x @ c) = in_turn c (paste_tail (after_start i ?x))"
    proof (rule paste_tail_append [OF clean less.prems(3)])
      fix a' assume "length a' < length (after_start i ?x)" "a' \<noteq> []" "clean_input (a' @ c)"
      with less.hyps [of "[]" a' False None] less.prems(3) after_start_shorter [of i ?x]
      show "process (a' @ c) (typing [] False None) = in_turn c (process a' (typing [] False None))" by simp
    qed
    with i index_of_bound [OF Some] Some show ?thesis
      unfolding process_typing [OF ac] process_typing [OF less.prems(2)] append_assoc [symmetric]
      by (simp add: in_turn_def)
  next
    case none: None
    let ?r = "rest_of ?x" and ?q = "snd (key_events q (sequences_of ?x))"
    have one: "process a (typing r t q) = (fst (key_events q (sequences_of ?x)), typing ?r (?r \<noteq> []) ?q)"
      using none by (simp add: process_typing [OF less.prems(2)])
    show ?thesis
    proof (cases "index_of BRACKETED_PASTE_START (?x @ c)")
      case None
      obtain p where "?x = p @ ?r" using extract_suffix by blast
      with None have later: "index_of BRACKETED_PASTE_START (?r @ c) = None"
        by (metis append_assoc index_of_suffix_None)
      have "extractCompleteSequences (r @ a @ c) = (sequences_of ?x @ sequences_of (?r @ c), rest_of (?r @ c))"
        using extract_append [of ?x c] by (simp add: case_prod_beta)
      with None later show ?thesis
        unfolding one process_typing [OF ac] in_turn_def
        by (simp add: process_typing [OF less.prems(3)] key_events_append)
    next
      case (Some i)
      have "rest_of (take i (?x @ c)) = []"
        using less.prems(1) Some unfolding append_assoc [symmetric] by (simp add: clean_input_paste)
      from start_later [OF none Some this] obtain k where k:
        "index_of BRACKETED_PASTE_START (?r @ c) = Some k" "after_start k (?r @ c) = after_start i (?x @ c)"
        "sequences_of (take i (?x @ c)) = sequences_of ?x @ sequences_of (take k (?r @ c))" by blast
      with Some show ?thesis
        unfolding one process_typing [OF ac] append_assoc [symmetric] in_turn_def
        by (simp add: process_typing [OF less.prems(3)] key_events_append del: append_assoc)
    qed
  qed
qed

lemma clean_prefix: "clean_input (x @ y) \<Longrightarrow> clean_input x"
proof (induction "length x" arbitrary: x rule: less_induct)
  case less
  show ?case
  proof (cases "index_of BRACKETED_PASTE_START x")
    case (Some i)
    have "clean_paste (after_start i x)"
    proof (cases "index_of BRACKETED_PASTE_END (after_start i x)")
      case j: (Some j)
      have "clean_paste (after_start i x @ y)"
        using less.prems Some by (simp add: clean_input_paste index_of_append after_start_append)
      then have "clean_input (after_end j (after_start i x) @ y)"
        using j by (simp add: clean_paste_def index_of_append after_end_append)
      with less.hyps less_le_trans [OF after_end_shorter [OF j] after_start_shorter] j show ?thesis
        by (simp add: clean_paste_def)
    qed (simp add: clean_paste_def)
    with less.prems Some index_of_bound [OF Some] show ?thesis by (simp add: clean_input_paste index_of_append)
  qed (simp add: clean_input_paste)
qed

fun process_chunks :: "jsstring list \<Rightarrow> stdin_buffer \<Rightarrow> stdin_event list \<times> stdin_buffer" where
  "process_chunks [] b = ([], b)"
| "process_chunks (c # cs) b = (let (es, b1) = process c b; (fs, b2) = process_chunks cs b1 in (es @ fs, b2))"

lemma process_chunks_snoc: "process_chunks (cs @ [c]) b = in_turn c (process_chunks cs b)"
  by (induction cs arbitrary: b) (simp_all add: in_turn_def case_prod_beta)

lemma process_chunks_concat:
  assumes "cs \<noteq> []" "\<forall>c\<in>set cs. c \<noteq> []" "clean_input (r @ concat cs)"
  shows "process_chunks cs (typing r t q) = process (concat cs) (typing r t q)"
  using assms
proof (induction cs rule: rev_nonempty_induct)
  case (snoc c cs)
  have "concat cs \<noteq> []" using snoc.hyps snoc.prems(1) by (cases cs) auto
  moreover have "clean_input (r @ concat cs)" using snoc.prems(2) clean_prefix [of "r @ concat cs" c] by simp
  ultimately show ?case
    using snoc.IH snoc.prems process_append [of r "concat cs" c t q] by (simp add: process_chunks_snoc)
qed (simp add: case_prod_beta)

section \<open>What was typed and pasted\<close>

text \<open>
  Texts typed, each followed by a paste, and a last one; the stream the terminal sends for them, and
  the events they stand for.
\<close>

type_synonym typed_input = "(jsstring \<times> jsstring) list"

fun terminal_stream :: "typed_input \<Rightarrow> jsstring \<Rightarrow> jsstring" where
  "terminal_stream [] t = t"
| "terminal_stream ((u, p) # segs) t = u @ BRACKETED_PASTE_START @ p @ BRACKETED_PASTE_END @ terminal_stream segs t"

fun input_events :: "nat option \<Rightarrow> typed_input \<Rightarrow> jsstring \<Rightarrow> stdin_event list" where
  "input_events q [] t = fst (key_events q (sequences_of t))"
| "input_events q ((u, p) # segs) t = fst (key_events q (sequences_of u)) @ StdinPaste p # input_events None segs t"

text \<open>What is typed before a paste is complete and does not hold the mark; what is pasted does not hold its end.\<close>

fun separable :: "typed_input \<Rightarrow> jsstring \<Rightarrow> bool" where
  "separable [] t \<longleftrightarrow> \<not> sublist BRACKETED_PASTE_START t"
| "separable ((u, p) # segs) t \<longleftrightarrow>
     \<not> sublist BRACKETED_PASTE_START u \<and> rest_of u = [] \<and> \<not> sublist BRACKETED_PASTE_END p \<and> separable segs t"

lemma stream_parts:
  assumes "separable ((u, p) # segs) t"
  shows "index_of BRACKETED_PASTE_START (terminal_stream ((u, p) # segs) t) = Some (length u)"
    and "after_start (length u) (terminal_stream ((u, p) # segs) t) = p @ BRACKETED_PASTE_END @ terminal_stream segs t"
    and "index_of BRACKETED_PASTE_END (p @ BRACKETED_PASTE_END @ terminal_stream segs t) = Some (length p)"
    and "after_end (length p) (p @ BRACKETED_PASTE_END @ terminal_stream segs t) = terminal_stream segs t"
proof -
  have "index_of BRACKETED_PASTE_START u = None" "index_of BRACKETED_PASTE_END p = None"
    using assms by (simp_all add: index_of_None_iff)
  moreover have "hd BRACKETED_PASTE_START \<notin> set (tl BRACKETED_PASTE_START)" "hd BRACKETED_PASTE_END \<notin> set (tl BRACKETED_PASTE_END)"
    "BRACKETED_PASTE_START \<noteq> []" "BRACKETED_PASTE_END \<noteq> []" by (simp_all add: marker_defs)
  ultimately show "index_of BRACKETED_PASTE_START (terminal_stream ((u, p) # segs) t) = Some (length u)"
    "index_of BRACKETED_PASTE_END (p @ BRACKETED_PASTE_END @ terminal_stream segs t) = Some (length p)"
    by (simp_all add: index_of_put)
qed (simp_all add: after_start_def after_end_def)

lemma separable_clean: "separable segs t \<Longrightarrow> clean_input (terminal_stream segs t)"
proof (induction segs)
  case Nil
  then show ?case by (simp add: clean_input_paste index_of_None_iff [symmetric])
next
  case (Cons s segs)
  obtain u p where s: "s = (u, p)" by force
  note parts = stream_parts [OF Cons.prems [unfolded s]]
  have "clean_paste (p @ BRACKETED_PASTE_END @ terminal_stream segs t)"
    using Cons s parts(3,4) by (simp add: clean_paste_def)
  with Cons.prems parts(1,2) show ?case unfolding s by (subst clean_input_paste) simp
qed

lemma process_stream:
  "separable segs t \<Longrightarrow> terminal_stream segs t \<noteq> []
    \<Longrightarrow> fst (process (terminal_stream segs t) (typing [] b q)) = input_events q segs t"
proof (induction segs arbitrary: b q)
  case Nil
  then show ?case by (simp add: process_typing index_of_None_iff [symmetric])
next
  case (Cons s segs)
  obtain u p where s: "s = (u, p)" by force
  note parts = stream_parts [OF Cons.prems(1) [unfolded s]]
  have sep: "separable segs t" using Cons.prems(1) s by simp
  have "fst (paste_tail (p @ BRACKETED_PASTE_END @ terminal_stream segs t)) = StdinPaste p # input_events None segs t"
  proof (cases "terminal_stream segs t = []")
    case True
    then have "segs = []" "t = []" by (cases segs; auto simp: marker_defs)+
    with True parts(3,4) show ?thesis by (simp add: paste_tail_def)
  next
    case False
    with Cons.IH [OF sep False, of False None] parts(3,4) show ?thesis by (simp add: paste_tail_def)
  qed
  moreover have "take (length u) (terminal_stream ((u, p) # segs) t) = u" by simp
  ultimately show ?case
    using parts(1,2) process_typing [OF Cons.prems(2), of "[]" b q] unfolding s by (simp del: terminal_stream.simps)
qed

text \<open>
  C9. What is typed and pasted is recognised however the input is cut: a stream of complete
  sequences and bracketed pastes, in any chunks, gives the keys and the pasted texts in order, as
  long as the timer does not fire between chunks and no pasted text holds the end mark.
\<close>

theorem stdin_recognised:
  assumes "separable segs t" "concat chunks = terminal_stream segs t" "[] \<notin> set chunks"
  shows "fst (process_chunks chunks new_stdin) = input_events None segs t"
proof (cases "chunks = []")
  case True
  with assms(2) have "segs = []" "t = []" by (cases segs; auto simp: marker_defs)+
  with True show ?thesis by simp
next
  case False
  with assms have "terminal_stream segs t \<noteq> []" by (metis concat_eq_Nil_conv list.set_intros(1) neq_Nil_conv)
  moreover have "process_chunks chunks new_stdin = process (concat chunks) (typing [] False None)"
    using process_chunks_concat [of chunks "[]" False None] False assms separable_clean [OF assms(1)]
    by (auto simp: new_stdin_def)
  ultimately show ?thesis using process_stream [OF assms(1)] assms(2) by simp
qed

lemma scan_up_arrow: "extractCompleteSequences [27, 91, 65] = ([[27, 91, 65]], [])"
proof -
  have "isCompleteSequence [27] = Incomplete" "isCompleteSequence [27, 91] = Incomplete" "isCompleteSequence [27, 91, 65] = Complete"
    by (simp_all add: isCompleteSequence_def isCompleteCsiSequence_def ESC_def)
  then have "find_end [27, 91, 65] 1 = Some 3"
    by (simp add: find_end.simps [of "[27, 91, 65]" "Suc 0"] find_end.simps [of "[27, 91, 65]" "Suc (Suc 0)"]
        find_end.simps [of "[27, 91, 65]" "Suc (Suc (Suc 0))"] numeral_3_eq_3)
  then show ?thesis by (simp add: extractCompleteSequences.simps [of "[27, 91, 65]"] ESC_def)
qed

theorem stdin_recognised_witness:
  "fst (process_chunks [[27], [91, 65, 27, 91, 50], [48, 48, 126, 104], [105, 27, 91, 50, 48, 49], [126]] new_stdin)
    = [StdinData [27, 91, 65], StdinPaste [104, 105]]"
proof -
  have "kitty_match [27, 91, 65] = None" by (simp add: kitty_match_def)
  then have "input_events None [([27, 91, 65], [104, 105])] [] = [StdinData [27, 91, 65], StdinPaste [104, 105]]"
    by (simp add: scan_up_arrow parseUnmodifiedKittyPrintableCodepoint_def)
  moreover have "separable [([27, 91, 65], [104, 105])] []"
    by (simp add: scan_up_arrow marker_defs sublist_Cons_right)
  ultimately show ?thesis
    using stdin_recognised [of "[([27, 91, 65], [104, 105])]" "[]"
      "[[27], [91, 65, 27, 91, 50], [48, 48, 126, 104], [105, 27, 91, 50, 48, 49], [126]]"]
    by (simp add: marker_defs)
qed

text \<open>A lone escape waits in the buffer; the timer hands it out.\<close>

lemma scan_escape: "extractCompleteSequences [27] = ([], [27])"
proof -
  have "find_end [27] 1 = None"
    by (rule find_end_None) (auto simp: isCompleteSequence_def ESC_def le_Suc_eq)
  then show ?thesis by (simp add: extractCompleteSequences.simps [of "[27]"] ESC_def)
qed

lemma escape_after_timeout:
  "process [27] new_stdin = ([], typing [27] True None)
    \<and> timeout_fires (typing [27] True None) = ([StdinData [27]], new_stdin)"
proof
  have "\<not> sublist BRACKETED_PASTE_START [27]" by (simp add: marker_defs sublist_Cons_right)
  then show "process [27] new_stdin = ([], typing [27] True None)"
    by (simp add: process_typing new_stdin_def scan_escape index_of_None_iff [symmetric])
  show "timeout_fires (typing [27] True None) = ([StdinData [27]], new_stdin)"
    by (simp add: timeout_fires_def flush_stdin_def emitDataSequence_def new_stdin_def parseUnmodifiedKittyPrintableCodepoint_def
        kitty_match_def ESC_def)
qed

text \<open>An incomplete sequence that a paste follows in the same chunk is dropped, here the escape key.\<close>

lemma escape_before_paste_lost:
  "process ([27] @ BRACKETED_PASTE_START @ [120] @ BRACKETED_PASTE_END) new_stdin = ([StdinPaste [120]], new_stdin)"
proof -
  let ?s = "[27] @ BRACKETED_PASTE_START @ [120] @ BRACKETED_PASTE_END"
  have "\<not> sublist BRACKETED_PASTE_START [27]" "\<not> sublist BRACKETED_PASTE_END [120]"
    by (simp_all add: marker_defs sublist_Cons_right)
  then have "index_of BRACKETED_PASTE_START ?s = Some 1"
    "index_of BRACKETED_PASTE_END ([120] @ BRACKETED_PASTE_END @ []) = Some 1"
    using index_of_put [of BRACKETED_PASTE_START "[27]"] index_of_put [of BRACKETED_PASTE_END "[120]" "[]"]
    by (simp_all add: index_of_None_iff marker_defs)
  moreover have "after_start 1 ?s = [120] @ BRACKETED_PASTE_END @ []" "after_end 1 ([120] @ BRACKETED_PASTE_END @ []) = []"
    "take 1 ?s = [27]" "take 1 ([120] @ BRACKETED_PASTE_END @ []) = [120]"
    by (simp_all add: after_start_def after_end_def)
  moreover have "?s \<noteq> []" by simp
  ultimately show ?thesis
    using process_typing [of ?s "[]" False None] by (simp only: new_stdin_def append_Nil paste_tail_def option.case scan_escape) simp
qed

end
