(* ===== verification/Agent_Roster.thy ===== *)
theory Agent_Roster
  imports Prelude
begin

text \<open>
  The roster of agents the supervisor keeps (\<open>modes/daemon/agent-roster.ts\<close>): one row for each agent,
  with its status, found by agent, by active session and by session file. Every change is reported to
  a listener. Fields of a summary that are only shown are one value \<open>'d\<close>.
\<close>

section \<open>Summaries and rows\<close>

datatype session_activity = Working | Resting
datatype agent_runtime_kind = TopLevel | Subagent
datatype roster_status = RosterRunning | RosterIdle | RosterInactive
datatype status_label = LabelQueued | LabelRecovering | LabelFailed

text \<open>Optional flags are absent or a value; \<open>RosterSessionSummary\<close> is \<open>SessionSummary\<close> without three fields.\<close>

record 'd roster_summary =
  rs_id :: string
  rs_activity :: session_activity
  rs_isSessionActive :: bool
  rs_hasActiveHeartbeat :: "bool option"
  rs_hasRegisteredHeartbeat :: "bool option"
  rs_hasRegisteredCronJob :: "bool option"
  rs_runtimeKind :: "agent_runtime_kind option"
  rs_activeSessionId :: "string option"
  rs_sessionId :: string
  rs_sessionFile :: "string option"
  rs_isStreaming :: bool
  rs_isCompacting :: bool
  rs_isBashRunning :: "bool option"
  rs_hasRunningRlmChildren :: "bool option"
  rs_isRunningTools :: "bool option"
  rs_attachedClients :: nat
  rs_directAttachedClients :: "nat option"
  rs_parentActiveSessionId :: "string option"
  rs_parentSessionPath :: "string option"
  rs_rlmChildId :: "string option"
  rs_rosterStatus :: "roster_status option"
  rs_statusLabel :: "status_label option"
  rs_lastHeardFromAt :: "string option"
  rs_workerState :: "string option"
  rs_workerPid :: "nat option"
  rs_display :: 'd

text \<open>The counts and texts of queued actions, the streaming message and the diagnostics are values \<open>'x\<close>.\<close>

record ('d, 'x) session_summary = "'d roster_summary" +
  ss_streamingMessage :: "'x option"
  ss_sessionActions :: 'x
  ss_diagnostics :: "'x option"

definition classifyAgentStatus :: "bool \<Rightarrow> bool \<Rightarrow> bool \<Rightarrow> roster_status" where
  "classifyAgentStatus resident queuedChild busy =
     (if queuedChild then RosterRunning
      else if \<not> resident then RosterInactive
      else if busy then RosterRunning else RosterIdle)"

definition isSessionSummaryBusy :: "('d, 'z) roster_summary_scheme \<Rightarrow> bool" where
  "isSessionSummaryBusy s \<longleftrightarrow> rs_isSessionActive s \<or> rs_hasRunningRlmChildren s = Some True"

definition classifySessionRosterStatus :: "('d, 'z) roster_summary_scheme \<Rightarrow> bool \<Rightarrow> roster_status" where
  "classifySessionRosterStatus s queuedChild =
     classifyAgentStatus (truthy (rs_activeSessionId s)) queuedChild (rs_activity s = Working \<or> rs_isSessionActive s)"

record 'd worker_entry =
  we_agentId :: string
  we_queuedChild :: bool
  we_seededCwd :: bool
  we_summary :: "'d roster_summary"

record 'd agent_entry = "'d worker_entry" +
  ae_status :: roster_status
  ae_statusLabel :: "status_label option"
  ae_lastHeardFromAt :: "string option"
  ae_workerId :: "string option"

text \<open>\<open>canonicalSessionPath\<close> is the parameter \<open>canon\<close>.\<close>

definition rosterAgentIdForSummary :: "(string \<Rightarrow> string) \<Rightarrow> ('d, 'z) roster_summary_scheme \<Rightarrow> string" where
  "rosterAgentIdForSummary canon s =
     (if rs_runtimeKind s = Some Subagent \<and> truthy (rs_rlmChildId s)
      then let childId = the (rs_rlmChildId s);
               parentKey = (if truthy (rs_parentSessionPath s) then Some (canon (the (rs_parentSessionPath s)))
                            else rs_parentActiveSessionId s)
           in if truthy parentKey then the parentKey @ ''#'' @ childId else childId
      else rs_sessionId s)"

definition workerRosterEntryFromSummary :: "(string \<Rightarrow> string) \<Rightarrow> ('d, 'x) session_summary \<Rightarrow> 'd worker_entry" where
  "workerRosterEntryFromSummary canon s =
     \<lparr>we_agentId = rosterAgentIdForSummary canon s, we_queuedChild = False, we_seededCwd = False,
      we_summary = roster_summary.truncate s\<rparr>"

definition classifyWorkerRosterEntry :: "('d, 'z) worker_entry_scheme \<Rightarrow> roster_status" where
  "classifyWorkerRosterEntry e = classifySessionRosterStatus (we_summary e) (we_queuedChild e)"

text \<open>A row without its worker; the registrations are those that are still known.\<close>

definition passivatedWorkerRosterEntry :: "bool \<Rightarrow> bool \<Rightarrow> ('d, 'z) worker_entry_scheme \<Rightarrow> 'd worker_entry" where
  "passivatedWorkerRosterEntry heartbeat cronJob e =
     \<lparr>we_agentId = we_agentId e, we_queuedChild = False, we_seededCwd = False,
      we_summary = (we_summary e)\<lparr>
        rs_id := rs_sessionId (we_summary e), rs_activity := Resting, rs_isSessionActive := False, rs_isStreaming := False,
        rs_isCompacting := False, rs_attachedClients := 0, rs_activeSessionId := None, rs_directAttachedClients := None,
        rs_hasActiveHeartbeat := None, rs_hasRegisteredHeartbeat := (if heartbeat then Some True else None),
        rs_hasRegisteredCronJob := (if cronJob then Some True else None), rs_hasRunningRlmChildren := None,
        rs_isBashRunning := None, rs_isRunningTools := None, rs_workerState := None, rs_workerPid := None\<rparr>\<rparr>"

text \<open>\<open>noActions\<close> is the empty snapshot of actions; a row of the roster also gives its status and marks.\<close>

definition sessionSummaryFromWorkerEntry :: "'x \<Rightarrow> ('d, 'z) worker_entry_scheme \<Rightarrow> ('d, 'x) session_summary" where
  "sessionSummaryFromWorkerEntry noActions e =
     roster_summary.extend (we_summary e) \<lparr>ss_streamingMessage = None, ss_sessionActions = noActions, ss_diagnostics = None\<rparr>"

definition sessionSummaryFromRosterEntry :: "'x \<Rightarrow> 'd agent_entry \<Rightarrow> ('d, 'x) session_summary" where
  "sessionSummaryFromRosterEntry noActions e =
     (let s = (sessionSummaryFromWorkerEntry noActions e)\<lparr>rs_rosterStatus := Some (ae_status e)\<rparr>;
          s1 = (if ae_statusLabel e = None then s else s\<lparr>rs_statusLabel := ae_statusLabel e\<rparr>)
      in if truthy (ae_lastHeardFromAt e) then s1\<lparr>rs_lastHeardFromAt := ae_lastHeardFromAt e\<rparr> else s1)"

section \<open>The roster\<close>

datatype roster_mutation = MWrite string | MDelete string

text \<open>The map of rows keeps the order in which agents were first written.\<close>

record 'd roster =
  ro_entries :: "(string \<times> 'd agent_entry) list"
  ro_byActiveSessionId :: "string \<rightharpoonup> string"
  ro_bySessionFile :: "string \<rightharpoonup> string"

definition new_roster :: "'d roster" where
  "new_roster = \<lparr>ro_entries = [], ro_byActiveSessionId = Map.empty, ro_bySessionFile = Map.empty\<rparr>"

definition get_entry :: "'d roster \<Rightarrow> string \<Rightarrow> 'd agent_entry option" where
  "get_entry R agentId = map_of (ro_entries R) agentId"

definition has_entry :: "'d roster \<Rightarrow> string \<Rightarrow> bool" where
  "has_entry R agentId \<longleftrightarrow> get_entry R agentId \<noteq> None"

definition roster_values :: "'d roster \<Rightarrow> 'd agent_entry list" where
  "roster_values R = map snd (ro_entries R)"

definition byActiveSessionId :: "'d roster \<Rightarrow> string \<Rightarrow> 'd agent_entry option" where
  "byActiveSessionId R sid = (case ro_byActiveSessionId R sid of None \<Rightarrow> None | Some agentId \<Rightarrow> get_entry R agentId)"

definition bySessionFile :: "'d roster \<Rightarrow> string \<Rightarrow> 'd agent_entry option" where
  "bySessionFile R path = (case ro_bySessionFile R path of None \<Rightarrow> None | Some agentId \<Rightarrow> get_entry R agentId)"

definition hasSessionFile :: "'d roster \<Rightarrow> string \<Rightarrow> bool" where
  "hasSessionFile R path \<longleftrightarrow> ro_bySessionFile R path \<noteq> None"

definition entriesForWorker :: "'d roster \<Rightarrow> string \<Rightarrow> 'd agent_entry list" where
  "entriesForWorker R w = filter (\<lambda>e. ae_workerId e = Some w) (roster_values R)"

text \<open>The keys of an entry in the two indexes.\<close>

definition active_key :: "('d, 'z) worker_entry_scheme \<Rightarrow> string option" where
  "active_key e = (if truthy (rs_activeSessionId (we_summary e)) then rs_activeSessionId (we_summary e) else None)"

definition file_key :: "(string \<Rightarrow> string) \<Rightarrow> ('d, 'z) worker_entry_scheme \<Rightarrow> string option" where
  "file_key canon e = (if truthy (rs_sessionFile (we_summary e)) then map_option canon (rs_sessionFile (we_summary e)) else None)"

text \<open>A key is dropped from an index if it leads to the entry.\<close>

definition drop_key :: "string option \<Rightarrow> string \<Rightarrow> (string \<rightharpoonup> string) \<Rightarrow> string \<rightharpoonup> string" where
  "drop_key k agentId idx =
     (case k of None \<Rightarrow> idx | Some x \<Rightarrow> if idx x = Some agentId then idx(x := None) else idx)"

definition dropIndexes :: "(string \<Rightarrow> string) \<Rightarrow> 'd agent_entry \<Rightarrow> 'd roster \<Rightarrow> 'd roster" where
  "dropIndexes canon e R =
     R\<lparr>ro_byActiveSessionId := drop_key (active_key e) (we_agentId e) (ro_byActiveSessionId R),
       ro_bySessionFile := drop_key (file_key canon e) (we_agentId e) (ro_bySessionFile R)\<rparr>"

definition delete_entry :: "(string \<Rightarrow> string) \<Rightarrow> string \<Rightarrow> 'd roster \<Rightarrow> roster_mutation list \<times> 'd roster" where
  "delete_entry canon agentId R =
     (case get_entry R agentId of
        None \<Rightarrow> ([], R)
      | Some e \<Rightarrow>
          (let R1 = dropIndexes canon e R
           in ([MDelete agentId], R1\<lparr>ro_entries := AList.delete agentId (ro_entries R1)\<rparr>)))"

definition stored_entry :: "'d worker_entry \<Rightarrow> string option \<Rightarrow> status_label option \<Rightarrow> 'd agent_entry" where
  "stored_entry e workerId label =
     worker_entry.extend e \<lparr>ae_status = classifyWorkerRosterEntry e,
       ae_statusLabel = (if we_queuedChild e then Some LabelQueued else label), ae_lastHeardFromAt = None, ae_workerId = workerId\<rparr>"

definition write_entry ::
  "(string \<Rightarrow> string) \<Rightarrow> 'd worker_entry \<Rightarrow> string option \<Rightarrow> status_label option \<Rightarrow> 'd roster \<Rightarrow> roster_mutation list \<times> 'd roster"
where
  "write_entry canon e workerId label R =
     (let stored = stored_entry e workerId label; agentId = we_agentId e;
          R1 = (case get_entry R agentId of Some previous \<Rightarrow> dropIndexes canon previous R | None \<Rightarrow> R);
          (ms, R2) = (case file_key canon stored of
                        None \<Rightarrow> ([], R1)
                      | Some file \<Rightarrow>
                          (let (ms, R') = (case ro_bySessionFile R1 file of
                                             Some existing \<Rightarrow> if existing \<noteq> agentId then delete_entry canon existing R1 else ([], R1)
                                           | None \<Rightarrow> ([], R1))
                           in (ms, R'\<lparr>ro_bySessionFile := (ro_bySessionFile R')(file \<mapsto> agentId)\<rparr>)));
          R3 = (case active_key stored of
                  None \<Rightarrow> R2
                | Some sid \<Rightarrow> R2\<lparr>ro_byActiveSessionId := (ro_byActiveSessionId R2)(sid \<mapsto> agentId)\<rparr>)
      in (ms @ [MWrite agentId], R3\<lparr>ro_entries := AList.update agentId stored (ro_entries R3)\<rparr>))"

text \<open>Marks are absent, or present with a value that may be \<open>undefined\<close>.\<close>

record roster_marks =
  mk_statusLabel :: "status_label option option"
  mk_lastHeardFromAt :: "string option option"

definition amended :: "roster_marks \<Rightarrow> 'd agent_entry \<Rightarrow> 'd agent_entry" where
  "amended marks e =
     (let e1 = (case mk_statusLabel marks of None \<Rightarrow> e | Some l \<Rightarrow> e\<lparr>ae_statusLabel := l\<rparr>)
      in case mk_lastHeardFromAt marks of None \<Rightarrow> e1 | Some t \<Rightarrow> e1\<lparr>ae_lastHeardFromAt := t\<rparr>)"

definition amend_entry :: "string \<Rightarrow> roster_marks \<Rightarrow> 'd roster \<Rightarrow> roster_mutation list \<times> 'd roster" where
  "amend_entry agentId marks R =
     (case get_entry R agentId of
        None \<Rightarrow> ([], R)
      | Some e \<Rightarrow> ([MWrite agentId], R\<lparr>ro_entries := AList.update agentId (amended marks e) (ro_entries R)\<rparr>))"

end
