(* ===== verification/Roster_Sync.thy ===== *)
theory Roster_Sync
  imports Agent_Roster
begin

text \<open>
  How the roster reaches its viewers: the supervisor (\<open>modes/daemon/daemon-supervisor.ts\<close>) collects the
  changes reported by the roster, pushes them to subscribed clients in one message, and sends a
  client that could not keep up everything again; the client (\<open>modes/agents-view/roster-store.ts\<close>) keeps
  the rows it was told of. Messages of a connection arrive in the order they are made: updates that
  overtake the reply to a subscription are held back until the reply is applied.
\<close>

section \<open>The client\<close>

type_synonym 'd rows = "(string \<times> 'd agent_entry) list"

record 'd roster_update =
  up_changed :: "'d agent_entry list"
  up_removed :: "string list"
  up_resync :: bool

definition applyUpdate :: "'d roster_update \<Rightarrow> 'd rows \<Rightarrow> 'd rows" where
  "applyUpdate u rows =
     fold AList.delete (up_removed u)
       (fold (\<lambda>e. AList.update (we_agentId e) e) (up_changed u) (if up_resync u then [] else rows))"

section \<open>The supervisor\<close>

text \<open>
  A worker is known by whether a client owns it; the rows of owned workers are private. Of a client
  the supervisor knows the flags; \<open>rc_rows\<close> is what the client has after the messages sent to it.
\<close>

record 'd roster_client =
  rc_subscribed :: bool
  rc_backpressured :: bool
  rc_resyncPending :: bool
  rc_rows :: "'d rows"

record 'd supervisor =
  su_roster :: "'d roster"
  su_workers :: "string \<rightharpoonup> bool"
  su_changed :: "string list"
  su_removed :: "string list"
  su_published :: "string list"
  su_clients :: "'d roster_client list"

definition new_supervisor :: "'d supervisor" where
  "new_supervisor = \<lparr>su_roster = new_roster, su_workers = Map.empty, su_changed = [], su_removed = [], su_published = [],
     su_clients = []\<rparr>"

definition visible_to_clients :: "(string \<rightharpoonup> bool) \<Rightarrow> 'd agent_entry \<Rightarrow> bool" where
  "visible_to_clients workers e \<longleftrightarrow>
     (case ae_workerId e of
        None \<Rightarrow> True
      | Some w \<Rightarrow> (case workers w of None \<Rightarrow> True | Some owned \<Rightarrow> \<not> owned))"

fun onRosterMutation :: "roster_mutation \<Rightarrow> 'd supervisor \<Rightarrow> 'd supervisor" where
  "onRosterMutation (MDelete agentId) s =
     s\<lparr>su_changed := set_delete agentId (su_changed s), su_removed := set_add agentId (su_removed s)\<rparr>"
| "onRosterMutation (MWrite agentId) s =
     s\<lparr>su_removed := set_delete agentId (su_removed s), su_changed := set_add agentId (su_changed s)\<rparr>"

text \<open>A call of the roster, whose listener is the supervisor.\<close>

definition roster_call :: "('d roster \<Rightarrow> roster_mutation list \<times> 'd roster) \<Rightarrow> 'd supervisor \<Rightarrow> 'd supervisor" where
  "roster_call f s = (let (ms, R) = f (su_roster s) in fold onRosterMutation ms (s\<lparr>su_roster := R\<rparr>))"

subsection \<open>Pushing\<close>

text \<open>The loop over the changed agents: rows to send, rows to remove, rows published.\<close>

fun flush_changed ::
  "'d supervisor \<Rightarrow> string list \<Rightarrow> string list \<Rightarrow> 'd agent_entry list \<times> string list \<times> string list"
where
  "flush_changed s [] published = ([], [], published)"
| "flush_changed s (agentId # ids) published =
     (case get_entry (su_roster s) agentId of
        None \<Rightarrow> flush_changed s ids published
      | Some e \<Rightarrow>
          if visible_to_clients (su_workers s) e
          then (let (ch, rm, p) = flush_changed s ids (set_add agentId published) in (e # ch, rm, p))
          else if agentId \<in> set published
          then (let (ch, rm, p) = flush_changed s ids (set_delete agentId published) in (ch, agentId # rm, p))
          else flush_changed s ids published)"

text \<open>
  \<open>accepts\<close> tells for each client whether the socket takes more; a message that is written arrives in
  any case.
\<close>

definition write_update :: "bool \<Rightarrow> 'd roster_update \<Rightarrow> 'd roster_client \<Rightarrow> 'd roster_client" where
  "write_update accepted u c =
     c\<lparr>rc_rows := applyUpdate u (rc_rows c), rc_backpressured := (\<not> accepted \<or> rc_backpressured c)\<rparr>"

definition push_to_client :: "bool \<Rightarrow> 'd roster_update \<Rightarrow> 'd roster_client \<Rightarrow> 'd roster_client" where
  "push_to_client accepted u c =
     (if \<not> rc_subscribed c then c
      else if rc_backpressured c then c\<lparr>rc_resyncPending := True\<rparr>
      else write_update accepted u c)"

definition flushRosterUpdates :: "(nat \<Rightarrow> bool) \<Rightarrow> 'd supervisor \<Rightarrow> 'd supervisor" where
  "flushRosterUpdates accepts s =
     (let removed = filter (\<lambda>i. i \<in> set (su_published s)) (su_removed s);
          published = filter (\<lambda>i. i \<notin> set (su_removed s)) (su_published s);
          (changed, hidden, published') = flush_changed s (su_changed s) published;
          s1 = s\<lparr>su_changed := [], su_removed := [], su_published := published'\<rparr>;
          u = \<lparr>up_changed = changed, up_removed = removed @ hidden, up_resync = False\<rparr>
      in if changed = [] \<and> removed @ hidden = [] then s1
         else s1\<lparr>su_clients := map (\<lambda>(i, c). push_to_client (accepts i) u c) (enumerate 0 (su_clients s1))\<rparr>)"

definition rosterEntriesForClient :: "'d supervisor \<Rightarrow> 'd agent_entry list \<times> 'd supervisor" where
  "rosterEntriesForClient s =
     (let entries = filter (visible_to_clients (su_workers s)) (roster_values (su_roster s))
      in (entries, s\<lparr>su_published := fold set_add (map we_agentId entries) (su_published s)\<rparr>))"

subsection \<open>Clients\<close>

definition connect_client :: "'d supervisor \<Rightarrow> 'd supervisor" where
  "connect_client s =
     s\<lparr>su_clients := su_clients s @ [\<lparr>rc_subscribed = False, rc_backpressured = False, rc_resyncPending = False, rc_rows = []\<rparr>]\<rparr>"

text \<open>\<open>roster_subscribe\<close>; the client applies the reply as a resync.\<close>

definition roster_subscribe :: "nat \<Rightarrow> bool \<Rightarrow> 'd supervisor \<Rightarrow> 'd supervisor" where
  "roster_subscribe i accepted s =
     (if length (su_clients s) \<le> i then s
      else let (entries, s1) = rosterEntriesForClient s; c = su_clients s1 ! i
           in s1\<lparr>su_clients := (su_clients s1)[i :=
                 write_update accepted \<lparr>up_changed = entries, up_removed = [], up_resync = True\<rparr> (c\<lparr>rc_subscribed := True\<rparr>)]\<rparr>)"

definition roster_unsubscribe :: "nat \<Rightarrow> 'd supervisor \<Rightarrow> 'd supervisor" where
  "roster_unsubscribe i s =
     (if length (su_clients s) \<le> i then s
      else s\<lparr>su_clients := (su_clients s)[i := (su_clients s ! i)\<lparr>rc_subscribed := False, rc_resyncPending := False\<rparr>]\<rparr>)"

text \<open>The socket of a client has room again.\<close>

definition drain_client :: "nat \<Rightarrow> bool \<Rightarrow> 'd supervisor \<Rightarrow> 'd supervisor" where
  "drain_client i accepted s =
     (if length (su_clients s) \<le> i then s
      else let c = (su_clients s ! i)\<lparr>rc_backpressured := False\<rparr>; s1 = s\<lparr>su_clients := (su_clients s)[i := c]\<rparr>
           in if rc_resyncPending c \<and> rc_subscribed c
              then let (entries, s2) = rosterEntriesForClient s1
                   in s2\<lparr>su_clients := (su_clients s2)[i :=
                        write_update accepted \<lparr>up_changed = entries, up_removed = [], up_resync = True\<rparr>
                          (c\<lparr>rc_resyncPending := False\<rparr>)]\<rparr>
              else s1)"

text \<open>Other writes to the socket set the flag, and the end of a snapshot stream clears it.\<close>

definition set_backpressured :: "nat \<Rightarrow> bool \<Rightarrow> 'd supervisor \<Rightarrow> 'd supervisor" where
  "set_backpressured i b s =
     (if length (su_clients s) \<le> i then s
      else s\<lparr>su_clients := (su_clients s)[i := (su_clients s ! i)\<lparr>rc_backpressured := b\<rparr>]\<rparr>)"

subsection \<open>Workers\<close>

definition register_worker :: "string \<Rightarrow> bool \<Rightarrow> 'd supervisor \<Rightarrow> 'd supervisor" where
  "register_worker w owned s = s\<lparr>su_workers := (su_workers s)(w \<mapsto> owned)\<rparr>"

definition amend_all :: "roster_marks \<Rightarrow> 'd agent_entry list \<Rightarrow> 'd supervisor \<Rightarrow> 'd supervisor" where
  "amend_all marks es s = fold (\<lambda>e. roster_call (amend_entry (we_agentId e) marks)) es s"

text \<open>The owner of a worker gives it up: its rows become visible, unless the descriptor cannot be saved.\<close>

definition promote_worker :: "bool \<Rightarrow> string \<Rightarrow> 'd supervisor \<Rightarrow> 'd supervisor" where
  "promote_worker persisted w s =
     (if \<not> persisted then s
      else let s1 = s\<lparr>su_workers := (su_workers s)(w \<mapsto> False)\<rparr>
           in amend_all \<lparr>mk_statusLabel = None, mk_lastHeardFromAt = None\<rparr> (entriesForWorker (su_roster s1) w) s1)"

text \<open>Of a delta the roster matters here; the descriptor of the worker follows its root apart.\<close>

definition applyWorkerRosterDelta ::
  "(string \<Rightarrow> string) \<Rightarrow> string \<Rightarrow> 'd worker_entry list \<Rightarrow> string list \<Rightarrow> 'd supervisor \<Rightarrow> 'd supervisor"
where
  "applyWorkerRosterDelta canon w entries removedAgentIds s =
     fold (\<lambda>agentId. roster_call (delete_entry canon agentId)) removedAgentIds
       (fold (\<lambda>e. roster_call (write_entry canon e (Some w) None)) entries s)"

definition markWorkerRosterEntries :: "string \<Rightarrow> status_label option \<Rightarrow> 'd supervisor \<Rightarrow> 'd supervisor" where
  "markWorkerRosterEntries w label s =
     amend_all \<lparr>mk_statusLabel = Some label, mk_lastHeardFromAt = None\<rparr>
       (filter (\<lambda>e. we_queuedChild e \<or> rs_activeSessionId (we_summary e) \<noteq> None) (entriesForWorker (su_roster s) w)) s"

definition flip_row :: "(string \<Rightarrow> string) \<Rightarrow> bool \<Rightarrow> 'd agent_entry \<Rightarrow> 'd supervisor \<Rightarrow> 'd supervisor" where
  "flip_row canon ephemeral e =
     (if ephemeral \<or> we_queuedChild e then roster_call (delete_entry canon (we_agentId e))
      else roster_call (write_entry canon
             (passivatedWorkerRosterEntry (rs_hasRegisteredHeartbeat (we_summary e) = Some True)
                (rs_hasRegisteredCronJob (we_summary e) = Some True) e) None None))"

definition flipWorkerRosterEntriesInactive :: "(string \<Rightarrow> string) \<Rightarrow> string \<Rightarrow> bool \<Rightarrow> 'd supervisor \<Rightarrow> 'd supervisor" where
  "flipWorkerRosterEntriesInactive canon w ephemeral s =
     fold (flip_row canon ephemeral) (entriesForWorker (su_roster s) w) s"

text \<open>The end of a worker: it leaves the map, and its rows are changed at once.\<close>

definition remove_worker :: "(string \<Rightarrow> string) \<Rightarrow> string \<Rightarrow> 'd supervisor \<Rightarrow> 'd supervisor" where
  "remove_worker canon w s =
     (case su_workers s w of
        None \<Rightarrow> s
      | Some owned \<Rightarrow> flipWorkerRosterEntriesInactive canon w owned (s\<lparr>su_workers := (su_workers s)(w := None)\<rparr>))"

text \<open>The mark of workers that have not been heard of.\<close>

definition stamp_rows :: "string \<Rightarrow> string option \<Rightarrow> 'd supervisor \<Rightarrow> 'd supervisor" where
  "stamp_rows w heard s =
     amend_all \<lparr>mk_statusLabel = None, mk_lastHeardFromAt = Some heard\<rparr>
       (filter (\<lambda>e. heard = None \<or> ae_lastHeardFromAt e \<noteq> heard) (entriesForWorker (su_roster s) w)) s"

end
