(* ===== verification/Roster_Props.thy ===== *)
theory Roster_Props
  imports Roster_Sync
begin

text \<open>
  The indexes of the roster lead to the right rows, every change is reported, and what subscribed
  clients have is the visible part of the roster, up to the changes that are still to be pushed.
\<close>

section \<open>A store that reports its changes\<close>

text \<open>
  What the mutations of one call say: rows they do not name are as they were, a written row is there,
  a deleted one is not.
\<close>

definition written :: "roster_mutation list \<Rightarrow> string set" where
  "written ms = {a. MWrite a \<in> set ms}"

definition deleted :: "roster_mutation list \<Rightarrow> string set" where
  "deleted ms = {a. MDelete a \<in> set ms}"

definition accounts :: "roster_mutation list \<Rightarrow> (string \<rightharpoonup> 'e) \<Rightarrow> (string \<rightharpoonup> 'e) \<Rightarrow> bool" where
  "accounts ms l l' \<longleftrightarrow> written ms \<inter> deleted ms = {} \<and> (\<forall>a. a \<notin> written ms \<union> deleted ms \<longrightarrow> l' a = l a)
     \<and> (\<forall>a\<in>written ms. l' a \<noteq> None) \<and> (\<forall>a\<in>deleted ms. l' a = None)"

text \<open>
  The listener collects the mutations of many calls in two sets; they track the difference from the
  rows as they were.
\<close>

definition tracks :: "(string \<rightharpoonup> 'e) \<Rightarrow> (string \<rightharpoonup> 'e) \<Rightarrow> string set \<Rightarrow> string set \<Rightarrow> bool" where
  "tracks base l ch rm \<longleftrightarrow> (\<forall>a. a \<notin> ch \<union> rm \<longrightarrow> l a = base a) \<and> (\<forall>a\<in>ch. l a \<noteq> None) \<and> (\<forall>a\<in>rm. l a = None)"

locale reported_store =
  fixes lookup :: "'r \<Rightarrow> string \<rightharpoonup> 'e" and invar :: "'r \<Rightarrow> bool" and ops :: "('r \<Rightarrow> roster_mutation list \<times> 'r) set"
  assumes op_invar: "f \<in> ops \<Longrightarrow> invar r \<Longrightarrow> invar (snd (f r))"
    and op_accounts: "f \<in> ops \<Longrightarrow> invar r \<Longrightarrow> accounts (fst (f r)) (lookup r) (lookup (snd (f r)))"
begin

lemma op_tracks:
  assumes "f \<in> ops" "invar r" "tracks base (lookup r) ch rm"
  shows "tracks base (lookup (snd (f r))) (ch - deleted (fst (f r)) \<union> written (fst (f r))) (rm - written (fst (f r)) \<union> deleted (fst (f r)))"
  using op_accounts [OF assms(1,2)] assms(3) unfolding accounts_def tracks_def by (auto; metis)

end

section \<open>Indexes\<close>

text \<open>The rows by agent, and the two indexes: by file exact, by active session leading to a row with it.\<close>

definition indexed :: "(string \<Rightarrow> string) \<Rightarrow> (string \<rightharpoonup> 'd agent_entry) \<Rightarrow> (string \<rightharpoonup> string) \<Rightarrow> (string \<rightharpoonup> string) \<Rightarrow> bool" where
  "indexed canon E F A \<longleftrightarrow>
     (\<forall>f a. F f = Some a \<longleftrightarrow> (\<exists>e. E a = Some e \<and> file_key canon e = Some f))
     \<and> (\<forall>s a. A s = Some a \<longrightarrow> (\<exists>e. E a = Some e \<and> active_key e = Some s))
     \<and> (\<forall>a e. E a = Some e \<longrightarrow> we_agentId e = a \<and> ae_status e = classifyWorkerRosterEntry e)"

definition roster_ok :: "(string \<Rightarrow> string) \<Rightarrow> 'd roster \<Rightarrow> bool" where
  "roster_ok canon R \<longleftrightarrow> distinct (map fst (ro_entries R))
     \<and> indexed canon (get_entry R) (ro_bySessionFile R) (ro_byActiveSessionId R)"

lemma indexed_file: "indexed canon E F A \<Longrightarrow> F f = Some a \<longleftrightarrow> (\<exists>e. E a = Some e \<and> file_key canon e = Some f)"
  by (simp add: indexed_def)

lemma indexed_active: "indexed canon E F A \<Longrightarrow> A s = Some a \<Longrightarrow> \<exists>e. E a = Some e \<and> active_key e = Some s"
  by (simp add: indexed_def)

lemma indexed_entry:
  "indexed canon E F A \<Longrightarrow> E a = Some e \<Longrightarrow> we_agentId e = a \<and> ae_status e = classifyWorkerRosterEntry e"
  by (simp add: indexed_def)

lemma indexedI:
  assumes "\<And>f a. F f = Some a \<longleftrightarrow> (\<exists>e. E a = Some e \<and> file_key canon e = Some f)"
    and "\<And>s a. A s = Some a \<Longrightarrow> \<exists>e. E a = Some e \<and> active_key e = Some s"
    and "\<And>a e. E a = Some e \<Longrightarrow> we_agentId e = a \<and> ae_status e = classifyWorkerRosterEntry e"
  shows "indexed canon E F A"
  using assms by (simp add: indexed_def)

text \<open>A dropped key is gone, and only that.\<close>

lemma drop_key_iff:
  assumes "\<And>x. idx x = Some a \<Longrightarrow> k = Some x"
  shows "drop_key k a idx x = Some b \<longleftrightarrow> idx x = Some b \<and> b \<noteq> a"
  using assms [of x] by (auto simp: drop_key_def split: option.splits)

lemma indexed_drop:
  assumes "indexed canon E F A" "E a = Some p"
  shows "indexed canon (E(a := None)) (drop_key (file_key canon p) a F) (drop_key (active_key p) a A)"
proof (rule indexedI)
  show "drop_key (file_key canon p) a F f = Some b \<longleftrightarrow> (\<exists>e. (E(a := None)) b = Some e \<and> file_key canon e = Some f)" for f b
  proof -
    have "F x = Some a \<Longrightarrow> file_key canon p = Some x" for x using indexed_file [OF assms(1), of x a] assms(2) by simp
    from drop_key_iff [of F, OF this] show ?thesis using indexed_file [OF assms(1), of f b] by auto
  qed
  show "\<exists>e. (E(a := None)) b = Some e \<and> active_key e = Some s" if "drop_key (active_key p) a A s = Some b" for s b
  proof -
    have "A x = Some a \<Longrightarrow> active_key p = Some x" for x using indexed_active [OF assms(1), of x a] assms(2) by simp
    from drop_key_iff [of A, OF this] that show ?thesis using indexed_active [OF assms(1), of s b] by auto
  qed
qed (use indexed_entry [OF assms(1)] in \<open>auto split: if_splits\<close>)

definition put_key :: "string option \<Rightarrow> string \<Rightarrow> (string \<rightharpoonup> string) \<Rightarrow> string \<rightharpoonup> string" where
  "put_key k a idx = (case k of None \<Rightarrow> idx | Some x \<Rightarrow> idx(x \<mapsto> a))"

lemma indexed_add:
  assumes "indexed canon E F A" "E a = None" "we_agentId e = a" "ae_status e = classifyWorkerRosterEntry e"
    and "\<And>f. file_key canon e = Some f \<Longrightarrow> F f = None"
  shows "indexed canon (E(a \<mapsto> e)) (put_key (file_key canon e) a F) (put_key (active_key e) a A)"
proof (rule indexedI)
  show "put_key (file_key canon e) a F f = Some b \<longleftrightarrow> (\<exists>x. (E(a \<mapsto> e)) b = Some x \<and> file_key canon x = Some f)" for f b
  proof (cases "file_key canon e = Some f")
    case True
    then have "F f = None" by (rule assms(5))
    then have "\<not> (\<exists>x. E b = Some x \<and> file_key canon x = Some f)" using indexed_file [OF assms(1), of f b] by simp
    with True show ?thesis by (auto simp: put_key_def)
  next
    case False
    with indexed_file [OF assms(1), of f b] assms(2) show ?thesis by (auto simp: put_key_def split: option.splits)
  qed
  show "\<exists>x. (E(a \<mapsto> e)) b = Some x \<and> active_key x = Some s" if "put_key (active_key e) a A s = Some b" for s b
    using that indexed_active [OF assms(1), of s b] assms(2)
    by (cases "active_key e = Some s") (auto simp: put_key_def split: option.splits if_splits)
qed (use indexed_entry [OF assms(1)] assms(3,4) in \<open>auto split: if_splits\<close>)

lemma stored_entry_fields [simp]:
  "we_agentId (stored_entry e w l) = we_agentId e"
  "ae_status (stored_entry e w l) = classifyWorkerRosterEntry (stored_entry e w l)"
  "ae_workerId (stored_entry e w l) = w"
  by (simp_all add: stored_entry_def classifyWorkerRosterEntry_def worker_entry.defs)

lemma amended_fields [simp]:
  "we_agentId (amended m e) = we_agentId e" "we_summary (amended m e) = we_summary e"
  "ae_workerId (amended m e) = ae_workerId e"
  "ae_status (amended m e) = ae_status e" "classifyWorkerRosterEntry (amended m e) = classifyWorkerRosterEntry e"
  "active_key (amended m e) = active_key e" "file_key canon (amended m e) = file_key canon e"
  by (auto simp: amended_def classifyWorkerRosterEntry_def active_key_def file_key_def split: option.splits)

section \<open>Operations\<close>

lemma get_entry_fields [simp]:
  "get_entry (R\<lparr>ro_bySessionFile := x\<rparr>) = get_entry R" "get_entry (R\<lparr>ro_byActiveSessionId := y\<rparr>) = get_entry R"
  "get_entry (dropIndexes canon e R) = get_entry R"
  by (simp_all add: get_entry_def dropIndexes_def fun_eq_iff)

lemma get_entry_update [simp]:
  "get_entry (R\<lparr>ro_entries := AList.update a e (ro_entries R)\<rparr>) = (get_entry R)(a \<mapsto> e)"
  "get_entry (R\<lparr>ro_entries := AList.delete a (ro_entries R)\<rparr>) = (get_entry R)(a := None)"
  by (simp_all add: get_entry_def fun_eq_iff update_conv' delete_conv')

lemma delete_entry_effect:
  assumes ok: "roster_ok canon R" and run: "delete_entry canon a R = (ms, R')"
  shows "roster_ok canon R' \<and> get_entry R' = (get_entry R)(a := None) \<and> ms = (if get_entry R a = None then [] else [MDelete a])"
proof (cases "get_entry R a")
  case None
  with ok run show ?thesis by (auto simp: delete_entry_def)
next
  case (Some e)
  let ?F = "drop_key (file_key canon e) a (ro_bySessionFile R)" and ?A = "drop_key (active_key e) a (ro_byActiveSessionId R)"
  from ok have ix: "indexed canon (get_entry R) (ro_bySessionFile R) (ro_byActiveSessionId R)" and d: "distinct (map fst (ro_entries R))"
    by (simp_all add: roster_ok_def)
  have "we_agentId e = a" using indexed_entry [OF ix Some] by simp
  with run Some have r: "ms = [MDelete a]"
    "R' = (dropIndexes canon e R)\<lparr>ro_entries := AList.delete a (ro_entries (dropIndexes canon e R))\<rparr>"
    and f: "ro_bySessionFile R' = ?F" "ro_byActiveSessionId R' = ?A" "ro_entries R' = AList.delete a (ro_entries R)"
    by (auto simp: delete_entry_def Let_def dropIndexes_def)
  have g: "get_entry R' = (get_entry R)(a := None)" unfolding r(2) get_entry_update by simp
  with indexed_drop [OF ix Some] d Some r(1) f show ?thesis by (simp add: roster_ok_def distinct_delete)
qed

lemma delete_entry_fields:
  assumes "get_entry R x = Some e" "we_agentId e = x"
  shows "delete_entry canon x R = ([MDelete x],
    R\<lparr>ro_byActiveSessionId := drop_key (active_key e) x (ro_byActiveSessionId R),
      ro_bySessionFile := drop_key (file_key canon e) x (ro_bySessionFile R), ro_entries := AList.delete x (ro_entries R)\<rparr>)"
  using assms by (simp add: delete_entry_def dropIndexes_def Let_def)

text \<open>The first part of a write: the keys of the row it replaces go.\<close>

lemma previous_dropped:
  fixes R :: "'d roster" and a :: string
  assumes "roster_ok canon R"
  defines "R1 \<equiv> (case get_entry R a of Some previous \<Rightarrow> dropIndexes canon previous R | None \<Rightarrow> R)"
  shows "ro_entries R1 = ro_entries R"
    and "indexed canon ((get_entry R)(a := None)) (ro_bySessionFile R1) (ro_byActiveSessionId R1)"
proof -
  have ix: "indexed canon (get_entry R) (ro_bySessionFile R) (ro_byActiveSessionId R)" using assms(1) by (simp add: roster_ok_def)
  show "ro_entries R1 = ro_entries R" by (simp add: R1_def dropIndexes_def split: option.split)
  show "indexed canon ((get_entry R)(a := None)) (ro_bySessionFile R1) (ro_byActiveSessionId R1)"
  proof (cases "get_entry R a")
    case None
    then have "(get_entry R)(a := None) = get_entry R" by auto
    with ix None show ?thesis by (simp add: R1_def)
  next
    case (Some p)
    with indexed_drop [OF ix Some] indexed_entry [OF ix Some] show ?thesis by (simp add: R1_def dropIndexes_def)
  qed
qed

text \<open>The second part: another row of the same file goes.\<close>

definition clear_file :: "(string \<Rightarrow> string) \<Rightarrow> string \<Rightarrow> string option \<Rightarrow> 'd roster \<Rightarrow> roster_mutation list \<times> 'd roster" where
  "clear_file canon a k R1 =
     (case k of
        None \<Rightarrow> ([], R1)
      | Some file \<Rightarrow>
          (case ro_bySessionFile R1 file of
             Some existing \<Rightarrow> if existing \<noteq> a then delete_entry canon existing R1 else ([], R1)
           | None \<Rightarrow> ([], R1)))"

lemma write_entry_unfold:
  "write_entry canon e w l R =
     (let a = we_agentId e; st = stored_entry e w l;
          R1 = (case get_entry R a of Some previous \<Rightarrow> dropIndexes canon previous R | None \<Rightarrow> R);
          (ms, R2) = clear_file canon a (file_key canon st) R1
      in (ms @ [MWrite a], \<lparr>ro_entries = AList.update a st (ro_entries R2),
            ro_byActiveSessionId = put_key (active_key st) a (ro_byActiveSessionId R2),
            ro_bySessionFile = put_key (file_key canon st) a (ro_bySessionFile R2)\<rparr>))"
  by (cases "file_key canon (stored_entry e w l)"; cases "active_key (stored_entry e w l)")
    (simp_all add: write_entry_def clear_file_def put_key_def Let_def case_prod_beta)

lemma clear_file_effect:
  assumes ix: "indexed canon ((get_entry R1)(a := None)) (ro_bySessionFile R1) (ro_byActiveSessionId R1)"
    and run: "clear_file canon a k R1 = (ms, R2)" and d: "distinct (map fst (ro_entries R1))"
  shows "\<exists>ds. ms = map MDelete ds \<and> a \<notin> set ds \<and> get_entry R2 = (get_entry R1) |` (- set ds) \<and> distinct (map fst (ro_entries R2))
    \<and> indexed canon ((get_entry R2)(a := None)) (ro_bySessionFile R2) (ro_byActiveSessionId R2)
    \<and> (\<forall>f. k = Some f \<longrightarrow> ro_bySessionFile R2 f = None)"
proof (cases "\<exists>f x. k = Some f \<and> ro_bySessionFile R1 f = Some x")
  case True
  then obtain f x where fx: "k = Some f" "ro_bySessionFile R1 f = Some x" by blast
  with indexed_file [OF ix, of f x] obtain ex where ex: "((get_entry R1)(a := None)) x = Some ex" "file_key canon ex = Some f"
    by blast
  then have x: "x \<noteq> a" "get_entry R1 x = Some ex" by (auto split: if_splits)
  have "we_agentId ex = x" using indexed_entry [OF ix ex(1)] by simp
  note del = delete_entry_fields [OF x(2) this, of canon]
  have r: "ms = [MDelete x]" "R2 = snd (delete_entry canon x R1)" using run fx x(1) by (simp_all add: clear_file_def del)
  have g: "get_entry R2 = (get_entry R1) |` (- {x})"
    unfolding r(2) del by (auto simp: get_entry_def delete_conv' restrict_map_def fun_eq_iff)
  have "(get_entry R2)(a := None) = ((get_entry R1)(a := None))(x := None)" by (auto simp: g restrict_map_def fun_eq_iff)
  with indexed_drop [where E = "(get_entry R1)(a := None)", OF ix ex(1)] have "indexed canon ((get_entry R2)(a := None)) (ro_bySessionFile R2) (ro_byActiveSessionId R2)"
    unfolding r(2) del by simp
  moreover have "ro_bySessionFile R2 f = None" unfolding r(2) del using ex(2) fx(2) by (simp add: drop_key_def)
  moreover have "distinct (map fst (ro_entries R2))" unfolding r(2) del using d by (simp add: distinct_delete)
  ultimately show ?thesis using r(1) x(1) g fx(1) by (intro exI [of _ "[x]"]) simp
next
  case False
  then have "ms = [] \<and> R2 = R1" using run by (auto simp: clear_file_def split: option.splits)
  with ix d False show ?thesis by (intro exI [of _ "[]"]) (auto simp: restrict_map_def)
qed

lemma write_entry_effect:
  assumes ok: "roster_ok canon R" and run: "write_entry canon e w l R = (ms, R')"
  shows "\<exists>ds. ms = map MDelete ds @ [MWrite (we_agentId e)] \<and> we_agentId e \<notin> set ds \<and> roster_ok canon R'
    \<and> get_entry R' = ((get_entry R) |` (- set ds))(we_agentId e \<mapsto> stored_entry e w l)"
proof -
  let ?a = "we_agentId e" and ?st = "stored_entry e w l"
  let ?R1 = "case get_entry R ?a of Some previous \<Rightarrow> dropIndexes canon previous R | None \<Rightarrow> R"
  note R1 = previous_dropped [where a = ?a, OF ok]
  have g1: "get_entry ?R1 = get_entry R" using R1(1) by (simp add: get_entry_def fun_eq_iff)
  obtain ns R2 where c: "clear_file canon ?a (file_key canon ?st) ?R1 = (ns, R2)" by force
  from clear_file_effect [OF _ c] R1 g1 ok obtain ds where ds: "ns = map MDelete ds" "?a \<notin> set ds"
    "get_entry R2 = (get_entry R) |` (- set ds)" "distinct (map fst (ro_entries R2))"
    "indexed canon ((get_entry R2)(?a := None)) (ro_bySessionFile R2) (ro_byActiveSessionId R2)"
    "\<And>f. file_key canon ?st = Some f \<Longrightarrow> ro_bySessionFile R2 f = None"
    by (auto simp: roster_ok_def)
  from run c have r: "ms = ns @ [MWrite ?a]" "R' = \<lparr>ro_entries = AList.update ?a ?st (ro_entries R2),
      ro_byActiveSessionId = put_key (active_key ?st) ?a (ro_byActiveSessionId R2),
      ro_bySessionFile = put_key (file_key canon ?st) ?a (ro_bySessionFile R2)\<rparr>"
    by (simp_all add: write_entry_unfold Let_def)
  have g: "get_entry R' = (get_entry R2)(?a \<mapsto> ?st)" by (simp add: r(2) get_entry_def update_conv' fun_eq_iff)
  have "indexed canon (get_entry R') (ro_bySessionFile R') (ro_byActiveSessionId R')"
    using indexed_add [OF ds(5), of ?a ?st] ds(6) by (simp add: g) (simp add: r(2))
  moreover have "distinct (map fst (ro_entries R'))" using ds(4) by (simp add: r(2) distinct_update)
  ultimately show ?thesis using ds(1-3) r(1) g by (intro exI [of _ ds]) (simp add: roster_ok_def)
qed

lemma amend_entry_effect:
  assumes ok: "roster_ok canon R" and run: "amend_entry a marks R = (ms, R')"
  shows "roster_ok canon R' \<and> (case get_entry R a of
      None \<Rightarrow> ms = [] \<and> R' = R | Some e \<Rightarrow> ms = [MWrite a] \<and> get_entry R' = (get_entry R)(a \<mapsto> amended marks e))"
proof (cases "get_entry R a")
  case (Some e)
  with run have r: "ms = [MWrite a]" "R' = R\<lparr>ro_entries := AList.update a (amended marks e) (ro_entries R)\<rparr>"
    by (auto simp: amend_entry_def)
  have g: "get_entry R' = (get_entry R)(a \<mapsto> amended marks e)" unfolding r(2) by (rule get_entry_update)
  from ok have ix: "indexed canon (get_entry R) (ro_bySessionFile R) (ro_byActiveSessionId R)" by (simp add: roster_ok_def)
  have "indexed canon (get_entry R') (ro_bySessionFile R') (ro_byActiveSessionId R')"
  proof (rule indexedI)
    show "ro_bySessionFile R' f = Some b \<longleftrightarrow> (\<exists>x. get_entry R' b = Some x \<and> file_key canon x = Some f)" for f b
      using indexed_file [OF ix, of f b] Some by (auto simp: g r(2))
    show "\<exists>x. get_entry R' b = Some x \<and> active_key x = Some s" if "ro_byActiveSessionId R' s = Some b" for s b
      using indexed_active [OF ix, of s b] Some that by (auto simp: g) (auto simp: r(2))
  qed (use indexed_entry [OF ix] Some in \<open>auto simp: g split: if_splits\<close>)
  with ok g r Some show ?thesis by (simp add: roster_ok_def distinct_update)
qed (use assms in \<open>auto simp: amend_entry_def\<close>)

text \<open>The operations of the roster keep its invariant and report what they change.\<close>

inductive_set roster_ops :: "(string \<Rightarrow> string) \<Rightarrow> ('d roster \<Rightarrow> roster_mutation list \<times> 'd roster) set"
  for canon
where
  op_write: "write_entry canon e w l \<in> roster_ops canon"
| op_delete: "delete_entry canon a \<in> roster_ops canon"
| op_amend: "amend_entry a marks \<in> roster_ops canon"

lemma mutation_sets [simp]:
  "written [] = {}" "written (MWrite a # ms) = insert a (written ms)" "written (MDelete a # ms) = written ms"
  "deleted [] = {}" "deleted (MWrite a # ms) = deleted ms" "deleted (MDelete a # ms) = insert a (deleted ms)"
  "written (ms @ ns) = written ms \<union> written ns" "deleted (ms @ ns) = deleted ms \<union> deleted ns"
  "written (map MDelete ds) = {}" "deleted (map MDelete ds) = set ds"
  by (auto simp: written_def deleted_def)

lemma roster_op_ok:
  assumes "f \<in> roster_ops canon" "roster_ok canon R"
  shows "roster_ok canon (snd (f R)) \<and> accounts (fst (f R)) (get_entry R) (get_entry (snd (f R)))"
  using assms(1)
proof cases
  case (op_write e w l)
  obtain ms R' where r: "write_entry canon e w l R = (ms, R')" by force
  from write_entry_effect [OF assms(2) r] r show ?thesis by (auto simp: op_write accounts_def restrict_map_def)
next
  case (op_delete a)
  obtain ms R' where r: "delete_entry canon a R = (ms, R')" by force
  from delete_entry_effect [OF assms(2) r] r show ?thesis by (auto simp: op_delete accounts_def)
next
  case (op_amend a marks)
  obtain ms R' where r: "amend_entry a marks R = (ms, R')" by force
  from amend_entry_effect [OF assms(2) r] r show ?thesis by (auto simp: op_amend accounts_def split: option.splits)
qed

interpretation agent_rows: reported_store get_entry "roster_ok canon" "roster_ops canon" for canon
  using roster_op_ok by unfold_locales blast+

section \<open>Lookups\<close>

inductive roster_run :: "(string \<Rightarrow> string) \<Rightarrow> 'd roster \<Rightarrow> bool" for canon where
  run_new_roster: "roster_run canon new_roster"
| run_op: "roster_run canon R \<Longrightarrow> f \<in> roster_ops canon \<Longrightarrow> f R = (ms, R') \<Longrightarrow> roster_run canon R'"

lemma new_roster_ok: "roster_ok canon new_roster"
  by (simp add: roster_ok_def new_roster_def indexed_def get_entry_def)

lemma roster_run_ok: "roster_run canon R \<Longrightarrow> roster_ok canon R"
proof (induction rule: roster_run.induct)
  case (run_op R f ms R')
  with agent_rows.op_invar [of f canon R] show ?case by simp
qed (rule new_roster_ok)

lemma roster_values_iff: "roster_ok canon R \<Longrightarrow> e \<in> set (roster_values R) \<longleftrightarrow> get_entry R (we_agentId e) = Some e"
proof -
  assume ok: "roster_ok canon R"
  then have d: "distinct (map fst (ro_entries R))"
    and ix: "indexed canon (get_entry R) (ro_bySessionFile R) (ro_byActiveSessionId R)" by (simp_all add: roster_ok_def)
  have a: "(a, e) \<in> set (ro_entries R) \<longleftrightarrow> get_entry R a = Some e" for a using d by (simp add: get_entry_def)
  have b: "get_entry R a = Some e \<Longrightarrow> a = we_agentId e" for a using indexed_entry [OF ix, of a e] by simp
  have "e \<in> set (roster_values R) \<longleftrightarrow> (\<exists>a. (a, e) \<in> set (ro_entries R))" by (simp add: roster_values_def image_iff) (metis prod.collapse snd_conv)
  then show ?thesis unfolding a using b by metis
qed

text \<open>
  The row of a session file is found by its file and there is only one; the row found for an active
  session has that session; a row is kept under its agent and has the status of its summary.
\<close>

theorem roster_indexed:
  assumes "roster_run canon R"
  shows "(bySessionFile R f = Some e \<longleftrightarrow> e \<in> set (roster_values R) \<and> file_key canon e = Some f)
    \<and> (byActiveSessionId R s = Some e \<longrightarrow> e \<in> set (roster_values R) \<and> active_key e = Some s)
    \<and> (get_entry R a = Some e \<longrightarrow> we_agentId e = a \<and> ae_status e = classifyWorkerRosterEntry e)"
proof -
  have ok: "roster_ok canon R" by (rule roster_run_ok [OF assms])
  then have ix: "indexed canon (get_entry R) (ro_bySessionFile R) (ro_byActiveSessionId R)" by (simp add: roster_ok_def)
  have "bySessionFile R f = Some e \<longleftrightarrow> get_entry R (we_agentId e) = Some e \<and> file_key canon e = Some f"
  proof
    assume "bySessionFile R f = Some e"
    then obtain b where "ro_bySessionFile R f = Some b" "get_entry R b = Some e" by (auto simp: bySessionFile_def split: option.splits)
    with indexed_file [OF ix, of f b] indexed_entry [OF ix, of b e] show "get_entry R (we_agentId e) = Some e \<and> file_key canon e = Some f"
      by auto
  next
    assume "get_entry R (we_agentId e) = Some e \<and> file_key canon e = Some f"
    with indexed_file [OF ix, of f "we_agentId e"] show "bySessionFile R f = Some e" by (simp add: bySessionFile_def)
  qed
  moreover have "byActiveSessionId R s = Some e \<Longrightarrow> get_entry R (we_agentId e) = Some e \<and> active_key e = Some s"
  proof -
    assume "byActiveSessionId R s = Some e"
    then obtain b where "ro_byActiveSessionId R s = Some b" "get_entry R b = Some e" by (auto simp: byActiveSessionId_def split: option.splits)
    with indexed_active [OF ix, of s b] indexed_entry [OF ix, of b e] show ?thesis by auto
  qed
  ultimately show ?thesis using indexed_entry [OF ix] by (simp add: roster_values_iff [OF ok])
qed

definition demo_summary :: "unit roster_summary" where
  "demo_summary = \<lparr>rs_id = ''s'', rs_activity = Working, rs_isSessionActive = True, rs_hasActiveHeartbeat = None,
     rs_hasRegisteredHeartbeat = None, rs_hasRegisteredCronJob = None, rs_runtimeKind = None, rs_activeSessionId = Some ''s'',
     rs_sessionId = ''s'', rs_sessionFile = Some ''/s.jsonl'', rs_isStreaming = True, rs_isCompacting = False, rs_isBashRunning = None,
     rs_hasRunningRlmChildren = None, rs_isRunningTools = None, rs_attachedClients = 0, rs_directAttachedClients = None,
     rs_parentActiveSessionId = None, rs_parentSessionPath = None, rs_rlmChildId = None, rs_rosterStatus = None,
     rs_statusLabel = None, rs_lastHeardFromAt = None, rs_workerState = None, rs_workerPid = None, rs_display = ()\<rparr>"

definition demo_row :: "unit worker_entry" where
  "demo_row = \<lparr>we_agentId = ''s'', we_queuedChild = False, we_seededCwd = False, we_summary = demo_summary\<rparr>"

lemma demo_keys: "file_key id (stored_entry demo_row w l) = Some ''/s.jsonl''" "active_key (stored_entry demo_row w l) = Some ''s''"
  by (simp_all add: file_key_def active_key_def stored_entry_def demo_row_def demo_summary_def worker_entry.defs)

lemma demo_write:
  "write_entry id demo_row w l new_roster = ([MWrite ''s''], \<lparr>ro_entries = [(''s'', stored_entry demo_row w l)],
     ro_byActiveSessionId = [''s'' \<mapsto> ''s''], ro_bySessionFile = [''/s.jsonl'' \<mapsto> ''s'']\<rparr>)"
proof -
  have "we_agentId demo_row = ''s''" by (simp add: demo_row_def)
  then show ?thesis
    by (simp add: write_entry_unfold demo_keys clear_file_def put_key_def new_roster_def get_entry_def Let_def)
qed

theorem roster_indexed_witness:
  "bySessionFile (snd (write_entry id demo_row None None new_roster)) ''/s.jsonl'' = Some (stored_entry demo_row None None)"
proof -
  let ?R = "snd (write_entry id demo_row None None new_roster)"
  have "roster_run id ?R" by (rule run_op [OF run_new_roster op_write, of id demo_row None None]) (rule prod.collapse [symmetric])
  from roster_indexed [OF this, of "''/s.jsonl''" "stored_entry demo_row None None" "''s''" "''s''"] show ?thesis
    by (simp add: demo_write demo_keys roster_values_def)
qed

end
