(* ===== verification/Roster_Sync_Props.thy ===== *)
theory Roster_Sync_Props
  imports Roster_Props
begin

text \<open>
  What viewers of the roster see: after every push a subscribed client that is not behind has exactly
  the visible rows, whatever changes, subscriptions, full sockets, promotions and ends of workers
  came before.
\<close>

section \<open>Changes waiting to be pushed\<close>

abbreviation row :: "'d supervisor \<Rightarrow> string \<rightharpoonup> 'd agent_entry" where
  "row s \<equiv> get_entry (su_roster s)"

definition pending :: "'d supervisor \<Rightarrow> string set" where
  "pending s = set (su_changed s) \<union> set (su_removed s)"

definition base_ok :: "(string \<Rightarrow> string) \<Rightarrow> 'd supervisor \<Rightarrow> bool" where
  "base_ok canon s \<longleftrightarrow> roster_ok canon (su_roster s)
     \<and> (\<forall>a\<in>set (su_changed s). row s a \<noteq> None) \<and> (\<forall>a\<in>set (su_removed s). row s a = None)"

lemma set_ops [simp]: "set (set_add x xs) = insert x (set xs)" "set (set_delete x xs) = set xs - {x}"
  by (auto simp: set_add_def set_delete_def)

lemma noted:
  assumes "written ms \<inter> deleted ms = {}"
  shows "set (su_changed (fold onRosterMutation ms s)) = set (su_changed s) - deleted ms \<union> written ms"
    and "set (su_removed (fold onRosterMutation ms s)) = set (su_removed s) - written ms \<union> deleted ms"
proof -
  have "set (su_changed (fold onRosterMutation ms s)) = set (su_changed s) - deleted ms \<union> written ms
      \<and> set (su_removed (fold onRosterMutation ms s)) = set (su_removed s) - written ms \<union> deleted ms"
    using assms
  proof (induction ms arbitrary: s)
    case (Cons m ms)
    have "written ms \<inter> deleted ms = {}" using Cons.prems by (cases m) auto
    with Cons show ?case by (cases m) auto
  qed simp
  then show "set (su_changed (fold onRosterMutation ms s)) = set (su_changed s) - deleted ms \<union> written ms"
    "set (su_removed (fold onRosterMutation ms s)) = set (su_removed s) - written ms \<union> deleted ms" by simp_all
qed

lemma noted_frame [simp]:
  "su_roster (fold onRosterMutation ms s) = su_roster s" "su_workers (fold onRosterMutation ms s) = su_workers s"
  "su_published (fold onRosterMutation ms s) = su_published s" "su_clients (fold onRosterMutation ms s) = su_clients s"
proof (induction ms arbitrary: s)
  case (Cons m ms)
  { case 1 then show ?case using Cons(1) by (cases m) simp_all }
  { case 2 then show ?case using Cons(2) by (cases m) simp_all }
  { case 3 then show ?case using Cons(3) by (cases m) simp_all }
  { case 4 then show ?case using Cons(4) by (cases m) simp_all }
qed simp_all

lemma roster_call_frame [simp]:
  "su_roster (roster_call f s) = snd (f (su_roster s))" "su_workers (roster_call f s) = su_workers s"
  "su_published (roster_call f s) = su_published s" "su_clients (roster_call f s) = su_clients s"
  by (simp_all add: roster_call_def case_prod_beta)

text \<open>What calls of the roster leave alone, and that rows change only with a note.\<close>

definition changes_noted :: "'d supervisor \<Rightarrow> 'd supervisor \<Rightarrow> bool" where
  "changes_noted s s' \<longleftrightarrow> su_workers s' = su_workers s \<and> su_published s' = su_published s \<and> su_clients s' = su_clients s
     \<and> pending s \<subseteq> pending s' \<and> (\<forall>a. a \<notin> pending s' \<longrightarrow> row s' a = row s a)"

lemma changes_noted_refl: "changes_noted s s"
  by (simp add: changes_noted_def)

lemma changes_noted_trans: "changes_noted s s1 \<Longrightarrow> changes_noted s1 s2 \<Longrightarrow> changes_noted s s2"
  unfolding changes_noted_def by (metis subset_eq)

lemma call_ok:
  assumes "base_ok canon s" "f \<in> roster_ops canon"
  shows "base_ok canon (roster_call f s) \<and> changes_noted s (roster_call f s)
    \<and> written (fst (f (su_roster s))) \<union> deleted (fst (f (su_roster s))) \<subseteq> pending (roster_call f s)"
proof -
  let ?ms = "fst (f (su_roster s))" and ?R = "snd (f (su_roster s))"
  have ok: "roster_ok canon (su_roster s)" using assms(1) by (simp add: base_ok_def)
  note acc = agent_rows.op_accounts [OF assms(2) ok]
  have d: "written ?ms \<inter> deleted ?ms = {}" using acc by (simp add: accounts_def)
  have c: "set (su_changed (roster_call f s)) = set (su_changed s) - deleted ?ms \<union> written ?ms"
    "set (su_removed (roster_call f s)) = set (su_removed s) - written ?ms \<union> deleted ?ms"
    using noted [OF d, of "s\<lparr>su_roster := ?R\<rparr>"] by (simp_all add: roster_call_def case_prod_beta)
  have "tracks (row s) (row s) (set (su_changed s)) (set (su_removed s))" using assms(1) by (simp add: tracks_def base_ok_def)
  from agent_rows.op_tracks [OF assms(2) ok this] c
  have t: "tracks (row s) (get_entry ?R) (set (su_changed (roster_call f s))) (set (su_removed (roster_call f s)))" by simp
  show ?thesis
    using t c agent_rows.op_invar [OF assms(2) ok] by (auto simp: base_ok_def changes_noted_def pending_def tracks_def)
qed

text \<open>A sequence of calls, one for each item; items whose row exists are noted.\<close>

lemma calls_ok:
  assumes "base_ok canon s" "\<And>x. x \<in> set xs \<Longrightarrow> F x \<in> roster_ops canon"
  shows "base_ok canon (fold (\<lambda>x. roster_call (F x)) xs s) \<and> changes_noted s (fold (\<lambda>x. roster_call (F x)) xs s)"
  using assms
proof (induction xs arbitrary: s)
  case (Cons x xs)
  from call_ok [OF Cons.prems(1), of "F x"] Cons.prems(2) have "base_ok canon (roster_call (F x) s)" "changes_noted s (roster_call (F x) s)"
    by simp_all
  with Cons.IH [of "roster_call (F x) s"] Cons.prems(2) changes_noted_trans show ?case by fastforce
qed (simp add: changes_noted_refl)

lemma calls_note:
  assumes "base_ok canon s" "\<And>x. x \<in> set xs \<Longrightarrow> F x \<in> roster_ops canon"
    and "\<And>x R. x \<in> set xs \<Longrightarrow> get_entry R (k x) \<noteq> None \<Longrightarrow> k x \<in> written (fst (F x R)) \<union> deleted (fst (F x R))"
    and "x \<in> set xs" "row s (k x) \<noteq> None"
  shows "k x \<in> pending (fold (\<lambda>x. roster_call (F x)) xs s)"
  using assms
proof (induction xs arbitrary: s)
  case (Cons y ys)
  let ?s = "roster_call (F y) s"
  have ops: "\<And>x. x \<in> set ys \<Longrightarrow> F x \<in> roster_ops canon" using Cons.prems(2) by simp
  from call_ok [OF Cons.prems(1), of "F y"] Cons.prems(2)
  have c: "base_ok canon ?s" "changes_noted s ?s" "written (fst (F y (su_roster s))) \<union> deleted (fst (F y (su_roster s))) \<subseteq> pending ?s"
    by simp_all
  have later: "pending ?s \<subseteq> pending (fold (\<lambda>x. roster_call (F x)) ys ?s)"
    using calls_ok [where F = F and xs = ys, OF c(1) ops] by (simp add: changes_noted_def)
  show ?case
  proof (cases "k x \<in> pending ?s")
    case True
    with later show ?thesis by auto
  next
    case False
    then have same: "row ?s (k x) = row s (k x)" using c(2) by (simp add: changes_noted_def)
    have "x \<noteq> y" using False c(3) Cons.prems(3) [of y "su_roster s"] Cons.prems(5) by auto
    with Cons.prems(4) have "x \<in> set ys" by simp
    with Cons.IH [OF c(1) ops] Cons.prems(3,5) same show ?thesis by simp
  qed
qed simp

section \<open>What clients have\<close>

definition visible_row :: "'d supervisor \<Rightarrow> string \<rightharpoonup> 'd agent_entry" where
  "visible_row s a =
     (case row s a of None \<Rightarrow> None | Some e \<Rightarrow> if visible_to_clients (su_workers s) e then Some e else None)"

lemma visible_row_cong: "su_roster s' = su_roster s \<Longrightarrow> su_workers s' = su_workers s \<Longrightarrow> visible_row s' = visible_row s"
  by (rule ext) (simp add: visible_row_def split: option.split)

text \<open>A client that is not behind: rows that are not pending are the visible ones, and all it has was published.\<close>

definition mirrors :: "'d supervisor \<Rightarrow> 'd roster_client \<Rightarrow> bool" where
  "mirrors s c \<longleftrightarrow> (rc_subscribed c \<and> \<not> rc_resyncPending c \<longrightarrow>
     (\<forall>a. a \<notin> pending s \<longrightarrow> map_of (rc_rows c) a = visible_row s a)
     \<and> (\<forall>a. map_of (rc_rows c) a \<noteq> None \<longrightarrow> a \<in> set (su_published s)))"

definition supervisor_ok :: "(string \<Rightarrow> string) \<Rightarrow> 'd supervisor \<Rightarrow> bool" where
  "supervisor_ok canon s \<longleftrightarrow> base_ok canon s \<and> (\<forall>c\<in>set (su_clients s). mirrors s c)"

text \<open>Calls of the roster, and changes of visibility with a note for every row concerned.\<close>

lemma change_ok:
  assumes ok: "supervisor_ok canon s" and f: "changes_noted (s\<lparr>su_workers := W\<rparr>) s'" and base: "base_ok canon s'"
    and vis: "\<And>a e. a \<notin> pending s' \<Longrightarrow> row s a = Some e \<Longrightarrow> visible_to_clients W e = visible_to_clients (su_workers s) e"
  shows "supervisor_ok canon s'"
proof -
  have fr: "su_workers s' = W" "su_published s' = su_published s" "su_clients s' = su_clients s" "pending s \<subseteq> pending s'"
    "\<And>a. a \<notin> pending s' \<Longrightarrow> row s' a = row s a"
    using f by (auto simp: changes_noted_def pending_def)
  have "visible_row s' a = visible_row s a" if "a \<notin> pending s'" for a
    using that vis fr(1) fr(5) by (simp add: visible_row_def split: option.split)
  with ok base fr show ?thesis unfolding supervisor_ok_def mirrors_def by (auto; blast)
qed

lemma base_workers [simp]: "base_ok canon (s\<lparr>su_workers := W\<rparr>) = base_ok canon s"
  by (simp add: base_ok_def)

lemma calls_change_ok:
  assumes "supervisor_ok canon s" "\<And>x. x \<in> set xs \<Longrightarrow> F x \<in> roster_ops canon"
  shows "supervisor_ok canon (fold (\<lambda>x. roster_call (F x)) xs s)"
proof -
  have "base_ok canon s" using assms(1) by (simp add: supervisor_ok_def)
  from calls_ok [where F = F and xs = xs, OF this assms(2)] show ?thesis
    using change_ok [OF assms(1), of "su_workers s" "fold (\<lambda>x. roster_call (F x)) xs s"] by simp
qed

text \<open>All rows of a worker are noted when its visibility changes.\<close>

lemma worker_rows:
  assumes "roster_ok canon R" "get_entry R a = Some e" "ae_workerId e = Some w"
  shows "e \<in> set (entriesForWorker R w)" "we_agentId e = a"
proof -
  have "we_agentId e = a" using assms(1,2) indexed_entry by (fastforce simp: roster_ok_def)
  with assms show "e \<in> set (entriesForWorker R w)" "we_agentId e = a"
    using roster_values_iff [OF assms(1), of e] by (simp_all add: entriesForWorker_def)
qed

lemma visibility_change_ok:
  assumes ok: "supervisor_ok canon s" and W: "\<And>v. v \<noteq> w \<Longrightarrow> W v = su_workers s v"
    and ops: "\<And>x. x \<in> set (entriesForWorker (su_roster s) w) \<Longrightarrow> F x \<in> roster_ops canon"
    and note_: "\<And>x R. get_entry R (we_agentId x) \<noteq> None \<Longrightarrow> we_agentId x \<in> written (fst (F x R)) \<union> deleted (fst (F x R))"
  shows "supervisor_ok canon (fold (\<lambda>x. roster_call (F x)) (entriesForWorker (su_roster s) w) (s\<lparr>su_workers := W\<rparr>))"
    (is "supervisor_ok canon ?s'")
proof -
  let ?s = "s\<lparr>su_workers := W\<rparr>" and ?xs = "entriesForWorker (su_roster s) w"
  have base: "base_ok canon ?s" and R: "roster_ok canon (su_roster s)" using ok by (simp_all add: supervisor_ok_def base_ok_def)
  note c = calls_ok [where F = F and xs = ?xs, OF base ops]
  show ?thesis
  proof (rule change_ok [OF ok])
    fix a e assume a: "a \<notin> pending ?s'" "row s a = Some e"
    have "ae_workerId e \<noteq> Some w"
    proof
      assume "ae_workerId e = Some w"
      note wr = worker_rows [OF R a(2) this]
      have "we_agentId e \<in> pending ?s'"
        by (rule calls_note [OF base ops note_]) (use wr a(2) in simp_all)
      with a(1) wr(2) show False by simp
    qed
    then show "visible_to_clients W e = visible_to_clients (su_workers s) e"
      using W by (auto simp: visible_to_clients_def split: option.splits)
  qed (use c in simp_all)
qed

section \<open>Pushes\<close>

lemma update_rows:
  assumes "\<forall>e\<in>set es. E (we_agentId e) = Some e"
  shows "map_of (fold (\<lambda>e. AList.update (we_agentId e) e) es rows) a =
    (if a \<in> we_agentId ` set es then E a else map_of rows a)"
  using assms
proof (induction es arbitrary: rows)
  case (Cons e es)
  then show ?case by (cases "a \<in> we_agentId ` set es") (auto simp: update_conv')
qed simp

lemma delete_rows: "map_of (fold AList.delete ds rows) a = (if a \<in> set ds then None else map_of rows a)"
  by (induction ds arbitrary: rows) (auto simp: delete_conv')

lemma applyUpdate_rows:
  assumes "\<forall>e\<in>set (up_changed u). E (we_agentId e) = Some e"
  shows "map_of (applyUpdate u rows) a =
    (if a \<in> set (up_removed u) then None
     else if a \<in> we_agentId ` set (up_changed u) then E a
     else if up_resync u then None else map_of rows a)"
  by (simp add: applyUpdate_def delete_rows update_rows [OF assms])

lemma flush_changed_spec:
  assumes "flush_changed s ids p = (ch, rm, p')" "roster_ok canon (su_roster s)"
  shows "we_agentId ` set ch = {a\<in>set ids. visible_row s a \<noteq> None} \<and> (\<forall>e\<in>set ch. row s (we_agentId e) = Some e)
    \<and> set rm = {a\<in>set ids. row s a \<noteq> None \<and> visible_row s a = None} \<inter> set p
    \<and> set p' = set p - {a\<in>set ids. row s a \<noteq> None \<and> visible_row s a = None} \<union> {a\<in>set ids. visible_row s a \<noteq> None}"
  using assms(1)
proof (induction ids arbitrary: p ch rm p')
  case (Cons a ids)
  show ?case
  proof (cases "row s a")
    case None
    then have v: "visible_row s a = None" by (simp add: visible_row_def)
    from Cons.prems None have "flush_changed s ids p = (ch, rm, p')" by simp
    from Cons.IH [OF this] None v show ?thesis by auto
  next
    case (Some e)
    have id: "we_agentId e = a" using assms(2) Some indexed_entry by (fastforce simp: roster_ok_def)
    show ?thesis
    proof (cases "visible_to_clients (su_workers s) e")
      case True
      with Some have v: "visible_row s a = Some e" by (simp add: visible_row_def)
      obtain c r q where rec: "flush_changed s ids (set_add a p) = (c, r, q)" by (metis prod_cases3)
      with Cons.prems Some True have "ch = e # c" "rm = r" "p' = q" by auto
      with Cons.IH [OF rec] Some v id show ?thesis by auto
    next
      case False
      with Some have v: "visible_row s a = None" by (simp add: visible_row_def)
      obtain c r q where rec: "flush_changed s ids (set_delete a p) = (c, r, q)" by (metis prod_cases3)
      show ?thesis
      proof (cases "a \<in> set p")
        case True
        with Cons.prems Some False rec have "ch = c" "rm = a # r" "p' = q" by auto
        with Cons.IH [OF rec] Some v True show ?thesis by auto
      next
        case np: False
        with Cons.prems Some False have "flush_changed s ids p = (ch, rm, p')" by simp
        from Cons.IH [OF this] Some v np show ?thesis by auto
      qed
    qed
  qed
qed simp

lemma flush_ok:
  assumes "supervisor_ok canon s"
  shows "supervisor_ok canon (flushRosterUpdates accepts s) \<and> pending (flushRosterUpdates accepts s) = {}"
proof -
  let ?removed = "filter (\<lambda>i. i \<in> set (su_published s)) (su_removed s)"
  let ?published = "filter (\<lambda>i. i \<notin> set (su_removed s)) (su_published s)"
  have R: "roster_ok canon (su_roster s)" and gone: "\<forall>a\<in>set (su_removed s). row s a = None"
    using assms by (simp_all add: supervisor_ok_def base_ok_def)
  obtain ch rm p where f: "flush_changed s (su_changed s) ?published = (ch, rm, p)" by (metis prod_cases3)
  note spec = flush_changed_spec [OF f R]
  let ?u = "\<lparr>up_changed = ch, up_removed = ?removed @ rm, up_resync = False\<rparr>"
  let ?s1 = "s\<lparr>su_changed := [], su_removed := [], su_published := p\<rparr>"
  let ?s' = "flushRosterUpdates accepts s"
  have s': "?s' = (if ch = [] \<and> ?removed @ rm = [] then ?s1
      else ?s1\<lparr>su_clients := map (\<lambda>(i, c). push_to_client (accepts i) ?u c) (enumerate 0 (su_clients s))\<rparr>)"
    using f by (simp add: flushRosterUpdates_def Let_def)
  have fr: "su_roster ?s' = su_roster s" "su_workers ?s' = su_workers s" "su_changed ?s' = []" "su_removed ?s' = []" "su_published ?s' = p"
    by (simp_all add: s')
  then have vis: "visible_row ?s' = visible_row s" "pending ?s' = {}" "base_ok canon ?s'"
    using R visible_row_cong [of ?s' s] by (simp_all add: pending_def base_ok_def)
  have there: "\<forall>a\<in>set (su_changed s). row s a \<noteq> None" using assms by (simp add: supervisor_ok_def base_ok_def)
  have pushed: "map_of (applyUpdate ?u (rc_rows c)) a = visible_row s a \<and> (visible_row s a \<noteq> None \<longrightarrow> a \<in> set p)"
    if m: "mirrors s c" "rc_subscribed c" "\<not> rc_resyncPending c" for c a
  proof -
    have rows: "a \<notin> pending s \<Longrightarrow> map_of (rc_rows c) a = visible_row s a"
      "a \<notin> set (su_published s) \<Longrightarrow> map_of (rc_rows c) a = None" using m by (auto simp: mirrors_def)
    have map: "map_of (applyUpdate ?u (rc_rows c)) a = (if a \<in> set ?removed \<union> set rm then None
        else if a \<in> set (su_changed s) \<and> visible_row s a \<noteq> None then row s a else map_of (rc_rows c) a)"
    proof -
      have "a \<in> we_agentId ` set ch \<longleftrightarrow> a \<in> set (su_changed s) \<and> visible_row s a \<noteq> None" "\<forall>e\<in>set ch. row s (we_agentId e) = Some e"
        using spec by blast+
      then show ?thesis using applyUpdate_rows [of ?u "row s" "rc_rows c" a] by (simp cong: if_cong)
    qed
    have row: "visible_row s a \<noteq> None \<Longrightarrow> row s a = visible_row s a" by (auto simp: visible_row_def split: option.splits if_splits)
    consider "a \<in> set (su_removed s)" | "a \<in> set (su_changed s)" "a \<notin> set (su_removed s)" "visible_row s a \<noteq> None"
      | "a \<in> set (su_changed s)" "a \<notin> set (su_removed s)" "visible_row s a = None" | "a \<notin> pending s" by (auto simp: pending_def)
    then show ?thesis
    proof cases
      case 1
      then have "row s a = None" using gone by simp
      then have "visible_row s a = None" by (simp add: visible_row_def)
      with 1 rows(2) map show ?thesis by auto
    next
      case 2
      with map row spec show ?thesis by auto
    next
      case 3
      with there have "row s a \<noteq> None" by simp
      with 3 map rows(2) spec show ?thesis by (cases "a \<in> set (su_published s)") auto
    next
      case 4
      then have n: "a \<notin> set (su_changed s)" "a \<notin> set (su_removed s)" by (auto simp: pending_def)
      have "visible_row s a \<noteq> None \<Longrightarrow> a \<in> set (su_published s)" using rows(1) [OF 4] rows(2) by metis
      with n rows(1) [OF 4] map spec show ?thesis by auto
    qed
  qed
  have "mirrors ?s' c'" if c': "c' \<in> set (su_clients ?s')" for c'
  proof (cases "ch = [] \<and> ?removed @ rm = []")
    case True
    then have "c' \<in> set (su_clients s)" using c' by (simp add: s')
    moreover have "applyUpdate ?u (rc_rows c') = rc_rows c'" using True by (simp add: applyUpdate_def)
    ultimately show ?thesis using pushed [of c'] assms fr vis unfolding mirrors_def supervisor_ok_def by auto
  next
    case False
    then have "su_clients ?s' = map (\<lambda>(i, c). push_to_client (accepts i) ?u c) (enumerate 0 (su_clients s))"
      unfolding s' if_not_P [OF False] by simp
    with c' obtain i c where m: "(i, c) \<in> set (enumerate 0 (su_clients s))" and c: "c' = push_to_client (accepts i) ?u c" by auto
    from m have "c \<in> set (su_clients s)" by (auto simp: in_set_enumerate_eq)
    then have "mirrors s c" using assms by (simp add: supervisor_ok_def)
    with pushed [of c] c fr vis show ?thesis
      unfolding mirrors_def by (auto simp: push_to_client_def write_update_def)
  qed
  with vis show ?thesis by (simp add: supervisor_ok_def)
qed

section \<open>Clients\<close>

text \<open>A whole roster in one message.\<close>

lemma snapshot_rows:
  assumes "roster_ok canon (su_roster s)" "rosterEntriesForClient s = (es, s1)"
  shows "map_of (applyUpdate \<lparr>up_changed = es, up_removed = [], up_resync = True\<rparr> rows) = visible_row s"
    and "su_published s1 = fold set_add (map we_agentId es) (su_published s)" "s1 = s\<lparr>su_published := su_published s1\<rparr>"
    and "\<And>a. visible_row s a \<noteq> None \<Longrightarrow> a \<in> we_agentId ` set es"
proof -
  have r: "es = filter (visible_to_clients (su_workers s)) (roster_values (su_roster s))"
    "s1 = s\<lparr>su_published := fold set_add (map we_agentId es) (su_published s)\<rparr>"
    using assms(2) by (auto simp: rosterEntriesForClient_def Let_def)
  have es: "\<forall>e\<in>set es. visible_row s (we_agentId e) = Some e"
    using roster_values_iff [OF assms(1)] by (auto simp: r(1) visible_row_def)
  show named: "a \<in> we_agentId ` set es" if "visible_row s a \<noteq> None" for a
  proof -
    from that obtain e where e: "row s a = Some e" "visible_to_clients (su_workers s) e"
      by (auto simp: visible_row_def split: option.splits if_splits)
    then have "we_agentId e = a" using assms(1) indexed_entry by (fastforce simp: roster_ok_def)
    with e roster_values_iff [OF assms(1), of e] show ?thesis by (auto simp: r(1))
  qed
  show "map_of (applyUpdate \<lparr>up_changed = es, up_removed = [], up_resync = True\<rparr> rows) = visible_row s"
  proof (rule ext)
    fix a
    show "map_of (applyUpdate \<lparr>up_changed = es, up_removed = [], up_resync = True\<rparr> rows) a = visible_row s a"
      using applyUpdate_rows [of "\<lparr>up_changed = es, up_removed = [], up_resync = True\<rparr>" "visible_row s" rows a] es named [of a]
      by (cases "a \<in> we_agentId ` set es"; cases "visible_row s a") auto
  qed
  show "su_published s1 = fold set_add (map we_agentId es) (su_published s)" "s1 = s\<lparr>su_published := su_published s1\<rparr>"
    by (simp_all add: r(2))
qed

lemma set_fold_add [simp]: "set (fold set_add xs ys) = set xs \<union> set ys"
  by (induction xs arbitrary: ys) auto

text \<open>One client gets everything, and more may count as published.\<close>

lemma resync_ok:
  assumes ok: "supervisor_ok canon s" and e: "rosterEntriesForClient s = (es, s1)"
  shows "supervisor_ok canon (s1\<lparr>su_clients := (su_clients s1)[i :=
      write_update acc \<lparr>up_changed = es, up_removed = [], up_resync = True\<rparr> c]\<rparr>)" (is "supervisor_ok canon ?s'")
proof -
  have R: "roster_ok canon (su_roster s)" and base: "base_ok canon s" using ok by (simp_all add: supervisor_ok_def base_ok_def)
  note snap = snapshot_rows [OF R e]
  let ?c = "write_update acc \<lparr>up_changed = es, up_removed = [], up_resync = True\<rparr> c"
  have fr: "su_roster ?s' = su_roster s" "su_workers ?s' = su_workers s" "su_changed ?s' = su_changed s" "su_removed ?s' = su_removed s"
    "su_clients s1 = su_clients s"
  proof -
    obtain p where "s1 = s\<lparr>su_published := p\<rparr>" using snap(3) by blast
    then show "su_roster ?s' = su_roster s" "su_workers ?s' = su_workers s" "su_changed ?s' = su_changed s"
      "su_removed ?s' = su_removed s" "su_clients s1 = su_clients s" by simp_all
  qed
  have pub: "set (su_published ?s') = we_agentId ` set es \<union> set (su_published s)" using snap(2) by simp
  have vis: "visible_row ?s' = visible_row s" "pending ?s' = pending s" "base_ok canon ?s'"
    using base unfolding visible_row_cong [OF fr(1,2)] pending_def base_ok_def fr(1,3,4) by blast+
  have "mirrors ?s' ?c" using snap(1) snap(4) pub vis by (auto simp: mirrors_def write_update_def)
  moreover have "mirrors ?s' d" if "d \<in> set (su_clients s)" for d
  proof -
    have "mirrors s d" using ok that by (simp add: supervisor_ok_def)
    then show ?thesis unfolding mirrors_def vis pub by blast
  qed
  ultimately show ?thesis using vis(3) set_update_subset_insert [of "su_clients s" i ?c] by (auto simp: supervisor_ok_def fr(5))
qed

lemma client_flags_ok:
  assumes "supervisor_ok canon s" "mirrors s c"
  shows "supervisor_ok canon (s\<lparr>su_clients := (su_clients s)[i := c]\<rparr>)"
proof -
  let ?s = "s\<lparr>su_clients := (su_clients s)[i := c]\<rparr>"
  have "mirrors ?s d = mirrors s d" for d
    using visible_row_cong [of ?s s] by (simp add: mirrors_def pending_def)
  with assms set_update_subset_insert [of "su_clients s" i c] show ?thesis by (auto simp: supervisor_ok_def base_ok_def)
qed

section \<open>Reachable states\<close>

text \<open>The call for one row of a worker that ends.\<close>

definition flip_op :: "(string \<Rightarrow> string) \<Rightarrow> bool \<Rightarrow> 'd agent_entry \<Rightarrow> 'd roster \<Rightarrow> roster_mutation list \<times> 'd roster" where
  "flip_op canon ephemeral e =
     (if ephemeral \<or> we_queuedChild e then delete_entry canon (we_agentId e)
      else write_entry canon
             (passivatedWorkerRosterEntry (rs_hasRegisteredHeartbeat (we_summary e) = Some True)
                (rs_hasRegisteredCronJob (we_summary e) = Some True) e) None None)"

lemma flip_row_call: "flip_row canon ephemeral = (\<lambda>e. roster_call (flip_op canon ephemeral e))"
  by (simp add: fun_eq_iff flip_row_def flip_op_def)

lemma flip_op:
  "flip_op canon ephemeral e \<in> roster_ops canon"
  "get_entry R (we_agentId e) \<noteq> None
    \<Longrightarrow> we_agentId e \<in> written (fst (flip_op canon ephemeral e R)) \<union> deleted (fst (flip_op canon ephemeral e R))"
  by (auto simp: flip_op_def write_entry_unfold passivatedWorkerRosterEntry_def delete_entry_def Let_def case_prod_beta
      intro: roster_ops.intros)

inductive roster_served :: "(string \<Rightarrow> string) \<Rightarrow> 'd supervisor \<Rightarrow> bool" for canon where
  served_new: "roster_served canon new_supervisor"
| served_call: "roster_served canon s \<Longrightarrow> f \<in> roster_ops canon \<Longrightarrow> roster_served canon (roster_call f s)"
| served_delta: "roster_served canon s \<Longrightarrow> roster_served canon (applyWorkerRosterDelta canon w es ids s)"
| served_mark: "roster_served canon s \<Longrightarrow> roster_served canon (markWorkerRosterEntries w label s)"
| served_stamp: "roster_served canon s \<Longrightarrow> roster_served canon (stamp_rows w heard s)"
| served_flush: "roster_served canon s \<Longrightarrow> roster_served canon (flushRosterUpdates accepts s)"
| served_connect: "roster_served canon s \<Longrightarrow> roster_served canon (connect_client s)"
| served_subscribe: "roster_served canon s \<Longrightarrow> roster_served canon (roster_subscribe i acc s)"
| served_unsubscribe: "roster_served canon s \<Longrightarrow> roster_served canon (roster_unsubscribe i s)"
| served_drain: "roster_served canon s \<Longrightarrow> roster_served canon (drain_client i acc s)"
| served_pressure: "roster_served canon s \<Longrightarrow> roster_served canon (set_backpressured i b s)"
| served_register: "roster_served canon s \<Longrightarrow> entriesForWorker (su_roster s) w = [] \<Longrightarrow> roster_served canon (register_worker w owned s)"
| served_promote: "roster_served canon s \<Longrightarrow> roster_served canon (promote_worker persisted w s)"
| served_remove: "roster_served canon s \<Longrightarrow> roster_served canon (remove_worker canon w s)"

lemma roster_served_ok: "roster_served canon s \<Longrightarrow> supervisor_ok canon s"
proof (induction rule: roster_served.induct)
  case served_new
  show ?case by (simp add: new_supervisor_def supervisor_ok_def base_ok_def new_roster_ok)
next
  case (served_call s f)
  then show ?case using calls_change_ok [of canon s "[f]" "\<lambda>f. f"] by simp
next
  case (served_delta s w es ids)
  then show ?case unfolding applyWorkerRosterDelta_def by (intro calls_change_ok roster_ops.intros)
next
  case (served_mark s w label)
  then show ?case unfolding markWorkerRosterEntries_def amend_all_def by (intro calls_change_ok roster_ops.intros)
next
  case (served_stamp s w heard)
  then show ?case unfolding stamp_rows_def amend_all_def by (intro calls_change_ok roster_ops.intros)
next
  case (served_flush s accepts)
  then show ?case using flush_ok by blast
next
  case (served_connect s)
  have "mirrors (connect_client s) d = mirrors s d" for d
    using visible_row_cong [of "connect_client s" s] by (simp add: mirrors_def pending_def connect_client_def)
  with served_connect.IH show ?case by (auto simp: supervisor_ok_def base_ok_def connect_client_def mirrors_def)
next
  case (served_subscribe s i acc)
  obtain es s1 where e: "rosterEntriesForClient s = (es, s1)" by force
  with resync_ok [OF served_subscribe.IH e] served_subscribe.IH show ?case by (simp add: roster_subscribe_def Let_def)
next
  case (served_unsubscribe s i)
  then show ?case by (auto simp: roster_unsubscribe_def mirrors_def intro!: client_flags_ok)
next
  case (served_drain s i acc)
  show ?case
  proof (cases "length (su_clients s) \<le> i")
    case False
    let ?c = "(su_clients s ! i)\<lparr>rc_backpressured := False\<rparr>" and ?s = "s\<lparr>su_clients := (su_clients s)[i := (su_clients s ! i)\<lparr>rc_backpressured := False\<rparr>]\<rparr>"
    have "mirrors s (su_clients s ! i)" using served_drain.IH False by (simp add: supervisor_ok_def)
    then have "mirrors s ?c" by (simp add: mirrors_def)
    then have ok: "supervisor_ok canon ?s" by (rule client_flags_ok [OF served_drain.IH])
    obtain es s1 where e: "rosterEntriesForClient ?s = (es, s1)" by force
    from ok resync_ok [OF ok e] False e show ?thesis by (simp add: drain_client_def Let_def)
  qed (use served_drain.IH in \<open>simp add: drain_client_def\<close>)
next
  case (served_pressure s i b)
  show ?case
  proof (cases "length (su_clients s) \<le> i")
    case False
    then have "mirrors s (su_clients s ! i)" using served_pressure.IH by (simp add: supervisor_ok_def)
    then have "mirrors s ((su_clients s ! i)\<lparr>rc_backpressured := b\<rparr>)" by (simp add: mirrors_def)
    from client_flags_ok [OF served_pressure.IH this] False show ?thesis by (simp add: set_backpressured_def)
  qed (use served_pressure.IH in \<open>simp add: set_backpressured_def\<close>)
next
  case (served_register s w owned)
  have "supervisor_ok canon (fold (\<lambda>x. roster_call (delete_entry canon (we_agentId x)))
      (entriesForWorker (su_roster s) w) (s\<lparr>su_workers := (su_workers s)(w \<mapsto> owned)\<rparr>))"
    by (rule visibility_change_ok [OF served_register.IH]) (auto intro: roster_ops.intros simp: delete_entry_def Let_def)
  with served_register.hyps(2) show ?case by (simp add: register_worker_def)
next
  case (served_promote s persisted w)
  have "supervisor_ok canon (fold (\<lambda>x. roster_call (amend_entry (we_agentId x) \<lparr>mk_statusLabel = None, mk_lastHeardFromAt = None\<rparr>))
      (entriesForWorker (su_roster s) w) (s\<lparr>su_workers := (su_workers s)(w \<mapsto> False)\<rparr>))"
    by (rule visibility_change_ok [OF served_promote.IH]) (auto intro: roster_ops.intros simp: amend_entry_def)
  then show ?case using served_promote.IH by (simp add: promote_worker_def amend_all_def Let_def)
next
  case (served_remove s w)
  show ?case
  proof (cases "su_workers s w")
    case (Some owned)
    have "supervisor_ok canon (fold (\<lambda>x. roster_call (flip_op canon owned x))
        (entriesForWorker (su_roster s) w) (s\<lparr>su_workers := (su_workers s)(w := None)\<rparr>))"
      by (rule visibility_change_ok [OF served_remove.IH]; (rule flip_op(1) | erule flip_op(2) | simp))
    with Some show ?thesis by (simp add: remove_worker_def flipWorkerRosterEntriesInactive_def flip_row_call)
  qed (use served_remove.IH in \<open>simp add: remove_worker_def\<close>)
qed

text \<open>
  C33. After a push, every subscribed client that is not waiting to be sent everything again has
  exactly the visible rows of the roster, whatever rows were written, replaced, deleted or marked,
  whatever workers were registered, promoted or removed, and whatever subscriptions and full sockets
  came before.
\<close>

theorem roster_mirrored:
  assumes "roster_served canon s" "c \<in> set (su_clients (flushRosterUpdates accepts s))" "rc_subscribed c" "\<not> rc_resyncPending c"
  shows "map_of (rc_rows c) a =
    (case get_entry (su_roster s) a of
       None \<Rightarrow> None
     | Some e \<Rightarrow> if visible_to_clients (su_workers s) e then Some e else None)"
proof -
  let ?s = "flushRosterUpdates accepts s"
  have "supervisor_ok canon ?s" "pending ?s = {}" using flush_ok [OF roster_served_ok [OF assms(1)]] by simp_all
  then have "map_of (rc_rows c) a = visible_row ?s a" using assms(2-4) by (simp add: supervisor_ok_def mirrors_def)
  moreover have "visible_row ?s = visible_row s"
    by (rule visible_row_cong) (simp_all add: flushRosterUpdates_def Let_def case_prod_beta)
  ultimately show ?thesis by (simp add: visible_row_def)
qed

text \<open>A client that fell behind is no longer behind once its socket has drained.\<close>

lemma drained_not_behind:
  "i < length (su_clients s) \<Longrightarrow> rc_subscribed (su_clients s ! i)
    \<Longrightarrow> \<not> rc_resyncPending (su_clients (drain_client i acc s) ! i)"
  by (auto simp: drain_client_def Let_def write_update_def rosterEntriesForClient_def)

text \<open>A client subscribes, then an agent appears.\<close>

definition demo_watched :: "unit supervisor" where
  "demo_watched = roster_call (write_entry id demo_row None None) (roster_subscribe 0 True (connect_client new_supervisor))"

theorem roster_mirrored_witness:
  "\<exists>c. su_clients (flushRosterUpdates (\<lambda>_. True) demo_watched) = [c] \<and> map_of (rc_rows c) ''s'' = Some (stored_entry demo_row None None)"
proof -
  have run: "roster_served id demo_watched"
    unfolding demo_watched_def by (intro served_call served_subscribe served_connect served_new op_write)
  have st: "su_roster demo_watched = \<lparr>ro_entries = [(''s'', stored_entry demo_row None None)],
      ro_byActiveSessionId = [''s'' \<mapsto> ''s''], ro_bySessionFile = [''/s.jsonl'' \<mapsto> ''s'']\<rparr>"
    "su_clients demo_watched = [\<lparr>rc_subscribed = True, rc_backpressured = False, rc_resyncPending = False, rc_rows = []\<rparr>]"
    "su_workers demo_watched = Map.empty"
    by (simp_all add: demo_watched_def roster_subscribe_def connect_client_def new_supervisor_def rosterEntriesForClient_def Let_def
        write_update_def applyUpdate_def demo_write roster_values_def) (simp_all add: new_roster_def)
  let ?cs = "su_clients (flushRosterUpdates (\<lambda>_. True) demo_watched)"
  have "length ?cs = 1" by (simp add: flushRosterUpdates_def Let_def case_prod_beta st)
  then obtain c where cs: "?cs = [c]" by (auto simp: length_Suc_conv)
  have "\<forall>c\<in>set ?cs. rc_subscribed c \<and> \<not> rc_resyncPending c"
    by (simp add: flushRosterUpdates_def Let_def case_prod_beta st push_to_client_def write_update_def)
  with cs have c: "?cs = [c]" "rc_subscribed c" "\<not> rc_resyncPending c" by simp_all
  have "map_of (rc_rows c) ''s'' = Some (stored_entry demo_row None None)"
    using roster_mirrored [OF run, of c "\<lambda>_. True" "''s''"] c by (simp add: st get_entry_def visible_to_clients_def)
  with c(1) show ?thesis by blast
qed

end
