(* ===== verification/Spec2Isabelle.thy ===== *)
theory Spec2Isabelle
  imports Truncate Session_Branched Branch_Summarization Agent_Examples Transform_Messages Session_Lease_Props
    Edit_Diff_Props Private_Framing_Props Jsonl Semaphore Action_Store_Props Command_Journal_Props
    Rlm_Ledger_Props Output_Accumulator_Props Compact_Stream_Props Proxy_Stream_Props Snapshot_Cache_Props
    Stdin_Buffer_Props Roster_Sync_Props
begin

text \<open>
  Verification of the core of \<open>amide\<close>, a coding agent: the conversation store, the contexts it gives the
  model, and the loop that talks to the model and runs its tools.

  The program. A session is an append-only tree of entries in a JSONL file, kept by \<open>SessionManager\<close>
  (\<open>packages/coding-agent/src/core/session-manager.ts\<close>). The branch of the current leaf, from the root, is
  turned into the messages the model sees (\<open>buildSessionContext\<close>, \<open>core/messages.ts\<close>); long branches are
  compacted (\<open>core/compaction\<close>) and abandoned ones summarised. The agent loop
  (\<open>packages/agent/src/agent-loop.ts\<close>) sends such messages to a provider, streams the answer, runs the
  tools it calls and goes on until nothing is left to do; the \<open>Agent\<close> class (\<open>agent.ts\<close>) keeps the
  transcript and the queues of messages waiting for a run. A history is rewritten for the model it is
  sent to (\<open>packages/ai/src/providers/transform-messages.ts\<close>). Tool output is cut to size
  (\<open>core/tools/truncate.ts\<close>), files are edited by text replacement (\<open>core/tools/edit-diff.ts\<close>).

  Around a session: a lease on its file keeps other processes out (\<open>core/session-lease.ts\<close>), what the
  user submits waits in the action store (\<open>core/session-action-store.ts\<close>), and a daemon talks to session
  workers in frames (\<open>modes/session-worker/private-framing.ts\<close>) or lines (\<open>modes/rpc/jsonl.ts\<close>) and
  journals the commands it admits (\<open>modes/daemon/command-recovery-journal.ts\<close>). Answers of a model are
  streams of events (\<open>packages/ai/src/utils/event-stream.ts\<close>), which also come from a server
  (\<open>packages/agent/src/proxy.ts\<close>) or from a worker as deltas (\<open>modes/daemon/compact-session-stream.ts\<close>);
  a client that attaches gets the transcript in chunks (\<open>modes/daemon/snapshot-transcript-cache.ts\<close>). Which session spawned
  which is kept in a ledger (\<open>modes/daemon/rlm-ledger.ts\<close>) over an event log (\<open>core/event-log.ts\<close>).

  Theories, in the order of the code.

  Shared: \<open>Prelude\<close> (lists, options, association lists, JavaScript truthiness, sets in insertion order),
  \<open>Utf\<close> (UTF-16 code units and their UTF-8 encoding), \<open>Index_Of\<close> (searching a text), \<open>Json\<close>, \<open>Usage\<close> (\<open>core/usage.ts\<close>), \<open>Messages\<close>
  (\<open>core/messages.ts\<close> and the message types of \<open>packages/ai\<close>), \<open>Message_Pairs\<close> (tool results follow
  their calls).

  Truncation: \<open>Truncate\<close>, with the contracts of the three cutting functions.

  Sessions: \<open>Session_Entries\<close> (entry types, migrations, child usage, \<open>buildSessionContext\<close>),
  \<open>Session_Paths\<close> (well-formed trees, and that walks up the tree end), \<open>Session_Files\<close> (loading,
  the file system), \<open>Session_Depth\<close> (recursion depth), \<open>Session_Manager\<close> (the class, one definition per
  method, writes may fail), \<open>Session_Invariant\<close> (its class invariant over reachable states),
  \<open>Session_Durable\<close> (file and memory agree), \<open>Session_Context\<close> (what appends, branches and compactions do
  to the context), \<open>Session_Fork\<close> and \<open>Session_Branched\<close> (copies of sessions).

  Compaction: \<open>Compaction\<close> (\<open>compaction.ts\<close>, \<open>utils.ts\<close>), \<open>Compaction_Props\<close> (nothing of the context is
  lost between summary and kept part, no result loses its call, how much is kept),
  \<open>Branch_Summarization\<close> (\<open>branch-summarization.ts\<close>).

  Agent: \<open>Agent_Types\<close> (\<open>types.ts\<close>; steps that may throw), \<open>Agent_Loop\<close> (one response, one batch of tool
  calls), \<open>Agent_Run\<close> (the loops and entry points), \<open>Agent_Log\<close>, \<open>Agent_Loop_Props\<close> and \<open>Agent_Batch\<close> (what a
  run announces and returns, order and errors of tool calls, aborts), \<open>Agent_Loop_Examples\<close>,
  \<open>Message_Queue\<close> (\<open>PendingMessageQueue\<close>), \<open>Loop_Invariant\<close> (what a run keeps of its host), \<open>Agent\<close> (the
  class), \<open>Agent_Props\<close> (state, idle and refusal), \<open>Agent_Examples\<close>, \<open>Transform_Messages\<close> (history for
  another model: every call it sends is answered).

  Tools: \<open>Edit_Diff\<close> (matching and replacing, the \<open>edit\<close> tool), \<open>Edit_Diff_Props\<close> (what an edit changes
  and what it leaves), \<open>Output_Accumulator\<close> and \<open>Output_Accumulator_Props\<close> (the rolling tail of a command's
  output shows what cutting the whole output would show).

  Processes and queues: \<open>Session_Lease\<close> and \<open>Session_Lease_Props\<close> (one owner at a time; a dead owner's
  lease can be taken), \<open>Action_Store\<close> and \<open>Action_Store_Props\<close> (two lanes of actions in a heap, their life
  cycle, the lists they refine), \<open>Semaphore\<close> (\<open>utils/semaphore.ts\<close>, in a system of tasks).

  Protocols: \<open>Chunk_Decoder\<close> (decoders of streams cut anywhere), \<open>Private_Framing\<close> and
  \<open>Private_Framing_Props\<close> (what is sent arrives, the buffer is bounded), \<open>Jsonl\<close> (the lines read are those
  of the stream), \<open>Command_Journal\<close> and \<open>Command_Journal_Props\<close> (a command is admitted once, across
  crashes, and what a torn write costs).

  Streams: \<open>Text_Decoder\<close> (TextDecoder on chunks of bytes), \<open>Json_Repair\<close> (\<open>utils/json-parse.ts\<close>; repair
  gives a normal form), \<open>Event_Stream\<close> (order of events, waiting consumers), \<open>Assistant_Stream\<close> (what a
  provider's stream does to a message), \<open>Compact_Stream\<close> and \<open>Compact_Stream_Props\<close> (deltas rebuild the
  messages), \<open>Proxy_Stream\<close> and \<open>Proxy_Stream_Props\<close> (the cuts of the body do not matter, the content is
  that of the server, when a result never comes), \<open>Snapshot_Cache\<close> and \<open>Snapshot_Cache_Props\<close> (packing,
  files, waiting readers).

  Roster: \<open>Agent_Roster\<close> (\<open>modes/daemon/agent-roster.ts\<close>), \<open>Roster_Sync\<close> (its publication by the supervisor
  and \<open>modes/agents-view/roster-store.ts\<close>), \<open>Roster_Props\<close> (the indexes lead to the right rows, every change
  is reported) and \<open>Roster_Sync_Props\<close> (clients have the visible rows).

  Terminal: \<open>Stdin_Buffer\<close> and \<open>Stdin_Buffer_Props\<close> (\<open>packages/tui/src/stdin-buffer.ts\<close>; keys and pastes are
  recognised however the input is cut).

  Logs: \<open>Utf8_Stream\<close> (the decoder of the Encoding Standard), \<open>Event_Log\<close> and \<open>Event_Log_Props\<close> (what was
  acknowledged is replayed, over crashes; when a log is spoiled), \<open>Rlm_Ledger\<close> and \<open>Rlm_Ledger_Props\<close>
  (edges, families, deletion, seeding; one live edge for a child).

  Interfaces. \<open>message_fifo\<close> is what the agent relies on in its queues; \<open>PendingMessageQueue\<close> provides it.
  \<open>loop_invariant\<close> is what the loop asks of its host to keep an invariant over a whole run; the
  configuration made by \<open>Agent.createLoopConfig\<close> provides it for the invariant that the state is the
  reduction of the events. \<open>chunk_decoder\<close> is a decoder that may be fed piecewise; the frame decoder,
  the line reader, the UTF-8 decoder, the line loop of the proxy and the scanner of terminal input
  provide it, and from it follows that the cuts of a stream cannot be seen.
  \<open>record_log\<close> is what the ledger relies on in the event log, that an append adds its records at the end
  of what is replayed. \<open>reported_store\<close> is what the publication relies on in the roster, that the reported
  mutations account for every change of a row. The
  interfaces of the session theories are in their files.

  Conventions. A class is a record, a method a function that returns the changed record. A throw is
  \<open>Inl\<close>, with the state as it is at the throw. The outside world (files, clock, random ids, provider,
  tools, hooks, listeners) is a parameter, or a function on an abstract host state; an awaited call
  fulfils, rejects or is overtaken by an abort, and the host state it returns holds whatever else
  happened meanwhile. Loops that may not end are \<open>partial_function\<close>s whose \<open>None\<close> is a call that never
  returns; that they return where they should is proved (\<open>wf_walk\<close>, \<open>git_state_recorded_once\<close>,
  \<open>fork_copies_branches\<close>, \<open>collect_entries_spec\<close>). A run of the agent ends only when the provider lets
  it, so its properties are about runs that return, and the batches of tool calls, which always end,
  have their own theorem. Fuel is used only to write
  numbers in decimal, where it exceeds the number. Numbers of tokens and times are integers, costs exact
  rationals, string lengths are in UTF-16 code units as in JavaScript.

  Parallel tool calls. Each call passes four stages (prepared, executed, through the hook, ended); the
  scheduler of the host picks which call takes its next stage. What listeners do between a partial
  result and the end of a call is part of the stage.

  Not modelled: the session orchestration of \<open>core/agent-session.ts\<close>, user interfaces, the process
  management of the daemon, clients of model services, package and resource loading, settings, extensions, which
  are mostly calls of the outside world; of the parts above, listing sessions, the nested tree of
  \<open>getTree\<close>, the validators of persisted outcome messages, the diff an edit shows, and assignments to
  the state of an agent during a run.
\<close>

end
